(* ===== verification/Plum_Prelude.thy ===== *)
theory Plum_Prelude
  imports "HOL-Library.Word"
begin

unbundle bit_operations_syntax

text \<open>
  The vocabulary every other theory of the development shares: the C integer types, the
  ways in which a piece of kernel code can stop (\<open>fault\<close>), the composition of fallible
  steps (\<open>rbind\<close>, \<open>check\<close>, \<open>rfold\<close>) and the generic facts about lists, folds, function
  updates and machine words that the component proofs use.
\<close>

section \<open>C integer types\<close>

type_synonym u8 = "8 word"
type_synonym u16 = "16 word"
type_synonym u32 = "32 word"
type_synonym u64 = "64 word"

text \<open>Loops run over ranges of up to tens of thousands of indices, which are not to be written out.\<close>

declare upt_rec_numeral [simp del]

section \<open>Collections of facts\<close>

named_theorems frame_simps \<open>fields an operation leaves alone\<close>
named_theorems result_simps \<open>evaluation of the composition of fallible steps\<close>

section \<open>Faults and fallible steps\<close>

text \<open>
  \<open>panic\<close> and a failing \<open>assert\<close> (include/sys/sbunix.h) print a message and loop for ever;
  a read through NULL, an access outside an object and a variadic argument of the wrong type
  are undefined behaviour. Each is a value of \<open>fault\<close>: the code behind it never runs.
  \<open>Object_Overwritten\<close> is a write to memory into the page of one of the kernel's objects, which the model keeps in heaps of their own;
  \<open>Diverge\<close> is a loop that has not ended when its bound is used up.
\<close>

datatype fault =
    Panic string
  | Assert_Fail string
  | Null_Deref
  | Out_Of_Bounds
  | Bad_Vararg
  | Page_Fault u64
  | Object_Overwritten u64
  | Diverge

definition rbind :: "'e + 'a \<Rightarrow> ('a \<Rightarrow> 'e + 'b) \<Rightarrow> 'e + 'b" where
  "rbind m f = (case m of Inl e \<Rightarrow> Inl e | Inr x \<Rightarrow> f x)"

definition check :: "bool \<Rightarrow> 'e \<Rightarrow> 'e + unit" where
  "check b e = (if b then Inr () else Inl e)"

lemma rbind_Inl [simp, result_simps]: "rbind (Inl e) f = Inl e"
  by (simp add: rbind_def)

lemma rbind_Inr [simp, result_simps]: "rbind (Inr x) f = f x"
  by (simp add: rbind_def)

lemma rbind_eq_Inr [result_simps]: "rbind m f = Inr y \<longleftrightarrow> (\<exists>x. m = Inr x \<and> f x = Inr y)"
  by (cases m) auto

lemma rbind_eq_Inl [result_simps]:
  "rbind m f = Inl e \<longleftrightarrow> m = Inl e \<or> (\<exists>x. m = Inr x \<and> f x = Inl e)"
  by (cases m) auto

lemma rbind_assoc: "rbind (rbind m f) g = rbind m (\<lambda>x. rbind (f x) g)"
  by (cases m) auto

lemma rbind_cong [fundef_cong]:
  "m = m' \<Longrightarrow> (\<And>x. m' = Inr x \<Longrightarrow> f x = f' x) \<Longrightarrow> rbind m f = rbind m' f'"
  by (cases m') auto

lemma check_True [simp, result_simps]: "check True e = Inr ()"
  by (simp add: check_def)

lemma check_False [simp, result_simps]: "check False e = Inl e"
  by (simp add: check_def)

lemma check_eq_Inr [simp, result_simps]: "check b e = Inr u \<longleftrightarrow> b"
  by (simp add: check_def)

text \<open>A counted loop whose body may fault, over the list of its counter's values.\<close>

fun rfold :: "('i \<Rightarrow> 's \<Rightarrow> 'e + 's) \<Rightarrow> 'i list \<Rightarrow> 's \<Rightarrow> 'e + 's" where
  "rfold f [] s = Inr s"
| "rfold f (i # is) s = rbind (f i s) (rfold f is)"

lemma rfold_append [simp]: "rfold f (is @ js) s = rbind (rfold f is s) (rfold f js)"
proof (induction "is" arbitrary: s)
  case (Cons i "is")
  then show ?case by (cases "f i s") auto
qed simp

lemma rfold_cong [fundef_cong]:
  "is = is' \<Longrightarrow> s = s' \<Longrightarrow> (\<And>i s. i \<in> set is' \<Longrightarrow> f i s = g i s) \<Longrightarrow> rfold f is s = rfold g is' s'"
  by (induction "is'" arbitrary: "is" s s') (auto intro: rbind_cong)

lemma rfold_total:
  assumes "\<And>i s. i \<in> set is \<Longrightarrow> f i s = Inr (g i s)"
  shows "rfold f is s = Inr (fold g is s)"
  using assms by (induction "is" arbitrary: s) auto

lemma rfold_invariant:
  assumes "rfold f is s = Inr t" and "P s"
    and "\<And>i s t. i \<in> set is \<Longrightarrow> P s \<Longrightarrow> f i s = Inr t \<Longrightarrow> P t"
  shows "P t"
  using assms
proof (induction "is" arbitrary: s)
  case (Cons i "is")
  then obtain s' where "f i s = Inr s'" and "rfold f is s' = Inr t"
    by (auto simp: rbind_eq_Inr)
  with Cons show ?case by (metis list.set_intros)
qed simp

lemma fold_invariant:
  assumes "P s" and "\<And>i s. i \<in> set is \<Longrightarrow> P s \<Longrightarrow> P (f i s)"
  shows "P (fold f is s)"
  using assms by (induction "is" arbitrary: s) auto

text \<open>A loop that stores \<open>v i\<close> at slot \<open>k i\<close> for every \<open>i\<close> of the list.\<close>

lemma fold_fun_upd_apply:
  "fold (\<lambda>i h. h(k i := v i)) is h a =
     (case find (\<lambda>i. k i = a) (rev is) of None \<Rightarrow> h a | Some i \<Rightarrow> v i)"
proof (induction "is" rule: rev_induct)
  case (snoc i "is")
  then show ?case by simp
qed simp

lemma fold_fun_upd_inj:
  assumes "inj_on k (set is)"
  shows "fold (\<lambda>i h. h(k i := v i)) is h a =
     (if \<exists>i \<in> set is. k i = a then v (the_inv_into (set is) k a) else h a)"
proof (cases "find (\<lambda>i. k i = a) (rev is)")
  case None
  then have "\<not> (\<exists>i \<in> set is. k i = a)" by (auto simp: find_None_iff)
  then show ?thesis by (simp only: fold_fun_upd_apply None) simp
next
  case (Some i)
  then have "i \<in> set is" and "k i = a"
    by (auto simp: find_Some_iff in_set_conv_nth)
       (metis length_rev nth_mem set_rev in_set_conv_nth)
  then have "the_inv_into (set is) k a = i"
    using assms by (auto intro: the_inv_into_f_f)
  with Some \<open>i \<in> set is\<close> \<open>k i = a\<close> show ?thesis
    by (auto simp: fold_fun_upd_apply)
qed

section \<open>Searching a counted range\<close>

text \<open>
  \<open>for (i = lo; i < hi; i++) if (P i) return i;\<close> is \<open>List.find P [lo..<hi]\<close>; these facts give
  its result as the least index with the property.
\<close>

lemma find_upt_Some:
  "List.find P [lo..<hi] = Some i \<longleftrightarrow>
     lo \<le> i \<and> i < hi \<and> P i \<and> (\<forall>j. lo \<le> j \<and> j < i \<longrightarrow> \<not> P j)"
proof
  assume "List.find P [lo..<hi] = Some i"
  then obtain n where "n < hi - lo" "i = lo + n" "P i" "\<forall>m<n. \<not> P (lo + m)"
    by (auto simp: find_Some_iff)
  then show "lo \<le> i \<and> i < hi \<and> P i \<and> (\<forall>j. lo \<le> j \<and> j < i \<longrightarrow> \<not> P j)"
    by (auto dest: spec [of _ "_ - lo"]) (metis le_add_diff_inverse nat_add_left_cancel_less)
next
  assume "lo \<le> i \<and> i < hi \<and> P i \<and> (\<forall>j. lo \<le> j \<and> j < i \<longrightarrow> \<not> P j)"
  then show "List.find P [lo..<hi] = Some i"
    by (auto simp: find_Some_iff intro!: exI [of _ "i - lo"])
qed

lemma find_upt_None: "List.find P [lo..<hi] = None \<longleftrightarrow> (\<forall>i. lo \<le> i \<and> i < hi \<longrightarrow> \<not> P i)"
  by (auto simp: find_None_iff)

section \<open>64-bit words as natural numbers\<close>

named_theorems u64_unat \<open>the value of a 64-bit expression that does not wrap\<close>

lemma unat_lt64: "unat (a :: u64) < 18446744073709551616"
  using unsigned_less [of a] by simp

lemma unat_of_nat64 [u64_unat]: "n < 18446744073709551616 \<Longrightarrow> unat (of_nat n :: u64) = n"
  by (simp add: unat_of_nat)

lemma unat_add64 [u64_unat]:
  "unat a + unat b < 18446744073709551616 \<Longrightarrow> unat (a + b :: u64) = unat a + unat b"
  by (simp add: unat_word_ariths)

lemma unat_mult64 [u64_unat]:
  "unat a * unat b < 18446744073709551616 \<Longrightarrow> unat (a * b :: u64) = unat a * unat b"
  by (simp add: unat_word_ariths)

lemma unat_drop64 [u64_unat]: "unat (drop_bit n (a :: u64)) = unat a div 2 ^ n"
  by (metis unat_drop_bit_eq drop_bit_eq_div)

lemma unat_push64 [u64_unat]:
  "unat a * 2 ^ n < 18446744073709551616 \<Longrightarrow> unat (push_bit n (a :: u64)) = unat a * 2 ^ n"
proof -
  assume "unat a * 2 ^ n < 18446744073709551616"
  moreover have "unat (push_bit n a) = take_bit 64 (push_bit n (unat a))"
    using unsigned_push_bit_eq [of n a] by simp
  ultimately show ?thesis by (simp add: push_bit_eq_mult [of n "unat a"] take_bit_eq_mod)
qed

lemma u64_eq_iff: "a = b \<longleftrightarrow> unat a = unat (b :: u64)"
  by (rule word_unat_eq_iff)

lemma sint_small32: "unat (a :: u32) < 2147483648 \<Longrightarrow> sint a = int (unat a)"
proof -
  assume "unat a < 2147483648"
  then have "uint a < 2147483648" by (metis of_nat_less_iff of_nat_numeral uint_nat)
  moreover have "0 \<le> uint a" by simp
  then have "- (2 ^ 31) \<le> uint a" by (rule order_trans [rotated]) simp
  ultimately have "signed_take_bit 31 (uint a) = uint a" by (intro signed_take_bit_int_eq_self) simp_all
  then show ?thesis by (simp add: sint_uint)
qed

lemma u64_le_iff: "a \<le> b \<longleftrightarrow> unat a \<le> unat (b :: u64)"
  by (rule word_le_nat_alt)

lemma u64_less_iff: "a < b \<longleftrightarrow> unat a < unat (b :: u64)"
  by (rule word_less_nat_alt)

end
