(* ===== verification/CString.thy ===== *)
theory CString
  imports Plum_Prelude
begin

text \<open>
  The string routines of the kernel (src/sys/string.c) and the two routines that only the
  user library has (src/libc/string.c: \<open>strcpy\<close>, \<open>strchr\<close>).

  A \<open>char *\<close> argument is a \<open>string option\<close>: \<open>None\<close> is NULL, \<open>Some b\<close> the bytes from the
  pointer to the end of the object it points into. Every index is checked against the end of
  the object, so a missing terminator or a destination that is too small is the fault
  \<open>Out_Of_Bounds\<close>. The routines that write return the new contents of the destination. As in
  the source, source and destination are distinct objects.
\<close>

section \<open>Characters and buffers\<close>

abbreviation NUL :: char where "NUL \<equiv> CHR 0x00"

text \<open>The C string a buffer holds: the bytes before its first NUL.\<close>

definition cstr :: "string \<Rightarrow> string" where
  "cstr b = takeWhile (\<lambda>c. c \<noteq> NUL) b"

definition c_read :: "string \<Rightarrow> nat \<Rightarrow> fault + char" where
  "c_read b i = (if i < length b then Inr (b ! i) else Inl Out_Of_Bounds)"

definition c_write :: "string \<Rightarrow> nat \<Rightarrow> char \<Rightarrow> fault + string" where
  "c_write b i c = (if i < length b then Inr (b[i := c]) else Inl Out_Of_Bounds)"

text \<open>\<open>char\<close> is signed on x86-64: a difference of two \<open>char\<close>s is taken on their signed values.\<close>

definition schar :: "char \<Rightarrow> int" where
  "schar c = (if of_char c < (128 :: int) then of_char c else of_char c - 256)"

section \<open>The operations\<close>

function strlen_from :: "string \<Rightarrow> nat \<Rightarrow> fault + nat" where
  "strlen_from s sz =
     (if sz < length s
      then if s ! sz \<noteq> NUL then strlen_from s (Suc sz) else Inr sz
      else Inl Out_Of_Bounds)"
  by pat_completeness auto
termination
  by (relation "measure (\<lambda>(s, sz). length s - sz)") auto

declare strlen_from.simps [simp del]

definition strlen :: "string option \<Rightarrow> fault + nat" where
  "strlen s = (case s of None \<Rightarrow> Inr 0 | Some b \<Rightarrow> strlen_from b 0)"

function strncmp_loop :: "string \<Rightarrow> string \<Rightarrow> nat \<Rightarrow> nat \<Rightarrow> fault + int" where
  "strncmp_loop dest src sz i =
     rbind (c_read dest i) (\<lambda>d.
     rbind (c_read src i) (\<lambda>s.
     let stop = (if i = sz then Inr 0 else Inr (schar d - schar s)) in
     if schar d - schar s \<noteq> 0 then stop
     else rbind (strlen (Some dest)) (\<lambda>ld.
       if \<not> i < ld then stop
       else rbind (strlen (Some src)) (\<lambda>ls.
         if i < ls \<and> i < sz then strncmp_loop dest src sz (Suc i) else stop))))"
  by pat_completeness auto
termination
  by (relation "measure (\<lambda>(dest, src, sz, i). length dest - i)")
     (auto simp: c_read_def split: if_splits)

declare strncmp_loop.simps [simp del]

definition strncmp :: "string option \<Rightarrow> string option \<Rightarrow> nat \<Rightarrow> fault + int" where
  "strncmp dest src sz =
     (case (dest, src) of
        (Some d, Some s) \<Rightarrow> strncmp_loop d s sz 0
      | _ \<Rightarrow> Inr (-1))"

function strcmp_loop :: "string \<Rightarrow> string \<Rightarrow> nat \<Rightarrow> fault + int" where
  "strcmp_loop dest src i =
     rbind (c_read dest i) (\<lambda>d.
     rbind (c_read src i) (\<lambda>s.
     rbind (strlen (Some dest)) (\<lambda>ld.
       if schar d - schar s = 0 \<and> i < ld then strcmp_loop dest src (Suc i)
       else if i = ld then Inr 0
       else Inr (schar d - schar s))))"
  by pat_completeness auto
termination
  by (relation "measure (\<lambda>(dest, src, i). length dest - i)")
     (auto simp: c_read_def split: if_splits)

declare strcmp_loop.simps [simp del]

definition strcmp :: "string option \<Rightarrow> string option \<Rightarrow> fault + int" where
  "strcmp dest src =
     (case (dest, src) of
        (Some d, Some s) \<Rightarrow>
          rbind (strlen dest) (\<lambda>ld. rbind (strlen src) (\<lambda>ls.
            if ld \<noteq> ls then Inr (-1) else strcmp_loop d s 0))
      | _ \<Rightarrow> Inr (-1))"

text \<open>
  The copying loop of \<open>strncpy\<close>; the assignment inside the loop condition happens before its
  value is tested. The result is the index where the loop stops and the destination so far.
\<close>

function strncpy_loop :: "string \<Rightarrow> string \<Rightarrow> nat \<Rightarrow> nat \<Rightarrow> fault + nat \<times> string" where
  "strncpy_loop dest src sz i =
     (if \<not> i < sz then Inr (i, dest)
      else rbind (strlen (Some src)) (\<lambda>ls.
        if \<not> i < ls then Inr (i, dest)
        else rbind (c_read src i) (\<lambda>c.
          rbind (c_write dest i c) (\<lambda>dest'.
            if c \<noteq> NUL then strncpy_loop dest' src sz (Suc i) else Inr (i, dest')))))"
  by pat_completeness auto
termination
  by (relation "measure (\<lambda>(dest, src, sz, i). sz - i)") auto

declare strncpy_loop.simps [simp del]

definition strncpy :: "string option \<Rightarrow> string option \<Rightarrow> nat \<Rightarrow> fault + string option" where
  "strncpy dest src sz =
     (case (dest, src) of
        (Some d, Some s) \<Rightarrow>
          rbind (strncpy_loop d s sz 0) (\<lambda>(i, d').
            rbind (c_write d' i NUL) (\<lambda>d''. Inr (Some d'')))
      | _ \<Rightarrow> Inr None)"

function strcpy_loop :: "string \<Rightarrow> string \<Rightarrow> nat \<Rightarrow> fault + nat \<times> string" where
  "strcpy_loop dest src i =
     rbind (strlen (Some src)) (\<lambda>ls.
        if \<not> i < ls then Inr (i, dest)
        else rbind (c_read src i) (\<lambda>c.
          rbind (c_write dest i c) (\<lambda>dest'.
            if c \<noteq> NUL then strcpy_loop dest' src (Suc i) else Inr (i, dest'))))"
  by pat_completeness auto
termination
  by (relation "measure (\<lambda>(dest, src, i). length src - i)")
     (auto simp: c_read_def split: if_splits)

declare strcpy_loop.simps [simp del]

text \<open>\<open>dest[i - 1] = '\0'\<close>: with \<open>i = 0\<close> the index is before the object.\<close>

definition strcpy :: "string option \<Rightarrow> string option \<Rightarrow> fault + string option" where
  "strcpy dest src =
     (case (dest, src) of
        (Some d, Some s) \<Rightarrow>
          rbind (strcpy_loop d s 0) (\<lambda>(i, d').
            if i = 0 then Inl Out_Of_Bounds
            else rbind (c_write d' (i - 1) NUL) (\<lambda>d''. Inr (Some d'')))
      | _ \<Rightarrow> Inr None)"

text \<open>The result of \<open>strchr\<close> is the offset of the found byte, \<open>None\<close> for NULL.\<close>

function strchr_from :: "string \<Rightarrow> char \<Rightarrow> nat \<Rightarrow> fault + nat option" where
  "strchr_from s c i =
     rbind (c_read s i) (\<lambda>x.
       if x \<noteq> c then if x = NUL then Inr None else strchr_from s c (Suc i)
       else Inr (Some i))"
  by pat_completeness auto
termination
  by (relation "measure (\<lambda>(s, c, i). length s - i)") (auto simp: c_read_def split: if_splits)

declare strchr_from.simps [simp del]

definition strchr :: "string option \<Rightarrow> char \<Rightarrow> fault + nat option" where
  "strchr s c = (case s of None \<Rightarrow> Inr None | Some b \<Rightarrow> strchr_from b c 0)"

section \<open>Facts about buffers\<close>

lemma cstr_Nil [simp]: "cstr [] = []"
  by (simp add: cstr_def)

lemma cstr_Cons [simp]: "cstr (c # b) = (if c = NUL then [] else c # cstr b)"
  by (simp add: cstr_def)

lemma cstr_append_NUL: "NUL \<notin> set a \<Longrightarrow> cstr (a @ NUL # b) = a"
  by (induction a) auto

lemma length_cstr_less: "NUL \<in> set b \<Longrightarrow> length (cstr b) < length b"
  by (induction b) auto

lemma nth_cstr: "i < length (cstr b) \<Longrightarrow> cstr b ! i = b ! i"
  by (simp add: cstr_def takeWhile_nth)

lemma nth_length_cstr: "NUL \<in> set b \<Longrightarrow> b ! length (cstr b) = NUL"
  by (induction b) auto

lemma set_cstr: "c \<in> set (cstr b) \<Longrightarrow> c \<noteq> NUL"
  by (auto simp: cstr_def dest: set_takeWhileD)

lemma nth_less_cstr: "i < length (cstr b) \<Longrightarrow> b ! i \<noteq> NUL"
  using nth_mem [of i "cstr b"] set_cstr [of "cstr b ! i" b] by (simp add: nth_cstr)

lemma nth_NUL_iff: "NUL \<in> set b \<Longrightarrow> i \<le> length (cstr b) \<Longrightarrow> b ! i = NUL \<longleftrightarrow> i = length (cstr b)"
  by (metis le_neq_implies_less nth_length_cstr nth_less_cstr)

lemma of_char_bounds: "0 \<le> (of_char c :: int)" "of_char c < (256 :: int)"
proof -
  have "of_char c mod 256 = (of_char c :: int)" by simp
  then show "0 \<le> (of_char c :: int)" "of_char c < (256 :: int)"
    by (metis pos_mod_sign zero_less_numeral) (metis \<open>of_char c mod 256 = (of_char c :: int)\<close> pos_mod_bound zero_less_numeral)
qed

lemma schar_eq_iff [simp]: "schar c = schar d \<longleftrightarrow> c = d"
proof -
  have "(of_char c :: int) = of_char d \<longleftrightarrow> c = d" by simp
  with of_char_bounds [of c] of_char_bounds [of d] show ?thesis
    by (auto simp: schar_def split: if_splits)
qed

lemma strlen_from_eq:
  assumes "NUL \<in> set b" "n \<le> length (cstr b)"
  shows "strlen_from b n = Inr (length (cstr b))"
  using assms
proof (induction b n rule: strlen_from.induct)
  case (1 b n)
  have "n < length b"
    using "1.prems" length_cstr_less [of b] by simp
  with 1 nth_NUL_iff [of b n] show ?case
    by (auto simp: strlen_from.simps [of b n])
qed

lemma strlen_from_None:
  assumes "NUL \<notin> set b"
  shows "strlen_from b n = Inl Out_Of_Bounds"
  using assms
proof (induction b n rule: strlen_from.induct)
  case (1 b n)
  then show ?case by (auto simp: strlen_from.simps [of b n] dest: nth_mem)
qed

lemma strlen_Some:
  "strlen (Some b) = (if NUL \<in> set b then Inr (length (cstr b)) else Inl Out_Of_Bounds)"
  by (simp add: strlen_def strlen_from_eq strlen_from_None)

lemma strlen_None [simp]: "strlen None = Inr 0"
  by (simp add: strlen_def)

lemmas buffer_simps = strlen_Some c_read_def c_write_def

lemma strncmp_loop_zero_iff:
  assumes "NUL \<in> set d" "NUL \<in> set s"
    and "i \<le> length (cstr d)" "i \<le> length (cstr s)" "i \<le> n"
  shows "\<exists>r. strncmp_loop d s n i = Inr r \<and>
    (r = 0 \<longleftrightarrow> take (n - i) (drop i (cstr d)) = take (n - i) (drop i (cstr s)))"
  using assms
proof (induction d s n i rule: strncmp_loop.induct)
  case (1 d s n i)
  have i: "i < length d" "i < length s"
    using "1.prems" length_cstr_less [of d] length_cstr_less [of s] by auto
  consider (eq) "i = n" | (diff) "i < n" "d ! i \<noteq> s ! i"
    | (stop) "i < n" "d ! i = s ! i" "i = length (cstr d)"
    | (go) "i < n" "d ! i = s ! i" "i < length (cstr d)"
    using "1.prems" by linarith
  then show ?case
  proof cases
    case eq
    then show ?thesis
      using i "1.prems" by (subst strncmp_loop.simps) (auto simp: buffer_simps Let_def)
  next
    case diff
    have "take (n - i) (drop i (cstr d)) \<noteq> take (n - i) (drop i (cstr s))"
    proof (cases "i < length (cstr d) \<and> i < length (cstr s)")
      case True
      then have "hd (take (n - i) (drop i (cstr d))) = d ! i"
        and "hd (take (n - i) (drop i (cstr s))) = s ! i"
        using diff(1) by (simp_all add: hd_drop_conv_nth nth_cstr)
      with diff(2) show ?thesis by metis
    next
      case False
      with diff "1.prems" nth_NUL_iff [of d i] nth_NUL_iff [of s i] show ?thesis by auto
    qed
    with diff i show ?thesis
      by (subst strncmp_loop.simps) (auto simp: buffer_simps Let_def)
  next
    case stop
    then have "i = length (cstr s)"
      using "1.prems" nth_NUL_iff [of d i] nth_NUL_iff [of s i] by auto
    with stop i "1.prems" show ?thesis
      by (subst strncmp_loop.simps) (auto simp: buffer_simps Let_def)
  next
    case go
    then have s: "i < length (cstr s)"
      using "1.prems" nth_NUL_iff [of d i] nth_NUL_iff [of s i] by force
    have step: "strncmp_loop d s n i = strncmp_loop d s n (Suc i)"
      using go s i "1.prems" by (subst strncmp_loop.simps) (auto simp: buffer_simps Let_def)
    have "\<exists>r. strncmp_loop d s n (Suc i) = Inr r \<and> (r = 0 \<longleftrightarrow>
        take (n - Suc i) (drop (Suc i) (cstr d)) = take (n - Suc i) (drop (Suc i) (cstr s)))"
      by (rule "1.IH" [of "d ! i" "s ! i" _ "length (cstr d)" "length (cstr s)"])
         (use go s i "1.prems" in \<open>auto simp: buffer_simps\<close>)
    moreover have "take (n - i) (drop i (cstr d)) = take (n - i) (drop i (cstr s)) \<longleftrightarrow>
        take (n - Suc i) (drop (Suc i) (cstr d)) = take (n - Suc i) (drop (Suc i) (cstr s))"
      using go s
      by (simp add: Cons_nth_drop_Suc [symmetric] Suc_diff_Suc [symmetric] nth_cstr)
    ultimately show ?thesis using step by auto
  qed
qed

lemma strcmp_loop_zero_iff:
  assumes "NUL \<in> set d" "NUL \<in> set s" "length (cstr d) = length (cstr s)" "i \<le> length (cstr d)"
  shows "\<exists>r. strcmp_loop d s i = Inr r \<and> (r = 0 \<longleftrightarrow> drop i (cstr d) = drop i (cstr s))"
  using assms
proof (induction d s i rule: strcmp_loop.induct)
  case (1 d s i)
  have i: "i < length d" "i < length s"
    using "1.prems" length_cstr_less [of d] length_cstr_less [of s] by auto
  consider (stop) "i = length (cstr d)" | (diff) "i < length (cstr d)" "d ! i \<noteq> s ! i"
    | (go) "i < length (cstr d)" "d ! i = s ! i"
    using "1.prems" by linarith
  then show ?case
  proof cases
    case stop
    then show ?thesis
      using i "1.prems" by (subst strcmp_loop.simps) (auto simp: buffer_simps)
  next
    case diff
    then have "drop i (cstr d) \<noteq> drop i (cstr s)"
      using "1.prems" by (metis hd_drop_conv_nth nth_cstr)
    with diff i "1.prems" show ?thesis
      by (subst strcmp_loop.simps) (auto simp: buffer_simps)
  next
    case go
    have "\<exists>r. strcmp_loop d s (Suc i) = Inr r \<and>
        (r = 0 \<longleftrightarrow> drop (Suc i) (cstr d) = drop (Suc i) (cstr s))"
      by (rule "1.IH" [of "d ! i" "s ! i" "length (cstr d)"])
         (use go i "1.prems" in \<open>auto simp: buffer_simps\<close>)
    moreover have "strcmp_loop d s i = strcmp_loop d s (Suc i)"
      using go i "1.prems" by (subst strcmp_loop.simps) (auto simp: buffer_simps)
    moreover have "drop i (cstr d) = drop i (cstr s) \<longleftrightarrow> drop (Suc i) (cstr d) = drop (Suc i) (cstr s)"
      using go "1.prems" by (simp add: Cons_nth_drop_Suc [symmetric] nth_cstr)
    ultimately show ?thesis by auto
  qed
qed

lemma strncmp_zero_iff:
  assumes "NUL \<in> set d" "NUL \<in> set s"
  shows "strncmp (Some d) (Some s) n = Inr 0 \<longleftrightarrow> take n (cstr d) = take n (cstr s)"
  using strncmp_loop_zero_iff [OF assms, of 0 n] by (auto simp: strncmp_def)

lemma strcmp_zero_iff:
  assumes "NUL \<in> set d" "NUL \<in> set s"
  shows "strcmp (Some d) (Some s) = Inr 0 \<longleftrightarrow> cstr d = cstr s"
  using strcmp_loop_zero_iff [OF assms, of 0] assms by (auto simp: strcmp_def strlen_Some)

lemma strcmp_total:
  assumes "NUL \<in> set d" "NUL \<in> set s"
  shows "\<exists>r. strcmp (Some d) (Some s) = Inr r"
  using strcmp_loop_zero_iff [OF assms, of 0] assms by (auto simp: strcmp_def strlen_Some)

lemma strncpy_loop_eq:
  assumes "NUL \<in> set s" "m = min n (length (cstr s))" "i \<le> m"
  shows "strncpy_loop d s n i =
    (if i = m \<or> m \<le> length d
     then Inr (m, take i d @ drop i (take m (cstr s)) @ drop m d) else Inl Out_Of_Bounds)"
  using assms
proof (induction d s n i rule: strncpy_loop.induct)
  case (1 d s n i)
  show ?case
  proof (cases "i < m")
    case False
    then have "i = m" using "1.prems" by linarith
    then show ?thesis
      using "1.prems" by (subst strncpy_loop.simps) (auto simp: buffer_simps min_def split: if_splits)
  next
    case True
    then have i: "i < n" "i < length (cstr s)" "i < length s"
      using "1.prems" length_cstr_less [of s] by auto
    show ?thesis
    proof (cases "i < length d")
      case False
      with True i "1.prems" show ?thesis
        by (subst strncpy_loop.simps) (auto simp: buffer_simps)
    next
      case d: True
      let ?d = "d[i := s ! i]"
      have step: "strncpy_loop d s n i = strncpy_loop ?d s n (Suc i)"
        using i d "1.prems" nth_less_cstr [of i s]
        by (subst strncpy_loop.simps) (auto simp: buffer_simps)
      have IH: "strncpy_loop ?d s n (Suc i) =
        (if Suc i = m \<or> m \<le> length ?d
         then Inr (m, take (Suc i) ?d @ drop (Suc i) (take m (cstr s)) @ drop m ?d) else Inl Out_Of_Bounds)"
        by (rule "1.IH" [of "length (cstr s)" "s ! i" ?d])
           (use i d True "1.prems" nth_less_cstr [of i s] in \<open>auto simp: buffer_simps\<close>)
      have "take (Suc i) ?d = take i d @ [s ! i]"
        using d by (simp add: take_Suc_conv_app_nth)
      moreover have "drop i (take m (cstr s)) = s ! i # drop (Suc i) (take m (cstr s))"
        using True i by (simp add: Cons_nth_drop_Suc [symmetric] nth_cstr)
      moreover have "drop m ?d = drop m d"
        using True by simp
      ultimately show ?thesis
        unfolding step IH using True d by auto
    qed
  qed
qed

lemma strncpy_eq:
  assumes "NUL \<in> set s" "m = min n (length (cstr s))"
  shows "strncpy (Some d) (Some s) n =
    (if m < length d then Inr (Some (take m (cstr s) @ NUL # drop (Suc m) d)) else Inl Out_Of_Bounds)"
proof -
  have len: "length (take m (cstr s)) = m" using assms by simp
  consider "m \<le> length d" | "length d < m" by linarith
  then show ?thesis
  proof cases
    case 1
    then have "strncpy_loop d s n 0 = Inr (m, take m (cstr s) @ drop m d)"
      using strncpy_loop_eq [OF assms, of 0 d] by simp
    with 1 len show ?thesis
      by (auto simp: strncpy_def c_write_def list_update_append Cons_nth_drop_Suc [symmetric])
  next
    case 2
    then have "strncpy_loop d s n 0 = Inl Out_Of_Bounds"
      using strncpy_loop_eq [OF assms, of 0 d] by auto
    with 2 show ?thesis by (simp add: strncpy_def)
  qed
qed

text \<open>After a successful \<open>strncpy\<close> the destination holds the copied prefix as a C string.\<close>

lemma cstr_strncpy: "NUL \<notin> set a \<Longrightarrow> cstr (take m a @ NUL # r) = take m a"
  by (rule cstr_append_NUL) (auto dest: in_set_takeD)

lemma NUL_notin_cstr: "NUL \<notin> set (cstr b)"
  using set_cstr by blast

lemma strcpy_loop_eq:
  assumes "NUL \<in> set s" "i \<le> length (cstr s)" "length (cstr s) \<le> length d"
  shows "strcpy_loop d s i =
    Inr (length (cstr s), take i d @ drop i (cstr s) @ drop (length (cstr s)) d)"
  using assms
proof (induction d s i rule: strcpy_loop.induct)
  case (1 d s i)
  show ?case
  proof (cases "i < length (cstr s)")
    case False
    then show ?thesis
      using "1.prems" by (subst strcpy_loop.simps) (auto simp: buffer_simps)
  next
    case True
    then have i: "i < length s" "i < length d" "s ! i \<noteq> NUL"
      using "1.prems" length_cstr_less [of s] nth_less_cstr [of i s] by auto
    let ?d = "d[i := s ! i]"
    have step: "strcpy_loop d s i = strcpy_loop ?d s (Suc i)"
      using i True "1.prems" by (subst strcpy_loop.simps) (auto simp: buffer_simps)
    have IH: "strcpy_loop ?d s (Suc i) = Inr (length (cstr s),
        take (Suc i) ?d @ drop (Suc i) (cstr s) @ drop (length (cstr s)) ?d)"
      by (rule "1.IH" [of "length (cstr s)" "s ! i" ?d])
         (use i True "1.prems" in \<open>auto simp: buffer_simps\<close>)
    have "take (Suc i) ?d = take i d @ [s ! i]"
      using i by (simp add: take_Suc_conv_app_nth)
    moreover have "drop i (cstr s) = s ! i # drop (Suc i) (cstr s)"
      using True by (simp add: Cons_nth_drop_Suc [symmetric] nth_cstr)
    ultimately show ?thesis unfolding step IH using True by simp
  qed
qed

lemma strchr_from_eq:
  assumes "NUL \<in> set s" "i \<le> length (cstr s)"
  shows "strchr_from s c i = Inr (List.find (\<lambda>k. s ! k = c) [i..<Suc (length (cstr s))])"
  using assms
proof (induction s c i rule: strchr_from.induct)
  case (1 s c i)
  have i: "i < length s"
    using "1.prems" length_cstr_less [of s] by simp
  have upt: "[i..<Suc (length (cstr s))] = i # [Suc i..<Suc (length (cstr s))]"
    using "1.prems" by (simp add: upt_conv_Cons)
  show ?case
  proof (cases "i < length (cstr s)")
    case True
    with 1 i nth_NUL_iff [of s i] show ?thesis
      by (subst strchr_from.simps) (auto simp: upt c_read_def simp del: upt_Suc)
  next
    case False
    with "1.prems" have "i = length (cstr s)" by simp
    with "1.prems" i nth_length_cstr [of s] show ?thesis
      by (subst strchr_from.simps) (auto simp: c_read_def)
  qed
qed

section \<open>What the functions compute\<close>

text \<open>
  C37. On terminated strings \<open>strcmp\<close> and \<open>strncmp\<close> always return and decide equality: \<open>strcmp\<close> is 0
  exactly if the two strings are the same, \<open>strncmp\<close> with size \<open>n\<close> exactly if their first \<open>n\<close>
  characters are.
\<close>

theorem string_comparison:
  assumes "NUL \<in> set d" "NUL \<in> set s"
  shows "(\<exists>r. strcmp (Some d) (Some s) = Inr r \<and> (r = 0 \<longleftrightarrow> cstr d = cstr s)) \<and>
    (\<exists>r. strncmp (Some d) (Some s) n = Inr r \<and> (r = 0 \<longleftrightarrow> take n (cstr d) = take n (cstr s)))"
proof -
  obtain r where "strcmp (Some d) (Some s) = Inr r" using strcmp_total [OF assms] by blast
  moreover obtain q where "strncmp (Some d) (Some s) n = Inr q"
    using strncmp_loop_zero_iff [OF assms, of 0 n] by (auto simp: strncmp_def)
  ultimately show ?thesis using strcmp_zero_iff [OF assms] strncmp_zero_iff [OF assms, of n] by simp
qed

theorem string_comparison_witness:
  "\<exists>r. strncmp (Some (''bin/ls'' @ [NUL])) (Some (''bin/cat'' @ [NUL])) 4 = Inr r \<and> r = 0"
  using string_comparison [of "''bin/ls'' @ [NUL]" "''bin/cat'' @ [NUL]" 4] by simp

text \<open>
  \<open>strncpy\<close> copies at most \<open>n\<close> characters of the source and always terminates the result; the
  rest of the destination is untouched. It writes outside the destination exactly if that has
  no room for those characters and the terminator.
\<close>

lemma strncpy_terminated:
  assumes "NUL \<in> set s"
  shows "strncpy (Some d) (Some s) n =
    (let m = min n (length (cstr s)) in
     if m < length d then Inr (Some (take m (cstr s) @ NUL # drop (Suc m) d)) else Inl Out_Of_Bounds)"
  using strncpy_eq [OF assms refl] by (simp add: Let_def)

text \<open>
  \<open>strcpy\<close> of the user library (src/libc/string.c) loses the last character of a string that
  is not empty, and writes in front of the destination when the source is empty.
\<close>

lemma strcpy_drops_last:
  assumes "NUL \<in> set s" "length (cstr s) \<le> length d"
  shows "if cstr s = [] then strcpy (Some d) (Some s) = Inl Out_Of_Bounds
    else \<exists>b. strcpy (Some d) (Some s) = Inr (Some b) \<and> cstr b = butlast (cstr s)"
proof (cases "cstr s = []")
  case True
  then show ?thesis using strcpy_loop_eq [OF assms(1) _ assms(2), of 0] by (simp add: strcpy_def)
next
  case False
  define t where "t = butlast (cstr s)"
  have ct: "cstr s = t @ [last (cstr s)]" "length (cstr s) = Suc (length t)" using False by (simp_all add: t_def)
  let ?d = "cstr s @ drop (length (cstr s)) d"
  have "c_write ?d (length t) NUL = Inr (?d[length t := NUL])" using ct(2) by (simp add: c_write_def)
  moreover have "?d[length t := NUL] = t @ NUL # drop (length (cstr s)) d"
    by (subst ct(1)) (simp add: list_update_append)
  moreover have "strcpy_loop d s 0 = Inr (length (cstr s), ?d)" using strcpy_loop_eq [OF assms(1) _ assms(2), of 0] by simp
  ultimately have "strcpy (Some d) (Some s) = Inr (Some (t @ NUL # drop (length (cstr s)) d))"
    using ct(2) by (simp add: strcpy_def)
  moreover have "NUL \<notin> set t" using NUL_notin_cstr [of s] by (auto simp: t_def dest: in_set_butlastD)
  ultimately show ?thesis using False cstr_append_NUL by (simp add: t_def)
qed

end
