(* ===== verification/Console.thy ===== *)
theory Console
  imports CString
begin

text \<open>
  Console output (src/sys/printf.c): number formatting, the \<open>vsprintf\<close> interpreter of format
  strings, the VGA text screen with its cursor, and \<open>printf\<close>. The screen is the root of the
  kernel state: every later component extends the record \<open>console\<close>, so that the diagnostics a
  kernel function prints are part of what it does.

  The VGA window is indexed by a C \<open>int\<close>, which may be any value: \<open>screen_buffer\<close> is a total
  function of \<open>int\<close>, and staying inside the 25 x 80 window is a property to prove, not a
  consequence of the type.
\<close>

section \<open>State\<close>

record console =
  screen_buffer :: "int \<Rightarrow> char"
  cursor_row :: int
  cursor_col :: int
  stdin_buf_size :: int  \<comment> \<open>src/sys/kbd.c; read by \<open>print_to_screen\<close>\<close>

abbreviation (input) MAX_COLUMN :: int where "MAX_COLUMN \<equiv> 80"
abbreviation (input) MAX_ROW :: int where "MAX_ROW \<equiv> 24"
abbreviation (input) TAB :: int where "TAB \<equiv> 8"
abbreviation (input) MAX_BUF_SIZE :: nat where "MAX_BUF_SIZE \<equiv> 512"
abbreviation (input) NUM_BUF :: nat where "NUM_BUF \<equiv> 80"

section \<open>Numbers as text\<close>

text \<open>
  The conversions fill \<open>buf\<close> from its end; the accumulator is the part of \<open>buf\<close> from
  \<open>pos\<close> up to the terminator, that is, the string the routine returns.
\<close>

definition digit_char :: "int \<Rightarrow> char" where
  "digit_char d = char_of (d + 48)"

fun dec_loop :: "int \<Rightarrow> string \<Rightarrow> string" where
  "dec_loop n acc =
     (if n \<ge> 10 then dec_loop (n div 10) (digit_char (n mod 10) # acc)
      else digit_char n # acc)"

declare dec_loop.simps [simp del]

text \<open>\<open>n = -n\<close> on a 32-bit \<open>int\<close>: INT_MIN is its own negation.\<close>

definition int_to_string :: "u32 \<Rightarrow> string" where
  "int_to_string n =
     (let negative = sint n < 0;
          m = (if negative then sint (- n) else sint n);
          s = dec_loop m []
      in if negative then CHR ''-'' # s else s)"

definition longlong_to_string :: "u64 \<Rightarrow> string" where
  "longlong_to_string n = dec_loop (uint n) []"

definition hex_table :: string where
  "hex_table = ''0123456789ABCDEF''"

fun hex_loop :: "int \<Rightarrow> string \<Rightarrow> string" where
  "hex_loop n acc =
     (if n \<ge> 16 then hex_loop (n div 16) (hex_table ! nat (n mod 16) # acc)
      else hex_table ! nat n # acc)"

declare hex_loop.simps [simp del]

definition longlong_to_hexstring :: "u64 \<Rightarrow> string" where
  "longlong_to_hexstring n = hex_loop (uint n) []"

section \<open>Format strings\<close>

text \<open>The arguments of a variadic call, by the type \<open>va_arg\<close> reads them with.\<close>

datatype va_arg =
    VInt u32            \<comment> \<open>\<open>int\<close>, \<open>unsigned int\<close> and promoted \<open>char\<close>\<close>
  | VStr "string option" \<comment> \<open>\<open>const char *\<close>\<close>
  | VLong u64           \<comment> \<open>64-bit integers and pointers\<close>

fun va_int :: "va_arg list \<Rightarrow> fault + u32 \<times> va_arg list" where
  "va_int (VInt n # ap) = Inr (n, ap)"
| "va_int _ = Inl Bad_Vararg"

fun va_str :: "va_arg list \<Rightarrow> fault + string option \<times> va_arg list" where
  "va_str (VStr s # ap) = Inr (s, ap)"
| "va_str _ = Inl Bad_Vararg"

fun va_long :: "va_arg list \<Rightarrow> fault + u64 \<times> va_arg list" where
  "va_long (VLong n # ap) = Inr (n, ap)"
| "va_long _ = Inl Bad_Vararg"

text \<open>The bytes \<open>%s\<close> copies: up to the terminator, which must be there.\<close>

definition str_arg :: "string option \<Rightarrow> fault + string" where
  "str_arg s = (case s of None \<Rightarrow> Inr ''<null>''
     | Some b \<Rightarrow> if NUL \<in> set b then Inr (cstr b) else Inl Out_Of_Bounds)"

text \<open>
  \<open>vsprintf fmt ap\<close>: the characters stored in \<open>str\<close>, in order. \<open>fmt\<close> is the format without
  its terminator. A lone \<open>%l\<close> at the end of the format stores the terminator and goes on
  reading behind it.
\<close>

fun vsprintf :: "string \<Rightarrow> va_arg list \<Rightarrow> fault + string" where
  "vsprintf [] ap = Inr []"
| "vsprintf (c # fmt) ap =
     (if c \<noteq> CHR ''%'' then rbind (vsprintf fmt ap) (\<lambda>r. Inr (c # r))
      else case fmt of
        [] \<Rightarrow> Inr []
      | d # fmt1 \<Rightarrow>
        if d = CHR ''c'' then
          rbind (va_int ap) (\<lambda>(n, ap1).
          rbind (vsprintf fmt1 ap1) (\<lambda>r. Inr (char_of (uint n) # r)))
        else if d = CHR ''s'' then
          rbind (va_str ap) (\<lambda>(s, ap1).
          rbind (str_arg s) (\<lambda>t.
          rbind (vsprintf fmt1 ap1) (\<lambda>r. Inr (t @ r))))
        else if d = CHR ''d'' then
          rbind (va_int ap) (\<lambda>(n, ap1).
          rbind (vsprintf fmt1 ap1) (\<lambda>r. Inr (int_to_string n @ r)))
        else if d = CHR ''x'' then
          rbind (va_long ap) (\<lambda>(n, ap1).
          rbind (vsprintf fmt1 ap1) (\<lambda>r. Inr (longlong_to_hexstring n @ r)))
        else if d = CHR ''p'' then
          rbind (va_long ap) (\<lambda>(n, ap1).
          rbind (vsprintf fmt1 ap1) (\<lambda>r. Inr (''0x'' @ longlong_to_hexstring n @ r)))
        else if d = CHR ''l'' then
          (case fmt1 of
             [] \<Rightarrow> Inl Out_Of_Bounds
           | e # fmt2 \<Rightarrow>
             if e = CHR ''x'' then
               rbind (va_long ap) (\<lambda>(n, ap1).
               rbind (vsprintf fmt2 ap1) (\<lambda>r. Inr (longlong_to_hexstring n @ r)))
             else if e = CHR ''u'' then
               rbind (va_long ap) (\<lambda>(n, ap1).
               rbind (vsprintf fmt2 ap1) (\<lambda>r. Inr (longlong_to_string n @ r)))
             else rbind (vsprintf fmt2 ap) (\<lambda>r. Inr (CHR ''%'' # CHR ''l'' # e # r)))
        else rbind (vsprintf fmt1 ap) (\<lambda>r. Inr (CHR ''%'' # d # r)))"

section \<open>The screen\<close>

definition cell :: "int \<Rightarrow> int \<Rightarrow> int" where
  "cell row col = row * MAX_COLUMN * 2 + col * 2"

definition poke :: "int \<Rightarrow> char \<Rightarrow> 'a console_scheme \<Rightarrow> 'a console_scheme" where
  "poke i c s = s\<lparr>screen_buffer := (screen_buffer s)(i := c)\<rparr>"

definition put_to_screen :: "char \<Rightarrow> int \<Rightarrow> int \<Rightarrow> int \<Rightarrow> 'a console_scheme \<Rightarrow> 'a console_scheme" where
  "put_to_screen c col row color s =
     poke (cell row col + 1) (char_of color) (poke (cell row col) c s)"

text \<open>\<open>scoll_screen_up\<close> (sic): after the first loop \<open>i\<close> is \<open>MAX_ROW - 1\<close>.\<close>

definition scroll_cell :: "int \<Rightarrow> int \<Rightarrow> 'a console_scheme \<Rightarrow> 'a console_scheme" where
  "scroll_cell i j s =
     poke (cell i j + 1) NUL (poke (cell i j) (screen_buffer s (cell (i + 1) j)) s)"

definition scoll_screen_up :: "'a console_scheme \<Rightarrow> 'a console_scheme" where
  "scoll_screen_up s =
     (let s1 = fold (\<lambda>i. fold (\<lambda>j. scroll_cell (int i) (int j)) [0..<80]) [0..<23] s
      in fold (\<lambda>j s. put_to_screen CHR '' '' (int j) (MAX_ROW - 1) 0 s) [0..<80] s1)"

text \<open>Advance to the next line, scrolling when the cursor leaves the last row.\<close>

definition next_row :: "'a console_scheme \<Rightarrow> 'a console_scheme" where
  "next_row s =
     (let nrow = cursor_row s + 1
      in if nrow = MAX_ROW
         then (scoll_screen_up s)\<lparr>cursor_row := MAX_ROW - 1, cursor_col := 0\<rparr>
         else s\<lparr>cursor_row := nrow, cursor_col := 0\<rparr>)"

definition next_col :: "'a console_scheme \<Rightarrow> 'a console_scheme" where
  "next_col s =
     (let ncol = cursor_col s + 1
      in if ncol \<noteq> MAX_COLUMN then s\<lparr>cursor_col := ncol\<rparr> else next_row s)"

function tab_loop :: "int \<Rightarrow> 'a console_scheme \<Rightarrow> 'a console_scheme" where
  "tab_loop t_sp s =
     (if t_sp < TAB
      then tab_loop (t_sp + 1)
        ((put_to_screen CHR '' '' (cursor_col s) (cursor_row s) 0 s)\<lparr>cursor_col := cursor_col s + 1\<rparr>)
      else s)"
  by pat_completeness auto
termination
  by (relation "measure (\<lambda>(t, s). nat (8 - t))") auto

declare tab_loop.simps [simp del]

text \<open>C's \<open>%\<close> truncates towards zero.\<close>

definition c_mod :: "int \<Rightarrow> int \<Rightarrow> int" where
  "c_mod a b = sgn a * (\<bar>a\<bar> mod \<bar>b\<bar>)"

definition print_to_screen :: "char \<Rightarrow> 'a console_scheme \<Rightarrow> 'a console_scheme" where
  "print_to_screen c s =
     (if c \<noteq> CHR 0x09 \<and> c \<noteq> CHR 0x0A \<and> c \<noteq> CHR 0x08 \<and> c \<noteq> CHR 0x0D \<and> c \<noteq> CHR 0x0E then
        next_col (put_to_screen c (cursor_col s) (cursor_row s) 0 s)
      else if c = CHR 0x0A then next_row s
      else if c = CHR 0x09 then next_col (tab_loop (c_mod (cursor_col s) TAB) s)
      else if c = CHR 0x0E then
        (if stdin_buf_size s > 0
         then (put_to_screen CHR '' '' (cursor_col s - 1) (cursor_row s) 0 s)
                \<lparr>cursor_col := cursor_col s - 1\<rparr>
         else s)
      else s)"

definition clear_screen :: "'a console_scheme \<Rightarrow> 'a console_scheme" where
  "clear_screen s =
     (fold (\<lambda>i. scoll_screen_up) [0..<nat (cursor_row s)] s)\<lparr>cursor_row := 0\<rparr>"

section \<open>printf\<close>

text \<open>
  \<open>str\<close> is a zero-filled array of \<open>MAX_BUF_SIZE\<close> bytes on the stack: more characters run
  over its end, exactly as many leave it without a terminator.
\<close>

definition print_text :: "string \<Rightarrow> 'a console_scheme \<Rightarrow> 'a console_scheme" where
  "print_text t s = fold print_to_screen t s"

definition printf :: "string \<Rightarrow> va_arg list \<Rightarrow> 'a console_scheme \<Rightarrow> fault + 'a console_scheme" where
  "printf fmt ap s =
     rbind (vsprintf fmt ap) (\<lambda>str.
       if length str < MAX_BUF_SIZE then Inr (print_text (cstr str) s) else Inl Out_Of_Bounds)"

section \<open>Decimal and hexadecimal text\<close>

text \<open>The value a digit string denotes, by Horner's rule.\<close>

definition dec_value :: "string \<Rightarrow> int" where
  "dec_value t = foldl (\<lambda>v c. v * 10 + (of_char c - 48)) 0 t"

definition hex_digit :: "char \<Rightarrow> int" where
  "hex_digit c = (if of_char c < (65 :: int) then of_char c - 48 else of_char c - 55)"

definition hex_value :: "string \<Rightarrow> int" where
  "hex_value t = foldl (\<lambda>v c. v * 16 + hex_digit c) 0 t"

lemma dec_value_simps [simp]:
  "dec_value [] = 0" "dec_value (t @ [c]) = dec_value t * 10 + (of_char c - 48)"
  by (simp_all add: dec_value_def)

lemma hex_value_simps [simp]:
  "hex_value [] = 0" "hex_value (t @ [c]) = hex_value t * 16 + hex_digit c"
  by (simp_all add: hex_value_def)

lemma of_char_digit_char: "0 \<le> d \<Longrightarrow> d < 10 \<Longrightarrow> of_char (digit_char d) = d + (48 :: int)"
  by (simp add: digit_char_def)

lemma dec_loop_append: "dec_loop n (xs @ ys) = dec_loop n xs @ ys"
  by (induction n xs rule: dec_loop.induct) (subst (1 2) dec_loop.simps, simp)

lemma dec_loop_Nil:
  "dec_loop n [] =
     (if n \<ge> 10 then dec_loop (n div 10) [] @ [digit_char (n mod 10)] else [digit_char n])"
  using dec_loop_append [of "n div 10" "[]" "[digit_char (n mod 10)]"]
  by (subst dec_loop.simps) simp

lemma hex_loop_append: "hex_loop n (xs @ ys) = hex_loop n xs @ ys"
  by (induction n xs rule: hex_loop.induct) (subst (1 2) hex_loop.simps, simp)

lemma hex_loop_Nil:
  "hex_loop n [] =
     (if n \<ge> 16 then hex_loop (n div 16) [] @ [hex_table ! nat (n mod 16)] else [hex_table ! nat n])"
  using hex_loop_append [of "n div 16" "[]" "[hex_table ! nat (n mod 16)]"]
  by (subst hex_loop.simps) simp

text \<open>Induction over the digits of a number.\<close>

lemma digits_induct [case_names small step]:
  assumes "b > (1 :: int)" "0 \<le> n"
    and small: "\<And>n. 0 \<le> n \<Longrightarrow> n < b \<Longrightarrow> P n"
    and step: "\<And>n. b \<le> n \<Longrightarrow> P (n div b) \<Longrightarrow> P n"
  shows "P n"
  using assms(2)
proof (induction "nat n" arbitrary: n rule: less_induct)
  case less
  show ?case
  proof (cases "n < b")
    case False
    then have "nat (n div b) < nat n" "0 \<le> n div b"
      using less.prems assms(1) by (auto simp: pos_imp_zdiv_nonneg_iff int_div_less_self)
    with False less show ?thesis by (auto intro: step)
  qed (use less small in auto)
qed

lemma dec_value_dec_loop: "0 \<le> n \<Longrightarrow> dec_value (dec_loop n []) = n"
proof (rule digits_induct [of 10 n])
  fix n :: int
  assume small: "0 \<le> n" "n < 10"
  then show "dec_value (dec_loop n []) = n"
    using dec_value_simps(2) [of "[]"] by (subst dec_loop_Nil) (simp add: of_char_digit_char)
next
  fix n :: int
  assume "10 \<le> n" "dec_value (dec_loop (n div 10) []) = n div 10"
  then show "dec_value (dec_loop n []) = n" by (subst dec_loop_Nil) (simp add: of_char_digit_char)
qed auto

lemma hex_digit_table: "0 \<le> d \<Longrightarrow> d < 16 \<Longrightarrow> hex_digit (hex_table ! nat d) = d"
proof -
  assume "0 \<le> d" "d < 16"
  have "\<forall>k<16. hex_digit (hex_table ! k) = int k"
    by (simp add: hex_table_def hex_digit_def numeral_eq_Suc All_less_Suc)
  with \<open>0 \<le> d\<close> \<open>d < 16\<close> show ?thesis by auto
qed

lemma hex_value_hex_loop: "0 \<le> n \<Longrightarrow> hex_value (hex_loop n []) = n"
proof (rule digits_induct [of 16 n])
  fix n :: int
  assume small: "0 \<le> n" "n < 16"
  then show "hex_value (hex_loop n []) = n"
    using hex_value_simps(2) [of "[]"] by (subst hex_loop_Nil) (simp add: hex_digit_table)
next
  fix n :: int
  assume "16 \<le> n" "hex_value (hex_loop (n div 16) []) = n div 16"
  then show "hex_value (hex_loop n []) = n" by (subst hex_loop_Nil) (simp add: hex_digit_table)
qed auto

lemma length_dec_loop:
  "0 \<le> n \<Longrightarrow> n < 10 ^ Suc k \<Longrightarrow> length (dec_loop n []) \<le> Suc k"
proof (induction k arbitrary: n)
  case 0
  then show ?case by (subst dec_loop_Nil) auto
next
  case (Suc k)
  have "\<forall>m. n < 10 * m \<longrightarrow> n div 10 < m" by presburger
  then have "n div 10 < 10 ^ Suc k"
    using Suc.prems by simp
  with Suc show ?case by (subst dec_loop_Nil) auto
qed

lemma length_hex_loop:
  "0 \<le> n \<Longrightarrow> n < 16 ^ Suc k \<Longrightarrow> length (hex_loop n []) \<le> Suc k"
proof (induction k arbitrary: n)
  case 0
  then show ?case by (subst hex_loop_Nil) auto
next
  case (Suc k)
  have "\<forall>m. n < 16 * m \<longrightarrow> n div 16 < m" by presburger
  then have "n div 16 < 16 ^ Suc k"
    using Suc.prems by simp
  with Suc show ?case by (subst hex_loop_Nil) auto
qed

lemma length_int_to_string: "length (int_to_string n) \<le> 11"
proof -
  have b: "- (2 ^ 31) \<le> sint n" "sint n < 2 ^ 31" "- (2 ^ 31) \<le> sint (- n)" "sint (- n) < 2 ^ 31"
    using sint_greater_eq [of n] sint_lt [of n] sint_greater_eq [of "- n"] sint_lt [of "- n"]
    by simp_all
  have "length (dec_loop m []) \<le> 10" if "m < 2 ^ 31" for m
  proof (cases "0 \<le> m")
    case True
    with that show ?thesis using length_dec_loop [of m 9] by simp
  next
    case False
    then show ?thesis by (subst dec_loop_Nil) simp
  qed
  with b show ?thesis by (auto simp: int_to_string_def Let_def intro: le_trans [of _ 10])
qed

text \<open>The number a signed decimal text denotes.\<close>

definition signed_value :: "string \<Rightarrow> int" where
  "signed_value t = (case t of [] \<Rightarrow> 0 | c # u \<Rightarrow> if c = CHR ''-'' then - dec_value u else dec_value t)"

lemma dec_loop_no_minus: "0 \<le> n \<Longrightarrow> \<exists>c u. dec_loop n [] = c # u \<and> c \<noteq> CHR ''-''"
proof (rule digits_induct [of 10 n])
  fix n :: int assume "0 \<le> n" "n < 10"
  moreover from this have "of_char (digit_char n) \<noteq> (of_char (CHR ''-'') :: int)" by (simp add: of_char_digit_char)
  ultimately show "\<exists>c u. dec_loop n [] = c # u \<and> c \<noteq> CHR ''-''" by (subst dec_loop_Nil) auto
next
  fix n :: int assume "10 \<le> n" "\<exists>c u. dec_loop (n div 10) [] = c # u \<and> c \<noteq> CHR ''-''"
  then show "\<exists>c u. dec_loop n [] = c # u \<and> c \<noteq> CHR ''-''" by (subst dec_loop_Nil) auto
qed simp_all

lemma sint_minus: "sint n \<noteq> - (2 ^ 31) \<Longrightarrow> sint (- n :: u32) = - sint n"
proof -
  assume "sint n \<noteq> - (2 ^ 31)"
  then have b: "- (2 ^ 31) \<le> - sint n" "- sint n < 2 ^ 31"
    using sint_greater_eq [of n] sint_lt [of n] by simp_all
  have "sint (- n) = signed_take_bit 31 (- sint n)"
    using sint_word_ariths(4) [of n] by simp
  then show ?thesis using b by (simp add: signed_take_bit_int_eq_self)
qed

text \<open>
  C36. \<open>int_to_string\<close> prints a number that reads back as the same number, for every 32-bit \<open>int\<close>
  except the least one, whose negation overflows: that one is printed as \<open>-0\<close>. The unsigned
  64-bit conversions to decimal and to hexadecimal are right for every value.
\<close>

theorem printed_numbers_read_back:
  "(if sint n = - (2 ^ 31) then int_to_string n = ''-0'' else signed_value (int_to_string n) = sint n) \<and>
   dec_value (longlong_to_string m) = uint m \<and> hex_value (longlong_to_hexstring m) = uint m"
proof -
  have "int_to_string n = ''-0''" if "sint n = - (2 ^ 31)"
  proof -
    have "word_of_int (sint n) = n" by simp
    then have "n = word_of_int (- (2 ^ 31))" unfolding that by (rule sym)
    then have "sint (- n) = - (2 ^ 31)" using that by simp
    then have "dec_loop (sint (- n)) [] = [digit_char (- (2 ^ 31))]" by (subst dec_loop_Nil) simp
    moreover have "digit_char (- (2 ^ 31)) = CHR ''0''"
    proof -
      have "(- (2 ^ 31) + 48 :: int) mod 256 = 48" by simp
      then have "char_of (- (2 ^ 31) + 48 :: int) = char_of (48 :: int)" by (metis char_of_mod_256)
      also have "\<dots> = CHR ''0''" by code_simp
      finally show ?thesis unfolding digit_char_def .
    qed
    ultimately show ?thesis using that by (simp add: int_to_string_def Let_def)
  qed
  moreover have "signed_value (int_to_string n) = sint n" if "sint n \<noteq> - (2 ^ 31)"
  proof (cases "sint n < 0")
    case True
    then show ?thesis using dec_value_dec_loop [of "- sint n"] sint_minus [OF that]
      by (simp add: int_to_string_def Let_def signed_value_def)
  next
    case False
    then obtain c u where "dec_loop (sint n) [] = c # u" "c \<noteq> CHR ''-''" using dec_loop_no_minus [of "sint n"] by auto
    then show ?thesis using False dec_value_dec_loop [of "sint n"] by (simp add: int_to_string_def Let_def signed_value_def)
  qed
  ultimately show ?thesis
    by (simp add: longlong_to_string_def longlong_to_hexstring_def dec_value_dec_loop hex_value_hex_loop)
qed

lemma length_longlong_to_string: "length (longlong_to_string n) \<le> 20"
  using length_dec_loop [of "uint n" 19] uint_lt2p [of n] by (simp add: longlong_to_string_def)

lemma length_longlong_to_hexstring: "length (longlong_to_hexstring n) \<le> 16"
  using length_hex_loop [of "uint n" 15] uint_lt2p [of n] by (simp add: longlong_to_hexstring_def)

section \<open>How much a format can print\<close>

text \<open>
  An upper bound for the length of the text of a call that depends on the format and on the
  strings only, not on the numbers: \<open>None\<close> where the call is undefined.
\<close>

fun fmt_bound :: "string \<Rightarrow> va_arg list \<Rightarrow> nat option" where
  "fmt_bound [] ap = Some 0"
| "fmt_bound (c # fmt) ap =
     (if c \<noteq> CHR ''%'' then map_option ((+) 1) (fmt_bound fmt ap)
      else case fmt of
        [] \<Rightarrow> Some 0
      | d # fmt1 \<Rightarrow>
        if d = CHR ''c'' then
          (case va_int ap of Inl e \<Rightarrow> None | Inr (n, ap1) \<Rightarrow> map_option ((+) 1) (fmt_bound fmt1 ap1))
        else if d = CHR ''s'' then
          (case va_str ap of Inl e \<Rightarrow> None | Inr (s, ap1) \<Rightarrow>
            (case str_arg s of Inl e \<Rightarrow> None
             | Inr t \<Rightarrow> map_option ((+) (length t)) (fmt_bound fmt1 ap1)))
        else if d = CHR ''d'' then
          (case va_int ap of Inl e \<Rightarrow> None | Inr (n, ap1) \<Rightarrow> map_option ((+) 11) (fmt_bound fmt1 ap1))
        else if d = CHR ''x'' then
          (case va_long ap of Inl e \<Rightarrow> None | Inr (n, ap1) \<Rightarrow> map_option ((+) 16) (fmt_bound fmt1 ap1))
        else if d = CHR ''p'' then
          (case va_long ap of Inl e \<Rightarrow> None | Inr (n, ap1) \<Rightarrow> map_option ((+) 18) (fmt_bound fmt1 ap1))
        else if d = CHR ''l'' then
          (case fmt1 of
             [] \<Rightarrow> None
           | e # fmt2 \<Rightarrow>
             if e = CHR ''x'' then
               (case va_long ap of Inl e \<Rightarrow> None | Inr (n, ap1) \<Rightarrow> map_option ((+) 16) (fmt_bound fmt2 ap1))
             else if e = CHR ''u'' then
               (case va_long ap of Inl e \<Rightarrow> None | Inr (n, ap1) \<Rightarrow> map_option ((+) 20) (fmt_bound fmt2 ap1))
             else map_option ((+) 3) (fmt_bound fmt2 ap))
        else map_option ((+) 2) (fmt_bound fmt1 ap))"

text \<open>The text \<open>v\<close> (at most \<open>m\<close> characters), followed by the text of the rest of the format.\<close>

lemma bound_step:
  assumes "\<And>k. b = Some k \<Longrightarrow> \<exists>r. out = Inr r \<and> length r \<le> k"
    and "map_option ((+) m) b = Some k" "length v \<le> m"
  shows "\<exists>r. rbind out (\<lambda>r. Inr (v @ r)) = Inr r \<and> length r \<le> k"
  using assms by fastforce

text \<open>The same with an argument fetched by \<open>get\<close> first.\<close>

lemma bound_arg:
  assumes "(case get of Inl e \<Rightarrow> None | Inr (n, ap1) \<Rightarrow> map_option ((+) m) (bnd ap1)) = Some k"
    and "\<And>n ap1 j. get = Inr (n, ap1) \<Longrightarrow> bnd ap1 = Some j \<Longrightarrow> \<exists>r. out ap1 = Inr r \<and> length r \<le> j" "\<And>n. length (v n) \<le> m"
  shows "\<exists>r. rbind get (\<lambda>(n, ap1). rbind (out ap1) (\<lambda>r. Inr (v n @ r))) = Inr r \<and> length r \<le> k"
proof (cases get)
  case (Inr x)
  then obtain n ap1 where x: "get = Inr (n, ap1)" by (cases x) simp
  have "\<exists>r. rbind (out ap1) (\<lambda>r. Inr (v n @ r)) = Inr r \<and> length r \<le> k"
    by (rule bound_step [of "bnd ap1" _ m]) (use assms x in auto)
  then show ?thesis using x by simp
qed (use assms in simp)

lemmas number_lengths =
  length_int_to_string length_longlong_to_string length_longlong_to_hexstring

lemma vsprintf_bound:
  "fmt_bound fmt ap = Some k \<Longrightarrow> \<exists>r. vsprintf fmt ap = Inr r \<and> length r \<le> k"
proof (induction fmt ap arbitrary: k rule: fmt_bound.induct)
  case (2 a fmt ap)
  note IH = "2.IH" and prem = "2.prems"
  show ?case
  proof (cases "a \<noteq> CHR ''%'' \<or> fmt = []")
    case True
    then show ?thesis using bound_step [OF IH(1), where m = 1 and k = k and v = "[a]"] prem by (cases "a = CHR ''%''") simp_all
  next
    case False
    then obtain d fmt1 where Cons: "a = CHR ''%''" "fmt = d # fmt1" by (cases fmt) auto
    consider (c) "d = CHR ''c''" | (s) "d = CHR ''s''" | (d) "d = CHR ''d''" | (x) "d = CHR ''x''"
      | (p) "d = CHR ''p''" | (l) "d = CHR ''l''"
      | (other) "d \<noteq> CHR ''c''" "d \<noteq> CHR ''s''" "d \<noteq> CHR ''d''" "d \<noteq> CHR ''x''" "d \<noteq> CHR ''p''" "d \<noteq> CHR ''l''"
      by blast
    then show ?thesis
    proof cases
      case c
      have "\<exists>r. rbind (va_int ap) (\<lambda>(n, ap1). rbind (vsprintf fmt1 ap1) (\<lambda>r. Inr ([char_of (uint n)] @ r))) = Inr r \<and> length r \<le> k"
        by (rule bound_arg [where m = 1 and bnd = "fmt_bound fmt1"]) (use prem Cons c IH(2) number_lengths in simp_all)
      then show ?thesis using Cons c by simp
    next
      case s
      from prem Cons s obtain t u ap1 where v: "va_str ap = Inr (t, ap1)" "str_arg t = Inr u"
        and b: "map_option ((+) (length u)) (fmt_bound fmt1 ap1) = Some k" by (auto split: sum.splits)
      have "\<exists>r. rbind (vsprintf fmt1 ap1) (\<lambda>r. Inr (u @ r)) = Inr r \<and> length r \<le> k"
        by (rule bound_step [OF IH(3) b]) (use v Cons s in simp_all)
      then show ?thesis using v Cons s by simp
    next
      case d
      have "\<exists>r. rbind (va_int ap) (\<lambda>(n, ap1). rbind (vsprintf fmt1 ap1) (\<lambda>r. Inr (int_to_string n @ r))) = Inr r \<and> length r \<le> k"
        by (rule bound_arg [where m = 11 and bnd = "fmt_bound fmt1"]) (use prem Cons d IH(4) number_lengths in simp_all)
      then show ?thesis using Cons d by simp
    next
      case x
      have "\<exists>r. rbind (va_long ap) (\<lambda>(n, ap1). rbind (vsprintf fmt1 ap1) (\<lambda>r. Inr (longlong_to_hexstring n @ r))) = Inr r \<and> length r \<le> k"
        by (rule bound_arg [where m = 16 and bnd = "fmt_bound fmt1"]) (use prem Cons x IH(5) number_lengths in simp_all)
      then show ?thesis using Cons x by simp
    next
      case p
      have "\<exists>r. rbind (va_long ap) (\<lambda>(n, ap1). rbind (vsprintf fmt1 ap1) (\<lambda>r. Inr ((''0x'' @ longlong_to_hexstring n) @ r))) = Inr r \<and> length r \<le> k"
        by (rule bound_arg [where m = 18 and bnd = "fmt_bound fmt1"]) (use prem Cons p IH(6) number_lengths in simp_all)
      then show ?thesis using Cons p by simp
    next
      case l
      then obtain e fmt2 where fmt1: "fmt1 = e # fmt2" using prem Cons by (cases fmt1) auto
      consider (lx) "e = CHR ''x''" | (lu) "e = CHR ''u''" | (lo) "e \<noteq> CHR ''x''" "e \<noteq> CHR ''u''" by blast
      then show ?thesis
      proof cases
        case lx
      have "\<exists>r. rbind (va_long ap) (\<lambda>(n, ap1). rbind (vsprintf fmt2 ap1) (\<lambda>r. Inr (longlong_to_hexstring n @ r))) = Inr r \<and> length r \<le> k"
        by (rule bound_arg [where m = 16 and bnd = "fmt_bound fmt2"]) (use prem Cons l fmt1 lx IH(7) number_lengths in simp_all)
      then show ?thesis using Cons l fmt1 lx by simp
      next
        case lu
      have "\<exists>r. rbind (va_long ap) (\<lambda>(n, ap1). rbind (vsprintf fmt2 ap1) (\<lambda>r. Inr (longlong_to_string n @ r))) = Inr r \<and> length r \<le> k"
        by (rule bound_arg [where m = 20 and bnd = "fmt_bound fmt2"]) (use prem Cons l fmt1 lu IH(8) number_lengths in simp_all)
      then show ?thesis using Cons l fmt1 lu by simp
      next
        case lo
        then show ?thesis using bound_step [OF IH(9), where m = 3 and v = "[CHR ''%'', CHR ''l'', e]"] prem Cons l fmt1 by simp
      qed
    next
      case other
      then show ?thesis using bound_step [OF IH(10), where m = 2 and v = "[CHR ''%'', d]"] prem Cons by simp
    qed
  qed
qed simp

lemma printf_eq:
  assumes "fmt_bound fmt ap = Some k" "k < MAX_BUF_SIZE"
  shows "\<exists>t. vsprintf fmt ap = Inr t \<and> printf fmt ap s = Inr (print_text (cstr t) s)"
  using vsprintf_bound [OF assms(1)] assms(2) by (auto simp: printf_def)

text \<open>
  C35. \<open>printf\<close> does not overrun its buffer of 512 bytes: a bound for the length of the text is
  computed from the format and the string arguments alone, whatever the numbers are; if it is
  below 512 (and the arguments fit the format), the call succeeds and prints that text.
\<close>

theorem printf_fits_buffer:
  assumes "fmt_bound fmt ap = Some k" "k < MAX_BUF_SIZE"
  shows "\<exists>t. vsprintf fmt ap = Inr t \<and> length t \<le> k \<and> printf fmt ap s = Inr (print_text (cstr t) s)"
  using vsprintf_bound [OF assms(1)] assms(2) by (auto simp: printf_def)

theorem printf_fits_buffer_witness:
  "\<exists>t. vsprintf ''pid:%d page:0x%lx'' [VInt 7, VLong 0x1000] = Inr t \<and> length t \<le> 39"
  using printf_fits_buffer [of "''pid:%d page:0x%lx''" "[VInt 7, VLong 0x1000]" 39] by auto

section \<open>What printing leaves alone\<close>

text \<open>
  Printing writes the screen and moves the cursor. \<open>console_only s t\<close> says so of a state
  change; every other field of the kernel state, in whatever record extends the console, is
  then the same.
\<close>

definition console_only :: "'a console_scheme \<Rightarrow> 'a console_scheme \<Rightarrow> bool" where
  "console_only s t \<longleftrightarrow>
     stdin_buf_size t = stdin_buf_size s \<and> console.more t = console.more s"

lemma console_only_refl [simp, intro]: "console_only s s"
  by (simp add: console_only_def)

lemma console_only_trans [trans]: "console_only s t \<Longrightarrow> console_only t u \<Longrightarrow> console_only s u"
  by (simp add: console_only_def)

lemma console_only_updates [simp]:
  "console_only s (t\<lparr>cursor_row := r\<rparr>) = console_only s t"
  "console_only s (t\<lparr>cursor_col := r\<rparr>) = console_only s t"
  "console_only s (t\<lparr>screen_buffer := b\<rparr>) = console_only s t"
  by (simp_all add: console_only_def)

lemma console_only_fold:
  "(\<And>i s. console_only s (f i s)) \<Longrightarrow> console_only s (fold f is s)"
  by (induction "is" arbitrary: s) (auto intro: console_only_trans)

lemma console_only_put [simp, intro]: "console_only s (put_to_screen c col row color s)"
  by (simp add: put_to_screen_def poke_def)

lemma console_only_scroll [simp, intro]: "console_only s (scoll_screen_up s)"
  unfolding scoll_screen_up_def Let_def
  by (rule console_only_trans; rule console_only_fold)
     (auto intro!: console_only_fold simp: scroll_cell_def poke_def)

lemma console_only_next_row [simp, intro]: "console_only s (next_row s)"
  by (simp add: next_row_def Let_def)

lemma console_only_next_col [simp, intro]: "console_only s (next_col s)"
  by (simp add: next_col_def Let_def)

lemma console_only_tab: "console_only s (tab_loop t s)"
proof (induction t s rule: tab_loop.induct)
  case (1 t s)
  show ?case
  proof (cases "t < TAB")
    case True
    let ?s = "(put_to_screen CHR '' '' (cursor_col s) (cursor_row s) 0 s)\<lparr>cursor_col := cursor_col s + 1\<rparr>"
    have "console_only s ?s" by simp
    also have "console_only ?s (tab_loop (t + 1) ?s)" using 1 True by blast
    finally show ?thesis using True by (subst tab_loop.simps) simp
  qed (subst tab_loop.simps, simp)
qed

lemma console_only_print [simp, intro]: "console_only s (print_to_screen c s)"
  unfolding print_to_screen_def
  by (auto intro: console_only_trans console_only_tab)

lemma console_only_text [simp, intro]: "console_only s (print_text t s)"
  by (auto simp: print_text_def intro: console_only_fold)

lemma console_only_clear: "console_only s (clear_screen s)"
  by (auto simp: clear_screen_def intro: console_only_fold)

lemma printf_console_only: "printf fmt ap s = Inr t \<Longrightarrow> console_only s t"
  by (auto simp: printf_def rbind_eq_Inr split: if_splits)

text \<open>
  The fields of a record that extends the console are read off this shape of the state after
  printing.
\<close>

lemma console_onlyE:
  assumes "console_only s t"
  obtains b r c where "t = s\<lparr>screen_buffer := b, cursor_row := r, cursor_col := c\<rparr>"
  using assms by (cases s; cases t) (auto simp: console_only_def)

lemma print_textE:
  obtains b r c where "print_text t s = s\<lparr>screen_buffer := b, cursor_row := r, cursor_col := c\<rparr>"
  using console_onlyE [OF console_only_text] .

lemma print_text_Nil [simp]: "print_text [] s = s"
  by (simp add: print_text_def)

lemma print_text_append: "print_text u (print_text t s) = print_text (t @ u) s"
  by (simp add: print_text_def)

lemma fmt_bound_append:
  "CHR ''%'' \<notin> set p \<Longrightarrow> fmt_bound (p @ fmt) ap = map_option ((+) (length p)) (fmt_bound fmt ap)"
  by (cases "fmt_bound fmt ap"; induction p) auto

lemma print_text_stdin [simp, frame_simps]: "stdin_buf_size (print_text t s) = stdin_buf_size s"
  using console_only_text [of s t] by (simp add: console_only_def)

lemma print_text_more [simp, frame_simps]: "console.more (print_text t s) = console.more s"
  using console_only_text [of s t] by (simp add: console_only_def)

section \<open>Scrolling\<close>

definition on_screen :: "int \<Rightarrow> int \<Rightarrow> bool" where
  "on_screen row col \<longleftrightarrow> 0 \<le> row \<and> row < MAX_ROW \<and> 0 \<le> col \<and> col < MAX_COLUMN"

text \<open>The screen after scrolling: each row holds the text of the row below, the last one blanks.\<close>

definition scrolled :: "(int \<Rightarrow> char) \<Rightarrow> int \<Rightarrow> char" where
  "scrolled b a =
     (if 0 \<le> a \<and> a < 3680 then if even a then b (a + 160) else NUL
      else if 3680 \<le> a \<and> a < 3840 then if even a then CHR '' '' else NUL
      else b a)"

lemma screen_scroll_cell: "screen_buffer (scroll_cell i j s) =
    (screen_buffer s)(160 * i + 2 * j := screen_buffer s (160 * i + 2 * j + 160), 160 * i + 2 * j + 1 := NUL)"
  by (simp add: scroll_cell_def poke_def cell_def algebra_simps)

lemma screen_put: "screen_buffer (put_to_screen c col row color s) =
    (screen_buffer s)(160 * row + 2 * col := c, 160 * row + 2 * col + 1 := char_of color)"
  by (simp add: put_to_screen_def poke_def cell_def algebra_simps)

lemma char_of_0 [simp]: "char_of (0 :: int) = NUL"
  by (simp add: char_of_def)

lemma scroll_row:
  assumes "k \<le> 80"
  shows "screen_buffer (fold (\<lambda>j. scroll_cell i (int j)) [0..<k] s) =
    (\<lambda>a. if 160 * i \<le> a \<and> a < 160 * i + 2 * int k
         then if even a then screen_buffer s (a + 160) else NUL else screen_buffer s a)"
  using assms
proof (induction k)
  case 0
  show ?case by (rule ext) auto
next
  case (Suc k)
  show ?case
  proof (rule ext)
    fix a
    consider "a = 160 * i + 2 * int k" | "a = 160 * i + 2 * int k + 1"
      | "a < 160 * i + 2 * int k" | "160 * i + 2 * int k + 1 < a" by linarith
    then show "screen_buffer (fold (\<lambda>j. scroll_cell i (int j)) [0..<Suc k] s) a =
      (if 160 * i \<le> a \<and> a < 160 * i + 2 * int (Suc k)
       then if even a then screen_buffer s (a + 160) else NUL else screen_buffer s a)"
      using Suc by cases (auto simp: screen_scroll_cell)
  qed
qed

lemma scroll_rows:
  assumes "k \<le> 23"
  shows "screen_buffer (fold (\<lambda>i. fold (\<lambda>j. scroll_cell (int i) (int j)) [0..<80]) [0..<k] s) =
    (\<lambda>a. if 0 \<le> a \<and> a < 160 * int k
         then if even a then screen_buffer s (a + 160) else NUL else screen_buffer s a)"
  using assms
proof (induction k)
  case 0
  show ?case by (rule ext) auto
next
  case (Suc k)
  then show ?case
    by (simp add: scroll_row del: upt_Suc add: upt_Suc_append) (auto simp: fun_eq_iff)
qed

lemma blank_row:
  assumes "k \<le> 80"
  shows "screen_buffer (fold (\<lambda>j s. put_to_screen CHR '' '' (int j) (MAX_ROW - 1) 0 s) [0..<k] s) =
    (\<lambda>a. if 3680 \<le> a \<and> a < 3680 + 2 * int k then if even a then CHR '' '' else NUL
         else screen_buffer s a)"
  using assms
proof (induction k)
  case 0
  show ?case by (rule ext) auto
next
  case (Suc k)
  show ?case
  proof (rule ext)
    fix a
    consider "a = 3680 + 2 * int k" | "a = 3680 + 2 * int k + 1"
      | "a < 3680 + 2 * int k" | "3680 + 2 * int k + 1 < a" by linarith
    then show "screen_buffer (fold (\<lambda>j s. put_to_screen CHR '' '' (int j) (MAX_ROW - 1) 0 s) [0..<Suc k] s) a =
      (if 3680 \<le> a \<and> a < 3680 + 2 * int (Suc k) then if even a then CHR '' '' else NUL else screen_buffer s a)"
      using Suc by cases (auto simp: screen_put)
  qed
qed

lemma screen_scroll: "screen_buffer (scoll_screen_up s) = scrolled (screen_buffer s)"
  unfolding scoll_screen_up_def Let_def blank_row [OF order_refl] scroll_rows [OF order_refl]
  by (auto simp: scrolled_def fun_eq_iff)

lemma scroll_cursor [simp]:
  "cursor_row (scoll_screen_up s) = cursor_row s" "cursor_col (scoll_screen_up s) = cursor_col s"
proof -
  let ?P = "\<lambda>t. cursor_row t = cursor_row s \<and> cursor_col t = cursor_col s"
  have "?P (scoll_screen_up s)"
    unfolding scoll_screen_up_def Let_def
    by (rule fold_invariant [where P = ?P], rule fold_invariant [where P = ?P], simp,
        rule fold_invariant [where P = ?P])
       (auto simp: scroll_cell_def put_to_screen_def poke_def)
  then show "cursor_row (scoll_screen_up s) = cursor_row s"
    and "cursor_col (scoll_screen_up s) = cursor_col s" by auto
qed

section \<open>The cursor stays on the screen\<close>

definition cursor_ok :: "'a console_scheme \<Rightarrow> bool" where
  "cursor_ok s \<longleftrightarrow> on_screen (cursor_row s) (cursor_col s)"

text \<open>The bytes of the text window (rows 0 to 23); row 24 is the status line.\<close>

definition outside_text :: "int \<Rightarrow> bool" where
  "outside_text a \<longleftrightarrow> a < 0 \<or> 3840 \<le> a"

lemma put_cursor [simp]:
  "cursor_row (put_to_screen c col row color s) = cursor_row s"
  "cursor_col (put_to_screen c col row color s) = cursor_col s"
  by (simp_all add: put_to_screen_def poke_def)

lemma put_outside:
  "on_screen row col \<Longrightarrow> outside_text a \<Longrightarrow>
     screen_buffer (put_to_screen c col row color s) a = screen_buffer s a"
  by (auto simp: screen_put on_screen_def outside_text_def)

lemma scroll_outside: "outside_text a \<Longrightarrow> screen_buffer (scoll_screen_up s) a = screen_buffer s a"
  by (auto simp: screen_scroll scrolled_def outside_text_def)

lemma next_row_ok:
  assumes "0 \<le> cursor_row s" "cursor_row s < MAX_ROW"
  shows "cursor_ok (next_row s)"
    "outside_text a \<Longrightarrow> screen_buffer (next_row s) a = screen_buffer s a"
  using assms by (auto simp: next_row_def cursor_ok_def on_screen_def Let_def scroll_outside)

lemma next_col_ok:
  assumes "cursor_ok s"
  shows "cursor_ok (next_col s)"
    "outside_text a \<Longrightarrow> screen_buffer (next_col s) a = screen_buffer s a"
  using assms next_row_ok [of s]
  by (auto simp: next_col_def cursor_ok_def on_screen_def Let_def)

lemma tab_loop_cursor:
  "t \<le> TAB \<Longrightarrow> cursor_col (tab_loop t s) = cursor_col s + (TAB - t) \<and> cursor_row (tab_loop t s) = cursor_row s"
proof (induction t s rule: tab_loop.induct)
  case (1 t s)
  then show ?case by (subst (1 2) tab_loop.simps) auto
qed

lemma tab_loop_outside:
  assumes "0 \<le> cursor_row s" "cursor_row s < MAX_ROW" "0 \<le> cursor_col s"
    "cursor_col s + (TAB - t) \<le> MAX_COLUMN" "outside_text a"
  shows "screen_buffer (tab_loop t s) a = screen_buffer s a"
  using assms
proof (induction t s rule: tab_loop.induct)
  case (1 t s)
  then show ?case
    by (subst tab_loop.simps) (auto simp: put_outside on_screen_def)
qed

lemma c_mod_nonneg [simp]: "0 \<le> a \<Longrightarrow> 0 < b \<Longrightarrow> c_mod a b = a mod b"
  by (cases "a = 0") (auto simp: c_mod_def sgn_if)

lemma print_inside:
  assumes "cursor_ok s"
    and "c = CHR 0x09 \<Longrightarrow> cursor_col s < 72"
    and "c = CHR 0x0E \<Longrightarrow> 0 < cursor_col s \<or> stdin_buf_size s \<le> 0"
  shows "cursor_ok (print_to_screen c s) \<and>
    (\<forall>a. outside_text a \<longrightarrow> screen_buffer (print_to_screen c s) a = screen_buffer s a)"
proof -
  have rc: "0 \<le> cursor_row s" "cursor_row s < 24" "0 \<le> cursor_col s" "cursor_col s < 80"
    using assms(1) by (auto simp: cursor_ok_def on_screen_def)
  consider (tab) "c = CHR 0x09" | (nl) "c = CHR 0x0A" | (rub) "c = CHR 0x0E"
    | (nop) "c = CHR 0x08 \<or> c = CHR 0x0D"
    | (plain) "c \<noteq> CHR 0x09" "c \<noteq> CHR 0x0A" "c \<noteq> CHR 0x08" "c \<noteq> CHR 0x0D" "c \<noteq> CHR 0x0E" by blast
  then show ?thesis
  proof cases
    case tab
    let ?t = "cursor_col s mod 8" and ?s = "tab_loop (cursor_col s mod 8) s"
    have col: "cursor_col s + (8 - ?t) \<le> 72"
      using tab assms(2) rc by presburger
    then have "cursor_ok ?s"
      using tab_loop_cursor [of ?t s] rc by (auto simp: cursor_ok_def on_screen_def)
    moreover have "screen_buffer ?s a = screen_buffer s a" if "outside_text a" for a
      using rc col that by (intro tab_loop_outside) auto
    ultimately show ?thesis
      using tab rc by (simp add: print_to_screen_def next_col_ok)
  next
    case nl
    then show ?thesis using rc by (simp add: print_to_screen_def next_row_ok)
  next
    case rub
    then show ?thesis
      using assms(1,3) rc by (auto simp: print_to_screen_def put_outside cursor_ok_def on_screen_def)
  next
    case nop
    then show ?thesis using assms(1) by (auto simp: print_to_screen_def)
  next
    case plain
    then show ?thesis
      using assms(1) rc next_col_ok [of "put_to_screen c (cursor_col s) (cursor_row s) 0 s"]
      by (auto simp: print_to_screen_def put_outside cursor_ok_def on_screen_def)
  qed
qed

text \<open>
  A tab printed at column 72 or later of any row puts the cursor in column 81, outside the
  80 columns of the screen.
\<close>

lemma tab_leaves_screen:
  assumes "cursor_ok s" "72 \<le> cursor_col s"
  shows "cursor_col (print_to_screen CHR 0x09 s) = 81 \<and> \<not> cursor_ok (print_to_screen CHR 0x09 s)"
proof -
  have "cursor_col s mod 8 = cursor_col s - 72"
    using assms by (simp add: cursor_ok_def on_screen_def) presburger
  then have "cursor_col (tab_loop (cursor_col s mod 8) s) = 80"
    using tab_loop_cursor [of "cursor_col s mod 8" s] assms(2) by simp
  then show ?thesis
    using assms by (simp add: print_to_screen_def next_col_def cursor_ok_def on_screen_def Let_def)
qed

lemma rubout_leaves_screen:
  assumes "cursor_ok s" "cursor_col s = 0" "0 < stdin_buf_size s"
  shows "\<not> cursor_ok (print_to_screen CHR 0x0E s)"
  using assms by (simp add: print_to_screen_def cursor_ok_def on_screen_def)

text \<open>
  C34. Printing a character keeps the cursor inside the 24 x 80 text window and changes no byte of video memory outside
  it, except in exactly two cases: a tab at column 72 or later, and a rub-out (code 0x0E) at column 0 while the line
  buffer is not empty. There the cursor leaves the window.
\<close>

theorem print_stays_on_screen:
  assumes "cursor_ok s"
  shows "if c = CHR 0x09 \<and> 72 \<le> cursor_col s \<or> c = CHR 0x0E \<and> cursor_col s = 0 \<and> 0 < stdin_buf_size s
    then \<not> cursor_ok (print_to_screen c s)
    else cursor_ok (print_to_screen c s) \<and> (\<forall>a. outside_text a \<longrightarrow> screen_buffer (print_to_screen c s) a = screen_buffer s a)"
proof -
  have "0 \<le> cursor_col s" using assms by (simp add: cursor_ok_def on_screen_def)
  then show ?thesis using print_inside [OF assms, of c] tab_leaves_screen [OF assms] rubout_leaves_screen [OF assms] by auto
qed

theorem print_stays_on_screen_witness:
  "cursor_ok (print_to_screen CHR 0x09
     \<lparr>screen_buffer = \<lambda>_. NUL, cursor_row = 23, cursor_col = 71, stdin_buf_size = 0\<rparr>)"
  using print_stays_on_screen
    [of "\<lparr>screen_buffer = \<lambda>_. NUL, cursor_row = 23, cursor_col = 71, stdin_buf_size = 0\<rparr>" "CHR 0x09"]
  by (simp add: cursor_ok_def on_screen_def)

end
