(* ===== verification/Ram.thy ===== *)
theory Ram
  imports Plum_Prelude
begin

text \<open>
  Physical memory. The kernel reads and writes it both as bytes (file and user data) and as
  64-bit words (page tables), so it is an array of 64-bit words: \<open>r q\<close> is the word at physical
  address \<open>8 * q\<close>, and byte lane \<open>k\<close> of it the byte at \<open>8 * q + k\<close> (little endian). A 64-bit
  access is to an aligned address; byte accesses are to any address.

  The address macros of include/sys/mm.h and the byte loops \<open>memset\<close> and \<open>copy_page\<close> of
  src/sys/mm.c are here.
\<close>

type_synonym ram = "u64 \<Rightarrow> u64"

section \<open>Addresses (include/sys/mm.h)\<close>

abbreviation (input) PG_BITS :: nat where "PG_BITS \<equiv> 12"
abbreviation (input) PG_SIZE :: nat where "PG_SIZE \<equiv> 4096"

definition KERNEL_OFFSET :: u64 where "KERNEL_OFFSET = 0xffffffff80000000"

definition VA2PA :: "u64 \<Rightarrow> u64" where "VA2PA a = a - KERNEL_OFFSET"

definition PA2VA :: "u64 \<Rightarrow> u64" where "PA2VA a = a + KERNEL_OFFSET"

text \<open>\<open>~(PG_SIZE - 1)\<close> is an \<open>int\<close> that is sign-extended.\<close>

definition PG_MASK :: u64 where "PG_MASK = NOT 4095"

definition PG_ALIGN :: "u64 \<Rightarrow> u64" where "PG_ALIGN a = (a + 4096 - 1) AND PG_MASK"

section \<open>Access\<close>

definition load64 :: "ram \<Rightarrow> u64 \<Rightarrow> u64" where
  "load64 r a = r (drop_bit 3 a)"

definition store64 :: "u64 \<Rightarrow> u64 \<Rightarrow> ram \<Rightarrow> ram" where
  "store64 a v r = r(drop_bit 3 a := v)"

definition lane :: "u64 \<Rightarrow> nat" where
  "lane a = 8 * (unat a mod 8)"

definition load8 :: "ram \<Rightarrow> u64 \<Rightarrow> u8" where
  "load8 r a = ucast (drop_bit (lane a) (r (drop_bit 3 a)))"

definition store8 :: "u64 \<Rightarrow> u8 \<Rightarrow> ram \<Rightarrow> ram" where
  "store8 a b r = r(drop_bit 3 a :=
     (r (drop_bit 3 a) AND NOT (push_bit (lane a) (mask 8))) OR push_bit (lane a) (ucast b))"

text \<open>\<open>memset (void *s, int c, size_t n)\<close>, at a physical address: \<open>n\<close> byte stores in order.\<close>

definition memset :: "u64 \<Rightarrow> u8 \<Rightarrow> nat \<Rightarrow> ram \<Rightarrow> ram" where
  "memset p c n r = fold (\<lambda>i. store8 (p + of_nat i) c) [0..<n] r"

text \<open>\<open>copy_page\<close>: 4096 byte copies in order, between physical addresses.\<close>

definition copy_bytes :: "u64 \<Rightarrow> u64 \<Rightarrow> nat \<Rightarrow> ram \<Rightarrow> ram" where
  "copy_bytes dest src n r = fold (\<lambda>i r. store8 (dest + of_nat i) (load8 r (src + of_nat i)) r) [0..<n] r"

section \<open>Address arithmetic\<close>

lemma VA2PA_PA2VA [simp]: "VA2PA (PA2VA a) = a"
  by (simp add: VA2PA_def PA2VA_def)

lemma PA2VA_VA2PA [simp]: "PA2VA (VA2PA a) = a"
  by (simp add: VA2PA_def PA2VA_def)

lemma PA2VA_inject [simp]: "PA2VA a = PA2VA b \<longleftrightarrow> a = b"
  by (simp add: PA2VA_def)

lemma unat_qword: "unat (drop_bit 3 (a :: u64)) = unat a div 8"
  by (simp only: unat_drop64) simp

lemma qword_eq_iff: "drop_bit 3 a = drop_bit 3 (b :: u64) \<longleftrightarrow> unat a div 8 = unat b div 8"
  by (metis unat_qword word_unat_eq_iff)

lemma addr_eq_iff: "a = b \<longleftrightarrow> drop_bit 3 a = drop_bit 3 (b :: u64) \<and> lane a = lane b"
proof
  assume "drop_bit 3 a = drop_bit 3 b \<and> lane a = lane b"
  then have "unat a div 8 = unat b div 8" "unat a mod 8 = unat b mod 8"
    by (simp_all add: qword_eq_iff lane_def)
  then show "a = b" by (metis div_mult_mod_eq word_unat_eq_iff)
qed simp

lemma lane_bound: "lane a \<le> 56" and lane_mod: "lane a mod 8 = 0"
  by (simp_all add: lane_def)

lemma lanes_apart: "lane a \<noteq> lane b \<Longrightarrow> lane a + 8 \<le> lane b \<or> lane b + 8 \<le> lane a"
  by (auto simp: lane_def)

text \<open>Masking an address with \<open>PG_MASK\<close> rounds it down to the start of its page.\<close>

lemma unat_PG_MASK: "unat (a AND PG_MASK) = 4096 * (unat a div 4096)"
proof -
  have m: "(4095 :: u64) = mask 12" by (simp add: mask_eq_exp_minus_1)
  have "a AND PG_MASK = push_bit 12 (drop_bit 12 a)"
    unfolding PG_MASK_def m by (rule bit_word_eqI) (auto simp: bit_simps)
  moreover have "unat (drop_bit 12 a) = unat a div 4096" by (simp add: unat_drop64)
  moreover have "unat a div 4096 * 4096 < 18446744073709551616"
    using unat_lt64 [of a] by (rule le_less_trans [rotated]) simp
  ultimately show ?thesis by (simp add: unat_push64)
qed

lemma PG_ALIGN_aligned:
  assumes "unat a mod 4096 = 0"
  shows "PG_ALIGN a = a"
proof -
  define k where "k = unat a div 4096"
  have a: "unat a = 4096 * k" using assms mult_div_mod_eq [of 4096 "unat a"] by (simp add: k_def)
  then have "k < 4503599627370496" using unat_lt64 [of a] by simp
  then have "unat (a + 4095) = 4096 * k + 4095" using a by (simp add: unat_add64)
  moreover have "(4096 * k + 4095) div 4096 = k" by simp
  moreover have "PG_ALIGN a = (a + 4095) AND PG_MASK" by (simp add: PG_ALIGN_def add.commute)
  ultimately have "unat (PG_ALIGN a) = unat a" by (simp only: unat_PG_MASK a)
  then show ?thesis by (simp only: u64_eq_iff)
qed

section \<open>Stores and loads\<close>

lemma bit_load8: "bit (load8 r a) n \<longleftrightarrow> n < 8 \<and> bit (r (drop_bit 3 a)) (lane a + n)"
  by (auto simp: load8_def bit_simps)

lemma load8_store8: "load8 (store8 a b r) c = (if a = c then b else load8 r c)"
proof (rule bit_word_eqI)
  fix n assume n: "n < LENGTH(8)"
  show "bit (load8 (store8 a b r) c) n \<longleftrightarrow> bit (if a = c then b else load8 r c) n"
  proof (cases "drop_bit 3 a = drop_bit 3 c")
    case False
    then show ?thesis by (auto simp: bit_load8 store8_def)
  next
    case q: True
    show ?thesis
    proof (cases "lane a = lane c")
      case True
      then have "a = c" using q addr_eq_iff by blast
      then show ?thesis using n lane_bound [of c]
        by (auto simp: bit_load8 store8_def bit_simps bit_mask_iff)
    next
      case False
      then have "a \<noteq> c" by blast
      with False q show ?thesis using n lane_bound [of c] lanes_apart [of a c]
        by (auto simp: bit_load8 store8_def bit_simps bit_mask_iff dest: bit_imp_le_length)
    qed
  qed
qed

lemma load64_store64: "load64 (store64 a v r) b = (if drop_bit 3 a = drop_bit 3 b then v else load64 r b)"
  by (simp add: load64_def store64_def)

text \<open>A 64-bit word is the eight bytes at its address.\<close>

lemma load64_eqI:
  assumes "\<And>k. k < 8 \<Longrightarrow> load8 r (a + of_nat k) = load8 r' (b + of_nat k)"
    and "unat a mod 8 = 0" "unat b mod 8 = 0"
  shows "load64 r a = load64 r' b"
proof (rule bit_word_eqI)
  fix n assume n: "n < LENGTH(64)"
  have byte: "bit (load8 r (a + of_nat (n div 8))) (n mod 8) = bit (load64 r a) n"
    if "unat a mod 8 = 0" for r and a :: u64
  proof -
    have k: "n div 8 < 8" using n by simp
    then have "unat a + n div 8 < 2 ^ 64"
      using that unat_lt64 [of a] by simp presburger
    then have "unat (a + of_nat (n div 8)) = unat a + n div 8"
      using k by (simp add: u64_unat)
    then have "lane (a + of_nat (n div 8)) = 8 * (n div 8)"
      and "drop_bit 3 (a + of_nat (n div 8)) = drop_bit 3 a"
      using that k by (auto simp: lane_def qword_eq_iff mod_add_left_eq)
    then show ?thesis by (simp add: bit_load8 load64_def)
  qed
  have "n div 8 < 8" using n by simp
  then have "load8 r (a + of_nat (n div 8)) = load8 r' (b + of_nat (n div 8))"
    by (rule assms(1))
  then show "bit (load64 r a) n = bit (load64 r' b) n"
    using byte [of a r] byte [of b r'] assms(2,3) by simp
qed

lemma offset_eq_iff:
  "n < 18446744073709551616 \<Longrightarrow> p + of_nat n = (a :: u64) \<longleftrightarrow> unat (a - p) = n"
proof
  assume "n < 18446744073709551616" "p + of_nat n = a"
  then show "unat (a - p) = n" by (auto simp: unat_of_nat64)
next
  assume "unat (a - p) = n"
  then have "of_nat n = a - p" by auto
  then show "p + of_nat n = a" by simp
qed

lemma load8_memset:
  "n \<le> 18446744073709551616 \<Longrightarrow>
     load8 (memset p c n r) a = (if unat (a - p) < n then c else load8 r a)"
proof (induction n)
  case (Suc n)
  then show ?case
    using offset_eq_iff [of n p a] by (auto simp: memset_def load8_store8)
qed (simp add: memset_def)

lemma load8_copy_bytes:
  assumes "n \<le> 18446744073709551616"
    and "\<And>i. i < n \<Longrightarrow> n \<le> unat (src + of_nat i - dest)"
  shows "load8 (copy_bytes dest src n r) a =
    (if unat (a - dest) < n then load8 r (src + (a - dest)) else load8 r a)"
proof -
  have "load8 (copy_bytes dest src m r) a =
      (if unat (a - dest) < m then load8 r (src + (a - dest)) else load8 r a)" if "m \<le> n" for m a
    using that
  proof (induction m arbitrary: a)
    case (Suc m)
    have "load8 (copy_bytes dest src m r) (src + of_nat m) = load8 r (src + of_nat m)"
      using Suc assms(2) [of m] by simp
    moreover have "unat (a - dest) = m \<Longrightarrow> of_nat m = a - dest"
      by auto
    ultimately show ?case
      using Suc assms(1) offset_eq_iff [of m dest a]
      by (auto simp: copy_bytes_def load8_store8 less_Suc_eq)
  qed (simp add: copy_bytes_def)
  then show ?thesis by simp
qed

section \<open>Frames\<close>

text \<open>The \<open>i\<close>-th 64-bit word of page frame \<open>f\<close>, and its physical address.\<close>

definition frame_pa :: "nat \<Rightarrow> u64" where
  "frame_pa f = of_nat (4096 * f)"

definition entry_pa :: "nat \<Rightarrow> nat \<Rightarrow> u64" where
  "entry_pa f i = of_nat (4096 * f + 8 * i)"

definition frame_word :: "ram \<Rightarrow> nat \<Rightarrow> nat \<Rightarrow> u64" where
  "frame_word r f i = load64 r (entry_pa f i)"

text \<open>Frame numbers in use are far below \<open>2 ^ 52\<close>, so that the addresses do not wrap.\<close>

definition small_frame :: "nat \<Rightarrow> bool" where
  "small_frame f \<longleftrightarrow> f < 4503599627370496"

lemma unat_frame_pa: "small_frame f \<Longrightarrow> unat (frame_pa f) = 4096 * f"
  unfolding frame_pa_def small_frame_def by (subst unat_of_nat64) simp_all

text \<open>Page-aligned addresses and frame numbers.\<close>

lemma unat_frame: "small_frame k \<Longrightarrow> unat (of_nat k :: u64) = k"
  unfolding small_frame_def by (rule unat_of_nat64) simp

lemma drop_frame_pa: "small_frame k \<Longrightarrow> drop_bit 12 (frame_pa k) = of_nat k"
proof -
  assume k: "small_frame k"
  have "unat (drop_bit 12 (frame_pa k)) = k"
    by (simp only: unat_drop64 unat_frame_pa [OF k]) simp
  then show ?thesis by (simp only: u64_eq_iff unat_frame [OF k])
qed

lemma push_frame: "small_frame k \<Longrightarrow> push_bit 12 (of_nat k) = frame_pa k"
proof -
  assume k: "small_frame k"
  have "unat (push_bit 12 (of_nat k :: u64)) = 4096 * k"
    using k by (subst unat_push64) (simp_all add: unat_frame, simp add: small_frame_def)
  then show ?thesis by (simp only: u64_eq_iff unat_frame_pa [OF k])
qed

lemma frame_pa_add: "frame_pa a + frame_pa b = frame_pa (a + b)"
  by (simp add: frame_pa_def algebra_simps)

lemma frame_pa_cover: "unat a mod 4096 = 0 \<Longrightarrow> a = frame_pa (unat a div 4096)"
  using mult_div_mod_eq [of 4096 "unat a"] unfolding frame_pa_def
  by (metis add.right_neutral of_nat_unat ucast_id)

lemma unat_entry_pa: "small_frame f \<Longrightarrow> i < 512 \<Longrightarrow> unat (entry_pa f i) = 4096 * f + 8 * i"
  unfolding entry_pa_def small_frame_def by (subst unat_of_nat64) simp_all

text \<open>A number is its quotient and remainder by the block size in only one way.\<close>

lemma block_eq_iff:
  fixes n :: nat
  assumes "i < n" "j < n"
  shows "n * f + i = n * g + j \<longleftrightarrow> f = g \<and> i = j"
proof
  assume e: "n * f + i = n * g + j"
  have "(n * f + i) div n = f" "(n * g + j) div n = g" using assms by simp_all
  then have "f = g" using e by simp
  then show "f = g \<and> i = j" using e by simp
qed simp

lemma entry_pa_inj:
  assumes "small_frame f" "i < 512" "small_frame g" "j < 512"
  shows "drop_bit 3 (entry_pa f i) = drop_bit 3 (entry_pa g j) \<longleftrightarrow> f = g \<and> i = j"
proof -
  have "(4096 * f + 8 * i) div 8 = 512 * f + i" "(4096 * g + 8 * j) div 8 = 512 * g + j"
    by simp_all
  moreover note block_eq_iff [OF assms(2,4), of f g]
  ultimately show ?thesis
    using assms by (simp only: qword_eq_iff unat_entry_pa)
qed

lemma frame_word_store64:
  assumes "small_frame f" "i < 512" "small_frame g" "j < 512"
  shows "frame_word (store64 (entry_pa f i) v r) g j = (if f = g \<and> i = j then v else frame_word r g j)"
  using assms by (simp add: frame_word_def load64_store64 entry_pa_inj)

lemma frame_byte_offset:
  assumes "small_frame f" "small_frame g" "k < 4096"
  shows "unat (frame_pa g + of_nat k - frame_pa f) < 4096 \<longleftrightarrow> f = g"
proof
  assume lt: "unat (frame_pa g + of_nat k - frame_pa f) < 4096"
  have g: "unat (frame_pa g + of_nat k) = 4096 * g + k"
    using assms by (simp add: u64_unat unat_frame_pa small_frame_def)
  have f: "unat (frame_pa f) = 4096 * f"
    using assms by (simp add: unat_frame_pa)
  define d where "d = frame_pa g + of_nat k - frame_pa f"
  have "frame_pa g + of_nat k = frame_pa f + d" by (simp add: d_def)
  moreover have "unat (frame_pa f + d) = 4096 * f + unat d"
    using lt f assms(1) unat_add64 [of "frame_pa f" d] unfolding d_def [symmetric] small_frame_def
    by simp
  ultimately have "4096 * g + k = 4096 * f + unat d" using g by simp
  moreover have "unat d < 4096" using lt d_def by simp
  ultimately show "f = g" using block_eq_iff [OF assms(3), of "unat d" g f] by simp
next
  assume "f = g"
  then show "unat (frame_pa g + of_nat k - frame_pa f) < 4096"
    using assms by (simp add: unat_of_nat64)
qed

text \<open>Clearing a frame clears its words and leaves the other frames alone.\<close>

lemma frame_word_eqI:
  assumes "small_frame f" "small_frame g" "i < 512"
    and "\<And>k. k < 4096 \<Longrightarrow> load8 r (frame_pa f + of_nat k) = load8 r' (frame_pa g + of_nat k)"
  shows "frame_word r f i = frame_word r' g i"
  unfolding frame_word_def
proof (rule load64_eqI)
  fix k :: nat assume "k < 8"
  then have "load8 r (frame_pa f + of_nat (8 * i + k)) = load8 r' (frame_pa g + of_nat (8 * i + k))"
    using assms(3) by (intro assms(4)) simp
  then show "load8 r (entry_pa f i + of_nat k) = load8 r' (entry_pa g i + of_nat k)"
    by (simp add: entry_pa_def frame_pa_def ac_simps)
qed (use assms in \<open>auto simp: unat_entry_pa\<close>)

lemma load8_zero: "load8 (\<lambda>_. 0) a = 0"
  by (simp add: load8_def)

lemma frame_word_memset:
  assumes "small_frame f" "small_frame g" "i < 512"
  shows "frame_word (memset (frame_pa f) 0 4096 r) g i = (if f = g then 0 else frame_word r g i)"
proof (cases "f = g")
  case True
  have "frame_word (memset (frame_pa f) 0 4096 r) g i = frame_word (\<lambda>_. 0) g i"
    using assms True by (intro frame_word_eqI) (auto simp: load8_memset frame_byte_offset load8_zero unat_of_nat64)
  then show ?thesis using True by (simp add: frame_word_def load64_def)
next
  case False
  then show ?thesis
    using assms by (auto intro!: frame_word_eqI simp: load8_memset frame_byte_offset)
qed

lemma frame_word_copy:
  assumes "small_frame f" "small_frame g" "small_frame h" "f \<noteq> g" "i < 512"
  shows "frame_word (copy_bytes (frame_pa f) (frame_pa g) 4096 r) h i =
    (if h = f then frame_word r g i else frame_word r h i)"
proof -
  have apart: "4096 \<le> unat (frame_pa g + of_nat k - frame_pa f)" if "k < 4096" for k
    using frame_byte_offset [of f g k] assms that by force
  have byte: "load8 (copy_bytes (frame_pa f) (frame_pa g) 4096 r) a =
      (if unat (a - frame_pa f) < 4096 then load8 r (frame_pa g + (a - frame_pa f)) else load8 r a)" for a
    by (rule load8_copy_bytes) (use apart in auto)
  show ?thesis
    using assms by (auto intro!: frame_word_eqI simp: byte frame_byte_offset unat_of_nat64)
qed

end
