(* ===== verification/PhysMem.thy ===== *)
theory PhysMem
  imports Console Ram
begin

text \<open>
  Physical memory management (the first half of src/sys/mm.c): the boot-time layout
  (\<open>setup_bitmap\<close>, \<open>setup_initial_pgtables\<close>, \<open>setup_page_array\<close>, \<open>free_initmem\<close>, \<open>mm_init\<close>),
  the reference counts and the page-frame allocator (\<open>get_free_page\<close>, \<open>get_zero_page\<close>,
  \<open>free_page\<close>).

  The bitmap and the array of \<open>struct page\<close> are C arrays of fixed size; they are fields of the
  state, indexed by element, and an index outside the array is a fault. Everything else that
  lives in page frames (page tables and user pages) is in \<open>ram\<close>. Kernel code reaches a frame
  through its address in the kernel's direct map, \<open>PA2VA pa\<close>, which theory Paging shows the
  initial page tables to translate back to \<open>pa\<close>.
\<close>

section \<open>State\<close>

record phymem_block =
  pb_base :: u64
  pb_length :: u64

record phymem = console +
  pmb_array :: "phymem_block list"   \<comment> \<open>\<open>MAX_PHY_BLOCK\<close> entries\<close>
  pmb_count :: u32
  physbase :: u64
  physfree :: u64
  loaderbase :: u64
  loaderend :: u64
  pgd_start :: u64
  pgtable_end :: u64
  bitmap_ptr :: u64                  \<comment> \<open>the value of the pointer \<open>bitmap\<close>\<close>
  bitmap_end :: u64
  page_array_ptr :: u64              \<comment> \<open>the value of the pointer \<open>page_array\<close>\<close>
  page_array_end :: u64
  bitmap :: "nat \<Rightarrow> u64"             \<comment> \<open>\<open>BITMAP_SIZE\<close> words\<close>
  page_ref :: "nat \<Rightarrow> u32"           \<comment> \<open>\<open>page_array[i].ref\<close>, \<open>PAGE_ARRAY_SIZE\<close> of them\<close>
  ram :: ram
  cr3 :: u64

abbreviation (input) BITMAP_SIZE :: nat where "BITMAP_SIZE \<equiv> 512"
abbreviation (input) PAGE_ARRAY_SIZE :: nat where "PAGE_ARRAY_SIZE \<equiv> 32768"
abbreviation (input) PHYMEM_SIZE :: u64 where "PHYMEM_SIZE \<equiv> 0x8000000"
abbreviation (input) newline :: string where "newline \<equiv> [CHR 0x0A]"

section \<open>The bitmap\<close>

text \<open>
  \<open>1 << n\<close> with \<open>n\<close> up to 63. The literal \<open>1\<close> is a 32-bit \<open>int\<close>, and the processor's shift
  takes the count modulo 32; the 32-bit result is sign-extended when it meets the 64-bit
  bitmap word.
\<close>

definition shl_one :: "nat \<Rightarrow> u64" where
  "shl_one n = signed (push_bit (n mod 32) 1 :: u32)"

definition set_busy :: "nat \<Rightarrow> 'a phymem_scheme \<Rightarrow> fault + 'a phymem_scheme" where
  "set_busy i s =
     (if i div 64 < BITMAP_SIZE
      then Inr (s\<lparr>bitmap := (bitmap s)(i div 64 := bitmap s (i div 64) OR shl_one (i mod 64))\<rparr>)
      else Inl Out_Of_Bounds)"

definition clear_busy :: "nat \<Rightarrow> 'a phymem_scheme \<Rightarrow> fault + 'a phymem_scheme" where
  "clear_busy i s =
     (if i div 64 < BITMAP_SIZE
      then Inr (s\<lparr>bitmap := (bitmap s)(i div 64 := bitmap s (i div 64) AND NOT (shl_one (i mod 64)))\<rparr>)
      else Inl Out_Of_Bounds)"

definition set_ref :: "nat \<Rightarrow> u32 \<Rightarrow> 'a phymem_scheme \<Rightarrow> fault + 'a phymem_scheme" where
  "set_ref pfn v s =
     (if pfn < PAGE_ARRAY_SIZE then Inr (s\<lparr>page_ref := (page_ref s)(pfn := v)\<rparr>)
      else Inl Out_Of_Bounds)"

text \<open>
  The two diagnostics every area of \<open>setup_bitmap\<close> and \<open>free_initmem\<close> starts with, and the
  loop that marks the frames of an area busy.
\<close>

definition report_area :: "string \<Rightarrow> u64 \<Rightarrow> u64 \<Rightarrow> 'a phymem_scheme \<Rightarrow> fault + 'a phymem_scheme" where
  "report_area name pfn_start pfn_end s =
     rbind (printf (name @ '': pfn_start: %lu pfn_end : %lu'' @ newline)
              [VLong pfn_start, VLong pfn_end] s) (\<lambda>s.
     printf (name @ '' map: pfn_start: 0x%lx pfn_end : 0x%lx'' @ newline)
              [VLong (bitmap_ptr s + pfn_start div 8), VLong (bitmap_ptr s + pfn_end div 8)] s)"

definition mark_area :: "string \<Rightarrow> u64 \<Rightarrow> u64 \<Rightarrow> 'a phymem_scheme \<Rightarrow> fault + 'a phymem_scheme" where
  "mark_area name pfn_start pfn_end s =
     rbind (report_area name pfn_start pfn_end s) (\<lambda>s.
     rfold set_busy [unat pfn_start..<unat pfn_end] s)"

definition pmb :: "nat \<Rightarrow> 'a phymem_scheme \<Rightarrow> fault + phymem_block" where
  "pmb i s = (if i < 5 \<and> i < length (pmb_array s) then Inr (pmb_array s ! i) else Inl Out_Of_Bounds)"

definition setup_bitmap :: "'a phymem_scheme \<Rightarrow> fault + 'a phymem_scheme" where
  "setup_bitmap s =
     (let s = s\<lparr>bitmap_ptr := physfree s\<rparr>;
          s = s\<lparr>bitmap := fold (\<lambda>i b. b(i := 0)) [0..<BITMAP_SIZE] (bitmap s)\<rparr> in
      rbind (mark_area ''boot'' (drop_bit 12 (loaderbase s)) (drop_bit 12 (loaderend s)) s) (\<lambda>s.
      rbind (pmb 0 s) (\<lambda>b0. rbind (pmb 1 s) (\<lambda>b1.
      rbind (mark_area ''hole'' (drop_bit 12 (pb_base b0 + pb_length b0)) (drop_bit 12 (pb_base b1)) s) (\<lambda>s.
      rbind (mark_area ''kernel'' (drop_bit 12 (physbase s)) (drop_bit 12 (physfree s)) s) (\<lambda>s.
      rbind (pmb (unat (pmb_count s - 1)) s) (\<lambda>bn.
      rbind (mark_area ''padding'' (drop_bit 12 (pb_base bn + pb_length bn)) (drop_bit 12 PHYMEM_SIZE) s) (\<lambda>s.
      (let pfn_start = drop_bit 12 (physfree s); pfn_end = pfn_start + 1;
           s = s\<lparr>bitmap_end := push_bit 12 pfn_end\<rparr> in
       rbind (mark_area ''bitmap'' pfn_start pfn_end s) (\<lambda>s.
       let s = s\<lparr>pgd_start := PG_ALIGN (physfree s + 4096)\<rparr>;
           pfn_start = drop_bit 12 (pgd_start s); pfn_end = drop_bit 12 (pgd_start s) + 67;
           s = s\<lparr>pgtable_end := push_bit 12 pfn_end\<rparr> in
       rbind (mark_area ''pgtable'' pfn_start pfn_end s) (\<lambda>s.
       let s = s\<lparr>page_array_ptr := pgtable_end s\<rparr>;
           pfn_start = drop_bit 12 (page_array_ptr s);
           pfn_end = pfn_start + drop_bit 12 (PG_ALIGN (of_nat (PAGE_ARRAY_SIZE * 4)));
           s = s\<lparr>page_array_end := push_bit 12 pfn_end\<rparr> in
       mark_area ''page array'' pfn_start pfn_end s)))))))))))"

definition free_initmem :: "'a phymem_scheme \<Rightarrow> fault + 'a phymem_scheme" where
  "free_initmem s =
     (let pfn_start = drop_bit 12 (loaderbase s); pfn_end = drop_bit 12 (loaderend s) in
      rbind (report_area ''free initmem'' pfn_start pfn_end s) (\<lambda>s.
      rfold (\<lambda>i s. rbind (clear_busy i s) (set_ref i 0)) [unat pfn_start..<unat pfn_end] s))"

section \<open>The initial page tables\<close>

abbreviation (input) ENTRY_P :: u64 where "ENTRY_P \<equiv> 1"    \<comment> \<open>PGD_P, PUD_P, PMD_P, PTE_P\<close>
abbreviation (input) ENTRY_RW :: u64 where "ENTRY_RW \<equiv> 2"  \<comment> \<open>PGD_RW, PUD_RW, PMD_RW, PTE_RW\<close>
abbreviation (input) ENTRY_US :: u64 where "ENTRY_US \<equiv> 4"  \<comment> \<open>PGD_US, PUD_US, PMD_US, PTE_US\<close>
abbreviation (input) PTE_COW :: u64 where "PTE_COW \<equiv> 512"
abbreviation (input) PMD_T_NUM :: nat where "PMD_T_NUM \<equiv> 64"
abbreviation (input) PTE_T_NUM :: nat where "PTE_T_NUM \<equiv> 512"

text \<open>\<open>*(t + i) = v\<close> for a table \<open>t\<close> of 64-bit entries at a physical address.\<close>

definition put_entry :: "u64 \<Rightarrow> nat \<Rightarrow> u64 \<Rightarrow> ram \<Rightarrow> ram" where
  "put_entry t i v r = store64 (t + 8 * of_nat i) v r"

definition initial_pgtables :: "u64 \<Rightarrow> ram \<Rightarrow> ram" where
  "initial_pgtables pgd r =
     (let pud = pgd + 4096; pmd = pud + 4096; pte = pmd + 4096;
          r = put_entry pgd 0x1ff (pud OR ENTRY_P OR ENTRY_RW) r;
          r = put_entry pgd 0x1fe (pgd OR ENTRY_P OR ENTRY_RW) r;
          r = put_entry pud 0x1fe (pmd OR ENTRY_P OR ENTRY_RW) r;
          r = fold (\<lambda>i. put_entry pmd i ((pte + push_bit 12 (of_nat i)) OR ENTRY_P OR ENTRY_RW)) [0..<PMD_T_NUM] r
      in fold (\<lambda>i. fold (\<lambda>j. put_entry (pte + push_bit 12 (of_nat i)) j
           ((push_bit 21 (of_nat i) + push_bit 12 (of_nat j)) OR ENTRY_P OR ENTRY_RW)) [0..<512])
           [0..<PTE_T_NUM] r)"

definition setup_initial_pgtables :: "'a phymem_scheme \<Rightarrow> fault + 'a phymem_scheme" where
  "setup_initial_pgtables s =
     (let s = s\<lparr>pgd_start := PG_ALIGN (physfree s + 4096)\<rparr> in
      rbind (printf (''pgd_start:0x%lx'' @ newline) [VLong (pgd_start s)] s) (\<lambda>s.
      Inr (s\<lparr>ram := initial_pgtables (pgd_start s) (ram s)\<rparr>)))"

section \<open>Reference counts\<close>

definition setup_page_array :: "'a phymem_scheme \<Rightarrow> fault + 'a phymem_scheme" where
  "setup_page_array s =
     rfold (\<lambda>i. rfold (\<lambda>j s.
        if bitmap s i AND shl_one j \<noteq> 0 then set_ref (i * 64 + j) 1 s else set_ref (i * 64 + j) 0 s)
        [0..<64]) [0..<BITMAP_SIZE] s"

text \<open>The asserts compare addresses; \<open>page_array + pfn\<close> may wrap.\<close>

definition page_assert :: "u64 \<Rightarrow> 'a phymem_scheme \<Rightarrow> fault + unit" where
  "page_assert pfn s =
     check (page_array_ptr s + 4 * pfn < page_array_end s) (Assert_Fail ''page_array + pfn < page_array_end'')"

definition get_page_ref :: "u64 \<Rightarrow> 'a phymem_scheme \<Rightarrow> fault + u32" where
  "get_page_ref pfn s =
     rbind (page_assert pfn s) (\<lambda>_.
     if unat pfn < PAGE_ARRAY_SIZE then Inr (page_ref s (unat pfn)) else Inl Out_Of_Bounds)"

definition add_page_ref :: "u64 \<Rightarrow> 'a phymem_scheme \<Rightarrow> fault + 'a phymem_scheme" where
  "add_page_ref pfn s =
     rbind (page_assert pfn s) (\<lambda>_. set_ref (unat pfn) (page_ref s (unat pfn) + 1) s)"

definition deduct_page_ref :: "u64 \<Rightarrow> 'a phymem_scheme \<Rightarrow> fault + 'a phymem_scheme" where
  "deduct_page_ref pfn s =
     rbind (page_assert pfn s) (\<lambda>_. set_ref (unat pfn) (page_ref s (unat pfn) - 1) s)"

section \<open>The frame allocator\<close>

abbreviation (input) normal_pfn_start :: nat where "normal_pfn_start \<equiv> 671"
abbreviation (input) normal_pfn_end :: nat where "normal_pfn_end \<equiv> 32766"

definition get_free_page :: "'a phymem_scheme \<Rightarrow> fault + u64 \<times> 'a phymem_scheme" where
  "get_free_page s =
     (case List.find (\<lambda>pfn. page_ref s pfn = 0) [normal_pfn_start..<normal_pfn_end] of
        Some pfn \<Rightarrow>
          rbind (set_ref pfn 1 s) (\<lambda>s.
          rbind (set_busy pfn s) (\<lambda>s. Inr (of_nat pfn, s)))
      | None \<Rightarrow> Inl (Panic ''[get_free_page] ERROR : out of memory!''))"

text \<open>The test for \<open>-1\<close> is never true: \<open>panic\<close> does not return.\<close>

definition get_zero_page :: "'a phymem_scheme \<Rightarrow> fault + u64 \<times> 'a phymem_scheme" where
  "get_zero_page s =
     rbind (get_free_page s) (\<lambda>(pfn, s).
     if pfn = - 1 then Inr (0, s)
     else let page = PA2VA (push_bit 12 pfn)
          in Inr (page, s\<lparr>ram := memset (VA2PA page) 0 4096 (ram s)\<rparr>))"

definition free_page :: "u64 \<Rightarrow> 'a phymem_scheme \<Rightarrow> fault + 'a phymem_scheme" where
  "free_page pfn s =
     rbind (set_ref (unat pfn) (page_ref s (unat pfn) - 1) s) (\<lambda>s.
     if page_ref s (unat pfn) = 0 then clear_busy (unat pfn) s else Inr s)"

section \<open>mm_init\<close>

definition move_vaddr :: "'a phymem_scheme \<Rightarrow> 'a phymem_scheme" where
  "move_vaddr s = s\<lparr>pgd_start := PA2VA (pgd_start s), pgtable_end := PA2VA (pgtable_end s),
     bitmap_ptr := PA2VA (bitmap_ptr s), bitmap_end := PA2VA (bitmap_end s),
     page_array_ptr := PA2VA (page_array_ptr s), page_array_end := PA2VA (page_array_end s)\<rparr>"

definition mm_init :: "'a phymem_scheme \<Rightarrow> fault + 'a phymem_scheme" where
  "mm_init s =
     rbind (printf (''mm_init()'' @ newline) [] s) (\<lambda>s.
     rbind (rfold (\<lambda>i s. rbind (pmb i s) (\<lambda>b.
              rbind (printf (''base: 0x%lx'' @ newline) [VLong (pb_base b)] s)
                (printf (''length: 0x%lx'' @ newline) [VLong (pb_length b)])))
            [0..<unat (pmb_count s)] s) (\<lambda>s.
     rbind (setup_bitmap s) (\<lambda>s.
     rbind (setup_initial_pgtables s) (\<lambda>s.
     rbind (setup_page_array s) (\<lambda>s.
     rbind (free_initmem s) (\<lambda>s.
     let s = move_vaddr s in
     Inr (s\<lparr>cr3 := VA2PA (pgd_start s)\<rparr>)))))))"

section \<open>What the diagnostics leave alone\<close>

lemma print_text_phymem [simp, frame_simps]:
  "pmb_array (print_text t s) = pmb_array s"
  "pmb_count (print_text t s) = pmb_count s"
  "physbase (print_text t s) = physbase s"
  "physfree (print_text t s) = physfree s"
  "loaderbase (print_text t s) = loaderbase s"
  "loaderend (print_text t s) = loaderend s"
  "pgd_start (print_text t s) = pgd_start s"
  "pgtable_end (print_text t s) = pgtable_end s"
  "bitmap_ptr (print_text t s) = bitmap_ptr s"
  "bitmap_end (print_text t s) = bitmap_end s"
  "page_array_ptr (print_text t s) = page_array_ptr s"
  "page_array_end (print_text t s) = page_array_end s"
  "bitmap (print_text t s) = bitmap s"
  "page_ref (print_text t s) = page_ref s"
  "ram (print_text t s) = ram s"
  "cr3 (print_text t s) = cr3 s"
  "phymem.more (print_text t s) = phymem.more s"
  by (rule print_textE [of t s], simp)+

lemma report_area_total:
  assumes "CHR ''%'' \<notin> set name" "length name \<le> 300"
  shows "\<exists>t. report_area name a b s = Inr (print_text t s)"
proof -
  note fmt = fmt_bound_append [OF assms(1)]
  obtain t where t: "printf (name @ '': pfn_start: %lu pfn_end : %lu'' @ newline) [VLong a, VLong b] s
      = Inr (print_text t s)"
    using printf_eq [of "name @ '': pfn_start: %lu pfn_end : %lu'' @ newline" "[VLong a, VLong b]"]
      assms(2) by (fastforce simp: fmt)
  obtain u where "printf (name @ '' map: pfn_start: 0x%lx pfn_end : 0x%lx'' @ newline)
      [VLong (bitmap_ptr s + a div 8), VLong (bitmap_ptr s + b div 8)] (print_text t s)
      = Inr (print_text u (print_text t s))"
    using printf_eq [of "name @ '' map: pfn_start: 0x%lx pfn_end : 0x%lx'' @ newline"
        "[VLong (bitmap_ptr s + a div 8), VLong (bitmap_ptr s + b div 8)]"]
      assms(2) by (fastforce simp: fmt)
  with t have "report_area name a b s = Inr (print_text u (print_text t s))"
    by (simp only: report_area_def rbind_Inr print_text_phymem)
  then have "report_area name a b s = Inr (print_text (t @ u) s)"
    by (simp only: print_text_append)
  then show ?thesis ..
qed

section \<open>Frames that share a bit\<close>

text \<open>
  With the shift taken modulo 32, frames \<open>p\<close> and \<open>p XOR 32\<close> share a bit of the bitmap:
  \<open>busy_bit\<close> is the test \<open>bitmap[p/64] & (1 << (p%64))\<close>.
\<close>

definition same_slot :: "nat \<Rightarrow> nat \<Rightarrow> bool" where
  "same_slot p q \<longleftrightarrow> p div 64 = q div 64 \<and> p mod 32 = q mod 32"

definition busy_bit :: "'a phymem_scheme \<Rightarrow> nat \<Rightarrow> bool" where
  "busy_bit s p \<longleftrightarrow> bitmap s (p div 64) AND shl_one (p mod 64) \<noteq> 0"

lemma same_slot_refl [simp]: "same_slot p p"
  by (simp add: same_slot_def)

lemma bit_shl_one: "bit (shl_one n) k \<longleftrightarrow> k < 64 \<and> (k = n mod 32 \<or> n mod 32 = 31 \<and> 31 \<le> k)"
proof -
  have "n mod 32 < 32" by simp
  then show ?thesis unfolding shl_one_def
    by (auto simp: bit_signed_iff bit_exp_iff min_def)
qed

lemma shl_one_mod: "shl_one (n mod 64) = shl_one n"
  by (simp add: shl_one_def mod_mod_cancel)

lemma shl_one_share: "bit (shl_one a) k \<Longrightarrow> bit (shl_one b) k \<Longrightarrow> a mod 32 = b mod 32"
proof -
  assume "bit (shl_one a) k" "bit (shl_one b) k"
  moreover have "a mod 32 < 32" "b mod 32 < 32" by simp_all
  ultimately show ?thesis unfolding bit_shl_one by linarith
qed

lemma shl_one_overlap: "shl_one a AND shl_one b \<noteq> 0 \<longleftrightarrow> a mod 32 = b mod 32"
proof
  assume "shl_one a AND shl_one b \<noteq> 0"
  then obtain k where "bit (shl_one a AND shl_one b) k"
    using bit_eq_iff [of "shl_one a AND shl_one b" 0] by auto
  then show "a mod 32 = b mod 32" using shl_one_share by (auto simp: bit_and_iff)
next
  assume e: "a mod 32 = b mod 32"
  have "b mod 32 < 64" by (rule less_trans [of _ 32]) simp_all
  then have "bit (shl_one a AND shl_one b) (b mod 32)"
    using e by (simp add: bit_and_iff bit_shl_one)
  then show "shl_one a AND shl_one b \<noteq> 0" by auto
qed

lemma shl_one_apart: "a mod 32 \<noteq> b mod 32 \<Longrightarrow> NOT (shl_one a) AND shl_one b = shl_one b"
  by (rule bit_word_eqI) (auto simp: bit_and_iff bit_not_iff dest: shl_one_share)

lemma shl_one_cong: "a mod 32 = b mod 32 \<Longrightarrow> shl_one a = shl_one b"
  by (simp add: shl_one_def)

lemma set_busy_bit:
  assumes "set_busy i s = Inr t"
  shows "busy_bit t p \<longleftrightarrow> busy_bit s p \<or> same_slot p i"
proof -
  have t: "bitmap t = (bitmap s)(i div 64 := bitmap s (i div 64) OR shl_one (i mod 64))"
    using assms by (auto simp: set_busy_def split: if_splits)
  have "(x OR shl_one i) AND shl_one p \<noteq> 0 \<longleftrightarrow> x AND shl_one p \<noteq> 0 \<or> p mod 32 = i mod 32" for x :: u64
    using shl_one_overlap [of i p] by (auto simp only: bit.conj_disj_distrib2 or_eq_0_iff)
  then show ?thesis
    unfolding busy_bit_def same_slot_def shl_one_mod t
    by (cases "p div 64 = i div 64") (simp_all only: fun_upd_apply simp_thms if_True if_False)
qed

lemma clear_busy_bit:
  assumes "clear_busy i s = Inr t"
  shows "busy_bit t p \<longleftrightarrow> busy_bit s p \<and> \<not> same_slot p i"
proof -
  have t: "bitmap t = (bitmap s)(i div 64 := bitmap s (i div 64) AND NOT (shl_one (i mod 64)))"
    using assms by (auto simp: clear_busy_def split: if_splits)
  have "(x AND NOT (shl_one i)) AND shl_one p \<noteq> 0 \<longleftrightarrow> x AND shl_one p \<noteq> 0 \<and> p mod 32 \<noteq> i mod 32" for x :: u64
    using shl_one_apart [of i p] shl_one_cong [of i p]
    by (cases "i mod 32 = p mod 32") (simp_all add: and.assoc)
  then show ?thesis
    unfolding busy_bit_def same_slot_def shl_one_mod t
    by (cases "p div 64 = i div 64") (simp_all only: fun_upd_apply simp_thms if_True if_False)
qed

section \<open>Marking areas\<close>

text \<open>
  \<open>marks A s t\<close>: going from \<open>s\<close> to \<open>t\<close>, exactly the frames of \<open>A\<close> (and the ones sharing
  their bits) have become busy, and only the screen has changed besides.
\<close>

definition marks :: "nat set \<Rightarrow> 'a phymem_scheme \<Rightarrow> 'a phymem_scheme \<Rightarrow> bool" where
  "marks A s t \<longleftrightarrow>
     (\<forall>p. busy_bit t p \<longleftrightarrow> busy_bit s p \<or> (\<exists>q\<in>A. same_slot p q)) \<and>
     (\<exists>sb r c b. t = s\<lparr>screen_buffer := sb, cursor_row := r, cursor_col := c, bitmap := b\<rparr>)"

lemma marks_bit: "marks A s t \<Longrightarrow> busy_bit t p \<longleftrightarrow> busy_bit s p \<or> (\<exists>q\<in>A. same_slot p q)"
  by (simp add: marks_def)

lemma marksE:
  assumes "marks A s t"
  obtains sb r c b where "t = s\<lparr>screen_buffer := sb, cursor_row := r, cursor_col := c, bitmap := b\<rparr>"
  using assms by (auto simp: marks_def)

lemma marks_fields:
  assumes "marks A s t"
  shows "pmb_array t = pmb_array s" "pmb_count t = pmb_count s" "physbase t = physbase s"
    "physfree t = physfree s" "loaderbase t = loaderbase s" "loaderend t = loaderend s"
    "pgd_start t = pgd_start s" "pgtable_end t = pgtable_end s" "bitmap_ptr t = bitmap_ptr s"
    "bitmap_end t = bitmap_end s" "page_array_ptr t = page_array_ptr s"
    "page_array_end t = page_array_end s" "page_ref t = page_ref s" "ram t = ram s" "cr3 t = cr3 s"
  using assms by (auto simp: marks_def)

lemma set_busy_range:
  assumes "b \<le> PAGE_ARRAY_SIZE"
  shows "\<exists>w. rfold set_busy [a..<b] s = Inr (s\<lparr>bitmap := w\<rparr>) \<and>
    (\<forall>p. busy_bit (s\<lparr>bitmap := w\<rparr>) p \<longleftrightarrow> busy_bit s p \<or> (\<exists>q\<in>{a..<b}. same_slot p q))"
  using assms
proof (induction b)
  case 0
  show ?case by (intro exI [of _ "bitmap s"]) simp
next
  case (Suc b)
  then obtain w where w: "rfold set_busy [a..<b] s = Inr (s\<lparr>bitmap := w\<rparr>)"
    "\<And>p. busy_bit (s\<lparr>bitmap := w\<rparr>) p \<longleftrightarrow> busy_bit s p \<or> (\<exists>q\<in>{a..<b}. same_slot p q)"
    by auto
  show ?case
  proof (cases "a \<le> b")
    case True
    have "b div 64 < 512" using Suc.prems by simp
    then obtain v where v: "set_busy b (s\<lparr>bitmap := w\<rparr>) = Inr (s\<lparr>bitmap := v\<rparr>)"
      by (simp add: set_busy_def)
    have "{a..<Suc b} = insert b {a..<b}" using True by auto
    then show ?thesis
      using True w v set_busy_bit [OF v] by (intro exI [of _ v]) auto
  next
    case False
    then have "[a..<Suc b] = [a..<b]" "{a..<Suc b} = {a..<b}" by auto
    then show ?thesis using w by (intro exI [of _ w]) (simp only: simp_thms)
  qed
qed

lemma mark_area_marks:
  assumes "CHR ''%'' \<notin> set name" "length name \<le> 300" "unat b \<le> PAGE_ARRAY_SIZE"
  shows "\<exists>t. mark_area name a b s = Inr t \<and> marks {unat a..<unat b} s t"
proof -
  obtain u where u: "report_area name a b s = Inr (print_text u s)"
    using report_area_total [OF assms(1,2)] by blast
  obtain w where w: "rfold set_busy [unat a..<unat b] (print_text u s) = Inr (print_text u s\<lparr>bitmap := w\<rparr>)"
    "\<And>p. busy_bit (print_text u s\<lparr>bitmap := w\<rparr>) p \<longleftrightarrow>
       busy_bit (print_text u s) p \<or> (\<exists>q\<in>{unat a..<unat b}. same_slot p q)"
    using set_busy_range [OF assms(3)] by blast
  obtain sb r c where "print_text u s = s\<lparr>screen_buffer := sb, cursor_row := r, cursor_col := c\<rparr>"
    by (rule print_textE)
  moreover have "busy_bit (print_text u s) p = busy_bit s p" for p by (simp add: busy_bit_def)
  ultimately have "marks {unat a..<unat b} s (print_text u s\<lparr>bitmap := w\<rparr>)"
    using w(2) by (auto simp: marks_def)
  with u w(1) show ?thesis by (auto simp: mark_area_def)
qed

section \<open>The boot-time layout\<close>

text \<open>
  What the boot loader hands over: at least two memory blocks, both within the 128 MB the
  kernel manages, and a page-aligned end of the kernel image with room for the tables behind
  it.
\<close>

definition boot_layout :: "'a phymem_scheme \<Rightarrow> bool" where
  "boot_layout s \<longleftrightarrow>
     length (pmb_array s) = 5 \<and> 2 \<le> unat (pmb_count s) \<and> unat (pmb_count s) \<le> 5 \<and>
     unat (drop_bit 12 (loaderend s)) \<le> PAGE_ARRAY_SIZE \<and>
     unat (drop_bit 12 (pb_base (pmb_array s ! 1))) \<le> PAGE_ARRAY_SIZE \<and>
     unat (physfree s) mod 4096 = 0 \<and> unat (physfree s) div 4096 + 516 \<le> PAGE_ARRAY_SIZE"

definition frames :: "u64 \<Rightarrow> u64 \<Rightarrow> nat set" where
  "frames a b = {unat (drop_bit 12 a)..<unat (drop_bit 12 b)}"

definition free_frame :: "'a phymem_scheme \<Rightarrow> nat" where
  "free_frame s = unat (physfree s) div 4096"

definition block_end :: "phymem_block \<Rightarrow> u64" where
  "block_end b = pb_base b + pb_length b"

definition last_block :: "'a phymem_scheme \<Rightarrow> phymem_block" where
  "last_block s = pmb_array s ! (unat (pmb_count s) - 1)"

text \<open>
  The frames that are never to be handed out: boot loader, memory hole, kernel image, padding,
  and behind the image one frame of bitmap, 67 of page tables and 32 of reference counts.
\<close>

definition reserved :: "'a phymem_scheme \<Rightarrow> nat set" where
  "reserved s =
     frames (loaderbase s) (loaderend s) \<union>
     frames (block_end (pmb_array s ! 0)) (pb_base (pmb_array s ! 1)) \<union>
     frames (physbase s) (physfree s) \<union>
     frames (block_end (last_block s)) PHYMEM_SIZE \<union>
     {free_frame s..<free_frame s + 100}"

definition boot_marked :: "'a phymem_scheme \<Rightarrow> 'a phymem_scheme \<Rightarrow> bool" where
  "boot_marked s t \<longleftrightarrow>
     (\<forall>p < PAGE_ARRAY_SIZE. busy_bit t p \<longleftrightarrow> (\<exists>q\<in>reserved s. same_slot p q)) \<and>
     (\<exists>sb r c b. t = s\<lparr>bitmap_ptr := physfree s, bitmap_end := frame_pa (free_frame s + 1),
        pgd_start := frame_pa (free_frame s + 1), pgtable_end := frame_pa (free_frame s + 68),
        page_array_ptr := frame_pa (free_frame s + 68), page_array_end := frame_pa (free_frame s + 100),
        screen_buffer := sb, cursor_row := r, cursor_col := c, bitmap := b\<rparr>)"

lemma mark_frames:
  assumes "CHR ''%'' \<notin> set name" "length name \<le> 300" "unat (drop_bit 12 b) \<le> PAGE_ARRAY_SIZE"
  shows "\<exists>t. mark_area name (drop_bit 12 a) (drop_bit 12 b) s = Inr t \<and> marks (frames a b) s t"
  using mark_area_marks [OF assms] by (auto simp: frames_def)

lemma frames_frame_pa:
  "small_frame f \<Longrightarrow> small_frame g \<Longrightarrow> frames (frame_pa f) (frame_pa g) = {f..<g}"
  by (simp add: frames_def drop_frame_pa unat_frame)

lemma frame_step:
  assumes "small_frame f" "small_frame (f + k)"
  shows "drop_bit 12 (frame_pa f) + of_nat k = drop_bit 12 (frame_pa (f + k))"
  using assms by (simp add: drop_frame_pa)

lemma push_drop_frame: "small_frame f \<Longrightarrow> push_bit 12 (drop_bit 12 (frame_pa f)) = frame_pa f"
  by (simp add: drop_frame_pa push_frame)

lemma PG_ALIGN_frame: "small_frame f \<Longrightarrow> PG_ALIGN (frame_pa f) = frame_pa f"
  by (rule PG_ALIGN_aligned) (simp add: unat_frame_pa)

lemma boot_layout_frame:
  assumes "boot_layout s"
  shows "physfree s = frame_pa (free_frame s)" "free_frame s + 516 \<le> PAGE_ARRAY_SIZE"
  using assms frame_pa_cover [of "physfree s"] by (simp_all add: boot_layout_def free_frame_def)

lemma pgd_start_frame:
  assumes "boot_layout s"
  shows "PG_ALIGN (physfree s + 4096) = frame_pa (free_frame s + 1)"
proof -
  have "small_frame (free_frame s + 1)"
    using boot_layout_frame [OF assms] by (simp add: small_frame_def)
  moreover have "physfree s + 4096 = frame_pa (free_frame s + 1)"
    using boot_layout_frame(1) [OF assms] frame_pa_add [of "free_frame s" 1] by (simp add: frame_pa_def)
  ultimately show ?thesis by (simp only: PG_ALIGN_frame)
qed

lemma page_array_pages: "drop_bit 12 (PG_ALIGN (of_nat (PAGE_ARRAY_SIZE * 4))) = 32"
proof -
  have "(of_nat (PAGE_ARRAY_SIZE * 4) :: u64) = frame_pa 32" by (simp add: frame_pa_def)
  moreover have "small_frame 32" by (simp add: small_frame_def)
  ultimately show ?thesis by (simp only: PG_ALIGN_frame drop_frame_pa) simp
qed

lemma cleared_bitmap: "fold (\<lambda>i b. b(i := (0 :: u64))) [0..<n] w = (\<lambda>i. if i < n then 0 else w i)"
  by (induction n) (auto simp: fun_eq_iff)

text \<open>The frames the kernel takes for itself behind its image: bitmap, page tables and page array.\<close>

lemma own_frames:
  assumes "boot_layout s" "F = free_frame s" "k \<le> 516"
  shows "small_frame (F + k)" "unat (drop_bit 12 (frame_pa (F + k))) \<le> 32768"
    "push_bit 12 (drop_bit 12 (frame_pa (F + k))) = frame_pa (F + k)"
proof -
  show s: "small_frame (F + k)" using boot_layout_frame [OF assms(1), folded assms(2)] assms(3) by (simp add: small_frame_def)
  show "unat (drop_bit 12 (frame_pa (F + k))) \<le> 32768"
    using boot_layout_frame [OF assms(1), folded assms(2)] assms(3) s by (simp only: drop_frame_pa unat_frame)
  show "push_bit 12 (drop_bit 12 (frame_pa (F + k))) = frame_pa (F + k)" using s by (rule push_drop_frame)
qed

lemma own_steps:
  assumes "boot_layout s" "F = free_frame s"
  shows "drop_bit 12 (frame_pa F) + 1 = drop_bit 12 (frame_pa (F + 1))"
    "drop_bit 12 (frame_pa (F + 1)) + 67 = drop_bit 12 (frame_pa (F + 68))"
    "drop_bit 12 (frame_pa (F + 68)) + 32 = drop_bit 12 (frame_pa (F + 100))"
    "frames (frame_pa F) (frame_pa (F + 1)) \<union> frames (frame_pa (F + 1)) (frame_pa (F + 68)) \<union>
       frames (frame_pa (F + 68)) (frame_pa (F + 100)) = {F..<F + 100}"
proof -
  note small = own_frames(1) [OF assms]
  show "drop_bit 12 (frame_pa F) + 1 = drop_bit 12 (frame_pa (F + 1))"
    using frame_step [of F 1] small [of 0] small [of 1] by simp
  show "drop_bit 12 (frame_pa (F + 1)) + 67 = drop_bit 12 (frame_pa (F + 68))"
    using frame_step [of "F + 1" 67] small [of 1] small [of 68] by (simp add: add.commute)
  show "drop_bit 12 (frame_pa (F + 68)) + 32 = drop_bit 12 (frame_pa (F + 100))"
    using frame_step [of "F + 68" 32] small [of 68] small [of 100] by (simp add: add.commute)
  show "frames (frame_pa F) (frame_pa (F + 1)) \<union> frames (frame_pa (F + 1)) (frame_pa (F + 68)) \<union>
      frames (frame_pa (F + 68)) (frame_pa (F + 100)) = {F..<F + 100}"
    using frames_frame_pa [OF small [of 0] small [of 1]] frames_frame_pa [OF small [of 1] small [of 68]]
      frames_frame_pa [OF small [of 68] small [of 100]] by auto
qed

text \<open>The seven areas marked one after the other, with the pointers set in between.\<close>

lemma boot_marked_steps:
  assumes bl: "boot_layout s" and F: "F = free_frame s"
    and m: "marks (frames (loaderbase s) (loaderend s)) (s\<lparr>bitmap_ptr := physfree s, bitmap := fold (\<lambda>i b. b(i := 0)) [0..<BITMAP_SIZE] (bitmap s)\<rparr>) s1"
      "marks (frames (block_end (pmb_array s ! 0)) (pb_base (pmb_array s ! 1))) s1 s2"
      "marks (frames (physbase s) (physfree s)) s2 s3" "marks (frames (block_end (last_block s)) PHYMEM_SIZE) s3 s4"
      "marks (frames (frame_pa F) (frame_pa (F + 1))) (s4\<lparr>bitmap_end := frame_pa (F + 1)\<rparr>) s5"
      "marks (frames (frame_pa (F + 1)) (frame_pa (F + 68))) (s5\<lparr>pgd_start := frame_pa (F + 1), pgtable_end := frame_pa (F + 68)\<rparr>) s6"
      "marks (frames (frame_pa (F + 68)) (frame_pa (F + 100))) (s6\<lparr>page_array_ptr := frame_pa (F + 68), page_array_end := frame_pa (F + 100)\<rparr>) s7"
  shows "boot_marked s s7"
proof -
  let ?s0 = "s\<lparr>bitmap_ptr := physfree s, bitmap := fold (\<lambda>i b. b(i := 0)) [0..<BITMAP_SIZE] (bitmap s)\<rparr>"
  have z: "\<not> busy_bit ?s0 p" if "p < 32768" for p
    using that by (simp add: busy_bit_def cleared_bitmap less_mult_imp_div_less)
  have upd: "busy_bit (s4\<lparr>bitmap_end := frame_pa (F + 1)\<rparr>) p = busy_bit s4 p"
    "busy_bit (s5\<lparr>pgd_start := frame_pa (F + 1), pgtable_end := frame_pa (F + 68)\<rparr>) p = busy_bit s5 p"
    "busy_bit (s6\<lparr>page_array_ptr := frame_pa (F + 68), page_array_end := frame_pa (F + 100)\<rparr>) p = busy_bit s6 p" for p
    by (simp_all add: busy_bit_def)
  have "busy_bit s7 p \<longleftrightarrow> (\<exists>q\<in>reserved s. same_slot p q)" if "p < 32768" for p
    unfolding reserved_def F [symmetric] own_steps(4) [OF bl F, symmetric] bex_Un
    by (simp only: m [THEN marks_bit] upd z [OF that] simp_thms) blast
  moreover have "\<exists>sb r c b. s7 = s\<lparr>bitmap_ptr := physfree s, bitmap_end := frame_pa (F + 1),
      pgd_start := frame_pa (F + 1), pgtable_end := frame_pa (F + 68),
      page_array_ptr := frame_pa (F + 68), page_array_end := frame_pa (F + 100),
      screen_buffer := sb, cursor_row := r, cursor_col := c, bitmap := b\<rparr>"
    by (rule marksE [OF m(1)], rule marksE [OF m(2)], rule marksE [OF m(3)], rule marksE [OF m(4)],
        rule marksE [OF m(5)], rule marksE [OF m(6)], rule marksE [OF m(7)]) auto
  ultimately show ?thesis by (simp add: boot_marked_def F)
qed

lemma setup_bitmap_marks:
  assumes "boot_layout s"
  shows "\<exists>t. setup_bitmap s = Inr t \<and> boot_marked s t"
proof -
  define F where "F = free_frame s"
  note F = boot_layout_frame [OF assms, folded F_def] and bound = own_frames(2) [OF assms F_def]
  have pmb: "pmb i s' = Inr (pmb_array s ! i)" if "pmb_array s' = pmb_array s" "i < 5" for i s'
    using that assms by (simp add: pmb_def boot_layout_def)
  have cnt: "unat (pmb_count s - 1) = unat (pmb_count s) - 1" "unat (pmb_count s) - 1 < 5"
    using assms by (auto simp: boot_layout_def unat_sub word_le_nat_alt)
  let ?s0 = "s\<lparr>bitmap_ptr := physfree s, bitmap := fold (\<lambda>i b. b(i := 0)) [0..<BITMAP_SIZE] (bitmap s)\<rparr>"
  obtain s1 where s1: "mark_area ''boot'' (drop_bit 12 (loaderbase s)) (drop_bit 12 (loaderend s)) ?s0 = Inr s1"
    "marks (frames (loaderbase s) (loaderend s)) ?s0 s1"
    using mark_frames [of "''boot''" "loaderend s" "loaderbase s" ?s0] assms by (auto simp: boot_layout_def)
  note f1 = marks_fields [OF s1(2), simplified]
  obtain s2 where s2: "mark_area ''hole'' (drop_bit 12 (block_end (pmb_array s ! 0))) (drop_bit 12 (pb_base (pmb_array s ! 1))) s1 = Inr s2"
    "marks (frames (block_end (pmb_array s ! 0)) (pb_base (pmb_array s ! 1))) s1 s2"
    using mark_frames [of "''hole''" "pb_base (pmb_array s ! 1)" "block_end (pmb_array s ! 0)" s1] assms by (auto simp: boot_layout_def)
  note f2 = marks_fields [OF s2(2), unfolded f1]
  obtain s3 where s3: "mark_area ''kernel'' (drop_bit 12 (physbase s)) (drop_bit 12 (physfree s)) s2 = Inr s3" "marks (frames (physbase s) (physfree s)) s2 s3"
    using mark_frames [of "''kernel''" "physfree s" "physbase s" s2] bound [of 0] F by auto
  note f3 = marks_fields [OF s3(2), unfolded f2]
  obtain s4 where s4: "mark_area ''padding'' (drop_bit 12 (block_end (last_block s))) (drop_bit 12 PHYMEM_SIZE) s3 = Inr s4" "marks (frames (block_end (last_block s)) PHYMEM_SIZE) s3 s4"
    using mark_frames [of "''padding''" PHYMEM_SIZE "block_end (last_block s)" s3] by auto
  note f4 = marks_fields [OF s4(2), unfolded f3]
  let ?s4 = "s4\<lparr>bitmap_end := frame_pa (F + 1)\<rparr>"
  obtain s5 where s5: "mark_area ''bitmap'' (drop_bit 12 (frame_pa F)) (drop_bit 12 (frame_pa (F + 1))) ?s4 = Inr s5" "marks (frames (frame_pa F) (frame_pa (F + 1))) ?s4 s5"
    using mark_frames [of "''bitmap''" "frame_pa (F + 1)" "frame_pa F" ?s4] bound [of 1] by auto
  note f5 = marks_fields [OF s5(2), simplified, unfolded f4]
  let ?s5 = "s5\<lparr>pgd_start := frame_pa (F + 1), pgtable_end := frame_pa (F + 68)\<rparr>"
  obtain s6 where s6: "mark_area ''pgtable'' (drop_bit 12 (frame_pa (F + 1))) (drop_bit 12 (frame_pa (F + 68))) ?s5 = Inr s6" "marks (frames (frame_pa (F + 1)) (frame_pa (F + 68))) ?s5 s6"
    using mark_frames [of "''pgtable''" "frame_pa (F + 68)" "frame_pa (F + 1)" ?s5] bound [of 68] by auto
  note f6 = marks_fields [OF s6(2), simplified, unfolded f5]
  let ?s6 = "s6\<lparr>page_array_ptr := frame_pa (F + 68), page_array_end := frame_pa (F + 100)\<rparr>"
  obtain s7 where s7: "mark_area ''page array'' (drop_bit 12 (frame_pa (F + 68))) (drop_bit 12 (frame_pa (F + 100))) ?s6 = Inr s7" "marks (frames (frame_pa (F + 68)) (frame_pa (F + 100))) ?s6 s7"
    using mark_frames [of "''page array''" "frame_pa (F + 100)" "frame_pa (F + 68)" ?s6] bound [of 100] by auto
  note e = own_steps(1-3) [OF assms F_def] and e4 = pgd_start_frame [OF assms, unfolded F(1), folded F_def] and up = own_frames(3) [OF assms F_def]
  have last: "pmb (unat (pmb_count s) - 1) s3 = Inr (last_block s)" unfolding last_block_def by (rule pmb [OF f3(1) cnt(2)])
  note area_steps = s1(1) s2(1) s3(1) s4(1) s5(1) s6(1) s7(1)
  have "setup_bitmap s = Inr s7"
    unfolding setup_bitmap_def Let_def page_array_pages using area_steps [unfolded block_end_def F(1)]
    by (simp add: f1 f2 f3 f4 f5 f6 pmb cnt F(1) last [simplified] e(1) [simplified] e(2) [simplified] e(3) e4 [simplified]
         up [of 1, simplified] up [of 68] up [of 100])
  moreover have "boot_marked s s7" by (rule boot_marked_steps [OF assms F_def s1(2) s2(2) s3(2) s4(2) s5(2) s6(2) s7(2)])
  ultimately show ?thesis by blast
qed

section \<open>Reference counts from the bitmap\<close>

lemma page_array_row:
  assumes "i < BITMAP_SIZE" "m \<le> 64"
  shows "rfold (\<lambda>j s. if bitmap s i AND shl_one j \<noteq> 0 then set_ref (i * 64 + j) 1 s
      else set_ref (i * 64 + j) 0 s) [0..<m] s =
    Inr (s\<lparr>page_ref := \<lambda>p. if i * 64 \<le> p \<and> p < i * 64 + m then of_bool (busy_bit s p) else page_ref s p\<rparr>)"
  using assms(2)
proof (induction m)
  case 0
  have "(\<lambda>p. if i * 64 \<le> p \<and> p < i * 64 + 0 then of_bool (busy_bit s p) else page_ref s p) = page_ref s"
    by (auto simp: fun_eq_iff)
  then show ?case by simp
next
  case (Suc m)
  let ?f = "\<lambda>m p. if i * 64 \<le> p \<and> p < i * 64 + m then of_bool (busy_bit s p) else page_ref s p"
  have bit: "busy_bit s (i * 64 + m) \<longleftrightarrow> bitmap s i AND shl_one m \<noteq> 0"
    using Suc.prems by (simp add: busy_bit_def)
  have "(?f m)(i * 64 + m := of_bool (busy_bit s (i * 64 + m))) = ?f (Suc m)"
    by (rule ext) (simp only: fun_upd_apply, auto)
  moreover have "i * 64 + m < 32768" using assms(1) Suc.prems by simp
  ultimately have "(if bitmap s i AND shl_one m \<noteq> 0 then set_ref (i * 64 + m) 1 (s\<lparr>page_ref := ?f m\<rparr>)
      else set_ref (i * 64 + m) 0 (s\<lparr>page_ref := ?f m\<rparr>)) = Inr (s\<lparr>page_ref := ?f (Suc m)\<rparr>)"
    using bit by (auto simp: set_ref_def)
  with Suc show ?case by simp
qed

lemma setup_page_array_eq:
  "setup_page_array s =
     Inr (s\<lparr>page_ref := \<lambda>p. if p < PAGE_ARRAY_SIZE then of_bool (busy_bit s p) else page_ref s p\<rparr>)"
proof -
  let ?g = "\<lambda>k p. if p < 64 * k then of_bool (busy_bit s p) else page_ref s p"
  have "rfold (\<lambda>i. rfold (\<lambda>j s. if bitmap s i AND shl_one j \<noteq> 0 then set_ref (i * 64 + j) 1 s
        else set_ref (i * 64 + j) 0 s) [0..<64]) [0..<k] s = Inr (s\<lparr>page_ref := ?g k\<rparr>)" if "k \<le> 512" for k
    using that
  proof (induction k)
    case (Suc k)
    have b: "busy_bit (s\<lparr>page_ref := ?g k\<rparr>) p = busy_bit s p" for p by (simp add: busy_bit_def)
    have "(\<lambda>p. if k * 64 \<le> p \<and> p < k * 64 + 64 then of_bool (busy_bit (s\<lparr>page_ref := ?g k\<rparr>) p)
        else page_ref (s\<lparr>page_ref := ?g k\<rparr>) p) = ?g (Suc k)"
      by (rule ext) (auto simp: b)
    then show ?case using Suc page_array_row [of k 64 "s\<lparr>page_ref := ?g k\<rparr>"] by simp
  qed simp
  from this [of 512] show ?thesis by (simp add: setup_page_array_def)
qed

lemma free_range:
  assumes "b \<le> PAGE_ARRAY_SIZE"
  shows "\<exists>w. rfold (\<lambda>i s. rbind (clear_busy i s) (set_ref i 0)) [a..<b] s =
    Inr (s\<lparr>bitmap := w, page_ref := \<lambda>p. if a \<le> p \<and> p < b then 0 else page_ref s p\<rparr>)"
  using assms
proof (induction b)
  case 0
  have "(\<lambda>p. if a \<le> p \<and> p < (0 :: nat) then 0 else page_ref s p) = page_ref s" by auto
  then show ?case by (intro exI [of _ "bitmap s"]) simp
next
  case (Suc b)
  let ?f = "\<lambda>b p. if a \<le> p \<and> p < b then 0 else page_ref s p"
  obtain w where w: "rfold (\<lambda>i s. rbind (clear_busy i s) (set_ref i 0)) [a..<b] s =
      Inr (s\<lparr>bitmap := w, page_ref := ?f b\<rparr>)" using Suc by auto
  show ?case
  proof (cases "a \<le> b")
    case True
    have "b div 64 < 512" "b < 32768" using Suc.prems by simp_all
    moreover have "(?f b)(b := 0) = ?f (Suc b)" using True by (auto simp: fun_eq_iff)
    ultimately obtain v where "rbind (clear_busy b (s\<lparr>bitmap := w, page_ref := ?f b\<rparr>)) (set_ref b 0) =
        Inr (s\<lparr>bitmap := v, page_ref := ?f (Suc b)\<rparr>)"
      by (simp add: clear_busy_def set_ref_def)
    then show ?thesis using True w by (intro exI [of _ v]) simp
  next
    case False
    then have "[a..<Suc b] = [a..<b]" "?f (Suc b) = ?f b" by (auto simp: fun_eq_iff)
    then show ?thesis using w by (simp only:) blast
  qed
qed

lemma free_initmem_eq:
  assumes "unat (drop_bit 12 (loaderend s)) \<le> PAGE_ARRAY_SIZE"
  shows "\<exists>u w. free_initmem s = Inr (print_text u s\<lparr>bitmap := w,
    page_ref := \<lambda>p. if p \<in> frames (loaderbase s) (loaderend s) then 0 else page_ref s p\<rparr>)"
proof -
  let ?a = "drop_bit 12 (loaderbase s)" and ?b = "drop_bit 12 (loaderend s)"
  obtain u where u: "report_area ''free initmem'' ?a ?b s = Inr (print_text u s)"
    using report_area_total [of "''free initmem''" ?a ?b s] by auto
  obtain w where "rfold (\<lambda>i s. rbind (clear_busy i s) (set_ref i 0)) [unat ?a..<unat ?b] (print_text u s) =
      Inr (print_text u s\<lparr>bitmap := w, page_ref := \<lambda>p. if unat ?a \<le> p \<and> p < unat ?b then 0 else page_ref s p\<rparr>)"
    using free_range [OF assms, of "unat ?a" "print_text u s"] unfolding print_text_phymem by blast
  with u show ?thesis by (auto simp: free_initmem_def Let_def frames_def)
qed

lemma report_blocks:
  assumes "length (pmb_array s) = 5" "n \<le> 5"
  shows "\<exists>u. rfold (\<lambda>i s. rbind (pmb i s) (\<lambda>b.
      rbind (printf (''base: 0x%lx'' @ newline) [VLong (pb_base b)] s)
        (printf (''length: 0x%lx'' @ newline) [VLong (pb_length b)]))) [0..<n] s = Inr (print_text u s)"
  using assms(2)
proof (induction n)
  case 0
  show ?case by (auto intro: exI [of _ "[]"])
next
  case (Suc n)
  obtain u where u: "rfold (\<lambda>i s. rbind (pmb i s) (\<lambda>b.
      rbind (printf (''base: 0x%lx'' @ newline) [VLong (pb_base b)] s)
        (printf (''length: 0x%lx'' @ newline) [VLong (pb_length b)]))) [0..<n] s = Inr (print_text u s)"
    using Suc by auto
  have p: "pmb n (print_text u s) = Inr (pmb_array s ! n)" using Suc.prems assms(1) by (simp add: pmb_def)
  obtain v where v: "printf (''base: 0x%lx'' @ newline) [VLong (pb_base (pmb_array s ! n))] (print_text u s)
      = Inr (print_text v (print_text u s))"
    using printf_eq [of "''base: 0x%lx'' @ newline" "[VLong (pb_base (pmb_array s ! n))]"] by fastforce
  obtain w where "printf (''length: 0x%lx'' @ newline) [VLong (pb_length (pmb_array s ! n))]
      (print_text v (print_text u s)) = Inr (print_text w (print_text v (print_text u s)))"
    using printf_eq [of "''length: 0x%lx'' @ newline" "[VLong (pb_length (pmb_array s ! n))]"] by fastforce
  with u p v show ?case by (auto simp: print_text_append)
qed

section \<open>mm_init\<close>

lemma boot_layout_print [simp]: "boot_layout (print_text u s) = boot_layout s"
  by (simp add: boot_layout_def)

lemma reserved_print [simp]: "reserved (print_text u s) = reserved s"
  by (simp add: reserved_def last_block_def free_frame_def)

lemma free_frame_print [simp]: "free_frame (print_text u s) = free_frame s"
  by (simp add: free_frame_def)

lemma setup_initial_pgtables_eq:
  assumes "PG_ALIGN (physfree s + 4096) = p"
  shows "\<exists>u. setup_initial_pgtables s =
    Inr (print_text u (s\<lparr>pgd_start := p\<rparr>)\<lparr>ram := initial_pgtables p (ram s)\<rparr>)"
proof -
  obtain u where "printf (''pgd_start:0x%lx'' @ newline) [VLong p] (s\<lparr>pgd_start := p\<rparr>) =
      Inr (print_text u (s\<lparr>pgd_start := p\<rparr>))"
    using printf_eq [of "''pgd_start:0x%lx'' @ newline" "[VLong p]"] by fastforce
  then show ?thesis using assms by (auto simp: setup_initial_pgtables_def Let_def)
qed

text \<open>
  Started from the memory map of the boot loader, \<open>mm_init\<close> runs to the end. Afterwards a
  frame has reference count 0 or 1: 0 for the frames of the boot loader, 1 for every other
  frame of the memory hole, the kernel image, the padding, the bitmap, the page tables and the
  reference counts, and, because the bitmap is addressed with a 32-bit shift, for the frames
  that differ from one of those in bit 5 only; 0 for all others. The page tables are the ones
  \<open>initial_pgtables\<close> builds in the frames behind the bitmap, and CR3 points to them. The kernel's other data are as before.
\<close>

lemma mm_init_runs:
  assumes "boot_layout s"
  shows "\<exists>t. mm_init s = Inr t \<and>
    (\<forall>p < PAGE_ARRAY_SIZE. page_ref t p =
       (if p \<in> frames (loaderbase s) (loaderend s) then 0
        else if \<exists>q\<in>reserved s. same_slot p q then 1 else 0)) \<and>
    ram t = initial_pgtables (frame_pa (free_frame s + 1)) (ram s) \<and>
    cr3 t = frame_pa (free_frame s + 1) \<and>
    pgd_start t = PA2VA (frame_pa (free_frame s + 1)) \<and>
    page_array_ptr t = PA2VA (frame_pa (free_frame s + 68)) \<and>
    page_array_end t = PA2VA (frame_pa (free_frame s + 100)) \<and>
    phymem.more t = phymem.more s"
proof -
  obtain u1 where u1: "printf (''mm_init()'' @ newline) [] s = Inr (print_text u1 s)"
    using printf_eq [of "''mm_init()'' @ newline" "[]"] by fastforce
  have len: "length (pmb_array s) = 5" "unat (pmb_count s) \<le> 5" using assms by (simp_all add: boot_layout_def)
  then obtain u2 where u2: "rfold (\<lambda>i s. rbind (pmb i s) (\<lambda>b.
      rbind (printf (''base: 0x%lx'' @ newline) [VLong (pb_base b)] s)
        (printf (''length: 0x%lx'' @ newline) [VLong (pb_length b)])))
      [0..<unat (pmb_count s)] (print_text u1 s) = Inr (print_text u2 (print_text u1 s))"
    using report_blocks [of "print_text u1 s" "unat (pmb_count s)"] by auto
  define s2 where "s2 = print_text u2 (print_text u1 s)"
  have s2: "boot_layout s2" "reserved s2 = reserved s" "free_frame s2 = free_frame s"
    using assms by (simp_all add: s2_def)
  obtain s3 where s3: "setup_bitmap s2 = Inr s3" "boot_marked s2 s3"
    using setup_bitmap_marks [OF s2(1)] by blast
  have bits: "busy_bit s3 p \<longleftrightarrow> (\<exists>q\<in>reserved s. same_slot p q)" if "p < 32768" for p
    using s3(2) that by (simp add: boot_marked_def s2)
  have f3: "physfree s3 = physfree s" "loaderbase s3 = loaderbase s" "loaderend s3 = loaderend s"
    "ram s3 = ram s" "page_array_ptr s3 = frame_pa (free_frame s + 68)"
    "page_array_end s3 = frame_pa (free_frame s + 100)"
    using s3(2) by (auto simp: boot_marked_def s2 s2_def)
  have m3: "phymem.more s3 = phymem.more s" using s3(2) by (auto simp: boot_marked_def s2 s2_def)
  let ?pgd = "frame_pa (free_frame s + 1)"
  obtain u4 where u4: "setup_initial_pgtables s3 =
      Inr (print_text u4 (s3\<lparr>pgd_start := ?pgd\<rparr>)\<lparr>ram := initial_pgtables ?pgd (ram s)\<rparr>)"
    using setup_initial_pgtables_eq [of s3 ?pgd] pgd_start_frame [OF assms] f3 by auto
  define s4 where "s4 = print_text u4 (s3\<lparr>pgd_start := ?pgd\<rparr>)\<lparr>ram := initial_pgtables ?pgd (ram s)\<rparr>"
  have b4: "busy_bit s4 p = busy_bit s3 p" for p by (simp add: s4_def busy_bit_def)
  define s5 where "s5 = s4\<lparr>page_ref := \<lambda>p. if p < 32768 then of_bool (busy_bit s4 p) else page_ref s4 p\<rparr>"
  have f5: "loaderbase s5 = loaderbase s" "loaderend s5 = loaderend s" "ram s5 = initial_pgtables ?pgd (ram s)"
    "pgd_start s5 = ?pgd" "page_array_ptr s5 = frame_pa (free_frame s + 68)"
    "page_array_end s5 = frame_pa (free_frame s + 100)"
    "\<And>p. p < 32768 \<Longrightarrow> page_ref s5 p = of_bool (\<exists>q\<in>reserved s. same_slot p q)"
    by (simp_all add: s5_def f3 bits b4) (simp_all add: s4_def f3)
  have m5: "phymem.more s5 = phymem.more s" by (simp add: s5_def s4_def m3)
  have "unat (drop_bit 12 (loaderend s5)) \<le> 32768" using assms by (simp add: f5 boot_layout_def)
  then obtain u6 w6 where s6: "free_initmem s5 = Inr (print_text u6 s5\<lparr>bitmap := w6,
      page_ref := \<lambda>p. if p \<in> frames (loaderbase s) (loaderend s) then 0 else page_ref s5 p\<rparr>)"
    using free_initmem_eq [of s5] unfolding f5 by blast
  have "mm_init s = Inr (let t = move_vaddr (print_text u6 s5\<lparr>bitmap := w6,
      page_ref := \<lambda>p. if p \<in> frames (loaderbase s) (loaderend s) then 0 else page_ref s5 p\<rparr>)
      in t\<lparr>cr3 := VA2PA (pgd_start t)\<rparr>)"
    unfolding mm_init_def u1 rbind_Inr print_text_phymem u2
    by (simp only: rbind_Inr s2_def [symmetric] s3(1) u4 s4_def [symmetric] setup_page_array_eq
        s5_def [symmetric] s6 Let_def)
  then show ?thesis by (auto simp: move_vaddr_def f5 m5 Let_def)
qed

text \<open>A machine with 128 MB: low memory up to 0x9FC00, high memory from 1 MB up to 0x7FFE000.\<close>

definition boot_example :: phymem where
  "boot_example = \<lparr>screen_buffer = \<lambda>_. NUL, cursor_row = 0, cursor_col = 0, stdin_buf_size = 0,
     pmb_array = [\<lparr>pb_base = 0, pb_length = 0x9FC00\<rparr>, \<lparr>pb_base = 0x100000, pb_length = 0x7EFE000\<rparr>,
       \<lparr>pb_base = 0, pb_length = 0\<rparr>, \<lparr>pb_base = 0, pb_length = 0\<rparr>, \<lparr>pb_base = 0, pb_length = 0\<rparr>],
     pmb_count = 2, physbase = 0x200000, physfree = 0x220000, loaderbase = 0, loaderend = 0x9FC00,
     pgd_start = 0, pgtable_end = 0, bitmap_ptr = 0, bitmap_end = 0, page_array_ptr = 0,
     page_array_end = 0, bitmap = \<lambda>_. 0, page_ref = \<lambda>_. 0, ram = \<lambda>_. 0, cr3 = 0\<rparr>"

lemma boot_example_layout: "boot_layout boot_example"
  by (simp add: boot_layout_def boot_example_def)

section \<open>The allocator as an interface\<close>

text \<open>
  What the rest of the kernel relies on when it takes a frame: the frame comes from the pool,
  nobody held it, its count becomes 1 and no other count changes, and there is a frame as long
  as one in the pool is free.
\<close>

fun take_frames :: "('s \<Rightarrow> 'e + 'f \<times> 's) \<Rightarrow> nat \<Rightarrow> 's \<Rightarrow> 'e + 'f list \<times> 's" where
  "take_frames alloc 0 s = Inr ([], s)"
| "take_frames alloc (Suc n) s =
     rbind (alloc s) (\<lambda>(f, s). rbind (take_frames alloc n s) (\<lambda>(fs, s). Inr (f # fs, s)))"

locale frame_allocator =
  fixes alloc :: "'s \<Rightarrow> 'e + 'f \<times> 's"
    and frame_of :: "'f \<Rightarrow> nat"
    and refs :: "'s \<Rightarrow> nat \<Rightarrow> u32"
    and pool :: "nat set"
  assumes finite_pool: "finite pool"
    and alloc_unused: "alloc s = Inr (f, t) \<Longrightarrow>
      frame_of f \<in> pool \<and> refs s (frame_of f) = 0 \<and> refs t = (refs s)(frame_of f := 1)"
    and alloc_total: "p \<in> pool \<Longrightarrow> refs s p = 0 \<Longrightarrow> \<exists>f t. alloc s = Inr (f, t)"
begin

definition unused :: "'s \<Rightarrow> nat set" where
  "unused s = {p \<in> pool. refs s p = 0}"

lemma unused_alloc: "alloc s = Inr (f, t) \<Longrightarrow> unused t = unused s - {frame_of f} \<and> frame_of f \<in> unused s"
  using alloc_unused [of s f t] by (auto simp: unused_def)

lemma take_frames_spec:
  "take_frames alloc n s = Inr (fs, t) \<Longrightarrow>
     length fs = n \<and> distinct (map frame_of fs) \<and> frame_of ` set fs \<subseteq> unused s \<and>
     refs t = (\<lambda>p. if p \<in> frame_of ` set fs then 1 else refs s p)"
proof (induction n arbitrary: s fs t)
  case 0
  then show ?case by auto
next
  case (Suc n)
  then obtain f u gs where a: "alloc s = Inr (f, u)" and r: "take_frames alloc n u = Inr (gs, t)" "fs = f # gs"
    by (auto simp: rbind_eq_Inr)
  note IH = Suc.IH [OF r(1)]
  have "frame_of f \<notin> unused u" "unused u \<subseteq> unused s" "frame_of f \<in> unused s"
    using unused_alloc [OF a] by auto
  moreover have "refs u = (refs s)(frame_of f := 1)" using alloc_unused [OF a] by simp
  ultimately show ?case using IH r(2) by (auto simp: fun_eq_iff)
qed

lemma take_frames_total:
  "n \<le> card (unused s) \<Longrightarrow> \<exists>fs t. take_frames alloc n s = Inr (fs, t)"
proof (induction n arbitrary: s)
  case (Suc n)
  then have "unused s \<noteq> {}" by auto
  then obtain p where "p \<in> pool" "refs s p = 0" by (auto simp: unused_def)
  then obtain f u where a: "alloc s = Inr (f, u)" using alloc_total by blast
  have "finite (unused s)" using finite_pool by (simp add: unused_def)
  then have "n \<le> card (unused u)" using Suc.prems unused_alloc [OF a] by simp
  then show ?case using Suc.IH [of u] a by fastforce
qed simp

end

locale frame_recycler = frame_allocator alloc frame_of refs pool
  for alloc :: "'s \<Rightarrow> 'e + 'f \<times> 's" and frame_of refs pool +
  fixes release :: "nat \<Rightarrow> 's \<Rightarrow> 'e + 's"
  assumes release_ref: "p \<in> pool \<Longrightarrow>
      \<exists>t. release p s = Inr t \<and> refs t = (refs s)(p := refs s p - 1)"
begin

text \<open>Handing back what was taken restores every count.\<close>

lemma release_all:
  assumes "set ps \<subseteq> pool" "distinct ps"
  shows "\<exists>t. rfold release ps s = Inr t \<and> refs t = (\<lambda>p. if p \<in> set ps then refs s p - 1 else refs s p)"
  using assms
proof (induction ps arbitrary: s)
  case (Cons p ps)
  then obtain u where u: "release p s = Inr u" "refs u = (refs s)(p := refs s p - 1)"
    using release_ref [of p s] by auto
  obtain t where "rfold release ps u = Inr t"
    "refs t = (\<lambda>p. if p \<in> set ps then refs u p - 1 else refs u p)"
    using Cons by auto
  with u Cons.prems show ?case by (auto simp: fun_eq_iff)
qed simp

lemma take_release:
  assumes "take_frames alloc n s = Inr (fs, t)"
  shows "\<exists>u. rfold release (map frame_of fs) t = Inr u \<and> refs u = refs s"
proof -
  note T = take_frames_spec [OF assms]
  then have sub: "set (map frame_of fs) \<subseteq> pool" by (auto simp: unused_def)
  obtain u where u: "rfold release (map frame_of fs) t = Inr u"
    "refs u = (\<lambda>p. if p \<in> set (map frame_of fs) then refs t p - 1 else refs t p)"
    using release_all [OF sub] T by blast
  have "refs u = refs s" using T u(2) by (auto simp: fun_eq_iff unused_def)
  with u(1) show ?thesis by blast
qed

end

section \<open>The kernel's allocator\<close>

definition pool :: "nat set" where
  "pool = {normal_pfn_start..<normal_pfn_end}"

lemma pool_small: "p \<in> pool \<Longrightarrow> p < PAGE_ARRAY_SIZE \<and> small_frame p"
  by (simp add: pool_def small_frame_def)

lemma get_free_page_SomeE:
  assumes "get_free_page s = Inr (pfn, t)"
  obtains p w where "pfn = of_nat p" "p \<in> pool" "page_ref s p = 0"
    "\<And>q. q \<in> pool \<Longrightarrow> q < p \<Longrightarrow> page_ref s q \<noteq> 0"
    "t = s\<lparr>page_ref := (page_ref s)(p := 1), bitmap := w\<rparr>"
proof -
  from assms obtain p where f: "List.find (\<lambda>pfn. page_ref s pfn = 0) [normal_pfn_start..<normal_pfn_end] = Some p"
    by (auto simp: get_free_page_def split: option.splits)
  then have "p \<in> pool" "page_ref s p = 0" "\<And>q. q \<in> pool \<Longrightarrow> q < p \<Longrightarrow> page_ref s q \<noteq> 0"
    by (auto simp: find_upt_Some pool_def)
  with f assms show thesis
    by (intro that [of p]) (auto simp: get_free_page_def set_ref_def set_busy_def rbind_eq_Inr split: if_splits)
qed

lemma get_free_page_total:
  assumes "p \<in> pool" "page_ref s p = 0"
  shows "\<exists>pfn t. get_free_page s = Inr (pfn, t)"
proof -
  from assms obtain q where q: "List.find (\<lambda>pfn. page_ref s pfn = 0) [normal_pfn_start..<normal_pfn_end] = Some q"
    by (cases "List.find (\<lambda>pfn. page_ref s pfn = 0) [normal_pfn_start..<normal_pfn_end]")
       (auto simp: find_upt_None pool_def)
  then have "q < 32766" by (simp add: find_upt_Some)
  with q show ?thesis by (simp add: get_free_page_def set_ref_def set_busy_def)
qed

lemma get_free_page_exhausted:
  "(\<forall>p\<in>pool. page_ref s p \<noteq> 0) \<Longrightarrow>
     get_free_page s = Inl (Panic ''[get_free_page] ERROR : out of memory!'')"
proof -
  assume "\<forall>p\<in>pool. page_ref s p \<noteq> 0"
  then have "List.find (\<lambda>pfn. page_ref s pfn = 0) [normal_pfn_start..<normal_pfn_end] = None"
    by (auto simp: find_upt_None pool_def)
  then show ?thesis by (simp add: get_free_page_def)
qed

definition frame_of_va :: "u64 \<Rightarrow> nat" where
  "frame_of_va a = unat (VA2PA a) div 4096"

lemma frame_of_va_PA2VA [simp]: "small_frame f \<Longrightarrow> frame_of_va (PA2VA (frame_pa f)) = f"
  by (simp add: frame_of_va_def unat_frame_pa)

lemma of_nat_pool: "p \<in> pool \<Longrightarrow> (of_nat p :: u64) \<noteq> - 1"
proof -
  assume p: "p \<in> pool"
  then have "unat (of_nat p :: u64) = p" using pool_small unat_frame by blast
  moreover have "unat (- 1 :: u64) = 18446744073709551615"
    by (simp add: unsigned_minus_1_eq_mask mask_eq_exp_minus_1)
  ultimately show ?thesis using p by (auto simp: pool_def simp del: unat_of_nat)
qed

lemma get_zero_page_eq:
  assumes "get_free_page s = Inr (pfn, t)"
  shows "\<exists>p. pfn = of_nat p \<and> p \<in> pool \<and>
    get_zero_page s = Inr (PA2VA (frame_pa p), t\<lparr>ram := memset (frame_pa p) 0 4096 (ram t)\<rparr>)"
  using assms
  by (rule get_free_page_SomeE)
     (auto simp: get_zero_page_def assms Let_def of_nat_pool push_frame pool_small)

lemma get_zero_page_InrE:
  assumes "get_zero_page s = Inr (va, t)"
  obtains p w where "va = PA2VA (frame_pa p)" "p \<in> pool" "page_ref s p = 0"
    "t = s\<lparr>page_ref := (page_ref s)(p := 1), bitmap := w, ram := memset (frame_pa p) 0 4096 (ram s)\<rparr>"
proof -
  from assms obtain pfn u where g: "get_free_page s = Inr (pfn, u)"
    by (auto simp: get_zero_page_def rbind_eq_Inr)
  obtain q w where q: "pfn = of_nat q" "q \<in> pool" "page_ref s q = 0" "u = s\<lparr>page_ref := (page_ref s)(q := 1), bitmap := w\<rparr>"
    using g by (rule get_free_page_SomeE)
  obtain p where p: "pfn = of_nat p" "p \<in> pool"
    "get_zero_page s = Inr (PA2VA (frame_pa p), u\<lparr>ram := memset (frame_pa p) 0 4096 (ram u)\<rparr>)"
    using get_zero_page_eq [OF g] by blast
  have "p = q" using p(1,2) q(1,2) pool_small unat_frame by metis
  with p q assms show thesis by (intro that [of q w]) auto
qed

interpretation kfree: frame_recycler get_free_page unat page_ref pool
  "\<lambda>p. free_page (of_nat p)"
proof
  show "finite pool" by (simp add: pool_def)
next
  fix s t :: "'a phymem_scheme" and f
  assume "get_free_page s = Inr (f, t)"
  then show "unat f \<in> pool \<and> page_ref s (unat f) = 0 \<and> page_ref t = (page_ref s)(unat f := 1)"
    by (rule get_free_page_SomeE) (simp add: unat_frame pool_small)
next
  fix p and s :: "'a phymem_scheme"
  assume "p \<in> pool"
  then have "unat (of_nat p :: u64) = p" "p < 32768" "p div 64 < 512"
    by (auto simp: unat_frame pool_small) (simp add: pool_def less_mult_imp_div_less)
  then show "\<exists>t. free_page (of_nat p) s = Inr t \<and> page_ref t = (page_ref s)(p := page_ref s p - 1)"
    by (auto simp: free_page_def set_ref_def clear_busy_def)
qed (rule get_free_page_total)

interpretation kzero: frame_allocator get_zero_page frame_of_va page_ref pool
proof
  show "finite pool" by (simp add: pool_def)
next
  fix s t :: "'a phymem_scheme" and f
  assume "get_zero_page s = Inr (f, t)"
  then show "frame_of_va f \<in> pool \<and> page_ref s (frame_of_va f) = 0 \<and> page_ref t = (page_ref s)(frame_of_va f := 1)"
    by (rule get_zero_page_InrE) (simp add: pool_small)
next
  fix p and s :: "'a phymem_scheme"
  assume "p \<in> pool" "page_ref s p = 0"
  then obtain f t where "get_free_page s = Inr (f, t)" using get_free_page_total by blast
  then show "\<exists>f t. get_zero_page s = Inr (f, t)" using get_zero_page_eq by blast
qed

text \<open>
  A page frame taken with \<open>get_free_page\<close> is the lowest one of frames 671 to 32765 that has
  reference count 0; it is returned with count 1 and no other count changes. When every frame
  of that range is in use the kernel panics.
\<close>

lemma get_free_page_spec:
  "case get_free_page s of
     Inr (pfn, t) \<Rightarrow>
       671 \<le> unat pfn \<and> unat pfn < 32766 \<and> page_ref s (unat pfn) = 0 \<and>
       (\<forall>q. 671 \<le> q \<and> q < unat pfn \<longrightarrow> page_ref s q \<noteq> 0) \<and>
       page_ref t = (page_ref s)(unat pfn := 1) \<and> ram t = ram s
   | Inl e \<Rightarrow>
       e = Panic ''[get_free_page] ERROR : out of memory!'' \<and>
       (\<forall>q. 671 \<le> q \<and> q < 32766 \<longrightarrow> page_ref s q \<noteq> 0)"
proof (cases "\<exists>p\<in>pool. page_ref s p = 0")
  case True
  then obtain pfn t where g: "get_free_page s = Inr (pfn, t)" using get_free_page_total by blast
  then show ?thesis
    by (rule get_free_page_SomeE) (auto simp: g unat_frame pool_small, auto simp: pool_def)
next
  case False
  then show ?thesis using get_free_page_exhausted [of s] by (auto simp: pool_def)
qed

text \<open>
  C8. As long as \<open>n\<close> frames of the pool have count 0, \<open>n\<close> calls of \<open>get_zero_page\<close> in a row
  succeed, and they return the kernel addresses of \<open>n\<close> different frames that were all unused;
  \<open>n\<close> calls of \<open>get_free_page\<close> succeed as well, and handing their frames back with
  \<open>free_page\<close> restores every reference count.
\<close>

theorem frames_round_trip:
  assumes "n \<le> card {p. 671 \<le> p \<and> p < 32766 \<and> page_ref s p = 0}"
  shows "(\<exists>vas t. take_frames get_zero_page n s = Inr (vas, t) \<and> length vas = n \<and>
       distinct (map frame_of_va vas) \<and> (\<forall>va\<in>set vas. page_ref s (frame_of_va va) = 0) \<and>
       page_ref t = (\<lambda>p. if p \<in> frame_of_va ` set vas then 1 else page_ref s p)) \<and>
     (\<exists>pfns t u. take_frames get_free_page n s = Inr (pfns, t) \<and> length pfns = n \<and> distinct pfns \<and>
       rfold free_page pfns t = Inr u \<and> page_ref u = page_ref s)"
proof -
  have pool: "{p. 671 \<le> p \<and> p < 32766 \<and> page_ref s p = 0} = {p \<in> pool. page_ref s p = 0}"
    by (auto simp: pool_def)
  obtain vas t where t: "take_frames get_zero_page n s = Inr (vas, t)"
    using kzero.take_frames_total [of n s] assms unfolding pool kzero.unused_def by blast
  obtain pfns v where v: "take_frames get_free_page n s = Inr (pfns, v)"
    using kfree.take_frames_total [of n s] assms unfolding pool kfree.unused_def by blast
  obtain u where u: "rfold (\<lambda>p. free_page (of_nat p)) (map unat pfns) v = Inr u" "page_ref u = page_ref s"
    using kfree.take_release [OF v] by blast
  have "rfold (\<lambda>p. free_page (of_nat p)) (map unat pfns) v = rfold free_page pfns v"
    for v :: "'a phymem_scheme" and pfns
    by (induction pfns arbitrary: v) (auto intro!: rbind_cong)
  with v u kfree.take_frames_spec [OF v] kzero.take_frames_spec [OF t] t show ?thesis
    unfolding kzero.unused_def by (auto simp: distinct_map)
qed

theorem frames_round_trip_witness:
  "\<exists>pfns t u. take_frames get_free_page 3 boot_example = Inr (pfns, t) \<and> length pfns = 3 \<and> distinct pfns \<and>
     rfold free_page pfns t = Inr u \<and> page_ref u = page_ref boot_example"
proof -
  have "{p. 671 \<le> p \<and> p < 32766 \<and> page_ref boot_example p = 0} = {671..<32766}"
    by (auto simp: boot_example_def)
  then show ?thesis using frames_round_trip [of 3 boot_example] by simp
qed

end
