(* ===== verification/Paging.thy ===== *)
theory Paging
  imports PhysMem
begin

text \<open>
  Four-level paging: the x86-64 address translation over the words of physical memory, the
  macros of include/sys/pgtable.h, and what the kernel's page tables translate to. The
  processor's walk is \<open>walk\<close>; the kernel's direct map (\<open>PA2VA\<close>) and the self-referencing entry
  0x1fe (the \<open>..._trick\<close> macros) are shown to mean what the code uses them for.
\<close>

section \<open>Address translation\<close>

text \<open>The four table indices of a virtual address: level 3 is the page global directory.\<close>

definition idx :: "nat \<Rightarrow> u64 \<Rightarrow> nat" where
  "idx k va = unat va div 2 ^ (12 + 9 * k) mod 512"

definition path :: "u64 \<Rightarrow> nat list" where
  "path va = [idx 3 va, idx 2 va, idx 1 va, idx 0 va]"

text \<open>Bits 12 to 51 of an entry are the number of the frame it points to.\<close>

definition ent_frame :: "u64 \<Rightarrow> nat" where
  "ent_frame e = unat e div 4096 mod 1099511627776"

definition present :: "u64 \<Rightarrow> bool" where
  "present e \<longleftrightarrow> bit e 0"

fun walk_frame :: "ram \<Rightarrow> nat \<Rightarrow> nat list \<Rightarrow> nat option" where
  "walk_frame r f [] = Some f"
| "walk_frame r f (i # is) =
     (let e = frame_word r f i in if present e then walk_frame r (ent_frame e) is else None)"

definition walk :: "ram \<Rightarrow> u64 \<Rightarrow> u64 \<Rightarrow> u64 option" where
  "walk r root va =
     map_option (\<lambda>f. frame_pa f + of_nat (unat va mod 4096)) (walk_frame r (ent_frame root) (path va))"

section \<open>include/sys/pgtable.h\<close>

abbreviation (input) SELF_REF_INDEX :: nat where "SELF_REF_INDEX \<equiv> 0x1fe"

definition PGD_MASK :: u64 where "PGD_MASK = 0xffffff7fbfdfe000"
definition PUD_MASK :: u64 where "PUD_MASK = 0xffffff7fbfc00000"
definition PMD_MASK :: u64 where "PMD_MASK = 0xffffff7f80000000"
definition PTE_MASK :: u64 where "PTE_MASK = 0xffffff0000000000"

text \<open>\<open>& (~0x7)\<close> sign-extends: all but the low three bits.\<close>

definition get_pgd_entry_addr_trick :: "u64 \<Rightarrow> u64" where
  "get_pgd_entry_addr_trick addr = (((drop_bit 36 addr) AND (push_bit 12 1 - 1)) OR PGD_MASK) AND NOT 7"

definition get_pud_entry_addr_trick :: "u64 \<Rightarrow> u64" where
  "get_pud_entry_addr_trick addr = (((drop_bit 27 addr) AND (push_bit 21 1 - 1)) OR PUD_MASK) AND NOT 7"

definition get_pmd_entry_addr_trick :: "u64 \<Rightarrow> u64" where
  "get_pmd_entry_addr_trick addr = (((drop_bit 18 addr) AND (push_bit 30 1 - 1)) OR PMD_MASK) AND NOT 7"

definition get_pte_entry_addr_trick :: "u64 \<Rightarrow> u64" where
  "get_pte_entry_addr_trick addr = (((drop_bit 9 addr) AND (push_bit 39 1 - 1)) OR PTE_MASK) AND NOT 7"

definition get_pgd_off :: "u64 \<Rightarrow> nat" where
  "get_pgd_off pfn = unat (drop_bit 55 (push_bit 28 pfn))"

definition get_pud_off :: "u64 \<Rightarrow> nat" where
  "get_pud_off pfn = unat (drop_bit 55 (push_bit 37 pfn))"

definition get_pmd_off :: "u64 \<Rightarrow> nat" where
  "get_pmd_off pfn = unat (drop_bit 55 (push_bit 46 pfn))"

definition get_pte_off :: "u64 \<Rightarrow> nat" where
  "get_pte_off pfn = unat (drop_bit 55 (push_bit 55 pfn))"

text \<open>
  \<open>get_pgd_entry\<close> and its three siblings read entry \<open>off\<close> of the table at kernel address \<open>t\<close>;
  \<open>put_pgd_entry\<close> and its siblings store the physical address of a page with its protection.
\<close>

definition get_entry :: "u64 \<Rightarrow> nat \<Rightarrow> ram \<Rightarrow> u64" where
  "get_entry t off r = load64 r (VA2PA t + 8 * of_nat off)"

definition put_entry_va :: "u64 \<Rightarrow> nat \<Rightarrow> u64 \<Rightarrow> u64 \<Rightarrow> ram \<Rightarrow> ram" where
  "put_entry_va t off page prot r = put_entry (VA2PA t) off (VA2PA page OR prot) r"

section \<open>Entries\<close>

lemma ent_frame_small [simp]: "small_frame (ent_frame e)"
proof -
  have "ent_frame e < 1099511627776" by (simp add: ent_frame_def)
  then show ?thesis by (simp add: small_frame_def)
qed

lemma idx_less [simp]: "idx k va < 512"
  by (simp add: idx_def)

lemma unat_or_low:
  assumes "small_frame f" "unat b < 4096"
  shows "unat (frame_pa f OR b) = 4096 * f + unat b"
proof -
  have b: "drop_bit 12 b = 0" using assms(2) by (simp only: u64_eq_iff unat_drop64) simp
  have "frame_pa f AND b = 0"
  proof (rule bit_word_eqI)
    fix n
    have "n < 12" if "bit b n"
    proof (rule ccontr)
      assume "\<not> n < 12"
      then have "bit (drop_bit 12 b) (n - 12)" using that by (simp add: bit_drop_bit_eq)
      then show False by (simp add: b)
    qed
    then show "bit (frame_pa f AND b) n = bit 0 n"
      by (auto simp: push_frame [OF assms(1), symmetric] bit_simps)
  qed
  then have "frame_pa f OR b = frame_pa f + b" by (rule disjunctive_add_eq_or [symmetric])
  then show ?thesis
    using assms unat_frame_pa [OF assms(1)] by (simp add: unat_add64 small_frame_def)
qed

lemma ent_frame_or:
  assumes "f < 1099511627776" "unat b < 4096"
  shows "ent_frame (frame_pa f OR b) = f"
proof -
  have "small_frame f" using assms(1) by (simp add: small_frame_def)
  then show ?thesis using assms by (simp add: ent_frame_def unat_or_low)
qed

lemma present_or: "present (a OR b) \<longleftrightarrow> present a \<or> present b"
  by (simp add: present_def bit_or_iff)

lemma put_entry_frame: "put_entry (frame_pa f) i v r = store64 (entry_pa f i) v r"
  by (simp add: put_entry_def frame_pa_def entry_pa_def)

lemma frame_word_put_entry:
  assumes "small_frame f" "i < 512" "small_frame g" "j < 512"
  shows "frame_word (put_entry (frame_pa f) i v r) g j = (if f = g \<and> i = j then v else frame_word r g j)"
  using assms by (simp add: put_entry_frame frame_word_store64)

lemma get_entry_frame: "get_entry (PA2VA (frame_pa f)) i r = frame_word r f i"
  by (simp add: get_entry_def frame_word_def frame_pa_def entry_pa_def)

section \<open>The initial page tables\<close>

text \<open>The loop that fills one table, and the loop over the tables of level 0.\<close>

lemma fill_table:
  assumes "small_frame f" "n \<le> 512" "small_frame g" "j < 512"
  shows "frame_word (fold (\<lambda>i. put_entry (frame_pa f) i (v i)) [0..<n] r) g j =
    (if g = f \<and> j < n then v j else frame_word r g j)"
  using assms(2)
proof (induction n)
  case (Suc n)
  then show ?case using assms by (auto simp: frame_word_put_entry less_Suc_eq)
qed simp

lemma fill_tables:
  assumes "small_frame (F + n)" "small_frame g" "j < 512"
  shows "frame_word (fold (\<lambda>i. fold (\<lambda>j. put_entry (frame_pa (F + i)) j (v i j)) [0..<512]) [0..<n] r) g j =
    (if F \<le> g \<and> g < F + n then v (g - F) j else frame_word r g j)"
  using assms(1)
proof (induction n)
  case (Suc n)
  then have small: "small_frame (F + n)" by (simp add: small_frame_def)
  let ?r = "fold (\<lambda>i. fold (\<lambda>j. put_entry (frame_pa (F + i)) j (v i j)) [0..<512]) [0..<n] r"
  have "frame_word (fold (\<lambda>j. put_entry (frame_pa (F + n)) j (v n j)) [0..<512] ?r) g j =
      (if g = F + n then v n j else frame_word ?r g j)"
    using assms(2,3) small by (simp add: fill_table)
  then show ?case using Suc.IH [OF small] by (auto simp: le_less_Suc_eq)
qed auto

lemma initial_pgtables_frames:
  assumes "F + 515 < 1099511627776"
  shows "initial_pgtables (frame_pa F) r =
    fold (\<lambda>i. fold (\<lambda>j. put_entry (frame_pa (F + 3 + i)) j (frame_pa (512 * i + j) OR 1 OR 2)) [0..<512]) [0..<512]
      (fold (\<lambda>i. put_entry (frame_pa (F + 2)) i (frame_pa (F + 3 + i) OR 1 OR 2)) [0..<64]
        (put_entry (frame_pa (F + 1)) 0x1fe (frame_pa (F + 2) OR 1 OR 2)
          (put_entry (frame_pa F) 0x1fe (frame_pa F OR 1 OR 2)
            (put_entry (frame_pa F) 0x1ff (frame_pa (F + 1) OR 1 OR 2) r))))"
proof -
  have s: "frame_pa F + 4096 = frame_pa (F + 1)" "frame_pa (F + 1) + 4096 = frame_pa (F + 2)"
    "frame_pa (F + 2) + 4096 = frame_pa (F + 3)"
    by (simp_all add: frame_pa_def algebra_simps)
  have t: "frame_pa (F + 3) + push_bit 12 (of_nat i) = frame_pa (F + 3 + i)" if "i < 512" for i
    using that by (simp add: push_frame small_frame_def frame_pa_add)
  have e: "push_bit 21 (of_nat i) + push_bit 12 (of_nat j) = frame_pa (512 * i + j)" for i j
    by (simp add: frame_pa_def push_bit_eq_mult algebra_simps)
  have pmd: "fold (\<lambda>i. put_entry (frame_pa (F + 2)) i ((frame_pa (F + 3) + push_bit 12 (of_nat i)) OR 1 OR 2)) [0..<64] r =
      fold (\<lambda>i. put_entry (frame_pa (F + 2)) i (frame_pa (F + 3 + i) OR 1 OR 2)) [0..<64] r" for r
    by (rule fold_cong) (simp_all add: t)
  have pte: "fold (\<lambda>i. fold (\<lambda>j. put_entry (frame_pa (F + 3) + push_bit 12 (of_nat i)) j
        ((push_bit 21 (of_nat i) + push_bit 12 (of_nat j)) OR 1 OR 2)) [0..<512]) [0..<512] r =
      fold (\<lambda>i. fold (\<lambda>j. put_entry (frame_pa (F + 3 + i)) j (frame_pa (512 * i + j) OR 1 OR 2)) [0..<512]) [0..<512] r" for r
    by (rule fold_cong) (simp_all only: t e set_upt atLeastLessThan_iff)
  show ?thesis
    unfolding initial_pgtables_def Let_def s pmd pte ..
qed

lemma initial_words:
  assumes "F + 515 < 1099511627776"
  defines "r' \<equiv> \<lambda>r. initial_pgtables (frame_pa F) r"
  shows "frame_word (r' r) F 0x1ff = frame_pa (F + 1) OR 1 OR 2"
    and "frame_word (r' r) F 0x1fe = frame_pa F OR 1 OR 2"
    and "frame_word (r' r) (F + 1) 0x1fe = frame_pa (F + 2) OR 1 OR 2"
    and "i < 64 \<Longrightarrow> frame_word (r' r) (F + 2) i = frame_pa (F + 3 + i) OR 1 OR 2"
    and "k < 512 \<Longrightarrow> j < 512 \<Longrightarrow> frame_word (r' r) (F + 3 + k) j = frame_pa (512 * k + j) OR 1 OR 2"
    and "i < 0x1fe \<Longrightarrow> frame_word (r' r) F i = frame_word r F i"
proof -
  have small: "small_frame (F + k)" if "k \<le> 515" for k using assms(1) that by (simp add: small_frame_def)
  have s0: "small_frame F" using small [of 0] by simp
  have s512: "small_frame (F + 3 + 512)" using small [of 515] by (simp add: add.assoc)
  note w = initial_pgtables_frames [OF assms(1)] fill_tables [OF s512] fill_table frame_word_put_entry
    small s0
  show "frame_word (r' r) F 0x1ff = frame_pa (F + 1) OR 1 OR 2"
    "frame_word (r' r) F 0x1fe = frame_pa F OR 1 OR 2"
    "frame_word (r' r) (F + 1) 0x1fe = frame_pa (F + 2) OR 1 OR 2"
    "i < 64 \<Longrightarrow> frame_word (r' r) (F + 2) i = frame_pa (F + 3 + i) OR 1 OR 2"
    "i < 0x1fe \<Longrightarrow> frame_word (r' r) F i = frame_word r F i"
    unfolding r'_def by (simp_all only: w, simp_all add: w)
  assume k: "k < 512" "j < 512"
  then have "small_frame (F + 3 + k)" using small [of "3 + k"] by (simp add: add.assoc)
  with k show "frame_word (r' r) (F + 3 + k) j = frame_pa (512 * k + j) OR 1 OR 2"
    unfolding r'_def by (simp add: w)
qed

lemma initial_elsewhere:
  assumes "F + 515 < 1099511627776" "small_frame g" "i < 512" "g < F \<or> F + 515 \<le> g"
  shows "frame_word (initial_pgtables (frame_pa F) r) g i = frame_word r g i"
proof -
  have small: "small_frame F" "small_frame (F + 1)" "small_frame (F + 2)" "small_frame (F + 3 + 512)"
    using assms(1) by (simp_all add: small_frame_def)
  have "g \<noteq> F" "g \<noteq> F + 1" "g \<noteq> F + 2" "\<not> (F + 3 \<le> g \<and> g < F + 3 + 512)" using assms(4) by auto
  moreover have "(64 :: nat) \<le> 512" "(0x1fe :: nat) < 512" "(0x1ff :: nat) < 512" by simp_all
  ultimately show ?thesis unfolding initial_pgtables_frames [OF assms(1)]
    by (simp only: fill_tables [OF small(4) assms(2,3)] fill_table [OF small(3) _ assms(2,3)] frame_word_put_entry [OF small(1) _ assms(2,3)]
      frame_word_put_entry [OF small(2) _ assms(2,3)] not_sym simp_thms if_False)
qed

lemma walk_step:
  "frame_word r f i = frame_pa g OR b \<Longrightarrow> g < 1099511627776 \<Longrightarrow> unat b < 4096 \<Longrightarrow> present b \<Longrightarrow>
     walk_frame r f (i # is) = walk_frame r g is"
  by (simp add: ent_frame_or present_or Let_def)

lemma present_flags [simp]: "present 1" "present 3" "present 7"
  by (simp_all add: present_def)

text \<open>The indices of a direct-map address.\<close>

lemma unat_PA2VA: "unat pa < 2147483648 \<Longrightarrow> unat (PA2VA pa) = 18446744071562067968 + unat pa"
  by (simp add: PA2VA_def KERNEL_OFFSET_def unat_add64)

lemma idx_levels:
  "idx 0 va = unat va div 4096 mod 512" "idx 1 va = unat va div 2097152 mod 512"
  "idx 2 va = unat va div 1073741824 mod 512" "idx 3 va = unat va div 549755813888 mod 512"
  by (simp_all add: idx_def)

lemma path_PA2VA:
  assumes "unat pa < 134217728"
  shows "path (PA2VA pa) = [0x1ff, 0x1fe, unat pa div 2097152, unat pa div 4096 mod 512]"
    and "unat (PA2VA pa) mod 4096 = unat pa mod 4096"
proof -
  have u: "unat (PA2VA pa) = 18446744071562067968 + unat pa"
    using assms by (intro unat_PA2VA) simp
  have split: "18446744071562067968 + unat pa = 4096 * 4503599626846208 + unat pa"
    "18446744071562067968 + unat pa = 2097152 * 8796093021184 + unat pa"
    "18446744071562067968 + unat pa = 1073741824 * 17179869182 + unat pa"
    "18446744071562067968 + unat pa = 549755813888 * 33554431 + (547608330240 + unat pa)"
    by simp_all
  have quot: "(18446744071562067968 + unat pa) div 4096 = 512 * 8796093021184 + unat pa div 4096"
    "(18446744071562067968 + unat pa) div 2097152 = 512 * 17179869182 + unat pa div 2097152"
    "(18446744071562067968 + unat pa) div 1073741824 = 512 * 33554431 + 510"
    "(18446744071562067968 + unat pa) div 549755813888 = 512 * 65535 + 511"
    using assms by simp_all
  show "unat (PA2VA pa) mod 4096 = unat pa mod 4096"
    by (simp only: u split(1) mod_mult_self4)
  note idx_levels [of "PA2VA pa", unfolded u]
  then have "idx 0 (PA2VA pa) = unat pa div 4096 mod 512" "idx 1 (PA2VA pa) = unat pa div 2097152 mod 512"
    "idx 2 (PA2VA pa) = 510 mod 512" "idx 3 (PA2VA pa) = 511 mod 512"
    by (simp_all only: quot mod_mult_self4)
  moreover have "unat pa div 2097152 < 512" using assms by (simp add: less_mult_imp_div_less)
  ultimately show "path (PA2VA pa) = [0x1ff, 0x1fe, unat pa div 2097152, unat pa div 4096 mod 512]"
    by (simp add: path_def)
qed

text \<open>The way from the directory in frame \<open>F\<close> down to a page of the direct map.\<close>

lemma initial_walk:
  assumes "F + 515 < 1099511627776" "k < 64" "j < 512"
  defines "r' \<equiv> \<lambda>r. initial_pgtables (frame_pa F) r"
  shows "walk_frame (r' r) F (0x1ff # is) = walk_frame (r' r) (F + 1) is"
    and "walk_frame (r' r) (F + 1) (0x1fe # is) = walk_frame (r' r) (F + 2) is"
    and "walk_frame (r' r) (F + 2) (k # is) = walk_frame (r' r) (F + 3 + k) is"
    and "walk_frame (r' r) (F + 3 + k) (j # is) = walk_frame (r' r) (512 * k + j) is"
proof -
  note w = initial_words [OF assms(1), where r = r, folded r'_def]
  show "walk_frame (r' r) F (0x1ff # is) = walk_frame (r' r) (F + 1) is"
    unfolding r'_def by (rule walk_step [OF w(1) [unfolded r'_def]]) (use assms(1) in simp_all)
  show "walk_frame (r' r) (F + 1) (0x1fe # is) = walk_frame (r' r) (F + 2) is"
    unfolding r'_def by (rule walk_step [OF w(3) [unfolded r'_def]]) (use assms(1) in simp_all)
  show "walk_frame (r' r) (F + 2) (k # is) = walk_frame (r' r) (F + 3 + k) is"
    unfolding r'_def by (rule walk_step [OF w(4) [unfolded r'_def, OF assms(2)]]) (use assms in simp_all)
  show "walk_frame (r' r) (F + 3 + k) (j # is) = walk_frame (r' r) (512 * k + j) is"
    unfolding r'_def by (rule walk_step [OF w(5) [unfolded r'_def]]) (use assms in simp_all)
qed

lemma initial_page:
  assumes "F + 515 < 32768" "unat pa < 134217728"
  shows "walk_frame (initial_pgtables (frame_pa F) r) F (path (PA2VA pa)) = Some (unat pa div 4096)"
proof -
  let ?k = "unat pa div 2097152" and ?j = "unat pa div 4096 mod 512"
  have F: "F + 515 < 1099511627776" using assms(1) by simp
  have k: "?k < 64" using assms(2) by (simp add: less_mult_imp_div_less)
  have kj: "512 * ?k + ?j = unat pa div 4096"
    using div_mult2_eq [of "unat pa" 4096 512] mult_div_mod_eq [of 512 "unat pa div 4096"] by simp
  show ?thesis
    unfolding path_PA2VA(1) [OF assms(2)]
    by (simp only: initial_walk [OF F k, of ?j] mod_less_divisor kj walk_frame.simps(1) zero_less_numeral)
qed

text \<open>
  C32. The page tables \<open>setup_initial_pgtables\<close> builds in frames \<open>F\<close> to \<open>F + 514\<close> map every
  kernel address \<open>PA2VA pa\<close> of the first 128 MB to the physical address \<open>pa\<close>, whatever the
  memory held before.
\<close>

theorem initial_map:
  assumes "F + 515 < 32768" "unat pa < 134217728"
  shows "walk (initial_pgtables (frame_pa F) r) (frame_pa F) (PA2VA pa) = Some pa"
proof -
  note initial_page [OF assms, of r]
  moreover have "ent_frame (frame_pa F) = F" using ent_frame_or [of F 0] assms(1) by simp
  moreover have "frame_pa (unat pa div 4096) + of_nat (unat pa mod 4096) = pa"
    unfolding frame_pa_def of_nat_add [symmetric] mult_div_mod_eq by simp
  ultimately show ?thesis
    using path_PA2VA(2) [OF assms(2)] by (simp add: walk_def)
qed

theorem initial_map_witness:
  "walk (initial_pgtables (frame_pa 545) (\<lambda>_. 0)) (frame_pa 545) (PA2VA 0xB8000) = Some 0xB8000"
  using initial_map [of 545 "0xB8000" "\<lambda>_. 0"] by simp

section \<open>The self-referencing entry\<close>

lemma masks:
  "PTE_MASK = push_bit 40 (mask 24)"
  "PMD_MASK = push_bit 40 (mask 24) OR push_bit 31 (mask 8)"
  "PUD_MASK = push_bit 40 (mask 24) OR push_bit 31 (mask 8) OR push_bit 22 (mask 8)"
  "PGD_MASK = push_bit 40 (mask 24) OR push_bit 31 (mask 8) OR push_bit 22 (mask 8) OR push_bit 13 (mask 8)"
  by (simp_all add: PTE_MASK_def PMD_MASK_def PUD_MASK_def PGD_MASK_def mask_eq_exp_minus_1 push_bit_eq_mult)

lemma idx_word: "idx k va = unat (take_bit 9 (drop_bit (12 + 9 * k) va))"
  by (simp only: idx_def unsigned_take_bit_eq unat_drop64) (simp add: take_bit_eq_mod)

lemma trick_addrs:
  "get_pte_entry_addr_trick va = (take_bit 39 (drop_bit 9 va) OR PTE_MASK) AND NOT (mask 3)"
  "get_pmd_entry_addr_trick va = (take_bit 30 (drop_bit 18 va) OR PMD_MASK) AND NOT (mask 3)"
  "get_pud_entry_addr_trick va = (take_bit 21 (drop_bit 27 va) OR PUD_MASK) AND NOT (mask 3)"
  "get_pgd_entry_addr_trick va = (take_bit 12 (drop_bit 36 va) OR PGD_MASK) AND NOT (mask 3)"
  by (simp_all add: get_pte_entry_addr_trick_def get_pmd_entry_addr_trick_def get_pud_entry_addr_trick_def
      get_pgd_entry_addr_trick_def take_bit_eq_mask mask_eq_exp_minus_1)

text \<open>The fields of a trick address, as words: nine bits from bit \<open>n\<close> on.\<close>

definition field :: "nat \<Rightarrow> u64 \<Rightarrow> u64" where
  "field n va = take_bit 9 (drop_bit n va)"

lemma field_eqI: "(\<And>i. i < 9 \<Longrightarrow> bit a (m + i) = bit b (n + i)) \<Longrightarrow> field m a = field n b"
  unfolding field_def by (rule bit_word_eqI) (auto simp: bit_simps)

lemma field_selfI: "(\<And>i. i < 9 \<Longrightarrow> bit a (m + i) \<longleftrightarrow> i \<noteq> 0) \<Longrightarrow> field m a = 0x1fe"
proof -
  assume a: "\<And>i. i < 9 \<Longrightarrow> bit a (m + i) \<longleftrightarrow> i \<noteq> 0"
  have "(0x1fe :: u64) = push_bit 1 (mask 8)" by (simp add: mask_eq_exp_minus_1)
  moreover have "field m a = push_bit 1 (mask 8)"
    unfolding field_def
    by (rule bit_word_eqI)
       (simp only: bit_push_bit_iff bit_take_bit_iff bit_drop_bit_eq comp_def bit_mask_iff possible_bit_word, auto simp: a)
  ultimately show ?thesis by simp
qed

lemmas trick_bits = trick_addrs masks bit_simps

lemma pte_trick_fields:
  "field 39 (get_pte_entry_addr_trick va) = 0x1fe"
  "field 30 (get_pte_entry_addr_trick va) = field 39 va"
  "field 21 (get_pte_entry_addr_trick va) = field 30 va"
  "field 12 (get_pte_entry_addr_trick va) = field 21 va"
  "field 3 (get_pte_entry_addr_trick va) = field 12 va"
  by (intro field_selfI field_eqI; auto simp: trick_bits)+

lemma pmd_trick_fields:
  "field 39 (get_pmd_entry_addr_trick va) = 0x1fe"
  "field 30 (get_pmd_entry_addr_trick va) = 0x1fe"
  "field 21 (get_pmd_entry_addr_trick va) = field 39 va"
  "field 12 (get_pmd_entry_addr_trick va) = field 30 va"
  "field 3 (get_pmd_entry_addr_trick va) = field 21 va"
  by (intro field_selfI field_eqI; auto simp: trick_bits)+

lemma pud_trick_fields:
  "field 39 (get_pud_entry_addr_trick va) = 0x1fe"
  "field 30 (get_pud_entry_addr_trick va) = 0x1fe"
  "field 21 (get_pud_entry_addr_trick va) = 0x1fe"
  "field 12 (get_pud_entry_addr_trick va) = field 39 va"
  "field 3 (get_pud_entry_addr_trick va) = field 30 va"
  by (intro field_selfI field_eqI; auto simp: trick_bits)+

lemma pgd_trick_fields:
  "field 39 (get_pgd_entry_addr_trick va) = 0x1fe"
  "field 30 (get_pgd_entry_addr_trick va) = 0x1fe"
  "field 21 (get_pgd_entry_addr_trick va) = 0x1fe"
  "field 12 (get_pgd_entry_addr_trick va) = 0x1fe"
  "field 3 (get_pgd_entry_addr_trick va) = field 39 va"
  by (intro field_selfI field_eqI; auto simp: trick_bits)+

lemma idx_field: "idx 3 va = unat (field 39 va)" "idx 2 va = unat (field 30 va)"
  "idx 1 va = unat (field 21 va)" "idx 0 va = unat (field 12 va)"
  by (simp_all add: idx_word field_def)

text \<open>A trick address is a multiple of eight, so its page offset is eight times field 3.\<close>

lemma offset_field:
  assumes "unat va mod 8 = 0"
  shows "unat va mod 4096 = 8 * unat (field 3 va)"
proof -
  have "unat (field 3 va) = unat va div 8 mod 512"
    unfolding field_def by (simp only: unsigned_take_bit_eq unat_drop64) (simp add: take_bit_eq_mod)
  moreover have "unat va mod (8 * 512) = 8 * (unat va div 8 mod 512) + unat va mod 8"
    by (rule mod_mult2_eq)
  ultimately show ?thesis using assms by simp
qed

lemma mod_8_clear: "unat (a AND NOT (mask 3) :: u64) mod 8 = 0"
proof -
  have "take_bit 3 (a AND NOT (mask 3)) = 0" by (rule bit_word_eqI) (auto simp: bit_simps)
  then have "take_bit 3 (unat (a AND NOT (mask 3))) = 0" by (metis unsigned_take_bit_eq unsigned_0)
  then show ?thesis by (simp add: take_bit_eq_mod)
qed

lemma walk_self:
  assumes "frame_word r f 0x1fe = frame_pa f OR b" "f < 1099511627776" "unat b < 4096" "present b"
  shows "walk_frame r f (0x1fe # is) = walk_frame r f is"
  by (rule walk_step [OF assms])

lemma trick_walk:
  assumes "frame_word r f 0x1fe = frame_pa f OR b" "f < 1099511627776" "unat b < 4096" "present b"
    and "root = frame_pa f"
  shows "walk r root (get_pgd_entry_addr_trick va) = Some (entry_pa f (idx 3 va)) \<and>
    walk r root (get_pud_entry_addr_trick va) =
      map_option (\<lambda>g. entry_pa g (idx 2 va)) (walk_frame r f [idx 3 va]) \<and>
    walk r root (get_pmd_entry_addr_trick va) =
      map_option (\<lambda>g. entry_pa g (idx 1 va)) (walk_frame r f [idx 3 va, idx 2 va]) \<and>
    walk r root (get_pte_entry_addr_trick va) =
      map_option (\<lambda>g. entry_pa g (idx 0 va)) (walk_frame r f [idx 3 va, idx 2 va, idx 1 va])"
proof -
  note self = walk_self [OF assms(1-4)]
  have root: "ent_frame root = f" using ent_frame_or [of f 0] assms(2,5) by simp
  have off: "frame_pa g + of_nat (8 * i) = entry_pa g i" for g i
    by (simp add: frame_pa_def entry_pa_def)
  have m8: "unat (get_pgd_entry_addr_trick va) mod 8 = 0" "unat (get_pud_entry_addr_trick va) mod 8 = 0"
    "unat (get_pmd_entry_addr_trick va) mod 8 = 0" "unat (get_pte_entry_addr_trick va) mod 8 = 0"
    unfolding trick_addrs by (rule mod_8_clear)+
  have n: "unat (0x1fe :: u64) = 0x1fe" by simp
  note fields = walk_def path_def root idx_field pgd_trick_fields pud_trick_fields pmd_trick_fields
    pte_trick_fields n self offset_field [OF m8(1)] offset_field [OF m8(2)] offset_field [OF m8(3)]
    offset_field [OF m8(4)] off
  show ?thesis
    by (intro conjI; simp only: fields)
       (simp_all only: walk_frame.simps(1) option.map)
qed

text \<open>
  C27. Under a page directory whose entry 0x1fe points to the directory itself, the addresses the
  \<open>..._entry_addr_trick\<close> macros compute for a virtual address are mapped to the page-table
  entries of that address: the physical address of entry \<open>idx k va\<close> of the table the processor
  reaches for \<open>va\<close> at that level, and nowhere if there is no such table.
\<close>

theorem self_map:
  assumes "frame_word r f 0x1fe = frame_pa f OR b" "f < 1099511627776" "unat b < 4096" "present b"
    and "root = frame_pa f"
  shows "walk r root (get_pgd_entry_addr_trick va) = Some (entry_pa f (idx 3 va)) \<and>
    walk r root (get_pud_entry_addr_trick va) =
      map_option (\<lambda>g. entry_pa g (idx 2 va)) (walk_frame r f [idx 3 va]) \<and>
    walk r root (get_pmd_entry_addr_trick va) =
      map_option (\<lambda>g. entry_pa g (idx 1 va)) (walk_frame r f [idx 3 va, idx 2 va]) \<and>
    walk r root (get_pte_entry_addr_trick va) =
      map_option (\<lambda>g. entry_pa g (idx 0 va)) (walk_frame r f [idx 3 va, idx 2 va, idx 1 va])"
  by (rule trick_walk [OF assms])

theorem self_map_witness:
  "walk (initial_pgtables (frame_pa 545) (\<lambda>_. 0)) (frame_pa 545) (get_pgd_entry_addr_trick 0xffffffff80200000)
     = Some (entry_pa 545 0x1ff)"
proof -
  have "frame_word (initial_pgtables (frame_pa 545) (\<lambda>_. 0)) 545 0x1fe = frame_pa 545 OR 3"
    using initial_words(2) [of 545 "\<lambda>_. 0"] by simp
  moreover have "idx 3 0xffffffff80200000 = 0x1ff" by (simp add: idx_levels)
  ultimately show ?thesis
    using self_map [of "initial_pgtables (frame_pa 545) (\<lambda>_. 0)" 545 3 "frame_pa 545" "0xffffffff80200000"]
    by simp
qed

section \<open>Table offsets\<close>

text \<open>The shifts of the \<open>get_pxd_off\<close> macros pick the indices the processor uses.\<close>

lemma off_field:
  "drop_bit 55 (push_bit 28 (drop_bit 12 va)) = field 39 va"
  "drop_bit 55 (push_bit 37 (drop_bit 12 va)) = field 30 va"
  "drop_bit 55 (push_bit 46 (drop_bit 12 va)) = field 21 va"
  "drop_bit 55 (push_bit 55 (drop_bit 12 va)) = field 12 va"
  unfolding field_def
  by (rule bit_word_eqI; auto simp: bit_simps)+

lemma offs_path:
  "[get_pgd_off (drop_bit 12 va), get_pud_off (drop_bit 12 va), get_pmd_off (drop_bit 12 va),
    get_pte_off (drop_bit 12 va)] = path va"
  by (simp only: get_pgd_off_def get_pud_off_def get_pmd_off_def get_pte_off_def off_field path_def idx_field)

section \<open>New page directories\<close>

definition copy_page :: "u64 \<Rightarrow> u64 \<Rightarrow> ram \<Rightarrow> ram" where
  "copy_page dest_page src_page r = copy_bytes (VA2PA dest_page) (VA2PA src_page) 4096 r"

definition alloc_pgd :: "'a phymem_scheme \<Rightarrow> fault + u64 \<times> 'a phymem_scheme" where
  "alloc_pgd s =
     rbind (get_zero_page s) (\<lambda>(p, s).
     if p = 0 then Inr (0, s)
     else let s = s\<lparr>ram := copy_page p (pgd_start s) (ram s)\<rparr>;
              s = s\<lparr>ram := put_entry (VA2PA p) 0x1fe (VA2PA p OR ENTRY_P OR ENTRY_RW) (ram s)\<rparr>
          in Inr (p, s))"

lemma page_va_nonzero: "f \<in> pool \<Longrightarrow> PA2VA (frame_pa f) \<noteq> 0"
proof -
  assume f: "f \<in> pool"
  then have "unat (frame_pa f) = 4096 * f" using pool_small unat_frame_pa by blast
  then have "unat (frame_pa f) < 2147483648" using f by (simp add: pool_def)
  then have "unat (PA2VA (frame_pa f)) \<noteq> 0" using unat_PA2VA by simp
  then show ?thesis by auto
qed

lemma alloc_pgd_InrE:
  assumes "alloc_pgd s = Inr (va, t)" "pgd_start s = PA2VA (frame_pa K)" "small_frame K" "K \<in> pool \<Longrightarrow> page_ref s K \<noteq> 0"
  obtains f w r where "va = PA2VA (frame_pa f)" "f \<in> pool" "page_ref s f = 0"
    "t = s\<lparr>page_ref := (page_ref s)(f := 1), bitmap := w, ram := r\<rparr>"
    "\<And>g i. small_frame g \<Longrightarrow> i < 512 \<Longrightarrow> frame_word r g i =
       (if g = f then if i = 0x1fe then frame_pa f OR 1 OR 2 else frame_word (ram s) K i
        else frame_word (ram s) g i)"
proof -
  from assms(1) obtain va' u where z: "get_zero_page s = Inr (va', u)"
    by (auto simp: alloc_pgd_def rbind_eq_Inr)
  then obtain f w where f: "va' = PA2VA (frame_pa f)" "f \<in> pool" "page_ref s f = 0"
    "u = s\<lparr>page_ref := (page_ref s)(f := 1), bitmap := w, ram := memset (frame_pa f) 0 4096 (ram s)\<rparr>"
    by (rule get_zero_page_InrE)
  define r where "r = put_entry (frame_pa f) 0x1fe (frame_pa f OR 1 OR 2)
    (copy_bytes (frame_pa f) (frame_pa K) 4096 (memset (frame_pa f) 0 4096 (ram s)))"
  have sf: "small_frame f" using f(2) pool_small by blast
  have fK: "f \<noteq> K" using f assms(4) by auto
  have "va = PA2VA (frame_pa f)" "t = s\<lparr>page_ref := (page_ref s)(f := 1), bitmap := w, ram := r\<rparr>"
    using assms(1,2) z f page_va_nonzero [OF f(2)]
    by (auto simp: alloc_pgd_def Let_def copy_page_def r_def)
  moreover have "frame_word r g i =
      (if g = f then if i = 0x1fe then frame_pa f OR 1 OR 2 else frame_word (ram s) K i
       else frame_word (ram s) g i)" if "small_frame g" "i < 512" for g i
    using that sf fK assms(3) unfolding r_def
    by (auto simp: frame_word_put_entry frame_word_copy frame_word_memset)
  ultimately show thesis using f that by blast
qed

text \<open>A walk sees only the words on its way.\<close>

lemma walk_frame_cong:
  assumes "\<And>p i q g. is = p @ i # q \<Longrightarrow> walk_frame r f p = Some g \<Longrightarrow> frame_word r' g i = frame_word r g i"
  shows "walk_frame r' f is = walk_frame r f is"
  using assms
proof (induction "is" arbitrary: f)
  case (Cons i "is")
  have e: "frame_word r' f i = frame_word r f i" using Cons.prems [of "[]" i "is" f] by simp
  show ?case
  proof (cases "present (frame_word r f i)")
    case True
    have "walk_frame r' (ent_frame (frame_word r f i)) is = walk_frame r (ent_frame (frame_word r f i)) is"
      using True by (intro Cons.IH Cons.prems [of "i # _"]) (auto simp: Let_def)
    then show ?thesis using e True by (simp add: Let_def)
  qed (simp add: e)
qed simp

lemma walk_frame_append:
  "walk_frame r f (p @ q) = (case walk_frame r f p of None \<Rightarrow> None | Some g \<Rightarrow> walk_frame r g q)"
  by (induction p arbitrary: f) (auto simp: Let_def)

lemma walk_frame_small: "walk_frame r f p = Some g \<Longrightarrow> small_frame f \<Longrightarrow> small_frame g"
  by (induction p arbitrary: f) (auto simp: Let_def split: if_splits)

text \<open>The tables the direct map goes through, below the directory in frame \<open>K\<close>, are in use.\<close>

definition kernel_tables_held :: "nat \<Rightarrow> 'a phymem_scheme \<Rightarrow> bool" where
  "kernel_tables_held K s \<longleftrightarrow>
     (\<forall>pa p q g. unat pa < 134217728 \<longrightarrow> path (PA2VA pa) = p @ q \<longrightarrow> q \<noteq> [] \<longrightarrow>
        walk_frame (ram s) K p = Some g \<longrightarrow> page_ref s g \<noteq> 0)"

lemma kernel_tables_heldD:
  "kernel_tables_held K s \<Longrightarrow> unat pa < 134217728 \<Longrightarrow> path (PA2VA pa) = p @ q \<Longrightarrow> q \<noteq> [] \<Longrightarrow>
     walk_frame (ram s) K p = Some g \<Longrightarrow> page_ref s g \<noteq> 0"
  unfolding kernel_tables_held_def by blast

text \<open>
  C33. The page directory \<open>alloc_pgd\<close> returns is an unused frame that takes over all entries of
  the kernel's directory but 0x1fe, which points to the new directory itself; the kernel's
  direct map is the same in the new address space as in the kernel's own.
\<close>

theorem alloc_pgd_space:
  assumes "pgd_start s = PA2VA (frame_pa K)" "K < 1099511627776" "kernel_tables_held K s"
    and "alloc_pgd s = Inr (va, t)"
  shows "\<exists>f. va = PA2VA (frame_pa f) \<and> page_ref s f = 0 \<and> page_ref t = (page_ref s)(f := 1) \<and>
    (\<forall>i < 512. frame_word (ram t) f i =
       (if i = 0x1fe then frame_pa f OR ENTRY_P OR ENTRY_RW else frame_word (ram s) K i)) \<and>
    (\<forall>pa. unat pa < 134217728 \<longrightarrow>
       walk (ram t) (frame_pa f) (PA2VA pa) = walk (ram s) (frame_pa K) (PA2VA pa))"
proof -
  have sK: "small_frame K" using assms(2) by (simp add: small_frame_def)
  have held: "page_ref s K \<noteq> 0"
    by (rule kernel_tables_heldD [OF assms(3), where pa = 0 and p = "[]" and q = "path (PA2VA 0)"])
       (simp_all add: path_def)
  obtain f w r where f: "va = PA2VA (frame_pa f)" "f \<in> pool" "page_ref s f = 0"
    "t = s\<lparr>page_ref := (page_ref s)(f := 1), bitmap := w, ram := r\<rparr>"
    "\<And>g i. small_frame g \<Longrightarrow> i < 512 \<Longrightarrow> frame_word r g i =
       (if g = f then if i = 0x1fe then frame_pa f OR 1 OR 2 else frame_word (ram s) K i
        else frame_word (ram s) g i)"
    by (rule alloc_pgd_InrE [OF assms(4,1) sK held]) blast
  have sf: "small_frame f" "f < 1099511627776" using f(2) by (simp_all add: pool_small, simp add: pool_def)
  have root: "ent_frame (frame_pa K) = K" "ent_frame (frame_pa f) = f"
    using ent_frame_or [of K 0] ent_frame_or [of f 0] assms(2) sf by simp_all
  have "walk_frame r f (path (PA2VA pa)) = walk_frame (ram s) K (path (PA2VA pa))"
    if pa: "unat pa < 134217728" for pa
  proof -
    note P = path_PA2VA(1) [OF pa]
    let ?q = "[0x1fe, unat pa div 2097152, unat pa div 4096 mod 512]"
    have all: "i < 512" if "?q = p @ i # q" for p i q
    proof -
      have "i \<in> set ?q" using that by (metis in_set_conv_decomp)
      then show ?thesis using pa by (auto simp: less_mult_imp_div_less)
    qed
    have eq: "frame_word r f 0x1ff = frame_word (ram s) K 0x1ff" by (simp add: f(5) sf(1))
    show ?thesis
    proof (cases "present (frame_word (ram s) K 0x1ff)")
      case True
      let ?g = "ent_frame (frame_word (ram s) K 0x1ff)"
      have "walk_frame r ?g ?q = walk_frame (ram s) ?g ?q"
      proof (rule walk_frame_cong)
        fix p i q g assume pq: "?q = p @ i # q" "walk_frame (ram s) ?g p = Some g"
        then have k: "walk_frame (ram s) K (0x1ff # p) = Some g" using True by (simp add: Let_def)
        have "path (PA2VA pa) = (0x1ff # p) @ (i # q)" using P pq(1) by simp
        then have "page_ref s g \<noteq> 0"
          by (rule kernel_tables_heldD [OF assms(3) pa _ _ k]) simp
        then have "g \<noteq> f" using f(3) by auto
        then show "frame_word r g i = frame_word (ram s) g i"
          using f(5) [OF walk_frame_small [OF pq(2)] all [OF pq(1)]] by simp
      qed
      then show ?thesis using eq True by (simp add: P Let_def del: walk_frame.simps(2)) (simp add: Let_def)
    qed (simp add: eq P)
  qed
  then show ?thesis using f root sf by (intro exI [of _ f]) (auto simp: walk_def)
qed

text \<open>The state after boot: page tables from frame 545 on, all frames below 671 in use.\<close>

definition booted_example :: phymem where
  "booted_example = boot_example\<lparr>ram := initial_pgtables (frame_pa 545) (\<lambda>_. 0),
     page_ref := \<lambda>p. if p < 671 then 1 else 0, pgd_start := PA2VA (frame_pa 545)\<rparr>"

lemma booted_example_tables: "kernel_tables_held 545 booted_example"
  unfolding kernel_tables_held_def
proof (intro allI impI)
  fix pa :: u64 and p q g
  assume pa: "unat pa < 134217728" and pq: "path (PA2VA pa) = p @ q" "q \<noteq> []"
    and g: "walk_frame (ram booted_example) 545 p = Some g"
  let ?k = "unat pa div 2097152"
  have k: "?k < 64" using pa by (simp add: less_mult_imp_div_less)
  let ?r = "initial_pgtables (frame_pa 545) (\<lambda>_. 0)"
  have w: "walk_frame ?r 545 (0x1ff # is) = walk_frame ?r 546 is" "walk_frame ?r 546 (0x1fe # is) = walk_frame ?r 547 is"
    "walk_frame ?r 547 (?k # is) = walk_frame ?r (548 + ?k) is" for "is"
    using initial_walk(1-3) [of 545 ?k 0 "\<lambda>_. 0" "is"] k by (simp_all del: walk_frame.simps)
  have "p = [] \<or> p = [0x1ff] \<or> p = [0x1ff, 0x1fe] \<or> p = [0x1ff, 0x1fe, ?k]"
    using pq unfolding path_PA2VA(1) [OF pa] by (auto simp: append_eq_Cons_conv Cons_eq_append_conv)
  then have "g < 671" using g w k by (auto simp: booted_example_def simp del: walk_frame.simps(2))
  then show "page_ref booted_example g \<noteq> 0" by (simp add: booted_example_def)
qed

theorem alloc_pgd_space_witness:
  "\<exists>va t f. alloc_pgd booted_example = Inr (va, t) \<and> va = PA2VA (frame_pa f) \<and>
     frame_word (ram t) f 0x1fe = frame_pa f OR ENTRY_P OR ENTRY_RW"
proof -
  have "page_ref booted_example 671 = 0" by (simp add: booted_example_def)
  then obtain va' u where "get_zero_page booted_example = Inr (va', u)"
    using kzero.alloc_total [of 671 booted_example] by (auto simp: pool_def)
  then obtain va t where a: "alloc_pgd booted_example = Inr (va, t)"
    by (cases "va' = 0") (auto simp: alloc_pgd_def Let_def)
  have "pgd_start booted_example = PA2VA (frame_pa 545)" by (simp add: booted_example_def)
  from alloc_pgd_space [OF this _ booted_example_tables a] a show ?thesis by fastforce
qed

end
