(* ===== verification/HeapList.thy ===== *)
theory HeapList
  imports Plum_Prelude
begin

text \<open>
  Singly linked lists in a heap of nodes. The kernel keeps its tasks and its memory areas in
  such lists and walks them with the same three loops: up to the first node with a property,
  up to the last node, and up to the node in front of a given one. The loops may meet NULL, a
  pointer to nothing, or a cycle; a list of nodes that each fill one of the 32768 page frames
  has fewer than \<open>LIST_FUEL\<close> nodes, so a loop that uses up that bound is on a cycle.
\<close>

section \<open>Lists and the loops over them\<close>

abbreviation (input) LIST_FUEL :: nat where "LIST_FUEL \<equiv> 32768"

fun hseg :: "('n \<Rightarrow> u64) \<Rightarrow> (u64 \<rightharpoonup> 'n) \<Rightarrow> u64 \<Rightarrow> u64 list \<Rightarrow> u64 \<Rightarrow> bool" where
  "hseg nxt h p [] q \<longleftrightarrow> p = q"
| "hseg nxt h p (x # xs) q \<longleftrightarrow>
     p = x \<and> x \<noteq> 0 \<and> (case h x of None \<Rightarrow> False | Some n \<Rightarrow> hseg nxt h (nxt n) xs q)"

abbreviation hlist :: "('n \<Rightarrow> u64) \<Rightarrow> (u64 \<rightharpoonup> 'n) \<Rightarrow> u64 \<Rightarrow> u64 list \<Rightarrow> bool" where
  "hlist nxt h p xs \<equiv> hseg nxt h p xs 0"

text \<open>\<open>while (p != NULL && !P(p)) p = p->next;\<close>\<close>

fun hsearch :: "nat \<Rightarrow> ('n \<Rightarrow> u64) \<Rightarrow> ('n \<Rightarrow> bool) \<Rightarrow> (u64 \<rightharpoonup> 'n) \<Rightarrow> u64 \<Rightarrow> fault + u64" where
  "hsearch 0 nxt P h p = Inl Diverge"
| "hsearch (Suc k) nxt P h p =
     (if p = 0 then Inr 0
      else case h p of None \<Rightarrow> Inl Null_Deref
           | Some n \<Rightarrow> if P n then Inr p else hsearch k nxt P h (nxt n))"

text \<open>\<open>while (p->next != q) p = p->next;\<close>\<close>

fun hpred :: "nat \<Rightarrow> ('n \<Rightarrow> u64) \<Rightarrow> u64 \<Rightarrow> (u64 \<rightharpoonup> 'n) \<Rightarrow> u64 \<Rightarrow> fault + u64" where
  "hpred 0 nxt q h p = Inl Diverge"
| "hpred (Suc k) nxt q h p =
     (if p = 0 then Inl Null_Deref
      else case h p of None \<Rightarrow> Inl Null_Deref
           | Some n \<Rightarrow> if nxt n = q then Inr p else hpred k nxt q h (nxt n))"

section \<open>Segments\<close>

lemma hseg_append: "hseg nxt h p (xs @ ys) q \<longleftrightarrow> (\<exists>m. hseg nxt h p xs m \<and> hseg nxt h m ys q)"
  by (induction xs arbitrary: p) (auto split: option.splits)

lemma hseg_nodes: "hseg nxt h p xs q \<Longrightarrow> x \<in> set xs \<Longrightarrow> x \<noteq> 0 \<and> (\<exists>n. h x = Some n)"
  by (induction xs arbitrary: p) (auto split: option.splits)

lemma hlist_head: "hlist nxt h p xs \<Longrightarrow> p = (case xs of [] \<Rightarrow> 0 | x # _ \<Rightarrow> x)"
  by (cases xs) auto

lemma hlist_NULL [simp]: "hlist nxt h 0 xs \<longleftrightarrow> xs = []"
  by (cases xs) auto

lemma hlist_unique: "hlist nxt h p xs \<Longrightarrow> hlist nxt h p ys \<Longrightarrow> xs = ys"
proof (induction xs arbitrary: p ys)
  case (Cons x xs)
  then show ?case by (cases ys) (auto split: option.splits)
qed simp

lemma hlist_suffix:
  assumes "hlist nxt h p (as @ x # bs)"
  shows "hlist nxt h x (x # bs)"
proof -
  obtain m where m: "hlist nxt h m (x # bs)" using assms unfolding hseg_append by blast
  then have "m = x" by simp
  with m show ?thesis by simp
qed

lemma hlist_distinct: "hlist nxt h p xs \<Longrightarrow> distinct xs"
proof (rule ccontr)
  assume l: "hlist nxt h p xs" and "\<not> distinct xs"
  then obtain as bs cs y where xs: "xs = as @ y # bs @ y # cs"
    by (metis append_Cons append_Nil not_distinct_decomp append_assoc)
  have "hlist nxt h y (y # bs @ y # cs)" "hlist nxt h y (y # cs)"
    using l hlist_suffix [of nxt h p as y] hlist_suffix [of nxt h p "as @ y # bs" y] by (simp_all add: xs)
  then have "y # bs @ y # cs = y # cs" by (rule hlist_unique)
  then show False by simp
qed

lemma hseg_upd [simp]: "x \<notin> set xs \<Longrightarrow> hseg nxt (h(x := v)) p xs q = hseg nxt h p xs q"
  by (induction xs arbitrary: p) (auto split: option.splits)

section \<open>What the loops find\<close>

lemma hsearch_hlist:
  assumes "hlist nxt h p xs" "length xs < k"
  shows "hsearch k nxt P h p = Inr (case List.find (\<lambda>x. P (the (h x))) xs of None \<Rightarrow> 0 | Some x \<Rightarrow> x)"
  using assms
proof (induction xs arbitrary: p k)
  case Nil
  then show ?case by (cases k) auto
next
  case (Cons x xs)
  then obtain k' n where "k = Suc k'" "h x = Some n" "p = x" "x \<noteq> 0" "hlist nxt h (nxt n) xs"
    by (cases k) (auto split: option.splits)
  with Cons show ?case by auto
qed

lemma hpred_found:
  assumes "hlist nxt h p (as @ x # y # bs)" "length as < k"
  shows "hpred k nxt y h p = Inr x"
  using assms
proof (induction as arbitrary: p k)
  case Nil
  then show ?case by (cases k) (auto split: option.splits)
next
  case (Cons a as)
  then obtain k' n where k: "k = Suc k'" "h a = Some n" "p = a" "a \<noteq> 0" "hlist nxt h (nxt n) (as @ x # y # bs)"
    by (cases k) (auto split: option.splits)
  have "y \<notin> set (as @ [x])" using hlist_distinct [OF k(5)] by auto
  moreover have "nxt n = hd (as @ [x])" using hlist_head [OF k(5)] by (cases as) auto
  ultimately have "nxt n \<noteq> y" by (cases as) auto
  with Cons k show ?case by auto
qed

lemma hpred_missing:
  assumes "hlist nxt h p xs" "length xs < k" "q \<notin> set xs" "q \<noteq> 0"
  shows "hpred k nxt q h p = Inl Null_Deref"
  using assms
proof (induction xs arbitrary: p k)
  case Nil
  then show ?case by (cases k) auto
next
  case (Cons x xs)
  then obtain k' n where k: "k = Suc k'" "h x = Some n" "p = x" "x \<noteq> 0" "hlist nxt h (nxt n) xs"
    by (cases k) (auto split: option.splits)
  have "nxt n \<noteq> q" using hlist_head [OF k(5)] Cons.prems by (cases xs) auto
  with Cons k show ?case by auto
qed

lemma hpred_last:
  assumes "hlist nxt h p (as @ [x])" "length as < k"
  shows "hpred k nxt 0 h p = Inr x"
  using assms
proof (induction as arbitrary: p k)
  case Nil
  then show ?case by (cases k) (auto split: option.splits)
next
  case (Cons a as)
  then obtain k' n where k: "k = Suc k'" "h a = Some n" "p = a" "a \<noteq> 0" "hlist nxt h (nxt n) (as @ [x])"
    by (cases k) (auto split: option.splits)
  have "nxt n \<noteq> 0" using k(5) by (cases as) auto
  with Cons k show ?case by auto
qed

section \<open>Changing the links\<close>

text \<open>
  A node type with a link field: \<open>set_next v n\<close> is \<open>n\<close> with the link \<open>v\<close>. The laws say what
  assigning to the field does; the lemmas are the three changes the kernel makes to a list.
\<close>

locale linked_nodes =
  fixes nxt :: "'n \<Rightarrow> u64" and set_next :: "u64 \<Rightarrow> 'n \<Rightarrow> 'n"
  assumes next_set: "nxt (set_next v n) = v"
begin

lemma push_front:
  assumes "hlist nxt h p xs" "x \<noteq> 0" "x \<notin> set xs"
  shows "hlist nxt (h(x \<mapsto> set_next p n)) x (x # xs)"
  using assms by (simp add: next_set)

lemma unlink:
  assumes "hlist nxt h p (as @ x # y # bs)" "h x = Some m" "h y = Some n"
  shows "hlist nxt (h(x \<mapsto> set_next (nxt n) m)) p (as @ x # bs)"
proof -
  have d: "distinct (as @ x # y # bs)" using assms(1) by (rule hlist_distinct)
  obtain q where q: "hseg nxt h p as q" "hlist nxt h q (x # y # bs)"
    using assms(1) unfolding hseg_append by blast
  then have "q = x" "x \<noteq> 0" "hlist nxt h (nxt n) bs" using assms(2,3) by simp_all
  then have "hlist nxt (h(x \<mapsto> set_next (nxt n) m)) x (x # bs)"
    using d by (simp add: next_set)
  moreover have "hseg nxt (h(x \<mapsto> set_next (nxt n) m)) p as x"
    using q(1) \<open>q = x\<close> d by simp
  ultimately show ?thesis unfolding hseg_append by blast
qed

lemma append_last:
  assumes "hlist nxt h p (as @ [x])" "h x = Some m" "y \<noteq> 0" "y \<notin> set (as @ [x])"
  shows "hlist nxt (h(x \<mapsto> set_next y m, y \<mapsto> set_next 0 n)) p (as @ [x, y])"
proof -
  have d: "distinct (as @ [x])" using assms(1) by (rule hlist_distinct)
  obtain q where q: "hseg nxt h p as q" "hlist nxt h q [x]"
    using assms(1) unfolding hseg_append by blast
  then have "q = x" "x \<noteq> 0" by auto
  then have "hlist nxt (h(x \<mapsto> set_next y m, y \<mapsto> set_next 0 n)) x [x, y]"
    using assms(3,4) by (auto simp: next_set)
  moreover have "hseg nxt (h(x \<mapsto> set_next y m, y \<mapsto> set_next 0 n)) p as x"
    using q(1) \<open>q = x\<close> d assms(4) by simp
  ultimately show ?thesis unfolding hseg_append by blast
qed

end

end
