(* ===== verification/Objects.thy ===== *)
theory Objects
  imports Paging HeapList
begin

text \<open>
  The kernel's own objects: open files (include/sys/tarfs.h), memory areas and address spaces
  (include/sys/mm.h), tasks (include/sys/proc.h), and the global variables of
  src/sys/process.c and src/sys/kbd.c. Each kind of object has its own heap, from kernel
  addresses to records; an object comes into being, zero-filled, when a page from
  \<open>get_zero_page\<close> is first used as one. Reading through NULL or an address that holds no such
  object is a fault.
\<close>

section \<open>Records\<close>

record tarfs_file =
  f_mode :: string        \<comment> \<open>\<open>char mode[16]\<close>\<close>
  f_name :: string        \<comment> \<open>\<open>char name[FILE_NAME_SIZE]\<close>\<close>
  f_free :: u32
  f_type :: u32
  f_start_addr :: u64
  f_size :: u64
  f_pos :: u64

record vma_struct =
  vma_next :: u64
  vm_start :: u64
  vm_end :: u64
  vm_prot :: u64
  vm_pgoff :: u64
  vm_filesz :: u64
  vm_align :: u64
  vm_file :: "(u64 \<times> nat) option"   \<comment> \<open>\<open>&task->file_array[fd]\<close>\<close>

record mm_struct =
  mm_mmap :: u64
  mm_entry :: u64
  mm_pgd :: u64
  code_start :: u64
  code_end :: u64
  data_start :: u64
  data_end :: u64
  user_heap :: u64
  mm_brk :: u64
  mm_count :: u32

text \<open>\<open>TASK_STATE\<close>; the state of a zero-filled task is none of the four.\<close>

datatype task_state = NO_STATE | RUNNING | ACTIVE | SLEEP | ZOMBIE

record task_struct =
  t_prev :: u64
  t_next :: u64
  t_last :: u64
  kernel_stack :: u64
  user_stack :: u64
  file_array :: "tarfs_file list"   \<comment> \<open>\<open>MAX_FILE_NUM\<close> entries\<close>
  t_mm :: u64
  pid :: u32
  ppid :: u32
  t_name :: string                  \<comment> \<open>\<open>char name[NAME_SIZE]\<close>\<close>
  t_cwd :: string                   \<comment> \<open>\<open>char cwd[NAME_SIZE]\<close>\<close>
  waited :: u32
  orphan :: u32
  exit_status :: u32
  sigterm :: u32
  timeslice :: u32
  t_state :: task_state
  sleep_time :: u32
  t_func :: u64

record kernel = phymem +
  vma_heap :: "u64 \<rightharpoonup> vma_struct"
  mm_heap :: "u64 \<rightharpoonup> mm_struct"
  task_heap :: "u64 \<rightharpoonup> task_struct"
  task_headp :: u64
  current :: u64
  clear_zombie :: u64
  sleep_task_list :: u64
  wait_stdin_list :: u64
  zombie_list :: u64
  zombie_count :: u32
  pid_count :: u32
  rsp0 :: u64                       \<comment> \<open>\<open>tss.rsp0\<close>\<close>
  stdin_buf :: u64                  \<comment> \<open>src/sys/kbd.c\<close>
  stdin_buf_state :: u32
  normal_key_pressed :: u8
  special_key_pressed :: u8
  tarfs_start :: u64                \<comment> \<open>\<open>&_binary_tarfs_start\<close>, \<open>&_binary_tarfs_end\<close>\<close>
  tarfs_end :: u64
  ticks :: u64                      \<comment> \<open>src/sys/timer.c: \<open>ticks\<close> and the displayed time\<close>
  sec :: int
  minute :: int
  hour :: int

abbreviation (input) MAX_FILE_NUM :: nat where "MAX_FILE_NUM \<equiv> 20"
abbreviation (input) NAME_SIZE :: nat where "NAME_SIZE \<equiv> 64"
abbreviation (input) FILE_NAME_SIZE :: nat where "FILE_NAME_SIZE \<equiv> 128"
abbreviation (input) START_FD :: nat where "START_FD \<equiv> 3"
abbreviation (input) FT_DIR :: u32 where "FT_DIR \<equiv> 0"
abbreviation (input) FT_FILE :: u32 where "FT_FILE \<equiv> 1"

section \<open>Zero-filled objects\<close>

definition zero_file :: tarfs_file where
  "zero_file = \<lparr>f_mode = replicate 16 NUL, f_name = replicate FILE_NAME_SIZE NUL, f_free = 0, f_type = 0,
     f_start_addr = 0, f_size = 0, f_pos = 0\<rparr>"

definition zero_vma :: vma_struct where
  "zero_vma = \<lparr>vma_next = 0, vm_start = 0, vm_end = 0, vm_prot = 0, vm_pgoff = 0, vm_filesz = 0,
     vm_align = 0, vm_file = None\<rparr>"

definition zero_mm :: mm_struct where
  "zero_mm = \<lparr>mm_mmap = 0, mm_entry = 0, mm_pgd = 0, code_start = 0, code_end = 0, data_start = 0,
     data_end = 0, user_heap = 0, mm_brk = 0, mm_count = 0\<rparr>"

definition zero_task :: task_struct where
  "zero_task = \<lparr>t_prev = 0, t_next = 0, t_last = 0, kernel_stack = 0, user_stack = 0,
     file_array = replicate MAX_FILE_NUM zero_file, t_mm = 0, pid = 0, ppid = 0,
     t_name = replicate NAME_SIZE NUL, t_cwd = replicate NAME_SIZE NUL, waited = 0, orphan = 0,
     exit_status = 0, sigterm = 0, timeslice = 0, t_state = NO_STATE, sleep_time = 0, t_func = 0\<rparr>"

section \<open>Access\<close>

definition deref :: "(u64 \<rightharpoonup> 'n) \<Rightarrow> u64 \<Rightarrow> fault + 'n" where
  "deref h p = (if p = 0 then Inl Null_Deref else case h p of None \<Rightarrow> Inl Null_Deref | Some n \<Rightarrow> Inr n)"

definition upd_vma :: "u64 \<Rightarrow> (vma_struct \<Rightarrow> vma_struct) \<Rightarrow> 'a kernel_scheme \<Rightarrow> fault + 'a kernel_scheme" where
  "upd_vma p f s = rbind (deref (vma_heap s) p) (\<lambda>n. Inr (s\<lparr>vma_heap := (vma_heap s)(p \<mapsto> f n)\<rparr>))"

definition upd_mm :: "u64 \<Rightarrow> (mm_struct \<Rightarrow> mm_struct) \<Rightarrow> 'a kernel_scheme \<Rightarrow> fault + 'a kernel_scheme" where
  "upd_mm p f s = rbind (deref (mm_heap s) p) (\<lambda>n. Inr (s\<lparr>mm_heap := (mm_heap s)(p \<mapsto> f n)\<rparr>))"

definition upd_task :: "u64 \<Rightarrow> (task_struct \<Rightarrow> task_struct) \<Rightarrow> 'a kernel_scheme \<Rightarrow> fault + 'a kernel_scheme" where
  "upd_task p f s = rbind (deref (task_heap s) p) (\<lambda>n. Inr (s\<lparr>task_heap := (task_heap s)(p \<mapsto> f n)\<rparr>))"

lemma deref_eq_Inr [simp]: "deref h p = Inr n \<longleftrightarrow> p \<noteq> 0 \<and> h p = Some n"
  by (auto simp: deref_def split: option.splits)

lemma deref_Some [simp]: "p \<noteq> 0 \<Longrightarrow> h p = Some n \<Longrightarrow> deref h p = Inr n"
  by simp

lemma upd_task_Inr: "upd_task p f s = Inr t \<longleftrightarrow>
    (\<exists>n. p \<noteq> 0 \<and> task_heap s p = Some n \<and> t = s\<lparr>task_heap := (task_heap s)(p \<mapsto> f n)\<rparr>)"
  by (auto simp: upd_task_def rbind_eq_Inr)

lemma upd_vma_Inr: "upd_vma p f s = Inr t \<longleftrightarrow>
    (\<exists>n. p \<noteq> 0 \<and> vma_heap s p = Some n \<and> t = s\<lparr>vma_heap := (vma_heap s)(p \<mapsto> f n)\<rparr>)"
  by (auto simp: upd_vma_def rbind_eq_Inr)

lemma upd_mm_Inr: "upd_mm p f s = Inr t \<longleftrightarrow>
    (\<exists>n. p \<noteq> 0 \<and> mm_heap s p = Some n \<and> t = s\<lparr>mm_heap := (mm_heap s)(p \<mapsto> f n)\<rparr>)"
  by (auto simp: upd_mm_def rbind_eq_Inr)

section \<open>Printing leaves the objects alone\<close>

lemma print_text_kernel [simp, frame_simps]:
  "vma_heap (print_text t s) = vma_heap s"
  "mm_heap (print_text t s) = mm_heap s"
  "task_heap (print_text t s) = task_heap s"
  "task_headp (print_text t s) = task_headp s"
  "current (print_text t s) = current s"
  "clear_zombie (print_text t s) = clear_zombie s"
  "sleep_task_list (print_text t s) = sleep_task_list s"
  "wait_stdin_list (print_text t s) = wait_stdin_list s"
  "zombie_list (print_text t s) = zombie_list s"
  "zombie_count (print_text t s) = zombie_count s"
  "pid_count (print_text t s) = pid_count s"
  "rsp0 (print_text t s) = rsp0 s"
  "stdin_buf (print_text t s) = stdin_buf s"
  "stdin_buf_state (print_text t s) = stdin_buf_state s"
  "normal_key_pressed (print_text t s) = normal_key_pressed s"
  "special_key_pressed (print_text t s) = special_key_pressed s"
  "tarfs_start (print_text t s) = tarfs_start s"
  "tarfs_end (print_text t s) = tarfs_end s"
  "ticks (print_text t s) = ticks s"
  "sec (print_text t s) = sec s"
  "minute (print_text t s) = minute s"
  "hour (print_text t s) = hour s"
  by (rule print_textE [of t s], simp)+

section \<open>The links of the lists\<close>

interpretation task_links: linked_nodes t_next "\<lambda>v. t_next_update (\<lambda>_. v)"
  by unfold_locales simp

interpretation vma_links: linked_nodes vma_next "\<lambda>v. vma_next_update (\<lambda>_. v)"
  by unfold_locales simp

section \<open>An example state\<close>

text \<open>
  One task (address 0x1000) with an address space (0x2000) whose page directory is the empty
  frame 671 and which has one anonymous area (0x3000).
\<close>

definition kernel_example :: kernel where
  "kernel_example = \<lparr>screen_buffer = \<lambda>_. NUL, cursor_row = 0, cursor_col = 0, stdin_buf_size = 0,
     pmb_array = [], pmb_count = 0, physbase = 0x200000, physfree = 0x220000, loaderbase = 0, loaderend = 0x9FC00,
     pgd_start = PA2VA (frame_pa 545), pgtable_end = 0, bitmap_ptr = 0, bitmap_end = 0,
     page_array_ptr = PA2VA (frame_pa 612), page_array_end = PA2VA (frame_pa 644),
     bitmap = \<lambda>_. 0, page_ref = \<lambda>p. if p \<le> 671 then 1 else 0, ram = \<lambda>_. 0, cr3 = frame_pa 671,
     vma_heap = [0x3000 \<mapsto> zero_vma\<lparr>vm_start := 0x600000, vm_end := 0x700000, vm_prot := ENTRY_RW\<rparr>],
     mm_heap = [0x2000 \<mapsto> zero_mm\<lparr>mm_mmap := 0x3000, mm_pgd := PA2VA (frame_pa 671)\<rparr>],
     task_heap = [0x1000 \<mapsto> zero_task\<lparr>t_mm := 0x2000, pid := 1, t_state := ACTIVE\<rparr>],
     task_headp = 0x1000, current = 0x1000, clear_zombie = 0, sleep_task_list = 0, wait_stdin_list = 0,
     zombie_list = 0, zombie_count = 0, pid_count = 2, rsp0 = 0, stdin_buf = 0, stdin_buf_state = 0,
     normal_key_pressed = 0, special_key_pressed = 0, tarfs_start = 0, tarfs_end = 0,
     ticks = 0, sec = 0, minute = 0, hour = 0\<rparr>"

end
