(* ===== verification/Vm.thy ===== *)
theory Vm
  imports Objects
begin

text \<open>
  Virtual memory of processes: the second half of src/sys/mm.c (\<open>map_vma\<close>, \<open>map_a_page\<close>,
  \<open>search_vma\<close>, \<open>insert_vma\<close>, \<open>free_vma\<close>, \<open>unmap_mm\<close>, \<open>switch_mm\<close>, \<open>flush_tlb\<close>) and the copying of
  an address space in src/sys/syscall.c (\<open>copy_vma\<close>, \<open>copy_vma_deep\<close>, \<open>copy_mm\<close>).

  Accesses to user addresses go through the page tables CR3 points to; an address they do not
  map is a page fault in kernel mode, on which the kernel panics.
\<close>

section \<open>Access through the page tables\<close>

definition vload8 :: "u64 \<Rightarrow> 'a phymem_scheme \<Rightarrow> fault + u8" where
  "vload8 va s = (case walk (ram s) (cr3 s) va of None \<Rightarrow> Inl (Page_Fault va) | Some pa \<Rightarrow> Inr (load8 (ram s) pa))"

definition vstore8 :: "u64 \<Rightarrow> u8 \<Rightarrow> 'a phymem_scheme \<Rightarrow> fault + 'a phymem_scheme" where
  "vstore8 va b s = (case walk (ram s) (cr3 s) va of None \<Rightarrow> Inl (Page_Fault va)
     | Some pa \<Rightarrow> Inr (s\<lparr>ram := store8 pa b (ram s)\<rparr>))"

definition vload64 :: "u64 \<Rightarrow> 'a phymem_scheme \<Rightarrow> fault + u64" where
  "vload64 va s = (case walk (ram s) (cr3 s) va of None \<Rightarrow> Inl (Page_Fault va) | Some pa \<Rightarrow> Inr (load64 (ram s) pa))"

definition vstore64 :: "u64 \<Rightarrow> u64 \<Rightarrow> 'a phymem_scheme \<Rightarrow> fault + 'a phymem_scheme" where
  "vstore64 va v s = (case walk (ram s) (cr3 s) va of None \<Rightarrow> Inl (Page_Fault va)
     | Some pa \<Rightarrow> Inr (s\<lparr>ram := store64 pa v (ram s)\<rparr>))"

text \<open>\<open>for (i = 0; i < n; i++) *(usrp + i) = *(fp + i);\<close> with \<open>fp\<close> in the direct map.\<close>

definition copy_to_user :: "u64 \<Rightarrow> u64 \<Rightarrow> nat \<Rightarrow> 'a phymem_scheme \<Rightarrow> fault + 'a phymem_scheme" where
  "copy_to_user usrp fp n s =
     rfold (\<lambda>i s. vstore8 (usrp + of_nat i) (load8 (ram s) (VA2PA (fp + of_nat i))) s) [0..<n] s"

section \<open>Page tables of a process\<close>

text \<open>The page a table entry points to, as a kernel address: \<open>PA2VA(entry) & ~(PG_SIZE - 1)\<close>.\<close>

definition entry_page :: "u64 \<Rightarrow> u64" where
  "entry_page e = PA2VA e AND PG_MASK"

text \<open>Entry \<open>off\<close> of table \<open>t\<close>, with a zeroed page put there if there is none.\<close>

definition ensure_table :: "string \<Rightarrow> u64 \<Rightarrow> nat \<Rightarrow> 'a phymem_scheme \<Rightarrow> fault + u64 \<times> 'a phymem_scheme" where
  "ensure_table msg t off s =
     (if get_entry t off (ram s) = 0 then
        rbind (get_zero_page s) (\<lambda>(p, s).
        if p = 0 then Inl (Panic msg)
        else Inr (p, s\<lparr>ram := put_entry_va t off p (ENTRY_P OR ENTRY_RW OR ENTRY_US) (ram s)\<rparr>))
      else Inr (entry_page (get_entry t off (ram s)), s))"

definition map_tables :: "u64 \<Rightarrow> u64 \<Rightarrow> 'a phymem_scheme \<Rightarrow> fault + u64 \<times> 'a phymem_scheme" where
  "map_tables pgd pfn s =
     rbind (ensure_table ''[map_vma]ERROR: alloc pud error!'' pgd (get_pgd_off pfn) s) (\<lambda>(pud, s).
     rbind (ensure_table ''[map_vma]ERROR: alloc pmd error!'' pud (get_pud_off pfn) s) (\<lambda>(pmd, s).
     ensure_table ''[map_vma]ERROR: alloc pte error!'' pmd (get_pmd_off pfn) s))"

definition map_frame :: "u64 \<Rightarrow> u64 \<Rightarrow> 'a phymem_scheme \<Rightarrow> fault + 'a phymem_scheme" where
  "map_frame pgd pfn s =
     rbind (map_tables pgd pfn s) (\<lambda>(pte, s).
     rbind (ensure_table ''[map_vma]ERROR: alloc page frame error!'' pte (get_pte_off pfn) s) (\<lambda>(_, s).
     Inr s))"

text \<open>The last loop of \<open>map_vma\<close>: the protection of a mapped page.\<close>

definition set_page_prot :: "u64 \<Rightarrow> u64 \<Rightarrow> u64 \<Rightarrow> 'a phymem_scheme \<Rightarrow> 'a phymem_scheme" where
  "set_page_prot pgd prot pfn s =
     (let pud = entry_page (get_entry pgd (get_pgd_off pfn) (ram s));
          pmd = entry_page (get_entry pud (get_pud_off pfn) (ram s));
          pte = entry_page (get_entry pmd (get_pmd_off pfn) (ram s));
          pg_frame = entry_page (get_entry pte (get_pte_off pfn) (ram s))
      in s\<lparr>ram := put_entry_va pte (get_pte_off pfn) pg_frame (ENTRY_P OR prot OR ENTRY_US) (ram s)\<rparr>)"

definition vma_file :: "u64 \<times> nat \<Rightarrow> 'a kernel_scheme \<Rightarrow> fault + tarfs_file" where
  "vma_file tf s = rbind (deref (task_heap s) (fst tf)) (\<lambda>t.
     if snd tf < length (file_array t) then Inr (file_array t ! snd tf) else Inl Out_Of_Bounds)"

definition map_vma :: "u64 \<Rightarrow> u64 \<Rightarrow> 'a kernel_scheme \<Rightarrow> fault + 'a kernel_scheme" where
  "map_vma vma pgd s =
     rbind (deref (vma_heap s) vma) (\<lambda>v.
     let pfn_start = drop_bit 12 (vm_start v);
         pfn_end = drop_bit 12 (vm_end v - 1);
         pfns = map of_nat [unat pfn_start..<Suc (unat pfn_end)] in
     rbind (rfold (map_frame pgd) pfns s) (\<lambda>s.
     case vm_file v of
       None \<Rightarrow> Inr s
     | Some tf \<Rightarrow>
         rbind (vma_file tf s) (\<lambda>f.
         rbind (copy_to_user (vm_start v) (f_start_addr f + vm_pgoff v) (unat (vm_filesz v)) s) (\<lambda>s.
         Inr (fold (set_page_prot pgd (vm_prot v)) pfns s)))))"

section \<open>Memory areas\<close>

definition search_vma :: "u64 \<Rightarrow> u64 \<Rightarrow> 'a kernel_scheme \<Rightarrow> fault + u64" where
  "search_vma addr mm s =
     rbind (deref (mm_heap s) mm) (\<lambda>m.
     hsearch LIST_FUEL vma_next (\<lambda>v. vm_start v \<le> addr \<and> vm_end v > addr) (vma_heap s) (mm_mmap m))"

definition insert_vma :: "u64 \<Rightarrow> u64 \<Rightarrow> 'a kernel_scheme \<Rightarrow> fault + 'a kernel_scheme" where
  "insert_vma vma mm s =
     rbind (deref (mm_heap s) mm) (\<lambda>m.
     if mm_mmap m = 0 then upd_mm mm (\<lambda>m. m\<lparr>mm_mmap := vma\<rparr>) s
     else rbind (hpred LIST_FUEL vma_next 0 (vma_heap s) (mm_mmap m)) (\<lambda>vmap.
          rbind (upd_vma vmap (\<lambda>v. v\<lparr>vma_next := vma\<rparr>) s) (\<lambda>s.
          upd_vma vma (\<lambda>v. v\<lparr>vma_next := 0\<rparr>) s)))"

definition current_mm :: "'a kernel_scheme \<Rightarrow> fault + mm_struct" where
  "current_mm s = rbind (deref (task_heap s) (current s)) (\<lambda>t. deref (mm_heap s) (t_mm t))"

definition map_a_page :: "u64 \<Rightarrow> u64 \<Rightarrow> 'a kernel_scheme \<Rightarrow> fault + 'a kernel_scheme" where
  "map_a_page vma addr s =
     rbind (current_mm s) (\<lambda>m.
     rbind (deref (vma_heap s) vma) (\<lambda>v.
     let pgd = mm_pgd m; pfn = drop_bit 12 addr in
     rbind (map_tables pgd pfn s) (\<lambda>(pte, s).
     if get_entry pte (get_pte_off pfn) (ram s) \<noteq> 0 then Inr s
     else
       rbind (ensure_table ''[map_vma]ERROR: alloc page frame error!'' pte (get_pte_off pfn) s) (\<lambda>(_, s).
       case vm_file v of
         None \<Rightarrow> Inr s
       | Some tf \<Rightarrow>
           rbind (vma_file tf s) (\<lambda>f.
           let vm_inner_off = push_bit 12 pfn - vm_start v in
           rbind (copy_to_user (push_bit 12 pfn) (f_start_addr f + vm_pgoff v + vm_inner_off) 4096 s) (\<lambda>s.
           Inr (set_page_prot pgd (vm_prot v) pfn s)))))))"

section \<open>Switching address spaces\<close>

definition flush_tlb :: "'a kernel_scheme \<Rightarrow> fault + 'a kernel_scheme" where
  "flush_tlb s = rbind (current_mm s) (\<lambda>m. Inr (s\<lparr>cr3 := VA2PA (mm_pgd m)\<rparr>))"

definition switch_mm :: "u64 \<Rightarrow> u64 \<Rightarrow> 'a kernel_scheme \<Rightarrow> fault + 'a kernel_scheme" where
  "switch_mm prev nxt s =
     rbind (deref (task_heap s) nxt) (\<lambda>t.
     if t_mm t = 0 then Inr s
     else rbind (deref (mm_heap s) (t_mm t)) (\<lambda>m.
       if mm_pgd m = 0 then Inr s
       else if prev \<noteq> nxt then Inr (s\<lparr>cr3 := VA2PA (mm_pgd m)\<rparr>) else Inr s))"

section \<open>Tearing down an address space\<close>

datatype table_level = PG_FRAME | PTE | PMD | PUD

text \<open>The number of address bits below one entry of the level.\<close>

fun level_shift :: "table_level \<Rightarrow> nat" where
  "level_shift PG_FRAME = 12"
| "level_shift PTE = 21"
| "level_shift PMD = 30"
| "level_shift PUD = 39"

fun level_entry_addr :: "table_level \<Rightarrow> u64 \<Rightarrow> u64" where
  "level_entry_addr PG_FRAME a = get_pte_entry_addr_trick a"
| "level_entry_addr PTE a = get_pmd_entry_addr_trick a"
| "level_entry_addr PMD a = get_pud_entry_addr_trick a"
| "level_entry_addr PUD a = get_pgd_entry_addr_trick a"

text \<open>In the case \<open>PG_FRAME\<close> the loop counter is incremented twice per round.\<close>

fun level_step :: "table_level \<Rightarrow> nat" where
  "level_step PG_FRAME = 2"
| "level_step PTE = 1"
| "level_step PMD = 1"
| "level_step PUD = 1"

definition free_entry :: "table_level \<Rightarrow> nat \<Rightarrow> 'a phymem_scheme \<Rightarrow> fault + 'a phymem_scheme" where
  "free_entry tag i s =
     (let pg_frame = level_entry_addr tag (push_bit (level_shift tag) (of_nat i)) in
      rbind (vload64 pg_frame s) (\<lambda>e.
      if e \<noteq> 0 then rbind (free_page (drop_bit 12 e) s) (vstore64 pg_frame 0) else Inr s))"

definition free_vma :: "u64 \<Rightarrow> table_level \<Rightarrow> 'a kernel_scheme \<Rightarrow> fault + 'a kernel_scheme" where
  "free_vma vmap tag s =
     rbind (deref (vma_heap s) vmap) (\<lambda>v.
     let pfn_start = unat (drop_bit (level_shift tag) (vm_start v));
         pfn_end = unat (drop_bit (level_shift tag) (vm_end v - 1)) in
     rfold (free_entry tag)
       (filter (\<lambda>i. level_step tag dvd (i - pfn_start)) [pfn_start..<Suc pfn_end]) s)"

text \<open>\<open>while (vmap != NULL) { body(vmap); vmap = vmap->next; }\<close>\<close>

fun over_vmas :: "nat \<Rightarrow> (u64 \<Rightarrow> 'a kernel_scheme \<Rightarrow> fault + 'a kernel_scheme) \<Rightarrow> u64 \<Rightarrow>
    'a kernel_scheme \<Rightarrow> fault + 'a kernel_scheme" where
  "over_vmas 0 body vmap s = Inl Diverge"
| "over_vmas (Suc k) body vmap s =
     (if vmap = 0 then Inr s
      else rbind (body vmap s) (\<lambda>s.
           rbind (deref (vma_heap s) vmap) (\<lambda>v. over_vmas k body (vma_next v) s)))"

definition frame_no :: "u64 \<Rightarrow> u64" where
  "frame_no va = drop_bit 12 (VA2PA va)"

definition unmap_mm :: "u64 \<Rightarrow> 'a kernel_scheme \<Rightarrow> fault + 'a kernel_scheme" where
  "unmap_mm tsp s =
     rbind (deref (task_heap s) tsp) (\<lambda>t.
     if t_mm t = 0 then Inr s
     else
       rbind (deref (mm_heap s) (t_mm t)) (\<lambda>m.
       rbind (rfold (\<lambda>tag. over_vmas LIST_FUEL (\<lambda>v. free_vma v tag) (mm_mmap m)) [PG_FRAME, PTE, PMD, PUD] s) (\<lambda>s.
       rbind (over_vmas LIST_FUEL (\<lambda>v. free_page (frame_no v)) (mm_mmap m) s) (\<lambda>s.
       rbind (free_page (frame_no (mm_pgd m)) s) (\<lambda>s.
       rbind (free_page (frame_no (t_mm t)) s) (\<lambda>s.
       rbind (upd_task tsp (\<lambda>t. t\<lparr>t_mm := 0\<rparr>) s) flush_tlb))))))"

section \<open>Copying an address space\<close>

definition copy_vma :: "vma_struct \<Rightarrow> vma_struct \<Rightarrow> vma_struct" where
  "copy_vma new old = new\<lparr>vm_start := vm_start old, vm_end := vm_end old, vm_prot := vm_prot old,
     vm_pgoff := vm_pgoff old, vm_filesz := vm_filesz old, vm_file := vm_file old\<rparr>"

text \<open>
  One level of \<open>copy_vma_deep\<close>: nothing to do where the old table has no entry, otherwise go on
  with the page of the old entry and that of the new one.
\<close>

definition copy_level :: "string \<Rightarrow> nat \<Rightarrow> u64 \<Rightarrow> u64 \<Rightarrow>
    (u64 \<Rightarrow> u64 \<Rightarrow> 'a phymem_scheme \<Rightarrow> fault + 'a phymem_scheme) \<Rightarrow> 'a phymem_scheme \<Rightarrow> fault + 'a phymem_scheme" where
  "copy_level msg off old new rest s =
     (if get_entry old off (ram s) = 0 then Inr s
      else rbind (ensure_table msg new off s) (\<lambda>(n, s'). rest (entry_page (get_entry old off (ram s))) n s'))"

definition share_page :: "u64 \<Rightarrow> nat \<Rightarrow> u64 \<Rightarrow> u64 \<Rightarrow> 'a phymem_scheme \<Rightarrow> fault + 'a phymem_scheme" where
  "share_page prot off pte npte s =
     (if get_entry pte off (ram s) = 0 then Inr s
      else
        let pg_frame = entry_page (get_entry pte off (ram s));
            s = (if prot AND ENTRY_RW \<noteq> 0
                 then s\<lparr>ram := put_entry_va npte off pg_frame (ENTRY_P OR PTE_COW OR ENTRY_US)
                        (put_entry_va pte off pg_frame (ENTRY_P OR PTE_COW OR ENTRY_US) (ram s))\<rparr>
                 else s\<lparr>ram := put_entry_va npte off pg_frame (ENTRY_P OR ENTRY_US) (ram s)\<rparr>)
        in add_page_ref (frame_no pg_frame) s)"

definition copy_page_entry :: "u64 \<Rightarrow> u64 \<Rightarrow> u64 \<Rightarrow> u64 \<Rightarrow> 'a phymem_scheme \<Rightarrow> fault + 'a phymem_scheme" where
  "copy_page_entry prot new_pgd old_pgd pfn s =
     copy_level ''[copy_vma_deep]ERROR: alloc npud error!'' (get_pgd_off pfn) old_pgd new_pgd (\<lambda>pud npud.
     copy_level ''[map_vma]ERROR: alloc npmd error!'' (get_pud_off pfn) pud npud (\<lambda>pmd npmd.
     copy_level ''[map_vma_deep]ERROR: alloc npte error!'' (get_pmd_off pfn) pmd npmd (\<lambda>pte npte.
     share_page prot (get_pte_off pfn) pte npte))) s"

definition copy_vma_deep :: "u64 \<Rightarrow> u64 \<Rightarrow> u64 \<Rightarrow> 'a kernel_scheme \<Rightarrow> fault + 'a kernel_scheme" where
  "copy_vma_deep new_pgd old_vmap old_pgd s =
     rbind (deref (vma_heap s) old_vmap) (\<lambda>v.
     let pfn_start = drop_bit 12 (vm_start v);
         pfn_end = drop_bit 12 (vm_end v - 1) in
     rfold (copy_page_entry (vm_prot v) new_pgd old_pgd)
       (map of_nat [unat pfn_start..<Suc (unat pfn_end)]) s)"

definition alloc_vma :: "string \<Rightarrow> 'a kernel_scheme \<Rightarrow> fault + u64 \<times> 'a kernel_scheme" where
  "alloc_vma msg s =
     rbind (get_zero_page s) (\<lambda>(p, s).
     if p = 0 then Inl (Panic msg) else Inr (p, s\<lparr>vma_heap := (vma_heap s)(p \<mapsto> zero_vma)\<rparr>))"

definition copy_mm :: "u64 \<Rightarrow> u64 \<Rightarrow> 'a kernel_scheme \<Rightarrow> fault + 'a kernel_scheme" where
  "copy_mm new old s =
     rbind (deref (mm_heap s) old) (\<lambda>om.
     rbind (deref (mm_heap s) new) (\<lambda>nm.
     over_vmas LIST_FUEL (\<lambda>old_vmap s.
       rbind (alloc_vma ''[copy_vma]ERROR: alloc new->mmap failed!'' s) (\<lambda>(new_vmap, s).
       rbind (deref (vma_heap s) old_vmap) (\<lambda>ov.
       rbind (upd_vma new_vmap (\<lambda>v. copy_vma v ov) s) (\<lambda>s.
       rbind (copy_vma_deep (mm_pgd nm) old_vmap (mm_pgd om) s) (\<lambda>s.
       insert_vma new_vmap new s))))) (mm_mmap om) s))"

section \<open>The list of memory areas\<close>

definition covers :: "u64 \<Rightarrow> vma_struct \<Rightarrow> bool" where
  "covers addr v \<longleftrightarrow> vm_start v \<le> addr \<and> vm_end v > addr"

lemma search_vma_hlist:
  assumes "mm \<noteq> 0" "mm_heap s mm = Some m" "hlist vma_next (vma_heap s) (mm_mmap m) xs" "length xs < LIST_FUEL"
  shows "search_vma addr mm s =
    Inr (case List.find (\<lambda>x. covers addr (the (vma_heap s x))) xs of None \<Rightarrow> 0 | Some x \<Rightarrow> x)"
  using assms hsearch_hlist [OF assms(3,4)] unfolding search_vma_def covers_def by simp

text \<open>Inserting an area puts it at the end of the list and changes links only.\<close>

lemma insert_vma_append:
  assumes "mm \<noteq> 0" "mm_heap s mm = Some m" "hlist vma_next (vma_heap s) (mm_mmap m) xs" "length xs < LIST_FUEL"
    and "vma \<noteq> 0" "vma \<notin> set xs" "vma_heap s vma = Some v" "vma_next v = 0"
  obtains t m' where "insert_vma vma mm s = Inr t" "mm_heap t mm = Some m'"
    "hlist vma_next (vma_heap t) (mm_mmap m') (xs @ [vma])"
    "\<And>x. covers addr (the (vma_heap t x)) = covers addr (the (vma_heap s x))"
proof (cases xs rule: rev_cases)
  case Nil
  then have "mm_mmap m = 0" using assms(3) by simp
  then have ins: "insert_vma vma mm s = Inr (s\<lparr>mm_heap := (mm_heap s)(mm \<mapsto> m\<lparr>mm_mmap := vma\<rparr>)\<rparr>)"
    using assms(1,2) by (simp add: insert_vma_def upd_mm_def)
  show thesis by (rule that [OF ins, of "m\<lparr>mm_mmap := vma\<rparr>"]) (use Nil assms(5,7,8) in simp_all)
next
  case (snoc as x)
  note L = assms(3) [unfolded snoc]
  obtain n where n: "x \<noteq> 0" "vma_heap s x = Some n" using hseg_nodes [OF L, of x] by auto
  have ne: "mm_mmap m \<noteq> 0" using L by (cases as) auto
  have "hpred LIST_FUEL vma_next 0 (vma_heap s) (mm_mmap m) = Inr x"
    using hpred_last [OF L] assms(4) snoc by simp
  moreover have xv: "x \<noteq> vma" using assms(6) snoc by auto
  ultimately have ins: "insert_vma vma mm s = Inr (s\<lparr>vma_heap := (vma_heap s)(x \<mapsto> n\<lparr>vma_next := vma\<rparr>, vma \<mapsto> v\<lparr>vma_next := 0\<rparr>)\<rparr>)"
    using assms(1,2,5,7) n ne by (simp add: insert_vma_def upd_vma_def)
  have app: "hlist vma_next ((vma_heap s)(x \<mapsto> n\<lparr>vma_next := vma\<rparr>, vma \<mapsto> v\<lparr>vma_next := 0\<rparr>)) (mm_mmap m) (xs @ [vma])"
    using vma_links.append_last [OF L n(2) assms(5), of v] assms(6) snoc by simp
  show thesis by (rule that [OF ins, of m]) (use assms(2,7) n app in \<open>auto simp: covers_def\<close>)
qed

text \<open>
  After \<open>insert_vma\<close> the areas of an address space are the previous ones followed by the new
  one, and \<open>search_vma\<close> returns for every address the first area of that list that contains it,
  or NULL if none does.
\<close>

lemma search_after_insert:
  assumes "mm \<noteq> 0" "mm_heap s mm = Some m" "hlist vma_next (vma_heap s) (mm_mmap m) xs" "Suc (length xs) < LIST_FUEL"
    and "vma \<noteq> 0" "vma \<notin> set xs" "vma_heap s vma = Some v" "vma_next v = 0"
  shows "\<exists>t. insert_vma vma mm s = Inr t \<and>
    search_vma addr mm t =
      Inr (case List.find (\<lambda>x. covers addr (the (vma_heap s x))) (xs @ [vma]) of None \<Rightarrow> 0 | Some x \<Rightarrow> x)"
proof -
  have len: "length xs < LIST_FUEL" using assms(4) by simp
  obtain t m' where t: "insert_vma vma mm s = Inr t" "mm_heap t mm = Some m'"
    "hlist vma_next (vma_heap t) (mm_mmap m') (xs @ [vma])"
    "\<And>x. covers addr (the (vma_heap t x)) = covers addr (the (vma_heap s x))"
    by (rule insert_vma_append [OF assms(1-3) len assms(5-8)]) blast
  have "search_vma addr mm t =
      Inr (case List.find (\<lambda>x. covers addr (the (vma_heap t x))) (xs @ [vma]) of None \<Rightarrow> 0 | Some x \<Rightarrow> x)"
    by (rule search_vma_hlist [OF assms(1) t(2,3)]) (use assms(4) in simp)
  then show ?thesis using t(1,4) by simp
qed

section \<open>Tearing down\<close>

lemma over_vmas_invariant:
  assumes "over_vmas k body p s = Inr t" "P s" "\<And>v s t. P s \<Longrightarrow> body v s = Inr t \<Longrightarrow> P t"
  shows "P t"
  using assms
proof (induction k arbitrary: p s)
  case (Suc k)
  show ?case
  proof (cases "p = 0")
    case False
    then obtain u and v :: vma_struct where "body p s = Inr u" "over_vmas k body (vma_next v) u = Inr t"
      using Suc.prems(1) by (simp add: rbind_eq_Inr) blast
    with Suc show ?thesis by blast
  qed (use Suc in simp)
qed simp

lemma free_page_current: "free_page n (s :: 'a kernel_scheme) = Inr t \<Longrightarrow> current t = current s"
  by (auto simp: free_page_def set_ref_def clear_busy_def rbind_eq_Inr split: if_splits)

lemma free_entry_current: "free_entry tag i (s :: 'a kernel_scheme) = Inr t \<Longrightarrow> current t = current s"
  using free_page_current [of _ s]
  by (fastforce simp: free_entry_def Let_def rbind_eq_Inr vload64_def vstore64_def split: if_splits option.splits)

lemma free_vma_current: "free_vma v tag s = Inr t \<Longrightarrow> current t = current s"
proof -
  assume "free_vma v tag s = Inr t"
  then obtain is' where r: "rfold (free_entry tag) is' s = Inr t"
    by (auto simp: free_vma_def Let_def rbind_eq_Inr)
  show ?thesis
    by (rule rfold_invariant [OF r, where P = "\<lambda>t. current t = current s"])
       (simp_all add: free_entry_current)
qed

text \<open>
  \<open>unmap_mm\<close> never returns when it is called for the running process: it clears the
  process's pointer to its address space before it reloads CR3 through that pointer.
\<close>

lemma unmap_current_faults:
  assumes "task_heap s (current s) = Some t" "t_mm t \<noteq> 0"
  shows "\<exists>e. unmap_mm (current s) s = Inl e"
proof (rule ccontr)
  assume "\<nexists>e. unmap_mm (current s) s = Inl e"
  then obtain u where "unmap_mm (current s) s = Inr u" by (cases "unmap_mm (current s) s") auto
  then obtain m :: mm_struct and s1 s2 s3 s4 s5 where
    steps: "rfold (\<lambda>tag. over_vmas LIST_FUEL (\<lambda>v. free_vma v tag) (mm_mmap m)) [PG_FRAME, PTE, PMD, PUD] s = Inr s1"
      "over_vmas LIST_FUEL (\<lambda>v. free_page (frame_no v)) (mm_mmap m) s1 = Inr s2"
      "free_page (frame_no (mm_pgd m)) s2 = Inr s3" "free_page (frame_no (t_mm t)) s3 = Inr s4"
    and last: "upd_task (current s) (\<lambda>t. t\<lparr>t_mm := 0\<rparr>) s4 = Inr s5" "flush_tlb s5 = Inr u"
    using assms by (auto simp: unmap_mm_def rbind_eq_Inr simp del: rfold.simps split: if_splits)
  let ?P = "\<lambda>x. current x = current s"
  have "?P s1"
    by (rule rfold_invariant [OF steps(1), where P = ?P])
       (auto elim!: over_vmas_invariant [where P = ?P] dest: free_vma_current)
  then have "?P s2" by (rule over_vmas_invariant [OF steps(2), where P = ?P]) (auto dest: free_page_current)
  then have "?P s4" using steps(3,4) free_page_current by metis
  with last show False by (auto simp: upd_task_Inr flush_tlb_def current_mm_def rbind_eq_Inr)
qed

end
