(* ===== verification/AddressSpace.thy ===== *)
theory AddressSpace
  imports Vm "HOL-Library.Sublist"
begin

text \<open>
  The user half of an address space as a tree of page frames. A \<open>upath\<close> is a sequence of table
  indices from the page directory down; \<open>pt_wf s f\<close> says that under the directory in frame \<open>f\<close>
  different paths lead to different frames, that all of them are in use, and that every entry
  that is not zero is present. The kernel's way of filling in a missing entry is shown to keep
  this and to change the map at one path only, which gives the behaviour of \<open>map_a_page\<close>.
\<close>

section \<open>Paths and the invariant\<close>

definition upath :: "nat list \<Rightarrow> bool" where
  "upath p \<longleftrightarrow> length p \<le> 4 \<and> (\<forall>i\<in>set p. i < 512) \<and> (p \<noteq> [] \<longrightarrow> hd p < 256)"

definition pt_wf :: "'a phymem_scheme \<Rightarrow> nat \<Rightarrow> bool" where
  "pt_wf s f \<longleftrightarrow>
     (\<forall>p g. upath p \<longrightarrow> walk_frame (ram s) f p = Some g \<longrightarrow> g < PAGE_ARRAY_SIZE \<and> page_ref s g \<noteq> 0) \<and>
     (\<forall>p q g. upath p \<longrightarrow> upath q \<longrightarrow> walk_frame (ram s) f p = Some g \<longrightarrow> walk_frame (ram s) f q = Some g \<longrightarrow> p = q) \<and>
     (\<forall>p i g. upath (p @ [i]) \<longrightarrow> walk_frame (ram s) f p = Some g \<longrightarrow> frame_word (ram s) g i \<noteq> 0 \<longrightarrow>
        present (frame_word (ram s) g i) \<and> unat (frame_word (ram s) g i) < 4503599627370496)"

lemma upath_Nil [simp]: "upath []"
  by (simp add: upath_def)

lemma upath_prefix: "upath (p @ q) \<Longrightarrow> upath p"
  by (cases p) (auto simp: upath_def)

lemma upath_snoc_less: "upath (p @ [i]) \<Longrightarrow> i < 512"
  by (simp add: upath_def)

lemma pt_wfD:
  assumes "pt_wf s f"
  shows "upath p \<Longrightarrow> walk_frame (ram s) f p = Some g \<Longrightarrow> g < PAGE_ARRAY_SIZE"
    "upath p \<Longrightarrow> walk_frame (ram s) f p = Some g \<Longrightarrow> page_ref s g \<noteq> 0"
    "upath p \<Longrightarrow> upath q \<Longrightarrow> walk_frame (ram s) f p = Some g \<Longrightarrow> walk_frame (ram s) f q = Some g \<Longrightarrow> p = q"
    "upath (p @ [i]) \<Longrightarrow> walk_frame (ram s) f p = Some g \<Longrightarrow> frame_word (ram s) g i \<noteq> 0 \<Longrightarrow>
       present (frame_word (ram s) g i) \<and> unat (frame_word (ram s) g i) < 4503599627370496"
  using assms unfolding pt_wf_def by blast+

lemma small_frame_of: "g < PAGE_ARRAY_SIZE \<Longrightarrow> small_frame g"
  by (simp add: small_frame_def)

lemma walk_frame_snoc:
  "walk_frame r f (p @ [i]) =
     (case walk_frame r f p of None \<Rightarrow> None
      | Some g \<Rightarrow> if present (frame_word r g i) then Some (ent_frame (frame_word r g i)) else None)"
  by (simp add: walk_frame_append Let_def split: option.splits)

section \<open>Filling in an entry\<close>

text \<open>
  The state after a fresh frame \<open>h\<close> has been cleared and entered at index \<open>i\<close> of the table in
  frame \<open>g\<close>, which path \<open>p\<close> leads to.
\<close>

definition linked :: "nat \<Rightarrow> nat \<Rightarrow> nat \<Rightarrow> (nat \<Rightarrow> u64) \<Rightarrow> 'a phymem_scheme \<Rightarrow> 'a phymem_scheme" where
  "linked g i h w s = s\<lparr>page_ref := (page_ref s)(h := 1), bitmap := w,
     ram := put_entry (frame_pa g) i (frame_pa h OR 7) (memset (frame_pa h) 0 4096 (ram s))\<rparr>"

lemma present_0 [simp]: "\<not> present 0"
  by (simp add: present_def)

lemma new_entry:
  assumes "h \<in> pool"
  shows "present (frame_pa h OR 7)" "ent_frame (frame_pa h OR 7) = h"
    "unat (frame_pa h OR 7) < 4503599627370496" "frame_pa h OR 7 \<noteq> 0"
proof -
  have h: "h < 32766" "small_frame h" using assms by (simp_all add: pool_def small_frame_def)
  then show "present (frame_pa h OR 7)" "ent_frame (frame_pa h OR 7) = h"
    by (simp_all add: present_or ent_frame_or)
  show "unat (frame_pa h OR 7) < 4503599627370496" using h by (simp add: unat_or_low)
  have "unat (frame_pa h OR 7) \<noteq> 0" using h by (simp add: unat_or_low)
  then show "frame_pa h OR 7 \<noteq> 0" by auto
qed

lemma linked_word:
  assumes "small_frame g" "i < 512" "h \<in> pool" "g \<noteq> h" "small_frame x" "j < 512"
  shows "frame_word (ram (linked g i h w s)) x j =
    (if x = h then 0 else if x = g \<and> j = i then frame_pa h OR 7 else frame_word (ram s) x j)"
  using assms pool_small [OF assms(3)]
  by (auto simp: linked_def frame_word_put_entry frame_word_memset)

lemma linked_walk:
  assumes wf: "pt_wf s f" and p: "walk_frame (ram s) f p = Some g" "upath (p @ [i])"
    and h: "h \<in> pool" "page_ref s h = 0" and zero: "frame_word (ram s) g i = 0"
    and q: "upath q"
  shows "walk_frame (ram (linked g i h w s)) f q =
    (if q = p @ [i] then Some h else if strict_prefix (p @ [i]) q then None else walk_frame (ram s) f q)"
  using q
proof (induction q rule: rev_induct)
  case Nil
  then show ?case by simp
next
  case (snoc j q)
  have up: "upath p" "upath q" "i < 512" "j < 512"
    using p(2) snoc.prems by (auto intro: upath_prefix upath_snoc_less)
  note g = pt_wfD(1,2) [OF wf up(1) p(1)]
  have gh: "g \<noteq> h" using g h by auto
  note word = linked_word [OF small_frame_of [OF g(1)] up(3) h(1) gh, where w = w and s = s]
  note IH = snoc.IH [OF up(2)]
  consider (new) "q = p @ [i]" | (below) "strict_prefix (p @ [i]) q"
    | (off) "q \<noteq> p @ [i]" "\<not> strict_prefix (p @ [i]) q" "walk_frame (ram s) f q = None"
    | (on) x where "q \<noteq> p @ [i]" "\<not> strict_prefix (p @ [i]) q" "walk_frame (ram s) f q = Some x"
    by (cases "walk_frame (ram s) f q") auto
  then show ?case
  proof cases
    case new
    have "small_frame h" using h pool_small by blast
    then have "frame_word (ram (linked g i h w s)) h j = 0" using word [of h j] up by simp
    moreover have "walk_frame (ram (linked g i h w s)) f q = Some h" using IH new by simp
    ultimately have "walk_frame (ram (linked g i h w s)) f (q @ [j]) = None" by (simp add: walk_frame_snoc [of _ _ q])
    moreover have "strict_prefix (p @ [i]) (q @ [j])" using new by (simp add: strict_prefix_def)
    ultimately show ?thesis using new by auto
  next
    case below
    then have "strict_prefix (p @ [i]) (q @ [j])" by (auto intro: strict_prefix_simps prefix_order.less_le_trans)
    moreover have "q @ [j] \<noteq> p @ [i]" using below by (auto dest: prefix_length_less)
    moreover have "walk_frame (ram (linked g i h w s)) f q = None"
      using below IH by (cases "q = p @ [i]") simp_all
    ultimately show ?thesis by (simp add: walk_frame_snoc [of _ _ q])
  next
    case off
    then have "q @ [j] \<noteq> p @ [i]" using p(1) by auto
    moreover have "\<not> strict_prefix (p @ [i]) (q @ [j])" using off by (auto simp: strict_prefix_def)
    ultimately show ?thesis using off IH by (simp add: walk_frame_snoc)
  next
    case on
    note x = pt_wfD(1,2) [OF wf up(2) on(3)]
    have xh: "x \<noteq> h" using x h by auto
    have "\<not> strict_prefix (p @ [i]) (q @ [j])" using on by (auto simp: strict_prefix_def)
    moreover have "x = g \<longleftrightarrow> q = p" using pt_wfD(3) [OF wf up(2,1) on(3)] p(1) on(3) by auto
    ultimately show ?thesis
      using on IH word [OF small_frame_of [OF x(1)] up(4)] xh zero new_entry [OF h(1)]
      by (auto simp: walk_frame_snoc)
  qed
qed

lemma linked_wf:
  assumes wf: "pt_wf s f" and p: "walk_frame (ram s) f p = Some g" "upath (p @ [i])"
    and h: "h \<in> pool" "page_ref s h = 0" and zero: "frame_word (ram s) g i = 0"
  shows "pt_wf (linked g i h w s) f"
proof -
  let ?t = "linked g i h w s"
  note walk = linked_walk [OF wf p h zero, where w = w]
  have up: "upath p" "i < 512" using p(2) by (auto intro: upath_prefix upath_snoc_less)
  note g = pt_wfD(1,2) [OF wf up(1) p(1)]
  have gh: "g \<noteq> h" using g h by auto
  note word = linked_word [OF small_frame_of [OF g(1)] up(2) h(1) gh, where w = w and s = s]
  have ref: "page_ref ?t = (page_ref s)(h := 1)" by (simp add: linked_def)
  have old: "walk_frame (ram s) f q = Some x" "x \<noteq> h" if "upath q" "q \<noteq> p @ [i]" "walk_frame (ram ?t) f q = Some x" for q x
    using that walk [OF that(1)] pt_wfD(2) [OF wf that(1)] h(2) by (auto split: if_splits)
  have new: "walk_frame (ram ?t) f (p @ [i]) = Some h" using walk [OF p(2)] by simp
  show ?thesis unfolding pt_wf_def
  proof (intro conjI allI impI)
    fix q x assume q: "upath q" "walk_frame (ram ?t) f q = Some x"
    have "x < 32768 \<and> page_ref ?t x \<noteq> 0"
    proof (cases "q = p @ [i]")
      case True
      then have "x = h" using new q(2) by simp
      then show ?thesis using pool_small [OF h(1)] by (simp add: ref)
    next
      case False
      note x = old [OF q(1) False q(2)]
      then show ?thesis using pt_wfD(1,2) [OF wf q(1) x(1)] by (simp add: ref)
    qed
    then show "x < 32768" "page_ref ?t x \<noteq> 0" by auto
  next
    fix q q' x assume "upath q" "upath q'" "walk_frame (ram ?t) f q = Some x" "walk_frame (ram ?t) f q' = Some x"
    then show "q = q'"
      using new old [of q x] old [of q' x] pt_wfD(3) [OF wf, of q q' x]
      by (cases "q = p @ [i]"; cases "q' = p @ [i]") auto
  next
    fix q j x assume q: "upath (q @ [j])" "walk_frame (ram ?t) f q = Some x" "frame_word (ram ?t) x j \<noteq> 0"
    have uq: "upath q" "j < 512" using q(1) by (auto intro: upath_prefix upath_snoc_less)
    have "present (frame_word (ram ?t) x j) \<and> unat (frame_word (ram ?t) x j) < 4503599627370496"
    proof (cases "q = p @ [i]")
      case True
      then have "x = h" using new q(2) by simp
      then show ?thesis using q(3) word [of h j] pool_small [OF h(1)] uq by simp
    next
      case False
      note x = old [OF uq(1) False q(2)]
      have "small_frame x" using pt_wfD(1) [OF wf uq(1) x(1)] by (rule small_frame_of)
      then show ?thesis
        using word [of x j] uq x q(3) new_entry [OF h(1)] pt_wfD(4) [OF wf q(1) x(1)] by (auto split: if_splits)
    qed
    then show "present (frame_word (ram ?t) x j)" "unat (frame_word (ram ?t) x j) < 4503599627370496" by auto
  qed
qed

section \<open>The kernel's table walk\<close>

lemma PG_MASK_minus: "a AND PG_MASK = a - take_bit 12 a"
proof -
  have m: "(4095 :: u64) = mask 12" by (simp add: mask_eq_exp_minus_1)
  have "(a AND NOT (mask 12)) AND take_bit 12 a = 0" by (rule bit_word_eqI) (auto simp: bit_simps)
  then have "(a AND NOT (mask 12)) + take_bit 12 a = (a AND NOT (mask 12)) OR take_bit 12 a"
    by (rule disjunctive_add_eq_or)
  also have "\<dots> = a" by (rule bit_word_eqI) (auto simp: bit_simps)
  finally show ?thesis unfolding PG_MASK_def m by (simp add: eq_diff_eq)
qed

lemma entry_page_mask: "entry_page e = PA2VA (e AND PG_MASK)"
proof -
  have low: "unat (take_bit 12 a) = unat a mod 4096" for a :: u64
    by (simp only: unsigned_take_bit_eq) (simp add: take_bit_eq_mod)
  have "unat (e + KERNEL_OFFSET) mod 4096 = (unat e + unat KERNEL_OFFSET) mod 4096"
    unfolding unat_word_ariths by (simp add: mod_mod_cancel)
  also have "\<dots> = (unat e + 4096 * 4503599626846208) mod 4096" by (simp add: KERNEL_OFFSET_def)
  also have "\<dots> = unat e mod 4096" by (rule mod_mult_self2)
  finally have "take_bit 12 (e + KERNEL_OFFSET) = take_bit 12 e" by (simp only: u64_eq_iff low)
  then show ?thesis by (simp add: entry_page_def PA2VA_def PG_MASK_minus)
qed

lemma entry_page_eq:
  assumes "unat e < 4503599627370496"
  shows "entry_page e = PA2VA (frame_pa (ent_frame e))"
proof -
  have f: "ent_frame e = unat e div 4096"
    using assms by (simp add: ent_frame_def less_mult_imp_div_less)
  have "entry_page e = PA2VA (e AND PG_MASK)" by (rule entry_page_mask)
  moreover have "e AND PG_MASK = frame_pa (ent_frame e)"
  proof -
    have "unat (e AND PG_MASK) = unat (frame_pa (ent_frame e))"
      by (simp only: unat_PG_MASK f) (use f ent_frame_small [of e] in \<open>simp add: unat_frame_pa\<close>)
    then show ?thesis by (simp only: u64_eq_iff)
  qed
  ultimately show ?thesis by simp
qed

text \<open>
  What adding page tables leaves alone. \<open>table s f x\<close>: frame \<open>x\<close> is the directory in \<open>f\<close> or one
  of the tables below it. \<open>grown s t f\<close>: from \<open>s\<close> to \<open>t\<close> only fresh tables have been added: what
  was mapped is mapped to the same frames, no page has been added, the new tables were unused
  frames, and in frames that were in use only zero entries of tables have been written.
\<close>

definition table :: "'a phymem_scheme \<Rightarrow> nat \<Rightarrow> nat \<Rightarrow> bool" where
  "table s f x \<longleftrightarrow> (\<exists>q. upath q \<and> length q \<le> 3 \<and> walk_frame (ram s) f q = Some x)"

definition grown :: "'a phymem_scheme \<Rightarrow> 'a phymem_scheme \<Rightarrow> nat \<Rightarrow> bool" where
  "grown s t f \<longleftrightarrow> pt_wf t f \<and>
     (\<forall>q g. upath q \<longrightarrow> walk_frame (ram s) f q = Some g \<longrightarrow> walk_frame (ram t) f q = Some g) \<and>
     (\<forall>q. upath q \<longrightarrow> length q = 4 \<longrightarrow> walk_frame (ram s) f q = None \<longrightarrow> walk_frame (ram t) f q = None) \<and>
     (\<forall>q x. upath q \<longrightarrow> walk_frame (ram t) f q = Some x \<longrightarrow> walk_frame (ram s) f q = Some x \<or> page_ref s x = 0) \<and>
     (\<forall>x i. x < PAGE_ARRAY_SIZE \<longrightarrow> i < 512 \<longrightarrow> page_ref s x \<noteq> 0 \<longrightarrow> frame_word (ram s) x i \<noteq> 0 \<or> \<not> table s f x \<longrightarrow>
        frame_word (ram t) x i = frame_word (ram s) x i) \<and>
     (\<forall>x. page_ref s x \<noteq> 0 \<longrightarrow> page_ref t x = page_ref s x) \<and>
     (\<exists>pr b r. t = s\<lparr>page_ref := pr, bitmap := b, ram := r\<rparr>)"

lemma grownD:
  assumes "grown s t f"
  shows "pt_wf t f"
    "upath q \<Longrightarrow> walk_frame (ram s) f q = Some g \<Longrightarrow> walk_frame (ram t) f q = Some g"
    "upath q \<Longrightarrow> length q = 4 \<Longrightarrow> walk_frame (ram s) f q = None \<Longrightarrow> walk_frame (ram t) f q = None"
    "upath q \<Longrightarrow> walk_frame (ram t) f q = Some x \<Longrightarrow> walk_frame (ram s) f q = Some x \<or> page_ref s x = 0"
    "x < PAGE_ARRAY_SIZE \<Longrightarrow> i < 512 \<Longrightarrow> page_ref s x \<noteq> 0 \<Longrightarrow> frame_word (ram s) x i \<noteq> 0 \<or> \<not> table s f x \<Longrightarrow>
       frame_word (ram t) x i = frame_word (ram s) x i"
    "page_ref s x \<noteq> 0 \<Longrightarrow> page_ref t x = page_ref s x"
proof -
  note c1 = assms [unfolded grown_def]
  note c2 = conjunct2 [OF c1] note c3 = conjunct2 [OF c2] note c4 = conjunct2 [OF c3]
  note c5 = conjunct2 [OF c4] note c6 = conjunct2 [OF c5]
  show "pt_wf t f" using conjunct1 [OF c1] .
  show "upath q \<Longrightarrow> walk_frame (ram s) f q = Some g \<Longrightarrow> walk_frame (ram t) f q = Some g"
    using conjunct1 [OF c2] by blast
  show "upath q \<Longrightarrow> length q = 4 \<Longrightarrow> walk_frame (ram s) f q = None \<Longrightarrow> walk_frame (ram t) f q = None"
    using conjunct1 [OF c3] by blast
  show "upath q \<Longrightarrow> walk_frame (ram t) f q = Some x \<Longrightarrow> walk_frame (ram s) f q = Some x \<or> page_ref s x = 0"
    using conjunct1 [OF c4] by blast
  show "x < PAGE_ARRAY_SIZE \<Longrightarrow> i < 512 \<Longrightarrow> page_ref s x \<noteq> 0 \<Longrightarrow> frame_word (ram s) x i \<noteq> 0 \<or> \<not> table s f x \<Longrightarrow>
      frame_word (ram t) x i = frame_word (ram s) x i"
    using conjunct1 [OF c5] by blast
  show "page_ref s x \<noteq> 0 \<Longrightarrow> page_ref t x = page_ref s x"
    using conjunct1 [OF c6] by blast
qed

lemma grown_shapeE:
  assumes "grown s t f"
  obtains pr b r where "t = s\<lparr>page_ref := pr, bitmap := b, ram := r\<rparr>"
  using assms unfolding grown_def by blast

lemma grown_refl: "pt_wf s f \<Longrightarrow> grown s s f"
proof -
  have "s\<lparr>page_ref := page_ref s, bitmap := bitmap s, ram := ram s\<rparr> = s" by simp
  from this [symmetric] have "\<exists>pr b r. s = s\<lparr>page_ref := pr, bitmap := b, ram := r\<rparr>" by (intro exI)
  then show "pt_wf s f \<Longrightarrow> grown s s f" unfolding grown_def by blast
qed

lemma grown_table: "grown s t f \<Longrightarrow> page_ref s x \<noteq> 0 \<Longrightarrow> table t f x \<Longrightarrow> table s f x"
  unfolding table_def using grownD(4) by blast

lemma grown_trans [trans]:
  assumes "grown s t f" "grown t u f"
  shows "grown s u f"
  unfolding grown_def
proof (intro conjI allI impI)
  show "pt_wf u f" using assms(2) by (rule grownD(1))
next
  fix q g assume "upath q" "walk_frame (ram s) f q = Some g"
  then show "walk_frame (ram u) f q = Some g" using assms grownD(2) by blast
next
  fix q assume "upath q" "length q = 4" "walk_frame (ram s) f q = None"
  then show "walk_frame (ram u) f q = None" using assms grownD(3) by blast
next
  fix q x assume "upath q" "walk_frame (ram u) f q = Some x"
  then show "walk_frame (ram s) f q = Some x \<or> page_ref s x = 0"
    using assms grownD(4) [OF assms(1)] grownD(4) [OF assms(2)] grownD(6) [OF assms(1)] by metis
next
  fix x i
  assume x: "x < 32768" "i < 512" "page_ref s x \<noteq> 0" "frame_word (ram s) x i \<noteq> 0 \<or> \<not> table s f x"
  have t: "frame_word (ram t) x i = frame_word (ram s) x i" using assms(1) x by (rule grownD(5))
  have "page_ref t x \<noteq> 0" using grownD(6) [OF assms(1) x(3)] x(3) by simp
  moreover have "frame_word (ram t) x i \<noteq> 0 \<or> \<not> table t f x"
    using t x(4) grown_table [OF assms(1) x(3)] by auto
  ultimately have "frame_word (ram u) x i = frame_word (ram t) x i" by (rule grownD(5) [OF assms(2) x(1,2)])
  with t show "frame_word (ram u) x i = frame_word (ram s) x i" by simp
next
  fix x assume "page_ref s x \<noteq> 0"
  then show "page_ref u x = page_ref s x" using assms grownD(6) by metis
next
  show "\<exists>pr b r. u = s\<lparr>page_ref := pr, bitmap := b, ram := r\<rparr>"
    using assms by (auto elim!: grown_shapeE) blast
qed

lemma linked_grown:
  assumes wf: "pt_wf s f" and p: "walk_frame (ram s) f p = Some g" "upath (p @ [i])" "length p \<le> 2"
    and h: "h \<in> pool" "page_ref s h = 0" and zero: "frame_word (ram s) g i = 0"
  shows "grown s (linked g i h w s) f"
proof -
  let ?t = "linked g i h w s"
  note walk = linked_walk [OF wf p(1,2) h zero, where w = w]
  have up: "upath p" "i < 512" using p(2) by (auto intro: upath_prefix upath_snoc_less)
  note g = pt_wfD(1,2) [OF wf up(1) p(1)]
  have gh: "g \<noteq> h" using g h by auto
  note word = linked_word [OF small_frame_of [OF g(1)] up(2) h(1) gh, where w = w and s = s]
  have none: "walk_frame (ram s) f (p @ [i]) = None" using p(1) zero by (simp add: walk_frame_snoc)
  have none': "walk_frame (ram s) f q = None" if "strict_prefix (p @ [i]) q" for q
  proof -
    have "prefix (p @ [i]) q" using that by (rule prefix_order.less_imp_le)
    then obtain z where "q = (p @ [i]) @ z" by (rule prefixE)
    then show ?thesis using none walk_frame_append [of "ram s" f "p @ [i]" z] by simp
  qed
  show ?thesis unfolding grown_def
  proof (intro conjI allI impI)
    show "pt_wf ?t f" by (rule linked_wf [OF wf p(1,2) h zero])
  next
    fix q x assume "upath q" "walk_frame (ram s) f q = Some x"
    then show "walk_frame (ram ?t) f q = Some x" using walk none none' by auto
  next
    fix q assume "upath q" "length q = 4" "walk_frame (ram s) f q = None"
    then show "walk_frame (ram ?t) f q = None" using walk p(3) by auto
  next
    fix q x assume "upath q" "walk_frame (ram ?t) f q = Some x"
    then show "walk_frame (ram s) f q = Some x \<or> page_ref s x = 0" using walk h(2) by (auto split: if_splits)
  next
    fix x j assume x: "x < 32768" "j < 512" "page_ref s x \<noteq> 0" "frame_word (ram s) x j \<noteq> 0 \<or> \<not> table s f x"
    have "table s f g" using p up unfolding table_def by (intro exI [of _ p]) auto
    then show "frame_word (ram ?t) x j = frame_word (ram s) x j"
      using word [OF small_frame_of [OF x(1)] x(2)] x h(2) zero by auto
  next
    fix x assume "page_ref s x \<noteq> 0"
    then show "page_ref ?t x = page_ref s x" using h(2) by (auto simp: linked_def)
  next
    show "\<exists>pr b r. ?t = s\<lparr>page_ref := pr, bitmap := b, ram := r\<rparr>" unfolding linked_def by blast
  qed
qed

section \<open>The kernel fills in the missing entries\<close>

definition free_frames :: "'a phymem_scheme \<Rightarrow> nat set" where
  "free_frames s = {p \<in> pool. page_ref s p = 0}"

lemma finite_free_frames [simp]: "finite (free_frames s)"
  by (simp add: free_frames_def pool_def)

lemma flags_7: "ENTRY_P OR ENTRY_RW OR ENTRY_US = (7 :: u64)"
  by simp

text \<open>
  An entry of a table that path \<open>p\<close> leads to is either there already, and then nothing changes,
  or it is filled with a fresh frame.
\<close>

lemma ensure_table_cases:
  assumes wf: "pt_wf s f" and p: "walk_frame (ram s) f p = Some g" "upath (p @ [i])"
    and free: "free_frames s \<noteq> {}"
  obtains (old) "frame_word (ram s) g i \<noteq> 0"
      "ensure_table msg (PA2VA (frame_pa g)) i s = Inr (PA2VA (frame_pa (ent_frame (frame_word (ram s) g i))), s)"
      "walk_frame (ram s) f (p @ [i]) = Some (ent_frame (frame_word (ram s) g i))"
  | (new) h w where "frame_word (ram s) g i = 0" "h \<in> free_frames s"
      "ensure_table msg (PA2VA (frame_pa g)) i s = Inr (PA2VA (frame_pa h), linked g i h w s)"
proof (cases "frame_word (ram s) g i = 0")
  case False
  note e = pt_wfD(4) [OF wf p(2,1) False]
  then have "entry_page (frame_word (ram s) g i) = PA2VA (frame_pa (ent_frame (frame_word (ram s) g i)))"
    using entry_page_eq by blast
  then have "ensure_table msg (PA2VA (frame_pa g)) i s =
      Inr (PA2VA (frame_pa (ent_frame (frame_word (ram s) g i))), s)"
    using False by (simp add: ensure_table_def get_entry_frame)
  moreover have "walk_frame (ram s) f (p @ [i]) = Some (ent_frame (frame_word (ram s) g i))"
    using p(1) e by (simp add: walk_frame_snoc)
  ultimately show thesis using False old by blast
next
  case True
  obtain x where "x \<in> pool" "page_ref s x = 0" using free by (auto simp: free_frames_def)
  then obtain va t where z: "get_zero_page s = Inr (va, t)" using kzero.alloc_total by blast
  then obtain h w where h: "va = PA2VA (frame_pa h)" "h \<in> pool" "page_ref s h = 0"
    "t = s\<lparr>page_ref := (page_ref s)(h := 1), bitmap := w, ram := memset (frame_pa h) 0 4096 (ram s)\<rparr>"
    by (rule get_zero_page_InrE)
  have "ensure_table msg (PA2VA (frame_pa g)) i s = Inr (PA2VA (frame_pa h), linked g i h w s)"
    using True z h page_va_nonzero [OF h(2)]
    by (simp add: ensure_table_def get_entry_frame put_entry_va_def linked_def)
  then show thesis using True h new by (auto simp: free_frames_def)
qed

lemma ensure_table_grown:
  assumes wf: "pt_wf s f" and p: "walk_frame (ram s) f p = Some g" "upath (p @ [i])" "length p \<le> 2"
    and free: "n < card (free_frames s)"
  shows "\<exists>h t. ensure_table msg (PA2VA (frame_pa g)) i s = Inr (PA2VA (frame_pa h), t) \<and>
    walk_frame (ram t) f (p @ [i]) = Some h \<and> grown s t f \<and> n \<le> card (free_frames t)"
proof -
  have ne: "free_frames s \<noteq> {}" using free by auto
  show ?thesis
  proof (rule ensure_table_cases [OF wf p(1,2) ne, of msg])
    fix h w assume h: "frame_word (ram s) g i = 0" "h \<in> free_frames s"
      "ensure_table msg (PA2VA (frame_pa g)) i s = Inr (PA2VA (frame_pa h), linked g i h w s)"
    then have hp: "h \<in> pool" "page_ref s h = 0" by (auto simp: free_frames_def)
    have "free_frames (linked g i h w s) = free_frames s - {h}"
      by (auto simp: free_frames_def linked_def)
    then have "n \<le> card (free_frames (linked g i h w s))" using free h(2) by simp
    with h linked_grown [OF wf p hp h(1)] linked_walk [OF wf p(1,2) hp h(1) p(2)] show ?thesis by auto
  qed (use grown_refl [OF wf] free in auto)
qed

lemma map_tables_grown:
  assumes wf: "pt_wf s f" and va: "path va = [i4, i3, i2, i1]" "i4 < 256"
    and free: "n + 3 \<le> card (free_frames s)"
  shows "\<exists>h t. map_tables (PA2VA (frame_pa f)) (drop_bit 12 va) s = Inr (PA2VA (frame_pa h), t) \<and>
    walk_frame (ram t) f [i4, i3, i2] = Some h \<and> grown s t f \<and> n \<le> card (free_frames t)"
proof -
  have off: "get_pgd_off (drop_bit 12 va) = i4" "get_pud_off (drop_bit 12 va) = i3"
    "get_pmd_off (drop_bit 12 va) = i2"
    using offs_path [of va] va(1) by simp_all
  have lt: "i4 < 512" "i3 < 512" "i2 < 512" using va(1) by (auto simp: path_def)
  have up: "upath ([] @ [i4])" "upath ([i4] @ [i3])" "upath ([i4, i3] @ [i2])"
    using lt va(2) by (simp_all add: upath_def)
  obtain h1 t1 where s1: "ensure_table ''[map_vma]ERROR: alloc pud error!'' (PA2VA (frame_pa f)) i4 s =
      Inr (PA2VA (frame_pa h1), t1)" "walk_frame (ram t1) f [i4] = Some h1" "grown s t1 f" "n + 2 \<le> card (free_frames t1)"
    using ensure_table_grown [OF wf _ up(1), where g = f and n = "n + 2" and msg = "''[map_vma]ERROR: alloc pud error!''"] free
    by auto
  obtain h2 t2 where s2: "ensure_table ''[map_vma]ERROR: alloc pmd error!'' (PA2VA (frame_pa h1)) i3 t1 =
      Inr (PA2VA (frame_pa h2), t2)" "walk_frame (ram t2) f [i4, i3] = Some h2" "grown t1 t2 f" "n + 1 \<le> card (free_frames t2)"
    using ensure_table_grown [OF grownD(1) [OF s1(3)] s1(2) up(2), where n = "n + 1" and msg = "''[map_vma]ERROR: alloc pmd error!''"] s1(4)
    by auto
  obtain h3 t3 where s3: "ensure_table ''[map_vma]ERROR: alloc pte error!'' (PA2VA (frame_pa h2)) i2 t2 =
      Inr (PA2VA (frame_pa h3), t3)" "walk_frame (ram t3) f [i4, i3, i2] = Some h3" "grown t2 t3 f" "n \<le> card (free_frames t3)"
    using ensure_table_grown [OF grownD(1) [OF s2(3)] s2(2) up(3), where n = n and msg = "''[map_vma]ERROR: alloc pte error!''"] s2(4)
    by auto
  have "grown s t3 f" using s1(3) s2(3) s3(3) grown_trans by blast
  with s1 s2 s3 show ?thesis by (simp add: map_tables_def off)
qed

section \<open>map_a_page\<close>

text \<open>
  What a page fault on an address of an anonymous area does to the address space in frame \<open>f\<close>:
  \<open>demand_zero s t f va\<close>.
\<close>

definition demand_zero :: "'a phymem_scheme \<Rightarrow> 'a phymem_scheme \<Rightarrow> nat \<Rightarrow> u64 \<Rightarrow> bool" where
  "demand_zero s t f va \<longleftrightarrow> pt_wf t f \<and>
     (case walk_frame (ram s) f (path va) of
        Some h \<Rightarrow> walk_frame (ram t) f (path va) = Some h
      | None \<Rightarrow> (\<exists>h. walk_frame (ram t) f (path va) = Some h \<and> page_ref s h = 0 \<and> page_ref t h = 1 \<and>
                  (\<forall>i < 512. frame_word (ram t) h i = 0))) \<and>
     (\<forall>q. upath q \<longrightarrow> length q = 4 \<longrightarrow> q \<noteq> path va \<longrightarrow> walk_frame (ram t) f q = walk_frame (ram s) f q) \<and>
     (\<forall>x i. x < PAGE_ARRAY_SIZE \<longrightarrow> i < 512 \<longrightarrow> page_ref s x \<noteq> 0 \<longrightarrow> frame_word (ram s) x i \<noteq> 0 \<or> \<not> table s f x \<longrightarrow>
        frame_word (ram t) x i = frame_word (ram s) x i) \<and>
     (\<forall>x. page_ref s x \<noteq> 0 \<longrightarrow> page_ref t x = page_ref s x) \<and>
     (\<forall>q x. upath q \<longrightarrow> walk_frame (ram t) f q = Some x \<longrightarrow> walk_frame (ram s) f q = Some x \<or> page_ref s x = 0)"

lemma upath_path: "unat va < 140737488355328 \<Longrightarrow> upath (path va)"
  by (simp add: upath_def path_def idx_levels less_mult_imp_div_less del: One_nat_def)

lemma linked_demand_zero:
  assumes g: "grown s t f" and p: "walk_frame (ram t) f p = Some g" "path va = p @ [i]" "upath (path va)"
    and h: "h \<in> pool" "page_ref t h = 0" and zero: "frame_word (ram t) g i = 0"
  shows "demand_zero s (linked g i h w t) f va"
proof -
  let ?u = "linked g i h w t"
  note wf = grownD(1) [OF g]
  have up: "upath (p @ [i])" "upath p" "i < 512" "length p = 3"
    using p(2,3) by (auto intro: upath_prefix upath_snoc_less) (auto simp: path_def)
  note walk = linked_walk [OF wf p(1) up(1) h zero, where w = w]
  note gt = pt_wfD(1,2) [OF wf up(2) p(1)]
  have gh: "g \<noteq> h" using gt h by auto
  note word = linked_word [OF small_frame_of [OF gt(1)] up(3) h(1) gh, where w = w and s = t]
  have fresh: "page_ref s h = 0" using h(2) grownD(6) [OF g] by metis
  have unmapped: "walk_frame (ram t) f (path va) = None" using p(1,2) zero by (simp add: walk_frame_snoc)
  then have none: "walk_frame (ram s) f (path va) = None" using grownD(2) [OF g p(3)] by (cases "walk_frame (ram s) f (path va)") auto
  show ?thesis unfolding demand_zero_def
  proof (intro conjI allI impI)
    show "pt_wf ?u f" by (rule linked_wf [OF wf p(1) up(1) h zero])
  next
    have "walk_frame (ram ?u) f (path va) = Some h" using walk [OF up(1)] p(2) by simp
    moreover have "frame_word (ram ?u) h j = 0" if "j < 512" for j
      using word [of h j] pool_small [OF h(1)] that by simp
    ultimately show "case walk_frame (ram s) f (path va) of
        Some h \<Rightarrow> walk_frame (ram ?u) f (path va) = Some h
      | None \<Rightarrow> (\<exists>h. walk_frame (ram ?u) f (path va) = Some h \<and> page_ref s h = 0 \<and> page_ref ?u h = 1 \<and>
                  (\<forall>i < 512. frame_word (ram ?u) h i = 0))"
      using none fresh by (simp add: linked_def)
  next
    fix q assume q: "upath q" "length q = 4" "q \<noteq> path va"
    then have "walk_frame (ram ?u) f q = walk_frame (ram t) f q"
      using walk [OF q(1)] p(2) up(4) by (auto dest: prefix_length_less)
    also have "\<dots> = walk_frame (ram s) f q"
      using grownD(2,3) [OF g q(1)] q(2) by (cases "walk_frame (ram s) f q") auto
    finally show "walk_frame (ram ?u) f q = walk_frame (ram s) f q" .
  next
    fix x j :: nat assume x: "x < 32768" "j < 512" "page_ref s x \<noteq> 0" "frame_word (ram s) x j \<noteq> 0 \<or> \<not> table s f x"
    note same = grownD(5) [OF g x]
    have "table t f g" using p(1) up unfolding table_def by (intro exI [of _ p]) simp
    then have "\<not> (x = g \<and> j = i)" using grown_table [OF g x(3)] x(4) same zero by auto
    moreover have "x \<noteq> h" using x(3) fresh by auto
    ultimately show "frame_word (ram ?u) x j = frame_word (ram s) x j"
      using word [OF small_frame_of [OF x(1)] x(2)] same by auto
  next
    fix x assume "page_ref s x \<noteq> 0"
    then show "page_ref ?u x = page_ref s x" using grownD(6) [OF g] fresh by (auto simp: linked_def)
  next
    fix q x assume q: "upath q" "walk_frame (ram ?u) f q = Some x"
    then show "walk_frame (ram s) f q = Some x \<or> page_ref s x = 0"
      using walk grownD(4) [OF g q(1)] fresh by (auto split: if_splits)
  qed
qed

lemma map_a_page_room:
  assumes "current_mm s = Inr m" "mm_pgd m = PA2VA (frame_pa f)" "pt_wf s f"
    and "vma \<noteq> 0" "vma_heap s vma = Some v" "vm_file v = None"
    and "unat addr < 140737488355328" "n + 4 \<le> card (free_frames s)"
  shows "\<exists>t pr b r. map_a_page vma addr s = Inr t \<and> demand_zero s t f addr \<and> t = s\<lparr>page_ref := pr, bitmap := b, ram := r\<rparr> \<and>
    n \<le> card (free_frames t)"
proof -
  obtain i4 i3 i2 i1 where P: "path addr = [i4, i3, i2, i1]" "i4 < 256"
    using upath_path [OF assms(7)] by (auto simp: path_def upath_def)
  have up: "upath ([i4, i3, i2] @ [i1])" "path addr = [i4, i3, i2] @ [i1]"
    using upath_path [OF assms(7)] P by simp_all
  obtain g t where t: "map_tables (PA2VA (frame_pa f)) (drop_bit 12 addr) s = Inr (PA2VA (frame_pa g), t)"
    "walk_frame (ram t) f [i4, i3, i2] = Some g" "grown s t f" "n + 1 \<le> card (free_frames t)"
    using map_tables_grown [OF assms(3) P, of "n + 1"] assms(8) by auto
  note wf = grownD(1) [OF t(3)]
  obtain pr b r where shape: "t = s\<lparr>page_ref := pr, bitmap := b, ram := r\<rparr>" using t(3) by (rule grown_shapeE)
  have ne: "free_frames t \<noteq> {}" using t(4) by auto
  have off: "get_pte_off (drop_bit 12 addr) = i1" using offs_path [of addr] P(1) by simp
  have body: "map_a_page vma addr s =
      (if frame_word (ram t) g i1 \<noteq> 0 then Inr t
       else rbind (ensure_table ''[map_vma]ERROR: alloc page frame error!'' (PA2VA (frame_pa g)) i1 t) (\<lambda>(_, s). Inr s))"
    using assms(1,2,4-6) t(1) off by (simp add: map_a_page_def Let_def get_entry_frame)
  show ?thesis
  proof (rule ensure_table_cases [OF wf t(2) up(1) ne, of "''[map_vma]ERROR: alloc page frame error!''"])
    assume old: "frame_word (ram t) g i1 \<noteq> 0"
      "walk_frame (ram t) f ([i4, i3, i2] @ [i1]) = Some (ent_frame (frame_word (ram t) g i1))"
    have "demand_zero s t f addr" unfolding demand_zero_def
    proof (intro conjI allI impI)
      show "pt_wf t f" by (rule wf)
    next
      have "walk_frame (ram s) f (path addr) = Some (ent_frame (frame_word (ram t) g i1))"
        using grownD(2,3) [OF t(3) up(1)] old(2) up(2) by (cases "walk_frame (ram s) f (path addr)") auto
      then show "case walk_frame (ram s) f (path addr) of
          Some h \<Rightarrow> walk_frame (ram t) f (path addr) = Some h
        | None \<Rightarrow> (\<exists>h. walk_frame (ram t) f (path addr) = Some h \<and> page_ref s h = 0 \<and> page_ref t h = 1 \<and>
                    (\<forall>i < 512. frame_word (ram t) h i = 0))"
        using old(2) up(2) by simp
    next
      fix q assume "upath q" "length q = 4" "q \<noteq> path addr"
      then show "walk_frame (ram t) f q = walk_frame (ram s) f q"
        using grownD(2,3) [OF t(3)] by (cases "walk_frame (ram s) f q") auto
    qed (use grownD(4-6) [OF t(3)] in blast)+
    then show ?thesis using body old(1) shape t(4) by auto
  next
    fix h w assume h: "frame_word (ram t) g i1 = 0" "h \<in> free_frames t"
      "ensure_table ''[map_vma]ERROR: alloc page frame error!'' (PA2VA (frame_pa g)) i1 t =
        Inr (PA2VA (frame_pa h), linked g i1 h w t)"
    have "demand_zero s (linked g i1 h w t) f addr"
      by (rule linked_demand_zero [OF t(3,2) up(2)]) (use up h in \<open>auto simp: free_frames_def\<close>)
    moreover have "free_frames (linked g i1 h w t) = free_frames t - {h}" by (auto simp: free_frames_def linked_def)
    then have "n \<le> card (free_frames (linked g i1 h w t))" using t(4) h(2) by simp
    ultimately show ?thesis using body h shape by (auto simp: linked_def)
  qed
qed

lemma map_a_page_demand:
  assumes "current_mm s = Inr m" "mm_pgd m = PA2VA (frame_pa f)" "pt_wf s f"
    and "vma \<noteq> 0" "vma_heap s vma = Some v" "vm_file v = None"
    and "unat addr < 140737488355328" "4 \<le> card (free_frames s)"
  shows "\<exists>t pr b r. map_a_page vma addr s = Inr t \<and> demand_zero s t f addr \<and> t = s\<lparr>page_ref := pr, bitmap := b, ram := r\<rparr>"
  using map_a_page_room [OF assms(1-7), of 0] assms(8) by auto

text \<open>
  C3. Mapping a page of an anonymous area on demand (\<open>map_a_page\<close>, user addresses, at least four
  unused frames): the call succeeds and keeps the page tables well-formed. If the page was not
  mapped, it is now mapped to a frame nobody used, with reference count 1 and filled with
  zeros; if it was, it still is mapped to the same frame. Every other page of the address space
  is mapped as before, every frame in use that is not one of its page tables has the same
  contents, the tables keep the entries they have, and the frames in use keep their reference counts. The page tables that had to be
  added are frames nobody used either.
\<close>

theorem map_a_page_anonymous:
  assumes "current_mm s = Inr m" "mm_pgd m = PA2VA (frame_pa f)" "pt_wf s f"
    and "vma \<noteq> 0" "vma_heap s vma = Some v" "vm_file v = None"
    and "unat addr < 140737488355328" "4 \<le> card (free_frames s)"
  shows "\<exists>t. map_a_page vma addr s = Inr t \<and> demand_zero s t f addr"
  using map_a_page_demand [OF assms] by blast

lemma walk_zero_ram: "walk_frame (\<lambda>_. 0) f p = (if p = [] then Some f else None)"
  by (cases p) (simp_all add: frame_word_def load64_def Let_def)

lemma kernel_example_wf: "pt_wf kernel_example 671"
  by (auto simp: pt_wf_def kernel_example_def walk_zero_ram frame_word_def load64_def split: if_splits)

lemma kernel_example_free: "free_frames kernel_example = {672..<32766}"
  by (auto simp: free_frames_def kernel_example_def pool_def split: if_splits)

lemma kernel_example_mm:
  "current_mm kernel_example = Inr (zero_mm\<lparr>mm_mmap := 0x3000, mm_pgd := PA2VA (frame_pa 671)\<rparr>)"
  by (simp add: current_mm_def kernel_example_def)

theorem map_a_page_anonymous_witness:
  "\<exists>t. map_a_page 0x3000 0x612345 kernel_example = Inr t \<and> demand_zero kernel_example t 671 0x612345"
  by (rule map_a_page_anonymous [OF kernel_example_mm _ kernel_example_wf,
        where v = "zero_vma\<lparr>vm_start := 0x600000, vm_end := 0x700000, vm_prot := ENTRY_RW\<rparr>"])
     (simp_all add: kernel_example_free, simp_all add: kernel_example_def zero_vma_def)

end
