(* ===== verification/Tasks.thy ===== *)
theory Tasks
  imports Vm
begin

text \<open>
  Processes and scheduling: the task lists, \<open>schedule\<close>, \<open>sleep\<close>, \<open>wakeup\<close>, \<open>kernel_thread\<close>,
  \<open>free_process\<close> and \<open>thread_clear\<close> of src/sys/process.c, \<open>exit_st\<close>, \<open>waitpid\<close>, \<open>kill_by_pid\<close> and
  \<open>ps\<close> of src/sys/syscall.c, the timer interrupt of src/sys/timer.c and the page-fault handler of
  src/sys/mmap.c.

  A call that gives up the processor ends in \<open>Switched s\<close>: another task runs from state \<open>s\<close>, and
  what is left of the caller is on its kernel stack. \<open>Returns s\<close> is a call that comes back to its
  caller. The stack pointer the assembly of src/sys/switch_to.s saves for the task that is
  switched away from is the parameter \<open>sp\<close>.
\<close>

datatype 's cpu = Returns 's | Switched 's

section \<open>The task lists\<close>

datatype task_list = Active | Sleeping | Wait_Stdin | Zombies

fun list_head :: "task_list \<Rightarrow> 'a kernel_scheme \<Rightarrow> u64" where
  "list_head Active s = task_headp s"
| "list_head Sleeping s = sleep_task_list s"
| "list_head Wait_Stdin s = wait_stdin_list s"
| "list_head Zombies s = zombie_list s"

fun set_head :: "task_list \<Rightarrow> u64 \<Rightarrow> 'a kernel_scheme \<Rightarrow> 'a kernel_scheme" where
  "set_head Active v s = s\<lparr>task_headp := v\<rparr>"
| "set_head Sleeping v s = s\<lparr>sleep_task_list := v\<rparr>"
| "set_head Wait_Stdin v s = s\<lparr>wait_stdin_list := v\<rparr>"
| "set_head Zombies v s = s\<lparr>zombie_list := v\<rparr>"

definition add_to_tasklist :: "task_list \<Rightarrow> u64 \<Rightarrow> 'a kernel_scheme \<Rightarrow> fault + 'a kernel_scheme" where
  "add_to_tasklist l ts s =
     rbind (upd_task ts (\<lambda>t. t\<lparr>t_next := list_head l s\<rparr>) s) (\<lambda>s. Inr (set_head l ts s))"

text \<open>The value \<open>-1\<close> is never returned: the loop ends at the predecessor of \<open>ts\<close> or not at all.\<close>

definition remove_from_tasklist :: "task_list \<Rightarrow> u64 \<Rightarrow> 'a kernel_scheme \<Rightarrow> fault + u32 \<times> 'a kernel_scheme" where
  "remove_from_tasklist l ts s =
     (if list_head l s = ts then
        rbind (deref (task_heap s) ts) (\<lambda>t.
        rbind (upd_task ts (\<lambda>t. t\<lparr>t_next := 0\<rparr>) (set_head l (t_next t) s)) (\<lambda>s. Inr (0, s)))
      else
        rbind (hpred LIST_FUEL t_next ts (task_heap s) (list_head l s)) (\<lambda>p.
        rbind (deref (task_heap s) ts) (\<lambda>t.
        rbind (upd_task p (\<lambda>n. n\<lparr>t_next := t_next t\<rparr>) s) (\<lambda>s.
        rbind (upd_task ts (\<lambda>t. t\<lparr>t_next := 0\<rparr>) s) (\<lambda>s. Inr (0, s))))))"

definition find_process_by_pid :: "u32 \<Rightarrow> u64 \<Rightarrow> 'a kernel_scheme \<Rightarrow> fault + u64" where
  "find_process_by_pid n task_list s = hsearch LIST_FUEL t_next (\<lambda>t. pid t = n) (task_heap s) task_list"

definition wake_one :: "task_list \<Rightarrow> u64 \<Rightarrow> 'a kernel_scheme \<Rightarrow> fault + 'a kernel_scheme" where
  "wake_one l ts s =
     rbind (upd_task ts (\<lambda>t. t\<lparr>t_state := ACTIVE, sleep_time := 0\<rparr>) s) (\<lambda>s.
     rbind (remove_from_tasklist l ts s) (\<lambda>(_, s). add_to_tasklist Active ts s))"

fun wake_all :: "nat \<Rightarrow> task_list \<Rightarrow> u64 \<Rightarrow> 'a kernel_scheme \<Rightarrow> fault + 'a kernel_scheme" where
  "wake_all 0 l p s = Inl Diverge"
| "wake_all (Suc k) l p s =
     (if p = 0 then Inr s
      else rbind (deref (task_heap s) p) (\<lambda>t.
           rbind (wake_one l p s) (\<lambda>s. wake_all k l (t_next t) s)))"

definition wakeup :: "task_list \<Rightarrow> u64 \<Rightarrow> int \<Rightarrow> 'a kernel_scheme \<Rightarrow> fault + 'a kernel_scheme" where
  "wakeup l ts flag s =
     (if flag = 0 then wake_all LIST_FUEL l (list_head l s) s
      else if flag = 1 then
        rbind (check (ts \<noteq> 0) (Assert_Fail ''ts!=NULL'')) (\<lambda>_. wake_one l ts s)
      else Inl (Panic ''[wakeup]: unknown flag ''))"

section \<open>The scheduler\<close>

definition select_task_struct :: "'a kernel_scheme \<Rightarrow> fault + u64" where
  "select_task_struct s =
     rbind (deref (task_heap s) (current s)) (\<lambda>c.
     rbind (find_process_by_pid (pid c) (task_headp s) s) (\<lambda>q.
     rbind (deref (task_heap s) (if q \<noteq> 0 then current s else task_headp s)) (\<lambda>p.
     Inr (if t_next p \<noteq> 0 then t_next p else task_headp s))))"

text \<open>\<open>__switch_to\<close>: save my stack pointer, tell the next task whom it follows.\<close>

definition switch_to :: "u64 \<Rightarrow> u64 \<Rightarrow> u64 \<Rightarrow> 'a kernel_scheme \<Rightarrow> fault + 'a kernel_scheme" where
  "switch_to sp me nxt s =
     rbind (upd_task me (\<lambda>t. t\<lparr>kernel_stack := sp\<rparr>) s) (upd_task nxt (\<lambda>t. t\<lparr>t_last := me\<rparr>))"

definition dispatch :: "u64 \<Rightarrow> u64 \<Rightarrow> u64 \<Rightarrow> 'a kernel_scheme \<Rightarrow> fault + 'a kernel_scheme cpu" where
  "dispatch sp me nxt s =
     (if nxt = me then Inr (Returns s)
      else rbind (deref (task_heap s) nxt) (\<lambda>t.
           let s = s\<lparr>current := nxt, rsp0 := kernel_stack t\<rparr> in
           rbind (switch_mm me nxt s) (\<lambda>s.
           rbind (switch_to sp me nxt s) (\<lambda>s. Inr (Switched s)))))"

text \<open>The part of \<open>exit_st\<close> in front of the call of \<open>schedule\<close>.\<close>

definition make_zombie :: "u64 \<Rightarrow> u32 \<Rightarrow> 'a kernel_scheme \<Rightarrow> fault + 'a kernel_scheme" where
  "make_zombie ts status s =
     rbind (upd_task ts (\<lambda>t. t\<lparr>exit_status := status, t_state := ZOMBIE\<rparr>) s) (\<lambda>s.
     rbind (remove_from_tasklist Active ts s) (\<lambda>(_, s).
     rbind (add_to_tasklist Zombies ts s) (\<lambda>s.
     rbind (deref (task_heap s) ts) (\<lambda>t.
     rbind (if waited t = 1 then
              rbind (find_process_by_pid (ppid t) (sleep_task_list s) s) (\<lambda>father.
              if father = 0 then upd_task ts (\<lambda>t. t\<lparr>orphan := 1\<rparr>) s
              else wakeup Sleeping father 1 s)
            else upd_task ts (\<lambda>t. t\<lparr>orphan := 1\<rparr>) s) (\<lambda>s.
     rbind (deref (task_heap s) ts) (\<lambda>t.
     if orphan t = 1 then
       let s = s\<lparr>zombie_count := zombie_count s + 1\<rparr> in
       if zombie_count s = 50 then wakeup Sleeping (clear_zombie s) 1 s else Inr s
     else Inr s))))))"

text \<open>
  \<open>schedule\<close> and \<open>exit_st\<close> call each other: a selected task that has been killed exits first. Each
  such round takes a task off the active list, so the number of rounds is bounded by the
  number of tasks; the first argument bounds it.
\<close>

fun schedule_loop :: "nat \<Rightarrow> u64 \<Rightarrow> u64 \<Rightarrow> 'a kernel_scheme \<Rightarrow> fault + 'a kernel_scheme cpu"
  and exit_st_n :: "nat \<Rightarrow> u64 \<Rightarrow> u64 \<Rightarrow> u32 \<Rightarrow> 'a kernel_scheme \<Rightarrow> fault + 'a kernel_scheme cpu" where
  "schedule_loop 0 sp me s = Inl Diverge"
| "schedule_loop (Suc k) sp me s =
     rbind (select_task_struct s) (\<lambda>nxt.
     rbind (deref (task_heap s) nxt) (\<lambda>t.
     if sigterm t = 1 then
       rbind (exit_st_n k sp nxt 1 s) (\<lambda>r.
       case r of Switched s \<Rightarrow> Inr (Switched s) | Returns s \<Rightarrow> schedule_loop k sp me s)
     else dispatch sp me nxt s))"
| "exit_st_n 0 sp ts status s = Inl Diverge"
| "exit_st_n (Suc k) sp ts status s =
     rbind (make_zombie ts status s) (\<lambda>s. schedule_loop k sp (current s) s)"

abbreviation (input) SCHED_FUEL :: nat where "SCHED_FUEL \<equiv> 65536"

definition schedule :: "u64 \<Rightarrow> 'a kernel_scheme \<Rightarrow> fault + 'a kernel_scheme cpu" where
  "schedule sp s = schedule_loop SCHED_FUEL sp (current s) s"

definition exit_st :: "u64 \<Rightarrow> u64 \<Rightarrow> u32 \<Rightarrow> 'a kernel_scheme \<Rightarrow> fault + 'a kernel_scheme cpu" where
  "exit_st sp ts status s = exit_st_n (Suc SCHED_FUEL) sp ts status s"

definition sleep :: "u64 \<Rightarrow> task_list \<Rightarrow> u32 \<Rightarrow> 'a kernel_scheme \<Rightarrow> fault + 'a kernel_scheme cpu" where
  "sleep sp l time s =
     rbind (remove_from_tasklist Active (current s) s) (\<lambda>(removed, s).
     rbind (if removed = 0 then add_to_tasklist l (current s) s
            else Inl (Panic ''[sleep]can't find process on active list!'')) (\<lambda>s.
     rbind (upd_task (current s) (\<lambda>t. t\<lparr>sleep_time := time, t_state := SLEEP\<rparr>) s) (schedule sp)))"

section \<open>Creating tasks\<close>

text \<open>\<open>strncpy\<close> into a field of a struct, from a C string.\<close>

definition copy_field :: "string \<Rightarrow> string \<Rightarrow> nat \<Rightarrow> fault + string" where
  "copy_field dest src n = rbind (strncpy (Some dest) (Some src) n) (\<lambda>r. case r of None \<Rightarrow> Inl Null_Deref | Some b \<Rightarrow> Inr b)"

abbreviation c_lit :: "string \<Rightarrow> string" where "c_lit t \<equiv> t @ [NUL]"

definition alloc_task :: "'a kernel_scheme \<Rightarrow> fault + u64 \<times> 'a kernel_scheme" where
  "alloc_task s =
     rbind (get_zero_page s) (\<lambda>(p, s). Inr (p, s\<lparr>task_heap := (task_heap s)(p \<mapsto> zero_task)\<rparr>))"

definition init_proc :: "'a kernel_scheme \<Rightarrow> fault + 'a kernel_scheme" where
  "init_proc s =
     rbind (alloc_task s) (\<lambda>(tsp, s).
     rbind (copy_field (t_name zero_task) (c_lit ''init'') 4) (\<lambda>nm.
     rbind (copy_field (t_cwd zero_task) (c_lit ''/'') 1) (\<lambda>wd.
     let n = pid_count s in
     rbind (upd_task tsp (\<lambda>t. t\<lparr>t_prev := 0, t_next := 0, t_last := 0, pid := n, t_name := nm, t_cwd := wd,
        t_mm := 0, t_func := 0, kernel_stack := 0\<rparr>) (s\<lparr>task_headp := tsp, pid_count := n + 1\<rparr>)) (\<lambda>s.
     Inr (s\<lparr>current := task_headp s\<rparr>)))))"

text \<open>
  The kernel stack of a new thread: the start address on top, below it the \<open>context_info\<close>
  (16 words) \<open>__switch_to\<close> pops, of which \<open>rcx\<close> (the address of \<open>last\<close>, 16 bytes into the
  task) and \<open>rax\<close> are set.
\<close>

definition kernel_thread :: "u64 \<Rightarrow> string option \<Rightarrow> 'a kernel_scheme \<Rightarrow> fault + u32 \<times> 'a kernel_scheme" where
  "kernel_thread f thread_name s =
     rbind (alloc_task s) (\<lambda>(tsp, s).
     if tsp = 0 then Inr (- 1, s) else
     let n = pid_count s; s = s\<lparr>pid_count := n + 1\<rparr> in
     rbind (case thread_name of
              Some b \<Rightarrow> rbind (strlen (Some b)) (copy_field (t_name zero_task) b)
            | None \<Rightarrow> copy_field (t_name zero_task) (c_lit ''anonimous process'') 20) (\<lambda>nm.
     rbind (copy_field (t_cwd zero_task) (c_lit ''/'') 1) (\<lambda>wd.
     rbind (upd_task tsp (\<lambda>t. t\<lparr>pid := n, t_name := nm, t_cwd := wd, t_func := f\<rparr>) s) (\<lambda>s.
     rbind (get_zero_page s) (\<lambda>(stk, s).
     if stk = 0 then Inr (- 1, s) else
     let ctx = stk + 4096 - 8 - 128;
         s = s\<lparr>ram := store64 (VA2PA (ctx + 8)) tsp (store64 (VA2PA ctx) (tsp + 16)
               (store64 (VA2PA (stk + 4096 - 8)) f (ram s)))\<rparr> in
     rbind (upd_task tsp (\<lambda>t. t\<lparr>kernel_stack := ctx, t_next := task_headp s, t_prev := 0\<rparr>) s) (\<lambda>s.
     rbind (upd_task (task_headp s) (\<lambda>t. t\<lparr>t_prev := tsp\<rparr>) s) (\<lambda>s.
     Inr (n, s\<lparr>task_headp := tsp\<rparr>))))))))"

section \<open>The end of a task\<close>

definition free_process :: "u64 \<Rightarrow> 'a kernel_scheme \<Rightarrow> fault + 'a kernel_scheme" where
  "free_process p s =
     rbind (check (p \<noteq> 0) (Assert_Fail ''p != NULL && p->state == ZOMBIE'')) (\<lambda>_.
     rbind (deref (task_heap s) p) (\<lambda>t.
     rbind (check (t_state t = ZOMBIE) (Assert_Fail ''p != NULL && p->state == ZOMBIE'')) (\<lambda>_.
     rbind (free_page (frame_no (kernel_stack t)) s) (\<lambda>s.
     rbind (check (t_mm t \<noteq> 0) (Assert_Fail ''p->mm != NULL'')) (\<lambda>_.
     rbind (remove_from_tasklist Zombies p s) (\<lambda>(_, s).
     free_page (frame_no p) s))))))"

text \<open>One round of the endless loop of \<open>thread_clear\<close>, up to the point where it sleeps.\<close>

fun clear_orphans :: "nat \<Rightarrow> u64 \<Rightarrow> 'a kernel_scheme \<Rightarrow> fault + 'a kernel_scheme" where
  "clear_orphans 0 p s = Inl Diverge"
| "clear_orphans (Suc k) p s =
     (if p = 0 then Inr s
      else rbind (deref (task_heap s) p) (\<lambda>t.
           rbind (if orphan t = 1 then free_process p s else Inr s) (clear_orphans k (t_next t))))"

definition thread_clear_round :: "u64 \<Rightarrow> 'a kernel_scheme \<Rightarrow> fault + 'a kernel_scheme cpu" where
  "thread_clear_round sp s =
     rbind (clear_orphans LIST_FUEL (zombie_list s) s) (\<lambda>s.
     sleep sp Sleeping (- 1) (s\<lparr>zombie_count := 0\<rparr>))"

definition find_task :: "u32 \<Rightarrow> 'a kernel_scheme \<Rightarrow> fault + u64" where
  "find_task n s =
     rbind (find_process_by_pid n (task_headp s) s) (\<lambda>p. if p \<noteq> 0 then Inr p else
     rbind (find_process_by_pid n (sleep_task_list s) s) (\<lambda>p. if p \<noteq> 0 then Inr p else
     find_process_by_pid n (wait_stdin_list s) s))"

text \<open>
  \<open>waitpid\<close> up to the point where it sleeps (the child, or 0 when there is none), and the rest,
  which runs in the state in which the parent has been woken up.
\<close>

definition waitpid_start :: "u64 \<Rightarrow> u32 \<Rightarrow> 'a kernel_scheme \<Rightarrow> fault + u64 \<times> 'a kernel_scheme cpu" where
  "waitpid_start sp n s =
     rbind (find_task n s) (\<lambda>child.
     if child = 0 then
       rbind (printf (''can't find child process with pid :%d'' @ newline) [VInt n] s) (\<lambda>s. Inr (0, Returns s))
     else
       rbind (upd_task child (\<lambda>t. t\<lparr>waited := 1\<rparr>) s) (\<lambda>s.
       rbind (sleep sp Sleeping (- 1) s) (\<lambda>r. Inr (child, r))))"

definition waitpid_resume :: "u64 \<Rightarrow> 'a kernel_scheme \<Rightarrow> fault + u32 \<times> 'a kernel_scheme" where
  "waitpid_resume child s =
     rbind (deref (task_heap s) child) (\<lambda>t.
     rbind (free_process child s) (\<lambda>s. Inr (exit_status t, s)))"

abbreviation (input) SIGKILL :: u32 where "SIGKILL \<equiv> 9"

definition kill_by_pid :: "u32 \<Rightarrow> u32 \<Rightarrow> 'a kernel_scheme \<Rightarrow> fault + u64 \<times> 'a kernel_scheme" where
  "kill_by_pid n sig s =
     rbind (find_task n s) (\<lambda>tsp.
     if tsp = 0 then
       rbind (printf (''[kill_by_pid] can't find child process with pid :%d'' @ newline) [VInt n] s) (\<lambda>s. Inr (- 1, s))
     else rbind (deref (task_heap s) tsp) (\<lambda>t.
       if t_mm t = 0 then
         rbind (printf (''ERROR: can't kill kernel thread!'' @ newline) [] s) (\<lambda>s. Inr (- 1, s))
       else if sig = SIGKILL then
         rbind (upd_task tsp (\<lambda>t. t\<lparr>sigterm := 1\<rparr>) s) (\<lambda>s. Inr (0, s))
       else Inr (0, s)))"

section \<open>ps\<close>

abbreviation (input) tab :: string where "tab \<equiv> [CHR 0x09]"

definition ps_user :: "task_struct \<Rightarrow> string" where
  "ps_user t = (if t_mm t = 0 then c_lit ''root'' else c_lit ''zhisun'')"

text \<open>The two formats: with the state computed (active list), and with the state in the format.\<close>

definition ps_active :: "u32 \<Rightarrow> task_struct \<Rightarrow> 'a kernel_scheme \<Rightarrow> fault + 'a kernel_scheme" where
  "ps_active cur t = printf (''%d'' @ tab @ ''%d'' @ tab @ ''%s'' @ tab @ ''%s'' @ tab @ ''%s'' @ newline)
     [VInt (pid t), VInt (ppid t), VStr (Some (ps_user t)),
      VStr (Some (if pid t = cur then c_lit ''RUNING'' else c_lit ''ACTIVE'')), VStr (Some (t_name t))]"

definition ps_state :: "string \<Rightarrow> task_struct \<Rightarrow> 'a kernel_scheme \<Rightarrow> fault + 'a kernel_scheme" where
  "ps_state st t = printf (''%d'' @ tab @ ''%d'' @ tab @ ''%s'' @ tab @ st @ tab @ ''%s'' @ newline)
     [VInt (pid t), VInt (ppid t), VStr (Some (ps_user t)), VStr (Some (t_name t))]"

fun ps_list :: "nat \<Rightarrow> (task_struct \<Rightarrow> 'a kernel_scheme \<Rightarrow> fault + 'a kernel_scheme) \<Rightarrow> u64 \<Rightarrow>
    'a kernel_scheme \<Rightarrow> fault + 'a kernel_scheme" where
  "ps_list 0 line p s = Inl Diverge"
| "ps_list (Suc k) line p s =
     (if p = 0 then Inr s
      else rbind (deref (task_heap s) p) (\<lambda>t. rbind (line t s) (ps_list k line (t_next t))))"

definition ps :: "'a kernel_scheme \<Rightarrow> fault + u64 \<times> 'a kernel_scheme" where
  "ps s =
     rbind (deref (task_heap s) (current s)) (\<lambda>c.
     rbind (printf (''pid'' @ tab @ ''ppid'' @ tab @ ''user'' @ tab @ ''state'' @ tab @ ''process_name'' @ newline) [] s) (\<lambda>s.
     rbind (ps_list LIST_FUEL (ps_active (pid c)) (task_headp s) s) (\<lambda>s.
     rbind (ps_list LIST_FUEL (ps_state ''SLEEP'') (sleep_task_list s) s) (\<lambda>s.
     rbind (ps_list LIST_FUEL (ps_state ''SLEEP'') (wait_stdin_list s) s) (\<lambda>s.
     rbind (ps_list LIST_FUEL (ps_state ''ZOMBIE'') (zombie_list s) s) (\<lambda>s. Inr (0, s)))))))"

definition getpid :: "'a kernel_scheme \<Rightarrow> fault + u64" where
  "getpid s = rbind (deref (task_heap s) (current s)) (\<lambda>t. Inr (signed (pid t)))"

definition getppid :: "'a kernel_scheme \<Rightarrow> fault + u64" where
  "getppid s = rbind (deref (task_heap s) (current s)) (\<lambda>t. Inr (signed (ppid t)))"

section \<open>The timer interrupt\<close>

definition digit_cell :: "int \<Rightarrow> char" where
  "digit_cell d = char_of (d + 48)"

definition write_time_to_screen :: "int \<Rightarrow> int \<Rightarrow> int \<Rightarrow> 'a console_scheme \<Rightarrow> 'a console_scheme" where
  "write_time_to_screen h m sc s =
     (let s = put_to_screen (if h \<ge> 10 then digit_cell (h div 10) else CHR ''0'') 70 24 9 s;
          s = put_to_screen (digit_cell (c_mod h 10)) 71 24 9 s;
          s = put_to_screen CHR '':'' 72 24 9 s;
          s = put_to_screen (if m \<ge> 10 then digit_cell (m div 10) else CHR ''0'') 73 24 9 s;
          s = put_to_screen (digit_cell (c_mod m 10)) 74 24 9 s;
          s = put_to_screen CHR '':'' 75 24 9 s;
          s = put_to_screen (if sc \<ge> 10 then digit_cell (sc div 10) else CHR ''0'') 76 24 9 s
      in put_to_screen (digit_cell (c_mod sc 10)) 77 24 9 s)"

definition advance_clock :: "'a kernel_scheme \<Rightarrow> 'a kernel_scheme" where
  "advance_clock s =
     (let s = s\<lparr>sec := sec s + 1\<rparr> in
      if c_mod (sec s) 60 = 0 then
        let s = s\<lparr>sec := 0, minute := minute s + 1\<rparr> in
        if c_mod (minute s) 60 = 0 then s\<lparr>minute := 0, hour := hour s + 1\<rparr> else s
      else s)"

definition tick :: "'a kernel_scheme \<Rightarrow> 'a kernel_scheme" where
  "tick s =
     (let s = s\<lparr>ticks := ticks s + 1\<rparr> in
      if ticks s mod 100 = 0
      then let s = advance_clock s in write_time_to_screen (hour s) (minute s) (sec s) s
      else s)"

definition interrupt_handler_timer :: "u64 \<Rightarrow> 'a kernel_scheme \<Rightarrow> fault + 'a kernel_scheme cpu" where
  "interrupt_handler_timer sp s =
     (let s = tick s in
      rbind (deref (task_heap s) (current s)) (\<lambda>c.
      if timeslice c = 10 then
        rbind (upd_task (current s) (\<lambda>t. t\<lparr>timeslice := 0\<rparr>) s) (schedule sp)
      else
        rbind (upd_task (current s) (\<lambda>t. t\<lparr>timeslice := timeslice t + 1\<rparr>) s) (\<lambda>s. Inr (Returns s))))"

section \<open>Page faults\<close>

abbreviation (input) PFEC_P :: nat where "PFEC_P \<equiv> 0"
abbreviation (input) PFEC_RW :: nat where "PFEC_RW \<equiv> 1"
abbreviation (input) PFEC_US :: nat where "PFEC_US \<equiv> 2"

definition kernel_bad_area :: "u64 \<Rightarrow> u64 \<Rightarrow> u64 \<Rightarrow> 'a kernel_scheme \<Rightarrow> fault + 'b" where
  "kernel_bad_area addr ecode eip s =
     rbind (deref (task_heap s) (current s)) (\<lambda>c.
     rbind (printf (''pagefault info addr: 0x%lx, ecode: 0x%lx, eip: 0x%lx, current:%lx, mm:%lx'' @ newline)
              [VLong addr, VLong ecode, VLong eip, VLong (current s), VLong (t_mm c)] s) (\<lambda>s.
     Inl (Panic ''ERROR: unable to handle this pagefault!'')))"

text \<open>Should \<open>exit_st\<close> return, the handler falls through to the panic of the kernel case.\<close>

definition user_bad_area :: "u64 \<Rightarrow> u64 \<Rightarrow> u64 \<Rightarrow> u64 \<Rightarrow> 'a kernel_scheme \<Rightarrow> fault + 'a kernel_scheme cpu" where
  "user_bad_area sp addr ecode eip s =
     rbind (printf (''Segmentation Fault!'' @ newline) [] s) (\<lambda>s.
     rbind (exit_st sp (current s) (- 1) s) (\<lambda>r.
     case r of Switched s \<Rightarrow> Inr (Switched s) | Returns s \<Rightarrow> kernel_bad_area addr ecode eip s))"

definition put_pte_entry_trick :: "u64 \<Rightarrow> u64 \<Rightarrow> u64 \<Rightarrow> 'a phymem_scheme \<Rightarrow> fault + 'a phymem_scheme" where
  "put_pte_entry_trick addr pg_frame prot s =
     vstore64 (get_pte_entry_addr_trick addr) (VA2PA pg_frame OR prot) s"

text \<open>Copy-on-write: the write to a present, read-only page.\<close>

definition cow_fault :: "u64 \<Rightarrow> u64 \<Rightarrow> 'a kernel_scheme \<Rightarrow> fault + 'a kernel_scheme" where
  "cow_fault addr pte s =
     rbind (get_page_ref (drop_bit 12 pte) s) (\<lambda>ref.
     rbind (if sint ref > 1 then
              rbind (get_zero_page s) (\<lambda>(pg_frame, s).
              if pg_frame = 0 then Inl (Panic ''[page_fault_handler]ERROR: alloc pg_frame failed!'')
              else let s = s\<lparr>ram := copy_page pg_frame (PA2VA (pte AND PG_MASK)) (ram s)\<rparr> in
                   rbind (put_pte_entry_trick addr pg_frame (ENTRY_P OR ENTRY_RW OR ENTRY_US) s)
                     (deduct_page_ref (drop_bit 12 pte)))
            else put_pte_entry_trick addr (PA2VA (pte AND PG_MASK)) (ENTRY_P OR ENTRY_RW OR ENTRY_US) s)
       flush_tlb)"

definition page_fault_handler :: "u64 \<Rightarrow> u64 \<Rightarrow> u64 \<Rightarrow> u64 \<Rightarrow> 'a kernel_scheme \<Rightarrow> fault + 'a kernel_scheme cpu" where
  "page_fault_handler sp addr ecode eip s =
     (if bit ecode PFEC_US then
        if \<not> bit ecode PFEC_P then
          rbind (deref (task_heap s) (current s)) (\<lambda>c.
          rbind (search_vma addr (t_mm c) s) (\<lambda>vma.
          if vma \<noteq> 0 then rbind (map_a_page vma addr s) (\<lambda>s. Inr (Returns s))
          else user_bad_area sp addr ecode eip s))
        else if bit ecode PFEC_RW then
          rbind (vload64 (get_pte_entry_addr_trick addr) s) (\<lambda>pte.
          rbind (check (pte \<noteq> 0) (Assert_Fail ''get_pte_entry_trick(addr) != 0'')) (\<lambda>_.
          if pte AND PTE_COW \<noteq> 0 then rbind (cow_fault addr pte s) (\<lambda>s. Inr (Returns s))
          else user_bad_area sp addr ecode eip s))
        else user_bad_area sp addr ecode eip s
      else kernel_bad_area addr ecode eip s)"

end
