(* ===== verification/TaskLists.thy ===== *)
theory TaskLists
  imports Tasks
begin

text \<open>
  The four task lists as an abstract data type. \<open>lists_wf s L\<close>: list \<open>l\<close> of the kernel holds the
  tasks \<open>L l\<close>, in order, and no task is on two lists. The locale states what \<open>sleep\<close>, \<open>wakeup\<close> and
  \<open>exit_st\<close> rely on when they move a task from one list to another; the interpretation shows
  that the linked lists of src/sys/process.c provide it.
\<close>

section \<open>The interface\<close>

locale list_family =
  fixes wf :: "'s \<Rightarrow> ('l \<Rightarrow> u64 list) \<Rightarrow> bool"
    and known :: "'s \<Rightarrow> u64 set"
    and add :: "'l \<Rightarrow> u64 \<Rightarrow> 's \<Rightarrow> 'e + 's"
    and remove :: "'l \<Rightarrow> u64 \<Rightarrow> 's \<Rightarrow> 'e + u32 \<times> 's"
  assumes wf_known: "wf s L \<Longrightarrow> x \<in> set (L l) \<Longrightarrow> x \<in> known s"
    and wf_distinct: "wf s L \<Longrightarrow> distinct (L l)"
    and wf_disjoint: "wf s L \<Longrightarrow> l \<noteq> l' \<Longrightarrow> set (L l) \<inter> set (L l') = {}"
    and add_front: "wf s L \<Longrightarrow> x \<in> known s \<Longrightarrow> (\<And>l. x \<notin> set (L l)) \<Longrightarrow>
      \<exists>t. add l x s = Inr t \<and> wf t (L(l := x # L l)) \<and> known t = known s"
    and remove_one: "wf s L \<Longrightarrow> x \<in> set (L l) \<Longrightarrow>
      \<exists>t. remove l x s = Inr (0, t) \<and> wf t (L(l := remove1 x (L l))) \<and> known t = known s"
begin

lemma only_list: "wf s L \<Longrightarrow> x \<in> set (L l) \<Longrightarrow> x \<in> set (L l') \<Longrightarrow> l' = l"
  using wf_disjoint by blast

lemma move:
  assumes "wf s L" "x \<in> set (L l)" "l \<noteq> l'"
  shows "\<exists>u t. remove l x s = Inr (0, u) \<and> wf u (L(l := remove1 x (L l))) \<and>
    add l' x u = Inr t \<and> wf t (L(l := remove1 x (L l), l' := x # L l')) \<and> known t = known s"
proof -
  obtain u where u: "remove l x s = Inr (0, u)" "wf u (L(l := remove1 x (L l)))" "known u = known s"
    using remove_one [OF assms(1,2)] by blast
  have x: "x \<in> known u" using wf_known [OF assms(1,2)] u(3) by simp
  have no: "x \<notin> set ((L(l := remove1 x (L l))) k)" for k
    using only_list [OF assms(1,2)] wf_distinct [OF assms(1), of l] by auto
  obtain t where "add l' x u = Inr t"
    "wf t ((L(l := remove1 x (L l)))(l' := x # (L(l := remove1 x (L l))) l'))" "known t = known u"
    using add_front [OF u(2) x no] by blast
  then show ?thesis using u assms(3) by auto
qed

end

section \<open>The kernel's lists\<close>

definition lists_wf :: "'a kernel_scheme \<Rightarrow> (task_list \<Rightarrow> u64 list) \<Rightarrow> bool" where
  "lists_wf s L \<longleftrightarrow>
     (\<forall>l. hlist t_next (task_heap s) (list_head l s) (L l)) \<and>
     (\<forall>l l'. l \<noteq> l' \<longrightarrow> set (L l) \<inter> set (L l') = {}) \<and>
     card (dom (task_heap s)) < LIST_FUEL \<and> finite (dom (task_heap s))"

definition known_tasks :: "'a kernel_scheme \<Rightarrow> u64 set" where
  "known_tasks s = {p. p \<noteq> 0 \<and> p \<in> dom (task_heap s)}"

lemma set_head_simps [simp]:
  "list_head l (set_head l v s) = v"
  "l \<noteq> l' \<Longrightarrow> list_head l' (set_head l v s) = list_head l' s"
  "task_heap (set_head l v s) = task_heap s"
  "current (set_head l v s) = current s"
  "mm_heap (set_head l v s) = mm_heap s"
  "ram (set_head l v s) = ram s"
  by (cases l; cases l'; simp)+

lemma head_heap_upd [simp]: "list_head l (s\<lparr>task_heap := h\<rparr>) = list_head l s"
  by (cases l) simp_all

lemma lists_wfD:
  assumes "lists_wf s L"
  shows "hlist t_next (task_heap s) (list_head l s) (L l)"
    "l \<noteq> l' \<Longrightarrow> set (L l) \<inter> set (L l') = {}"
    "x \<in> set (L l) \<Longrightarrow> x \<noteq> 0 \<and> (\<exists>t. task_heap s x = Some t)"
    "distinct (L l)" "length (L l) < LIST_FUEL"
proof -
  show h: "hlist t_next (task_heap s) (list_head l s) (L l)" for l using assms by (simp add: lists_wf_def)
  show "l \<noteq> l' \<Longrightarrow> set (L l) \<inter> set (L l') = {}" using assms by (simp add: lists_wf_def)
  show n: "x \<in> set (L l) \<Longrightarrow> x \<noteq> 0 \<and> (\<exists>t. task_heap s x = Some t)" for x l using hseg_nodes [OF h] .
  show d: "distinct (L l)" using hlist_distinct [OF h] .
  have "set (L l) \<subseteq> dom (task_heap s)" using n by auto
  then have "card (set (L l)) \<le> card (dom (task_heap s))"
    using assms by (intro card_mono) (simp_all add: lists_wf_def)
  then show "length (L l) < LIST_FUEL" using assms d by (simp add: lists_wf_def distinct_card)
qed

lemma lists_wfI:
  assumes "\<And>l. hlist t_next (task_heap t) (list_head l t) (L' l)"
    and "\<And>l l'. l \<noteq> l' \<Longrightarrow> set (L' l) \<inter> set (L' l') = {}"
    and "lists_wf s L" "dom (task_heap t) = dom (task_heap s)"
  shows "lists_wf t L'"
  using assms by (simp add: lists_wf_def)

lemma add_to_tasklist_eq:
  "ts \<noteq> 0 \<Longrightarrow> task_heap s ts = Some t \<Longrightarrow>
     add_to_tasklist l ts s = Inr (set_head l ts (s\<lparr>task_heap := (task_heap s)(ts \<mapsto> t\<lparr>t_next := list_head l s\<rparr>)\<rparr>))"
  by (simp add: add_to_tasklist_def upd_task_def)

lemma add_to_tasklist_wf:
  assumes wf: "lists_wf s L" and ts: "ts \<noteq> 0" "task_heap s ts = Some t" "\<And>l. ts \<notin> set (L l)"
  shows "lists_wf (set_head l ts (s\<lparr>task_heap := (task_heap s)(ts \<mapsto> t\<lparr>t_next := list_head l s\<rparr>)\<rparr>)) (L(l := ts # L l))"
    (is "lists_wf ?s _")
proof (rule lists_wfI [OF _ _ wf])
  fix k
  show "hlist t_next (task_heap ?s) (list_head k ?s) ((L(l := ts # L l)) k)"
  proof (cases "k = l")
    case True
    then show ?thesis
      using task_links.push_front [OF lists_wfD(1) [OF wf, of l] ts(1) ts(3), of t] by simp
  next
    case False
    then show ?thesis using lists_wfD(1) [OF wf, of k] ts(3) [of k] by simp
  qed
next
  fix k k' :: task_list assume "k \<noteq> k'"
  then show "set ((L(l := ts # L l)) k) \<inter> set ((L(l := ts # L l)) k') = {}"
    using lists_wfD(2) [OF wf, of k k'] ts(3) [of k] ts(3) [of k'] by auto
qed (use ts(2) in auto)

text \<open>Taking the first task off a list, and one further down.\<close>

lemma remove_head_wf:
  assumes wf: "lists_wf s L" and L: "L l = ts # bs" and t: "task_heap s ts = Some t"
  defines "s' \<equiv> (set_head l (t_next t) s)\<lparr>task_heap := (task_heap s)(ts \<mapsto> t\<lparr>t_next := 0\<rparr>)\<rparr>"
  shows "remove_from_tasklist l ts s = Inr (0, s')" and "lists_wf s' (L(l := bs))"
proof -
  let ?s = "(set_head l (t_next t) s)\<lparr>task_heap := (task_heap s)(ts \<mapsto> t\<lparr>t_next := 0\<rparr>)\<rparr>"
  note h = lists_wfD(1) [OF wf, of l, unfolded L]
  have ts: "ts \<noteq> 0" "list_head l s = ts" "hlist t_next (task_heap s) (t_next t) bs" using h t by auto
  then show "remove_from_tasklist l ts s = Inr (0, s')"
    using t by (simp add: remove_from_tasklist_def upd_task_def s'_def)
  show "lists_wf s' (L(l := bs))" unfolding s'_def
  proof (rule lists_wfI [OF _ _ wf])
    fix k
    have "ts \<notin> set (L k)" if "k \<noteq> l" using lists_wfD(2) [OF wf, of k l] that L by auto
    moreover have "ts \<notin> set bs" using lists_wfD(4) [OF wf, of l] L by simp
    ultimately show "hlist t_next (task_heap ?s) (list_head k ?s) ((L(l := bs)) k)"
      using ts(3) lists_wfD(1) [OF wf, of k] by (cases "k = l") simp_all
  next
    fix k k' :: task_list assume "k \<noteq> k'"
    then show "set ((L(l := bs)) k) \<inter> set ((L(l := bs)) k') = {}"
      using lists_wfD(2) [OF wf, of k k'] L by auto
  qed (use t in auto)
qed

lemma remove_inner_wf:
  assumes wf: "lists_wf s L" and L: "L l = as @ p # ts # bs"
    and t: "task_heap s ts = Some t" "task_heap s p = Some n"
  defines "s' \<equiv> s\<lparr>task_heap := (task_heap s)(p \<mapsto> n\<lparr>t_next := t_next t\<rparr>, ts \<mapsto> t\<lparr>t_next := 0\<rparr>)\<rparr>"
  shows "remove_from_tasklist l ts s = Inr (0, s')" and "lists_wf s' (L(l := as @ p # bs))"
proof -
  let ?s = "s\<lparr>task_heap := (task_heap s)(p \<mapsto> n\<lparr>t_next := t_next t\<rparr>, ts \<mapsto> t\<lparr>t_next := 0\<rparr>)\<rparr>"
  note h = lists_wfD(1) [OF wf, of l, unfolded L]
  have d: "distinct (as @ p # ts # bs)" using lists_wfD(4) [OF wf, of l] L by simp
  have ts: "ts \<noteq> 0" "p \<noteq> 0" using hseg_nodes [OF h] by auto
  have "list_head l s \<noteq> ts" using hlist_head [OF h] d by (cases as) auto
  moreover have "hpred LIST_FUEL t_next ts (task_heap s) (list_head l s) = Inr p"
    by (rule hpred_found [OF h]) (use lists_wfD(5) [OF wf, of l] L in simp)
  moreover have "p \<noteq> ts" using d by auto
  ultimately show "remove_from_tasklist l ts s = Inr (0, s')"
    using t ts by (simp add: remove_from_tasklist_def upd_task_def s'_def)
  show "lists_wf s' (L(l := as @ p # bs))" unfolding s'_def
  proof (rule lists_wfI [OF _ _ wf])
    fix k
    show "hlist t_next (task_heap ?s) (list_head k ?s) ((L(l := as @ p # bs)) k)"
    proof (cases "k = l")
      case True
      have "ts \<notin> set (as @ p # bs)" using d by auto
      with True show ?thesis
        using task_links.unlink [OF h t(2,1)] by simp
    next
      case False
      then have "p \<notin> set (L k)" "ts \<notin> set (L k)" using lists_wfD(2) [OF wf, of k l] L by auto
      with False show ?thesis using lists_wfD(1) [OF wf, of k] by simp
    qed
  next
    fix k k' :: task_list assume "k \<noteq> k'"
    then show "set ((L(l := as @ p # bs)) k) \<inter> set ((L(l := as @ p # bs)) k') = {}"
      using lists_wfD(2) [OF wf, of k k'] L by auto
  qed (use t in auto)
qed

text \<open>
  Moving tasks between lists changes the links and the list heads only: \<open>relinked s t\<close>.
\<close>

definition no_link :: "task_struct \<Rightarrow> task_struct" where
  "no_link t = t\<lparr>t_next := 0\<rparr>"

definition off_lists :: "'a kernel_scheme \<Rightarrow> 'a kernel_scheme" where
  "off_lists s = s\<lparr>task_heap := Map.empty, task_headp := 0, sleep_task_list := 0, wait_stdin_list := 0, zombie_list := 0\<rparr>"

definition relinked :: "'a kernel_scheme \<Rightarrow> 'a kernel_scheme \<Rightarrow> bool" where
  "relinked s t \<longleftrightarrow> (\<forall>p. map_option no_link (task_heap t p) = map_option no_link (task_heap s p)) \<and>
     off_lists t = off_lists s"

lemma no_link_simps [simp]: "no_link (t\<lparr>t_next := v\<rparr>) = no_link t"
  by (simp add: no_link_def)

lemma relinked_trans [trans]: "relinked s t \<Longrightarrow> relinked t u \<Longrightarrow> relinked s u"
  by (simp add: relinked_def)

lemma relinked_refl [simp]: "relinked s s"
  by (simp add: relinked_def)

lemma off_lists_fields:
  assumes "off_lists t = off_lists s"
  shows "current t = current s" "mm_heap t = mm_heap s" "vma_heap t = vma_heap s" "ram t = ram s" "cr3 t = cr3 s"
    "page_ref t = page_ref s" "zombie_count t = zombie_count s" "clear_zombie t = clear_zombie s"
    "rsp0 t = rsp0 s" "pid_count t = pid_count s"
  using arg_cong [OF assms, of current] arg_cong [OF assms, of mm_heap] arg_cong [OF assms, of vma_heap]
    arg_cong [OF assms, of ram] arg_cong [OF assms, of cr3] arg_cong [OF assms, of page_ref]
    arg_cong [OF assms, of zombie_count] arg_cong [OF assms, of clear_zombie] arg_cong [OF assms, of rsp0]
    arg_cong [OF assms, of pid_count]
  by (simp_all add: off_lists_def)

lemma relinked_fields:
  assumes "relinked s t"
  shows "current t = current s" "mm_heap t = mm_heap s" "vma_heap t = vma_heap s" "ram t = ram s" "cr3 t = cr3 s"
    "page_ref t = page_ref s" "zombie_count t = zombie_count s" "clear_zombie t = clear_zombie s"
    "rsp0 t = rsp0 s" "pid_count t = pid_count s"
  by (rule off_lists_fields, use assms in \<open>simp add: relinked_def\<close>)+

lemma off_lists_simps [simp]:
  "off_lists (set_head l v s) = off_lists s" "off_lists (s\<lparr>task_heap := h\<rparr>) = off_lists s"
  by (cases l) (simp_all add: off_lists_def)

lemma relinked_task:
  assumes "relinked s t" "task_heap s p = Some n"
  shows "\<exists>v. task_heap t p = Some (n\<lparr>t_next := v\<rparr>)"
proof -
  have "map_option no_link (task_heap t p) = Some (no_link n)"
    using assms by (simp add: relinked_def)
  then obtain m where m: "task_heap t p = Some m" "no_link m = no_link n" by auto
  have "n\<lparr>t_next := t_next m\<rparr> = (no_link n)\<lparr>t_next := t_next m\<rparr>" by (simp add: no_link_def)
  also have "\<dots> = m" unfolding m(2) [symmetric] by (simp add: no_link_def)
  finally have "n\<lparr>t_next := t_next m\<rparr> = m" .
  then show ?thesis using m(1) by (intro exI [of _ "t_next m"]) simp
qed

lemma relinked_dom: "relinked s t \<Longrightarrow> dom (task_heap t) = dom (task_heap s)"
proof (rule set_eqI)
  fix p assume "relinked s t"
  then have "map_option no_link (task_heap t p) = map_option no_link (task_heap s p)" by (simp add: relinked_def)
  then show "p \<in> dom (task_heap t) \<longleftrightarrow> p \<in> dom (task_heap s)"
    by (cases "task_heap s p"; cases "task_heap t p") auto
qed

lemma relinkedI:
  "off_lists t = off_lists s \<Longrightarrow> (\<And>p. map_option no_link (task_heap t p) = map_option no_link (task_heap s p)) \<Longrightarrow> relinked s t"
  by (simp add: relinked_def)

lemma remove_tasklist_spec:
  assumes wf: "lists_wf s L" and ts: "ts \<in> set (L l)"
  shows "\<exists>t. remove_from_tasklist l ts s = Inr (0, t) \<and> lists_wf t (L(l := remove1 ts (L l))) \<and> relinked s t"
proof -
  obtain t where t: "task_heap s ts = Some t" using lists_wfD(3) [OF wf ts] by blast
  obtain as bs where L: "L l = as @ ts # bs" using ts by (meson split_list)
  then have rem: "remove1 ts (L l) = as @ bs" using lists_wfD(4) [OF wf, of l] by (simp add: remove1_append)
  show ?thesis
  proof (cases as rule: rev_cases)
    case Nil
    then have L': "L l = ts # bs" using L by simp
    from remove_head_wf [OF wf L' t] show ?thesis
      using rem Nil t by (intro exI conjI) (auto intro!: relinkedI)
  next
    case (snoc as' p)
    then have L': "L l = as' @ p # ts # bs" using L by simp
    obtain n where n: "task_heap s p = Some n" using lists_wfD(3) [OF wf, of p l] L' by auto
    have "ts \<noteq> p" using lists_wfD(4) [OF wf, of l] L' by auto
    with remove_inner_wf [OF wf L' t n] show ?thesis
      using rem snoc t n by (intro exI conjI) (auto intro!: relinkedI)
  qed
qed

lemma add_tasklist_spec:
  assumes wf: "lists_wf s L" and ts: "ts \<noteq> 0" "task_heap s ts = Some t" "\<And>l. ts \<notin> set (L l)"
  shows "\<exists>t. add_to_tasklist l ts s = Inr t \<and> lists_wf t (L(l := ts # L l)) \<and> relinked s t"
  using add_to_tasklist_eq [OF ts(1,2)] add_to_tasklist_wf [OF wf ts] ts(2)
  by (auto intro!: relinkedI)

lemma remove_missing:
  assumes wf: "lists_wf s L" and ts: "ts \<notin> set (L l)" "ts \<noteq> 0"
  shows "remove_from_tasklist l ts s = Inl Null_Deref"
proof -
  note h = lists_wfD(1) [OF wf, of l]
  have "list_head l s \<noteq> ts" using hlist_head [OF h] ts by (cases "L l") auto
  then show ?thesis
    using hpred_missing [OF h lists_wfD(5) [OF wf] ts] by (simp add: remove_from_tasklist_def)
qed

interpretation task_queues: list_family lists_wf known_tasks add_to_tasklist remove_from_tasklist
proof
  fix s :: "'a kernel_scheme" and L x l
  assume wf: "lists_wf s L" and x: "x \<in> set (L l)"
  show "x \<in> known_tasks s" using lists_wfD(3) [OF wf x] by (auto simp: known_tasks_def)
  from remove_tasklist_spec [OF wf x] obtain t
    where "remove_from_tasklist l x s = Inr (0, t)" "lists_wf t (L(l := remove1 x (L l)))" "relinked s t" by blast
  then show "\<exists>t. remove_from_tasklist l x s = Inr (0, t) \<and> lists_wf t (L(l := remove1 x (L l))) \<and> known_tasks t = known_tasks s"
    by (simp add: known_tasks_def relinked_dom)
next
  fix s :: "'a kernel_scheme" and L x l
  assume wf: "lists_wf s L" and x: "x \<in> known_tasks s" "\<And>l. x \<notin> set (L l)"
  then obtain n where n: "x \<noteq> 0" "task_heap s x = Some n" by (auto simp: known_tasks_def)
  from add_tasklist_spec [OF wf n x(2)] obtain t
    where "add_to_tasklist l x s = Inr t" "lists_wf t (L(l := x # L l))" "relinked s t" by blast
  then show "\<exists>t. add_to_tasklist l x s = Inr t \<and> lists_wf t (L(l := x # L l)) \<and> known_tasks t = known_tasks s"
    by (simp add: known_tasks_def relinked_dom)
qed (simp_all add: lists_wfD(2,4))

end
