(* ===== verification/Scheduler.thy ===== *)
theory Scheduler
  imports TaskLists
begin

text \<open>
  What the scheduler does, on the abstract task lists of theory TaskLists: the choice of the
  next task, the dispatch, round-robin scheduling of the active tasks, and the moves of \<open>sleep\<close>,
  \<open>wakeup\<close>, \<open>exit_st\<close> and \<open>waitpid\<close>.
\<close>

section \<open>The next task\<close>

lemma hlist_next:
  assumes "hlist nxt h p (as @ x # bs)" "h x = Some n"
  shows "nxt n = (case bs of [] \<Rightarrow> 0 | b # _ \<Rightarrow> b)"
  using hlist_suffix [OF assms(1)] assms(2) hlist_head [of nxt h "nxt n" bs] by simp

definition pid_of :: "'a kernel_scheme \<Rightarrow> u64 \<Rightarrow> u32" where
  "pid_of s p = pid (the (task_heap s p))"

definition pids_unique :: "'a kernel_scheme \<Rightarrow> bool" where
  "pids_unique s \<longleftrightarrow> inj_on (pid_of s) (dom (task_heap s))"

lemma find_pid:
  assumes wf: "lists_wf s L"
  shows "find_process_by_pid n (list_head l s) s =
    Inr (case List.find (\<lambda>x. pid_of s x = n) (L l) of None \<Rightarrow> 0 | Some x \<Rightarrow> x)"
  using hsearch_hlist [OF lists_wfD(1,5) [OF wf]] by (simp add: find_process_by_pid_def pid_of_def)

lemma find_eq: "List.find (\<lambda>x. x = c) xs = (if c \<in> set xs then Some c else None)"
  by (induction xs) auto

lemma find_pid_of:
  assumes wf: "lists_wf s L" and u: "pids_unique s" and c: "c \<in> dom (task_heap s)"
  shows "find_process_by_pid (pid_of s c) (list_head l s) s = Inr (if c \<in> set (L l) then c else 0)"
proof -
  have eq: "pid_of s x = pid_of s c \<longleftrightarrow> x = c" if "x \<in> set (L l)" for x
    using u c lists_wfD(3) [OF wf that] unfolding pids_unique_def by (auto dest: inj_onD)
  then have "List.find (\<lambda>x. pid_of s x = pid_of s c) (L l) = List.find (\<lambda>x. x = c) (L l)"
    by (intro find_cong) auto
  also have "\<dots> = (if c \<in> set (L l) then Some c else None)" by (rule find_eq)
  finally show ?thesis using find_pid [OF wf, of "pid_of s c" l] by simp
qed

text \<open>The task after \<open>c\<close> on the active list, cyclically; a task that is not on it is followed by
  the second task of the list (by the only one if there is one).\<close>

definition successor :: "u64 list \<Rightarrow> u64 \<Rightarrow> u64" where
  "successor A c =
     (case dropWhile (\<lambda>x. x \<noteq> c) A of
        [] \<Rightarrow> (case A of [a] \<Rightarrow> a | a # b # _ \<Rightarrow> b | [] \<Rightarrow> 0)
      | [x] \<Rightarrow> hd A
      | x # y # _ \<Rightarrow> y)"

lemma successor_split: "c \<notin> set as \<Longrightarrow> successor (as @ c # bs) c = hd (bs @ as @ [c])"
  by (cases bs; cases as) (auto simp: successor_def dropWhile_append)

lemma successor_missing: "c \<notin> set A \<Longrightarrow> successor A c = (case A of [a] \<Rightarrow> a | a # b # _ \<Rightarrow> b | [] \<Rightarrow> 0)"
proof -
  assume "c \<notin> set A"
  then have "dropWhile (\<lambda>x. x \<noteq> c) A = []" by auto
  then show ?thesis unfolding successor_def by (simp only: list.case)
qed

lemma successor_in: "A \<noteq> [] \<Longrightarrow> successor A c \<in> set A"
proof (cases "c \<in> set A")
  case True
  then obtain as bs where A: "A = as @ c # bs" "c \<notin> set as" by (meson split_list_first)
  have "hd (bs @ as @ [c]) \<in> set (bs @ as @ [c])" by (rule hd_in_set) simp
  then show ?thesis using A successor_split [OF A(2), of bs] by auto
next
  case False
  moreover assume "A \<noteq> []"
  ultimately show ?thesis by (auto simp: successor_missing split: list.splits)
qed

lemma successor_nth:
  assumes "distinct A" "i < length A"
  shows "successor A (A ! i) = A ! (Suc i mod length A)"
proof -
  have A: "A = take i A @ A ! i # drop (Suc i) A" using assms(2) by (simp add: id_take_nth_drop [symmetric])
  have "A ! i \<notin> set (take i A)"
    using assms by (auto simp: in_set_conv_nth nth_eq_iff_index_eq)
  then have "successor A (A ! i) = hd (drop (Suc i) A @ take i A @ [A ! i])"
    using successor_split A by metis
  also have "\<dots> = A ! (Suc i mod length A)"
  proof (cases "Suc i < length A")
    case True
    then show ?thesis by (simp add: hd_drop_conv_nth hd_append)
  next
    case False
    then have "Suc i = length A" using assms(2) by simp
    moreover have "hd (take i A @ [A ! i]) = A ! 0" using assms(2) by (cases i; cases A) simp_all
    ultimately show ?thesis by simp
  qed
  finally show ?thesis .
qed

lemma select_task:
  assumes wf: "lists_wf s L" and u: "pids_unique s" and c: "current s \<in> known_tasks s" and ne: "L Active \<noteq> []"
  shows "select_task_struct s = Inr (successor (L Active) (current s))"
proof -
  obtain t where t: "current s \<noteq> 0" "task_heap s (current s) = Some t" using c by (auto simp: known_tasks_def)
  note h = lists_wfD(1) [OF wf, of Active]
  have "current s \<in> dom (task_heap s)" using t by auto
  from find_pid_of [OF wf u this, of Active]
  have f: "find_process_by_pid (pid t) (task_headp s) s = Inr (if current s \<in> set (L Active) then current s else 0)"
    using t by (simp add: pid_of_def)
  have head: "task_headp s = hd (L Active)" using hlist_head [OF h] ne by (cases "L Active") auto
  show ?thesis
  proof (cases "current s \<in> set (L Active)")
    case True
    then obtain as bs where A: "L Active = as @ current s # bs" by (meson split_list)
    have "current s \<notin> set as" using lists_wfD(4) [OF wf, of Active] A by auto
    then show ?thesis
      using f t True head hlist_next [OF h [unfolded A] t(2)] successor_split [of "current s" as bs]
        lists_wfD(3) [OF wf, of _ Active] A
      by (auto simp: select_task_struct_def split: list.splits)
  next
    case False
    obtain a bs where A: "L Active = a # bs" using ne by (cases "L Active") auto
    obtain n where n: "a \<noteq> 0" "task_heap s a = Some n" using lists_wfD(3) [OF wf, of a Active] A by auto
    have "successor (L Active) (current s) = (case bs of [] \<Rightarrow> a | b # _ \<Rightarrow> b)"
      using A False by (auto simp: successor_missing split: list.splits)
    moreover have "t_next n = (case bs of [] \<Rightarrow> 0 | b # _ \<Rightarrow> b)"
      using hlist_next [of t_next "task_heap s" _ "[]" a bs n] h A n by simp
    moreover have "b \<noteq> 0" if "bs = b # bs'" for b bs' using lists_wfD(3) [OF wf, of b Active] A that by auto
    ultimately show ?thesis
      using f t False head A n by (auto simp: select_task_struct_def split: list.splits)
  qed
qed

section \<open>Dispatch\<close>

text \<open>
  A dispatch writes the saved stack pointer and the \<open>last\<close> field of tasks, CR3, \<open>current\<close> and
  \<open>tss.rsp0\<close>. What scheduling decisions depend on is the rest: \<open>sched_view\<close> of each task.
\<close>

definition sched_view :: "task_struct \<Rightarrow> task_struct" where
  "sched_view t = t\<lparr>kernel_stack := 0, t_last := 0\<rparr>"

definition same_tasks :: "'a kernel_scheme \<Rightarrow> 'a kernel_scheme \<Rightarrow> bool" where
  "same_tasks s t \<longleftrightarrow>
     (\<forall>p. map_option sched_view (task_heap t p) = map_option sched_view (task_heap s p)) \<and>
     (\<forall>l. list_head l t = list_head l s) \<and> mm_heap t = mm_heap s \<and>
     zombie_count t = zombie_count s \<and> clear_zombie t = clear_zombie s"

lemma sched_view_fields:
  assumes "sched_view m = sched_view n"
  shows "t_next m = t_next n" "pid m = pid n" "sigterm m = sigterm n" "t_mm m = t_mm n"
    "ppid m = ppid n" "waited m = waited n" "orphan m = orphan n" "t_state m = t_state n" "exit_status m = exit_status n"
  using arg_cong [OF assms, of t_next] arg_cong [OF assms, of pid] arg_cong [OF assms, of sigterm]
    arg_cong [OF assms, of t_mm] arg_cong [OF assms, of ppid] arg_cong [OF assms, of waited]
    arg_cong [OF assms, of orphan] arg_cong [OF assms, of t_state] arg_cong [OF assms, of exit_status]
  by (simp_all add: sched_view_def)

lemma same_tasks_task:
  assumes "same_tasks s t" "task_heap t p = Some m"
  obtains n where "task_heap s p = Some n" "sched_view m = sched_view n"
proof -
  have "map_option sched_view (task_heap s p) = Some (sched_view m)"
    using assms unfolding same_tasks_def by (metis option.map(2))
  then show thesis using that by auto
qed

lemma same_tasks_sym: "same_tasks s t \<Longrightarrow> same_tasks t s"
  by (simp add: same_tasks_def)

lemma same_tasks_dom: "same_tasks s t \<Longrightarrow> dom (task_heap t) = dom (task_heap s)"
proof (rule set_eqI)
  fix p assume "same_tasks s t"
  then have "map_option sched_view (task_heap t p) = map_option sched_view (task_heap s p)" by (simp add: same_tasks_def)
  then show "p \<in> dom (task_heap t) \<longleftrightarrow> p \<in> dom (task_heap s)"
    by (cases "task_heap s p"; cases "task_heap t p") auto
qed

lemma hseg_cong:
  "(\<And>x. x \<in> set xs \<Longrightarrow> map_option nxt (h' x) = map_option nxt (h x)) \<Longrightarrow> hseg nxt h' p xs q = hseg nxt h p xs q"
proof (induction xs arbitrary: p)
  case (Cons x xs)
  have "map_option nxt (h' x) = map_option nxt (h x)" using Cons.prems by simp
  then show ?case using Cons by (cases "h x"; cases "h' x") auto
qed simp

lemma same_tasks_lists:
  assumes "same_tasks s t" "lists_wf s L"
  shows "lists_wf t L"
proof (rule lists_wfI [OF _ lists_wfD(2) [OF assms(2)] assms(2) same_tasks_dom [OF assms(1)]])
  fix l
  have "map_option t_next (task_heap t x) = map_option t_next (task_heap s x)" for x
  proof -
    have "map_option sched_view (task_heap t x) = map_option sched_view (task_heap s x)"
      using assms(1) by (simp add: same_tasks_def)
    then show ?thesis by (cases "task_heap s x"; cases "task_heap t x") (auto dest: sched_view_fields)
  qed
  then show "hlist t_next (task_heap t) (list_head l t) (L l)"
    using lists_wfD(1) [OF assms(2), of l] hseg_cong [of "L l" t_next "task_heap t" "task_heap s"] assms(1)
    by (simp add: same_tasks_def)
qed

definition mm_ok :: "'a kernel_scheme \<Rightarrow> task_struct \<Rightarrow> bool" where
  "mm_ok s t \<longleftrightarrow> t_mm t = 0 \<or> (\<exists>m. mm_heap s (t_mm t) = Some m)"

text \<open>The conditions for plain scheduling: nobody on the active list has been killed.\<close>

definition sched_ok :: "'a kernel_scheme \<Rightarrow> (task_list \<Rightarrow> u64 list) \<Rightarrow> bool" where
  "sched_ok s L \<longleftrightarrow> lists_wf s L \<and> pids_unique s \<and> current s \<in> known_tasks s \<and>
     (\<forall>x n. x \<in> set (L Active) \<longrightarrow> task_heap s x = Some n \<longrightarrow> sigterm n \<noteq> 1 \<and> mm_ok s n)"

lemma same_tasks_ok:
  assumes "same_tasks s t" "sched_ok s L" "current t \<in> known_tasks s"
  shows "sched_ok t L"
  unfolding sched_ok_def
proof (intro conjI allI impI)
  note d = same_tasks_dom [OF assms(1)]
  show "lists_wf t L" using assms same_tasks_lists by (auto simp: sched_ok_def)
  have "pid_of t x = pid_of s x" if "x \<in> dom (task_heap s)" for x
  proof -
    have "x \<in> dom (task_heap t)" using that d by simp
    then obtain m where m: "task_heap t x = Some m" by auto
    obtain n where "task_heap s x = Some n" "sched_view m = sched_view n"
      by (rule same_tasks_task [OF assms(1) m])
    then show ?thesis using m sched_view_fields(2) [of m n] by (simp add: pid_of_def)
  qed
  then show "pids_unique t" using assms(2) d inj_on_cong [of "dom (task_heap s)" "pid_of t" "pid_of s"]
    unfolding sched_ok_def pids_unique_def by simp
  show "current t \<in> known_tasks t" using assms(3) d by (simp add: known_tasks_def)
next
  fix x m assume x: "x \<in> set (L Active)" "task_heap t x = Some m"
  obtain n where n: "task_heap s x = Some n" "sched_view m = sched_view n"
    by (rule same_tasks_task [OF assms(1) x(2)])
  have "sigterm n \<noteq> 1 \<and> mm_ok s n" using assms(2) x(1) n(1) by (simp add: sched_ok_def)
  then show "sigterm m \<noteq> 1" "mm_ok t m"
    using sched_view_fields [OF n(2)] assms(1) by (simp_all add: mm_ok_def same_tasks_def)
qed

lemma dispatch_spec:
  assumes "me \<in> known_tasks s" "nxt \<noteq> 0" "task_heap s nxt = Some n" "mm_ok s n" "nxt \<noteq> me"
  shows "\<exists>t. dispatch sp me nxt s = Inr (Switched t) \<and> current t = nxt \<and> rsp0 t = kernel_stack n \<and> same_tasks s t"
proof -
  obtain m where m: "me \<noteq> 0" "task_heap s me = Some m" using assms(1) by (auto simp: known_tasks_def)
  let ?s = "s\<lparr>current := nxt, rsp0 := kernel_stack n\<rparr>"
  obtain c where c: "switch_mm me nxt ?s = Inr (?s\<lparr>cr3 := c\<rparr>)"
  proof (cases "t_mm n = 0 \<or> (\<exists>k. mm_heap s (t_mm n) = Some k \<and> mm_pgd k = 0)")
    case True
    then have "switch_mm me nxt ?s = Inr (?s\<lparr>cr3 := cr3 s\<rparr>)"
      using assms(2,3) by (auto simp: switch_mm_def)
    then show thesis by (rule that)
  next
    case False
    then obtain k where "mm_heap s (t_mm n) = Some k" "t_mm n \<noteq> 0" "mm_pgd k \<noteq> 0" using assms(4) by (auto simp: mm_ok_def)
    then have "switch_mm me nxt ?s = Inr (?s\<lparr>cr3 := VA2PA (mm_pgd k)\<rparr>)"
      using assms(2,3,5) by (simp add: switch_mm_def)
    then show thesis by (rule that)
  qed
  let ?t = "?s\<lparr>cr3 := c, task_heap := (task_heap s)(me \<mapsto> m\<lparr>kernel_stack := sp\<rparr>, nxt \<mapsto> n\<lparr>t_last := me\<rparr>)\<rparr>"
  have "dispatch sp me nxt s = Inr (Switched ?t)"
    using c assms(2,3,5) m by (simp add: dispatch_def switch_to_def upd_task_def Let_def)
  moreover have "list_head l ?t = list_head l s" for l by (cases l) simp_all
  then have "same_tasks s ?t" using assms(3) m by (auto simp: same_tasks_def sched_view_def)
  ultimately show ?thesis by (intro exI [of _ ?t]) simp
qed

lemma schedule_spec:
  assumes ok: "sched_ok s L" and ne: "L Active \<noteq> []"
  defines "n \<equiv> successor (L Active) (current s)"
  shows "if n = current s then schedule sp s = Inr (Returns s)
    else \<exists>t. schedule sp s = Inr (Switched t) \<and> current t = n \<and> sched_ok t L \<and> same_tasks s t"
proof -
  have wf: "lists_wf s L" and u: "pids_unique s" and c: "current s \<in> known_tasks s"
    using ok by (simp_all add: sched_ok_def)
  have sel: "select_task_struct s = Inr n" unfolding n_def by (rule select_task [OF wf u c ne])
  have nA: "n \<in> set (L Active)" unfolding n_def by (rule successor_in [OF ne])
  then obtain t where t: "n \<noteq> 0" "task_heap s n = Some t" using lists_wfD(3) [OF wf] by blast
  have ok': "sigterm t \<noteq> 1" "mm_ok s t" using ok nA t(2) by (auto simp: sched_ok_def)
  have fuel: "65536 = Suc 65535" by simp
  have sch: "schedule sp s = dispatch sp (current s) n s"
    unfolding schedule_def fuel schedule_loop.simps(2) sel using t ok'(1) by simp
  show ?thesis
  proof (cases "n = current s")
    case True
    then show ?thesis using sch by (simp add: dispatch_def)
  next
    case False
    obtain v where v: "dispatch sp (current s) n s = Inr (Switched v)" "current v = n" "same_tasks s v"
      using dispatch_spec [OF c t ok'(2) False] by blast
    have "current v \<in> known_tasks s" using v(2) t by (auto simp: known_tasks_def)
    then show ?thesis using False v sch same_tasks_ok [OF v(3) ok] by auto
  qed
qed

section \<open>Round robin\<close>

text \<open>\<open>schedule\<close>, called again and again by whichever task is running.\<close>

fun run_schedules :: "u64 list \<Rightarrow> 'a kernel_scheme \<Rightarrow> fault + 'a kernel_scheme" where
  "run_schedules [] s = Inr s"
| "run_schedules (sp # sps) s =
     rbind (schedule sp s) (\<lambda>r. run_schedules sps (case r of Returns t \<Rightarrow> t | Switched t \<Rightarrow> t))"

text \<open>
  C12. Round-robin scheduling: if the running task is number \<open>i\<close> of the \<open>n\<close> active tasks and none
  of them has been killed, then after \<open>k\<close> calls of \<open>schedule\<close> (each by the task running then)
  task number \<open>(i + k) mod n\<close> runs. So every active task gets the processor within \<open>n\<close> calls. The
  task lists are unchanged.
\<close>

theorem schedule_round_robin:
  assumes "sched_ok s L" "i < length (L Active)" "current s = L Active ! i"
  shows "\<exists>t. run_schedules sps s = Inr t \<and>
    current t = L Active ! ((i + length sps) mod length (L Active)) \<and> sched_ok t L"
  using assms
proof (induction sps arbitrary: s i)
  case Nil
  then show ?case by simp
next
  case (Cons sp sps)
  let ?A = "L Active" and ?j = "Suc i mod length (L Active)"
  have ne: "?A \<noteq> []" using Cons.prems(2) by auto
  have "distinct ?A" using Cons.prems(1) lists_wfD(4) by (auto simp: sched_ok_def)
  then have n: "successor ?A (current s) = ?A ! ?j" using Cons.prems successor_nth by simp
  obtain t r where t: "schedule sp s = Inr r" "(case r of Returns t \<Rightarrow> t | Switched t \<Rightarrow> t) = t"
    "current t = ?A ! ?j" "sched_ok t L"
    using schedule_spec [OF Cons.prems(1) ne, of sp] Cons.prems(1) unfolding n
    by (cases "?A ! ?j = current s") fastforce+
  have "?j < length ?A" using ne by simp
  then obtain u where "run_schedules sps t = Inr u" "current u = ?A ! ((?j + length sps) mod length ?A)" "sched_ok u L"
    using Cons.IH [OF t(4) _ t(3)] by blast
  moreover have "(?j + length sps) mod length ?A = (i + length (sp # sps)) mod length ?A"
    by (simp add: mod_add_left_eq)
  ultimately show ?case using t(1,2) by simp
qed

text \<open>Three tasks on the active list, the first one running.\<close>

definition three_tasks :: kernel where
  "three_tasks = kernel_example\<lparr>task_heap := [0x1000 \<mapsto> zero_task\<lparr>pid := 1, t_next := 0x5000\<rparr>,
     0x5000 \<mapsto> zero_task\<lparr>pid := 2, t_next := 0x6000\<rparr>, 0x6000 \<mapsto> zero_task\<lparr>pid := 3\<rparr>]\<rparr>"

definition three_lists :: "task_list \<Rightarrow> u64 list" where
  "three_lists l = (if l = Active then [0x1000, 0x5000, 0x6000] else [])"

lemma three_tasks_ok: "sched_ok three_tasks three_lists"
proof -
  have "hlist t_next (task_heap three_tasks) (list_head l three_tasks) (three_lists l)" for l
    by (cases l) (simp_all add: three_tasks_def three_lists_def kernel_example_def zero_task_def)
  moreover have d: "dom (task_heap three_tasks) = {0x1000, 0x5000, 0x6000}" by (auto simp: three_tasks_def)
  then have "card (dom (task_heap three_tasks)) < 32768" "finite (dom (task_heap three_tasks))" by simp_all
  moreover have "pids_unique three_tasks"
    unfolding pids_unique_def d by (simp add: inj_on_def pid_of_def three_tasks_def)
  moreover have "current three_tasks \<in> known_tasks three_tasks"
    by (simp add: known_tasks_def d) (simp add: three_tasks_def kernel_example_def)
  ultimately show ?thesis
    by (auto simp: sched_ok_def lists_wf_def three_lists_def mm_ok_def three_tasks_def zero_task_def split: if_splits)
qed

theorem schedule_round_robin_witness:
  "\<exists>t. run_schedules [0x900, 0x901, 0x902, 0x903] three_tasks = Inr t \<and> current t = 0x5000"
proof -
  have "current three_tasks = three_lists Active ! 0" by (simp add: three_tasks_def kernel_example_def three_lists_def)
  from schedule_round_robin [OF three_tasks_ok _ this, of "[0x900, 0x901, 0x902, 0x903]"]
  show ?thesis by (auto simp: three_lists_def)
qed

section \<open>Moving tasks\<close>

text \<open>What decides whether a task may run, apart from the list it is on.\<close>

definition task_key :: "task_struct \<Rightarrow> u32 \<times> u32 \<times> u64 \<times> u32 \<times> u32" where
  "task_key t = (pid t, sigterm t, t_mm t, ppid t, waited t)"

definition same_keys :: "'a kernel_scheme \<Rightarrow> 'a kernel_scheme \<Rightarrow> bool" where
  "same_keys s t \<longleftrightarrow> (\<forall>p. map_option task_key (task_heap t p) = map_option task_key (task_heap s p)) \<and>
     mm_heap t = mm_heap s"

definition runnable :: "'a kernel_scheme \<Rightarrow> u64 \<Rightarrow> bool" where
  "runnable s x \<longleftrightarrow> (\<exists>n. task_heap s x = Some n \<and> sigterm n \<noteq> 1 \<and> mm_ok s n)"

lemma sched_ok_runnable:
  "sched_ok s L \<longleftrightarrow> lists_wf s L \<and> pids_unique s \<and> current s \<in> known_tasks s \<and> (\<forall>x\<in>set (L Active). runnable s x)"
proof (cases "lists_wf s L")
  case True
  then show ?thesis using lists_wfD(3) [OF True] unfolding sched_ok_def runnable_def by fastforce
qed (simp add: sched_ok_def)

lemma same_keys_trans: "same_keys s t \<Longrightarrow> same_keys t u \<Longrightarrow> same_keys s u"
  by (simp add: same_keys_def)

lemma same_keysD:
  assumes "same_keys s t"
  shows "dom (task_heap t) = dom (task_heap s)" "runnable t x = runnable s x"
    "pids_unique t = pids_unique s" "known_tasks t = known_tasks s" "pid_of t x = pid_of s x \<or> x \<notin> dom (task_heap s)"
proof -
  have k: "map_option task_key (task_heap t p) = map_option task_key (task_heap s p)" for p
    using assms by (simp add: same_keys_def)
  have case2: "task_heap t p = None \<and> task_heap s p = None \<or>
      (\<exists>m n. task_heap t p = Some m \<and> task_heap s p = Some n \<and> task_key m = task_key n)" for p
    using k [of p] by (cases "task_heap s p"; cases "task_heap t p") auto
  show d: "dom (task_heap t) = dom (task_heap s)" using case2 by (auto simp: dom_def) (metis option.distinct(1))+
  show "runnable t x = runnable s x"
    using case2 [of x] assms by (auto simp: runnable_def task_key_def mm_ok_def same_keys_def)
  have p: "pid_of t x = pid_of s x" if "x \<in> dom (task_heap s)" for x
    using case2 [of x] that by (auto simp: pid_of_def task_key_def)
  then show "pid_of t x = pid_of s x \<or> x \<notin> dom (task_heap s)" by blast
  show "pids_unique t = pids_unique s"
    using inj_on_cong [of "dom (task_heap s)" "pid_of t" "pid_of s"] p d by (simp add: pids_unique_def)
  show "known_tasks t = known_tasks s" using d by (simp add: known_tasks_def)
qed

lemma relinked_keys: "relinked s t \<Longrightarrow> same_keys s t"
proof -
  assume r: "relinked s t"
  have "map_option task_key (task_heap t p) = map_option task_key (task_heap s p)" for p
  proof -
    have "map_option (task_key \<circ> no_link) (task_heap t p) = map_option (task_key \<circ> no_link) (task_heap s p)"
      using r unfolding relinked_def by (metis option.map_comp)
    moreover have "task_key \<circ> no_link = task_key" by (rule ext) (simp add: task_key_def no_link_def)
    ultimately show ?thesis by simp
  qed
  then show ?thesis using relinked_fields(2) [OF r] by (simp add: same_keys_def)
qed

text \<open>Changing a field of a task other than its link.\<close>

lemma upd_task_spec:
  assumes "lists_wf s L" "p \<in> known_tasks s" "\<And>t. t_next (f t) = t_next t"
  obtains t n where "task_heap s p = Some n" "upd_task p f s = Inr t" "t = s\<lparr>task_heap := (task_heap s)(p \<mapsto> f n)\<rparr>" "lists_wf t L"
proof -
  obtain n where n: "p \<noteq> 0" "task_heap s p = Some n" using assms(2) by (auto simp: known_tasks_def)
  let ?t = "s\<lparr>task_heap := (task_heap s)(p \<mapsto> f n)\<rparr>"
  have "lists_wf ?t L"
  proof (rule lists_wfI [OF _ lists_wfD(2) [OF assms(1)] assms(1)])
    fix l
    have "map_option t_next (task_heap ?t x) = map_option t_next (task_heap s x)" for x
      using n assms(3) by simp
    then show "hlist t_next (task_heap ?t) (list_head l ?t) (L l)"
      using lists_wfD(1) [OF assms(1), of l] hseg_cong [of "L l" t_next "task_heap ?t" "task_heap s"] by simp
  qed (use n in auto)
  moreover have "upd_task p f s = Inr ?t" using n by (simp add: upd_task_def)
  ultimately show thesis using n(2) that by blast
qed

end
