(* ===== verification/TaskMoves.thy ===== *)
theory TaskMoves
  imports Scheduler
begin

text \<open>
  \<open>wakeup\<close>, \<open>sleep\<close> and \<open>exit_st\<close> (src/sys/process.c, src/sys/syscall.c) on the abstract task
  lists. Each moves tasks between lists and writes a few fields of them; the lemmas give the new
  lists and, up to the links, the new state exactly. On top of that: killed tasks are reaped by
  the scheduler, which always comes to an end.
\<close>

section \<open>Waking tasks\<close>

abbreviation awake :: "task_struct \<Rightarrow> task_struct" where
  "awake n \<equiv> n\<lparr>t_state := ACTIVE, sleep_time := 0\<rparr>"

definition to_active :: "task_list \<Rightarrow> u64 \<Rightarrow> (task_list \<Rightarrow> u64 list) \<Rightarrow> task_list \<Rightarrow> u64 list" where
  "to_active l x L = L(l := remove1 x (L l), Active := x # L Active)"

lemma relinked_upd:
  assumes r: "relinked s t" and n: "task_heap s p = Some n" "p \<noteq> 0" and f: "\<And>m v. f (m\<lparr>t_next := v\<rparr>) = (f m)\<lparr>t_next := v\<rparr>"
    and wf: "lists_wf t L"
  shows "\<exists>u. upd_task p f t = Inr u \<and> relinked (s\<lparr>task_heap := (task_heap s)(p \<mapsto> f n)\<rparr>) u \<and> lists_wf u L"
proof -
  obtain v where v: "task_heap t p = Some (n\<lparr>t_next := v\<rparr>)" using relinked_task [OF r n(1)] by blast
  have kt: "p \<in> known_tasks t" using v n(2) by (auto simp: known_tasks_def)
  have tn: "t_next (f m) = t_next m" for m
    using arg_cong [OF f [where m = m and v = "t_next m"], of t_next] by simp
  obtain u where u: "upd_task p f t = Inr u" "u = t\<lparr>task_heap := (task_heap t)(p \<mapsto> f (n\<lparr>t_next := v\<rparr>))\<rparr>" "lists_wf u L"
    using upd_task_spec [OF wf kt tn] v by (metis option.inject)
  have "relinked (s\<lparr>task_heap := (task_heap s)(p \<mapsto> f n)\<rparr>) u"
    using r unfolding u(2) f relinked_def by simp
  with u show ?thesis by blast
qed

lemma upd_task_lists:
  assumes wf: "lists_wf s L" and n: "task_heap s p = Some n" "p \<noteq> 0" and f: "\<And>m v. f (m\<lparr>t_next := v\<rparr>) = (f m)\<lparr>t_next := v\<rparr>"
  shows "\<exists>u. upd_task p f s = Inr u \<and> relinked (s\<lparr>task_heap := (task_heap s)(p \<mapsto> f n)\<rparr>) u \<and> lists_wf u L"
  by (rule relinked_upd [OF relinked_refl n f wf])

lemma move_spec:
  assumes wf: "lists_wf s L" and x: "x \<in> set (L l)" "l \<noteq> l'"
  shows "\<exists>u t. remove_from_tasklist l x s = Inr (0, u) \<and> add_to_tasklist l' x u = Inr t \<and>
    lists_wf t (L(l := remove1 x (L l), l' := x # L l')) \<and> relinked s t"
proof -
  obtain u t where u: "remove_from_tasklist l x s = Inr (0, u)" "lists_wf u (L(l := remove1 x (L l)))"
    "add_to_tasklist l' x u = Inr t" "lists_wf t (L(l := remove1 x (L l), l' := x # L l'))"
    using task_queues.move [OF wf x] by blast
  obtain u' where u': "remove_from_tasklist l x s = Inr (0, u')" "relinked s u'"
    using remove_tasklist_spec [OF wf x(1)] by blast
  have r: "relinked s u" using u(1) u' by simp
  obtain n where n: "x \<noteq> 0" "task_heap u x = Some n"
    using lists_wfD(3) [OF wf x(1)] relinked_task [OF r] by blast
  have "x \<notin> set ((L(l := remove1 x (L l))) k)" for k
    using task_queues.only_list [OF wf x(1)] lists_wfD(4) [OF wf, of l] by auto
  from add_tasklist_spec [OF u(2) n this, of l'] have "relinked u t" using u(3) by auto
  then show ?thesis using u r relinked_trans by blast
qed

lemma wake_one_spec:
  assumes wf: "lists_wf s L" and x: "x \<in> set (L l)" "l \<noteq> Active" "task_heap s x = Some n"
  shows "\<exists>t. wake_one l x s = Inr t \<and> lists_wf t (to_active l x L) \<and>
    relinked (s\<lparr>task_heap := (task_heap s)(x \<mapsto> awake n)\<rparr>) t"
proof -
  have x0: "x \<noteq> 0" using lists_wfD(3) [OF wf x(1)] by simp
  obtain u where u: "upd_task x awake s = Inr u" "relinked (s\<lparr>task_heap := (task_heap s)(x \<mapsto> awake n)\<rparr>) u" "lists_wf u L"
    using upd_task_lists [OF wf x(3) x0, of awake] by auto
  obtain v t where t: "remove_from_tasklist l x u = Inr (0, v)" "add_to_tasklist Active x v = Inr t"
    "lists_wf t (to_active l x L)" "relinked u t"
    using move_spec [OF u(3) x(1,2)] unfolding to_active_def by blast
  then show ?thesis using u relinked_trans by (auto simp: wake_one_def)
qed

definition wake_set :: "u64 set \<Rightarrow> 'a kernel_scheme \<Rightarrow> 'a kernel_scheme" where
  "wake_set X s = s\<lparr>task_heap := \<lambda>p. if p \<in> X then map_option awake (task_heap s p) else task_heap s p\<rparr>"

lemma wake_set_step:
  assumes "relinked (s\<lparr>task_heap := (task_heap s)(x \<mapsto> awake n)\<rparr>) u" "task_heap s x = Some n" "x \<notin> X"
  shows "relinked (wake_set (insert x X) s) (wake_set X u)"
proof (rule relinkedI)
  show "off_lists (wake_set X u) = off_lists (wake_set (insert x X) s)"
    using assms(1) by (simp add: relinked_def wake_set_def)
  fix p
  have aw: "map_option no_link (map_option awake o') = map_option awake (map_option no_link o')" for o'
    by (cases o') (simp_all add: no_link_def)
  have "map_option no_link (task_heap u p) = map_option no_link (((task_heap s)(x \<mapsto> awake n)) p)"
    using assms(1) by (simp add: relinked_def)
  then show "map_option no_link (task_heap (wake_set X u) p) = map_option no_link (task_heap (wake_set (insert x X) s) p)"
    using assms(2,3) aw by (auto simp: wake_set_def no_link_def)
qed

lemma wake_all_spec:
  assumes "lists_wf s L" "l \<noteq> Active" "length (L l) < k"
  shows "\<exists>t. wake_all k l (list_head l s) s = Inr t \<and> lists_wf t (L(l := [], Active := rev (L l) @ L Active)) \<and>
    relinked (wake_set (set (L l)) s) t"
  using assms
proof (induction "L l" arbitrary: s L k)
  case Nil
  then have "list_head l s = 0" using lists_wfD(1) [OF Nil.prems(1), of l] by simp
  then have "wake_all k l (list_head l s) s = Inr s" using Nil.prems(3) by (cases k) simp_all
  moreover have L: "L(l := [], Active := rev (L l) @ L Active) = L" using Nil by (auto simp: fun_eq_iff)
  moreover have "wake_set (set (L l)) s = s" using Nil by (simp add: wake_set_def)
  ultimately show ?case using Nil.prems(1) unfolding L by simp
next
  case (Cons x xs)
  note wf = Cons.prems(1)
  have L: "L l = x # xs" using Cons.hyps(2) by simp
  then have x: "x \<in> set (L l)" "x \<notin> set xs" using lists_wfD(4) [OF wf, of l] by auto
  obtain n where n: "x \<noteq> 0" "task_heap s x = Some n" using lists_wfD(3) [OF wf x(1)] by blast
  note h = lists_wfD(1) [OF wf, of l, unfolded L]
  have hd: "list_head l s = x" "t_next n = (case xs of [] \<Rightarrow> 0 | y # _ \<Rightarrow> y)"
    using h hlist_next [of t_next "task_heap s" _ "[]" x xs n] n by auto
  obtain k' where k: "k = Suc k'" "length xs < k'" using Cons.prems(3) L by (cases k) auto
  obtain u where u: "wake_one l x s = Inr u" "lists_wf u (to_active l x L)"
    "relinked (s\<lparr>task_heap := (task_heap s)(x \<mapsto> awake n)\<rparr>) u"
    using wake_one_spec [OF wf x(1) Cons.prems(2) n(2)] by blast
  have L': "to_active l x L l = xs" using L Cons.prems(2) by (simp add: to_active_def)
  have nh: "t_next n = list_head l u" using hd(2) hlist_head [OF lists_wfD(1) [OF u(2), of l]] L' by simp
  obtain t where t: "wake_all k' l (list_head l u) u = Inr t"
    "lists_wf t ((to_active l x L)(l := [], Active := rev xs @ to_active l x L Active))"
    "relinked (wake_set (set xs) u) t"
    using Cons.hyps(1) [OF L' [symmetric] u(2) Cons.prems(2)] k(2) unfolding L' by blast
  have "(to_active l x L)(l := [], Active := rev xs @ to_active l x L Active) = L(l := [], Active := rev (L l) @ L Active)"
    using L Cons.prems(2) by (auto simp: to_active_def fun_eq_iff)
  moreover have "relinked (wake_set (set (L l)) s) t"
    using wake_set_step [OF u(3) n(2) x(2)] t(3) relinked_trans L by auto
  moreover have "wake_all k l (list_head l s) s = Inr t" using k(1) hd(1) n u(1) t(1) nh by simp
  ultimately show ?case using t(2) by auto
qed

text \<open>
  C31. \<open>wakeup\<close> with flag 0 empties the given waiting list: its tasks are moved one by one to the
  front of the active list (so they end up there in reverse order), each in state \<open>ACTIVE\<close> and
  with no sleeping time left. Apart from the links between tasks nothing else changes.
\<close>

theorem wakeup_whole_list:
  assumes "lists_wf s L" "l \<noteq> Active"
  shows "\<exists>t. wakeup l ts 0 s = Inr t \<and> lists_wf t (L(l := [], Active := rev (L l) @ L Active)) \<and>
    relinked (wake_set (set (L l)) s) t"
  using wake_all_spec [OF assms lists_wfD(5) [OF assms(1)]] by (simp add: wakeup_def)

text \<open>One task is running, two wait for standard input.\<close>

definition readers :: kernel where
  "readers = kernel_example\<lparr>task_heap := [0x1000 \<mapsto> zero_task\<lparr>pid := 1\<rparr>,
     0x5000 \<mapsto> zero_task\<lparr>pid := 2, t_next := 0x6000, t_state := SLEEP\<rparr>, 0x6000 \<mapsto> zero_task\<lparr>pid := 3, t_state := SLEEP\<rparr>],
     wait_stdin_list := 0x5000\<rparr>"

definition reader_lists :: "task_list \<Rightarrow> u64 list" where
  "reader_lists l = (case l of Active \<Rightarrow> [0x1000] | Wait_Stdin \<Rightarrow> [0x5000, 0x6000] | _ \<Rightarrow> [])"

lemma readers_wf: "lists_wf readers reader_lists"
proof -
  have "hlist t_next (task_heap readers) (list_head l readers) (reader_lists l)" for l
    by (cases l) (simp_all add: readers_def reader_lists_def kernel_example_def zero_task_def)
  moreover have "set (reader_lists l) \<inter> set (reader_lists l') = {}" if "l \<noteq> l'" for l l'
    using that by (cases l; cases l') (simp_all add: reader_lists_def)
  moreover have "dom (task_heap readers) = {0x1000, 0x5000, 0x6000}" by (auto simp: readers_def)
  ultimately show ?thesis by (simp add: lists_wf_def)
qed

theorem wakeup_whole_list_witness:
  "\<exists>t L. wakeup Wait_Stdin 0 0 readers = Inr t \<and> lists_wf t L \<and> L Active = [0x6000, 0x5000, 0x1000]"
  using wakeup_whole_list [OF readers_wf, of Wait_Stdin 0]
  by (auto simp: reader_lists_def intro!: exI [of _ "reader_lists(Wait_Stdin := [], Active := [0x6000, 0x5000, 0x1000])"])

section \<open>The end of a task\<close>

text \<open>
  The task that is told of the end of \<open>x\<close> (with record \<open>n\<close>): its sleeping parent, if that waits for
  it; otherwise nobody, except that every fiftieth orphan wakes the kernel thread
  \<open>clear_zombie\<close>.
\<close>

definition waiting_father :: "'a kernel_scheme \<Rightarrow> (task_list \<Rightarrow> u64 list) \<Rightarrow> task_struct \<Rightarrow> u64 option" where
  "waiting_father s L n = (if waited n = 1 then List.find (\<lambda>y. pid_of s y = ppid n) (L Sleeping) else None)"

definition exit_lists :: "'a kernel_scheme \<Rightarrow> (task_list \<Rightarrow> u64 list) \<Rightarrow> u64 \<Rightarrow> task_struct \<Rightarrow> task_list \<Rightarrow> u64 list" where
  "exit_lists s L x n =
     (let Z = L(Active := remove1 x (L Active), Zombies := x # L Zombies) in
      case waiting_father s L n of
        Some f \<Rightarrow> to_active Sleeping f Z
      | None \<Rightarrow> if zombie_count s + 1 = 50 then to_active Sleeping (clear_zombie s) Z else Z)"

definition exited :: "'a kernel_scheme \<Rightarrow> (task_list \<Rightarrow> u64 list) \<Rightarrow> u64 \<Rightarrow> task_struct \<Rightarrow> u32 \<Rightarrow> 'a kernel_scheme" where
  "exited s L x n status =
     (let d = n\<lparr>exit_status := status, t_state := ZOMBIE\<rparr>; wake = (\<lambda>f h. h(f \<mapsto> awake (the (h f)))) in
      case waiting_father s L n of
        Some f \<Rightarrow> s\<lparr>task_heap := wake f ((task_heap s)(x \<mapsto> d))\<rparr>
      | None \<Rightarrow>
          let h = (task_heap s)(x \<mapsto> d\<lparr>orphan := 1\<rparr>) in
          s\<lparr>zombie_count := zombie_count s + 1,
            task_heap := (if zombie_count s + 1 = 50 then wake (clear_zombie s) h else h)\<rparr>)"

lemma relinked_heap_upd:
  "relinked s t \<Longrightarrow> no_link a = no_link b \<Longrightarrow>
     relinked (s\<lparr>task_heap := (task_heap s)(p \<mapsto> a)\<rparr>) (t\<lparr>task_heap := (task_heap t)(p \<mapsto> b)\<rparr>)"
  by (simp add: relinked_def)

lemma count_commute:
  "off_lists (s\<lparr>zombie_count := z\<rparr>) = (off_lists s)\<lparr>zombie_count := z\<rparr>"
  "s\<lparr>task_heap := h, zombie_count := z\<rparr> = s\<lparr>zombie_count := z, task_heap := h\<rparr>"
  by (rule kernel.equality, simp_all add: off_lists_def)+

lemma relinked_count: "relinked s t \<Longrightarrow> relinked (s\<lparr>zombie_count := z\<rparr>) (t\<lparr>zombie_count := z\<rparr>)"
  by (simp add: relinked_def count_commute(1))

lemma lists_wf_count [simp]: "lists_wf (s\<lparr>zombie_count := z\<rparr>) L = lists_wf s L"
proof -
  have "list_head l (s\<lparr>zombie_count := z\<rparr>) = list_head l s" for l by (cases l) simp_all
  then show ?thesis by (simp add: lists_wf_def)
qed

lemma wake_after:
  assumes wf: "lists_wf t L" and r: "relinked s t" and f: "f \<in> set (L Sleeping)"
  shows "\<exists>u. wakeup Sleeping f 1 t = Inr u \<and> lists_wf u (to_active Sleeping f L) \<and>
    relinked (s\<lparr>task_heap := (task_heap s)(f \<mapsto> awake (the (task_heap s f)))\<rparr>) u"
proof -
  obtain m' where m': "f \<noteq> 0" "task_heap t f = Some m'" using lists_wfD(3) [OF wf f] by blast
  then obtain m where m: "task_heap s f = Some m" using relinked_dom [OF r] by blast
  obtain v where v: "task_heap t f = Some (m\<lparr>t_next := v\<rparr>)" using relinked_task [OF r m] by blast
  obtain u where u: "wake_one Sleeping f t = Inr u" "lists_wf u (to_active Sleeping f L)"
    "relinked (t\<lparr>task_heap := (task_heap t)(f \<mapsto> awake (m\<lparr>t_next := v\<rparr>))\<rparr>) u"
    using wake_one_spec [OF wf f _ v] by blast
  have "relinked (s\<lparr>task_heap := (task_heap s)(f \<mapsto> awake (the (task_heap s f)))\<rparr>)
      (t\<lparr>task_heap := (task_heap t)(f \<mapsto> awake (m\<lparr>t_next := v\<rparr>))\<rparr>)"
    by (rule relinked_heap_upd [OF r]) (simp add: m no_link_def)
  then show ?thesis using u m'(1) relinked_trans by (auto simp: wakeup_def)
qed

lemma relinked_pid: "relinked s t \<Longrightarrow> p \<in> dom (task_heap s) \<Longrightarrow> pid_of t p = pid_of s p"
  using relinked_task [of s t p] by (auto simp: pid_of_def)

lemma make_zombie_spec:
  assumes wf: "lists_wf s L" and x: "x \<in> set (L Active)" "task_heap s x = Some n" "orphan n = 0"
    and rp: "waiting_father s L n = None \<Longrightarrow> zombie_count s + 1 = 50 \<Longrightarrow> clear_zombie s \<in> set (L Sleeping)"
  shows "\<exists>t. make_zombie x status s = Inr t \<and> lists_wf t (exit_lists s L x n) \<and> relinked (exited s L x n status) t"
proof -
  let ?d = "n\<lparr>exit_status := status, t_state := ZOMBIE\<rparr>" and ?Z = "L(Active := remove1 x (L Active), Zombies := x # L Zombies)"
  let ?s1 = "s\<lparr>task_heap := (task_heap s)(x \<mapsto> ?d)\<rparr>"
  have x0: "x \<noteq> 0" using lists_wfD(3) [OF wf x(1)] by simp
  obtain u0 where u0: "upd_task x (\<lambda>t. t\<lparr>exit_status := status, t_state := ZOMBIE\<rparr>) s = Inr u0" "relinked ?s1 u0" "lists_wf u0 L"
    using upd_task_lists [OF wf x(2) x0, of "\<lambda>t. t\<lparr>exit_status := status, t_state := ZOMBIE\<rparr>"] by auto
  obtain u1 u2 where u: "remove_from_tasklist Active x u0 = Inr (0, u1)" "add_to_tasklist Zombies x u1 = Inr u2"
    "lists_wf u2 ?Z" "relinked u0 u2"
    using move_spec [OF u0(3) x(1), of Zombies] by auto
  have r: "relinked ?s1 u2" using u0(2) u(4) relinked_trans by blast
  obtain v where v: "task_heap u2 x = Some (?d\<lparr>t_next := v\<rparr>)" using relinked_task [OF r, of x] by auto
  have pid: "pid_of u2 y = pid_of s y" if "y \<in> dom (task_heap s)" for y
    using relinked_pid [OF r, of y] that x(2) by (auto simp: pid_of_def)
  have find: "find_process_by_pid (ppid n) (sleep_task_list u2) u2 =
      Inr (case List.find (\<lambda>y. pid_of s y = ppid n) (L Sleeping) of None \<Rightarrow> 0 | Some y \<Rightarrow> y)"
  proof -
    have "List.find (\<lambda>y. pid_of u2 y = ppid n) (?Z Sleeping) = List.find (\<lambda>y. pid_of s y = ppid n) (L Sleeping)"
      using lists_wfD(3) [OF wf] pid by (intro find_cong) (auto simp: domIff)
    then show ?thesis using find_pid [OF u(3), of "ppid n" Sleeping] by simp
  qed
  have x_not: "x \<notin> set (L Sleeping)" using lists_wfD(2) [OF wf, of Active Sleeping] x(1) by auto
  show ?thesis
  proof (cases "waiting_father s L n")
    case (Some f)
    then have wt: "waited n = 1" "List.find (\<lambda>y. pid_of s y = ppid n) (L Sleeping) = Some f"
      by (auto simp: waiting_father_def split: if_splits)
    then have f: "f \<in> set (L Sleeping)" by (metis find_Some_iff nth_mem)
    then have f0: "f \<noteq> 0" "f \<noteq> x" using lists_wfD(3) [OF wf f] x_not by auto
    obtain t where t: "wakeup Sleeping f 1 u2 = Inr t" "lists_wf t (to_active Sleeping f ?Z)"
      "relinked (?s1\<lparr>task_heap := (task_heap ?s1)(f \<mapsto> awake (the (task_heap ?s1 f)))\<rparr>) t"
      using wake_after [OF u(3) r, of f] f by auto
    obtain w where w: "task_heap t x = Some (?d\<lparr>t_next := w\<rparr>)" using relinked_task [OF t(3), of x] f0(2) by auto
    have "make_zombie x status s = Inr t"
      using u0(1) u(1,2) v find wt f0 t(1) w x0 x(3) by (simp add: make_zombie_def)
    then show ?thesis using t(2,3) Some by (auto simp: exit_lists_def exited_def Let_def)
  next
    case None
    then have nf: "waited n = 1 \<Longrightarrow> List.find (\<lambda>y. pid_of s y = ppid n) (L Sleeping) = None"
      by (simp add: waiting_father_def)
    let ?s2 = "s\<lparr>zombie_count := zombie_count s + 1, task_heap := (task_heap s)(x \<mapsto> ?d\<lparr>orphan := 1\<rparr>)\<rparr>"
    obtain u3 where u3: "upd_task x (\<lambda>t. t\<lparr>orphan := 1\<rparr>) u2 = Inr u3"
      "relinked (?s1\<lparr>task_heap := (task_heap ?s1)(x \<mapsto> ?d\<lparr>orphan := 1\<rparr>)\<rparr>) u3" "lists_wf u3 ?Z"
      using relinked_upd [OF r _ x0, of ?d "\<lambda>t. t\<lparr>orphan := 1\<rparr>"] u(3) by auto
    obtain w where w: "task_heap u3 x = Some (?d\<lparr>orphan := 1, t_next := w\<rparr>)" using relinked_task [OF u3(2), of x] by auto
    have cnt: "zombie_count u3 = zombie_count s" "clear_zombie u3 = clear_zombie s"
      using relinked_fields(7,8) [OF u3(2)] by simp_all
    let ?u4 = "u3\<lparr>zombie_count := zombie_count s + 1\<rparr>"
    have r4: "relinked ?s2 ?u4" using relinked_count [OF u3(2), of "zombie_count s + 1"] by (simp add: count_commute(2))
    have mz: "make_zombie x status s = (if zombie_count s + 1 = 50 then wakeup Sleeping (clear_zombie s) 1 ?u4 else Inr ?u4)"
      using u0(1) u(1,2) v find nf u3(1) w x0 cnt by (auto simp: make_zombie_def Let_def)
    show ?thesis
    proof (cases "zombie_count s + 1 = 50")
      case True
      then have c: "clear_zombie s \<in> set (?Z Sleeping)" using rp None by simp
      have "lists_wf ?u4 ?Z" using u3(3) by simp
      from wake_after [where L = ?Z, OF this r4 c] obtain t where
        "wakeup Sleeping (clear_zombie s) 1 ?u4 = Inr t" "lists_wf t (to_active Sleeping (clear_zombie s) ?Z)"
        "relinked (?s2\<lparr>task_heap := (task_heap ?s2)(clear_zombie s \<mapsto> awake (the (task_heap ?s2 (clear_zombie s))))\<rparr>) t" by blast
      then show ?thesis using mz True None by (simp add: exit_lists_def exited_def Let_def)
    next
      case False
      then show ?thesis using mz None u3(3) r4 by (auto simp: exit_lists_def exited_def Let_def)
    qed
  qed
qed

text \<open>
  C30. What a task that exits leaves behind (\<open>exit_st\<close> up to the call of \<open>schedule\<close>). It moves from
  the active list to the zombies with its exit status. If it is waited for and its parent
  sleeps, the parent becomes active; otherwise it is marked as an orphan and counted, and with
  the fiftieth orphan the thread \<open>clear_zombie\<close> becomes active. Links apart, this is all that changes.
\<close>

theorem exit_notifies:
  assumes "lists_wf s L" "x \<in> set (L Active)" "task_heap s x = Some n" "orphan n = 0"
    and "waiting_father s L n = None \<longrightarrow> zombie_count s + 1 = 50 \<longrightarrow> clear_zombie s \<in> set (L Sleeping)"
  shows "\<exists>t. make_zombie x status s = Inr t \<and> lists_wf t (exit_lists s L x n) \<and> relinked (exited s L x n status) t"
  by (rule make_zombie_spec [OF assms(1-4)]) (use assms(5) in simp)

text \<open>A process waits for its child.\<close>

definition family :: kernel where
  "family = kernel_example\<lparr>task_heap := [0x1000 \<mapsto> zero_task\<lparr>pid := 1, t_next := 0x5000\<rparr>,
     0x5000 \<mapsto> zero_task\<lparr>pid := 3, ppid := 2, waited := 1\<rparr>, 0x6000 \<mapsto> zero_task\<lparr>pid := 2, t_state := SLEEP\<rparr>],
     current := 0x5000, sleep_task_list := 0x6000\<rparr>"

definition family_lists :: "task_list \<Rightarrow> u64 list" where
  "family_lists l = (case l of Active \<Rightarrow> [0x1000, 0x5000] | Sleeping \<Rightarrow> [0x6000] | _ \<Rightarrow> [])"

lemma family_wf: "lists_wf family family_lists"
proof -
  have "hlist t_next (task_heap family) (list_head l family) (family_lists l)" for l
    by (cases l) (simp_all add: family_def family_lists_def kernel_example_def zero_task_def)
  moreover have "set (family_lists l) \<inter> set (family_lists l') = {}" if "l \<noteq> l'" for l l'
    using that by (cases l; cases l') (simp_all add: family_lists_def)
  moreover have "dom (task_heap family) = {0x1000, 0x5000, 0x6000}" by (auto simp: family_def)
  ultimately show ?thesis by (simp add: lists_wf_def)
qed

theorem exit_notifies_witness:
  "\<exists>t L. make_zombie 0x5000 7 family = Inr t \<and> lists_wf t L \<and> L Active = [0x6000, 0x1000] \<and> L Zombies = [0x5000]"
proof -
  let ?n = "zero_task\<lparr>pid := 3, ppid := 2, waited := 1\<rparr>"
  have f: "waiting_father family family_lists ?n = Some 0x6000"
    by (simp add: waiting_father_def family_lists_def pid_of_def family_def)
  have "\<exists>t. make_zombie 0x5000 7 family = Inr t \<and> lists_wf t (exit_lists family family_lists 0x5000 ?n) \<and>
      relinked (exited family family_lists 0x5000 ?n 7) t"
    by (rule exit_notifies [OF family_wf]) (simp_all add: f, simp_all add: family_lists_def family_def zero_task_def)
  moreover have "exit_lists family family_lists 0x5000 ?n Active = [0x6000, 0x1000]"
    "exit_lists family family_lists 0x5000 ?n Zombies = [0x5000]"
    by (simp_all add: exit_lists_def f to_active_def Let_def family_lists_def)
  ultimately show ?thesis by blast
qed

end
