(* ===== verification/TaskMachine.thy ===== *)
theory TaskMachine
  imports TaskMoves
begin

text \<open>
  The task lists under any sequence of the events that change them: timer interrupts, calls that
  sleep, \<open>exit_st\<close>, waking the readers of standard input, and \<open>kill\<close>. \<open>tasks_ok\<close> is the invariant.
  It is shown to be kept by every event, and no event faults or loops from a state that
  satisfies it; in particular the scheduler, which lets killed tasks exit on the way, always
  comes to an end with a task that may run.
\<close>

section \<open>The invariant\<close>

definition killed :: "'a kernel_scheme \<Rightarrow> u64 \<Rightarrow> bool" where
  "killed s x \<longleftrightarrow> (\<exists>n. task_heap s x = Some n \<and> sigterm n = 1)"

definition live :: "'a kernel_scheme \<Rightarrow> u64 \<Rightarrow> bool" where
  "live s x \<longleftrightarrow> (\<exists>n. task_heap s x = Some n \<and> orphan n = 0 \<and> mm_ok s n)"

definition idle_task :: "'a kernel_scheme \<Rightarrow> u64 \<Rightarrow> bool" where
  "idle_task s x \<longleftrightarrow> (\<exists>n. task_heap s x = Some n \<and> t_mm n = 0 \<and> sigterm n \<noteq> 1)"

text \<open>
  The idle thread is a kernel thread on the active list; it has no address space and so cannot
  be killed. The kernel thread \<open>clear_zombie\<close> sleeps while there are fewer than 50 orphans, and
  nobody is its child. The counter of orphans is far from wrapping around.
\<close>

definition reaper_ok :: "'a kernel_scheme \<Rightarrow> (task_list \<Rightarrow> u64 list) \<Rightarrow> bool" where
  "reaper_ok s L \<longleftrightarrow>
     (unat (zombie_count s) < 50 \<longrightarrow> clear_zombie s \<in> set (L Sleeping)) \<and>
     unat (zombie_count s) + 32768 < 4294967296 + length (L Zombies) \<and>
     clear_zombie s \<in> dom (task_heap s) \<and>
     (\<forall>x n. task_heap s x = Some n \<longrightarrow> ppid n \<noteq> pid_of s (clear_zombie s))"

definition tasks_ok :: "u64 \<Rightarrow> 'a kernel_scheme \<Rightarrow> (task_list \<Rightarrow> u64 list) \<Rightarrow> bool" where
  "tasks_ok idle s L \<longleftrightarrow> lists_wf s L \<and> pids_unique s \<and> current s \<in> known_tasks s \<and>
     (\<forall>l. l \<noteq> Zombies \<longrightarrow> (\<forall>x\<in>set (L l). live s x)) \<and>
     idle \<in> set (L Active) \<and> idle_task s idle \<and> reaper_ok s L"

text \<open>The killed tasks that have not exited yet.\<close>

definition doomed :: "'a kernel_scheme \<Rightarrow> (task_list \<Rightarrow> u64 list) \<Rightarrow> u64 set" where
  "doomed s L = {x. killed s x \<and> (\<exists>l. l \<noteq> Zombies \<and> x \<in> set (L l))}"

definition orphans :: "'a kernel_scheme \<Rightarrow> u64 set" where
  "orphans s = {x. \<exists>n. task_heap s x = Some n \<and> orphan n \<noteq> 0}"

lemma tasks_okD:
  assumes "tasks_ok idle s L"
  shows "lists_wf s L" "pids_unique s" "current s \<in> known_tasks s" "l \<noteq> Zombies \<Longrightarrow> x \<in> set (L l) \<Longrightarrow> live s x"
    "idle \<in> set (L Active)" "idle_task s idle" "reaper_ok s L"
  using assms unfolding tasks_ok_def by blast+

section \<open>What the invariant depends on\<close>

lemma same_keys_views:
  assumes "same_keys s t"
  shows "killed t x = killed s x" "idle_task t x = idle_task s x" "live t x \<longleftrightarrow> live s x \<and> x \<notin> orphans t \<or> live t x \<and> x \<in> orphans s"
    "x \<in> dom (task_heap s) \<Longrightarrow> pid_of t x = pid_of s x"
    "task_heap t x = Some m \<Longrightarrow> \<exists>n. task_heap s x = Some n \<and> task_key m = task_key n"
proof -
  have k: "map_option task_key (task_heap t x) = map_option task_key (task_heap s x)" for x
    using assms by (simp add: same_keys_def)
  have c: "task_heap t x = None \<and> task_heap s x = None \<or>
      (\<exists>m n. task_heap t x = Some m \<and> task_heap s x = Some n \<and> task_key m = task_key n)" for x
    using k [of x] by (cases "task_heap s x"; cases "task_heap t x") auto
  show "killed t x = killed s x" "idle_task t x = idle_task s x"
    using c [of x] by (auto simp: killed_def idle_task_def task_key_def)
  show "live t x \<longleftrightarrow> live s x \<and> x \<notin> orphans t \<or> live t x \<and> x \<in> orphans s"
    using c [of x] assms by (auto simp: live_def orphans_def task_key_def mm_ok_def same_keys_def)
  show "x \<in> dom (task_heap s) \<Longrightarrow> pid_of t x = pid_of s x"
    using c [of x] by (auto simp: pid_of_def task_key_def)
  show "task_heap t x = Some m \<Longrightarrow> \<exists>n. task_heap s x = Some n \<and> task_key m = task_key n" using c [of x] by auto
qed

text \<open>
  A change that keeps what identifies the tasks keeps the invariant if the lists are well-formed
  again, the tasks on them are not marked as orphans, and the reaper is where it should be.
\<close>

lemma tasks_ok_step:
  assumes ok: "tasks_ok idle s L" and k: "same_keys s t" and wf: "lists_wf t L'"
    and cur: "current t \<in> known_tasks s" and cz: "clear_zombie t = clear_zombie s"
    and sub: "\<And>l x. l \<noteq> Zombies \<Longrightarrow> x \<in> set (L' l) \<Longrightarrow> x \<notin> orphans t \<and> (\<exists>l. l \<noteq> Zombies \<and> x \<in> set (L l))"
    and idle: "idle \<in> set (L' Active)"
    and rp: "unat (zombie_count t) < 50 \<longrightarrow> clear_zombie s \<in> set (L' Sleeping)"
      "unat (zombie_count t) + 32768 < 4294967296 + length (L' Zombies)"
  shows "tasks_ok idle t L'"
  unfolding tasks_ok_def
proof (intro conjI allI impI ballI)
  show "lists_wf t L'" by (rule wf)
  show "pids_unique t" "current t \<in> known_tasks t" using same_keysD(3,4) [OF k] tasks_okD(2) [OF ok] cur by simp_all
  show "idle \<in> set (L' Active)" by (rule idle)
  show "idle_task t idle" using same_keys_views(2) [OF k] tasks_okD(6) [OF ok] by simp
  fix l x assume "l \<noteq> Zombies" "x \<in> set (L' l)"
  from sub [OF this] show "live t x" using same_keys_views(3) [OF k, of x] tasks_okD(4) [OF ok] by blast
next
  have r: "clear_zombie s \<in> dom (task_heap s)" "\<And>x n. task_heap s x = Some n \<Longrightarrow> ppid n \<noteq> pid_of s (clear_zombie s)"
    using tasks_okD(7) [OF ok] by (auto simp: reaper_ok_def)
  have "ppid m \<noteq> pid_of t (clear_zombie t)" if m: "task_heap t x = Some m" for x m
  proof -
    obtain n where "task_heap s x = Some n" "ppid m = ppid n"
      using same_keys_views(5) [OF k m] by (auto simp: task_key_def)
    then show ?thesis using r(2) same_keys_views(4) [OF k r(1)] cz by simp
  qed
  then show "reaper_ok t L'" using rp r(1) same_keysD(1) [OF k] cz by (auto simp: reaper_ok_def)
qed

lemma relinked_orphans: "relinked s t \<Longrightarrow> orphans t = orphans s"
proof (rule set_eqI)
  fix x assume r: "relinked s t"
  have "map_option no_link (task_heap t x) = map_option no_link (task_heap s x)" using r by (simp add: relinked_def)
  then have "map_option orphan (task_heap t x) = map_option orphan (task_heap s x)"
    by (cases "task_heap s x"; cases "task_heap t x")
       (auto simp: no_link_def dest: arg_cong [where f = orphan])
  then show "x \<in> orphans t \<longleftrightarrow> x \<in> orphans s"
    by (cases "task_heap s x"; cases "task_heap t x") (auto simp: orphans_def)
qed

lemma same_keys_refl [simp]: "same_keys s s"
  by (simp add: same_keys_def)

lemma orphans_upd:
  "orphans (s\<lparr>task_heap := (task_heap s)(p \<mapsto> m)\<rparr>) = (if orphan m \<noteq> 0 then insert p (orphans s) else orphans s - {p})"
  by (auto simp: orphans_def)

section \<open>Exit\<close>

lemma waiting_father_in: "waiting_father s L n = Some f \<Longrightarrow> f \<in> set (L Sleeping) \<and> pid_of s f = ppid n"
  by (auto simp: waiting_father_def find_Some_iff split: if_splits)

lemma in_remove1: "y \<in> set xs \<Longrightarrow> y \<notin> set (remove1 x xs) \<Longrightarrow> y = x"
  by (metis in_set_remove1)

lemma exit_lists_simps:
  "exit_lists s L x n Zombies = x # L Zombies"
  "y \<in> set (exit_lists s L x n Active) \<Longrightarrow> y \<in> set (remove1 x (L Active)) \<or> waiting_father s L n = Some y \<or>
     waiting_father s L n = None \<and> zombie_count s + 1 = 50 \<and> y = clear_zombie s"
  "y \<in> set (exit_lists s L x n Sleeping) \<Longrightarrow> y \<in> set (L Sleeping)"
  "exit_lists s L x n Wait_Stdin = L Wait_Stdin"
  "y \<in> set (remove1 x (L Active)) \<Longrightarrow> y \<in> set (exit_lists s L x n Active)"
  using set_remove1_subset by (fastforce simp: exit_lists_def to_active_def Let_def split: option.splits if_splits)+

lemma exit_lists_members:
  assumes wf: "lists_wf s L" and x: "x \<in> set (L Active)"
    and rp: "zombie_count s + 1 = 50 \<Longrightarrow> clear_zombie s \<in> set (L Sleeping)"
    and y: "l \<noteq> Zombies" "y \<in> set (exit_lists s L x n l)"
  shows "y \<noteq> x \<and> (\<exists>l. l \<noteq> Zombies \<and> y \<in> set (L l))"
proof -
  have x_not: "x \<notin> set (L Sleeping)" "x \<notin> set (L Wait_Stdin)"
    using lists_wfD(2) [OF wf, of Active Sleeping] lists_wfD(2) [OF wf, of Active Wait_Stdin] x by auto
  consider "y \<in> set (remove1 x (L Active))" | "y \<in> set (L Sleeping)" | "y \<in> set (L Wait_Stdin)"
  proof (cases l)
    case Active
    then show thesis using y(2) exit_lists_simps(2) [of y s L x n] rp waiting_father_in [of s L n y] that(1,2) by blast
  next
    case Sleeping
    then show thesis using y(2) exit_lists_simps(3) [of y s L x n] that(2) by blast
  next
    case Wait_Stdin
    then show thesis using y(2) exit_lists_simps(4) [of s L x n] that(3) by simp
  qed (use y(1) in simp)
  then show ?thesis
  proof cases
    case 1
    then have "y \<noteq> x" "y \<in> set (L Active)" using lists_wfD(4) [OF wf, of Active] by auto
    then show ?thesis by blast
  qed (use x_not in auto)
qed

lemma exited_frame:
  assumes wf: "lists_wf s L" and x: "x \<in> set (L Active)" "task_heap s x = Some n" "orphan n = 0"
    and rp: "waiting_father s L n = None \<Longrightarrow> zombie_count s + 1 = 50 \<Longrightarrow> clear_zombie s \<in> set (L Sleeping)"
  shows "same_keys s (exited s L x n status)" "orphans (exited s L x n status) \<subseteq> insert x (orphans s)"
    "current (exited s L x n status) = current s" "clear_zombie (exited s L x n status) = clear_zombie s"
    "zombie_count (exited s L x n status) = (if waiting_father s L n = None then zombie_count s + 1 else zombie_count s)"
    "mm_heap (exited s L x n status) = mm_heap s"
proof -
  have woken: "\<exists>m. task_heap s f = Some m" "f \<noteq> x"
    if "waiting_father s L n = Some f \<or> waiting_father s L n = None \<and> zombie_count s + 1 = 50 \<and> f = clear_zombie s" for f
  proof -
    have f: "f \<in> set (L Sleeping)" using that rp waiting_father_in by blast
    then show "\<exists>m. task_heap s f = Some m" using lists_wfD(3) [OF wf] by blast
    show "f \<noteq> x" using f x(1) lists_wfD(2) [OF wf, of Active Sleeping] by auto
  qed
  have mm: "mm_heap (exited s L x n status) = mm_heap s"
    by (simp add: exited_def Let_def split: option.split)
  have "map_option task_key (task_heap (exited s L x n status) p) = map_option task_key (task_heap s p)" for p
    using x(2) woken by (fastforce simp: exited_def Let_def task_key_def split: option.split)
  then show "same_keys s (exited s L x n status)" using mm by (simp add: same_keys_def)
  show "orphans (exited s L x n status) \<subseteq> insert x (orphans s)"
    using x woken by (fastforce simp: orphans_def exited_def Let_def split: option.splits if_splits)
qed (simp_all add: exited_def Let_def split: option.split)

text \<open>Nobody but the exiting task leaves the lists of the living.\<close>

lemma exit_lists_kept:
  assumes "lists_wf s L" "x \<in> set (L Active)" "l \<noteq> Zombies" "y \<in> set (L l)" "y \<noteq> x"
  shows "\<exists>k. k \<noteq> Zombies \<and> y \<in> set (exit_lists s L x n k)"
proof (cases l)
  case Active
  then have "y \<in> set (exit_lists s L x n Active)" using assms(4,5) by (intro exit_lists_simps(5)) simp
  then show ?thesis by blast
next
  case Sleeping
  then have "y \<in> set (exit_lists s L x n Sleeping) \<or> y \<in> set (exit_lists s L x n Active)"
    using assms(4) by (auto simp: exit_lists_def to_active_def Let_def split: option.split intro: in_remove1)
  then show ?thesis by blast
next
  case Wait_Stdin
  then have "y \<in> set (exit_lists s L x n Wait_Stdin)" using assms(4) by (simp add: exit_lists_simps)
  then show ?thesis by blast
qed (use assms(3) in simp)

lemma reaper_sleeps:
  assumes "tasks_ok idle s L" "zombie_count s + 1 = 50"
  shows "clear_zombie s \<in> set (L Sleeping)"
proof -
  have "zombie_count s = 49" using assms(2) by (simp add: eq_diff_eq [symmetric])
  then show ?thesis using tasks_okD(7) [OF assms(1)] by (simp add: reaper_ok_def)
qed

lemma make_zombie_ok:
  assumes ok: "tasks_ok idle s L" and x: "x \<in> set (L Active)" "x \<noteq> idle" "task_heap s x = Some n"
  shows "\<exists>t. make_zombie x status s = Inr t \<and> tasks_ok idle t (exit_lists s L x n) \<and> relinked (exited s L x n status) t"
proof -
  note wf = tasks_okD(1) [OF ok] and r = tasks_okD(7) [OF ok]
  have or: "orphan n = 0" using tasks_okD(4) [OF ok _ x(1)] x(3) by (simp add: live_def)
  have rp: "clear_zombie s \<in> set (L Sleeping)" if "zombie_count s + 1 = 50"
    by (rule reaper_sleeps [OF ok that])
  obtain t where t: "make_zombie x status s = Inr t" "lists_wf t (exit_lists s L x n)" "relinked (exited s L x n status) t"
    using make_zombie_spec [OF wf x(1,3) or rp] by blast
  note fr = exited_frame [OF wf x(1,3) or rp, where status = status]
  have k: "same_keys s t" using fr(1) relinked_keys [OF t(3)] same_keys_trans by blast
  have orph: "orphans t \<subseteq> insert x (orphans s)" using fr(2) relinked_orphans [OF t(3)] by simp
  have cnt: "zombie_count t = (if waiting_father s L n = None then zombie_count s + 1 else zombie_count s)"
    using fr(5) relinked_fields(7) [OF t(3)] by simp
  have len: "length (L Zombies) < 32767" using lists_wfD(5) [OF t(2), of Zombies] by (simp add: exit_lists_simps)
  then have nowrap: "unat (zombie_count s + 1) = unat (zombie_count s) + 1"
    using r by (subst unat_word_ariths) (simp add: reaper_ok_def)
  have "tasks_ok idle t (exit_lists s L x n)"
  proof (rule tasks_ok_step [OF ok k t(2)])
    show "current t \<in> known_tasks s" "clear_zombie t = clear_zombie s"
      using relinked_fields(1,8) [OF t(3)] fr(3,4) tasks_okD(3) [OF ok] by simp_all
    show "idle \<in> set (exit_lists s L x n Active)"
      using tasks_okD(5) [OF ok] x(2) by (intro exit_lists_simps(5)) simp
    show "unat (zombie_count t) + 32768 < 4294967296 + length (exit_lists s L x n Zombies)"
      using cnt nowrap r by (simp add: exit_lists_simps reaper_ok_def)
    show "unat (zombie_count t) < 50 \<longrightarrow> clear_zombie s \<in> set (exit_lists s L x n Sleeping)"
    proof
      assume lt: "unat (zombie_count t) < 50"
      have "waiting_father s L n \<noteq> Some (clear_zombie s)"
        using waiting_father_in [of s L n "clear_zombie s"] r x(3) unfolding reaper_ok_def by metis
      moreover have "zombie_count s + 1 \<noteq> 50" if "waiting_father s L n = None" using that lt cnt by auto
      moreover have "clear_zombie s \<in> set (L Sleeping)" using lt cnt nowrap r by (auto simp: reaper_ok_def split: if_splits)
      ultimately show "clear_zombie s \<in> set (exit_lists s L x n Sleeping)"
        by (auto simp: exit_lists_def to_active_def Let_def in_set_remove1 split: option.split)
    qed
    fix l y assume y: "l \<noteq> Zombies" "y \<in> set (exit_lists s L x n l)"
    have "\<exists>l. l \<noteq> Zombies \<and> y \<in> set (L l)" "y \<noteq> x"
      using exit_lists_members [OF wf x(1) rp y] by blast+
    moreover from this have "live s y" using tasks_okD(4) [OF ok] by blast
    then have "y \<notin> orphans s" by (auto simp: live_def orphans_def)
    ultimately show "y \<notin> orphans t \<and> (\<exists>l. l \<noteq> Zombies \<and> y \<in> set (L l))" using orph by blast
  qed
  then show ?thesis using t by blast
qed

section \<open>The scheduler\<close>

fun cpu_state :: "'s cpu \<Rightarrow> 's" where
  "cpu_state (Returns s) = s"
| "cpu_state (Switched s) = s"

text \<open>
  What a run of the scheduler may do to the lists: some of the killed tasks become zombies;
  sleeping tasks may be woken up. The zombies keep their exit codes.
\<close>

definition exit_code :: "'a kernel_scheme \<Rightarrow> u64 \<Rightarrow> (task_state \<times> u32) option" where
  "exit_code s x = map_option (\<lambda>n. (t_state n, exit_status n)) (task_heap s x)"

definition scheduled :: "u64 \<Rightarrow> 'a kernel_scheme \<Rightarrow> (task_list \<Rightarrow> u64 list) \<Rightarrow> 'a kernel_scheme \<Rightarrow> (task_list \<Rightarrow> u64 list) \<Rightarrow> bool" where
  "scheduled idle s L t L' \<longleftrightarrow> tasks_ok idle t L' \<and> same_keys s t \<and>
     set (L Zombies) \<subseteq> set (L' Zombies) \<and> set (L' Zombies) \<subseteq> set (L Zombies) \<union> doomed s L \<and>
     doomed t L' = doomed s L - set (L' Zombies) \<and> (\<forall>x\<in>set (L Zombies). exit_code t x = exit_code s x)"

lemma finite_doomed: "tasks_ok idle s L \<Longrightarrow> finite (doomed s L)"
proof -
  assume "tasks_ok idle s L"
  then have "finite (dom (task_heap s))" using tasks_okD(1) by (auto simp: lists_wf_def)
  moreover have "doomed s L \<subseteq> dom (task_heap s)" by (auto simp: doomed_def killed_def)
  ultimately show ?thesis by (rule finite_subset [rotated])
qed

lemma doomed_alive: "tasks_ok idle s L \<Longrightarrow> x \<in> doomed s L \<Longrightarrow> x \<notin> set (L Zombies)"
  using lists_wfD(2) [OF tasks_okD(1)] by (fastforce simp: doomed_def)

lemma scheduled_refl: "tasks_ok idle s L \<Longrightarrow> scheduled idle s L s L"
  using doomed_alive by (auto simp: scheduled_def)

lemma scheduled_trans:
  assumes "scheduled idle s L t M" "scheduled idle t M u N"
  shows "scheduled idle s L u N"
proof -
  have "exit_code u x = exit_code s x" if "x \<in> set (L Zombies)" for x
  proof -
    have "x \<in> set (M Zombies)" using assms(1) that unfolding scheduled_def by blast
    then show ?thesis using assms that by (simp add: scheduled_def)
  qed
  then show ?thesis using assms same_keys_trans unfolding scheduled_def by blast
qed

lemma relinked_exit_code: "relinked s t \<Longrightarrow> exit_code t x = exit_code s x"
proof -
  assume "relinked s t"
  then have "map_option no_link (task_heap t x) = map_option no_link (task_heap s x)" by (simp add: relinked_def)
  then show ?thesis
    by (cases "task_heap s x"; cases "task_heap t x")
       (auto simp: no_link_def exit_code_def dest: arg_cong [where f = exit_status] arg_cong [where f = t_state])
qed

lemma exited_exit_code:
  assumes wf: "lists_wf s L" and x: "x \<in> set (L Active)" "task_heap s x = Some n"
    and rp: "zombie_count s + 1 = 50 \<Longrightarrow> clear_zombie s \<in> set (L Sleeping)"
  shows "exit_code (exited s L x n status) x = Some (ZOMBIE, status)"
    "y \<in> set (L Zombies) \<Longrightarrow> exit_code (exited s L x n status) y = exit_code s y"
proof -
  have "f \<noteq> x \<and> (y \<in> set (L Zombies) \<longrightarrow> f \<noteq> y)"
    if "waiting_father s L n = Some f \<or> zombie_count s + 1 = 50 \<and> f = clear_zombie s" for f
    using that rp waiting_father_in [of s L n f] x(1) lists_wfD(2) [OF wf, of Sleeping Active] lists_wfD(2) [OF wf, of Sleeping Zombies] by auto
  moreover have "y \<noteq> x" if "y \<in> set (L Zombies)" using that x(1) lists_wfD(2) [OF wf, of Zombies Active] by auto
  ultimately show "exit_code (exited s L x n status) x = Some (ZOMBIE, status)"
    "y \<in> set (L Zombies) \<Longrightarrow> exit_code (exited s L x n status) y = exit_code s y"
    using x(2) by (auto simp: exited_def exit_code_def Let_def split: option.splits)
qed

lemma exit_scheduled:
  assumes ok: "tasks_ok idle s L" and x: "x \<in> set (L Active)" "killed s x" "task_heap s x = Some n"
  shows "\<exists>t. make_zombie x status s = Inr t \<and> scheduled idle s L t (exit_lists s L x n) \<and>
    current t = current s \<and> x \<notin> doomed t (exit_lists s L x n) \<and> x \<in> doomed s L"
proof -
  have ni: "x \<noteq> idle" using x(2) tasks_okD(6) [OF ok] by (auto simp: killed_def idle_task_def)
  obtain t where t: "make_zombie x status s = Inr t" "tasks_ok idle t (exit_lists s L x n)" "relinked (exited s L x n status) t"
    using make_zombie_ok [OF ok x(1) ni x(3)] by blast
  note wf = tasks_okD(1) [OF ok]
  have or: "orphan n = 0" using tasks_okD(4) [OF ok _ x(1)] x(3) by (simp add: live_def)
  have rp: "clear_zombie s \<in> set (L Sleeping)" if "zombie_count s + 1 = 50"
    by (rule reaper_sleeps [OF ok that])
  note fr = exited_frame [OF wf x(1,3) or rp, where status = status]
  have k: "same_keys s t" using fr(1) relinked_keys [OF t(3)] same_keys_trans by blast
  have codes: "\<forall>y\<in>set (L Zombies). exit_code t y = exit_code s y"
    using relinked_exit_code [OF t(3)] exited_exit_code(2) [OF wf x(1,3) rp] by simp
  have d: "x \<in> doomed s L" using x(1,2) unfolding doomed_def by blast
  have z: "set (exit_lists s L x n Zombies) = insert x (set (L Zombies))" by (simp add: exit_lists_simps)
  have "doomed t (exit_lists s L x n) = doomed s L - set (exit_lists s L x n Zombies)"
  proof (rule set_eqI)
    fix y
    show "y \<in> doomed t (exit_lists s L x n) \<longleftrightarrow> y \<in> doomed s L - set (exit_lists s L x n Zombies)"
      using exit_lists_kept [OF wf x(1), where y = y and n = n] exit_lists_members [OF wf x(1) rp, where y = y and n = n]
        same_keys_views(1) [OF k, of y] doomed_alive [OF ok, of y] doomed_alive [OF t(2), of y]
      unfolding z doomed_def by blast
  qed
  then have "scheduled idle s L t (exit_lists s L x n)" using t(2) k d codes unfolding scheduled_def z by auto
  moreover have "current t = current s" using relinked_fields(1) [OF t(3)] fr(3) by simp
  ultimately show ?thesis using t(1) d z doomed_alive [OF t(2), of x] by auto
qed

text \<open>The selected task is not killed: it is dispatched.\<close>

lemma same_tasks_keys: "same_tasks s t \<Longrightarrow> same_keys s t \<and> orphans t = orphans s \<and> (\<forall>x. exit_code t x = exit_code s x)"
proof -
  assume st: "same_tasks s t"
  have v: "map_option sched_view (task_heap t p) = map_option sched_view (task_heap s p)" for p
    using st by (simp add: same_tasks_def)
  have c: "map_option task_key (task_heap t p) = map_option task_key (task_heap s p)"
      "map_option orphan (task_heap t p) = map_option orphan (task_heap s p)" "exit_code t p = exit_code s p" for p
    using v [of p] by (cases "task_heap s p"; cases "task_heap t p"; auto simp: task_key_def exit_code_def dest: sched_view_fields)+
  have "x \<in> orphans t \<longleftrightarrow> x \<in> orphans s" for x
    using c(2) [of x] by (cases "task_heap s x"; cases "task_heap t x") (auto simp: orphans_def)
  then show ?thesis using c(1,3) st by (auto simp: same_keys_def same_tasks_def)
qed

lemma dispatch_scheduled:
  assumes ok: "tasks_ok idle s L" and n: "n \<in> set (L Active)"
  shows "\<exists>r. dispatch sp (current s) n s = Inr r \<and> scheduled idle s L (cpu_state r) L \<and> current (cpu_state r) = n \<and>
    (r = Returns (cpu_state r) \<longleftrightarrow> n = current s)"
proof (cases "n = current s")
  case True
  then show ?thesis using scheduled_refl [OF ok] by (auto simp: dispatch_def)
next
  case False
  have "live s n" using tasks_okD(4) [OF ok _ n] by simp
  then obtain m where m: "task_heap s n = Some m" "mm_ok s m" by (auto simp: live_def)
  have n0: "n \<noteq> 0" using lists_wfD(3) [OF tasks_okD(1) [OF ok] n] by simp
  obtain t where t: "dispatch sp (current s) n s = Inr (Switched t)" "current t = n" "same_tasks s t"
    using dispatch_spec [OF tasks_okD(3) [OF ok] n0 m False] by blast
  note k = same_tasks_keys [OF t(3)]
  have cz: "clear_zombie t = clear_zombie s" "zombie_count t = zombie_count s" using t(3) by (simp_all add: same_tasks_def)
  have "tasks_ok idle t L"
  proof (rule tasks_ok_step [OF ok conjunct1 [OF k] same_tasks_lists [OF t(3) tasks_okD(1) [OF ok]]])
    show "current t \<in> known_tasks s" using t(2) n0 m(1) by (auto simp: known_tasks_def)
    fix l x assume lx: "l \<noteq> Zombies" "x \<in> set (L l)"
    then have "x \<notin> orphans t" using tasks_okD(4) [OF ok lx] k by (auto simp: live_def orphans_def)
    then show "x \<notin> orphans t \<and> (\<exists>l. l \<noteq> Zombies \<and> x \<in> set (L l))" using lx by blast
  qed (use tasks_okD(5,7) [OF ok] cz in \<open>simp_all add: reaper_ok_def\<close>)
  moreover have "doomed t L = doomed s L" using same_keys_views(1) [OF conjunct1 [OF k]] by (simp add: doomed_def)
  ultimately have "scheduled idle s L t L" using k scheduled_refl [OF ok] by (auto simp: scheduled_def)
  then show ?thesis using t(1,2) False by auto
qed

text \<open>
  The scheduler ends, whatever tasks have been killed: each round in which it selects a killed
  task turns that one into a zombie. Two units of fuel per killed task suffice.
\<close>

lemma schedule_loop_total:
  assumes "tasks_ok idle s L" "2 * card (doomed s L) < k"
  shows "\<exists>r L'. schedule_loop k sp (current s) s = Inr r \<and> scheduled idle s L (cpu_state r) L' \<and>
    current (cpu_state r) \<in> set (L' Active) \<and> \<not> killed s (current (cpu_state r)) \<and>
    (r = Returns (cpu_state r) \<longleftrightarrow> current (cpu_state r) = current s)"
  using assms
proof (induction "card (doomed s L)" arbitrary: s L k rule: less_induct)
  case less
  note ok = less.prems(1)
  have ne: "L Active \<noteq> []" using tasks_okD(5) [OF ok] by auto
  define n where "n = successor (L Active) (current s)"
  have sel: "select_task_struct s = Inr n"
    unfolding n_def by (rule select_task [OF tasks_okD(1-3) [OF ok] ne])
  have nA: "n \<in> set (L Active)" unfolding n_def by (rule successor_in [OF ne])
  then obtain m where m: "n \<noteq> 0" "task_heap s n = Some m" using lists_wfD(3) [OF tasks_okD(1) [OF ok]] by blast
  obtain k' where k: "k = Suc k'" using less.prems(2) by (cases k) auto
  show ?case
  proof (cases "sigterm m = 1")
    case False
    then have "schedule_loop k sp (current s) s = dispatch sp (current s) n s" using k sel m by simp
    moreover have "\<not> killed s n" using False m by (simp add: killed_def)
    ultimately show ?thesis using dispatch_scheduled [OF ok nA] nA by metis
  next
    case True
    then have kn: "killed s n" using m by (auto simp: killed_def)
    let ?M = "exit_lists s L n m"
    obtain t where t: "make_zombie n 1 s = Inr t" "scheduled idle s L t ?M" "current t = current s"
      "n \<notin> doomed t ?M" "n \<in> doomed s L"
      using exit_scheduled [OF ok nA kn m(2)] by blast
    have tok: "tasks_ok idle t ?M" using t(2) by (simp add: scheduled_def)
    have sub: "doomed t ?M \<subset> doomed s L" using t(2,4,5) by (auto simp: scheduled_def)
    then have c: "card (doomed t ?M) < card (doomed s L)" by (rule psubset_card_mono [OF finite_doomed [OF ok]])
    obtain k'' where k'': "k' = Suc k''" "2 * card (doomed t ?M) < k''" using c less.prems(2) k by (cases k') auto
    obtain r M where r: "schedule_loop k'' sp (current t) t = Inr r" "scheduled idle t ?M (cpu_state r) M"
      "current (cpu_state r) \<in> set (M Active)" "\<not> killed t (current (cpu_state r))"
      "r = Returns (cpu_state r) \<longleftrightarrow> current (cpu_state r) = current t"
      using less.hyps [OF c tok k''(2)] by blast
    have sr: "scheduled idle s L (cpu_state r) M" by (rule scheduled_trans [OF t(2) r(2)])
    have killed: "killed t x = killed s x" "killed (cpu_state r) x = killed s x" for x
      using t(2) sr same_keys_views(1) by (auto simp: scheduled_def)
    have ex: "exit_st_n k' sp n 1 s = Inr r" using k''(1) t(1) r(1) by simp
    show ?thesis
    proof (cases r)
      case (Switched u)
      then have "schedule_loop k sp (current s) s = Inr r" using k sel m True ex by simp
      then show ?thesis using sr r(3-5) killed t(3) by auto
    next
      case (Returns u)
      have uok: "tasks_ok idle u M" "current u = current s" using sr r(5) Returns t(3) by (auto simp: scheduled_def)
      have "doomed u M \<subseteq> doomed t ?M" using r(2) Returns by (auto simp: scheduled_def)
      then have "card (doomed u M) \<le> card (doomed t ?M)" by (rule card_mono [OF finite_doomed [OF tok]])
      then have cu: "card (doomed u M) < card (doomed s L)" "2 * card (doomed u M) < k'" using c k'' by simp_all
      obtain q N where q: "schedule_loop k' sp (current u) u = Inr q" "scheduled idle u M (cpu_state q) N"
        "current (cpu_state q) \<in> set (N Active)" "\<not> killed u (current (cpu_state q))"
        "q = Returns (cpu_state q) \<longleftrightarrow> current (cpu_state q) = current u"
        using less.hyps [OF cu(1) uok(1) cu(2)] by blast
      have "schedule_loop k sp (current s) s = Inr q" using k sel m True ex Returns q(1) uok(2) by simp
      moreover have "scheduled idle s L (cpu_state q) N" using scheduled_trans [OF _ q(2)] sr Returns by simp
      ultimately show ?thesis using q(3-5) killed(2) Returns uok(2) by auto
    qed
  qed
qed

lemma schedule_total:
  assumes "tasks_ok idle s L"
  shows "\<exists>r L'. schedule sp s = Inr r \<and> scheduled idle s L (cpu_state r) L' \<and>
    current (cpu_state r) \<in> set (L' Active) \<and> \<not> killed s (current (cpu_state r)) \<and>
    (r = Returns (cpu_state r) \<longleftrightarrow> current (cpu_state r) = current s)"
proof -
  have fin: "finite (dom (task_heap s))" "card (dom (task_heap s)) < 32768"
    using tasks_okD(1) [OF assms] by (simp_all add: lists_wf_def)
  have "card (doomed s L) \<le> card (dom (task_heap s))"
    by (rule card_mono [OF fin(1)]) (auto simp: doomed_def killed_def)
  then have "2 * card (doomed s L) < 65536" using fin(2) by simp
  from schedule_loop_total [OF assms this] show ?thesis unfolding schedule_def by blast
qed

text \<open>
  C5. The scheduler always comes to an end. From any state in which the task lists are in order,
  however many of the tasks have been killed, \<open>schedule\<close> neither faults nor loops: killed tasks it
  comes across exit and become zombies (only those do, and zombies keep their exit codes), and
  it ends with a task of the active list running that has not been killed. It returns to its
  caller exactly if that task is the caller. The lists are in order again.
\<close>

theorem schedule_ends:
  assumes "tasks_ok idle s L"
  shows "\<exists>r L'. schedule sp s = Inr r \<and> scheduled idle s L (cpu_state r) L' \<and>
    current (cpu_state r) \<in> set (L' Active) \<and> \<not> killed s (current (cpu_state r)) \<and>
    (r = Returns (cpu_state r) \<longleftrightarrow> current (cpu_state r) = current s)"
  by (rule schedule_total [OF assms])

lemma exit_st_total:
  assumes ok: "tasks_ok idle s L" and x: "current s \<in> set (L Active)" "current s \<noteq> idle"
  shows "\<exists>t L'. exit_st sp (current s) status s = Inr (Switched t) \<and> tasks_ok idle t L' \<and>
    current t \<in> set (L' Active) \<and> \<not> killed s (current t) \<and>
    current s \<in> set (L' Zombies) \<and> exit_code t (current s) = Some (ZOMBIE, status)"
proof -
  let ?x = "current s"
  obtain n where n: "task_heap s ?x = Some n" using lists_wfD(3) [OF tasks_okD(1) [OF ok] x(1)] by blast
  note wf = tasks_okD(1) [OF ok] and rp = reaper_sleeps [OF ok]
  let ?M = "exit_lists s L ?x n"
  obtain t where t: "make_zombie ?x status s = Inr t" "tasks_ok idle t ?M" "relinked (exited s L ?x n status) t"
    using make_zombie_ok [OF ok x n] by blast
  have or: "orphan n = 0" using tasks_okD(4) [OF ok _ x(1)] n by (simp add: live_def)
  note fr = exited_frame [OF wf x(1) n or rp, where status = status]
  have k: "same_keys s t" using fr(1) relinked_keys [OF t(3)] same_keys_trans by blast
  have code: "exit_code t ?x = Some (ZOMBIE, status)"
    using relinked_exit_code [OF t(3)] exited_exit_code(1) [OF wf x(1) n rp] by simp
  obtain r L' where r: "schedule sp t = Inr r" "scheduled idle t ?M (cpu_state r) L'"
    "current (cpu_state r) \<in> set (L' Active)" "\<not> killed t (current (cpu_state r))"
    "r = Returns (cpu_state r) \<longleftrightarrow> current (cpu_state r) = current t"
    using schedule_total [OF t(2)] by blast
  have z: "?x \<in> set (?M Zombies)" "?x \<in> set (L' Zombies)" using r(2) by (auto simp: exit_lists_simps scheduled_def)
  have cur: "current t = ?x" using relinked_fields(1) [OF t(3)] fr(3) by simp
  have "tasks_ok idle (cpu_state r) L'" using r(2) by (simp add: scheduled_def)
  then have "?x \<notin> set (L' Active)" using z(2) lists_wfD(2) [OF tasks_okD(1), of idle "cpu_state r" L' Zombies Active] by auto
  then have "r \<noteq> Returns (cpu_state r)" using r(3,5) cur by auto
  then obtain u where u: "r = Switched u" by (cases r) auto
  have "exit_st sp ?x status s = Inr (Switched u)"
    using t(1) r(1) u unfolding exit_st_def schedule_def exit_st_n.simps(2) by simp
  moreover have "exit_code u ?x = Some (ZOMBIE, status)" using r(2) u z(1) code by (simp add: scheduled_def)
  moreover have "\<not> killed s (current u)" using r(4) u same_keys_views(1) [OF k] by simp
  ultimately show ?thesis using r(2,3) u z(2) by (auto simp: scheduled_def)
qed

text \<open>
  C14. A task that exits never comes back: \<open>exit_st\<close> ends with another task of the active list
  running, one that has not been killed. The exiting task is on the list of zombies, in state
  \<open>ZOMBIE\<close> and with the given exit status, and the lists are in order.
\<close>

theorem exit_st_never_returns:
  assumes "tasks_ok idle s L" "current s \<in> set (L Active)" "current s \<noteq> idle"
  shows "\<exists>t L'. exit_st sp (current s) status s = Inr (Switched t) \<and> tasks_ok idle t L' \<and>
    current t \<in> set (L' Active) \<and> \<not> killed s (current t) \<and>
    current s \<in> set (L' Zombies) \<and> exit_code t (current s) = Some (ZOMBIE, status)"
  by (rule exit_st_total [OF assms])

section \<open>The other events\<close>

definition run_ok :: "u64 \<Rightarrow> 'a kernel_scheme \<Rightarrow> bool" where
  "run_ok idle s \<longleftrightarrow> (\<exists>L. tasks_ok idle s L \<and> current s \<in> set (L Active))"

lemma schedule_run_ok: "tasks_ok idle s L \<Longrightarrow> \<exists>r. schedule sp s = Inr r \<and> run_ok idle (cpu_state r)"
  using schedule_total [of idle s L sp] unfolding run_ok_def scheduled_def by blast

lemma tasks_ok_cong:
  assumes "task_heap t = task_heap s" "mm_heap t = mm_heap s" "current t = current s" "clear_zombie t = clear_zombie s"
    "zombie_count t = zombie_count s" "\<And>l. list_head l t = list_head l s"
  shows "tasks_ok idle t L = tasks_ok idle s L"
proof -
  have "live t x = live s x" "idle_task t x = idle_task s x" "pid_of t x = pid_of s x" for x
    using assms by (simp_all add: live_def mm_ok_def idle_task_def pid_of_def)
  moreover from this have "pid_of t = pid_of s" by (simp add: fun_eq_iff)
  then have "pids_unique t = pids_unique s" using assms by (simp add: pids_unique_def)
  moreover have "lists_wf t L = lists_wf s L" using assms by (simp add: lists_wf_def)
  ultimately show ?thesis using assms by (simp add: tasks_ok_def reaper_ok_def known_tasks_def)
qed

lemma upd_task_ok:
  assumes ok: "tasks_ok idle s L" and p: "p \<in> known_tasks s"
    and f: "\<And>n. t_next (f n) = t_next n" "\<And>n. task_key (f n) = task_key n" "\<And>n. orphan (f n) = orphan n"
  shows "\<exists>t. upd_task p f s = Inr t \<and> tasks_ok idle t L \<and> current t = current s"
proof -
  obtain t n where t: "task_heap s p = Some n" "upd_task p f s = Inr t" "t = s\<lparr>task_heap := (task_heap s)(p \<mapsto> f n)\<rparr>" "lists_wf t L"
    using upd_task_spec [OF tasks_okD(1) [OF ok] p f(1)] by metis
  have k: "same_keys s t" using t f(2) by (simp add: same_keys_def)
  have o: "orphans t = orphans s" using t f(3) by (auto simp: orphans_def)
  have "tasks_ok idle t L"
  proof (rule tasks_ok_step [OF ok k t(4)])
    fix l x assume lx: "l \<noteq> Zombies" "x \<in> set (L l)"
    then show "x \<notin> orphans t \<and> (\<exists>l. l \<noteq> Zombies \<and> x \<in> set (L l))"
      using tasks_okD(4) [OF ok lx] unfolding o by (auto simp: live_def orphans_def)
  qed (use tasks_okD(3,5,7) [OF ok] t(3) in \<open>simp_all add: reaper_ok_def\<close>)
  then show ?thesis using t(2,3) by auto
qed

lemma write_timeE:
  obtains b where "write_time_to_screen h m x s = s\<lparr>screen_buffer := b\<rparr>"
proof -
  have step: "\<exists>b. put_to_screen c i j k (s\<lparr>screen_buffer := a\<rparr>) = s\<lparr>screen_buffer := b\<rparr>" for c i j k a
    by (simp add: put_to_screen_def poke_def) blast
  define Q where "Q t \<longleftrightarrow> (\<exists>b. t = s\<lparr>screen_buffer := b\<rparr>)" for t
  have Q: "Q t \<Longrightarrow> Q (put_to_screen c i j k t)" for c i j k t using step unfolding Q_def by blast
  have "s = s\<lparr>screen_buffer := screen_buffer s\<rparr>" by simp
  then have "Q s" unfolding Q_def by blast
  then have "Q (write_time_to_screen h m x s)" unfolding write_time_to_screen_def Let_def by (intro Q)
  then show thesis using that unfolding Q_def by blast
qed

lemma tickE:
  obtains b k x m h where "tick s = s\<lparr>ticks := k, sec := x, minute := m, hour := h, screen_buffer := b\<rparr>"
proof -
  have same: "s\<lparr>ticks := k\<rparr> = s\<lparr>ticks := k, sec := sec s, minute := minute s, hour := hour s, screen_buffer := screen_buffer s\<rparr>" for k
    by simp
  show thesis
  proof (cases "(ticks s + 1) mod 100 = 0")
    case False
    then have "tick s = s\<lparr>ticks := ticks s + 1\<rparr>" by (simp add: tick_def Let_def)
    then show thesis using same that by metis
  next
    case True
    let ?s = "s\<lparr>ticks := ticks s + 1\<rparr>"
    obtain x m h where a: "advance_clock ?s = ?s\<lparr>sec := x, minute := m, hour := h\<rparr>"
    proof -
      have "\<exists>x m h. advance_clock ?s = ?s\<lparr>sec := x, minute := m, hour := h\<rparr>"
        by (rule exI [of _ "sec (advance_clock ?s)"], rule exI [of _ "minute (advance_clock ?s)"], rule exI [of _ "hour (advance_clock ?s)"])
           (simp add: advance_clock_def Let_def)
      then show thesis using that by blast
    qed
    have "tick s = write_time_to_screen h m x (?s\<lparr>sec := x, minute := m, hour := h\<rparr>)"
      using True a by (simp add: tick_def Let_def)
    then show thesis using write_timeE that by metis
  qed
qed

lemma tick_tasks: "task_heap (tick s) = task_heap s" "mm_heap (tick s) = mm_heap s" "current (tick s) = current s"
  "clear_zombie (tick s) = clear_zombie s" "zombie_count (tick s) = zombie_count s" "list_head l (tick s) = list_head l s"
proof -
  obtain b k x m h where t: "tick s = s\<lparr>ticks := k, sec := x, minute := m, hour := h, screen_buffer := b\<rparr>" by (rule tickE)
  show "task_heap (tick s) = task_heap s" "mm_heap (tick s) = mm_heap s" "current (tick s) = current s"
    "clear_zombie (tick s) = clear_zombie s" "zombie_count (tick s) = zombie_count s" unfolding t by simp_all
  show "list_head l (tick s) = list_head l s" unfolding t by (cases l) simp_all
qed

lemma timer_run_ok:
  assumes "run_ok idle s"
  shows "\<exists>r. interrupt_handler_timer sp s = Inr r \<and> run_ok idle (cpu_state r)"
proof -
  obtain L where L: "tasks_ok idle s L" "current s \<in> set (L Active)" using assms by (auto simp: run_ok_def)
  have ok: "tasks_ok idle (tick s) L" using L(1) tasks_ok_cong [of "tick s" s] by (simp add: tick_tasks)
  have kn: "current (tick s) \<in> known_tasks (tick s)" by (rule tasks_okD(3) [OF ok])
  then obtain c where c: "current s \<noteq> 0" "task_heap s (current s) = Some c" by (auto simp: known_tasks_def tick_tasks)
  obtain t where t: "upd_task (current (tick s)) (\<lambda>t. t\<lparr>timeslice := 0\<rparr>) (tick s) = Inr t" "tasks_ok idle t L"
    using upd_task_ok [OF ok kn, of "\<lambda>t. t\<lparr>timeslice := 0\<rparr>"] by (auto simp: task_key_def)
  obtain u where u: "upd_task (current (tick s)) (\<lambda>t. t\<lparr>timeslice := timeslice t + 1\<rparr>) (tick s) = Inr u" "tasks_ok idle u L"
      "current u = current s"
    using upd_task_ok [OF ok kn, of "\<lambda>t. t\<lparr>timeslice := timeslice t + 1\<rparr>"] by (auto simp: task_key_def tick_tasks)
  show ?thesis
  proof (cases "timeslice c = 10")
    case True
    then have "interrupt_handler_timer sp s = schedule sp t"
      using c t(1) by (simp add: interrupt_handler_timer_def Let_def tick_tasks)
    then show ?thesis using schedule_run_ok [OF t(2)] by simp
  next
    case False
    then have "interrupt_handler_timer sp s = Inr (Returns u)"
      using c u(1) by (simp add: interrupt_handler_timer_def Let_def tick_tasks)
    moreover have "run_ok idle u" using u(2,3) L(2) unfolding run_ok_def by auto
    ultimately show ?thesis by simp
  qed
qed

lemma live_not_orphan: "tasks_ok idle s L \<Longrightarrow> l \<noteq> Zombies \<Longrightarrow> x \<in> set (L l) \<Longrightarrow> x \<notin> orphans s"
  using tasks_okD(4) by (fastforce simp: live_def orphans_def)

text \<open>Moving tasks among the lists of the living; the reaper stays where it is.\<close>

lemma move_ok:
  assumes ok: "tasks_ok idle s L" and r: "relinked s t" and wf: "lists_wf t L'" and z: "L' Zombies = L Zombies"
    and sub: "\<And>l x. l \<noteq> Zombies \<Longrightarrow> x \<in> set (L' l) \<Longrightarrow> \<exists>l. l \<noteq> Zombies \<and> x \<in> set (L l)"
    and idle: "idle \<in> set (L' Active)" and sl: "set (L Sleeping) \<subseteq> set (L' Sleeping)"
  shows "tasks_ok idle t L'"
proof (rule tasks_ok_step [OF ok relinked_keys [OF r] wf])
  show "current t \<in> known_tasks s" "clear_zombie t = clear_zombie s"
    using relinked_fields(1,8) [OF r] tasks_okD(3) [OF ok] by simp_all
  show "unat (zombie_count t) < 50 \<longrightarrow> clear_zombie s \<in> set (L' Sleeping)"
    "unat (zombie_count t) + 32768 < 4294967296 + length (L' Zombies)"
    using tasks_okD(7) [OF ok] relinked_fields(7) [OF r] sl z by (auto simp: reaper_ok_def)
  fix l x assume lx: "l \<noteq> Zombies" "x \<in> set (L' l)"
  then show "x \<notin> orphans t \<and> (\<exists>l. l \<noteq> Zombies \<and> x \<in> set (L l))"
    using sub [OF lx] live_not_orphan [OF ok] relinked_orphans [OF r] by auto
qed (rule idle)

lemma sleep_run_ok:
  assumes "run_ok idle s" "current s \<noteq> idle" "l = Sleeping \<or> l = Wait_Stdin"
  shows "\<exists>r. sleep sp l time s = Inr r \<and> run_ok idle (cpu_state r)"
proof -
  obtain L where ok: "tasks_ok idle s L" and cur: "current s \<in> set (L Active)" using assms(1) by (auto simp: run_ok_def)
  let ?M = "L(Active := remove1 (current s) (L Active), l := current s # L l)"
  obtain u t where t: "remove_from_tasklist Active (current s) s = Inr (0, u)" "add_to_tasklist l (current s) u = Inr t"
    "lists_wf t ?M" "relinked s t"
    using move_spec [OF tasks_okD(1) [OF ok] cur, of l] assms(3) by auto
  have "relinked s u" using remove_tasklist_spec [OF tasks_okD(1) [OF ok] cur] t(1) by auto
  then have cu: "current u = current s" "current t = current s" using relinked_fields(1) t(4) by auto
  have tok: "tasks_ok idle t ?M"
  proof (rule move_ok [OF ok t(4,3)])
    fix k x assume k: "k \<noteq> Zombies" "x \<in> set (?M k)"
    have "x \<in> set (L Active) \<or> x \<in> set (L k)"
      using k(2) cur set_remove1_subset [of "current s" "L Active"] assms(3) by (auto split: if_splits)
    then show "\<exists>l. l \<noteq> Zombies \<and> x \<in> set (L l)" using k(1) by blast
  qed (use assms tasks_okD(5) [OF ok] in auto)
  obtain v where v: "upd_task (current s) (\<lambda>t. t\<lparr>sleep_time := time, t_state := SLEEP\<rparr>) t = Inr v" "tasks_ok idle v ?M"
    using upd_task_ok [OF tok tasks_okD(3) [OF tok], of "\<lambda>t. t\<lparr>sleep_time := time, t_state := SLEEP\<rparr>"] cu(2)
    by (auto simp: task_key_def)
  have "sleep sp l time s = schedule sp v" using t(1,2) v(1) cu by (simp add: sleep_def)
  then show ?thesis using schedule_run_ok [OF v(2)] by simp
qed

lemma wake_set_frame:
  "same_keys s (wake_set X s)" "orphans (wake_set X s) = orphans s"
proof -
  have "map_option task_key (task_heap (wake_set X s) p) = map_option task_key (task_heap s p)" for p
    by (cases "task_heap s p") (simp_all add: wake_set_def task_key_def)
  then show "same_keys s (wake_set X s)" by (simp add: same_keys_def wake_set_def)
  have "p \<in> orphans (wake_set X s) \<longleftrightarrow> p \<in> orphans s" for p
    by (cases "task_heap s p") (auto simp: orphans_def wake_set_def)
  then show "orphans (wake_set X s) = orphans s" by blast
qed

lemma wake_stdin_run_ok:
  assumes "run_ok idle s"
  shows "\<exists>t. wakeup Wait_Stdin 0 0 s = Inr t \<and> run_ok idle t"
proof -
  obtain L where ok: "tasks_ok idle s L" and cur: "current s \<in> set (L Active)" using assms by (auto simp: run_ok_def)
  note wf = tasks_okD(1) [OF ok]
  let ?M = "L(Wait_Stdin := [], Active := rev (L Wait_Stdin) @ L Active)"
  obtain t where t: "wakeup Wait_Stdin 0 0 s = Inr t" "lists_wf t ?M" "relinked (wake_set (set (L Wait_Stdin)) s) t"
    using wake_all_spec [OF wf _ lists_wfD(5) [OF wf], of Wait_Stdin] by (auto simp: wakeup_def)
  have k: "same_keys s t" using wake_set_frame(1) relinked_keys [OF t(3)] same_keys_trans by blast
  have f: "current t = current s" "zombie_count t = zombie_count s" "clear_zombie t = clear_zombie s"
    using relinked_fields(1,7,8) [OF t(3)] by (simp_all add: wake_set_def)
  have "tasks_ok idle t ?M"
  proof (rule tasks_ok_step [OF ok k t(2)])
    fix l x assume lx: "l \<noteq> Zombies" "x \<in> set (?M l)"
    then have "\<exists>l. l \<noteq> Zombies \<and> x \<in> set (L l)" by (cases l) auto
    then show "x \<notin> orphans t \<and> (\<exists>l. l \<noteq> Zombies \<and> x \<in> set (L l))"
      using live_not_orphan [OF ok] unfolding relinked_orphans [OF t(3)] wake_set_frame(2) by auto
  qed (use tasks_okD(3,5,7) [OF ok] f in \<open>auto simp: reaper_ok_def\<close>)
  then show ?thesis using t(1) f(1) cur unfolding run_ok_def by (intro exI [of _ t] conjI exI [of _ ?M]) auto
qed

lemma find_task_spec:
  assumes "lists_wf s L"
  shows "\<exists>p. find_task n s = Inr p \<and> (p = 0 \<or> (\<exists>l. l \<noteq> Zombies \<and> p \<in> set (L l)))"
proof -
  have f: "\<exists>p. find_process_by_pid n (list_head l s) s = Inr p \<and> (p = 0 \<or> p \<in> set (L l))" for l
    using find_pid [OF assms, of n l] by (auto split: option.splits simp: find_Some_iff)
  obtain p q r where p: "find_process_by_pid n (task_headp s) s = Inr p" "p = 0 \<or> p \<in> set (L Active)"
    and q: "find_process_by_pid n (sleep_task_list s) s = Inr q" "q = 0 \<or> q \<in> set (L Sleeping)"
    and r: "find_process_by_pid n (wait_stdin_list s) s = Inr r" "r = 0 \<or> r \<in> set (L Wait_Stdin)"
    using f [of Active] f [of Sleeping] f [of Wait_Stdin] by auto
  then have "find_task n s = Inr (if p \<noteq> 0 then p else if q \<noteq> 0 then q else r)" by (simp add: find_task_def)
  then show ?thesis using p(2) q(2) r(2) by auto
qed

lemma kill_run_ok:
  assumes "run_ok idle s"
  shows "\<exists>v t. kill_by_pid n sig s = Inr (v, t) \<and> run_ok idle t"
proof -
  obtain L where ok: "tasks_ok idle s L" and cur: "current s \<in> set (L Active)" using assms by (auto simp: run_ok_def)
  note wf = tasks_okD(1) [OF ok]
  have pr: "tasks_ok idle (print_text x s) L" for x
  proof -
    have "list_head l (print_text x s) = list_head l s" for l by (cases l) simp_all
    then show ?thesis using ok tasks_ok_cong [of "print_text x s" s idle L] by simp
  qed
  have run: "run_ok idle (print_text x s)" for x using pr [of x] cur by (auto simp: run_ok_def)
  have p1: "\<exists>x. printf (''[kill_by_pid] can't find child process with pid :%d'' @ newline) [VInt n] s = Inr (print_text x s)"
    using printf_eq [of "''[kill_by_pid] can't find child process with pid :%d'' @ newline" "[VInt n]" _ s] by auto
  have p2: "\<exists>x. printf (''ERROR: can't kill kernel thread!'' @ newline) [] s = Inr (print_text x s)"
    using printf_eq [of "''ERROR: can't kill kernel thread!'' @ newline" "[]" _ s] by auto
  obtain p where p: "find_task n s = Inr p" "p = 0 \<or> (\<exists>l. l \<noteq> Zombies \<and> p \<in> set (L l))"
    using find_task_spec [OF wf] by blast
  show ?thesis
  proof (cases "p = 0")
    case True
    then show ?thesis using p(1) p1 run by (auto simp: kill_by_pid_def)
  next
    case False
    then obtain m where m: "task_heap s p = Some m" using p(2) lists_wfD(3) [OF wf] by blast
    show ?thesis
    proof (cases "t_mm m = 0")
      case True
      then show ?thesis using False p(1) m p2 run by (auto simp: kill_by_pid_def)
    next
      case mm: False
      let ?t = "s\<lparr>task_heap := (task_heap s)(p \<mapsto> m\<lparr>sigterm := 1\<rparr>)\<rparr>"
      have "p \<in> known_tasks s" using False m by (auto simp: known_tasks_def)
      then have "lists_wf ?t L"
        by (rule upd_task_spec [OF wf, of p "\<lambda>t. t\<lparr>sigterm := 1\<rparr>"]) (use m in simp_all)
      moreover have "pid_of ?t = pid_of s" using m by (simp add: pid_of_def fun_eq_iff)
      moreover from this have "pids_unique ?t" using tasks_okD(2) [OF ok] m by (simp add: pids_unique_def insert_absorb domI)
      moreover have "live ?t x = live s x" for x using m by (auto simp: live_def mm_ok_def)
      moreover have "idle_task ?t idle" using tasks_okD(6) [OF ok] m mm by (auto simp: idle_task_def)
      moreover have "reaper_ok ?t L" using tasks_okD(7) [OF ok] m \<open>pid_of ?t = pid_of s\<close> by (auto simp: reaper_ok_def)
      moreover have "current ?t \<in> known_tasks ?t" using tasks_okD(3) [OF ok] by (auto simp: known_tasks_def)
      ultimately have "tasks_ok idle ?t L" using tasks_okD(4,5) [OF ok] by (simp add: tasks_ok_def)
      then have "run_ok idle ?t" using cur by (auto simp: run_ok_def)
      then show ?thesis using False p(1) m mm assms by (auto simp: kill_by_pid_def upd_task_def)
    qed
  qed
qed

section \<open>All sequences of events\<close>

inductive kstep :: "u64 \<Rightarrow> 'a kernel_scheme \<Rightarrow> 'a kernel_scheme \<Rightarrow> bool" for idle :: u64 where
  timer: "interrupt_handler_timer sp s = Inr r \<Longrightarrow> kstep idle s (cpu_state r)"
| wait: "current s \<noteq> idle \<Longrightarrow> l = Sleeping \<or> l = Wait_Stdin \<Longrightarrow> sleep sp l time s = Inr r \<Longrightarrow> kstep idle s (cpu_state r)"
| leave: "current s \<noteq> idle \<Longrightarrow> exit_st sp (current s) status s = Inr r \<Longrightarrow> kstep idle s (cpu_state r)"
| input: "wakeup Wait_Stdin 0 0 s = Inr t \<Longrightarrow> kstep idle s t"
| kill: "kill_by_pid n sig s = Inr (v, t) \<Longrightarrow> kstep idle s t"

lemma exit_run_ok:
  assumes "run_ok idle s" "current s \<noteq> idle"
  shows "\<exists>t. exit_st sp (current s) status s = Inr (Switched t) \<and> run_ok idle t"
proof -
  obtain L where L: "tasks_ok idle s L" "current s \<in> set (L Active)" using assms(1) by (auto simp: run_ok_def)
  from exit_st_total [OF L assms(2)] show ?thesis unfolding run_ok_def by blast
qed

lemma kstep_run_ok: "kstep idle s t \<Longrightarrow> run_ok idle s \<Longrightarrow> run_ok idle t"
proof (induction rule: kstep.induct)
  case (timer sp s r)
  then show ?case using timer_run_ok [of idle s sp] by auto
next
  case (wait s l sp time r)
  then show ?case using sleep_run_ok [of idle s l sp time] by auto
next
  case (leave s sp status r)
  then show ?case using exit_run_ok [of idle s sp status] by auto
next
  case (input s t)
  then show ?case using wake_stdin_run_ok [of idle s] by auto
next
  case (kill n sig s v t)
  then show ?case using kill_run_ok [of idle s n sig] by auto
qed

lemma ksteps_run_ok: "(kstep idle)\<^sup>*\<^sup>* s t \<Longrightarrow> run_ok idle s \<Longrightarrow> run_ok idle t"
  by (induction rule: rtranclp_induct) (auto intro: kstep_run_ok)

text \<open>
  C1. The invariant of the task lists. After any sequence of timer interrupts, calls that sleep,
  exits, wake-ups of readers and kills, the four lists are disjoint well-formed lists, the task
  that runs is on the active list, as is the idle thread, no living task is marked as an orphan,
  and the thread that clears the zombies sleeps as long as there are fewer than 50 of them.
\<close>

theorem kernel_machine_invariant:
  assumes "run_ok idle s" "(kstep idle)\<^sup>*\<^sup>* s t"
  shows "run_ok idle t"
  by (rule ksteps_run_ok [OF assms(2,1)])

text \<open>
  C11. No event faults: in every state such a sequence leads to, the timer interrupt, going to sleep
  and exiting (by any task but the idle thread), waking the readers and killing any pid all run
  to their end, and a task that exits does not come back.
\<close>

theorem kernel_machine_safe:
  assumes "run_ok idle s" "(kstep idle)\<^sup>*\<^sup>* s t"
  shows "(\<forall>sp. \<exists>r. interrupt_handler_timer sp t = Inr r) \<and>
    (current t \<noteq> idle \<longrightarrow>
       (\<forall>sp time. \<exists>r. sleep sp Sleeping time t = Inr r) \<and>
       (\<forall>sp time. \<exists>r. sleep sp Wait_Stdin time t = Inr r) \<and>
       (\<forall>sp status. \<exists>u. exit_st sp (current t) status t = Inr (Switched u))) \<and>
    (\<exists>u. wakeup Wait_Stdin 0 0 t = Inr u) \<and> (\<forall>n sig. \<exists>v u. kill_by_pid n sig t = Inr (v, u))"
proof -
  have ok: "run_ok idle t" by (rule ksteps_run_ok [OF assms(2,1)])
  show ?thesis
  proof (intro conjI impI allI)
    show "\<exists>r. interrupt_handler_timer sp t = Inr r" for sp using timer_run_ok [OF ok] by blast
    show "\<exists>u. wakeup Wait_Stdin 0 0 t = Inr u" using wake_stdin_run_ok [OF ok] by blast
    show "\<exists>v u. kill_by_pid n sig t = Inr (v, u)" for n sig using kill_run_ok [OF ok] by blast
    assume "current t \<noteq> idle"
    then show "\<exists>r. sleep sp Sleeping time t = Inr r" "\<exists>r. sleep sp Wait_Stdin time t = Inr r"
      "\<exists>u. exit_st sp (current t) status t = Inr (Switched u)" for sp time status
      using sleep_run_ok [OF ok, of Sleeping] sleep_run_ok [OF ok, of Wait_Stdin] exit_run_ok [OF ok] by blast+
  qed
qed

text \<open>The idle thread, a process that has been killed and is running, and the sleeping reaper.\<close>

definition machine_example :: kernel where
  "machine_example = kernel_example\<lparr>task_heap := [0x1000 \<mapsto> zero_task\<lparr>pid := 1, t_next := 0x5000\<rparr>,
     0x5000 \<mapsto> zero_task\<lparr>pid := 2, t_mm := 0x2000, sigterm := 1\<rparr>, 0x6000 \<mapsto> zero_task\<lparr>pid := 3\<rparr>],
     current := 0x5000, sleep_task_list := 0x6000, clear_zombie := 0x6000\<rparr>"

definition machine_lists :: "task_list \<Rightarrow> u64 list" where
  "machine_lists l = (case l of Active \<Rightarrow> [0x1000, 0x5000] | Sleeping \<Rightarrow> [0x6000] | _ \<Rightarrow> [])"

lemma machine_example_ok: "tasks_ok 0x1000 machine_example machine_lists" "current machine_example \<in> set (machine_lists Active)"
proof -
  have h: "hlist t_next (task_heap machine_example) (list_head l machine_example) (machine_lists l)" for l
    by (cases l) (simp_all add: machine_example_def machine_lists_def kernel_example_def zero_task_def)
  have dj: "set (machine_lists l) \<inter> set (machine_lists l') = {}" if "l \<noteq> l'" for l l'
    using that by (cases l; cases l') (simp_all add: machine_lists_def)
  have d: "dom (task_heap machine_example) = {0x1000, 0x5000, 0x6000}" by (auto simp: machine_example_def)
  have "lists_wf machine_example machine_lists" using h dj by (simp add: lists_wf_def d)
  moreover have "pids_unique machine_example"
    unfolding pids_unique_def d by (simp add: inj_on_def pid_of_def machine_example_def)
  moreover have "current machine_example \<in> known_tasks machine_example"
    by (simp add: known_tasks_def d) (simp add: machine_example_def)
  moreover have "live machine_example x" if "x \<in> {0x1000, 0x5000, 0x6000}" for x
    using that by (auto simp: live_def mm_ok_def machine_example_def kernel_example_def zero_task_def)
  then have "\<forall>l. l \<noteq> Zombies \<longrightarrow> (\<forall>x\<in>set (machine_lists l). live machine_example x)"
    by (auto simp: machine_lists_def split: task_list.splits)
  moreover have "reaper_ok machine_example machine_lists"
    by (auto simp: reaper_ok_def d pid_of_def) (auto simp: machine_example_def kernel_example_def machine_lists_def zero_task_def split: if_splits)
  ultimately show "tasks_ok 0x1000 machine_example machine_lists"
    by (simp add: tasks_ok_def idle_task_def machine_lists_def) (simp add: machine_example_def zero_task_def)
qed (simp add: machine_example_def machine_lists_def)

lemma machine_example_run: "run_ok 0x1000 machine_example"
  using machine_example_ok by (auto simp: run_ok_def)

theorem schedule_ends_witness:
  "\<exists>r. schedule 0x900 machine_example = Inr r \<and> \<not> killed machine_example (current (cpu_state r))"
  using schedule_ends [OF machine_example_ok(1), of "0x900"] by blast

theorem exit_st_never_returns_witness:
  "\<exists>t. exit_st 0x900 0x5000 7 machine_example = Inr (Switched t) \<and> exit_code t 0x5000 = Some (ZOMBIE, 7)"
  using exit_st_never_returns [OF machine_example_ok, of "0x900" 7] by (auto simp: machine_example_def)

theorem kernel_machine_invariant_witness:
  "\<exists>t. wakeup Wait_Stdin 0 0 machine_example = Inr t \<and> run_ok 0x1000 t"
proof -
  obtain t where t: "wakeup Wait_Stdin 0 0 machine_example = Inr t" using wake_stdin_run_ok [OF machine_example_run] by blast
  have "run_ok 0x1000 t" by (rule kernel_machine_invariant [OF machine_example_run r_into_rtranclp]) (rule kstep.input [OF t])
  then show ?thesis using t by blast
qed

theorem kernel_machine_safe_witness:
  "\<exists>r. interrupt_handler_timer 0x900 machine_example = Inr r"
  using kernel_machine_safe [OF machine_example_run rtranclp.rtrancl_refl] by blast

end
