(* ===== verification/Tarfs.thy ===== *)
theory Tarfs
  imports Tasks
begin

text \<open>
  The read-only file system (src/sys/tarfs.c): a tar archive linked into the kernel image.

  The archive is the memory between the linker symbols \<open>_binary_tarfs_start\<close> and
  \<open>_binary_tarfs_end\<close>; \<open>archive s\<close> is its contents. A pointer into it is an offset from its
  start, an \<open>int\<close> because the code may step outside; a \<open>char *\<close> into a header is the part of the
  archive from there to its end, so a field without a terminator runs on into the next one, as
  it does in memory. Local \<open>char\<close> arrays, which C leaves uninitialised, are zero-filled here:
  they are only read up to a terminator that has been written before.

  A call that may end in \<open>exit_st\<close> has an \<open>outcome\<close>: a result for its caller, or another task
  runs and the caller never gets one.
\<close>

datatype ('r, 's) outcome = Result 'r 's | Blocked 's

definition obind :: "fault + ('r, 's) outcome \<Rightarrow> ('r \<Rightarrow> 's \<Rightarrow> fault + ('q, 's) outcome) \<Rightarrow> fault + ('q, 's) outcome" where
  "obind m f = rbind m (\<lambda>c. case c of Result r s \<Rightarrow> f r s | Blocked s \<Rightarrow> Inr (Blocked s))"

definition after_switch :: "fault + 's cpu \<Rightarrow> ('s \<Rightarrow> fault + ('r, 's) outcome) \<Rightarrow> fault + ('r, 's) outcome" where
  "after_switch m f = rbind m (\<lambda>c. case c of Returns s \<Rightarrow> f s | Switched s \<Rightarrow> Inr (Blocked s))"

section \<open>The archive\<close>

definition archive :: "'a kernel_scheme \<Rightarrow> string" where
  "archive s = map (\<lambda>i. char_of (uint (load8 (ram s) (VA2PA (tarfs_start s + of_nat i)))))
     [0..<unat (tarfs_end s - tarfs_start s)]"

definition header :: "string \<Rightarrow> int \<Rightarrow> fault + string" where
  "header a p = (if 0 \<le> p \<and> p < int (length a) then Inr (drop (nat p) a) else Inl Out_Of_Bounds)"

text \<open>Offsets of the fields of \<open>struct posix_header_ustar\<close>.\<close>

abbreviation (input) H_SIZE :: nat where "H_SIZE \<equiv> 124"
abbreviation (input) H_TYPEFLAG :: nat where "H_TYPEFLAG \<equiv> 156"

abbreviation (input) TARFS_HEADER :: int where "TARFS_HEADER \<equiv> 512"

definition ROUND_TO_512 :: "'l::len word \<Rightarrow> 'l word" where
  "ROUND_TO_512 n = (n + 512 - 1) AND NOT (512 - 1)"

definition octstr_to_int :: "string \<Rightarrow> fault + u64" where
  "octstr_to_int size_str =
     rbind (strlen (Some size_str)) (\<lambda>n.
     Inr (fold (\<lambda>c sz. sz * 8 + of_int (schar c - 48)) (take n size_str) 0))"

definition get_filesz :: "string \<Rightarrow> fault + u64" where
  "get_filesz h = octstr_to_int (drop H_SIZE h)"

section \<open>Looking for an entry\<close>

type_synonym checker = "string \<Rightarrow> string \<Rightarrow> fault + int"

text \<open>The name a directory entry is compared with: \<open>filename\<close> with a slash at the end.\<close>

definition dir_name :: "string \<Rightarrow> nat \<Rightarrow> fault + string" where
  "dir_name filename namesz =
     (if namesz = 0 then Inl Out_Of_Bounds
      else rbind (c_read filename (namesz - 1)) (\<lambda>c.
        if c \<noteq> CHR ''/'' then
          rbind (copy_field (replicate 64 NUL) filename namesz) (\<lambda>name.
          rbind (c_write name namesz CHR ''/'') (\<lambda>name.
          c_write name (namesz + 1) NUL))
        else copy_field (replicate 64 NUL) filename namesz))"

text \<open>
  The loop of \<open>traverse_tarfs\<close>. A header with a nonsensical size may send it backwards; it only
  visits offsets that differ by multiples of 512, so a run that uses up the fuel
  \<open>traverse_tarfs\<close> starts it with has come to an offset twice.
\<close>

fun traverse_loop :: "nat \<Rightarrow> checker \<Rightarrow> string \<Rightarrow> nat \<Rightarrow> string \<Rightarrow> int \<Rightarrow> fault + (int \<times> u32) option" where
  "traverse_loop 0 checker filename namesz a p = Inl Diverge"
| "traverse_loop (Suc k) checker filename namesz a p =
     (if p < int (length a) then
        rbind (header a p) (\<lambda>h.
        rbind (c_read h H_TYPEFLAG) (\<lambda>typeflag.
        if typeflag = CHR ''5'' then
          rbind (dir_name filename namesz) (\<lambda>name.
          rbind (checker name h) (\<lambda>r.
          if r = 0 then Inr (Some (p, FT_DIR))
          else traverse_loop k checker filename namesz a (p + TARFS_HEADER)))
        else
          rbind (checker filename h) (\<lambda>r.
          if r \<noteq> 0 then
            rbind (get_filesz h) (\<lambda>sz.
            let len = ucast (sz + 512) :: u32 in
            traverse_loop k checker filename namesz a (p + sint (ROUND_TO_512 len)))
          else Inr (Some (p, FT_FILE)))))
      else Inr None)"

definition traverse_tarfs :: "string \<Rightarrow> int \<Rightarrow> checker \<Rightarrow> string \<Rightarrow> fault + (int \<times> u32) option" where
  "traverse_tarfs filename start checker a =
     rbind (strlen (Some filename)) (\<lambda>namesz.
     traverse_loop (length a div 512 + 2) checker filename namesz a start)"

abbreviation strcmp_check :: checker where
  "strcmp_check \<equiv> \<lambda>x y. strcmp (Some x) (Some y)"

section \<open>Open files\<close>

definition current_file :: "int \<Rightarrow> 'a kernel_scheme \<Rightarrow> fault + tarfs_file" where
  "current_file fd s = rbind (deref (task_heap s) (current s)) (\<lambda>t.
     if 0 \<le> fd \<and> nat fd < length (file_array t) then Inr (file_array t ! nat fd) else Inl Out_Of_Bounds)"

definition set_current_file :: "int \<Rightarrow> tarfs_file \<Rightarrow> 'a kernel_scheme \<Rightarrow> fault + 'a kernel_scheme" where
  "set_current_file fd f s = upd_task (current s) (\<lambda>t. t\<lparr>file_array := (file_array t)[nat fd := f]\<rparr>) s"

fun skip_slashes :: "string \<Rightarrow> fault + string" where
  "skip_slashes [] = Inl Out_Of_Bounds"
| "skip_slashes (c # cs) = (if c = CHR ''/'' then skip_slashes cs else Inr (c # cs))"

definition is_root :: "string \<Rightarrow> fault + bool" where
  "is_root filename =
     rbind (strcmp_check filename (c_lit ''/'')) (\<lambda>r. if r = 0 then Inr True else
     rbind (strcmp_check filename (c_lit ''//'')) (\<lambda>r. if r = 0 then Inr True else
     rbind (strcmp_check filename (c_lit ''///'')) (\<lambda>r. Inr (r = 0))))"

text \<open>\<open>None\<close> stands for the root directory, which is not in the archive.\<close>

definition find_entry :: "string \<Rightarrow> string \<Rightarrow> string \<Rightarrow> fault + (int \<times> u32) option option" where
  "find_entry filename newfname a =
     rbind (is_root filename) (\<lambda>root.
     if root then Inr (Some None)
     else rbind (traverse_tarfs newfname 0 strcmp_check a) (\<lambda>r. Inr (map_option Some r)))"

text \<open>The name stored with the open file, with a slash at the end if it is a directory.\<close>

definition stored_name :: "string \<Rightarrow> u32 \<Rightarrow> string \<Rightarrow> fault + string" where
  "stored_name newfname ty dest =
     rbind (strlen (Some newfname)) (\<lambda>len.
     if ty = FT_DIR then
       if len = 0 then Inl Out_Of_Bounds
       else rbind (c_read newfname (len - 1)) (\<lambda>c.
         if c \<noteq> CHR ''/'' then
           rbind (c_write newfname len CHR ''/'') (\<lambda>nm.
           rbind (c_write nm (len + 1) NUL) (\<lambda>nm. copy_field dest nm (len + 1)))
         else copy_field dest newfname len)
     else copy_field dest newfname len)"

definition fill_file :: "(int \<times> u32) option \<Rightarrow> string \<Rightarrow> string \<Rightarrow> 'a kernel_scheme \<Rightarrow> tarfs_file \<Rightarrow> fault + tarfs_file" where
  "fill_file res newfname mode s f =
     (let f = f\<lparr>f_free := 1\<rparr> in
      rbind (case res of
               None \<Rightarrow> rbind (copy_field (f_name f) (c_lit ''/'') 1) (\<lambda>nm.
                 Inr (f\<lparr>f_start_addr := tarfs_start s, f_name := nm\<rparr>))
             | Some (p, ty) \<Rightarrow> rbind (stored_name newfname ty (f_name f)) (\<lambda>nm.
                 Inr (f\<lparr>f_start_addr := tarfs_start s + of_int (p + TARFS_HEADER), f_name := nm\<rparr>))) (\<lambda>f.
      rbind (strlen (Some mode)) (\<lambda>lm.
      rbind (copy_field (f_mode f) mode lm) (\<lambda>m.
      let f = f\<lparr>f_mode := m\<rparr> in
      case res of
        None \<Rightarrow> Inr (f\<lparr>f_type := FT_DIR\<rparr>)
      | Some (p, ty) \<Rightarrow>
          if ty = FT_FILE then
            rbind (header (archive s) p) (\<lambda>h. rbind (get_filesz h) (\<lambda>sz.
            Inr (f\<lparr>f_size := ROUND_TO_512 sz, f_type := FT_FILE\<rparr>)))
          else if ty = FT_DIR then Inr (f\<lparr>f_type := FT_DIR\<rparr>)
          else Inr f))))"

definition free_fd :: "task_struct \<Rightarrow> nat option" where
  "free_fd t = List.find (\<lambda>i. f_free (file_array t ! i) = 0) [START_FD..<MAX_FILE_NUM]"

definition tarfs_open :: "u64 \<Rightarrow> string \<Rightarrow> string \<Rightarrow> 'a kernel_scheme \<Rightarrow> fault + (int, 'a kernel_scheme) outcome" where
  "tarfs_open sp filename mode s =
     rbind (skip_slashes filename) (\<lambda>rest.
     rbind (strlen (Some filename)) (\<lambda>flen.
     rbind (copy_field (replicate NAME_SIZE NUL) rest (flen - (length filename - length rest))) (\<lambda>newfname.
     rbind (find_entry filename newfname (archive s)) (\<lambda>found.
     case found of
       None \<Rightarrow> Inr (Result (- 1) s)
     | Some res \<Rightarrow>
         rbind (deref (task_heap s) (current s)) (\<lambda>t.
         case free_fd t of
           Some i \<Rightarrow>
             rbind (strlen (Some mode)) (\<lambda>mlen.
             rbind (check (mlen < 16) (Assert_Fail ''strlen(mode) < 16'')) (\<lambda>_.
             rbind (check (flen < FILE_NAME_SIZE) (Assert_Fail ''strlen(filename) < FILE_NAME_SIZE'')) (\<lambda>_.
             rbind (fill_file res newfname mode s (file_array t ! i)) (\<lambda>f.
             rbind (set_current_file (int i) f s) (\<lambda>s. Inr (Result (int i) s))))))
         | None \<Rightarrow>
             rbind (printf (''ERROR:[in tarfs_open] no free file struct cache!'' @ newline) [] s) (\<lambda>s.
             after_switch (exit_st sp (current s) 1 s) (\<lambda>s. Inr (Result (- 1) s))))))))"

definition fd_assert :: "int \<Rightarrow> fault + unit" where
  "fd_assert fd = check (int START_FD \<le> fd \<and> fd < int MAX_FILE_NUM) (Assert_Fail ''fd >= START_FD && fd < MAX_FILE_NUM'')"

definition tarfs_read :: "int \<Rightarrow> u64 \<Rightarrow> 'a kernel_scheme \<Rightarrow> fault + u64 \<times> 'a kernel_scheme" where
  "tarfs_read fd sz s =
     rbind (fd_assert fd) (\<lambda>_.
     rbind (current_file fd s) (\<lambda>f.
     rbind (check (sint (f_free f) > 0) (Assert_Fail ''current->file_array[fd].free > 0'')) (\<lambda>_.
     rbind (check (f_pos f + sz \<le> f_size f) (Assert_Fail ''current->file_array[fd].pos + size <= current->file_array[fd].size'')) (\<lambda>_.
     rbind (set_current_file fd (f\<lparr>f_pos := f_pos f + sz\<rparr>) s) (\<lambda>s.
     Inr (f_start_addr f + f_pos f, s))))))"

text \<open>\<open>zero_tarfs_file_entry\<close> gets the entry by value: what it clears is its own copy.\<close>

definition zero_tarfs_file_entry :: "tarfs_file \<Rightarrow> fault + tarfs_file" where
  "zero_tarfs_file_entry entry =
     rbind (c_write (f_mode entry) 0 NUL) (\<lambda>m.
     rbind (c_write (f_name entry) 0 NUL) (\<lambda>n.
     Inr (entry\<lparr>f_mode := m, f_name := n, f_free := 0, f_start_addr := 0, f_size := 0, f_pos := 0\<rparr>)))"

definition tarfs_close :: "int \<Rightarrow> 'a kernel_scheme \<Rightarrow> fault + 'a kernel_scheme" where
  "tarfs_close fd s =
     rbind (fd_assert fd) (\<lambda>_.
     rbind (current_file fd s) (\<lambda>f.
     rbind (zero_tarfs_file_entry f) (\<lambda>entry. Inr s)))"

section \<open>Start-up\<close>

definition show_tarfs_header :: "string \<Rightarrow> 'a kernel_scheme \<Rightarrow> fault + 'a kernel_scheme" where
  "show_tarfs_header p s =
     rfold (\<lambda>(fmt, off). printf fmt [VStr (Some (drop off p))])
       [(''name'' @ tab @ '' :%s'' @ newline, 0), (''mode     :%s, '', 100), (''uid      :%s,'', 108),
        (''gid      :%s,'', 116), (''size     :%s,'', 124), (''mtime    :%s,'', 136), (''checksum :%s,'', 148),
        (''typeflag :%s,'', 156), (''linkname :%s,'', 157), (''magic    :%s,'', 257), (''version  :%s,'', 263),
        (''uname    :%s,'', 265), (''gname    :%s,'', 297), (''devmajor :%s,'', 329), (''devminor :%s,'', 337),
        (''prefix   :%s,'', 345), (''pad'' @ tab @ '' :%s'' @ newline, 500)] s"

definition init_tarfs :: "'a kernel_scheme \<Rightarrow> fault + 'a kernel_scheme" where
  "init_tarfs s = show_tarfs_header (archive s) s"

end
