(* ===== verification/FileCalls.thy ===== *)
theory FileCalls
  imports Tarfs
begin

text \<open>
  The system calls on files and directories (src/sys/syscall.c): copying between user and kernel
  memory, \<open>open\<close>, \<open>read\<close>, \<open>write\<close>, \<open>close\<close>, \<open>chdir\<close>, \<open>getcwd\<close>, \<open>getdents\<close>.

  A handler gets the registers the entry code saved (\<open>sc_frame\<close>) and its \<open>outcome\<close> is the value
  returned in RAX, or that another task runs. User memory is read and written through the page
  tables; a page that is not mapped is a page fault in kernel mode, on which the kernel panics.
\<close>

section \<open>Registers\<close>

record sc_frame =
  sf_rbp :: u64
  sf_r15 :: u64
  sf_r14 :: u64
  sf_r13 :: u64
  sf_r11 :: u64
  sf_r10 :: u64
  sf_r9 :: u64
  sf_r8 :: u64
  sf_rdi :: u64
  sf_rsi :: u64
  sf_rdx :: u64
  sf_rcx :: u64
  sf_rbx :: u64

text \<open>The value of a C \<open>int\<close> taken from a 64-bit register.\<close>

definition int_arg :: "u64 \<Rightarrow> int" where
  "int_arg r = sint (ucast r :: u32)"

section \<open>User memory\<close>

definition char_byte :: "char \<Rightarrow> u8" where
  "char_byte c = of_char c"

definition byte_char :: "u8 \<Rightarrow> char" where
  "byte_char b = char_of (uint b)"

text \<open>
  A C string at a virtual address, with its terminator. Every mapped page is backed by one of
  the 32768 frames of the machine, so a string of 128 MB has met its own pages again.
\<close>

abbreviation (input) STRING_FUEL :: nat where "STRING_FUEL \<equiv> 134217728"

fun vstring :: "nat \<Rightarrow> u64 \<Rightarrow> 'a phymem_scheme \<Rightarrow> fault + string" where
  "vstring 0 va s = Inl Diverge"
| "vstring (Suc k) va s =
     rbind (vload8 va s) (\<lambda>b.
     if b = 0 then Inr [NUL] else rbind (vstring k (va + 1) s) (\<lambda>r. Inr (byte_char b # r)))"

text \<open>Both copy routines map the first page of the user buffer, and only that one.\<close>

definition map_user_page :: "u64 \<Rightarrow> 'a kernel_scheme \<Rightarrow> fault + bool \<times> 'a kernel_scheme" where
  "map_user_page ubuf s =
     rbind (deref (task_heap s) (current s)) (\<lambda>c.
     rbind (search_vma ubuf (t_mm c) s) (\<lambda>vma.
     if vma \<noteq> 0 then rbind (map_a_page vma ubuf s) (\<lambda>s. Inr (True, s)) else Inr (False, s)))"

definition copy_from_user :: "u64 \<Rightarrow> int \<Rightarrow> 'a kernel_scheme \<Rightarrow> fault + string \<times> 'a kernel_scheme" where
  "copy_from_user ubuf sz s =
     rbind (map_user_page ubuf s) (\<lambda>(_, s).
     rbind (rfold (\<lambda>i acc. rbind (vload8 (ubuf + of_nat i) s) (\<lambda>b. Inr (acc @ [byte_char b]))) [0..<nat sz] [])
       (\<lambda>bytes. Inr (bytes, s)))"

text \<open>
  The source of \<open>copy_from_kernel\<close> is a function that reads byte \<open>i\<close> of the kernel object. The
  message for an address outside every area has a conversion without an argument.
\<close>

definition copy_from_kernel :: "u64 \<Rightarrow> (nat \<Rightarrow> 'a kernel_scheme \<Rightarrow> fault + u8) \<Rightarrow> int \<Rightarrow>
    'a kernel_scheme \<Rightarrow> fault + int \<times> 'a kernel_scheme" where
  "copy_from_kernel ubuf src sz s =
     rbind (map_user_page ubuf s) (\<lambda>(mapped, s).
     if \<not> mapped then
       rbind (printf (''[copy_from_kernel]wrong parameter! ubuf:0x%lx'' @ newline) [] s) (\<lambda>s. Inr (- 1, s))
     else
       rbind (rfold (\<lambda>i s. rbind (src i s) (\<lambda>b. vstore8 (ubuf + of_nat i) b s)) [0..<nat sz] s)
         (\<lambda>s. Inr (0, s)))"

definition kernel_bytes :: "u64 \<Rightarrow> nat \<Rightarrow> 'a kernel_scheme \<Rightarrow> fault + u8" where
  "kernel_bytes p i s = Inr (load8 (ram s) (VA2PA (p + of_nat i)))"

section \<open>Standard input\<close>

abbreviation (input) BUF_READY :: u32 where "BUF_READY \<equiv> 1"
abbreviation (input) BUF_NOT_READY :: u32 where "BUF_NOT_READY \<equiv> 0"

definition shift_stdin :: "int \<Rightarrow> 'a kernel_scheme \<Rightarrow> 'a kernel_scheme" where
  "shift_stdin sz s =
     fold (\<lambda>i s. s\<lparr>ram := store8 (VA2PA (stdin_buf s + of_int (i - sz)))
                           (load8 (ram s) (VA2PA (stdin_buf s + of_int i))) (ram s)\<rparr>)
       [sz..stdin_buf_size s - 1] s"

text \<open>In the first branch the length to be returned is read after it has been cleared.\<close>

definition read_stdin :: "u64 \<Rightarrow> int \<Rightarrow> 'a kernel_scheme \<Rightarrow> fault + u64 \<times> 'a kernel_scheme" where
  "read_stdin buf sz s =
     (if sz \<ge> stdin_buf_size s then
        rbind (copy_from_kernel buf (kernel_bytes (stdin_buf s)) (stdin_buf_size s) s) (\<lambda>(r, s).
        if r \<noteq> 0 then Inr (- 1, s)
        else let s = s\<lparr>stdin_buf_size := 0\<rparr>; readsz = of_int (stdin_buf_size s) in
             Inr (readsz, s\<lparr>stdin_buf_state := BUF_NOT_READY\<rparr>))
      else
        rbind (copy_from_kernel buf (kernel_bytes (stdin_buf s)) sz s) (\<lambda>(r, s).
        if r \<noteq> 0 then Inr (- 1, s)
        else let s = shift_stdin sz s in
             Inr (of_int sz, s\<lparr>stdin_buf_size := stdin_buf_size s - sz\<rparr>)))"

section \<open>Files\<close>

definition sys_open :: "u64 \<Rightarrow> sc_frame \<Rightarrow> 'a kernel_scheme \<Rightarrow> fault + (u64, 'a kernel_scheme) outcome" where
  "sys_open sp sf s =
     rbind (check (sf_rsi sf = 0) (Assert_Fail ''flag == O_RDONLY'')) (\<lambda>_.
     rbind (check (sf_rdx sf = 0) (Assert_Fail ''mode == 0'')) (\<lambda>_.
     rbind (vstring STRING_FUEL (sf_rdi sf) s) (\<lambda>path.
     obind (tarfs_open sp path (c_lit ''r'') s) (\<lambda>fd s. Inr (Result (of_int fd) s)))))"

text \<open>
  \<open>while (stdin_buf_state != BUF_READY) sleep(&wait_stdin_list, 0);\<close> A reader that has been woken
  up goes on with the test of the loop. The first argument bounds the rounds in which \<open>sleep\<close>
  comes straight back.
\<close>

fun await_stdin :: "nat \<Rightarrow> u64 \<Rightarrow> 'a kernel_scheme \<Rightarrow> fault + (unit, 'a kernel_scheme) outcome" where
  "await_stdin 0 sp s = Inl Diverge"
| "await_stdin (Suc k) sp s =
     (if stdin_buf_state s \<noteq> BUF_READY then after_switch (sleep sp Wait_Stdin 0 s) (await_stdin k sp)
      else Inr (Result () s))"

definition read_file :: "int \<Rightarrow> u64 \<Rightarrow> u64 \<Rightarrow> 'a kernel_scheme \<Rightarrow> fault + u64 \<times> 'a kernel_scheme" where
  "read_file fd buf sz s =
     rbind (current_file fd s) (\<lambda>f.
     rbind (check (f_type f = FT_FILE) (Assert_Fail ''current->file_array[fd].type == FT_FILE'')) (\<lambda>_.
     if f_pos f = f_size f then Inr (0, s)
     else
       let readsz = (if f_pos f + sz \<le> f_size f then sz else f_size f - f_pos f) in
       rbind (copy_from_kernel buf (kernel_bytes (f_start_addr f + f_pos f)) (int_arg readsz) s) (\<lambda>(r, s).
       if r \<noteq> 0 then Inr (- 1, s)
       else rbind (current_file fd s) (\<lambda>f.
            rbind (set_current_file fd (f\<lparr>f_pos := f_pos f + readsz\<rparr>) s) (\<lambda>s. Inr (readsz, s))))))"

definition sys_read :: "u64 \<Rightarrow> sc_frame \<Rightarrow> 'a kernel_scheme \<Rightarrow> fault + (u64, 'a kernel_scheme) outcome" where
  "sys_read sp sf s =
     (let fd = int_arg (sf_rdi sf); buf = sf_rsi sf; sz = sf_rdx sf in
      rbind (check (fd \<noteq> 1 \<and> fd \<noteq> 2) (Assert_Fail ''fd != 1 && fd != 2'')) (\<lambda>_.
      if sz = 0 then Inr (Result (- 1) s)
      else if fd = 0 then
        obind (await_stdin LIST_FUEL sp s) (\<lambda>_ s.
        rbind (read_stdin buf (int_arg sz) s) (\<lambda>(r, s). Inr (Result r s)))
      else rbind (read_file fd buf sz s) (\<lambda>(r, s). Inr (Result r s))))"

text \<open>Only the first character is written, to the screen, whatever the descriptor is.\<close>

definition sys_write :: "sc_frame \<Rightarrow> 'a kernel_scheme \<Rightarrow> fault + u64 \<times> 'a kernel_scheme" where
  "sys_write sf s =
     rbind (vload8 (sf_rsi sf) s) (\<lambda>b.
     rbind (printf ''%c'' [VInt (signed b)] s) (\<lambda>s. Inr (0, s)))"

definition sys_close :: "sc_frame \<Rightarrow> 'a kernel_scheme \<Rightarrow> fault + u64 \<times> 'a kernel_scheme" where
  "sys_close sf s =
     (let fd = int_arg (sf_rdi sf) in
      rbind (check (fd \<noteq> 0 \<and> fd \<noteq> 1 \<and> fd \<noteq> 2) (Assert_Fail ''fd != 0 && fd != 1 && fd != 2'')) (\<lambda>_.
      rbind (tarfs_close fd s) (\<lambda>s. Inr (0, s))))"

section \<open>The working directory\<close>

text \<open>\<open>while (cwd[len] == '/') len--;\<close>\<close>

fun skip_back :: "string \<Rightarrow> nat \<Rightarrow> fault + nat" where
  "skip_back b 0 = rbind (c_read b 0) (\<lambda>c. if c = CHR ''/'' then Inl Out_Of_Bounds else Inr 0)"
| "skip_back b (Suc n) = rbind (c_read b (Suc n)) (\<lambda>c. if c = CHR ''/'' then skip_back b n else Inr (Suc n))"

text \<open>\<open>while (len >= 0 && cwd[len] != '/') len--;\<close> with \<open>None\<close> for -1.\<close>

fun back_to_slash :: "string \<Rightarrow> nat \<Rightarrow> fault + nat option" where
  "back_to_slash b 0 = rbind (c_read b 0) (\<lambda>c. if c \<noteq> CHR ''/'' then Inr None else Inr (Some 0))"
| "back_to_slash b (Suc n) =
     rbind (c_read b (Suc n)) (\<lambda>c. if c \<noteq> CHR ''/'' then back_to_slash b n else Inr (Some (Suc n)))"

definition parent_dir :: "string \<Rightarrow> fault + string" where
  "parent_dir cwd =
     rbind (strlen (Some cwd)) (\<lambda>len.
     if len \<ge> 3 \<and> cwd ! (len - 1) = CHR ''.'' \<and> cwd ! (len - 2) = CHR ''.'' \<and> cwd ! (len - 3) = CHR ''/'' then
       rbind (skip_back cwd (len - 3)) (\<lambda>len.
       rbind (back_to_slash cwd len) (\<lambda>r.
       case r of
         Some len \<Rightarrow> c_write cwd (len + 1) NUL
       | None \<Rightarrow> rbind (c_write cwd 0 CHR ''/'') (\<lambda>cwd. c_write cwd 1 NUL)))
     else Inr cwd)"

definition sys_chdir :: "u64 \<Rightarrow> sc_frame \<Rightarrow> 'a kernel_scheme \<Rightarrow> fault + (u64, 'a kernel_scheme) outcome" where
  "sys_chdir sp sf s =
     rbind (copy_from_user (sf_rdi sf) (int NAME_SIZE) s) (\<lambda>(cwd, s).
     rbind (parent_dir cwd) (\<lambda>cwd.
     obind (tarfs_open sp cwd (c_lit ''r'') s) (\<lambda>fd s.
     if fd > 0 then
       rbind (current_file fd s) (\<lambda>f.
       rbind (strlen (Some (f_name f))) (\<lambda>len.
       rbind (deref (task_heap s) (current s)) (\<lambda>t.
       rbind (copy_field (t_cwd t) (f_name f) len) (\<lambda>wd.
       rbind (upd_task (current s) (\<lambda>t. t\<lparr>t_cwd := wd\<rparr>) s) (\<lambda>s.
       rbind (tarfs_close fd s) (\<lambda>s. Inr (Result 0 s)))))))
     else Inr (Result (- 1) s))))"

definition cwd_byte :: "nat \<Rightarrow> 'a kernel_scheme \<Rightarrow> fault + u8" where
  "cwd_byte i s = rbind (deref (task_heap s) (current s)) (\<lambda>t. rbind (c_read (t_cwd t) i) (\<lambda>c. Inr (char_byte c)))"

definition sys_getcwd :: "sc_frame \<Rightarrow> 'a kernel_scheme \<Rightarrow> fault + u64 \<times> 'a kernel_scheme" where
  "sys_getcwd sf s =
     rbind (deref (task_heap s) (current s)) (\<lambda>t.
     rbind (strlen (Some (t_cwd t))) (\<lambda>len.
     rbind (check (int len \<le> int_arg (sf_rsi sf)) (Assert_Fail ''len <= size'')) (\<lambda>_.
     rbind (copy_from_kernel (sf_rdi sf) cwd_byte (int len + 1) s) (\<lambda>(r, s).
     if r \<noteq> 0 then Inr (- 1, s) else Inr (of_nat len, s)))))"

section \<open>Directories\<close>

text \<open>
  The scan of \<open>name\<close> from index \<open>i\<close>: the first slash decides, by whether the name ends there
  (result 0) or goes on (1); without a slash the result is 0.
\<close>

function scan_slash :: "string \<Rightarrow> nat \<Rightarrow> nat \<Rightarrow> fault + int" where
  "scan_slash name len1 i =
     (if i < len1 then
        rbind (c_read name i) (\<lambda>c.
        if c = CHR ''/'' then rbind (c_read name (i + 1)) (\<lambda>d. if d = NUL then Inr 0 else Inr 1)
        else scan_slash name len1 (i + 1))
      else Inr 0)"
  by pat_completeness auto
termination
  by (relation "measure (\<lambda>(name, len1, i). len1 - i)") auto

declare scan_slash.simps [simp del]

definition belongs_to_dir :: checker where
  "belongs_to_dir dirname name =
     rbind (strlen (Some dirname)) (\<lambda>len.
     rbind (strlen (Some name)) (\<lambda>len1.
     if len = 0 \<or> len1 = 0 then Inr 1
     else rbind (strcmp_check dirname (c_lit ''/'')) (\<lambda>r.
       if r = 0 then scan_slash name len1 0
       else rbind (strncmp (Some dirname) (Some name) len) (\<lambda>r.
         if r = 0 then scan_slash name len1 len else Inr 1))))"

abbreviation (input) DIRENT_SIZE :: int where "DIRENT_SIZE \<equiv> 274"

definition store_string :: "u64 \<Rightarrow> string \<Rightarrow> ram \<Rightarrow> ram" where
  "store_string a b r = fold (\<lambda>i. store8 (a + of_nat i) (char_byte (b ! i))) [0..<length b] r"

text \<open>\<open>struct dirent\<close> is packed: two longs, a short, then 256 bytes for the name.\<close>

definition fill_dirent :: "u64 \<Rightarrow> u32 \<Rightarrow> string \<Rightarrow> ram \<Rightarrow> ram" where
  "fill_dirent kbuf ty d_name r =
     store_string (VA2PA (kbuf + 18)) d_name
       (store8 (VA2PA (kbuf + 17)) 1 (store8 (VA2PA (kbuf + 16)) 18
         (store64 (VA2PA (kbuf + 8)) (of_int DIRENT_SIZE) (store64 (VA2PA kbuf) (ucast (ty + 1)) r))))"

definition dirent_name :: "string \<Rightarrow> nat \<Rightarrow> string \<Rightarrow> fault + string" where
  "dirent_name dirname len h =
     rbind (strlen (Some h)) (\<lambda>len1.
     rbind (check (len1 < 256) (Assert_Fail ''len1 < NAME_MAX + 1'')) (\<lambda>_.
     rbind (strcmp_check dirname (c_lit ''/'')) (\<lambda>r.
     if r = 0 then copy_field (replicate 256 NUL) h len1
     else copy_field (replicate 256 NUL) (drop len h) (unat (of_int (int len1 - int len) :: u64)))))"

definition sys_getdents :: "sc_frame \<Rightarrow> 'a kernel_scheme \<Rightarrow> fault + u64 \<times> 'a kernel_scheme" where
  "sys_getdents sf s =
     (let fd = int_arg (sf_rdi sf); dp = sf_rsi sf; buf_size = int_arg (sf_rdx sf) in
      rbind (get_zero_page s) (\<lambda>(kbuf, s).
      rbind (fd_assert fd) (\<lambda>_.
      rbind (current_file fd s) (\<lambda>f.
      rbind (check (f_type f = FT_DIR) (Assert_Fail ''current->file_array[fd].type == FT_DIR'')) (\<lambda>_.
      rbind (strlen (Some (f_name f))) (\<lambda>len.
      rbind (copy_field (replicate FILE_NAME_SIZE NUL) (f_name f) len) (\<lambda>dirname.
      rbind (traverse_tarfs dirname (uint (f_start_addr f + f_pos f) - uint (tarfs_start s)) belongs_to_dir (archive s)) (\<lambda>res.
      case res of
        None \<Rightarrow> Inr (0, s)
      | Some (p, ty) \<Rightarrow>
          rbind (header (archive s) p) (\<lambda>h.
          rbind (if ty = FT_DIR then Inr 0 else rbind (get_filesz h) (\<lambda>sz. Inr (ROUND_TO_512 sz))) (\<lambda>sz.
          rbind (set_current_file fd (f\<lparr>f_pos := tarfs_start s + of_int p - f_start_addr f + sz + 512\<rparr>) s) (\<lambda>s.
          rbind (check (DIRENT_SIZE \<le> buf_size) (Assert_Fail ''readsz <= buf_size'')) (\<lambda>_.
          rbind (dirent_name dirname len h) (\<lambda>d_name.
          rbind (copy_from_kernel dp (kernel_bytes kbuf) DIRENT_SIZE (s\<lparr>ram := fill_dirent kbuf ty d_name (ram s)\<rparr>)) (\<lambda>(r, s).
          if r \<noteq> 0 then Inr (- 1, s)
          else rbind (free_page (frame_no kbuf) s) (\<lambda>s. Inr (of_int DIRENT_SIZE, s))))))))))))))))"

end
