(* ===== verification/ProcCalls.thy ===== *)
theory ProcCalls
  imports FileCalls
begin

text \<open>
  The system calls on memory and processes (src/sys/syscall.c): \<open>brk\<close>, \<open>fork\<close>, \<open>wait\<close>, \<open>exit\<close>,
  \<open>kill\<close> and the handler of unknown numbers.
\<close>

section \<open>brk\<close>

abbreviation (input) HEAP_LIMIT :: u64 where "HEAP_LIMIT \<equiv> 0x7ffffff00000"

definition sys_brk :: "sc_frame \<Rightarrow> 'a kernel_scheme \<Rightarrow> fault + u64 \<times> 'a kernel_scheme" where
  "sys_brk sf s =
     rbind (deref (task_heap s) (current s)) (\<lambda>c.
     rbind (deref (mm_heap s) (t_mm c)) (\<lambda>m.
     let new_break = sf_rdi sf; heap_start = user_heap m; cur_break = mm_brk m in
     if new_break = 0 then Inr (cur_break, s)
     else if new_break > cur_break \<and> new_break < HEAP_LIMIT then
       if cur_break = heap_start then
         rbind (alloc_vma ''[brk]ERROR: alloc vma failed!'' s) (\<lambda>(vma, s).
         rbind (upd_vma vma (\<lambda>v. v\<lparr>vm_start := cur_break, vm_end := new_break, vm_file := None, vm_prot := ENTRY_RW,
                               vm_align := 4096\<rparr>) s) (\<lambda>s.
         rbind (insert_vma vma (t_mm c) s) (\<lambda>s. Inr (new_break, s))))
       else
         rbind (search_vma (cur_break - 1) (t_mm c) s) (\<lambda>vma.
         rbind (check (vma \<noteq> 0) (Assert_Fail ''(vma != NULL) && ((vma->prot & PTE_RW) == 1) && (vma->vm_file == NULL)'')) (\<lambda>_.
         rbind (deref (vma_heap s) vma) (\<lambda>v.
         rbind (check (vm_prot v AND ENTRY_RW = 1 \<and> vm_file v = None)
                  (Assert_Fail ''(vma != NULL) && ((vma->prot & PTE_RW) == 1) && (vma->vm_file == NULL)'')) (\<lambda>_.
         rbind (if vm_end v < new_break then upd_vma vma (\<lambda>v. v\<lparr>vm_end := new_break\<rparr>) s else Inr s) (\<lambda>s.
         Inr (new_break, s))))))
     else if new_break > HEAP_LIMIT then Inl (Panic ''ERROR: reach heap limit!'')
     else Inl (Panic ''ERROR: do not support shrink heap memory!'')))"

section \<open>fork\<close>

abbreviation (input) SC_FRAME_SIZE :: u64 where "SC_FRAME_SIZE \<equiv> 104"
abbreviation (input) CONTEXT_SIZE :: u64 where "CONTEXT_SIZE \<equiv> 128"

definition copy_sc_frame :: "u64 \<Rightarrow> sc_frame \<Rightarrow> ram \<Rightarrow> ram" where
  "copy_sc_frame new old r =
     fold (\<lambda>(off, v). store64 (VA2PA (new + off)) v)
       [(0, sf_rbp old), (8, sf_r15 old), (16, sf_r14 old), (24, sf_r13 old), (32, sf_r11 old), (40, sf_r10 old),
        (48, sf_r9 old), (56, sf_r8 old), (64, sf_rdi old), (72, sf_rsi old), (80, sf_rdx old), (88, sf_rcx old),
        (96, sf_rbx old)] r"

definition copy_file_entry :: "tarfs_file \<Rightarrow> tarfs_file \<Rightarrow> fault + tarfs_file" where
  "copy_file_entry new old =
     (if f_free old = 0 then Inr new
      else rbind (copy_field (f_mode new) (f_mode old) 16) (\<lambda>m.
           Inr (new\<lparr>f_mode := m, f_free := f_free old, f_start_addr := f_start_addr old, f_size := f_size old,
                    f_pos := f_pos old\<rparr>)))"

definition copy_file_array :: "tarfs_file list \<Rightarrow> tarfs_file list \<Rightarrow> fault + tarfs_file list" where
  "copy_file_array new old =
     rfold (\<lambda>i new. rbind (copy_file_entry (new ! i) (old ! i)) (\<lambda>f. Inr (new[i := f])))
       [START_FD..<MAX_FILE_NUM] new"

text \<open>
  The kernel stack of the child: the saved registers of the parent on top, below them the
  address of \<open>ret_from_fork\<close> (src/sys/entry.s), below that the \<open>context_info\<close> of which \<open>rcx\<close>
  (the address of \<open>last\<close>), \<open>rax\<close> and \<open>r12\<close> are set.
\<close>

definition fork_stack :: "u64 \<Rightarrow> u64 \<Rightarrow> u64 \<Rightarrow> sc_frame \<Rightarrow> ram \<Rightarrow> u64 \<times> ram" where
  "fork_stack ret_from_fork tsp stk sf r =
     (let nsf = stk + 4096 - SC_FRAME_SIZE;
          ctx = nsf - 8 - CONTEXT_SIZE;
          r = copy_sc_frame nsf sf r;
          r = store64 (VA2PA (nsf - 8)) ret_from_fork r;
          r = store64 (VA2PA ctx) (tsp + 16) r;
          r = store64 (VA2PA (ctx + 8)) tsp r;
          r = store64 (VA2PA (ctx + 48)) tsp r
      in (ctx, r))"

definition alloc_mm :: "string \<Rightarrow> 'a kernel_scheme \<Rightarrow> fault + u64 \<times> 'a kernel_scheme" where
  "alloc_mm msg s =
     rbind (get_zero_page s) (\<lambda>(p, s).
     if p = 0 then Inl (Panic msg) else Inr (p, s\<lparr>mm_heap := (mm_heap s)(p \<mapsto> zero_mm)\<rparr>))"

definition inherit_mm :: "u64 \<Rightarrow> mm_struct \<Rightarrow> mm_struct \<Rightarrow> mm_struct" where
  "inherit_mm pgd old new =
     new\<lparr>mm_mmap := 0, mm_entry := mm_entry old, mm_pgd := pgd, mm_count := mm_count old,
        code_start := code_start old, code_end := code_end old, data_start := data_start old,
        data_end := data_end old, user_heap := user_heap old, mm_brk := mm_brk old\<rparr>"

definition fork :: "u64 \<Rightarrow> sc_frame \<Rightarrow> 'a kernel_scheme \<Rightarrow> fault + u64 \<times> 'a kernel_scheme" where
  "fork ret_from_fork sf s =
     rbind (alloc_task s) (\<lambda>(tsp, s).
     if tsp = 0 then Inr (- 1, s) else
     let n = pid_count s; s = s\<lparr>pid_count := n + 1\<rparr> in
     rbind (deref (task_heap s) (current s)) (\<lambda>c.
     rbind (copy_field (t_name zero_task) (c_lit ''first child process through fork'') 40) (\<lambda>nm.
     rbind (upd_task tsp (\<lambda>t. t\<lparr>pid := n, ppid := pid c, t_name := nm, t_func := 0\<rparr>) s) (\<lambda>s.
     rbind (get_zero_page s) (\<lambda>(stk, s).
     if stk = 0 then Inr (- 1, s) else
     let (ctx, r) = fork_stack ret_from_fork tsp stk sf (ram s); s = s\<lparr>ram := r\<rparr> in
     rbind (copy_file_array (file_array zero_task) (file_array c)) (\<lambda>fa.
     rbind (strlen (Some (t_cwd c))) (\<lambda>len.
     rbind (copy_field (t_cwd zero_task) (t_cwd c) len) (\<lambda>wd.
     rbind (alloc_mm ''[fork]: ERROR alloc mm_struct failed!'' s) (\<lambda>(nmm, s).
     rbind (deref (mm_heap s) (t_mm c)) (\<lambda>om.
     rbind (alloc_pgd s) (\<lambda>(pgd, s).
     rbind (upd_mm nmm (inherit_mm pgd om) s) (\<lambda>s.
     rbind (upd_task tsp (\<lambda>t. t\<lparr>kernel_stack := ctx, file_array := fa, t_cwd := wd, t_mm := nmm,
              user_stack := user_stack c\<rparr>) s) (\<lambda>s.
     rbind (copy_mm nmm (t_mm c) s) (\<lambda>s.
     rbind (flush_tlb s) (\<lambda>s.
     rbind (upd_task tsp (\<lambda>t. t\<lparr>t_state := ACTIVE\<rparr>) s) (\<lambda>s.
     rbind (add_to_tasklist Active tsp s) (\<lambda>s.
     Inr (signed n, s))))))))))))))))))"

section \<open>wait, exit, kill\<close>

text \<open>The status \<open>waitpid\<close> returns is dropped. A parent that sleeps goes on with \<open>waitpid_resume\<close>.\<close>

definition sys_wait :: "u64 \<Rightarrow> sc_frame \<Rightarrow> 'a kernel_scheme \<Rightarrow> fault + (u64, 'a kernel_scheme) outcome" where
  "sys_wait sp sf s =
     rbind (waitpid_start sp (ucast (sf_rdi sf)) s) (\<lambda>(child, r).
     after_switch (Inr r) (\<lambda>s.
     if child = 0 then Inr (Result 0 s)
     else rbind (waitpid_resume child s) (\<lambda>(_, s). Inr (Result 0 s))))"

definition sys_exit :: "u64 \<Rightarrow> sc_frame \<Rightarrow> 'a kernel_scheme \<Rightarrow> fault + (u64, 'a kernel_scheme) outcome" where
  "sys_exit sp sf s = after_switch (exit_st sp (current s) (ucast (sf_rdi sf)) s) (\<lambda>s. Inr (Result 0 s))"

definition sys_kill :: "sc_frame \<Rightarrow> 'a kernel_scheme \<Rightarrow> fault + u64 \<times> 'a kernel_scheme" where
  "sys_kill sf s = kill_by_pid (ucast (sf_rdi sf)) (ucast (sf_rsi sf)) s"

definition sys_null :: "u64 \<Rightarrow> u32 \<Rightarrow> 'a kernel_scheme \<Rightarrow> fault + (u64, 'a kernel_scheme) outcome" where
  "sys_null sp num s =
     rbind (printf (''syscall num = %d, not supportted yet!'' @ newline) [VInt num] s) (\<lambda>s.
     after_switch (exit_st sp (current s) 1 s) (\<lambda>s. Inr (Result 0 s)))"

end
