(* ===== verification/Exec.thy ===== *)
theory Exec
  imports ProcCalls
begin

text \<open>
  Loading a program: \<open>exec\<close> of src/sys/process.c with its helpers, the \<open>execve\<close> system call and
  the dispatcher of all system calls (src/sys/syscall.c).

  Strings and string lists are at virtual addresses, in user memory or in the kernel's direct
  map, and are read and written through the page tables in force. The two local arrays of
  \<open>exec\<close> live on the kernel stack; the first argument is the list of their addresses, one for
  every activation of \<open>exec\<close>: \<open>interp_name\<close> at the address, \<open>interp_argv\<close> 64 bytes above it. An
  activation without a frame has run off the kernel stack. The result of a successful \<open>exec\<close> is
  the pair \<open>__ret_to_user\<close> is called with.
\<close>

section \<open>String lists\<close>

text \<open>Loops over a NULL-terminated array of pointers; the array is in mapped memory.\<close>

abbreviation (input) STRLIST_FUEL :: nat where "STRLIST_FUEL \<equiv> 16777216"

fun strlist_size_from :: "nat \<Rightarrow> u64 \<Rightarrow> 'a phymem_scheme \<Rightarrow> fault + u32" where
  "strlist_size_from 0 argv s = Inl Diverge"
| "strlist_size_from (Suc k) argv s =
     rbind (vload64 argv s) (\<lambda>p.
     if p = 0 then Inr 0
     else rbind (vstring STRING_FUEL p s) (\<lambda>b.
          rbind (strlist_size_from k (argv + 8) s) (\<lambda>n. Inr (of_nat (length b) + n))))"

definition get_strlist_size :: "u64 \<Rightarrow> 'a phymem_scheme \<Rightarrow> fault + u32" where
  "get_strlist_size argv s = strlist_size_from STRLIST_FUEL argv s"

fun strlist_num_from :: "nat \<Rightarrow> u64 \<Rightarrow> 'a phymem_scheme \<Rightarrow> fault + u32" where
  "strlist_num_from 0 argv s = Inl Diverge"
| "strlist_num_from (Suc k) argv s =
     rbind (vload64 argv s) (\<lambda>p. if p = 0 then Inr 0 else rbind (strlist_num_from k (argv + 8) s) (\<lambda>n. Inr (n + 1)))"

definition get_strlist_num :: "u64 \<Rightarrow> 'a phymem_scheme \<Rightarrow> fault + u32" where
  "get_strlist_num argv s = strlist_num_from STRLIST_FUEL argv s"

text \<open>\<open>strncpy(start, p, strlen(p))\<close> of the string \<open>b\<close> at \<open>p\<close>.\<close>

definition vstore_string :: "u64 \<Rightarrow> string \<Rightarrow> 'a phymem_scheme \<Rightarrow> fault + 'a phymem_scheme" where
  "vstore_string start b s = rfold (\<lambda>i. vstore8 (start + of_nat i) (char_byte (b ! i))) [0..<length b] s"

fun copy_strlist_from :: "nat \<Rightarrow> u64 \<Rightarrow> u64 \<Rightarrow> u64 \<Rightarrow> 'a phymem_scheme \<Rightarrow> fault + 'a phymem_scheme" where
  "copy_strlist_from 0 des_argv src_argv start s = Inl Diverge"
| "copy_strlist_from (Suc k) des_argv src_argv start s =
     rbind (vload64 src_argv s) (\<lambda>p.
     if p = 0 then Inr s
     else
       rbind (vstore64 des_argv start s) (\<lambda>s.
       rbind (vload64 src_argv s) (\<lambda>p.
       rbind (vstring STRING_FUEL p s) (\<lambda>b.
       rbind (vstore_string start b s) (\<lambda>s.
       copy_strlist_from k (des_argv + 8) (src_argv + 8) (start + of_nat (length b)) s)))))"

definition copy_strlist :: "u64 \<Rightarrow> u64 \<Rightarrow> u64 \<Rightarrow> 'a phymem_scheme \<Rightarrow> fault + 'a phymem_scheme" where
  "copy_strlist des_argv src_argv start s = copy_strlist_from STRLIST_FUEL des_argv src_argv start s"

section \<open>Scripts\<close>

text \<open>
  \<open>get_interp\<close>: the name behind \<open>#!\<close>, up to the end of the line, into \<open>interp_name\<close>; the
  result is the part of the array that is written. The
  contents of the file are \<open>fp\<close>, the part of the archive from the file on.
\<close>

function interp_loop :: "string \<Rightarrow> nat \<Rightarrow> string \<Rightarrow> fault + nat \<times> string" where
  "interp_loop fp i name =
     rbind (c_read fp (i + 2)) (\<lambda>c.
     if c \<noteq> CHR 0x0A \<and> i < NAME_SIZE then rbind (c_write name i c) (interp_loop fp (i + 1))
     else Inr (i, name))"
  by pat_completeness auto
termination
  by (relation "measure (\<lambda>(fp, i, name). length fp - i)") (auto simp: c_read_def split: if_splits)

declare interp_loop.simps [simp del]

definition get_interp :: "string \<Rightarrow> fault + string" where
  "get_interp fp =
     rbind (interp_loop fp 0 (replicate NAME_SIZE NUL)) (\<lambda>(i, name).
     rbind (check (i < NAME_SIZE) (Assert_Fail ''i < NAME_SIZE'')) (\<lambda>_.
     rbind (c_write name i NUL) (\<lambda>name. Inr (take (i + 1) name))))"

abbreviation (input) ARG_LIST_SIZE :: nat where "ARG_LIST_SIZE \<equiv> 10"

text \<open>\<open>interp_argv\<close> has \<open>ARG_LIST_SIZE\<close> elements; an index beyond is out of bounds.\<close>

definition put_arg :: "u64 \<Rightarrow> nat \<Rightarrow> u64 \<Rightarrow> 'a phymem_scheme \<Rightarrow> fault + 'a phymem_scheme" where
  "put_arg interp_argv i p s =
     (if i < ARG_LIST_SIZE then vstore64 (interp_argv + 8 * of_nat i) p s else Inl Out_Of_Bounds)"

function interp_args_loop :: "u64 \<Rightarrow> u64 \<Rightarrow> nat \<Rightarrow> 'a phymem_scheme \<Rightarrow> fault + nat \<times> 'a phymem_scheme" where
  "interp_args_loop interp_argv argv i s =
     (if i < ARG_LIST_SIZE then
        rbind (vload64 (argv + 8 * of_nat i) s) (\<lambda>p.
        if p \<noteq> 0 then rbind (put_arg interp_argv (i + 1) p s) (interp_args_loop interp_argv argv (i + 1))
        else Inr (i, s))
      else Inr (i, s))"
  by pat_completeness auto
termination
  by (relation "measure (\<lambda>(interp_argv, argv, i, s). ARG_LIST_SIZE - i)") auto

declare interp_args_loop.simps [simp del]

definition get_interp_argv :: "u64 \<Rightarrow> u64 \<Rightarrow> u64 \<Rightarrow> 'a phymem_scheme \<Rightarrow> fault + 'a phymem_scheme" where
  "get_interp_argv interp_argv argv interp_name s =
     rbind (put_arg interp_argv 0 interp_name s) (\<lambda>s.
     rbind (interp_args_loop interp_argv argv 0 s) (\<lambda>(i, s).
     rbind (check (i < ARG_LIST_SIZE) (Assert_Fail ''i < ARG_LIST_SIZE'')) (\<lambda>_.
     put_arg interp_argv (i + 1) 0 s)))"

section \<open>Segments\<close>

definition load_le :: "nat \<Rightarrow> ram \<Rightarrow> u64 \<Rightarrow> u64" where
  "load_le n r va = (\<Sum>i\<leftarrow>[0..<n]. push_bit (8 * i) (ucast (load8 r (VA2PA (va + of_nat i)))))"

record Elf64_Phdr =
  p_type :: u32
  p_flags :: u32
  p_offset :: u64
  p_vaddr :: u64
  p_filesz :: u64
  p_memsz :: u64
  p_align :: u64

definition read_phdr :: "ram \<Rightarrow> u64 \<Rightarrow> Elf64_Phdr" where
  "read_phdr r ph = \<lparr>p_type = ucast (load_le 4 r ph), p_flags = ucast (load_le 4 r (ph + 4)),
     p_offset = load_le 8 r (ph + 8), p_vaddr = load_le 8 r (ph + 16), p_filesz = load_le 8 r (ph + 32),
     p_memsz = load_le 8 r (ph + 40), p_align = load_le 8 r (ph + 48)\<rparr>"

abbreviation (input) PT_LOAD :: u32 where "PT_LOAD \<equiv> 1"

definition map_pflags_to_vmprot :: "u32 \<Rightarrow> u64" where
  "map_pflags_to_vmprot flags = (if flags \<in> {2, 3, 6, 7} then ENTRY_RW else 0)"

definition segment_area :: "Elf64_Phdr \<Rightarrow> u64 \<times> nat \<Rightarrow> vma_struct \<Rightarrow> vma_struct" where
  "segment_area h file v =
     v\<lparr>vma_next := 0, vm_start := p_vaddr h, vm_end := p_vaddr h + p_memsz h, vm_prot := map_pflags_to_vmprot (p_flags h),
       vm_pgoff := p_offset h, vm_filesz := p_filesz h, vm_align := p_align h, vm_file := Some file\<rparr>"

definition note_segment :: "nat \<Rightarrow> Elf64_Phdr \<Rightarrow> mm_struct \<Rightarrow> mm_struct" where
  "note_segment i h m =
     (let m = (if i = 0 \<and> p_flags h = 5 then m\<lparr>code_start := p_vaddr h, code_end := p_vaddr h + p_memsz h\<rparr> else m) in
      if i = 1 \<and> p_flags h = 6 then m\<lparr>data_start := p_vaddr h, data_end := p_vaddr h + p_memsz h\<rparr> else m)"

text \<open>
  The loop over the program headers. The pointer \<open>ph\<close> is advanced at the end of the body only;
  a header that is not \<open>PT_LOAD\<close> is left by \<open>continue\<close>.
\<close>

fun load_segments :: "nat \<Rightarrow> nat \<Rightarrow> u64 \<Rightarrow> u64 \<Rightarrow> u64 \<Rightarrow> u64 \<times> nat \<Rightarrow> 'a kernel_scheme \<Rightarrow> fault + 'a kernel_scheme" where
  "load_segments 0 i ph phentsize mm file s = Inr s"
| "load_segments (Suc n) i ph phentsize mm file s =
     (let h = read_phdr (ram s) ph in
      if p_type h \<noteq> PT_LOAD then load_segments n (Suc i) ph phentsize mm file s
      else
        rbind (upd_mm mm (note_segment i h) s) (\<lambda>s.
        rbind (alloc_vma ''[exec] ERROR: vma alloc failed!'' s) (\<lambda>(vma, s).
        rbind (upd_vma vma (segment_area h file) s) (\<lambda>s.
        rbind (insert_vma vma mm s) (\<lambda>s.
        load_segments n (Suc i) (ph + phentsize) phentsize mm file s)))))"

definition place_heap :: "mm_struct \<Rightarrow> mm_struct" where
  "place_heap m =
     (let heap = PG_ALIGN (if data_end m \<noteq> 0 then data_end m else code_end m) in m\<lparr>user_heap := heap, mm_brk := heap\<rparr>)"

section \<open>exec\<close>

abbreviation (input) USER_TOP :: u64 where "USER_TOP \<equiv> 0x800000000000"

text \<open>The arguments are copied to a kernel page while the old address space is in force.\<close>

record arg_layout =
  al_argc :: u32
  al_kargvp :: u64
  al_kenvpp :: u64
  al_argvp :: u64
  al_envpp :: u64
  al_pa_start :: u64
  al_pv_start :: u64

definition save_args :: "u64 \<Rightarrow> u64 \<Rightarrow> u64 \<Rightarrow> 'a kernel_scheme \<Rightarrow> fault + arg_layout \<times> 'a kernel_scheme" where
  "save_args kbuf argv envp s =
     rbind (get_strlist_size argv s) (\<lambda>arglist_size.
     rbind (get_strlist_size envp s) (\<lambda>envlist_size.
     rbind (get_strlist_num argv s) (\<lambda>an.
     rbind (get_strlist_num envp s) (\<lambda>en.
     let argv_num = an + 1; envp_num = en + 1;
         parameter_size = arglist_size + envlist_size + argv_num * 8 + envp_num * 8 + 8 in
     rbind (check (sint (parameter_size + 0x100) < 4096) (Assert_Fail ''parameter_size  + 0x100 < PG_SIZE'')) (\<lambda>_.
     let pa_start = (USER_TOP - signed arglist_size - 8) AND NOT 7;
         pv_start = (pa_start - signed envlist_size - 8) AND NOT 7;
         envpp = pv_start - signed (envp_num * 8);
         argvp = envpp - signed (argv_num * 8);
         kstart = kbuf + signed ((argv_num + envp_num) * 8) + 0x30;
         kargvp = kbuf;
         kenvpp = kbuf + signed (argv_num * 8) + 0x10 in
     rbind (copy_strlist kargvp argv kstart s) (\<lambda>s.
     rbind (copy_strlist kenvpp envp (kstart + signed arglist_size + 0x30) s) (\<lambda>s.
     Inr (\<lparr>al_argc = argv_num - 1, al_kargvp = kargvp, al_kenvpp = kenvpp, al_argvp = argvp, al_envpp = envpp,
            al_pa_start = pa_start, al_pv_start = pv_start\<rparr>, s))))))))"

definition set_process_name :: "u64 \<Rightarrow> 'a kernel_scheme \<Rightarrow> fault + 'a kernel_scheme" where
  "set_process_name argv s =
     rbind (vload64 argv s) (\<lambda>arg0.
     if arg0 = 0 then Inr s
     else rbind (vstring STRING_FUEL arg0 s) (\<lambda>b.
          rbind (deref (task_heap s) (current s)) (\<lambda>t.
          rbind (copy_field (t_name t) b (length b - 1)) (\<lambda>nm.
          upd_task (current s) (\<lambda>t. t\<lparr>t_name := nm\<rparr>) s))))"

definition new_address_space :: "u64 \<Rightarrow> 'a kernel_scheme \<Rightarrow> fault + u64 \<times> 'a kernel_scheme" where
  "new_address_space fp s =
     rbind (alloc_mm ''[exec]: ERROR alloc mm_struct failed!'' s) (\<lambda>(mm, s).
     rbind (upd_task (current s) (\<lambda>t. t\<lparr>t_mm := mm\<rparr>) s) (\<lambda>s.
     let entry = load_le 8 (ram s) (fp + 24) in
     rbind (alloc_pgd s) (\<lambda>(pgd, s).
     rbind (upd_mm mm (\<lambda>m. m\<lparr>mm_mmap := 0, mm_entry := entry, mm_pgd := pgd, mm_count := 0, code_start := 0, code_end := 0,
              data_start := 0, data_end := 0, user_heap := 0, mm_brk := 0\<rparr>) s) (\<lambda>s.
     rbind (switch_mm 0 (current s) s) (\<lambda>s. Inr (mm, s))))))"

definition load_program :: "u64 \<Rightarrow> nat \<Rightarrow> u64 \<Rightarrow> 'a kernel_scheme \<Rightarrow> fault + 'a kernel_scheme" where
  "load_program fp fd mm s =
     (let phoff = load_le 8 (ram s) (fp + 32);
          phentsize = load_le 2 (ram s) (fp + 54);
          phnum = unat (load_le 2 (ram s) (fp + 56)) in
      rbind (load_segments phnum 0 (fp + phoff) phentsize mm (current s, fd) s) (upd_mm mm place_heap))"

definition stack_area :: "vma_struct \<Rightarrow> vma_struct" where
  "stack_area v = v\<lparr>vma_next := 0, vm_end := USER_TOP, vm_start := USER_TOP - 0x10 * 4096, vm_prot := ENTRY_RW,
     vm_pgoff := 0, vm_filesz := 0, vm_align := 4096, vm_file := None\<rparr>"

definition vstore32 :: "u64 \<Rightarrow> u32 \<Rightarrow> 'a phymem_scheme \<Rightarrow> fault + 'a phymem_scheme" where
  "vstore32 va v s = rfold (\<lambda>i. vstore8 (va + of_nat i) (ucast (drop_bit (8 * i) v))) [0..<4] s"

definition build_stack :: "arg_layout \<Rightarrow> u64 \<Rightarrow> 'a kernel_scheme \<Rightarrow> fault + 'a kernel_scheme" where
  "build_stack al mm s =
     rbind (alloc_vma ''[exec] ERROR: vma alloc failed!'' s) (\<lambda>(vma, s).
     rbind (upd_vma vma stack_area s) (\<lambda>s.
     rbind (insert_vma vma mm s) (\<lambda>s.
     rbind (map_a_page vma (USER_TOP - 4096) s) (\<lambda>s.
     rbind (copy_strlist (al_envpp al) (al_kenvpp al) (al_pv_start al) s) (\<lambda>s.
     rbind (copy_strlist (al_argvp al) (al_kargvp al) (al_pa_start al) s) (\<lambda>s.
     rbind (vstore32 (al_argvp al - 8) (al_argc al) s) (\<lambda>s.
     upd_task (current s) (\<lambda>t. t\<lparr>user_stack := al_argvp al - 8\<rparr>) s)))))))"

definition enter_user :: "'a kernel_scheme \<Rightarrow> fault + (u64 \<times> u64, 'a kernel_scheme) outcome" where
  "enter_user s =
     rbind (get_zero_page s) (\<lambda>(p, s).
     if p = 0 then Inl (Panic ''[exec]ERROR: alloc future_kstack failed!'')
     else
       let future_kstack = p + 4096; s = s\<lparr>rsp0 := future_kstack\<rparr> in
       rbind (upd_task (current s) (\<lambda>t. t\<lparr>kernel_stack := future_kstack\<rparr>) s) (\<lambda>s.
       rbind (deref (task_heap s) (current s)) (\<lambda>t.
       rbind (current_mm s) (\<lambda>m. Inr (Result (user_stack t, mm_entry m) s)))))"

definition map_argv :: "u64 \<Rightarrow> 'a kernel_scheme \<Rightarrow> fault + 'a kernel_scheme" where
  "map_argv argv s =
     (if argv < USER_TOP then
        rbind (map_user_page argv s) (\<lambda>(mapped, s).
        if mapped then Inr s else Inl (Panic ''[exec]ERROR:can't find valid vma for argv!''))
      else Inr s)"

definition exec_image :: "int \<Rightarrow> u64 \<Rightarrow> u64 \<Rightarrow> u64 \<Rightarrow> u64 \<Rightarrow> 'a kernel_scheme \<Rightarrow>
    fault + (u64 \<times> u64, 'a kernel_scheme) outcome" where
  "exec_image fd fp kbuf argv envp s =
     rbind (upd_task (current s) (\<lambda>t. t\<lparr>user_stack := USER_TOP\<rparr>) s) (\<lambda>s.
     rbind (save_args kbuf argv envp s) (\<lambda>(al, s).
     rbind (upd_task (current s) (\<lambda>t. t\<lparr>t_mm := 0\<rparr>) s) (\<lambda>s.
     rbind (set_process_name argv s) (\<lambda>s.
     rbind (new_address_space fp s) (\<lambda>(mm, s).
     rbind (load_program fp (nat fd) mm s) (\<lambda>s.
     rbind (build_stack al mm s) enter_user))))))"

fun exec :: "u64 list \<Rightarrow> u64 \<Rightarrow> u64 \<Rightarrow> u64 \<Rightarrow> u64 \<Rightarrow> 'a kernel_scheme \<Rightarrow>
    fault + (u64 \<times> u64, 'a kernel_scheme) outcome" where
  "exec [] sp filename argv envp s = Inl Out_Of_Bounds"
| "exec (frame # stack_frames) sp filename argv envp s =
     rbind (vstring STRING_FUEL filename s) (\<lambda>name.
     obind (tarfs_open sp name (c_lit ''r'') s) (\<lambda>fd s.
     obind (if fd < int START_FD then
              rbind (printf (''execve failed: file %s does not exist!'' @ newline) [VStr (Some name)] s) (\<lambda>s.
              after_switch (exit_st sp (current s) 1 s) (\<lambda>s. Inr (Result () s)))
            else Inr (Result () s)) (\<lambda>_ s.
     rbind (tarfs_read fd 0 s) (\<lambda>(fp, s).
     rbind (get_zero_page s) (\<lambda>(kbuf, s).
     if kbuf = 0 then Inl (Panic ''[exec] alloc kbuf failed!'') else
     rbind (map_argv argv s) (\<lambda>s.
     rbind (header (archive s) (uint fp - uint (tarfs_start s))) (\<lambda>contents.
     rbind (strncmp (Some contents) (Some (c_lit ''#!'')) 2) (\<lambda>r.
     if r = 0 then
       rbind (get_interp contents) (\<lambda>interp.
       rbind (vstore_string frame interp s) (\<lambda>s.
       rbind (get_interp_argv (frame + 64) argv frame s) (exec stack_frames sp frame (frame + 64) envp)))
     else exec_image fd fp kbuf argv envp s))))))))"

section \<open>Dispatch\<close>

text \<open>A successful \<open>execve\<close> does not come back to its caller: the process starts in user mode.\<close>

definition execve :: "u64 list \<Rightarrow> u64 \<Rightarrow> sc_frame \<Rightarrow> 'a kernel_scheme \<Rightarrow> fault + (u64 \<times> u64, 'a kernel_scheme) outcome" where
  "execve stack_frames sp sf s = exec stack_frames sp (sf_rdi sf) (sf_rsi sf) (sf_rdx sf) s"

datatype reply = Rax u64 | Start "u64 \<times> u64"

definition answer :: "fault + u64 \<times> 's \<Rightarrow> fault + (reply, 's) outcome" where
  "answer m = rbind m (\<lambda>(v, s). Inr (Result (Rax v) s))"

definition answer_outcome :: "fault + (u64, 's) outcome \<Rightarrow> fault + (reply, 's) outcome" where
  "answer_outcome m = obind m (\<lambda>v s. Inr (Result (Rax v) s))"

definition syscall_handler :: "u64 \<Rightarrow> u64 list \<Rightarrow> u64 \<Rightarrow> u32 \<Rightarrow> sc_frame \<Rightarrow> 'a kernel_scheme \<Rightarrow>
    fault + (reply, 'a kernel_scheme) outcome" where
  "syscall_handler ret_from_fork stack_frames sp num sf s =
     (if num = 2 then answer_outcome (sys_open sp sf s)
      else if num = 0 then answer_outcome (sys_read sp sf s)
      else if num = 1 then answer (sys_write sf s)
      else if num = 3 then answer (sys_close sf s)
      else if num = 78 then answer (sys_getdents sf s)
      else if num = 79 then answer (sys_getcwd sf s)
      else if num = 80 then answer_outcome (sys_chdir sp sf s)
      else if num = 12 then answer (sys_brk sf s)
      else if num = 57 then answer (fork ret_from_fork sf s)
      else if num = 59 then obind (execve stack_frames sp sf s) (\<lambda>start s. Inr (Result (Start start) s))
      else if num = 61 then answer_outcome (sys_wait sp sf s)
      else if num = 60 then answer_outcome (sys_exit sp sf s)
      else if num = 62 then answer (sys_kill sf s)
      else if num = 39 then answer (rbind (getpid s) (\<lambda>v. Inr (v, s)))
      else if num = 110 then answer (rbind (getppid s) (\<lambda>v. Inr (v, s)))
      else if num = 300 then answer (ps s)
      else answer_outcome (sys_null sp num s))"

end
