(* ===== verification/TarArchive.thy ===== *)
theory TarArchive
  imports FileCalls
begin

text \<open>
  What the file system promises on a well-formed archive: \<open>tar_at\<close> describes an archive as a list
  of entries, independently of the code that walks it. \<open>traverse_tarfs\<close> returns the first entry
  its comparison function accepts, for every comparison function with the contract
  \<open>tar_checker\<close>; the two the kernel uses, \<open>strcmp\<close> and \<open>belongs_to_dir\<close>, have it.
\<close>

section \<open>Numbers in headers\<close>

definition octal_digit :: "char \<Rightarrow> bool" where
  "octal_digit c \<longleftrightarrow> c \<in> set ''01234567''"

definition oct_value :: "string \<Rightarrow> nat" where
  "oct_value b = fold (\<lambda>c v. v * 8 + (of_char c - 48)) b 0"

lemma octal_schar: "octal_digit c \<Longrightarrow> schar c - 48 = int (of_char c - 48)"
  by (auto simp: octal_digit_def schar_def)

lemma octal_not_NUL: "\<not> octal_digit NUL"
  by (simp add: octal_digit_def)

lemma oct_fold:
  "\<forall>c\<in>set b. octal_digit c \<Longrightarrow>
     fold (\<lambda>c sz. sz * 8 + of_int (schar c - 48)) b (of_nat v :: u64) =
     of_nat (fold (\<lambda>c v. v * 8 + (of_char c - 48)) b v)"
proof (induction b arbitrary: v)
  case (Cons c b)
  have "(of_nat v :: u64) * 8 + of_int (schar c - 48) = of_nat (v * 8 + (of_char c - 48))"
    using Cons.prems octal_schar [of c] by simp
  then show ?case using Cons by (simp del: of_nat_add of_nat_mult)
qed simp

lemma take_length_cstr: "take (length (cstr b)) b = cstr b"
  by (simp add: cstr_def takeWhile_eq_take [symmetric])

lemma octstr_to_int_value:
  assumes "NUL \<in> set b" "\<forall>c\<in>set (cstr b). octal_digit c"
  shows "octstr_to_int b = Inr (of_nat (oct_value (cstr b)))"
  using oct_fold [OF assms(2), of 0] assms(1)
  by (simp add: octstr_to_int_def strlen_Some take_length_cstr oct_value_def)

definition round512 :: "nat \<Rightarrow> nat" where
  "round512 n = (n + 511) div 512 * 512"

lemma round512_add: "round512 (n + 512) = 512 + round512 n"
proof -
  have "n + 512 + 511 = (n + 511) + 512" by simp
  then show ?thesis unfolding round512_def by (simp only: div_add_self2) simp
qed

lemma ROUND_TO_512_value:
  assumes "n + 511 < 2 ^ LENGTH('l)"
  shows "unat (ROUND_TO_512 (of_nat n :: 'l::len word)) = round512 n"
proof -
  let ?x = "of_nat (n + 511) :: 'l word"
  have m: "(512 - 1 :: 'l word) = mask 9" by (simp add: mask_eq_exp_minus_1)
  have "ROUND_TO_512 (of_nat n :: 'l word) = ?x AND NOT (mask 9)"
    unfolding ROUND_TO_512_def m by (simp add: mask_eq_exp_minus_1 add.commute)
  also have "\<dots> = push_bit 9 (drop_bit 9 ?x)"
    by (rule bit_word_eqI) (auto simp: bit_simps)
  finally have "unat (ROUND_TO_512 (of_nat n :: 'l word)) = take_bit LENGTH('l) (push_bit 9 (unat (drop_bit 9 ?x)))"
    by (simp only: unsigned_push_bit_eq)
  moreover have "unat (drop_bit 9 ?x) = unat ?x div 2 ^ 9" by (metis unat_drop_bit_eq drop_bit_eq_div)
  moreover have "unat ?x = n + 511" using assms by (simp only: unat_of_nat mod_less)
  moreover have "(n + 511) div 512 * 512 < 2 ^ LENGTH('l)"
    by (rule le_less_trans [OF _ assms]) simp
  ultimately show ?thesis by (simp add: push_bit_eq_mult take_bit_eq_mod round512_def)
qed

section \<open>The archive as a list of entries\<close>

record tar_entry =
  e_name :: string
  e_dir :: bool
  e_size :: nat

definition entry_length :: "tar_entry \<Rightarrow> nat" where
  "entry_length e = 512 + (if e_dir e then 0 else round512 (e_size e))"

definition header_of :: "tar_entry \<Rightarrow> string \<Rightarrow> bool" where
  "header_of e h \<longleftrightarrow> 512 \<le> length h \<and> NUL \<in> set (take 100 h) \<and> cstr h = e_name e \<and>
     (h ! 156 = CHR ''5'') = e_dir e \<and> NUL \<in> set (take 12 (drop 124 h)) \<and>
     (\<forall>c\<in>set (cstr (drop 124 h)). octal_digit c) \<and> oct_value (cstr (drop 124 h)) = e_size e \<and>
     e_size e < 2147482624"

fun tar_at :: "string \<Rightarrow> nat \<Rightarrow> tar_entry list \<Rightarrow> bool" where
  "tar_at a off [] \<longleftrightarrow> length a \<le> off"
| "tar_at a off (e # es) \<longleftrightarrow> header_of e (drop off a) \<and> tar_at a (off + entry_length e) es"

fun offsets :: "nat \<Rightarrow> tar_entry list \<Rightarrow> (nat \<times> tar_entry) list" where
  "offsets off [] = []"
| "offsets off (e # es) = (off, e) # offsets (off + entry_length e) es"

lemma header_ofD:
  assumes "header_of e h"
  shows "512 \<le> length h" "NUL \<in> set h" "cstr h = e_name e" "(h ! 156 = CHR ''5'') = e_dir e"
    "get_filesz h = Inr (of_nat (e_size e))" "e_size e < 2147482624"
proof -
  show "512 \<le> length h" "cstr h = e_name e" "(h ! 156 = CHR ''5'') = e_dir e" "e_size e < 2147482624"
    using assms by (simp_all add: header_of_def)
  show "NUL \<in> set h" using assms by (auto simp: header_of_def dest: in_set_takeD)
  have "NUL \<in> set (drop 124 h)" using assms by (auto simp: header_of_def dest: in_set_takeD)
  then show "get_filesz h = Inr (of_nat (e_size e))"
    using assms octstr_to_int_value [of "drop 124 h"] by (simp add: get_filesz_def header_of_def)
qed

lemma tar_at_length: "tar_at a off es \<Longrightarrow> es = [] \<or> off + 512 * length es \<le> length a"
proof (induction es arbitrary: off)
  case (Cons e es)
  then have e: "512 \<le> length (drop off a)" "tar_at a (off + entry_length e) es"
    using header_ofD(1) [of e "drop off a"] by auto
  have "512 \<le> entry_length e" by (simp add: entry_length_def)
  then show ?case using Cons.IH [OF e(2)] e(1) by auto
qed simp

lemma offsets_in_archive: "tar_at a off es \<Longrightarrow> (o', e) \<in> set (offsets off es) \<Longrightarrow> header_of e (drop o' a)"
  by (induction es arbitrary: off) auto

section \<open>Names with a slash\<close>

definition with_slash :: "string \<Rightarrow> string" where
  "with_slash n = (if n \<noteq> [] \<and> last n = CHR ''/'' then n else n @ ''/'')"

lemma NUL_with_slash: "NUL \<notin> set n \<Longrightarrow> NUL \<notin> set (with_slash n)"
  by (simp add: with_slash_def)

lemma copy_field_eq:
  assumes "NUL \<in> set src" "length (cstr src) \<le> n" "length (cstr src) < length dest"
  shows "copy_field dest src n = Inr (cstr src @ NUL # drop (Suc (length (cstr src))) dest)"
proof -
  have "min n (length (cstr src)) = length (cstr src)" using assms(2) by simp
  then show ?thesis using strncpy_eq [OF assms(1) refl, of dest n] assms(3) by (simp add: copy_field_def)
qed

lemma last_cstr: "cstr b \<noteq> [] \<Longrightarrow> b ! (length (cstr b) - 1) = last (cstr b)"
  by (simp add: last_conv_nth nth_cstr)

text \<open>Writing a slash and a terminator behind a string in a buffer that has room for them.\<close>

lemma append_slash:
  assumes "length n + 2 \<le> length b" "b = n @ NUL # r"
  shows "rbind (c_write b (length n) CHR ''/'') (\<lambda>b. c_write b (length n + 1) NUL) =
    Inr (n @ CHR ''/'' # NUL # drop 1 r)"
proof -
  have r: "r \<noteq> []" using assms by auto
  then obtain c r' where "r = c # r'" by (cases r) auto
  then show ?thesis using assms by (simp add: c_write_def list_update_append)
qed

lemma dir_name_eq:
  assumes "NUL \<in> set fn" "cstr fn \<noteq> []" "length (cstr fn) \<le> 62"
  shows "\<exists>b. dir_name fn (length (cstr fn)) = Inr b \<and> NUL \<in> set b \<and> cstr b = with_slash (cstr fn)"
proof -
  let ?n = "cstr fn"
  have c: "c_read fn (length ?n - 1) = Inr (last ?n)"
    using assms length_cstr_less [OF assms(1)] last_cstr [of fn] by (simp add: c_read_def)
  have cp: "copy_field (replicate 64 NUL) fn (length ?n) = Inr (?n @ NUL # replicate (63 - length ?n) NUL)"
    using copy_field_eq [OF assms(1), of "length ?n" "replicate 64 NUL"] assms(3) by simp
  have no: "NUL \<notin> set ?n" by (rule NUL_notin_cstr)
  show ?thesis
  proof (cases "last ?n = CHR ''/''")
    case True
    then have "dir_name fn (length ?n) = Inr (?n @ NUL # replicate (63 - length ?n) NUL)"
      using c cp assms(2) by (simp add: dir_name_def)
    then show ?thesis using True assms(2) no by (simp add: with_slash_def cstr_append_NUL)
  next
    case False
    have "length ?n + 2 \<le> length (?n @ NUL # replicate (63 - length ?n) NUL)" using assms(3) by simp
    from append_slash [OF this refl] have "dir_name fn (length ?n) =
        Inr ((?n @ ''/'') @ NUL # drop 1 (replicate (63 - length ?n) NUL))"
      using c cp False assms(2) by (simp add: dir_name_def)
    moreover have "cstr ((?n @ ''/'') @ NUL # r) = ?n @ ''/''" for r
      by (rule cstr_append_NUL) (use no in simp)
    ultimately show ?thesis using False by (auto simp: with_slash_def)
  qed
qed

section \<open>The search\<close>

text \<open>An entry the search stops at, and what it returns there.\<close>

definition selects :: "(string \<Rightarrow> string \<Rightarrow> bool) \<Rightarrow> string \<Rightarrow> nat \<times> tar_entry \<Rightarrow> bool" where
  "selects accepts n = (\<lambda>(_, e). accepts (if e_dir e then with_slash n else n) (e_name e))"

definition found :: "nat \<times> tar_entry \<Rightarrow> int \<times> u32" where
  "found = (\<lambda>(off, e). (int off, if e_dir e then FT_DIR else FT_FILE))"

locale tar_checker =
  fixes checker :: checker and accepts :: "string \<Rightarrow> string \<Rightarrow> bool"
  assumes checker: "NUL \<in> set n \<Longrightarrow> NUL \<in> set h \<Longrightarrow> \<exists>r. checker n h = Inr r \<and> (r = 0 \<longleftrightarrow> accepts (cstr n) (cstr h))"
begin

lemma traverse_dir:
  assumes "header_of e (drop off a)" "e_dir e" "NUL \<in> set fn" "cstr fn \<noteq> []" "length (cstr fn) \<le> 62"
  shows "traverse_loop (Suc k) checker fn (length (cstr fn)) a (int off) =
    (if selects accepts (cstr fn) (off, e) then Inr (Some (found (off, e)))
     else traverse_loop k checker fn (length (cstr fn)) a (int (off + entry_length e)))"
proof -
  note h = header_ofD [OF assms(1)]
  obtain b where b: "dir_name fn (length (cstr fn)) = Inr b" "NUL \<in> set b" "cstr b = with_slash (cstr fn)"
    using dir_name_eq [OF assms(3-5)] by blast
  obtain r where r: "checker b (drop off a) = Inr r" "r = 0 \<longleftrightarrow> accepts (with_slash (cstr fn)) (e_name e)"
    using checker [OF b(2) h(2)] b(3) h(3) by auto
  have off: "off < length a" using h(1) by simp
  have "c_read (drop off a) 156 = Inr (CHR ''5'')" using h(1,4) assms(2) by (simp add: c_read_def)
  then show ?thesis
    using b r assms(2) off
    by (simp add: header_def selects_def found_def entry_length_def add.commute)
qed

lemma traverse_file:
  assumes "header_of e (drop off a)" "\<not> e_dir e" "NUL \<in> set fn"
  shows "traverse_loop (Suc k) checker fn namesz a (int off) =
    (if selects accepts (cstr fn) (off, e) then Inr (Some (found (off, e)))
     else traverse_loop k checker fn namesz a (int (off + entry_length e)))"
proof -
  note h = header_ofD [OF assms(1)]
  obtain r where r: "checker fn (drop off a) = Inr r" "r = 0 \<longleftrightarrow> accepts (cstr fn) (e_name e)"
    using checker [OF assms(3) h(2)] h(3) by auto
  have off: "off < length a" using h(1) by simp
  obtain c where c: "c_read (drop off a) 156 = Inr c" "c \<noteq> CHR ''5''" using h(1,4) assms(2) by (simp add: c_read_def)
  have "of_nat (e_size e) + 512 = (of_nat (e_size e + 512) :: u64)" by simp
  then have "ucast (of_nat (e_size e) + 512 :: u64) = (of_nat (e_size e + 512) :: u32)"
    using h(6) by (simp only: unsigned_of_nat) (simp add: take_bit_nat_eq_self)
  moreover have u: "unat (ROUND_TO_512 (of_nat (e_size e + 512) :: u32)) = entry_length e"
    using ROUND_TO_512_value [where 'l = 32, of "e_size e + 512"] h(6) assms(2)
    by (simp add: entry_length_def round512_add)
  moreover have "entry_length e < 2147483648"
    using h(6) assms(2) by (simp add: entry_length_def round512_def)
  then have "sint (ROUND_TO_512 (of_nat (e_size e + 512) :: u32)) = int (entry_length e)"
    using u sint_small32 by metis
  ultimately show ?thesis
    using c r assms(2) off h(5) by (simp add: header_def selects_def found_def Let_def)
qed

lemma traverse_finds:
  assumes "tar_at a off es" "NUL \<in> set fn" "cstr fn \<noteq> []" "length (cstr fn) \<le> 62" "length es < k"
  shows "traverse_loop k checker fn (length (cstr fn)) a (int off) =
    Inr (map_option found (List.find (selects accepts (cstr fn)) (offsets off es)))"
  using assms
proof (induction es arbitrary: off k)
  case Nil
  then show ?case by (cases k) simp_all
next
  case (Cons e es)
  then obtain k' where k: "k = Suc k'" "length es < k'" by (cases k) auto
  have "traverse_loop k checker fn (length (cstr fn)) a (int off) =
    (if selects accepts (cstr fn) (off, e) then Inr (Some (found (off, e)))
     else traverse_loop k' checker fn (length (cstr fn)) a (int (off + entry_length e)))"
    unfolding k using Cons.prems traverse_dir [of e off a fn k'] traverse_file [of e off a fn k' "length (cstr fn)"]
    by (cases "e_dir e") auto
  then show ?case using Cons.IH [of "off + entry_length e" k'] Cons.prems k by auto
qed

lemma traverse_tarfs_finds:
  assumes "tar_at a off es" "NUL \<in> set fn" "cstr fn \<noteq> []" "length (cstr fn) \<le> 62"
  shows "traverse_tarfs fn (int off) checker a = Inr (map_option found (List.find (selects accepts (cstr fn)) (offsets off es)))"
proof -
  have "length es < length a div 512 + 2" using tar_at_length [OF assms(1)] by auto
  from traverse_finds [OF assms this] show ?thesis using assms(2) by (simp add: traverse_tarfs_def strlen_Some)
qed

end

section \<open>The two comparison functions\<close>

interpretation by_name: tar_checker strcmp_check "(=)"
proof
  fix n h assume "NUL \<in> set n" "NUL \<in> set h"
  then show "\<exists>r. strcmp (Some n) (Some h) = Inr r \<and> (r = 0 \<longleftrightarrow> cstr n = cstr h)"
    using strcmp_total [of n h] strcmp_zero_iff [of n h] by auto
qed

text \<open>What the two loops of \<open>belongs_to_dir\<close> accept: no slash but at the very end.\<close>

definition single :: "string \<Rightarrow> bool" where
  "single r \<longleftrightarrow> CHR ''/'' \<notin> set (butlast r)"

definition scan_accepts :: "string \<Rightarrow> string \<Rightarrow> bool" where
  "scan_accepts d n \<longleftrightarrow> d \<noteq> [] \<and> n \<noteq> [] \<and>
     (if d = ''/'' then single n else take (length d) n = d \<and> single (drop (length d) n))"

lemma scan_slash_single:
  assumes "NUL \<in> set name" "i \<le> length (cstr name)"
  shows "\<exists>r. scan_slash name (length (cstr name)) i = Inr r \<and> (r = 0 \<longleftrightarrow> single (drop i (cstr name)))"
  using assms
proof (induction name "length (cstr name)" i rule: scan_slash.induct)
  case (1 name i)
  show ?case
  proof (cases "i < length (cstr name)")
    case False
    then show ?thesis using "1.prems" by (subst scan_slash.simps) (simp add: single_def)
  next
    case True
    have len: "length (cstr name) < length name" by (rule length_cstr_less [OF "1.prems"(1)])
    have c: "c_read name i = Inr (cstr name ! i)" using True len by (simp add: c_read_def nth_cstr)
    have split: "drop i (cstr name) = cstr name ! i # drop (Suc i) (cstr name)"
      using True by (simp add: Cons_nth_drop_Suc)
    show ?thesis
    proof (cases "cstr name ! i = CHR ''/''")
      case False
      have "\<exists>r. scan_slash name (length (cstr name)) (i + 1) = Inr r \<and> (r = 0 \<longleftrightarrow> single (drop (i + 1) (cstr name)))"
        by (rule "1.hyps" [OF True c]) (use False True "1.prems" in auto)
      then show ?thesis using True c False split by (subst scan_slash.simps) (auto simp: single_def)
    next
      case slash: True
      have "c_read name (i + 1) = Inr (name ! Suc i)" using True len by (simp add: c_read_def)
      moreover have "name ! Suc i = NUL \<longleftrightarrow> Suc i = length (cstr name)"
        using nth_NUL_iff [OF "1.prems"(1), of "Suc i"] True by simp
      moreover have "single (drop i (cstr name)) \<longleftrightarrow> Suc i = length (cstr name)"
        using True slash unfolding split by (auto simp: single_def)
      ultimately show ?thesis using True c slash by (subst scan_slash.simps) auto
    qed
  qed
qed

lemma strncmp_total:
  assumes "NUL \<in> set d" "NUL \<in> set s"
  shows "\<exists>r. strncmp (Some d) (Some s) n = Inr r"
  using strncmp_loop_zero_iff [OF assms, of 0 n] by (auto simp: strncmp_def)

lemma belongs_to_dir_child:
  assumes "NUL \<in> set d" "NUL \<in> set n"
  shows "\<exists>r. belongs_to_dir d n = Inr r \<and> (r = 0 \<longleftrightarrow> scan_accepts (cstr d) (cstr n))"
proof (cases "cstr d = [] \<or> cstr n = []")
  case True
  then show ?thesis using assms by (auto simp: belongs_to_dir_def strlen_Some scan_accepts_def)
next
  case ne: False
  have lit: "NUL \<in> set (c_lit ''/'')" "cstr (c_lit ''/'') = ''/''" by simp_all
  obtain r0 where r0: "strcmp_check d (c_lit ''/'') = Inr r0" "r0 = 0 \<longleftrightarrow> cstr d = ''/''"
    using by_name.checker [OF assms(1) lit(1)] lit(2) by auto
  show ?thesis
  proof (cases "cstr d = ''/''")
    case True
    then show ?thesis
      using ne r0 assms scan_slash_single [OF assms(2), of 0]
      by (auto simp: belongs_to_dir_def strlen_Some scan_accepts_def)
  next
    case False
    obtain r1 where r1: "strncmp (Some d) (Some n) (length (cstr d)) = Inr r1"
      using strncmp_total [OF assms] by blast
    have eq: "r1 = 0 \<longleftrightarrow> take (length (cstr d)) (cstr n) = cstr d"
      using strncmp_zero_iff [OF assms, of "length (cstr d)"] r1 by auto
    show ?thesis
    proof (cases "r1 = 0")
      case True
      then have "length (cstr d) \<le> length (cstr n)" using eq by (metis length_take min.cobounded1 min.commute)
      then show ?thesis
        using ne False r0 r1 True eq assms scan_slash_single [OF assms(2), of "length (cstr d)"]
        by (auto simp: belongs_to_dir_def strlen_Some scan_accepts_def)
    next
      case r: False
      then show ?thesis using ne False r0 r1 eq assms by (auto simp: belongs_to_dir_def strlen_Some scan_accepts_def)
    qed
  qed
qed

interpretation by_dir: tar_checker belongs_to_dir scan_accepts
  by unfold_locales (rule belongs_to_dir_child)

section \<open>Opening a file\<close>

lemma skip_slashes_eq:
  "NUL \<in> set f \<Longrightarrow> skip_slashes f = Inr (dropWhile (\<lambda>c. c = CHR ''/'') f) \<and>
     NUL \<in> set (dropWhile (\<lambda>c. c = CHR ''/'') f) \<and>
     cstr (dropWhile (\<lambda>c. c = CHR ''/'') f) = dropWhile (\<lambda>c. c = CHR ''/'') (cstr f) \<and>
     length f - length (dropWhile (\<lambda>c. c = CHR ''/'') f) =
       length (cstr f) - length (dropWhile (\<lambda>c. c = CHR ''/'') (cstr f))"
proof (induction f)
  case (Cons c f)
  show ?case
  proof (cases "c = CHR ''/''")
    case True
    have "length (dropWhile (\<lambda>c. c = CHR ''/'') f) \<le> length f" for f :: string by (rule length_dropWhile_le)
    then show ?thesis using Cons True by (auto simp: Suc_diff_le)
  next
    case False
    then show ?thesis using Cons.prems by simp
  qed
qed simp

lemma is_root_eq:
  assumes "NUL \<in> set f"
  shows "is_root f = Inr (cstr f \<in> {''/'', ''//'', ''///''})"
proof -
  have lit: "\<exists>r. strcmp_check f (c_lit t) = Inr r \<and> (r = 0 \<longleftrightarrow> cstr f = t)" if "NUL \<notin> set t" for t
    using by_name.checker [OF assms, of "c_lit t"] cstr_append_NUL [OF that, of "[]"] by simp
  obtain r1 r2 r3 where r: "strcmp_check f (c_lit ''/'') = Inr r1" "r1 = 0 \<longleftrightarrow> cstr f = ''/''"
    "strcmp_check f (c_lit ''//'') = Inr r2" "r2 = 0 \<longleftrightarrow> cstr f = ''//''"
    "strcmp_check f (c_lit ''///'') = Inr r3" "r3 = 0 \<longleftrightarrow> cstr f = ''///''"
    using lit [of "''/''"] lit [of "''//''"] lit [of "''///''"] by auto
  have "cstr f \<in> {''/'', ''//'', ''///''} \<longleftrightarrow> r1 = 0 \<or> r2 = 0 \<or> r3 = 0"
    unfolding r(2,4,6) by simp
  then show ?thesis unfolding is_root_def r(1,3,5) by simp
qed

lemma stored_name_eq:
  assumes nf: "newfname = n @ NUL # replicate (63 - length n) NUL" and n: "NUL \<notin> set n" "n \<noteq> []" "length n \<le> 62"
    and d: "length dest = 128"
  shows "\<exists>b. stored_name newfname ty dest = Inr b \<and> cstr b = (if ty = FT_DIR then with_slash n else n) \<and> length b = 128"
proof -
  have c: "cstr newfname = n" "NUL \<in> set newfname" unfolding nf using n(1) by (simp_all add: cstr_append_NUL)
  have len: "strlen (Some newfname) = Inr (length n)" using c by (simp add: strlen_Some)
  have last: "c_read newfname (length n - 1) = Inr (last n)"
    unfolding nf using n(2) by (simp add: c_read_def nth_append last_conv_nth)
  have plain: "\<exists>b. copy_field dest newfname (length n) = Inr b \<and> cstr b = n \<and> length b = 128"
    using copy_field_eq [OF c(2), of "length n" dest] n d unfolding c(1)
    by (simp add: cstr_append_NUL)
  have "length n + 2 \<le> length newfname" unfolding nf using n(3) by simp
  from append_slash [OF this nf] obtain m where
    m: "rbind (c_write newfname (length n) CHR ''/'') (\<lambda>b. c_write b (length n + 1) NUL) = Inr m"
      "m = (n @ ''/'') @ NUL # drop 1 (replicate (63 - length n) NUL)" by simp
  have cm: "cstr m = n @ ''/''" "NUL \<in> set m" unfolding m(2) using n(1) cstr_append_NUL [of "n @ ''/''"] by simp_all
  have slash: "\<exists>b. copy_field dest m (length n + 1) = Inr b \<and> cstr b = n @ ''/'' \<and> length b = 128"
    using copy_field_eq [OF cm(2), of "length n + 1" dest] n d cstr_append_NUL [of "n @ ''/''"] unfolding cm(1)
    by simp
  show ?thesis
  proof (cases "ty = FT_DIR \<and> last n \<noteq> CHR ''/''")
    case True
    then have "stored_name newfname ty dest =
        rbind (rbind (c_write newfname (length n) CHR ''/'') (\<lambda>b. c_write b (length n + 1) NUL))
          (\<lambda>m. copy_field dest m (length n + 1))"
      using n(2) len last by (simp add: stored_name_def rbind_assoc)
    then show ?thesis using True slash m(1) n(2) by (simp add: with_slash_def)
  next
    case False
    then have "stored_name newfname ty dest = copy_field dest newfname (length n)"
      using n(2) len last by (auto simp: stored_name_def)
    then show ?thesis using plain False n(2) by (auto simp: with_slash_def)
  qed
qed

definition file_ok :: "tarfs_file \<Rightarrow> bool" where
  "file_ok f \<longleftrightarrow> length (f_mode f) = 16 \<and> length (f_name f) = FILE_NAME_SIZE"

text \<open>The open file for entry \<open>e\<close> at offset \<open>off\<close>, found under the name \<open>n\<close>.\<close>

definition opened :: "'a kernel_scheme \<Rightarrow> string \<Rightarrow> nat \<times> tar_entry \<Rightarrow> tarfs_file \<Rightarrow> tarfs_file \<Rightarrow> bool" where
  "opened s n = (\<lambda>(off, e) old f.
     f_free f = 1 \<and> f_start_addr f = tarfs_start s + of_nat (off + 512) \<and> f_pos f = f_pos old \<and>
     cstr (f_mode f) = ''r'' \<and> cstr (f_name f) = (if e_dir e then with_slash n else n) \<and>
     f_type f = (if e_dir e then FT_DIR else FT_FILE) \<and>
     f_size f = (if e_dir e then f_size old else of_nat (round512 (e_size e))) \<and> file_ok f)"

lemma fill_file_opened:
  assumes nf: "newfname = n @ NUL # replicate (63 - length n) NUL" and n: "NUL \<notin> set n" "n \<noteq> []" "length n \<le> 62"
    and e: "header_of e (drop off (archive s))" and f: "file_ok f"
  shows "\<exists>g. fill_file (Some (found (off, e))) newfname (c_lit ''r'') s f = Inr g \<and> opened s n (off, e) f g"
proof -
  let ?ty = "if e_dir e then FT_DIR else FT_FILE"
  have l: "length (f_name (f\<lparr>f_free := 1\<rparr>)) = 128" using f by (simp add: file_ok_def)
  obtain b where b: "stored_name newfname ?ty (f_name f) = Inr b"
    "cstr b = (if e_dir e then with_slash n else n)" "length b = 128"
    using stored_name_eq [OF nf n l, of ?ty] by auto
  have lm: "length (f_mode f) = 16" using f by (simp add: file_ok_def)
  have "copy_field (f_mode f) (c_lit ''r'') 1 = Inr (''r'' @ NUL # drop 2 (f_mode f))"
    using copy_field_eq [of "c_lit ''r''" 1 "f_mode f"] lm by (simp add: numeral_2_eq_2)
  note mode = this
  have sl: "strlen (Some (c_lit ''r'')) = Inr 1" by (simp add: strlen_Some)
  note h = header_ofD [OF e]
  have hd: "header (archive s) (int off) = Inr (drop off (archive s))" using h(1) by (simp add: header_def)
  have "ROUND_TO_512 (of_nat (e_size e) :: u64) = of_nat (round512 (e_size e))"
  proof -
    have "e_size e + 511 < 2 ^ LENGTH(64)" using h(6) by simp
    from ROUND_TO_512_value [OF this] show ?thesis by (metis of_nat_unat ucast_id)
  qed
  then show ?thesis
    using b mode sl hd h(5) lm
    by (auto simp: fill_file_def found_def opened_def file_ok_def Let_def)
qed

lemma tarfs_open_found:
  assumes "tar_at (archive s) 0 es"
    and "NUL \<in> set filename" "length (cstr filename) < FILE_NAME_SIZE"
    and "n = dropWhile (\<lambda>c. c = CHR ''/'') (cstr filename)" "n \<noteq> []" "length n \<le> 62"
    and "current s \<noteq> 0" "task_heap s (current s) = Some t" "\<forall>f\<in>set (file_array t). file_ok f"
    and "length (file_array t) = MAX_FILE_NUM" "free_fd t = Some i"
  shows "case List.find (selects (=) n) (offsets 0 es) of
      None \<Rightarrow> tarfs_open sp filename (c_lit ''r'') s = Inr (Result (- 1) s)
    | Some oe \<Rightarrow> \<exists>f. opened s n oe (file_array t ! i) f \<and>
        tarfs_open sp filename (c_lit ''r'') s =
          Inr (Result (int i) (s\<lparr>task_heap := (task_heap s)(current s \<mapsto> t\<lparr>file_array := (file_array t)[i := f]\<rparr>)\<rparr>))"
proof -
  let ?rest = "dropWhile (\<lambda>c. c = CHR ''/'') filename"
  define nf where "nf = n @ NUL # replicate (63 - length n) NUL"
  note sk = skip_slashes_eq [OF assms(2), folded assms(4)]
  have nn: "NUL \<notin> set n" using NUL_notin_cstr [of filename] assms(4) by (metis set_dropWhileD)
  have len: "length (cstr filename) - (length filename - length ?rest) = length n"
    using sk assms(4) length_dropWhile_le [of "\<lambda>c. c = CHR ''/''" "cstr filename"] by simp
  have new: "copy_field (replicate NAME_SIZE NUL) ?rest (length n) = Inr nf"
    using copy_field_eq [of ?rest "length n" "replicate 64 NUL"] sk assms(6) by (simp add: nf_def)
  have cnf: "cstr nf = n" "NUL \<in> set nf" using nn by (simp_all add: nf_def cstr_append_NUL)
  have "cstr filename \<notin> {''/'', ''//'', ''///''}" using assms(4,5) by auto
  then have fe: "find_entry filename nf (archive s) = Inr (map_option (Some \<circ> found) (List.find (selects (=) n) (offsets 0 es)))"
    using is_root_eq [OF assms(2)] by_name.traverse_tarfs_finds [OF assms(1) cnf(2)] cnf(1) assms(5,6)
    by (simp add: find_entry_def option.map_comp)
  have op: "tarfs_open sp filename (c_lit ''r'') s =
      (case List.find (selects (=) n) (offsets 0 es) of
         None \<Rightarrow> Inr (Result (- 1) s)
       | Some oe \<Rightarrow> rbind (fill_file (Some (found oe)) nf (c_lit ''r'') s (file_array t ! i)) (\<lambda>f.
           rbind (set_current_file (int i) f s) (\<lambda>s. Inr (Result (int i) s))))"
    using sk len new fe assms(2,3,7,8,11)
    by (simp add: tarfs_open_def strlen_Some split: option.split)
  have i: "i < MAX_FILE_NUM" using assms(11) by (auto simp: free_fd_def find_upt_Some)
  show ?thesis
  proof (cases "List.find (selects (=) n) (offsets 0 es)")
    case None
    then show ?thesis using op by simp
  next
    case (Some oe)
    then have "oe \<in> set (offsets 0 es)" by (metis find_Some_iff nth_mem)
    then have h: "header_of (snd oe) (drop (fst oe) (archive s))"
      using offsets_in_archive [OF assms(1), of "fst oe" "snd oe"] by simp
    have "file_ok (file_array t ! i)" using assms(9,10) i by simp
    then obtain g where "fill_file (Some (found oe)) nf (c_lit ''r'') s (file_array t ! i) = Inr g"
      "opened s n oe (file_array t ! i) g"
      using fill_file_opened [OF nf_def nn assms(5,6) h] by auto
    then show ?thesis using Some op assms(7,8) by (auto simp: set_current_file_def upd_task_def)
  qed
qed

text \<open>
  C10. Opening a file by name on a well-formed archive. The name is compared without its leading
  slashes, with directories also with a slash appended. If no entry matches, the result is -1
  and nothing changes. Otherwise the first matching entry is opened under the lowest free
  descriptor, which records its position in the archive, its kind, its name and (for files) its
  size rounded up to 512; no other part of the state changes.
\<close>

theorem tarfs_open_by_name:
  assumes "tar_at (archive s) 0 es"
    and "NUL \<in> set filename" "length (cstr filename) < FILE_NAME_SIZE"
    and "n = dropWhile (\<lambda>c. c = CHR ''/'') (cstr filename)" "n \<noteq> []" "length n \<le> 62"
    and "current s \<noteq> 0" "task_heap s (current s) = Some t" "\<forall>f\<in>set (file_array t). file_ok f"
    and "length (file_array t) = MAX_FILE_NUM" "free_fd t = Some i"
  shows "case List.find (selects (=) n) (offsets 0 es) of
      None \<Rightarrow> tarfs_open sp filename (c_lit ''r'') s = Inr (Result (- 1) s)
    | Some oe \<Rightarrow> \<exists>f. opened s n oe (file_array t ! i) f \<and>
        tarfs_open sp filename (c_lit ''r'') s =
          Inr (Result (int i) (s\<lparr>task_heap := (task_heap s)(current s \<mapsto> t\<lparr>file_array := (file_array t)[i := f]\<rparr>)\<rparr>))"
  by (rule tarfs_open_found [OF assms])

section \<open>An archive\<close>

definition ustar_header :: "string \<Rightarrow> string \<Rightarrow> char \<Rightarrow> string" where
  "ustar_header name digits ty =
     name @ replicate (124 - length name) NUL @ digits @ replicate (32 - length digits) NUL @ [ty] @ replicate 355 NUL"

lemma header_of_ustar:
  assumes "NUL \<notin> set name" "length name \<le> 99" "\<forall>c\<in>set digits. octal_digit c" "length digits \<le> 11"
    and "oct_value digits < 2147482624"
  shows "header_of \<lparr>e_name = name, e_dir = (ty = CHR ''5''), e_size = oct_value digits\<rparr> (ustar_header name digits ty @ rest)"
proof -
  let ?r = "digits @ replicate (32 - length digits) NUL @ [ty] @ replicate 355 NUL @ rest"
  have h: "ustar_header name digits ty @ rest = name @ replicate (124 - length name) NUL @ ?r"
    by (simp add: ustar_header_def)
  have k: "124 - length name = Suc (123 - length name)" using assms(2) by simp
  have m: "32 - length digits = Suc (31 - length digits)" using assms(4) by simp
  have dr: "drop 124 (name @ replicate (124 - length name) NUL @ ?r) = ?r" using assms(2) by simp
  have dn: "NUL \<notin> set digits" using assms(3) octal_not_NUL by blast
  have c1: "cstr (name @ replicate (124 - length name) NUL @ ?r) = name"
    unfolding k using cstr_append_NUL [OF assms(1)] by simp
  have c2: "cstr ?r = digits" unfolding m using cstr_append_NUL [OF dn] by simp
  have n1: "NUL \<in> set (take 100 (name @ replicate (124 - length name) NUL @ ?r))"
    using assms(2) by (auto simp: take_append)
  have n2: "NUL \<in> set (take 12 ?r)" using assms(4) by auto
  have l: "512 \<le> length (name @ replicate (124 - length name) NUL @ ?r)" using assms(2,4) by simp
  have "?r ! 32 = ty" using assms(4) by (simp add: nth_append)
  then have ty: "(name @ replicate (124 - length name) NUL @ ?r) ! 156 = ty"
    using nth_drop [of 124 "name @ replicate (124 - length name) NUL @ ?r" 32] l unfolding dr by simp
  show ?thesis unfolding header_of_def h using dr c1 c2 n1 n2 ty l assms(3,5) by simp
qed

lemma byte_char_byte [simp]: "byte_char (char_byte c) = c"
proof -
  have "uint (of_char c :: u8) = take_bit 8 (of_char c)"
    using uint_word_of_int_eq [where ?'a = 8, of "of_char c"] by (simp add: of_int_of_char)
  then have "uint (of_char c :: u8) = of_char c" using of_char_bounds [of c] by (simp add: take_bit_eq_mod)
  then show ?thesis by (simp add: byte_char_def char_byte_def)
qed

lemma load8_fold_store8:
  assumes "n \<le> 18446744073709551616" "j < 18446744073709551616"
  shows "load8 (fold (\<lambda>i. store8 (a + of_nat i) (v i)) [0..<n] r) (a + of_nat j) = (if j < n then v j else load8 r (a + of_nat j))"
  using assms
proof (induction n)
  case (Suc n)
  have "(of_nat n :: u64) = of_nat j \<longleftrightarrow> n = j"
    using Suc.prems unat_of_nat64 [of n] unat_of_nat64 [of j] by (metis Suc_le_lessD)
  then show ?case using Suc by (auto simp: load8_store8)
qed simp

lemma load8_store_string:
  "length b \<le> 18446744073709551616 \<Longrightarrow> i < length b \<Longrightarrow> load8 (store_string a b r) (a + of_nat i) = char_byte (b ! i)"
  unfolding store_string_def by (subst load8_fold_store8) simp_all

lemma VA2PA_add: "VA2PA (a + b) = VA2PA a + b"
  by (simp add: VA2PA_def)

lemma archive_store_string:
  assumes "ram s = store_string (VA2PA (tarfs_start s)) b r" "tarfs_end s = tarfs_start s + of_nat (length b)"
    and "length b < 18446744073709551616"
  shows "archive s = b"
proof -
  have "unat (tarfs_end s - tarfs_start s) = length b" using assms(2,3) by (simp add: unat_of_nat64)
  moreover have "byte_char (load8 (ram s) (VA2PA (tarfs_start s + of_nat i))) = b ! i" if "i < length b" for i
    using load8_store_string [of b i "VA2PA (tarfs_start s)" r] that assms(1,3) by (simp add: VA2PA_add)
  ultimately show ?thesis
    by (intro nth_equalityI) (simp_all add: archive_def byte_char_def)
qed

text \<open>A directory \<open>bin/\<close> and a file \<open>bin/sh\<close> of five bytes.\<close>

definition example_tar :: string where
  "example_tar = ustar_header ''bin/'' ''0'' CHR ''5'' @ ustar_header ''bin/sh'' ''5'' CHR ''0'' @ ''hello'' @ replicate 507 NUL"

definition example_entries :: "tar_entry list" where
  "example_entries = [\<lparr>e_name = ''bin/'', e_dir = True, e_size = 0\<rparr>, \<lparr>e_name = ''bin/sh'', e_dir = False, e_size = 5\<rparr>]"

lemma length_ustar_header: "length name \<le> 124 \<Longrightarrow> length digits \<le> 32 \<Longrightarrow> length (ustar_header name digits ty) = 512"
  by (simp add: ustar_header_def)

lemma example_tar_at: "tar_at example_tar 0 example_entries" "length example_tar = 1536"
proof -
  let ?d = "ustar_header ''bin/'' ''0'' CHR ''5''" and ?f = "ustar_header ''bin/sh'' ''5'' CHR ''0''"
  let ?rest = "''hello'' @ replicate 507 NUL"
  have l: "length ?d = 512" "length ?f = 512" by (simp_all add: length_ustar_header)
  have o: "octal_digit (CHR ''0'')" "octal_digit (CHR ''5'')" "oct_value ''0'' = 0" "oct_value ''5'' = 5"
    by (simp_all add: octal_digit_def oct_value_def)
  have d: "header_of \<lparr>e_name = ''bin/'', e_dir = True, e_size = 0\<rparr> (?d @ ?f @ ?rest)"
    using header_of_ustar [of "''bin/''" "''0''" "CHR ''5''" "?f @ ?rest"] o by simp
  have f: "header_of \<lparr>e_name = ''bin/sh'', e_dir = False, e_size = 5\<rparr> (?f @ ?rest)"
    using header_of_ustar [of "''bin/sh''" "''5''" "CHR ''0''" "?rest"] o by simp
  have "drop 512 (?d @ ?f @ ?rest) = ?f @ ?rest" using l by simp
  then show "tar_at example_tar 0 example_entries" "length example_tar = 1536"
    using d f l by (simp_all add: example_tar_def example_entries_def entry_length_def round512_def)
qed

definition tar_example :: kernel where
  "tar_example = kernel_example\<lparr>tarfs_start := PA2VA 0x230000, tarfs_end := PA2VA 0x230000 + 1536,
     ram := store_string 0x230000 example_tar (ram kernel_example)\<rparr>"

lemma archive_tar_example: "archive tar_example = example_tar"
  by (rule archive_store_string [where r = "ram kernel_example"])
     (simp_all add: tar_example_def example_tar_at(2) VA2PA_def PA2VA_def)

theorem tarfs_open_by_name_witness:
  "\<exists>f u. tarfs_open 0 (c_lit ''/bin/sh'') (c_lit ''r'') tar_example = Inr (Result 3 u) \<and>
     current_file 3 u = Inr f \<and> f_start_addr f = PA2VA 0x230000 + 1024 \<and> f_size f = 512"
proof -
  let ?t = "zero_task\<lparr>t_mm := 0x2000, pid := 1, t_state := ACTIVE\<rparr>"
  have at: "tar_at (archive tar_example) 0 example_entries" using example_tar_at(1) by (simp only: archive_tar_example)
  have t: "task_heap tar_example (current tar_example) = Some ?t" "current tar_example \<noteq> 0"
    by (simp_all add: tar_example_def kernel_example_def)
  have fd: "free_fd ?t = Some 3"
    by (simp add: free_fd_def find_upt_Some zero_task_def zero_file_def)
  have find: "List.find (selects (=) ''bin/sh'') (offsets 0 example_entries) = Some (512, \<lparr>e_name = ''bin/sh'', e_dir = False, e_size = 5\<rparr>)"
    by (simp add: example_entries_def selects_def with_slash_def entry_length_def)
  have n: "''bin/sh'' = dropWhile (\<lambda>c. c = CHR ''/'') (cstr (c_lit ''/bin/sh''))" by simp
  from tarfs_open_by_name [OF at _ _ n _ _ t(2,1) _ _ fd, of 0] find
  obtain f where f: "opened tar_example ''bin/sh'' (512, \<lparr>e_name = ''bin/sh'', e_dir = False, e_size = 5\<rparr>) (file_array ?t ! 3) f"
    and u: "tarfs_open 0 (c_lit ''/bin/sh'') (c_lit ''r'') tar_example = Inr (Result 3
      (tar_example\<lparr>task_heap := (task_heap tar_example)(current tar_example \<mapsto> ?t\<lparr>file_array := (file_array ?t)[3 := f]\<rparr>)\<rparr>))"
    by (auto simp: zero_task_def zero_file_def file_ok_def)
  have "f_start_addr f = PA2VA 0x230000 + 1024" "f_size f = 512"
    using f by (simp_all add: opened_def tar_example_def round512_def)
  moreover have "length (file_array ?t) = 20" by (simp add: zero_task_def)
  ultimately show ?thesis using u t(2) by (auto simp: current_file_def)
qed

end
