(* ===== verification/UserCopy.thy ===== *)
theory UserCopy
  imports AddressSpace TarArchive
begin

text \<open>
  Copying kernel data to a user buffer and what \<open>read\<close> delivers. The buffer lies in one page of
  an anonymous area: \<open>copy_from_kernel\<close> maps the page if need be and then writes through the page
  tables, which its own writes do not touch.
\<close>

section \<open>Addresses in one page\<close>

lemma idx_page: "idx k va = unat va div 4096 div 2 ^ (9 * k) mod 512"
proof -
  have "(2 :: nat) ^ (12 + 9 * k) = 4096 * 2 ^ (9 * k)" by (simp add: power_add)
  then show ?thesis by (simp add: idx_def div_mult2_eq)
qed

lemma same_page:
  assumes "unat va < 140737488355328" "unat va mod 4096 + i < 4096"
  shows "path (va + of_nat i) = path va" "unat (va + of_nat i) mod 4096 = unat va mod 4096 + i"
    "unat (va + of_nat i) < 140737488355328"
proof -
  have i: "unat (of_nat i :: u64) = i" using assms by (intro unat_of_nat64) simp
  have u: "unat (va + of_nat i) = unat va + i" using assms i by (subst unat_add64) simp_all
  obtain q o' where q: "unat va = 4096 * q + o'" "o' < 4096" "unat va div 4096 = q" "unat va mod 4096 = o'"
    using mult_div_mod_eq [of 4096 "unat va"] by (metis mod_less_divisor zero_less_numeral)
  have d: "(unat va + i) div 4096 = unat va div 4096"
    using assms(2) unfolding q(3,4) by (simp add: q(1) add.assoc)
  then show "path (va + of_nat i) = path va" unfolding path_def idx_page u by simp
  show "unat (va + of_nat i) mod 4096 = unat va mod 4096 + i"
    using assms(2) unfolding u q(4) by (simp add: q(1) add.assoc)
  have "unat va div 4096 < 34359738368" using assms(1) by (simp add: less_mult_imp_div_less)
  then have "(unat va + i) div 4096 < 34359738368" using d by simp
  then show "unat (va + of_nat i) < 140737488355328" unfolding u by simp
qed

section \<open>Writing to a mapped page\<close>

definition same_outside :: "nat \<Rightarrow> ram \<Rightarrow> ram \<Rightarrow> bool" where
  "same_outside g r r' \<longleftrightarrow> (\<forall>a. load8 r' a \<noteq> load8 r a \<longrightarrow> (\<exists>k<4096. a = frame_pa g + of_nat k))"

lemma same_outside_word:
  assumes "same_outside g r r'" "x \<noteq> g" "small_frame x" "small_frame g" "i < 512"
  shows "frame_word r' x i = frame_word r x i"
proof (rule frame_word_eqI [OF assms(3,3,5)])
  fix k :: nat assume k: "k < 4096"
  show "load8 r' (frame_pa x + of_nat k) = load8 r (frame_pa x + of_nat k)"
  proof (rule ccontr)
    assume "\<not> ?thesis"
    then obtain j where j: "j < 4096" "frame_pa x + of_nat k = frame_pa g + of_nat j"
      using assms(1) unfolding same_outside_def by blast
    have "unat (frame_pa g + of_nat j - frame_pa g) < 4096" using j(1) by (simp add: unat_of_nat64)
    then have "unat (frame_pa x + of_nat k - frame_pa g) < 4096" using j(2) by simp
    then show False using frame_byte_offset [OF assms(4,3) k] assms(2) by simp
  qed
qed

text \<open>A mapped page is not one of the page tables, so writing to it changes no translation.\<close>

lemma same_outside_walk:
  assumes wf: "pt_wf s f" and p: "upath p" "length p = 4" "walk_frame (ram s) f p = Some g"
    and so: "same_outside g (ram s) r" and q: "upath q"
  shows "walk_frame r f q = walk_frame (ram s) f q"
proof (rule walk_frame_cong)
  fix a i b x assume x: "q = a @ i # b" "walk_frame (ram s) f a = Some x"
  have a: "upath a" "length a \<le> 3" "i < 512" using q x(1) upath_prefix [of a "i # b"] by (auto simp: upath_def)
  have "x \<noteq> g" using pt_wfD(3) [OF wf a(1) p(1) x(2)] p(2,3) a(2) by auto
  moreover have "small_frame x" "small_frame g"
    using pt_wfD(1) [OF wf a(1) x(2)] pt_wfD(1) [OF wf p(1,3)] small_frame_of by auto
  ultimately show "frame_word r x i = frame_word (ram s) x i" using same_outside_word [OF so] a(3) by simp
qed

lemma same_outside_wf:
  assumes wf: "pt_wf s f" and p: "upath p" "length p = 4" "walk_frame (ram s) f p = Some g"
    and so: "same_outside g (ram s) r"
  shows "pt_wf (s\<lparr>ram := r\<rparr>) f"
proof -
  note walks = same_outside_walk [OF wf p so]
  have word: "frame_word r x i = frame_word (ram s) x i" if "upath (q @ [i])" "walk_frame (ram s) f q = Some x" for q i x
  proof (rule same_outside_word [OF so])
    have q: "upath q" "length q \<le> 3" "i < 512"
      using that(1) upath_prefix [OF that(1)] upath_snoc_less [OF that(1)] by (simp_all add: upath_def)
    then show "i < 512" by simp
    show "x \<noteq> g" using pt_wfD(3) [OF wf q(1) p(1) that(2)] p(2,3) q(2) by auto
    show "small_frame x" "small_frame g"
      using pt_wfD(1) [OF wf q(1) that(2)] pt_wfD(1) [OF wf p(1,3)] small_frame_of by auto
  qed
  show ?thesis unfolding pt_wf_def
  proof (intro conjI allI impI)
    fix q h assume "upath q" "walk_frame (ram (s\<lparr>ram := r\<rparr>)) f q = Some h"
    then show "h < PAGE_ARRAY_SIZE" "page_ref (s\<lparr>ram := r\<rparr>) h \<noteq> 0" using pt_wfD(1,2) [OF wf] walks by simp_all
  next
    fix q q' h assume "upath q" "upath q'" "walk_frame (ram (s\<lparr>ram := r\<rparr>)) f q = Some h" "walk_frame (ram (s\<lparr>ram := r\<rparr>)) f q' = Some h"
    then show "q = q'" using pt_wfD(3) [OF wf] walks by simp
  next
    fix q i h assume q: "upath (q @ [i])" "walk_frame (ram (s\<lparr>ram := r\<rparr>)) f q = Some h" "frame_word (ram (s\<lparr>ram := r\<rparr>)) h i \<noteq> 0"
    then have "walk_frame (ram s) f q = Some h" using walks upath_prefix by simp
    then show "present (frame_word (ram (s\<lparr>ram := r\<rparr>)) h i)" "unat (frame_word (ram (s\<lparr>ram := r\<rparr>)) h i) < 4503599627370496"
      using pt_wfD(4) [OF wf q(1)] word [OF q(1)] q(3) by simp_all
  qed
qed

lemma ent_frame_pa: "f < PAGE_ARRAY_SIZE \<Longrightarrow> ent_frame (frame_pa f) = f"
  using ent_frame_or [of f 0] by simp

lemma walk_page:
  assumes "pt_wf s f" "cr3 s = frame_pa f" "walk_frame r f (path va) = Some g"
  shows "walk r (cr3 s) va = Some (frame_pa g + of_nat (unat va mod 4096))"
proof -
  have "f < PAGE_ARRAY_SIZE" using pt_wfD(1) [OF assms(1) upath_Nil] by simp
  then show ?thesis using assms(2,3) by (simp add: walk_def ent_frame_pa)
qed

text \<open>
  The copy loop into page \<open>g\<close>, from a source that does not look at that page.
\<close>

definition reads_outside :: "nat \<Rightarrow> ram \<Rightarrow> (nat \<Rightarrow> 'a kernel_scheme \<Rightarrow> fault + u8) \<Rightarrow> nat \<Rightarrow> (nat \<Rightarrow> u8) \<Rightarrow> 'a kernel_scheme \<Rightarrow> bool" where
  "reads_outside g r src n b s \<longleftrightarrow> (\<forall>i<n. \<forall>r'. same_outside g r r' \<longrightarrow> src i (s\<lparr>ram := r'\<rparr>) = Inr (b i))"

lemma copy_loop:
  fixes s :: "'a kernel_scheme"
  assumes wf: "pt_wf s f" "cr3 s = frame_pa f" and va: "unat va < 140737488355328" "walk_frame (ram s) f (path va) = Some g"
    and n: "unat va mod 4096 + n \<le> 4096" and src: "reads_outside g (ram s) src n b s"
  defines "pa \<equiv> frame_pa g + of_nat (unat va mod 4096)"
  shows "\<exists>r. rfold (\<lambda>i s. rbind (src i s) (\<lambda>c. vstore8 (va + of_nat i) c s)) [0..<n] s = Inr (s\<lparr>ram := r\<rparr>) \<and>
    same_outside g (ram s) r \<and> (\<forall>a. load8 r a = (if unat (a - pa) < n then b (unat (a - pa)) else load8 (ram s) a))"
  using n src
proof (induction n)
  case 0
  have "s = s\<lparr>ram := ram s\<rparr>" by simp
  then show ?case by (intro exI [of _ "ram s"]) (simp add: same_outside_def)
next
  case (Suc n)
  have n: "unat va mod 4096 + n < 4096" using Suc.prems(1) by simp
  have "reads_outside g (ram s) src n b s" using Suc.prems(2) by (simp add: reads_outside_def)
  then obtain r where r: "rfold (\<lambda>i s. rbind (src i s) (\<lambda>c. vstore8 (va + of_nat i) c s)) [0..<n] s = Inr (s\<lparr>ram := r\<rparr>)"
    "same_outside g (ram s) r" "\<And>a. load8 r a = (if unat (a - pa) < n then b (unat (a - pa)) else load8 (ram s) a)"
    using Suc.IH n by auto
  let ?r = "store8 (pa + of_nat n) (b n) r"
  note pg = same_page [OF va(1) n]
  have "walk_frame r f (path va) = Some g"
    using same_outside_walk [OF wf(1) upath_path [OF va(1)] _ va(2) r(2) upath_path [OF va(1)]] va(2) by (simp add: path_def)
  then have "walk r (cr3 s) (va + of_nat n) = Some (pa + of_nat n)"
    using walk_page [OF wf, of r "va + of_nat n" g] pg by (simp add: pa_def add.assoc)
  moreover have "src n (s\<lparr>ram := r\<rparr>) = Inr (b n)" using Suc.prems(2) r(2) by (simp add: reads_outside_def)
  ultimately have run: "rfold (\<lambda>i s. rbind (src i s) (\<lambda>c. vstore8 (va + of_nat i) c s)) [0..<Suc n] s = Inr (s\<lparr>ram := ?r\<rparr>)"
    using r(1) by (simp add: vstore8_def)
  have addr: "pa + of_nat n = frame_pa g + of_nat (unat va mod 4096 + n)" by (simp add: pa_def add.assoc)
  have "load8 ?r a \<noteq> load8 (ram s) a \<Longrightarrow> \<exists>k<4096. a = frame_pa g + of_nat k" for a
    using r(2) n addr unfolding same_outside_def by (auto simp: load8_store8 split: if_splits)
  then have "same_outside g (ram s) ?r" by (simp add: same_outside_def)
  moreover have "load8 ?r a = (if unat (a - pa) < Suc n then b (unat (a - pa)) else load8 (ram s) a)" for a
  proof (cases "a = pa + of_nat n")
    case True
    then show ?thesis using n by (simp add: load8_store8 unat_of_nat64)
  next
    case False
    have "unat (a - pa) \<noteq> n"
    proof
      assume "unat (a - pa) = n"
      then have "a - pa = of_nat n" by (metis of_nat_unat ucast_id)
      then show False using False by (metis add.commute diff_add_cancel)
    qed
    then show ?thesis using False r(3) [of a] by (auto simp: load8_store8)
  qed
  ultimately show ?case using run by blast
qed

section \<open>Copying to a page of an anonymous area\<close>

lemma frame_byte:
  assumes "small_frame x" "k < 4096" "\<And>i. i < 512 \<Longrightarrow> frame_word r' x i = frame_word r x i"
  shows "load8 r' (frame_pa x + of_nat k) = load8 r (frame_pa x + of_nat k)"
proof -
  let ?a = "frame_pa x + of_nat k"
  have u: "unat ?a = 4096 * x + k" using assms(1,2) by (simp add: u64_unat unat_frame_pa small_frame_def)
  have "unat (entry_pa x (k div 8)) = 4096 * x + 8 * (k div 8)" using assms(1,2) by (simp add: unat_entry_pa)
  then have "drop_bit 3 ?a = drop_bit 3 (entry_pa x (k div 8))" unfolding qword_eq_iff u by simp
  moreover have "k div 8 < 512" using assms(2) by simp
  ultimately show ?thesis using assms(3) [of "k div 8"] by (simp add: load8_def frame_word_def load64_def)
qed

text \<open>
  \<open>apart s f a\<close>: the byte at physical address \<open>a\<close> is in a frame that is in use and neither a page
  of the address space \<open>f\<close> nor one of its tables. \<open>user_buffer s f va n\<close>: the running process
  has the address space in frame \<open>f\<close>, and the \<open>n\<close> bytes from \<open>va\<close> lie in one page of an area of
  it that is not backed by a file; four frames are free.
\<close>

definition apart :: "'a phymem_scheme \<Rightarrow> nat \<Rightarrow> u64 \<Rightarrow> bool" where
  "apart s f a \<longleftrightarrow> (\<exists>x k. x < PAGE_ARRAY_SIZE \<and> page_ref s x \<noteq> 0 \<and>
     (\<forall>q. upath q \<longrightarrow> walk_frame (ram s) f q \<noteq> Some x) \<and> k < 4096 \<and> a = frame_pa x + of_nat k)"

definition user_buffer :: "'a kernel_scheme \<Rightarrow> nat \<Rightarrow> u64 \<Rightarrow> nat \<Rightarrow> bool" where
  "user_buffer s f va n \<longleftrightarrow>
     (\<exists>t m vma v. current s \<noteq> 0 \<and> task_heap s (current s) = Some t \<and> deref (mm_heap s) (t_mm t) = Inr m \<and>
        mm_pgd m = PA2VA (frame_pa f) \<and> search_vma va (t_mm t) s = Inr vma \<and> vma \<noteq> 0 \<and>
        vma_heap s vma = Some v \<and> vm_file v = None) \<and>
     cr3 s = frame_pa f \<and> pt_wf s f \<and> unat va < 140737488355328 \<and> unat va mod 4096 + n \<le> 4096 \<and>
     4 \<le> card (free_frames s)"

lemma apart_demand:
  assumes "demand_zero s t f va" "apart s f a"
  shows "load8 (ram t) a = load8 (ram s) a"
proof -
  obtain x k where x: "x < PAGE_ARRAY_SIZE" "page_ref s x \<noteq> 0" "\<And>q. upath q \<Longrightarrow> walk_frame (ram s) f q \<noteq> Some x"
    "k < 4096" "a = frame_pa x + of_nat k" using assms(2) unfolding apart_def by blast
  have "\<not> table s f x" using x(3) by (auto simp: table_def)
  then have "frame_word (ram t) x i = frame_word (ram s) x i" if "i < 512" for i
    using assms(1) that x(1,2) unfolding demand_zero_def by blast
  then show ?thesis unfolding x(5) by (rule frame_byte [OF small_frame_of [OF x(1)] x(4)])
qed

lemma apart_frameD:
  assumes "apart s f (frame_pa g + of_nat k)" "k < 4096" "g < PAGE_ARRAY_SIZE"
  shows "page_ref s g \<noteq> 0" "upath q \<Longrightarrow> walk_frame (ram s) f q \<noteq> Some g"
proof -
  obtain x j where x: "x < PAGE_ARRAY_SIZE" "page_ref s x \<noteq> 0" "\<And>q. upath q \<Longrightarrow> walk_frame (ram s) f q \<noteq> Some x"
    "j < 4096" "frame_pa g + of_nat k = frame_pa x + of_nat j" using assms(1) unfolding apart_def by blast
  have "unat (frame_pa x + of_nat j - frame_pa x) < 4096" using x(4) by (simp add: unat_of_nat64)
  then have "unat (frame_pa g + of_nat k - frame_pa x) < 4096" by (simp only: x(5))
  then have "x = g" using frame_byte_offset [OF small_frame_of [OF x(1)] small_frame_of [OF assms(3)] assms(2)] by simp
  then show "page_ref s g \<noteq> 0" "upath q \<Longrightarrow> walk_frame (ram s) f q \<noteq> Some g" using x(2,3) by simp_all
qed

lemma apart_page:
  assumes "demand_zero s t f va" "walk_frame (ram t) f (path va) = Some g" "apart s f a" "unat va < 140737488355328"
    and "k < 4096" "g < PAGE_ARRAY_SIZE"
  shows "a \<noteq> frame_pa g + of_nat k"
proof
  assume "a = frame_pa g + of_nat k"
  then have "apart s f (frame_pa g + of_nat k)" using assms(3) by simp
  from apart_frameD [OF this assms(5,6)] show False
    using assms(1,2) upath_path [OF assms(4)] unfolding demand_zero_def by (auto split: option.splits)
qed

text \<open>Writing to bytes apart from an address space is not seen through its addresses.\<close>

lemma apart_changes:
  assumes wf: "pt_wf t f" and ch: "\<And>a. load8 r a \<noteq> load8 (ram t) a \<Longrightarrow> apart t f a" and q: "upath q"
  shows "walk_frame r f q = walk_frame (ram t) f q"
proof (rule walk_frame_cong)
  fix a i b x assume x: "q = a @ i # b" "walk_frame (ram t) f a = Some x"
  have a: "upath a" "i < 512" using q x(1) upath_prefix [of a "i # b"] by (auto simp: upath_def)
  have xs: "x < PAGE_ARRAY_SIZE" by (rule pt_wfD(1) [OF wf a(1) x(2)])
  show "frame_word r x i = frame_word (ram t) x i"
  proof (rule frame_word_eqI [OF small_frame_of [OF xs] small_frame_of [OF xs] a(2)])
    fix k :: nat assume k: "k < 4096"
    show "load8 r (frame_pa x + of_nat k) = load8 (ram t) (frame_pa x + of_nat k)"
      using ch apart_frameD(2) [OF _ k xs a(1)] x(2) by blast
  qed
qed

lemma vload8_apart:
  assumes wf: "pt_wf t f" "cr3 t = frame_pa f" and ch: "\<And>a. load8 r a \<noteq> load8 (ram t) a \<Longrightarrow> apart t f a"
    and va: "unat va < 140737488355328"
  shows "vload8 va (t\<lparr>ram := r\<rparr>) = vload8 va t"
proof -
  have f: "ent_frame (cr3 t) = f" using pt_wfD(1) [OF wf(1) upath_Nil, of f] wf(2) ent_frame_pa by simp
  have w: "walk_frame r f (path va) = walk_frame (ram t) f (path va)"
    by (rule apart_changes [OF wf(1) ch upath_path [OF va]])
  show ?thesis
  proof (cases "walk_frame (ram t) f (path va)")
    case None
    then show ?thesis using w f by (simp add: vload8_def walk_def)
  next
    case (Some g)
    have "load8 r (frame_pa g + of_nat (unat va mod 4096)) = load8 (ram t) (frame_pa g + of_nat (unat va mod 4096))"
      using ch apart_frameD(2) [OF _ _ pt_wfD(1) [OF wf(1) upath_path [OF va] Some], of t f "unat va mod 4096"]
        upath_path [OF va] Some by (metis mod_less_divisor zero_less_numeral)
    then show ?thesis using w f Some by (simp add: vload8_def walk_def)
  qed
qed

text \<open>The addresses of a page, and what a process sees of its memory after a page has been added on demand.\<close>

lemma path_page:
  assumes "unat a < 140737488355328" "unat b < 140737488355328" "path a = path b"
  shows "unat a div 4096 = unat b div 4096"
proof -
  have i: "unat a div 4096 mod 512 = unat b div 4096 mod 512" "unat a div 2097152 mod 512 = unat b div 2097152 mod 512"
    "unat a div 1073741824 mod 512 = unat b div 1073741824 mod 512" "unat a div 549755813888 mod 512 = unat b div 549755813888 mod 512"
    using assms(3) by (simp_all add: path_def idx_levels del: One_nat_def)
  have d: "unat c div 2097152 = unat c div 4096 div 512" "unat c div 1073741824 = unat c div 4096 div 512 div 512"
    "unat c div 549755813888 = unat c div 4096 div 512 div 512 div 512" for c :: u64 by (simp_all add: div_mult2_eq [symmetric])
  have s: "unat c div 4096 div 512 div 512 div 512 < 512" if "unat c < 140737488355328" for c :: u64
    using that by (simp add: div_mult2_eq [symmetric] less_mult_imp_div_less)
  have up: "x = y" if "x mod 512 = y mod 512" "x div 512 = y div 512" for x y :: nat
    using that div_mult_mod_eq [of x 512] div_mult_mod_eq [of y 512] by linarith
  have 3: "unat a div 4096 div 512 div 512 div 512 = unat b div 4096 div 512 div 512 div 512"
    using i(4) s [OF assms(1)] s [OF assms(2)] unfolding d(3) by (simp only: mod_less)
  have 2: "unat a div 4096 div 512 div 512 = unat b div 4096 div 512 div 512" by (rule up [OF i(3) [unfolded d(2)] 3])
  have 1: "unat a div 4096 div 512 = unat b div 4096 div 512" by (rule up [OF i(2) [unfolded d(1)] 2])
  show ?thesis by (rule up [OF i(1) 1])
qed

lemma page_not_table:
  assumes "pt_wf s f" "upath q" "length q = 4" "walk_frame (ram s) f q = Some h"
  shows "\<not> table s f h"
proof
  assume "table s f h"
  then obtain p where "upath p" "length p \<le> 3" "walk_frame (ram s) f p = Some h" by (auto simp: table_def)
  with pt_wfD(3) [OF assms(1) this(1) assms(2) this(3) assms(4)] assms(3) show False by simp
qed

lemma demand_vload:
  assumes d: "demand_zero s t f va" and wf: "pt_wf s f" "cr3 s = frame_pa f" "cr3 t = cr3 s" and a: "unat a < 140737488355328"
  shows "vload8 a t = vload8 a s \<or> path a = path va \<and> walk_frame (ram s) f (path va) = None \<and> vload8 a t = Inr 0"
proof -
  have wt: "pt_wf t f" using d by (simp add: demand_zero_def)
  have "length (path a) = 4" by (simp add: path_def)
  then have other: "walk_frame (ram t) f (path a) = walk_frame (ram s) f (path a)" if "path a \<noteq> path va"
    using d that upath_path [OF a] unfolding demand_zero_def by blast
  have fs: "ent_frame (cr3 s) = f" using pt_wfD(1) [OF wf(1) upath_Nil, of f] wf(2) ent_frame_pa by simp
  show ?thesis
  proof (cases "walk_frame (ram s) f (path a)")
    case (Some h)
    have g: "h < PAGE_ARRAY_SIZE" "page_ref s h \<noteq> 0" using pt_wfD(1,2) [OF wf(1) upath_path [OF a] Some] by simp_all
    have "\<not> table s f h" by (rule page_not_table [OF wf(1) upath_path [OF a] _ Some]) (simp add: path_def)
    then have "frame_word (ram t) h i = frame_word (ram s) h i" if "i < 512" for i using d g that unfolding demand_zero_def by blast
    from frame_byte [OF small_frame_of [OF g(1)] _ this, of "unat a mod 4096"]
    have "load8 (ram t) (frame_pa h + of_nat (unat a mod 4096)) = load8 (ram s) (frame_pa h + of_nat (unat a mod 4096))" by simp
    moreover have "walk_frame (ram t) f (path a) = Some h" using other Some d by (cases "path a = path va") (auto simp: demand_zero_def)
    ultimately show ?thesis using Some fs wf(3) by (simp add: vload8_def walk_def)
  next
    case None
    show ?thesis
    proof (cases "path a = path va")
      case True
      then obtain h where h: "walk_frame (ram t) f (path a) = Some h" "\<And>i. i < 512 \<Longrightarrow> frame_word (ram t) h i = 0"
        using d None by (auto simp: demand_zero_def)
      have "h < PAGE_ARRAY_SIZE" by (rule pt_wfD(1) [OF wt upath_path [OF a] h(1)])
      then have "load8 (ram t) (frame_pa h + of_nat (unat a mod 4096)) = load8 (\<lambda>_. 0) (frame_pa h + of_nat (unat a mod 4096))"
        by (intro frame_byte small_frame_of) (use h(2) in \<open>simp_all add: frame_word_def load64_def\<close>)
      then show ?thesis using True None h(1) fs wf(3) by (simp add: vload8_def walk_def load8_zero)
    next
      case False
      then show ?thesis using other None fs wf(3) by (simp add: vload8_def walk_def)
    qed
  qed
qed

text \<open>The copy loop changes what is read at the addresses of the buffer only.\<close>

lemma copied_elsewhere:
  assumes wf: "pt_wf s f" "cr3 s = frame_pa f" and va: "unat va < 140737488355328" "walk_frame (ram s) f (path va) = Some g"
    and n: "unat va mod 4096 + n \<le> 4096" and so: "same_outside g (ram s) r"
    and ld: "\<And>a. \<not> unat (a - (frame_pa g + of_nat (unat va mod 4096))) < n \<Longrightarrow> load8 r a = load8 (ram s) a"
    and a: "unat a < 140737488355328" "\<forall>i<n. a \<noteq> va + of_nat i"
  shows "vload8 a (s\<lparr>ram := r\<rparr>) = vload8 a s"
proof -
  have w: "walk_frame r f (path a) = walk_frame (ram s) f (path a)"
    using same_outside_walk [OF wf(1) upath_path [OF va(1)] _ va(2) so upath_path [OF a(1)]] by (simp add: path_def)
  have fs: "ent_frame (cr3 s) = f" using pt_wfD(1) [OF wf(1) upath_Nil, of f] wf(2) ent_frame_pa by simp
  show ?thesis
  proof (cases "walk_frame (ram s) f (path a)")
    case None
    then show ?thesis using w fs by (simp add: vload8_def walk_def)
  next
    case (Some h)
    let ?pa = "frame_pa h + of_nat (unat a mod 4096)"
    note hs = pt_wfD(1) [OF wf(1) upath_path [OF a(1)] Some] pt_wfD(1) [OF wf(1) upath_path [OF va(1)] va(2)]
    have "load8 r ?pa = load8 (ram s) ?pa"
    proof (cases "path a = path va")
      case True
      then have hg: "h = g" using Some va(2) by simp
      have "\<not> unat (?pa - (frame_pa g + of_nat (unat va mod 4096))) < n"
      proof
        let ?d = "unat (?pa - (frame_pa g + of_nat (unat va mod 4096)))"
        assume d: "?d < n"
        have "of_nat (unat a mod 4096) = (of_nat (unat va mod 4096) + of_nat ?d :: u64)" by (simp add: hg)
        then have "unat (of_nat (unat a mod 4096) :: u64) = unat (of_nat (unat va mod 4096 + ?d) :: u64)" by simp
        then have "unat a mod 4096 = unat va mod 4096 + ?d" using d n by (simp add: unat_of_nat64 del: of_nat_add)
        moreover have "unat a div 4096 = unat va div 4096" by (rule path_page [OF a(1) va(1) True])
        ultimately have "unat a = unat va + ?d" using div_mult_mod_eq [of "unat a" 4096] div_mult_mod_eq [of "unat va" 4096] by linarith
        moreover have "unat (va + of_nat ?d) = unat va + ?d" using va(1) d n by (subst unat_add64) (simp_all add: unat_of_nat64)
        ultimately have "a = va + of_nat ?d" by (simp only: u64_eq_iff)
        then show False using a(2) d by blast
      qed
      then show ?thesis by (rule ld)
    next
      case False
      then have "h \<noteq> g" using pt_wfD(3) [OF wf(1) upath_path [OF a(1)] upath_path [OF va(1)]] Some va(2) by blast
      then show ?thesis using same_outside_word [OF so _ small_frame_of [OF hs(1)] small_frame_of [OF hs(2)]]
        by (intro frame_byte [OF small_frame_of [OF hs(1)]]) simp_all
    qed
    then show ?thesis using w Some fs by (simp add: vload8_def walk_def)
  qed
qed

lemma copy_from_kernel_page:
  fixes s :: "'a kernel_scheme"
  assumes buf: "user_buffer s f va n" and src: "\<forall>i<n. apart s f (VA2PA (p + of_nat i))"
  obtains t pr b r where "copy_from_kernel va (kernel_bytes p) (int n) s = Inr (0, t)"
    "t = s\<lparr>page_ref := pr, bitmap := b, ram := r\<rparr>" "pt_wf t f"
    "\<And>i. i < n \<Longrightarrow> vload8 (va + of_nat i) t = Inr (load8 (ram s) (VA2PA (p + of_nat i)))"
    "\<And>a. apart s f a \<Longrightarrow> load8 (ram t) a = load8 (ram s) a"
    "\<And>q. upath q \<Longrightarrow> length q = 4 \<Longrightarrow> q \<noteq> path va \<Longrightarrow> walk_frame (ram t) f q = walk_frame (ram s) f q"
    "\<And>a. apart s f a \<Longrightarrow> apart t f a"
    "\<And>a. unat a < 140737488355328 \<Longrightarrow> \<forall>i<n. a \<noteq> va + of_nat i \<Longrightarrow>
       vload8 a t = vload8 a s \<or> path a = path va \<and> walk_frame (ram s) f (path va) = None \<and> vload8 a t = Inr 0"
    "\<And>x. page_ref s x \<noteq> 0 \<Longrightarrow> page_ref t x = page_ref s x"
proof -
  obtain c m vma v where c: "current s \<noteq> 0" "task_heap s (current s) = Some c" "deref (mm_heap s) (t_mm c) = Inr m"
    "mm_pgd m = PA2VA (frame_pa f)" "search_vma va (t_mm c) s = Inr vma" "vma \<noteq> 0" "vma_heap s vma = Some v" "vm_file v = None"
    and b: "cr3 s = frame_pa f" "pt_wf s f" "unat va < 140737488355328" "unat va mod 4096 + n \<le> 4096" "4 \<le> card (free_frames s)"
    using buf unfolding user_buffer_def by blast
  have "current_mm s = Inr m" using c(1-3) by (simp add: current_mm_def)
  then obtain u pr bm r0 where u: "map_a_page vma va s = Inr u" "demand_zero s u f va" "u = s\<lparr>page_ref := pr, bitmap := bm, ram := r0\<rparr>"
    using map_a_page_demand [OF _ c(4) b(2) c(6-8) b(3,5)] by blast
  have wf: "pt_wf u f" and "\<exists>g. walk_frame (ram u) f (path va) = Some g"
    using u(2) unfolding demand_zero_def by (auto split: option.splits)
  then obtain g where g: "walk_frame (ram u) f (path va) = Some g" by blast
  note up = upath_path [OF b(3)]
  have gs: "g < PAGE_ARRAY_SIZE" by (rule pt_wfD(1) [OF wf up g])
  have cr: "cr3 u = frame_pa f" using u(3) b(1) by simp
  have keep: "load8 r' a = load8 (ram s) a" if "same_outside g (ram u) r'" "apart s f a" for r' a
    using that apart_demand [OF u(2) that(2)] apart_page [OF u(2) g that(2) b(3) _ gs] unfolding same_outside_def by metis
  have "reads_outside g (ram u) (kernel_bytes p) n (\<lambda>i. load8 (ram s) (VA2PA (p + of_nat i))) u"
    using keep src by (simp add: reads_outside_def kernel_bytes_def)
  from copy_loop [OF wf cr b(3) g b(4) this] obtain r where
    r: "rfold (\<lambda>i s. rbind (kernel_bytes p i s) (\<lambda>c. vstore8 (va + of_nat i) c s)) [0..<n] u = Inr (u\<lparr>ram := r\<rparr>)"
      "same_outside g (ram u) r"
      "\<And>a. load8 r a = (if unat (a - (frame_pa g + of_nat (unat va mod 4096))) < n
          then load8 (ram s) (VA2PA (p + of_nat (unat (a - (frame_pa g + of_nat (unat va mod 4096)))))) else load8 (ram u) a)"
    by blast
  let ?t = "u\<lparr>ram := r\<rparr>"
  note walks = same_outside_walk [OF wf up _ g r(2)]
  have 1: "copy_from_kernel va (kernel_bytes p) (int n) s = Inr (0, ?t)"
    using c u(1) r(1) by (simp add: copy_from_kernel_def map_user_page_def)
  have 2: "?t = s\<lparr>page_ref := pr, bitmap := bm, ram := r\<rparr>" using u(3) by simp
  have 3: "pt_wf ?t f" by (rule same_outside_wf [OF wf up _ g r(2)]) (simp add: path_def)
  have 4: "vload8 (va + of_nat i) ?t = Inr (load8 (ram s) (VA2PA (p + of_nat i)))" if "i < n" for i
  proof -
    have i: "unat va mod 4096 + i < 4096" "i < 4096" using that b(4) by simp_all
    note pg = same_page [OF b(3) i(1)]
    have "walk_frame r f (path (va + of_nat i)) = Some g" unfolding pg(1) using walks [OF _ up] g by (simp add: path_def)
    then have "walk r (cr3 ?t) (va + of_nat i) = Some (frame_pa g + of_nat (unat va mod 4096) + of_nat i)"
      using walk_page [OF wf cr, of r "va + of_nat i" g] pg by (simp add: add.assoc)
    then show ?thesis using r(3) that i(2) by (simp add: vload8_def unat_of_nat64)
  qed
  have 5: "load8 (ram ?t) a = load8 (ram s) a" if "apart s f a" for a using keep [OF r(2) that] by simp
  have 6: "walk_frame (ram ?t) f q = walk_frame (ram s) f q" if "upath q" "length q = 4" "q \<noteq> path va" for q
    using walks [of q] that u(2) by (simp add: path_def demand_zero_def)
  have 7: "apart ?t f a" if a: "apart s f a" for a
  proof -
    obtain x k where x: "x < PAGE_ARRAY_SIZE" "page_ref s x \<noteq> 0" "\<And>q. upath q \<Longrightarrow> walk_frame (ram s) f q \<noteq> Some x"
      "k < 4096" "a = frame_pa x + of_nat k" using a unfolding apart_def by blast
    have "page_ref u x \<noteq> 0" using u(2) x(2) by (simp add: demand_zero_def)
    moreover have "walk_frame r f q \<noteq> Some x" if "upath q" for q
      using walks [of q] that u(2) x(2,3) by (auto simp: path_def demand_zero_def)
    ultimately show ?thesis using x(1,4,5) unfolding apart_def by auto
  qed
  have 8: "vload8 a ?t = vload8 a s \<or> path a = path va \<and> walk_frame (ram s) f (path va) = None \<and> vload8 a ?t = Inr 0"
    if "unat a < 140737488355328" "\<forall>i<n. a \<noteq> va + of_nat i" for a
    using copied_elsewhere [OF wf cr b(3) g b(4) r(2) _ that] r(3) demand_vload [OF u(2) b(2,1) _ that(1)] u(3) by simp
  have 9: "page_ref ?t x = page_ref s x" if "page_ref s x \<noteq> 0" for x using u(2) that by (simp add: demand_zero_def)
  from 1 2 3 4 5 6 7 8 9 show thesis by (rule that)
qed

section \<open>read\<close>

lemma set_current_file_eq:
  assumes "current_file fd s = Inr g"
  obtains t c where "set_current_file fd h s = Inr t" "task_heap s (current s) = Some c"
    "t = s\<lparr>task_heap := (task_heap s)(current s \<mapsto> c\<lparr>file_array := (file_array c)[nat fd := h]\<rparr>)\<rparr>" "current_file fd t = Inr h" "ram t = ram s" "page_ref t = page_ref s" "cr3 t = cr3 s"
    "\<And>d. d \<noteq> fd \<Longrightarrow> current_file d t = current_file d s"
proof -
  obtain c where c: "current s \<noteq> 0" "task_heap s (current s) = Some c" "0 \<le> fd" "nat fd < length (file_array c)"
    using assms by (auto simp: current_file_def rbind_eq_Inr split: if_splits)
  let ?t = "s\<lparr>task_heap := (task_heap s)(current s \<mapsto> c\<lparr>file_array := (file_array c)[nat fd := h]\<rparr>)\<rparr>"
  have "set_current_file fd h s = Inr ?t" using c by (simp add: set_current_file_def upd_task_def)
  moreover have "current_file fd ?t = Inr h" using c by (simp add: current_file_def)
  moreover have "current_file d ?t = current_file d s" if "d \<noteq> fd" for d
    using c that by (auto simp: current_file_def nth_list_update)
  ultimately show thesis using c(2) by (intro that [of ?t c]) simp_all
qed

lemma user_buffer_heap:
  assumes "user_buffer s f va n" "task_heap s (current s) = Some c" "t_mm c' = t_mm c"
  shows "user_buffer (s\<lparr>task_heap := (task_heap s)(current s \<mapsto> c')\<rparr>) f va n"
proof -
  let ?t = "s\<lparr>task_heap := (task_heap s)(current s \<mapsto> c')\<rparr>"
  have "search_vma a mm ?t = search_vma a mm s" for a mm by (simp add: search_vma_def)
  moreover have "free_frames ?t = free_frames s" "pt_wf ?t f = pt_wf s f" by (simp_all add: free_frames_def pt_wf_def)
  ultimately show ?thesis using assms unfolding user_buffer_def by auto
qed

lemma vload8_cong: "ram t = ram s \<Longrightarrow> cr3 t = cr3 s \<Longrightarrow> vload8 va t = vload8 va s"
  by (simp add: vload8_def split: option.split)

lemma pt_wf_cong: "ram t = ram s \<Longrightarrow> page_ref t = page_ref s \<Longrightarrow> pt_wf t f = pt_wf s f"
  by (simp add: pt_wf_def)

lemma int_arg_small: "n < 2147483648 \<Longrightarrow> int_arg (of_nat n) = int n"
proof -
  assume n: "n < 2147483648"
  have "unat (of_nat n :: u64) = n" using n by (intro unat_of_nat64) simp
  then have "unat (ucast (of_nat n :: u64) :: u32) = n" using n by (simp add: unsigned_ucast_eq take_bit_nat_eq_self)
  then show ?thesis using n sint_small32 [of "ucast (of_nat n :: u64)"] by (simp add: int_arg_def)
qed

text \<open>The number of bytes \<open>read\<close> is to deliver: as many as asked for, up to the end of the file.\<close>

definition read_count :: "tarfs_file \<Rightarrow> u64 \<Rightarrow> nat" where
  "read_count fl sz = min (unat sz) (unat (f_size fl) - unat (f_pos fl))"

lemma read_count_word:
  assumes "unat (f_pos fl) \<le> unat (f_size fl)" "unat (f_pos fl) + unat sz < 18446744073709551616"
  shows "(if f_pos fl + sz \<le> f_size fl then sz else f_size fl - f_pos fl) = of_nat (read_count fl sz)"
proof -
  have s: "unat (f_pos fl + sz) = unat (f_pos fl) + unat sz" using assms(2) by (simp add: unat_add64)
  have "f_pos fl \<le> f_size fl" using assms(1) by (simp add: word_le_nat_alt)
  then have d: "unat (f_size fl - f_pos fl) = unat (f_size fl) - unat (f_pos fl)" by (rule unat_sub)
  show ?thesis
  proof (cases "f_pos fl + sz \<le> f_size fl")
    case True
    then have "read_count fl sz = unat sz" using s by (simp add: read_count_def word_le_nat_alt)
    then show ?thesis using True by simp
  next
    case False
    then have "read_count fl sz = unat (f_size fl - f_pos fl)" using s d by (simp add: read_count_def word_le_nat_alt)
    then show ?thesis using False by simp
  qed
qed

text \<open>What \<open>read\<close> does to the state when it delivers \<open>n\<close> bytes of the open file \<open>fl\<close> (descriptor
  \<open>fd\<close>) to the buffer \<open>buf\<close> of address space \<open>f\<close>. First what is there afterwards; then that nothing else is different: of the
  kernel's state only the position of the descriptor, the frame allocator and memory; at the process's other addresses the same
  is read as before, or zeros in the rest of the buffer's page if that was not mapped yet; other pages stay mapped to the same
  frames, memory apart from the address space keeps its contents, and frames in use their counts.\<close>

definition delivered :: "int \<Rightarrow> u64 \<Rightarrow> nat \<Rightarrow> nat \<Rightarrow> tarfs_file \<Rightarrow> 'a kernel_scheme \<Rightarrow> 'a kernel_scheme \<Rightarrow> bool" where
  "delivered fd buf n f fl s t \<longleftrightarrow>
     (\<forall>i<n. vload8 (buf + of_nat i) t = Inr (load8 (ram s) (VA2PA (f_start_addr fl + f_pos fl + of_nat i)))) \<and>
     current_file fd t = Inr (fl\<lparr>f_pos := f_pos fl + of_nat n\<rparr>) \<and>
     (\<exists>c pr bm r. task_heap s (current s) = Some c \<and> t = s\<lparr>page_ref := pr, bitmap := bm, ram := r,
        task_heap := (task_heap s)(current s \<mapsto> c\<lparr>file_array := (file_array c)[nat fd := fl\<lparr>f_pos := f_pos fl + of_nat n\<rparr>]\<rparr>)\<rparr>) \<and>
     (\<forall>a. unat a < 140737488355328 \<longrightarrow> (\<forall>i<n. a \<noteq> buf + of_nat i) \<longrightarrow> vload8 a t = vload8 a s \<or>
        path a = path buf \<and> walk_frame (ram s) f (path buf) = None \<and> vload8 a t = Inr 0) \<and>
     (\<forall>x. page_ref s x \<noteq> 0 \<longrightarrow> page_ref t x = page_ref s x) \<and>
     (\<forall>d. d \<noteq> fd \<longrightarrow> current_file d t = current_file d s) \<and>
     pt_wf t f \<and> (\<forall>a. apart s f a \<longrightarrow> load8 (ram t) a = load8 (ram s) a) \<and>
     (\<forall>q. upath q \<longrightarrow> length q = 4 \<longrightarrow> q \<noteq> path buf \<longrightarrow> walk_frame (ram t) f q = walk_frame (ram s) f q)"

lemma read_file_reads:
  fixes s :: "'a kernel_scheme"
  assumes "current_file fd s = Inr fl" "f_type fl = FT_FILE"
    and "unat (f_pos fl) \<le> unat (f_size fl)" "unat (f_pos fl) + unat sz < 18446744073709551616"
    and "user_buffer s f buf (read_count fl sz)"
    and "\<forall>i<read_count fl sz. apart s f (VA2PA (f_start_addr fl + f_pos fl + of_nat i))"
  shows "\<exists>t. read_file fd buf sz s = Inr (of_nat (read_count fl sz), t) \<and> delivered fd buf (read_count fl sz) f fl s t"
proof (cases "f_pos fl = f_size fl")
  case True
  then have 0: "read_count fl sz = 0" by (simp add: read_count_def)
  have "pt_wf s f" using assms(5) by (simp add: user_buffer_def)
  moreover have "\<exists>c pr bm r. task_heap s (current s) = Some c \<and> s = s\<lparr>page_ref := pr, bitmap := bm, ram := r,
      task_heap := (task_heap s)(current s \<mapsto> c\<lparr>file_array := (file_array c)[nat fd := fl]\<rparr>)\<rparr>"
  proof -
    obtain c where c: "task_heap s (current s) = Some c" "nat fd < length (file_array c)" "file_array c ! nat fd = fl"
      using assms(1) by (auto simp: current_file_def rbind_eq_Inr split: if_splits)
    have "(file_array c)[nat fd := fl] = file_array c" using c(3) by auto
    then have "c\<lparr>file_array := (file_array c)[nat fd := fl]\<rparr> = c" by simp
    moreover have "(task_heap s)(current s \<mapsto> c) = task_heap s" using c(1) by (simp add: fun_upd_idem)
    ultimately show ?thesis using c(1)
      by (intro exI [of _ c] exI [of _ "page_ref s"] exI [of _ "bitmap s"] exI [of _ "ram s"]) simp
  qed
  ultimately have "delivered fd buf 0 f fl s s" using assms(1) by (simp add: delivered_def)
  then show ?thesis using True assms(1,2) 0 by (simp add: read_file_def check_def)
next
  case False
  let ?n = "read_count fl sz"
  have n: "?n \<le> 4096" using assms(5) by (simp add: user_buffer_def)
  have arg: "int_arg (of_nat ?n) = int ?n" using n by (intro int_arg_small) simp
  obtain u pr b r where u: "copy_from_kernel buf (kernel_bytes (f_start_addr fl + f_pos fl)) (int ?n) s = Inr (0, u)"
    "u = s\<lparr>page_ref := pr, bitmap := b, ram := r\<rparr>" "pt_wf u f"
    "\<And>i. i < ?n \<Longrightarrow> vload8 (buf + of_nat i) u = Inr (load8 (ram s) (VA2PA (f_start_addr fl + f_pos fl + of_nat i)))"
    "\<And>a. apart s f a \<Longrightarrow> load8 (ram u) a = load8 (ram s) a"
    "\<And>q. upath q \<Longrightarrow> length q = 4 \<Longrightarrow> q \<noteq> path buf \<Longrightarrow> walk_frame (ram u) f q = walk_frame (ram s) f q"
    "\<And>a. unat a < 140737488355328 \<Longrightarrow> \<forall>i<?n. a \<noteq> buf + of_nat i \<Longrightarrow>
       vload8 a u = vload8 a s \<or> path a = path buf \<and> walk_frame (ram s) f (path buf) = None \<and> vload8 a u = Inr 0"
    "\<And>x. page_ref s x \<noteq> 0 \<Longrightarrow> page_ref u x = page_ref s x"
    by (rule copy_from_kernel_page [OF assms(5,6)]) (rule that)
  have cur: "current_file d u = current_file d s" for d using u(2) by (simp add: current_file_def)
  have cf: "current_file fd u = Inr fl" using assms(1) cur by simp
  obtain t c where t: "set_current_file fd (fl\<lparr>f_pos := f_pos fl + of_nat ?n\<rparr>) u = Inr t"
    "current_file fd t = Inr (fl\<lparr>f_pos := f_pos fl + of_nat ?n\<rparr>)" "ram t = ram u" "page_ref t = page_ref u" "cr3 t = cr3 u"
    "\<And>d. d \<noteq> fd \<Longrightarrow> current_file d t = current_file d u" and tc: "task_heap u (current u) = Some c"
      "t = u\<lparr>task_heap := (task_heap u)(current u \<mapsto> c\<lparr>file_array := (file_array c)[nat fd := fl\<lparr>f_pos := f_pos fl + of_nat ?n\<rparr>]\<rparr>)\<rparr>"
    by (rule set_current_file_eq [OF cf]) (rule that)
  have "read_file fd buf sz s = Inr (of_nat ?n, t)"
    using assms(1,2) False u(1) t(1) cf by (simp add: read_file_def Let_def check_def read_count_word [OF assms(3,4)] arg
        split del: if_split cong del: if_weak_cong)
  moreover have "\<exists>c pr bm r. task_heap s (current s) = Some c \<and> t = s\<lparr>page_ref := pr, bitmap := bm, ram := r,
      task_heap := (task_heap s)(current s \<mapsto> c\<lparr>file_array := (file_array c)[nat fd := fl\<lparr>f_pos := f_pos fl + of_nat ?n\<rparr>]\<rparr>)\<rparr>"
    using tc u(2) by (intro exI [of _ c] exI [of _ pr] exI [of _ b] exI [of _ r]) simp
  then have "delivered fd buf ?n f fl s t"
    using u(3-8) t(2,4,6) vload8_cong [OF t(3,5)] pt_wf_cong [OF t(3,4)] t(3) unfolding delivered_def cur by simp
  ultimately show ?thesis by blast
qed

text \<open>
  C9. Reading from an open file into a buffer within one page of an anonymous area: \<open>read\<close>
  returns the number of bytes asked for, cut off at the end of the file; exactly the bytes of the
  file from the current position on are then read back through the buffer's user addresses; the
  position of this descriptor, and of no other, advances by that number. Nothing else changes: the process reads the same
  as before at all its other addresses (zeros in the rest of the buffer's page, if that is mapped only now), the page
  tables stay well-formed, no other page is mapped differently, memory outside the address space, the archive among it, is
  unchanged, frames in use keep their reference counts, and so does every other part of the kernel's state.
\<close>

theorem read_file_delivers:
  fixes s :: "'a kernel_scheme"
  assumes "current_file fd s = Inr fl" "f_type fl = FT_FILE"
    and "unat (f_pos fl) \<le> unat (f_size fl)" "unat (f_pos fl) + unat sz < 18446744073709551616"
    and "user_buffer s f buf (read_count fl sz)"
    and "\<forall>i<read_count fl sz. apart s f (VA2PA (f_start_addr fl + f_pos fl + of_nat i))"
  shows "\<exists>t. read_file fd buf sz s = Inr (of_nat (read_count fl sz), t) \<and> delivered fd buf (read_count fl sz) f fl s t"
  by (rule read_file_reads [OF assms])

text \<open>The file \<open>bin/sh\<close> of the example archive is open under descriptor 3.\<close>

definition sh_file :: tarfs_file where
  "sh_file = zero_file\<lparr>f_free := 1, f_type := FT_FILE, f_start_addr := PA2VA 0x230000 + 1024, f_size := 512\<rparr>"

definition read_example :: kernel where
  "read_example = tar_example\<lparr>task_heap := [0x1000 \<mapsto> zero_task\<lparr>t_mm := 0x2000, pid := 1, t_state := ACTIVE,
     file_array := (replicate MAX_FILE_NUM zero_file)[3 := sh_file]\<rparr>]\<rparr>"

lemma walk_zero_frame:
  assumes "\<And>i. i < 512 \<Longrightarrow> frame_word r f i = 0" "upath p"
  shows "walk_frame r f p = (if p = [] then Some f else None)"
  using assms by (cases p) (auto simp: upath_def Let_def)

lemma load8_store_string_other:
  assumes "length b < 18446744073709551616" "\<And>i. i < length b \<Longrightarrow> a + of_nat i \<noteq> c"
  shows "load8 (store_string a b r) c = load8 r c"
proof -
  have "load8 (fold (\<lambda>i. store8 (a + of_nat i) (char_byte (b ! i))) [0..<n] r) c = load8 r c" if "n \<le> length b" for n
    using that assms(2) by (induction n) (auto simp: load8_store8)
  then show ?thesis by (simp add: store_string_def)
qed

lemma tar_example_ram: "ram tar_example = store_string (frame_pa 560) example_tar (\<lambda>_. 0)"
  by (simp add: tar_example_def kernel_example_def frame_pa_def)

lemma tar_example_table:
  assumes "i < 512"
  shows "frame_word (ram tar_example) 671 i = 0"
proof -
  have "frame_word (ram tar_example) 671 i = frame_word (\<lambda>_. 0) 671 i"
  proof (rule frame_word_eqI [OF _ _ assms])
    fix k :: nat assume k: "k < 4096"
    have "frame_pa 560 + of_nat j \<noteq> frame_pa 671 + of_nat k" if "j < 1536" for j
    proof
      assume "frame_pa 560 + of_nat j = frame_pa 671 + of_nat k"
      moreover have "unat (frame_pa 560 + of_nat j - frame_pa 560) < 4096" using that by (simp add: unat_of_nat64)
      ultimately have "unat (frame_pa 671 + of_nat k - frame_pa 560) < 4096" by (simp only:)
      then show False using frame_byte_offset [of 560 671 k] k by (simp add: small_frame_def)
    qed
    then show "load8 (ram tar_example) (frame_pa 671 + of_nat k) = load8 (\<lambda>_. 0) (frame_pa 671 + of_nat k)"
      unfolding tar_example_ram by (intro load8_store_string_other) (simp_all add: example_tar_at(2))
  qed (simp_all add: small_frame_def)
  then show ?thesis by (simp add: frame_word_def load64_def)
qed

lemma tar_example_walk: "upath p \<Longrightarrow> walk_frame (ram tar_example) 671 p = (if p = [] then Some 671 else None)"
  by (rule walk_zero_frame [OF tar_example_table])

lemma tar_example_refs: "page_ref tar_example = page_ref kernel_example" "page_ref kernel_example 671 = 1"
  by (simp_all add: tar_example_def kernel_example_def)

lemma tar_example_wf: "pt_wf tar_example 671"
  unfolding pt_wf_def
proof (intro conjI allI impI)
  fix p i g assume p: "upath (p @ [i])" "walk_frame (ram tar_example) 671 p = Some g" "frame_word (ram tar_example) g i \<noteq> 0"
  have "g = 671" using p(2) tar_example_walk [OF upath_prefix [OF p(1)]] by (simp split: if_splits)
  then show "present (frame_word (ram tar_example) g i)" "unat (frame_word (ram tar_example) g i) < 4503599627370496"
    using p(3) tar_example_table [OF upath_snoc_less [OF p(1)]] by simp_all
qed (auto simp: tar_example_walk tar_example_refs split: if_splits)

lemma tar_example_buffer: "user_buffer tar_example 671 0x600100 n" if "n \<le> 512"
proof -
  have "free_frames tar_example = free_frames kernel_example"
    by (simp add: free_frames_def tar_example_def)
  moreover have "search_vma 0x600100 0x2000 tar_example =
      Inr (case List.find (\<lambda>x. covers 0x600100 (the (vma_heap tar_example x))) [0x3000] of None \<Rightarrow> 0 | Some x \<Rightarrow> x)"
    by (rule search_vma_hlist [where m = "zero_mm\<lparr>mm_mmap := 0x3000, mm_pgd := PA2VA (frame_pa 671)\<rparr>"])
       (simp_all add: tar_example_def kernel_example_def zero_mm_def zero_vma_def)
  ultimately show ?thesis using that kernel_example_free tar_example_wf
    by (simp add: user_buffer_def tar_example_def kernel_example_def zero_mm_def zero_vma_def covers_def)
qed

lemma read_example_buffer: "user_buffer read_example 671 0x600100 n" if "n \<le> 512"
proof -
  have eq: "read_example = tar_example\<lparr>task_heap := (task_heap tar_example)(current tar_example \<mapsto>
      zero_task\<lparr>t_mm := 0x2000, pid := 1, t_state := ACTIVE, file_array := (replicate MAX_FILE_NUM zero_file)[3 := sh_file]\<rparr>)\<rparr>"
    by (simp add: read_example_def tar_example_def kernel_example_def)
  show ?thesis unfolding eq
    by (rule user_buffer_heap [OF tar_example_buffer [OF that], where c = "zero_task\<lparr>t_mm := 0x2000, pid := 1, t_state := ACTIVE\<rparr>"])
       (simp_all add: tar_example_def kernel_example_def)
qed

lemma read_example_apart: "apart read_example 671 (VA2PA (f_start_addr sh_file + of_nat i))" if "i < 512"
  unfolding apart_def
proof (intro exI conjI allI impI)
  show "1024 + i < (4096 :: nat)" using that by simp
  show "VA2PA (f_start_addr sh_file + of_nat i) = frame_pa 560 + of_nat (1024 + i)"
    by (simp add: sh_file_def VA2PA_def PA2VA_def frame_pa_def)
  fix q assume "upath q"
  then show "walk_frame (ram read_example) 671 q \<noteq> Some 560" using tar_example_walk by (simp add: read_example_def)
qed (simp_all add: read_example_def tar_example_def kernel_example_def)

lemma read_example_bytes:
  assumes "i < 5"
  shows "load8 (ram read_example) (VA2PA (f_start_addr sh_file + of_nat i)) = char_byte (''hello'' ! i)"
proof -
  have "VA2PA (f_start_addr sh_file + of_nat i) = frame_pa 560 + of_nat (1024 + i)"
    by (simp add: sh_file_def VA2PA_def PA2VA_def frame_pa_def)
  moreover have "load8 (ram tar_example) (frame_pa 560 + of_nat (1024 + i)) = char_byte (example_tar ! (1024 + i))"
    unfolding tar_example_ram using assms by (intro load8_store_string) (simp_all add: example_tar_at(2))
  moreover have "example_tar ! (1024 + i) = ''hello'' ! i"
    using assms by (simp add: example_tar_def nth_append length_ustar_header del: append_Cons)
  ultimately show ?thesis by (simp add: read_example_def)
qed

theorem read_file_delivers_witness:
  "\<exists>t. read_file 3 0x600100 5 read_example = Inr (5, t) \<and>
     (\<forall>i<5. vload8 (0x600100 + of_nat i) t = Inr (char_byte (''hello'' ! i)))"
proof -
  have n: "read_count sh_file 5 = 5" by (simp add: read_count_def sh_file_def zero_file_def)
  have p: "f_pos sh_file = 0" "f_type sh_file = FT_FILE" by (simp_all add: sh_file_def zero_file_def)
  have "current_file 3 read_example = Inr sh_file"
    by (simp add: current_file_def read_example_def tar_example_def kernel_example_def)
  from read_file_delivers [OF this p(2), of 5 671 "0x600100"] obtain t where
    "read_file 3 0x600100 5 read_example = Inr (5, t)" "delivered 3 0x600100 5 671 sh_file read_example t"
    using read_example_buffer read_example_apart unfolding n p(1) by auto
  then show ?thesis using read_example_bytes unfolding delivered_def p(1) by auto
qed

end
