(* ===== verification/FileProps.thy ===== *)
theory FileProps
  imports UserCopy
begin

text \<open>
  Working directories, closing of files and membership in directories.
\<close>

section \<open>The parent directory\<close>

abbreviation (input) slash :: char where "slash \<equiv> CHR ''/''"

lemma rev_take_Suc: "i < length b \<Longrightarrow> rev (take (Suc i) b) = b ! i # rev (take i b)"
  by (simp add: take_Suc_conv_app_nth)

lemma skip_back_eq:
  "i < length b \<Longrightarrow> skip_back b i =
     (case dropWhile (\<lambda>c. c = slash) (rev (take (Suc i) b)) of [] \<Rightarrow> Inl Out_Of_Bounds | c # cs \<Rightarrow> Inr (length cs))"
proof (induction i)
  case 0
  then show ?case by (simp add: c_read_def rev_take_Suc)
next
  case (Suc i)
  then show ?case by (simp add: c_read_def rev_take_Suc [of "Suc i"])
qed

lemma back_to_slash_eq:
  "i < length b \<Longrightarrow> back_to_slash b i =
     Inr (case dropWhile (\<lambda>c. c \<noteq> slash) (rev (take (Suc i) b)) of [] \<Rightarrow> None | c # cs \<Rightarrow> Some (length cs))"
proof (induction i)
  case 0
  then show ?case by (simp add: c_read_def rev_take_Suc)
next
  case (Suc i)
  then show ?case by (simp add: c_read_def rev_take_Suc [of "Suc i"])
qed

text \<open>
  The directory above \<open>p\<close>: without trailing slashes and then without the last component; the
  root if there is nothing left.
\<close>

definition parent :: "string \<Rightarrow> string" where
  "parent p = (let d = rev (dropWhile (\<lambda>c. c \<noteq> slash) (dropWhile (\<lambda>c. c = slash) (rev p))) in if d = [] then ''/'' else d)"

lemma dropWhile_rev_take: "dropWhile P (rev p) = rev (take (length (dropWhile P (rev p))) p)"
proof -
  have "rev p = takeWhile P (rev p) @ dropWhile P (rev p)" by simp
  then have "p = rev (dropWhile P (rev p)) @ rev (takeWhile P (rev p))" by (metis rev_append rev_rev_ident)
  then have "take (length (dropWhile P (rev p))) p = rev (dropWhile P (rev p))" by (metis append_eq_conv_conj length_rev)
  then show ?thesis by simp
qed

lemma cstr_decomp: "NUL \<in> set b \<Longrightarrow> \<exists>r. b = cstr b @ NUL # r"
proof (induction b)
  case (Cons c b)
  then show ?case by (cases "c = NUL") auto
qed simp

lemma suffix_dropWhile: "dropWhile P (rev p) = c # cs \<Longrightarrow> take (Suc (length cs)) p = rev (c # cs)"
  using dropWhile_rev_take [of P p] by (metis length_Cons rev_rev_ident)

lemma length_suffix_dropWhile: "dropWhile P (rev p) = c # cs \<Longrightarrow> Suc (length cs) \<le> length p"
  using length_dropWhile_le [of P "rev p"] by simp

lemma truncate_cstr:
  assumes "NUL \<in> set b" "Suc k < length b" "NUL \<notin> set (take (Suc k) b)"
  shows "\<exists>b'. c_write b (k + 1) NUL = Inr b' \<and> cstr b' = take (Suc k) b"
proof -
  have "b[Suc k := NUL] = take (Suc k) b @ NUL # drop (Suc (Suc k)) b"
    using assms(2) by (simp add: upd_conv_take_nth_drop)
  then have "cstr (b[Suc k := NUL]) = take (Suc k) b" using cstr_append_NUL [OF assms(3)] by simp
  then show ?thesis using assms(2) by (simp add: c_write_def)
qed

lemma parent_dir_dots:
  assumes b: "b = p @ ''/..'' @ NUL # r" and p: "NUL \<notin> set p"
  shows "if \<forall>c\<in>set p. c = slash then parent_dir b = Inl Out_Of_Bounds
    else \<exists>b'. parent_dir b = Inr b' \<and> cstr b' = parent p"
proof -
  let ?n = "length p"
  have "cstr b = p @ ''/..''" using cstr_append_NUL [of "p @ ''/..''" r] p b by simp
  then have len: "strlen (Some b) = Inr (?n + 3)" using b by (simp add: strlen_Some)
  have dots: "b ! (?n + 2) = CHR ''.''" "b ! (?n + 1) = CHR ''.''" "b ! ?n = slash" "?n < length b"
    using b by (simp_all add: nth_append)
  have nb: "NUL \<in> set b" using b by simp
  have pd: "parent_dir b = rbind (skip_back b ?n) (\<lambda>len. rbind (back_to_slash b len) (\<lambda>r.
       case r of Some len \<Rightarrow> c_write b (Suc len) NUL
       | None \<Rightarrow> rbind (c_write b 0 slash) (\<lambda>cwd. c_write cwd (Suc 0) NUL)))"
    using len dots by (simp add: parent_dir_def numeral_eq_Suc)
  have "rev (take (Suc ?n) b) = slash # rev p" using b by simp
  then have sk: "skip_back b ?n = (case dropWhile (\<lambda>c. c = slash) (rev p) of [] \<Rightarrow> Inl Out_Of_Bounds | c # cs \<Rightarrow> Inr (length cs))"
    using skip_back_eq [OF dots(4)] by simp
  show ?thesis
  proof (cases "dropWhile (\<lambda>c. c = slash) (rev p)")
    case Nil
    then have "\<forall>c\<in>set p. c = slash" by simp
    then show ?thesis using pd sk Nil by simp
  next
    case (Cons c cs)
    then have "dropWhile (\<lambda>c. c = slash) (rev p) \<noteq> []" by simp
    then have ns: "\<not> (\<forall>c\<in>set p. c = slash)" unfolding dropWhile_eq_Nil_conv by simp
    have tk: "take (Suc (length cs)) b = rev (c # cs)" and lt: "length cs < length b"
      using suffix_dropWhile [OF Cons] length_suffix_dropWhile [OF Cons] b by simp_all
    have bs: "back_to_slash b (length cs) = Inr (case dropWhile (\<lambda>c. c \<noteq> slash) (c # cs) of [] \<Rightarrow> None | x # xs \<Rightarrow> Some (length xs))"
      using back_to_slash_eq [OF lt] tk by (simp only: rev_rev_ident)
    have "\<exists>b'. parent_dir b = Inr b' \<and> cstr b' = parent p"
    proof (cases "dropWhile (\<lambda>c. c \<noteq> slash) (c # cs)")
      case Nil
      have "parent_dir b = Inr (b[0 := slash, 1 := NUL])"
        using pd sk Cons bs Nil b by (simp add: c_write_def)
      moreover have "cstr (b[0 := slash, 1 := NUL]) = ''/''" using b by (cases b; cases "tl b"; cases p; cases "tl p") auto
      ultimately show ?thesis using Cons Nil by (simp add: parent_def)
    next
      case x: (Cons x xs)
      have tx: "take (Suc (length xs)) b = rev (x # xs)" and lx: "Suc (length xs) \<le> length p"
      proof -
        have d: "dropWhile (\<lambda>c. c \<noteq> slash) (rev (rev (c # cs))) = x # xs" using x by simp
        show "Suc (length xs) \<le> length p"
          using length_suffix_dropWhile [OF d] length_suffix_dropWhile [OF Cons] by simp
        have "take (Suc (length xs)) (take (Suc (length cs)) b) = rev (x # xs)"
          unfolding tk by (rule suffix_dropWhile [OF d])
        moreover have "Suc (length xs) \<le> Suc (length cs)" using length_suffix_dropWhile [OF d] by simp
        ultimately show "take (Suc (length xs)) b = rev (x # xs)" by (simp add: min_absorb1)
      qed
      have "NUL \<notin> set (take (Suc (length xs)) b)" using p lx b by (auto dest: in_set_takeD)
      then obtain b' where b': "c_write b (length xs + 1) NUL = Inr b'" "cstr b' = rev (x # xs)"
        using truncate_cstr [OF nb, of "length xs"] lx b tx by auto
      then show ?thesis using pd sk Cons bs x by (simp add: parent_def)
    qed
    then show ?thesis by (simp only: ns if_False)
  qed
qed

text \<open>
  \<open>chdir\<close> to a path that ends in \<open>/..\<close>: the path becomes that of the parent directory, by text
  alone. If nothing but slashes is in front of the two dots (as in \<open>/..\<close>), the code reads in
  front of the buffer. Any other path is left as it is.
\<close>

lemma parent_dir_text:
  assumes "NUL \<in> set b"
  shows "(\<forall>p. cstr b = p @ ''/..'' \<longrightarrow>
        (if \<forall>c\<in>set p. c = slash then parent_dir b = Inl Out_Of_Bounds
         else \<exists>b'. parent_dir b = Inr b' \<and> cstr b' = parent p)) \<and>
    ((\<nexists>p. cstr b = p @ ''/..'') \<longrightarrow> parent_dir b = Inr b)"
proof (intro conjI allI impI)
  obtain r where r: "b = cstr b @ NUL # r" using cstr_decomp [OF assms] by blast
  fix p assume p: "cstr b = p @ ''/..''"
  have bp: "b = p @ ''/..'' @ NUL # r" using r unfolding p by simp
  have "NUL \<notin> set p" using NUL_notin_cstr [of b] p by auto
  from parent_dir_dots [OF bp this]
  show "if \<forall>c\<in>set p. c = slash then parent_dir b = Inl Out_Of_Bounds
      else \<exists>b'. parent_dir b = Inr b' \<and> cstr b' = parent p" .
next
  assume no: "\<nexists>p. cstr b = p @ ''/..''"
  let ?n = "length (cstr b)"
  have "\<not> (?n \<ge> 3 \<and> b ! (?n - 1) = CHR ''.'' \<and> b ! (?n - 2) = CHR ''.'' \<and> b ! (?n - 3) = slash)"
  proof
    assume h: "?n \<ge> 3 \<and> b ! (?n - 1) = CHR ''.'' \<and> b ! (?n - 2) = CHR ''.'' \<and> b ! (?n - 3) = slash"
    then obtain m where n: "?n = m + 3" by (metis le_add_diff_inverse2)
    then have c: "cstr b ! m = slash" "cstr b ! Suc m = CHR ''.''" "cstr b ! Suc (Suc m) = CHR ''.''"
      using h nth_cstr [of m b] nth_cstr [of "Suc m" b] nth_cstr [of "Suc (Suc m)" b] by (simp_all add: numeral_eq_Suc)
    have "drop m (cstr b) = ''/..''"
      using Cons_nth_drop_Suc [of m "cstr b"] Cons_nth_drop_Suc [of "Suc m" "cstr b"] Cons_nth_drop_Suc [of "Suc (Suc m)" "cstr b"] n c
      by simp
    then have "cstr b = take m (cstr b) @ ''/..''" by (metis append_take_drop_id)
    then show False using no by blast
  qed
  then show "parent_dir b = Inr b" using assms by (auto simp: parent_dir_def strlen_Some)
qed

section \<open>Descriptors and directories\<close>

lemma find_SomeD: "List.find P xs = Some x \<Longrightarrow> P x"
  by (induction xs) (auto split: if_splits)

lemma free_fd_free: "free_fd t = Some i \<Longrightarrow> f_free (file_array t ! i) = 0"
  unfolding free_fd_def by (drule find_SomeD)

text \<open>
  Closing a file changes nothing at all: the entry of the descriptor table is cleared in a copy
  only. The descriptor stays taken, so no later \<open>open\<close> gets it again.
\<close>

lemma close_keeps_descriptor:
  assumes "current_file fd s = Inr f" "file_ok f" "int START_FD \<le> fd" "fd < int MAX_FILE_NUM"
  shows "tarfs_close fd s = Inr s \<and>
    (f_free f \<noteq> 0 \<longrightarrow> (\<forall>t. task_heap s (current s) = Some t \<longrightarrow> free_fd t \<noteq> Some (nat fd)))"
proof
  have "f_mode f \<noteq> []" "f_name f \<noteq> []" using assms(2) by (auto simp: file_ok_def)
  then show "tarfs_close fd s = Inr s" using assms
    by (simp add: tarfs_close_def fd_assert_def zero_tarfs_file_entry_def file_ok_def c_write_def)
  show "f_free f \<noteq> 0 \<longrightarrow> (\<forall>t. task_heap s (current s) = Some t \<longrightarrow> free_fd t \<noteq> Some (nat fd))"
    using assms(1) free_fd_free by (auto simp: current_file_def rbind_eq_Inr split: if_splits)
qed

text \<open>
  The entries of a directory: its name, which ends in a slash (for the root: the empty name), then one component, with a slash
  at its end if the entry is itself a directory.
\<close>

definition entry_of :: "string \<Rightarrow> string \<Rightarrow> bool" where
  "entry_of d n \<longleftrightarrow> (\<exists>b. b \<noteq> [] \<and> slash \<notin> set b \<and> n \<in> {(if d = ''/'' then [] else d) @ b, (if d = ''/'' then [] else d) @ b @ ''/''})"

lemma single_iff: "single r \<longleftrightarrow> (\<exists>b. slash \<notin> set b \<and> r \<in> {b, b @ ''/''})"
proof
  assume r: "single r"
  show "\<exists>b. slash \<notin> set b \<and> r \<in> {b, b @ ''/''}"
  proof (cases "r \<noteq> [] \<and> last r = slash")
    case True
    then have "r = butlast r @ ''/''" using append_butlast_last_id [of r] by simp
    then show ?thesis using r unfolding single_def by blast
  next
    case False
    have "set r = set (butlast r) \<union> {last r}" if "r \<noteq> []" using arg_cong [OF append_butlast_last_id [OF that], of set] by simp
    then have "slash \<notin> set r" using False r by (cases "r = []") (auto simp: single_def)
    then show ?thesis by blast
  qed
qed (auto simp: single_def butlast_append dest: in_set_butlastD)

lemma scan_accepts_entries:
  assumes d: "d \<noteq> []" "last d = slash"
  shows "scan_accepts d n \<longleftrightarrow> entry_of d n \<or> n = d \<or> d \<noteq> ''/'' \<and> n = d @ ''/''"
proof (cases "d = ''/''")
  case True
  have "scan_accepts d n \<longleftrightarrow> n \<noteq> [] \<and> (\<exists>b. slash \<notin> set b \<and> n \<in> {b, b @ ''/''})"
    using True by (simp add: scan_accepts_def single_iff)
  also have "\<dots> \<longleftrightarrow> (\<exists>b. b \<noteq> [] \<and> slash \<notin> set b \<and> n \<in> {b, b @ ''/''}) \<or> n = ''/''"
    by (cases "n = ''/''") (auto intro: exI [of _ "[]"])
  finally show ?thesis using True by (simp add: entry_of_def)
next
  case False
  have "scan_accepts d n \<longleftrightarrow> (\<exists>r. n = d @ r \<and> single r)"
    using False d(1) unfolding scan_accepts_def by (auto intro!: exI [of _ "drop (length d) n"]) (metis append_take_drop_id)
  also have "\<dots> \<longleftrightarrow> (\<exists>b. slash \<notin> set b \<and> n \<in> {d @ b, d @ b @ ''/''})"
    unfolding single_iff by blast
  also have "\<dots> \<longleftrightarrow> (\<exists>b. b \<noteq> [] \<and> slash \<notin> set b \<and> n \<in> {d @ b, d @ b @ ''/''}) \<or> n \<in> {d, d @ ''/''}"
    by (metis append_Nil append_Nil2 empty_iff empty_set)
  finally show ?thesis using False by (simp add: entry_of_def)
qed

text \<open>
  C38. The test \<open>getdents\<close> uses to decide whether an archive entry belongs to a directory returns on every pair of terminated
  names. For a directory name that ends in a slash, as the open directories have, it is 0 exactly for the names of the
  immediate entries and, beyond what its comment says, for the name of the directory itself and, below the root, this name
  with a second slash.
\<close>

theorem belongs_to_dir_spec:
  assumes "NUL \<in> set d" "NUL \<in> set n" "cstr d \<noteq> []" "last (cstr d) = slash"
  shows "\<exists>r. belongs_to_dir d n = Inr r \<and>
    (r = 0 \<longleftrightarrow> entry_of (cstr d) (cstr n) \<or> cstr n = cstr d \<or> cstr d \<noteq> ''/'' \<and> cstr n = cstr d @ ''/'')"
  using belongs_to_dir_child [OF assms(1,2)] scan_accepts_entries [OF assms(3,4)] by simp

theorem belongs_to_dir_spec_witness:
  "\<exists>r. belongs_to_dir (''bin/'' @ [NUL]) (''bin/sub/x'' @ [NUL]) = Inr r \<and> r \<noteq> 0"
proof -
  have "\<not> entry_of ''bin/'' ''bin/sub/x''" by (auto simp: entry_of_def append_eq_Cons_conv)
  then show ?thesis using belongs_to_dir_spec [of "''bin/'' @ [NUL]" "''bin/sub/x'' @ [NUL]"] by auto
qed

text \<open>Without the slash at the end of the directory's name, names that only begin with it are accepted too.\<close>

lemma belongs_to_dir_without_slash: "belongs_to_dir (''bin'' @ [NUL]) (''binary'' @ [NUL]) = Inr 0"
  using belongs_to_dir_child [of "''bin'' @ [NUL]" "''binary'' @ [NUL]"] by (auto simp: scan_accepts_def single_def)

end
