(* ===== verification/Keyboard.thy ===== *)
theory Keyboard
  imports Tasks
begin

text \<open>
  The keyboard interrupt (src/sys/kbd.c, include/sys/kbd.h): scan codes to characters, the line
  buffer of standard input, the wake-up of its readers, Ctrl-C and Ctrl-L. The two bytes the
  handler reads from the ports of the controller are its arguments. \<open>kbdinit\<close> is in theory Boot: it runs
  before the page allocator is ready.

  \<open>stdin_buf\<close> points to one page; an index outside of it, and an index outside of a key table,
  is out of bounds. If the page holds one of the kernel's objects as well, a character that is stored in it overwrites
  the object: that is a fault, too.
\<close>

section \<open>Key tables\<close>

definition normalmap :: string where
  "normalmap =
     [NUL, CHR 0x1B] @ ''1234567890-='' @ [CHR 0x08, CHR 0x09] @ ''qwertyuiop[]'' @ [CHR 0x0A, NUL] @
     ''asdfghjkl;'' @ [CHR 0x27, CHR 0x60, NUL, CHR 0x5C] @ ''zxcvbnm,./'' @ [NUL] @ ''*'' @ [NUL] @ '' '' @
     replicate 13 NUL @ ''789-456+1230.'' @ replicate 172 NUL"

definition shiftmap :: string where
  "shiftmap =
     [NUL, CHR 0x1B] @ ''!@#$%^&*()_+'' @ [CHR 0x08, CHR 0x09] @ ''QWERTYUIOP{}'' @ [CHR 0x0A, NUL] @
     ''ASDFGHJKL:'' @ [CHR 0x22, CHR 0x7E, NUL, CHR 0x7C] @ ''ZXCVBNM<>?'' @ [NUL] @ ''*'' @ [NUL] @ '' '' @
     replicate 13 NUL @ ''789-456+1230.'' @ replicate 72 NUL @ [CHR 0x0A] @ replicate 24 NUL @ ''/'' @ replicate 74 NUL"

definition key_char :: "string \<Rightarrow> int \<Rightarrow> fault + char" where
  "key_char t i = (if 0 \<le> i \<and> nat i < length t then Inr (t ! nat i) else Inl Out_Of_Bounds)"

definition is_normal_key_pressed :: "u8 \<Rightarrow> fault + bool" where
  "is_normal_key_pressed data = rbind (key_char normalmap (uint data)) (\<lambda>c. Inr (c \<noteq> NUL))"

definition is_normal_key_released :: "u8 \<Rightarrow> fault + bool" where
  "is_normal_key_released data = rbind (key_char normalmap (uint data - 0x80)) (\<lambda>c. Inr (c \<noteq> NUL))"

definition is_special_key_released :: "u8 \<Rightarrow> bool" where
  "is_special_key_released data \<longleftrightarrow> data = 0x9D \<or> data = 0xAA \<or> data = 0xB8"

definition is_special_key_pressed :: "u8 \<Rightarrow> bool" where
  "is_special_key_pressed data \<longleftrightarrow> data = 0x1D \<or> data = 0x2A \<or> data = 0x38"

section \<open>The line buffer\<close>

abbreviation (input) STDIN_BUF_SIZE :: int where "STDIN_BUF_SIZE \<equiv> 4096"

text \<open>
  The kernel's objects are a page each: tasks, address spaces and memory areas. Their fields are kept outside
  of \<open>ram\<close>, so a key stroke that is stored into the page of an object stops the model.
\<close>

definition object_at :: "u64 \<Rightarrow> 'a kernel_scheme \<Rightarrow> bool" where
  "object_at p s \<longleftrightarrow> task_heap s p \<noteq> None \<or> mm_heap s p \<noteq> None \<or> vma_heap s p \<noteq> None"

definition append_stdin :: "char \<Rightarrow> 'a kernel_scheme \<Rightarrow> fault + 'a kernel_scheme" where
  "append_stdin c s =
     (let i = stdin_buf_size s in
      if \<not> (0 \<le> i \<and> i < STDIN_BUF_SIZE) then Inl Out_Of_Bounds
      else if object_at (stdin_buf s) s then Inl (Object_Overwritten (stdin_buf s))
      else Inr (s\<lparr>ram := store8 (VA2PA (stdin_buf s + of_int i)) (of_char c) (ram s), stdin_buf_size := i + 1\<rparr>))"

text \<open>A character key is handled when it is released.\<close>

definition normal_key :: "'a kernel_scheme \<Rightarrow> fault + 'a kernel_scheme" where
  "normal_key s =
     (let key = normal_key_pressed s in
      if key \<noteq> 0xe then
        rbind (key_char normalmap (uint key)) (\<lambda>c.
        rbind (append_stdin c (print_to_screen c s)) (\<lambda>s.
        if key = 0x1c then
          let s = s\<lparr>stdin_buf_state := 1\<rparr> in
          if wait_stdin_list s \<noteq> 0 then wakeup Wait_Stdin 0 0 s else Inr s
        else Inr s))
      else
        let s = print_to_screen CHR 0x0E s in Inr (s\<lparr>stdin_buf_size := stdin_buf_size s - 1\<rparr>))"

section \<open>Combinations with Shift, Alt and Ctrl\<close>

definition interrupt_key :: "'a kernel_scheme \<Rightarrow> fault + 'a kernel_scheme" where
  "interrupt_key s =
     (if wait_stdin_list s \<noteq> 0 then
        rbind (hpred LIST_FUEL t_next 0 (task_heap s) (wait_stdin_list s)) (\<lambda>p.
        rbind (deref (task_heap s) p) (\<lambda>t.
        rbind (kill_by_pid (pid t) SIGKILL s) (\<lambda>(_, s). Inr s)))
      else
        rbind (deref (task_heap s) (current s)) (\<lambda>c.
        if t_mm c \<noteq> 0 then rbind (kill_by_pid (pid c) SIGKILL s) (\<lambda>(_, s). Inr s) else Inr s))"

definition special_key :: "'a kernel_scheme \<Rightarrow> fault + 'a kernel_scheme" where
  "special_key s =
     (let key = normal_key_pressed s; special = special_key_pressed s in
      if special = 0x2A then
        rbind (key_char shiftmap (uint key)) (\<lambda>c. append_stdin c (print_to_screen c s))
      else if special = 0x38 then
        rbind (key_char normalmap (uint key)) (\<lambda>c.
        Inr (put_to_screen c 65 24 0 (put_to_screen CHR ''@'' 64 24 0 s)))
      else if special = 0x1D then
        rbind (key_char shiftmap (uint key)) (\<lambda>c.
        let s = put_to_screen c 65 24 0 (put_to_screen CHR ''^'' 64 24 0 s) in
        rbind (if key = 0x2e then interrupt_key s else Inr s) (\<lambda>s.
        Inr (if key = 0x26 then clear_screen s else s)))
      else Inr s)"

section \<open>The interrupt handler\<close>

definition kbdintr :: "u8 \<Rightarrow> u8 \<Rightarrow> 'a kernel_scheme \<Rightarrow> fault + 'a kernel_scheme" where
  "kbdintr status data s =
     (if status AND 1 = 0 then printf (''in kbdintr: st wrong'' @ newline) [] s
      else
        rbind (is_normal_key_pressed data) (\<lambda>pressed.
        if pressed then Inr (s\<lparr>normal_key_pressed := data\<rparr>)
        else if is_special_key_pressed data then Inr (s\<lparr>special_key_pressed := data\<rparr>)
        else rbind (is_normal_key_released data) (\<lambda>released.
          if released \<and> special_key_pressed s = 0 then
            rbind (normal_key s) (\<lambda>s. Inr (s\<lparr>normal_key_pressed := 0\<rparr>))
          else if released \<and> special_key_pressed s \<noteq> 0 then
            rbind (special_key s) (\<lambda>s. Inr (s\<lparr>normal_key_pressed := 0, special_key_pressed := 0\<rparr>))
          else if is_special_key_released data then
            rbind (if normal_key_pressed s \<noteq> 0
                   then rbind (special_key s) (\<lambda>s. Inr (s\<lparr>normal_key_pressed := 0\<rparr>)) else Inr s) (\<lambda>s.
            Inr (s\<lparr>special_key_pressed := 0\<rparr>))
          else Inr s)))"

section \<open>The tables\<close>

lemma length_normalmap [simp]: "length normalmap = 256"
  by (simp add: normalmap_def)

lemma length_shiftmap [simp]: "length shiftmap = 256"
  by (simp add: shiftmap_def)

lemma key_char_byte: "key_char normalmap (uint (b :: u8)) = Inr (normalmap ! unat b)"
proof -
  have "unat b < 256" using unsigned_less [of b] by simp
  then show ?thesis by (simp add: key_char_def)
qed

end
