(* ===== verification/TypedInput.thy ===== *)
theory TypedInput
  imports Keyboard TaskMoves UserCopy
begin

text \<open>
  From key strokes to the reader of standard input: a typed line ends up in the line buffer and
  wakes the readers; \<open>read\<close> on descriptor 0 hands it over. Also two key sequences for which the
  handler leaves its arrays.
\<close>

section \<open>The contents of the line buffer\<close>

definition stdin_text :: "'a kernel_scheme \<Rightarrow> string" where
  "stdin_text s = map (\<lambda>i. byte_char (load8 (ram s) (VA2PA (stdin_buf s + of_nat i)))) [0..<nat (stdin_buf_size s)]"

text \<open>A key that stands for a character: it is pressed, then released.\<close>

definition char_key :: "u8 \<Rightarrow> bool" where
  "char_key k \<longleftrightarrow> unat k < 128 \<and> normalmap ! unat k \<noteq> NUL \<and> k \<noteq> 0x0E"

definition strokes :: "u8 list \<Rightarrow> 'a kernel_scheme \<Rightarrow> fault + 'a kernel_scheme" where
  "strokes ks s = rfold (\<lambda>d. kbdintr 1 d) (concat (map (\<lambda>k. [k, k + 0x80]) ks)) s"

lemma print_to_screen_text: "print_to_screen c s = print_text [c] s"
  by (simp add: print_text_def)

lemma normalmap_upper: "128 \<le> i \<Longrightarrow> i < 256 \<Longrightarrow> normalmap ! i = NUL"
proof -
  assume i: "128 \<le> i" "i < 256"
  define p where "p = take 84 normalmap"
  have n: "normalmap = p @ replicate 172 NUL" by (simp add: p_def normalmap_def)
  have l: "length p = 84" by (simp add: p_def)
  have "(p @ replicate 172 NUL) ! i = replicate 172 NUL ! (i - 84)" using i l by (simp only: nth_append) simp
  also have "\<dots> = NUL" using i by (intro nth_replicate) simp
  finally show ?thesis unfolding n .
qed

lemma released_code:
  assumes "unat k < 128"
  shows "unat (k + 0x80 :: u8) = unat k + 128" "uint (k + 0x80 :: u8) - 0x80 = uint k"
proof -
  show u: "unat (k + 0x80 :: u8) = unat k + 128" using assms by (simp add: unat_word_ariths)
  then show "uint (k + 0x80 :: u8) - 0x80 = uint k" by (simp only: uint_nat)
qed

lemma stroke_eq:
  assumes "char_key k \<or> k = 0x0E" "special_key_pressed s = 0"
  shows "strokes [k] s = rbind (normal_key (s\<lparr>normal_key_pressed := k\<rparr>)) (\<lambda>s. Inr (s\<lparr>normal_key_pressed := 0\<rparr>))"
proof -
  have k: "unat k < 128" "normalmap ! unat k \<noteq> NUL" using assms(1) by (auto simp: char_key_def normalmap_def)
  have up: "is_normal_key_pressed k = Inr True" using k(2) by (simp add: is_normal_key_pressed_def key_char_byte)
  have "is_normal_key_pressed (k + 0x80) = Inr False"
    using normalmap_upper [of "unat k + 128"] k(1) released_code(1) [OF k(1)]
    by (simp only: is_normal_key_pressed_def key_char_byte) simp
  moreover have "\<not> is_special_key_pressed (k + 0x80)"
  proof
    assume "is_special_key_pressed (k + 0x80)"
    then consider "k + 0x80 = 0x1D" | "k + 0x80 = 0x2A" | "k + 0x80 = 0x38" unfolding is_special_key_pressed_def by blast
    then show False using released_code(1) [OF k(1)] by cases simp_all
  qed
  moreover have "is_normal_key_released (k + 0x80) = Inr True"
    unfolding is_normal_key_released_def released_code(2) [OF k(1)] using k(2) by (simp add: key_char_byte)
  ultimately show ?thesis using up assms(2)
    by (cases "normal_key (s\<lparr>normal_key_pressed := k\<rparr>)") (simp_all add: strokes_def kbdintr_def)
qed

lemma strokes_append: "strokes (ks @ js) s = rbind (strokes ks s) (strokes js)"
  by (cases "strokes ks s") (simp_all add: strokes_def)

lemma strokes_Nil [simp]: "strokes [] s = Inr s"
  by (simp add: strokes_def)

lemma byte_char_of_char [simp]: "byte_char (of_char c) = c"
  using byte_char_byte [of c] by (simp add: char_byte_def)

section \<open>Typing\<close>

text \<open>What typing does not touch: the tasks and the state of the keyboard between strokes.\<close>

definition same_tasks_and_keys :: "'a kernel_scheme \<Rightarrow> 'a kernel_scheme \<Rightarrow> bool" where
  "same_tasks_and_keys s t \<longleftrightarrow> task_heap t = task_heap s \<and> mm_heap t = mm_heap s \<and> vma_heap t = vma_heap s \<and> (\<forall>l. list_head l t = list_head l s) \<and>
     special_key_pressed t = special_key_pressed s \<and> stdin_buf t = stdin_buf s \<and> current t = current s"

lemma same_tasks_and_keys_wf: "same_tasks_and_keys s t \<Longrightarrow> lists_wf t L = lists_wf s L"
  by (simp add: same_tasks_and_keys_def lists_wf_def)

lemma same_tasks_and_keys_object: "same_tasks_and_keys s t \<Longrightarrow> object_at (stdin_buf t) t = object_at (stdin_buf s) s"
  by (simp add: same_tasks_and_keys_def object_at_def)

lemma object_at_cong: "task_heap t = task_heap s \<Longrightarrow> mm_heap t = mm_heap s \<Longrightarrow> vma_heap t = vma_heap s \<Longrightarrow> object_at p t = object_at p s"
  by (simp add: object_at_def)

lemma object_at_print [simp]: "object_at p (print_text u s) = object_at p s" "object_at p (s\<lparr>normal_key_pressed := k\<rparr>) = object_at p s"
  by (simp_all add: object_at_def)

lemma stdin_text_snoc:
  assumes "stdin_buf t = stdin_buf s" "stdin_buf_size s = int n" "stdin_buf_size t = int n + 1" "n < 4096"
    and "ram t = store8 (VA2PA (stdin_buf s + of_nat n)) (of_char c) (ram s)"
  shows "stdin_text t = stdin_text s @ [c]"
proof -
  have "load8 (ram t) (VA2PA (stdin_buf s + of_nat i)) = load8 (ram s) (VA2PA (stdin_buf s + of_nat i))" if "i < n" for i
  proof -
    have "unat (of_nat i :: u64) \<noteq> unat (of_nat n :: u64)" using that assms(4) by (simp add: unat_of_nat64)
    then have "(of_nat n :: u64) \<noteq> of_nat i" by metis
    then show ?thesis by (simp add: assms(5) load8_store8 VA2PA_add)
  qed
  moreover have "load8 (ram t) (VA2PA (stdin_buf s + of_nat n)) = of_char c" by (simp add: assms(5) load8_store8)
  moreover have "nat (int n + 1) = Suc n" by simp
  ultimately show ?thesis unfolding stdin_text_def assms(1,2,3) by simp
qed

lemma stroke_char:
  assumes "char_key k" "k \<noteq> 0x1C" "special_key_pressed s = 0" "0 \<le> stdin_buf_size s" "stdin_buf_size s < 4096"
    "\<not> object_at (stdin_buf s) s"
  obtains t where "strokes [k] s = Inr t" "same_tasks_and_keys s t" "stdin_text t = stdin_text s @ [normalmap ! unat k]"
    "stdin_buf_size t = stdin_buf_size s + 1"
proof -
  define n where "n = nat (stdin_buf_size s)"
  have n: "stdin_buf_size s = int n" "n < 4096" using assms(4,5) by (simp_all add: n_def)
  let ?c = "normalmap ! unat k"
  let ?u = "print_text [?c] (s\<lparr>normal_key_pressed := k\<rparr>)"
  let ?t = "?u\<lparr>ram := store8 (VA2PA (stdin_buf s + of_nat n)) (of_char ?c) (ram s), stdin_buf_size := int n + 1, normal_key_pressed := 0\<rparr>"
  have k: "k \<noteq> 0x0E" using assms(1) by (simp add: char_key_def)
  have "strokes [k] s = Inr ?t"
    using stroke_eq [of k s] assms(1-3,6) n k
    by (simp add: normal_key_def key_char_byte append_stdin_def print_to_screen_text Let_def)
  moreover have "list_head l ?t = list_head l s" for l by (cases l) simp_all
  then have "same_tasks_and_keys s ?t" by (simp add: same_tasks_and_keys_def)
  moreover have "stdin_text ?t = stdin_text s @ [?c]" by (rule stdin_text_snoc [OF _ n(1) _ n(2)]) simp_all
  moreover have "stdin_buf_size ?t = stdin_buf_size s + 1" using n by simp
  ultimately show thesis by (rule that)
qed

lemma strokes_chars:
  assumes "\<forall>k\<in>set ks. char_key k \<and> k \<noteq> 0x1C" "special_key_pressed s = 0" "0 \<le> stdin_buf_size s"
    "stdin_buf_size s + int (length ks) \<le> 4096" "\<not> object_at (stdin_buf s) s"
  shows "\<exists>t. strokes ks s = Inr t \<and> same_tasks_and_keys s t \<and> stdin_text t = stdin_text s @ map (\<lambda>k. normalmap ! unat k) ks \<and>
    stdin_buf_size t = stdin_buf_size s + int (length ks)"
  using assms
proof (induction ks rule: rev_induct)
  case Nil
  then show ?case by (simp add: same_tasks_and_keys_def)
next
  case (snoc k ks)
  then obtain u where u: "strokes ks s = Inr u" "same_tasks_and_keys s u"
    "stdin_text u = stdin_text s @ map (\<lambda>k. normalmap ! unat k) ks" "stdin_buf_size u = stdin_buf_size s + int (length ks)"
    by auto
  have sp: "special_key_pressed u = 0" using u(2) snoc.prems(2) by (simp add: same_tasks_and_keys_def)
  obtain t where "strokes [k] u = Inr t" "same_tasks_and_keys u t" "stdin_text t = stdin_text u @ [normalmap ! unat k]"
    "stdin_buf_size t = stdin_buf_size u + 1"
    by (rule stroke_char [of k u]) (use snoc.prems sp u(4) same_tasks_and_keys_object [OF u(2)] in auto)
  then show ?case using u by (auto simp: strokes_append same_tasks_and_keys_def)
qed

lemma enter_key: "char_key 0x1C" "normalmap ! unat (0x1C :: u8) = CHR 0x0A"
    "key_char normalmap 0x1C = Inr CHR 0x0A"
  by (simp_all add: char_key_def key_char_def normalmap_def)

lemma stroke_enter:
  assumes "special_key_pressed s = 0" "0 \<le> stdin_buf_size s" "stdin_buf_size s < 4096" "lists_wf s L" "\<not> object_at (stdin_buf s) s"
  shows "\<exists>t. strokes [0x1C] s = Inr t \<and> stdin_text t = stdin_text s @ [CHR 0x0A] \<and> stdin_buf_state t = BUF_READY \<and>
    lists_wf t (L(Wait_Stdin := [], Active := rev (L Wait_Stdin) @ L Active))"
proof -
  define n where "n = nat (stdin_buf_size s)"
  have n: "stdin_buf_size s = int n" "n < 4096" using assms(2,3) by (simp_all add: n_def)
  let ?u = "print_text [CHR 0x0A] (s\<lparr>normal_key_pressed := 0x1C\<rparr>)"
  let ?v = "?u\<lparr>ram := store8 (VA2PA (stdin_buf s + of_nat n)) (of_char CHR 0x0A) (ram s), stdin_buf_size := int n + 1, stdin_buf_state := 1\<rparr>"
  let ?M = "L(Wait_Stdin := [], Active := rev (L Wait_Stdin) @ L Active)"
  have tx: "stdin_text ?v = stdin_text s @ [CHR 0x0A]" by (rule stdin_text_snoc [OF _ n(1) _ n(2)]) simp_all
  have hd: "list_head l ?v = list_head l s" for l by (cases l) simp_all
  have th: "task_heap ?v = task_heap s" by simp
  have wf: "lists_wf ?v L" using assms(4) unfolding lists_wf_def hd th .
  have enter: "strokes [0x1C] s = rbind (if wait_stdin_list ?v \<noteq> 0 then wakeup Wait_Stdin 0 0 ?v else Inr ?v) (\<lambda>s. Inr (s\<lparr>normal_key_pressed := 0\<rparr>))"
    using stroke_eq [of "0x1C" s] assms(1,5) n enter_key
    by (simp add: normal_key_def key_char_byte append_stdin_def print_to_screen_text Let_def)
  have clear: "lists_wf (x\<lparr>normal_key_pressed := 0\<rparr>) K = lists_wf x K" "stdin_text (x\<lparr>normal_key_pressed := 0\<rparr>) = stdin_text x"
    for x :: "'a kernel_scheme" and K
  proof -
    have "list_head l (x\<lparr>normal_key_pressed := 0\<rparr>) = list_head l x" for l by (cases l) simp_all
    then show "lists_wf (x\<lparr>normal_key_pressed := 0\<rparr>) K = lists_wf x K" by (simp add: lists_wf_def)
  qed (simp add: stdin_text_def)
  show ?thesis
  proof (cases "wait_stdin_list ?v = 0")
    case True
    have "L Wait_Stdin = []" using lists_wfD(1) [OF wf, of Wait_Stdin] True by simp
    then have "?M = L" by (simp add: fun_eq_iff)
    then have "lists_wf (?v\<lparr>normal_key_pressed := 0\<rparr>) ?M" using wf clear(1) [of ?v L] by simp
    moreover have "strokes [0x1C] s = Inr (?v\<lparr>normal_key_pressed := 0\<rparr>)" using enter True by simp
    moreover have "stdin_buf_state (?v\<lparr>normal_key_pressed := 0\<rparr>) = BUF_READY" by simp
    ultimately show ?thesis using tx clear(2) [of ?v] by metis
  next
    case False
    obtain t where t: "wakeup Wait_Stdin 0 0 ?v = Inr t" "lists_wf t ?M" "relinked (wake_set (set (L Wait_Stdin)) ?v) t"
      using wake_all_spec [OF wf _ lists_wfD(5) [OF wf], of Wait_Stdin] by (auto simp: wakeup_def)
    have o: "off_lists t = off_lists (wake_set (set (L Wait_Stdin)) ?v)" using t(3) by (simp add: relinked_def)
    have f: "ram t = ram ?v" "stdin_buf t = stdin_buf ?v" "stdin_buf_size t = stdin_buf_size ?v" "stdin_buf_state t = stdin_buf_state ?v"
      using arg_cong [OF o, of ram] arg_cong [OF o, of stdin_buf] arg_cong [OF o, of stdin_buf_size] arg_cong [OF o, of stdin_buf_state]
      by (simp_all add: off_lists_def wake_set_def)
    have "stdin_text t = stdin_text ?v" unfolding stdin_text_def f ..
    moreover have "strokes [0x1C] s = Inr (t\<lparr>normal_key_pressed := 0\<rparr>)" using enter False t(1) by simp
    moreover have "stdin_buf_state t = BUF_READY" using f(4) by simp
    ultimately show ?thesis using t(2) clear [of t] tx by (intro exI [of _ "t\<lparr>normal_key_pressed := 0\<rparr>"]) simp
  qed
qed

text \<open>
  C28. Typing a line. Pressing and releasing character keys and then Enter appends exactly their
  characters and a newline to the line buffer (as long as that has room and its page holds no task, address space or
  area), marks the buffer as
  ready and wakes all tasks that wait for standard input; they are put in front of the active
  tasks.
\<close>

theorem typed_line:
  assumes "\<forall>k\<in>set ks. char_key k \<and> k \<noteq> 0x1C" "special_key_pressed s = 0" "0 \<le> stdin_buf_size s"
    "stdin_buf_size s + int (length ks) < 4096" "lists_wf s L" "\<not> object_at (stdin_buf s) s"
  shows "\<exists>t. strokes (ks @ [0x1C]) s = Inr t \<and>
    stdin_text t = stdin_text s @ map (\<lambda>k. normalmap ! unat k) ks @ newline \<and> stdin_buf_state t = BUF_READY \<and>
    lists_wf t (L(Wait_Stdin := [], Active := rev (L Wait_Stdin) @ L Active))"
proof -
  obtain u where u: "strokes ks s = Inr u" "same_tasks_and_keys s u"
    "stdin_text u = stdin_text s @ map (\<lambda>k. normalmap ! unat k) ks" "stdin_buf_size u = stdin_buf_size s + int (length ks)"
    using strokes_chars [OF assms(1-3)] assms(4,6) by auto
  have "special_key_pressed u = 0" "lists_wf u L" "\<not> object_at (stdin_buf u) u"
    using u(2) assms(2,5,6) same_tasks_and_keys_wf [OF u(2)] same_tasks_and_keys_object [OF u(2)] by (simp_all add: same_tasks_and_keys_def)
  from stroke_enter [OF this(1) _ _ this(2,3)] show ?thesis
    using u assms(3,4) by (auto simp: strokes_append)
qed

theorem typed_line_witness:
  "\<exists>t. strokes [0x26, 0x1F, 0x1C] readers = Inr t \<and> stdin_text t = ''ls'' @ newline \<and> stdin_buf_state t = BUF_READY"
proof -
  have "\<exists>t. strokes ([0x26, 0x1F] @ [0x1C]) readers = Inr t \<and>
      stdin_text t = stdin_text readers @ map (\<lambda>k :: u8. normalmap ! unat k) [0x26, 0x1F] @ newline \<and> stdin_buf_state t = BUF_READY \<and>
      lists_wf t (reader_lists(Wait_Stdin := [], Active := rev (reader_lists Wait_Stdin) @ reader_lists Active))"
    by (rule typed_line [OF _ _ _ _ readers_wf, of "[0x26, 0x1F]"]) (simp_all add: char_key_def normalmap_def, simp_all add: readers_def kernel_example_def object_at_def)
  moreover have "stdin_text readers = []" by (simp add: stdin_text_def readers_def kernel_example_def)
  ultimately show ?thesis by (auto simp: normalmap_def)
qed

text \<open>In a page that holds an object, the first character is stored over it.\<close>

lemma key_overwrites_object:
  assumes "char_key k" "special_key_pressed s = 0" "0 \<le> stdin_buf_size s" "stdin_buf_size s < 4096" "object_at (stdin_buf s) s"
  shows "strokes [k] s = Inl (Object_Overwritten (stdin_buf s))"
  using stroke_eq [of k s] assms by (auto simp: char_key_def normal_key_def key_char_byte append_stdin_def print_to_screen_text Let_def)

section \<open>Reading a line\<close>

definition stdin_byte :: "'a kernel_scheme \<Rightarrow> nat \<Rightarrow> u8" where
  "stdin_byte s i = load8 (ram s) (VA2PA (stdin_buf s + of_nat i))"

lemma stdin_text_bytes: "stdin_text s = map (\<lambda>i. byte_char (stdin_byte s i)) [0..<nat (stdin_buf_size s)]"
  by (simp add: stdin_text_def stdin_byte_def)

definition shift_step :: "nat \<Rightarrow> nat \<Rightarrow> 'a kernel_scheme \<Rightarrow> 'a kernel_scheme" where
  "shift_step k i s = s\<lparr>ram := store8 (VA2PA (stdin_buf s + of_nat i)) (stdin_byte s (k + i)) (ram s)\<rparr>"

lemma shift_stdin_steps:
  fixes s :: "'a kernel_scheme"
  assumes "stdin_buf_size s = int (k + m)"
  shows "shift_stdin (int k) s = fold (shift_step k) [0..<m] s"
proof -
  have up: "[int k..int (k + m) - 1] = map (\<lambda>i. int (k + i)) [0..<m]"
  proof (induction m)
    case (Suc m)
    have "int (k + Suc m) - 1 = int (k + m)" by simp
    then have "[int k..int (k + Suc m) - 1] = [int k..int (k + m) - 1] @ [int (k + m)]"
      using upto_rec2 [of "int k" "int (k + m)"] by simp
    then show ?case using Suc by simp
  qed simp
  let ?f = "\<lambda>i (s :: 'a kernel_scheme). s\<lparr>ram := store8 (VA2PA (stdin_buf s + of_int (i - int k)))
      (load8 (ram s) (VA2PA (stdin_buf s + of_int i))) (ram s)\<rparr>"
  have "?f \<circ> (\<lambda>i. int (k + i)) = shift_step k"
    by (intro ext) (simp add: shift_step_def stdin_byte_def)
  then show ?thesis unfolding shift_stdin_def assms up fold_map by (rule arg_cong)
qed

lemma shift_bytes:
  assumes "k + m < 18446744073709551616" "j < 18446744073709551616"
  shows "stdin_byte (fold (shift_step k) [0..<m] s) j = (if j < m then stdin_byte s (k + j) else stdin_byte s j) \<and>
    (\<exists>r. fold (shift_step k) [0..<m] s = s\<lparr>ram := r\<rparr>)"
  using assms
proof (induction m arbitrary: j)
  case 0
  have "s = s\<lparr>ram := ram s\<rparr>" by simp
  then have "\<exists>r. s = s\<lparr>ram := r\<rparr>" by blast
  then show ?case by simp
next
  case (Suc m)
  let ?u = "fold (shift_step k) [0..<m] s"
  have u: "\<exists>r. ?u = s\<lparr>ram := r\<rparr>" "stdin_byte ?u j = (if j < m then stdin_byte s (k + j) else stdin_byte s j)"
    "stdin_byte ?u (k + m) = stdin_byte s (k + m)"
    using Suc.IH [of j] Suc.IH [of "k + m"] Suc.prems by (auto split: if_splits)
  obtain r where r: "?u = s\<lparr>ram := r\<rparr>" using u(1) by blast
  have ne: "(of_nat m :: u64) = of_nat j \<longleftrightarrow> m = j"
    using Suc.prems unat_of_nat64 [of m] unat_of_nat64 [of j] by (metis Suc_lessD add_lessD1 add.commute)
  have "stdin_byte (shift_step k m ?u) j = (if j = m then stdin_byte ?u (k + m) else stdin_byte ?u j)"
    using ne by (auto simp: shift_step_def stdin_byte_def load8_store8 VA2PA_add)
  moreover have "shift_step k m ?u = s\<lparr>ram := ram (shift_step k m ?u)\<rparr>" by (simp add: shift_step_def r)
  then have "\<exists>r. shift_step k m ?u = s\<lparr>ram := r\<rparr>" by blast
  ultimately show ?case using u by (auto split: if_splits)
qed

lemma shift_changes:
  "load8 (ram (fold (shift_step k) [0..<m] s)) a \<noteq> load8 (ram s) a \<Longrightarrow> \<exists>i<m. a = VA2PA (stdin_buf s + of_nat i)"
proof (induction m)
  case (Suc m)
  let ?u = "fold (shift_step k) [0..<m] s"
  have "stdin_buf ?u = stdin_buf s"
    by (induction m) (simp_all add: shift_step_def)
  then have "load8 (ram (fold (shift_step k) [0..<Suc m] s)) a =
      (if VA2PA (stdin_buf s + of_nat m) = a then stdin_byte ?u (k + m) else load8 (ram ?u) a)"
    by (simp add: shift_step_def load8_store8)
  then have "VA2PA (stdin_buf s + of_nat m) = a \<or> load8 (ram ?u) a \<noteq> load8 (ram s) a" using Suc.prems by (auto split: if_splits)
  then show ?case using Suc.IH less_SucI by blast
qed simp

text \<open>
  Moving the rest of the line to the front of the buffer, which is apart from everything the page
  tables lead to, changes nothing a user program can read.
\<close>

lemma shifted_line:
  fixes u :: "'a kernel_scheme"
  assumes size: "stdin_buf_size u = int n" "n \<le> 4096" "m < n" and wf: "pt_wf u f" "cr3 u = frame_pa f"
    and ap: "\<forall>i<n. apart u f (VA2PA (stdin_buf u + of_nat i))"
  obtains r where "shift_stdin (int m) u = u\<lparr>ram := r\<rparr>"
    "stdin_text (u\<lparr>ram := r, stdin_buf_size := int n - int m\<rparr>) = drop m (stdin_text u)"
    "\<And>va. unat va < 140737488355328 \<Longrightarrow> vload8 va (u\<lparr>ram := r\<rparr>) = vload8 va u"
proof -
  define v where "v = fold (shift_step m) [0..<n - m] u"
  obtain r where r: "v = u\<lparr>ram := r\<rparr>" using shift_bytes [of m "n - m" 0 u] size(2,3) unfolding v_def by auto
  have run: "shift_stdin (int m) u = u\<lparr>ram := r\<rparr>" unfolding r [symmetric] v_def by (rule shift_stdin_steps) (use size in simp)
  have sb: "stdin_byte (u\<lparr>ram := r\<rparr>) j = stdin_byte u (m + j)" if "j < n - m" for j
    unfolding r [symmetric] using shift_bytes [of m "n - m" j u] that size(2,3) unfolding v_def by simp
  have "stdin_byte (u\<lparr>ram := r, stdin_buf_size := x\<rparr>) j = stdin_byte (u\<lparr>ram := r\<rparr>) j" for x j by (simp add: stdin_byte_def)
  then have "stdin_text (u\<lparr>ram := r, stdin_buf_size := int n - int m\<rparr>) = map (\<lambda>j. byte_char (stdin_byte u (m + j))) [0..<n - m]"
    unfolding stdin_text_bytes using sb nat_int [of "n - m"] of_nat_diff [of m n] size(3) by simp
  also have "[m..<n] = map (\<lambda>i. m + i) [0..<n - m]" using map_add_upt [of m "n - m"] size(3) by (simp add: add.commute)
  then have "map (\<lambda>j. byte_char (stdin_byte u (m + j))) [0..<n - m] = drop m (stdin_text u)"
    unfolding stdin_text_bytes by (simp add: drop_map size(1))
  finally have tx: "stdin_text (u\<lparr>ram := r, stdin_buf_size := int n - int m\<rparr>) = drop m (stdin_text u)" .
  have ch: "apart u f a" if c: "load8 r a \<noteq> load8 (ram u) a" for a
  proof -
    have "load8 (ram v) a \<noteq> load8 (ram u) a" using c r by simp
    then obtain i where "i < n - m" "a = VA2PA (stdin_buf u + of_nat i)" unfolding v_def using shift_changes by blast
    then show ?thesis using ap by simp
  qed
  have "vload8 va (u\<lparr>ram := r\<rparr>) = vload8 va u" if "unat va < 140737488355328" for va
    by (rule vload8_apart [OF wf _ that]) (rule ch)
  then show ?thesis using that [OF run tx] by blast
qed

text \<open>
  C29. \<open>read\<close> on standard input, with a non-empty line in the buffer and room in one page of an
  anonymous area. The first characters of the line are delivered to the user buffer, as many as
  asked for. If that is the whole line, the line buffer is empty and not ready afterwards, and
  the call returns 0 instead of the number of characters. Otherwise it returns that number and
  the rest of the line stays in the buffer.
\<close>

theorem read_stdin_takes_prefix:
  fixes s :: "'a kernel_scheme"
  assumes "stdin_buf_size s = int n" "n \<le> 4096" "k = min m n" "user_buffer s f buf k"
    and "\<forall>i<n. apart s f (VA2PA (stdin_buf s + of_nat i))"
  shows "\<exists>r t. read_stdin buf (int m) s = Inr (r, t) \<and>
    (\<forall>i<k. \<exists>b. vload8 (buf + of_nat i) t = Inr b \<and> byte_char b = stdin_text s ! i) \<and>
    stdin_text t = drop k (stdin_text s) \<and>
    (if n \<le> m then r = 0 \<and> stdin_buf_state t = BUF_NOT_READY else r = of_nat m \<and> stdin_buf_state t = stdin_buf_state s)"
proof -
  have buf: "unat buf < 140737488355328" "unat buf mod 4096 + k \<le> 4096" "cr3 s = frame_pa f"
    using assms(4) by (simp_all add: user_buffer_def)
  have ap: "\<forall>i<k. apart s f (VA2PA (stdin_buf s + of_nat i))" using assms(3,5) by simp
  obtain u pr bm r0 where u: "copy_from_kernel buf (kernel_bytes (stdin_buf s)) (int k) s = Inr (0, u)"
    "u = s\<lparr>page_ref := pr, bitmap := bm, ram := r0\<rparr>" "pt_wf u f"
    "\<And>i. i < k \<Longrightarrow> vload8 (buf + of_nat i) u = Inr (load8 (ram s) (VA2PA (stdin_buf s + of_nat i)))"
    "\<And>a. apart s f a \<Longrightarrow> load8 (ram u) a = load8 (ram s) a" "\<And>a. apart s f a \<Longrightarrow> apart u f a"
    by (rule copy_from_kernel_page [OF assms(4) ap]) (rule that)
  have su: "stdin_buf u = stdin_buf s" "stdin_buf_size u = int n" "stdin_buf_state u = stdin_buf_state s" "cr3 u = frame_pa f"
    using u(2) assms(1) buf(3) by simp_all
  have bytes: "stdin_byte u i = stdin_byte s i" if "i < n" for i using u(5) assms(5) that su(1) by (simp add: stdin_byte_def)
  have ts: "stdin_text s = map (\<lambda>i. byte_char (stdin_byte s i)) [0..<n]" by (simp add: stdin_text_bytes assms(1))
  have tu: "stdin_text u = stdin_text s" unfolding stdin_text_bytes su(2) assms(1) using bytes by simp
  have user: "\<exists>b. vload8 (buf + of_nat i) u = Inr b \<and> byte_char b = stdin_text s ! i" if "i < k" for i
    using u(4) [OF that] that assms(3) by (simp add: ts stdin_byte_def)
  show ?thesis
  proof (cases "n \<le> m")
    case True
    let ?t = "u\<lparr>stdin_buf_size := 0, stdin_buf_state := BUF_NOT_READY\<rparr>"
    have "read_stdin buf (int m) s = Inr (0, ?t)" using True u(1) assms(1,3) by (simp add: read_stdin_def Let_def)
    moreover have "stdin_text ?t = drop k (stdin_text s)" using True assms(3) unfolding ts by (simp add: stdin_text_bytes)
    moreover have "vload8 va ?t = vload8 va u" for va by (rule vload8_cong) simp_all
    ultimately show ?thesis using user True by (intro exI [of _ 0] exI [of _ ?t]) simp
  next
    case False
    then have k: "k = m" "m < n" using assms(3) by simp_all
    have apu: "\<forall>i<n. apart u f (VA2PA (stdin_buf u + of_nat i))" using u(6) assms(5) su(1) by simp
    obtain r where r: "shift_stdin (int m) u = u\<lparr>ram := r\<rparr>" "stdin_text (u\<lparr>ram := r, stdin_buf_size := int n - int m\<rparr>) = drop m (stdin_text u)"
      "\<And>va. unat va < 140737488355328 \<Longrightarrow> vload8 va (u\<lparr>ram := r\<rparr>) = vload8 va u"
      by (rule shifted_line [OF su(2) assms(2) k(2) u(3) su(4) apu]) blast
    let ?t = "u\<lparr>ram := r, stdin_buf_size := int n - int m\<rparr>"
    have "read_stdin buf (int m) s = Inr (of_nat m, ?t)" using k u(1) su(2) assms(1) r(1) by (simp add: read_stdin_def Let_def)
    moreover have "vload8 (buf + of_nat i) ?t = vload8 (buf + of_nat i) u" if "i < k" for i
      using r(3) [of "buf + of_nat i"] same_page(3) [of buf i] that buf(1,2) vload8_cong [of ?t "u\<lparr>ram := r\<rparr>"] by simp
    ultimately show ?thesis using user r(2) tu k su(3) False by (intro exI [of _ "of_nat m"] exI [of _ ?t]) simp
  qed
qed

text \<open>A line buffer with the five characters \<open>hello\<close>.\<close>

definition line_example :: kernel where
  "line_example = tar_example\<lparr>stdin_buf := f_start_addr sh_file, stdin_buf_size := 5, stdin_buf_state := BUF_READY\<rparr>"

lemma line_example_same:
  "user_buffer line_example f va n = user_buffer tar_example f va n"
  "apart line_example f a = apart read_example f a" "ram line_example = ram read_example"
proof -
  have "search_vma a mm line_example = search_vma a mm tar_example" for a mm by (simp add: search_vma_def line_example_def)
  moreover have "pt_wf line_example f = pt_wf tar_example f" "free_frames line_example = free_frames tar_example"
    by (simp_all add: pt_wf_def free_frames_def line_example_def)
  ultimately show "user_buffer line_example f va n = user_buffer tar_example f va n"
    by (simp add: user_buffer_def) (simp add: line_example_def)
qed (simp_all add: apart_def line_example_def read_example_def)

theorem read_stdin_takes_prefix_witness:
  "\<exists>t. read_stdin 0x600100 2 line_example = Inr (2, t) \<and> stdin_text t = ''llo''"
proof -
  have sz: "stdin_buf_size line_example = int 5" "stdin_buf line_example = f_start_addr sh_file" by (simp_all add: line_example_def)
  have ub: "user_buffer line_example 671 0x600100 2" unfolding line_example_same by (rule tar_example_buffer) simp
  have ap: "\<forall>i<5. apart line_example 671 (VA2PA (stdin_buf line_example + of_nat i))"
    unfolding line_example_same sz by (auto intro: read_example_apart)
  have tx: "stdin_text line_example = ''hello''"
  proof -
    have "stdin_text line_example = map (\<lambda>i. ''hello'' ! i) [0..<5]"
      unfolding stdin_text_def sz line_example_same(3) using read_example_bytes by simp
    then show ?thesis by (simp add: upt_rec)
  qed
  from read_stdin_takes_prefix [OF sz(1) _ _ ub ap, of 2] show ?thesis unfolding tx by auto
qed

section \<open>Leaving the arrays\<close>

text \<open>
  A key without a character that is none of Ctrl, Shift and Alt (a function key, say) makes the
  handler look up its scan code minus 0x80, an index in front of the table.
\<close>

lemma function_key_out_of_bounds:
  assumes "unat data < 128" "normalmap ! unat data = NUL" "\<not> is_special_key_pressed data"
  shows "kbdintr 1 data s = Inl Out_Of_Bounds"
proof -
  have "uint data - 0x80 < 0" using assms(1) by (simp only: uint_nat)
  then have "is_normal_key_released data = Inl Out_Of_Bounds" by (simp add: is_normal_key_released_def key_char_def)
  then show ?thesis using assms(2,3) by (simp add: kbdintr_def is_normal_key_pressed_def key_char_byte)
qed

text \<open>
  C39. Backspace on an empty line makes the length of the line negative; the next character is then
  written in front of the buffer.
\<close>

theorem backspace_underflow:
  assumes "stdin_buf_size s = 0" "special_key_pressed s = 0" "char_key k"
  shows "\<exists>t. strokes [0x0E] s = Inr t \<and> stdin_buf_size t = - 1 \<and> strokes [k] t = Inl Out_Of_Bounds"
proof -
  let ?t = "(print_text [CHR 0x0E] (s\<lparr>normal_key_pressed := 0x0E\<rparr>))\<lparr>stdin_buf_size := - 1, normal_key_pressed := 0\<rparr>"
  have "strokes [0x0E] s = Inr ?t"
    using stroke_eq [of "0x0E" s] assms(1,2) by (simp add: normal_key_def print_to_screen_text Let_def)
  moreover have "k \<noteq> 0x0E" using assms(3) by (simp add: char_key_def)
  then have "strokes [k] ?t = Inl Out_Of_Bounds"
    using stroke_eq [of k ?t] assms(2,3)
    by (simp add: normal_key_def key_char_byte append_stdin_def print_to_screen_text Let_def)
  ultimately show ?thesis by (intro exI [of _ ?t]) simp
qed

theorem backspace_underflow_witness:
  "\<exists>t. strokes [0x0E] kernel_example = Inr t \<and> stdin_buf_size t = - 1 \<and> strokes [0x1E] t = Inl Out_Of_Bounds"
  by (rule backspace_underflow) (simp_all add: kernel_example_def char_key_def normalmap_def)

end
