(* ===== verification/Malloc.thy ===== *)
theory Malloc
  imports Plum_Prelude
begin

text \<open>
  The heap of a user program: \<open>malloc\<close> and \<open>free\<close> (libc/malloc.c) over \<open>sbrk\<close> and \<open>brk\<close>
  (libc/sbrk.c, libc/brk.c). Blocks carry their size and an allocation bit in a header and a footer
  of four bytes each. The system call \<open>brk\<close> is an argument of the definitions, a function on the
  state \<open>'k\<close> of the kernel; the theory UserHeap puts the kernel's own in its place. Bytes between
  the start of the heap and the program break can be accessed, every other access faults.
\<close>

unbundle bit_operations_syntax

section \<open>Memory\<close>

record 'k process =
  umem :: "u64 \<Rightarrow> u8"
  heap_base :: u64
  curbrk :: u64
  heap_listp :: u64
  uninitialized_flag :: u32
  stdout :: string
  kern :: 'k

definition load32 :: "(u64 \<Rightarrow> u8) \<Rightarrow> u64 \<Rightarrow> u32" where
  "load32 m p = ucast (m p) OR push_bit 8 (ucast (m (p + 1))) OR push_bit 16 (ucast (m (p + 2))) OR push_bit 24 (ucast (m (p + 3)))"

definition store32 :: "u64 \<Rightarrow> u32 \<Rightarrow> (u64 \<Rightarrow> u8) \<Rightarrow> u64 \<Rightarrow> u8" where
  "store32 p v m = m(p := ucast v, p + 1 := ucast (drop_bit 8 v), p + 2 := ucast (drop_bit 16 v), p + 3 := ucast (drop_bit 24 v))"

definition mapped :: "'k process \<Rightarrow> u64 \<Rightarrow> bool" where
  "mapped u p \<longleftrightarrow> heap_base u \<le> p \<and> p < curbrk u \<and> 4 \<le> curbrk u - p"

definition GET :: "u64 \<Rightarrow> 'k process \<Rightarrow> fault + u32" where
  "GET p u = (if mapped u p then Inr (load32 (umem u) p) else Inl (Page_Fault p))"

definition PUT :: "u64 \<Rightarrow> u32 \<Rightarrow> 'k process \<Rightarrow> fault + 'k process" where
  "PUT p v u = (if mapped u p then Inr (u\<lparr>umem := store32 p v (umem u)\<rparr>) else Inl (Page_Fault p))"

section \<open>The macros\<close>

abbreviation (input) WSIZE :: u64 where "WSIZE \<equiv> 4"
abbreviation (input) DSIZE :: u64 where "DSIZE \<equiv> 8"
abbreviation (input) CHUNK_SIZE :: u64 where "CHUNK_SIZE \<equiv> 4096"
abbreviation (input) MAX_HEAP :: u64 where "MAX_HEAP \<equiv> 1073741824"

definition PACK :: "u64 \<Rightarrow> u64 \<Rightarrow> u32" where
  "PACK sz alloc = ucast (sz OR alloc)"

definition GET_SIZE :: "u64 \<Rightarrow> 'k process \<Rightarrow> fault + u64" where
  "GET_SIZE p u = rbind (GET p u) (\<lambda>w. Inr (ucast (w AND NOT 7)))"

definition GET_ALLOC :: "u64 \<Rightarrow> 'k process \<Rightarrow> fault + u64" where
  "GET_ALLOC p u = rbind (GET p u) (\<lambda>w. Inr (ucast (w AND 7)))"

definition HDRP :: "u64 \<Rightarrow> u64" where
  "HDRP bp = bp - WSIZE"

definition FTRP :: "u64 \<Rightarrow> 'k process \<Rightarrow> fault + u64" where
  "FTRP bp u = rbind (GET_SIZE (HDRP bp) u) (\<lambda>n. Inr (bp + n - DSIZE))"

definition NEXT_BLKP :: "u64 \<Rightarrow> 'k process \<Rightarrow> fault + u64" where
  "NEXT_BLKP bp u = rbind (FTRP bp u) (\<lambda>p. Inr (p + DSIZE))"

definition PREV_BLKP :: "u64 \<Rightarrow> 'k process \<Rightarrow> fault + u64" where
  "PREV_BLKP bp u = rbind (GET_SIZE (bp - DSIZE) u) (\<lambda>n. Inr (bp - n))"

definition ALIGN :: "u64 \<Rightarrow> u64 \<Rightarrow> u64" where
  "ALIGN sz align = (sz + align - 1) AND NOT (align - 1)"

section \<open>The program break\<close>

definition brk :: "(u64 \<Rightarrow> 'k \<Rightarrow> fault + u64 \<times> 'k) \<Rightarrow> u64 \<Rightarrow> 'k process \<Rightarrow> fault + int \<times> 'k process" where
  "brk sys addr u = rbind (sys addr (kern u)) (\<lambda>(ret, k).
     Inr (if ret = addr then 0 else - 1, u\<lparr>kern := k, curbrk := ret\<rparr>))"

definition print :: "string \<Rightarrow> 'k process \<Rightarrow> 'k process" where
  "print t u = u\<lparr>stdout := stdout u @ t @ [CHR 0x0A]\<rparr>"

definition sbrk :: "(u64 \<Rightarrow> 'k \<Rightarrow> fault + u64 \<times> 'k) \<Rightarrow> u64 \<Rightarrow> 'k process \<Rightarrow> fault + u64 \<times> 'k process" where
  "sbrk sys incr u =
     (let old_brk = curbrk u in
      if curbrk u + incr > MAX_HEAP then
        Inr (0, print ''ERROR: sbrk failed. Ran out of memory ...'' u)
      else if incr = 0 then Inr (old_brk, u)
      else rbind (brk sys (old_brk + incr) u) (\<lambda>(ret, u).
        if ret < 0 then Inr (0, print ''ERROR: sbrk failed!'' u) else Inr (old_brk, u)))"

section \<open>Blocks\<close>

definition coalesce :: "u64 \<Rightarrow> 'k process \<Rightarrow> fault + u64 \<times> 'k process" where
  "coalesce bp u =
     rbind (PREV_BLKP bp u) (\<lambda>prev.
     rbind (FTRP prev u) (\<lambda>pf.
     rbind (GET_ALLOC pf u) (\<lambda>prev_alloc.
     rbind (NEXT_BLKP bp u) (\<lambda>nxt.
     rbind (GET_ALLOC (HDRP nxt) u) (\<lambda>next_alloc.
     rbind (GET_SIZE (HDRP bp) u) (\<lambda>size.
     if prev_alloc \<noteq> 0 \<and> next_alloc \<noteq> 0 then Inr (bp, u)
     else if prev_alloc \<noteq> 0 \<and> next_alloc = 0 then
       rbind (GET_SIZE (HDRP nxt) u) (\<lambda>n.
       rbind (PUT (HDRP bp) (PACK (size + n) 0) u) (\<lambda>u.
       rbind (FTRP bp u) (\<lambda>f.
       rbind (PUT f (PACK (size + n) 0) u) (\<lambda>u. Inr (bp, u)))))
     else if prev_alloc = 0 \<and> next_alloc \<noteq> 0 then
       rbind (GET_SIZE (HDRP prev) u) (\<lambda>n.
       rbind (FTRP bp u) (\<lambda>f.
       rbind (PUT f (PACK (size + n) 0) u) (\<lambda>u.
       rbind (PREV_BLKP bp u) (\<lambda>prev.
       rbind (PUT (HDRP prev) (PACK (size + n) 0) u) (\<lambda>u.
       rbind (PREV_BLKP bp u) (\<lambda>prev. Inr (prev, u)))))))
     else
       rbind (GET_SIZE (HDRP prev) u) (\<lambda>n.
       rbind (GET_SIZE (HDRP nxt) u) (\<lambda>n'.
       let size = size + (n + n') in
       rbind (PUT (HDRP prev) (PACK size 0) u) (\<lambda>u.
       rbind (NEXT_BLKP bp u) (\<lambda>nxt.
       rbind (FTRP nxt u) (\<lambda>f.
       rbind (PUT f (PACK size 0) u) (\<lambda>u.
       rbind (PREV_BLKP bp u) (\<lambda>prev. Inr (prev, u))))))))))))))"

definition extend_heap :: "(u64 \<Rightarrow> 'k \<Rightarrow> fault + u64 \<times> 'k) \<Rightarrow> u64 \<Rightarrow> 'k process \<Rightarrow> fault + u64 \<times> 'k process" where
  "extend_heap sys words u =
     (let size = (if words mod 2 \<noteq> 0 then (words + 1) * WSIZE else words * WSIZE) in
      rbind (sbrk sys size u) (\<lambda>(bp, u).
      if bp = 0 then Inr (0, u)
      else
        rbind (PUT (HDRP bp) (PACK size 0) u) (\<lambda>u.
        rbind (FTRP bp u) (\<lambda>f.
        rbind (PUT f (PACK size 0) u) (\<lambda>u.
        rbind (NEXT_BLKP bp u) (\<lambda>nxt.
        rbind (PUT (HDRP nxt) (PACK 0 1) u) (\<lambda>u.
        coalesce bp u)))))))"

definition minit :: "(u64 \<Rightarrow> 'k \<Rightarrow> fault + u64 \<times> 'k) \<Rightarrow> 'k process \<Rightarrow> fault + int \<times> 'k process" where
  "minit sys u =
     rbind (sbrk sys (4 * WSIZE) u) (\<lambda>(p, u).
     let u = u\<lparr>heap_listp := p\<rparr> in
     if p = - 1 then Inr (- 1, u)
     else
       rbind (PUT p 0 u) (\<lambda>u.
       rbind (PUT (p + 1 * WSIZE) (PACK DSIZE 1) u) (\<lambda>u.
       rbind (PUT (p + 2 * WSIZE) (PACK DSIZE 1) u) (\<lambda>u.
       rbind (PUT (p + 3 * WSIZE) (PACK 0 1) u) (\<lambda>u.
       let u = u\<lparr>heap_listp := p + 2 * WSIZE\<rparr> in
       rbind (extend_heap sys (CHUNK_SIZE div WSIZE) u) (\<lambda>(bp, u).
       if bp = 0 then Inr (- 1, u)
       else Inr (0, u\<lparr>uninitialized_flag := 0\<rparr>)))))))"

text \<open>
  The walk along the blocks ends at the block of size 0 behind the last one. Blocks take up at
  least 8 bytes of at most 1 GB, which bounds the number of steps on a heap in order.
\<close>

abbreviation (input) HEAP_FUEL :: nat where "HEAP_FUEL \<equiv> 134217728"

fun find_fit_from :: "nat \<Rightarrow> u64 \<Rightarrow> u64 \<Rightarrow> 'k process \<Rightarrow> fault + u64" where
  "find_fit_from 0 p sz u = Inl Diverge"
| "find_fit_from (Suc k) p sz u =
     rbind (GET_SIZE (HDRP p) u) (\<lambda>n.
     if n = 0 then Inr 0
     else rbind (GET_ALLOC (HDRP p) u) (\<lambda>a.
       if a = 0 \<and> n \<ge> sz then Inr p
       else rbind (NEXT_BLKP p u) (\<lambda>q. find_fit_from k q sz u)))"

definition find_fit :: "u64 \<Rightarrow> 'k process \<Rightarrow> fault + u64" where
  "find_fit sz u = rbind (NEXT_BLKP (heap_listp u) u) (\<lambda>p. find_fit_from HEAP_FUEL p sz u)"

definition place :: "u64 \<Rightarrow> u64 \<Rightarrow> 'k process \<Rightarrow> fault + 'k process" where
  "place bp rsize u =
     rbind (GET_SIZE (HDRP bp) u) (\<lambda>bsize.
     let nsize = bsize - rsize in
     rbind (if bsize > rsize then
              rbind (PUT (HDRP (bp + rsize)) (PACK nsize 0) u) (\<lambda>u.
              rbind (FTRP (bp + rsize) u) (\<lambda>f. PUT f (PACK nsize 0) u))
            else Inr u) (\<lambda>u.
     rbind (PUT (HDRP bp) (PACK bsize 1) u) (\<lambda>u.
     rbind (FTRP bp u) (\<lambda>f. PUT f (PACK bsize 1) u))))"

section \<open>malloc and free\<close>

definition malloc :: "(u64 \<Rightarrow> 'k \<Rightarrow> fault + u64 \<times> 'k) \<Rightarrow> u64 \<Rightarrow> 'k process \<Rightarrow> fault + u64 \<times> 'k process" where
  "malloc sys sz u =
     rbind (if uninitialized_flag u \<noteq> 0 then minit sys u else Inr (0, u)) (\<lambda>(err, u).
     if err \<noteq> 0 then Inr (0, print ''ERROR: initialie malloc failed..'' u)
     else if sz = 0 then Inr (0, u)
     else
       let asize = (if sz \<le> DSIZE then 2 * DSIZE else ALIGN (sz + DSIZE) DSIZE) in
       rbind (find_fit asize u) (\<lambda>bp.
       if bp \<noteq> 0 then rbind (place bp asize u) (\<lambda>u. Inr (bp, u))
       else
         let extend_size = max asize CHUNK_SIZE in
         rbind (extend_heap sys extend_size u) (\<lambda>(bp, u).
         if bp = 0 then Inr (0, u)
         else rbind (place bp asize u) (\<lambda>u. Inr (bp, u)))))"

definition free :: "u64 \<Rightarrow> 'k process \<Rightarrow> fault + 'k process" where
  "free ptr u =
     rbind (GET_SIZE (HDRP ptr) u) (\<lambda>size.
     rbind (PUT (HDRP ptr) (PACK size 0) u) (\<lambda>u.
     rbind (FTRP ptr u) (\<lambda>f.
     rbind (PUT f (PACK size 0) u) (\<lambda>u.
     rbind (coalesce ptr u) (\<lambda>(_, u). Inr u)))))"

end
