(* ===== verification/HeapBlocks.thy ===== *)
theory HeapBlocks
  imports Malloc
begin

text \<open>
  The heap of theory Malloc as a list of blocks: four-byte words in memory, the tags in the headers
  and footers, what a heap in order is (\<open>heap_at\<close>), and what \<open>coalesce\<close> does to its blocks.
\<close>

unbundle bit_operations_syntax

text \<open>Addresses are below 2^64; positions in the heap are counted with natural numbers.\<close>

abbreviation A :: "nat \<Rightarrow> u64" where "A n \<equiv> of_nat n"

section \<open>Words in memory\<close>

lemma load32_store32: "load32 (store32 p v m) p = v"
proof (rule bit_word_eqI)
  fix n assume n: "n < LENGTH(32)"
  consider "n < 8" | "8 \<le> n" "n < 16" | "16 \<le> n" "n < 24" | "24 \<le> n" by linarith
  then show "bit (load32 (store32 p v m) p) n = bit v n"
    using n by cases (auto simp: load32_def store32_def bit_simps)
qed

lemma load32_cong:
  "m' p = m p \<Longrightarrow> m' (p + 1) = m (p + 1) \<Longrightarrow> m' (p + 2) = m (p + 2) \<Longrightarrow> m' (p + 3) = m (p + 3) \<Longrightarrow> load32 m' p = load32 m p"
  by (simp add: load32_def)

lemma of_nat64_eq: "i < 18446744073709551616 \<Longrightarrow> j < 18446744073709551616 \<Longrightarrow> A i = A j \<longleftrightarrow> i = j"
  by (metis unat_of_nat64)

lemma store32_byte:
  assumes "i < 18446744073709551616" "p + 4 \<le> 18446744073709551616" "i < p \<or> p + 4 \<le> i"
  shows "store32 (A p) v m (A i) = m (A i)"
proof -
  have "A i \<noteq> A (p + k)" if "k < 4" for k using assms that by (subst of_nat64_eq) auto
  from this [of 0] this [of 1] this [of 2] this [of 3] show ?thesis
    by (simp add: store32_def add.commute)
qed

definition unchanged :: "nat \<Rightarrow> nat \<Rightarrow> (u64 \<Rightarrow> u8) \<Rightarrow> (u64 \<Rightarrow> u8) \<Rightarrow> bool" where
  "unchanged lo hi m m' \<longleftrightarrow> (\<forall>i. lo \<le> i \<and> i < hi \<longrightarrow> m' (A i) = m (A i))"

definition only_in :: "nat \<Rightarrow> nat \<Rightarrow> (u64 \<Rightarrow> u8) \<Rightarrow> (u64 \<Rightarrow> u8) \<Rightarrow> bool" where
  "only_in s e m m' \<longleftrightarrow> unchanged 0 s m m' \<and> unchanged e 18446744073709551616 m m'"

lemma only_in_mono: "only_in s e m m' \<Longrightarrow> s' \<le> s \<Longrightarrow> e \<le> e' \<Longrightarrow> only_in s' e' m m'"
  by (simp add: only_in_def unchanged_def)

lemma only_in_trans: "only_in s e m m' \<Longrightarrow> only_in s e m' m'' \<Longrightarrow> only_in s e m m''"
  by (simp add: only_in_def unchanged_def)

lemma load32_unchanged:
  assumes "unchanged lo hi m m'" "lo \<le> p" "p + 4 \<le> hi"
  shows "load32 m' (A p) = load32 m (A p)"
proof -
  have "m' (A (p + k)) = m (A (p + k))" if "k < 4" for k using assms that by (simp add: unchanged_def del: of_nat_add)
  from this [of 0] this [of 1] this [of 2] this [of 3] show ?thesis
    by (intro load32_cong) (simp_all add: add.commute)
qed

lemma store32_unchanged:
  "hi \<le> p \<or> p + 4 \<le> lo \<Longrightarrow> hi \<le> 18446744073709551616 \<Longrightarrow> p + 4 \<le> 18446744073709551616 \<Longrightarrow> unchanged lo hi m (store32 (A p) v m)"
  by (auto simp: unchanged_def intro!: store32_byte)

lemma load32_store32_other:
  "q + 4 \<le> p \<or> p + 4 \<le> q \<Longrightarrow> q + 4 \<le> 18446744073709551616 \<Longrightarrow> p + 4 \<le> 18446744073709551616 \<Longrightarrow>
   load32 (store32 (A p) v m) (A q) = load32 m (A q)"
  using load32_unchanged [OF store32_unchanged [of "q + 4" p q]] by auto

section \<open>Tags\<close>

definition tag :: "nat \<Rightarrow> bool \<Rightarrow> u32" where
  "tag n a = of_nat (n + of_bool a)"

lemma unat_and_7: "unat (w AND 7 :: 'a::len word) = unat w mod 8" if "3 \<le> LENGTH('a)"
proof -
  have "w AND 7 = take_bit 3 w" by (simp add: take_bit_eq_mask mask_eq_exp_minus_1)
  then have "unat (w AND 7) = take_bit 3 (unat w)" by (simp only: unsigned_take_bit_eq)
  then show ?thesis by (simp add: take_bit_eq_mod)
qed

lemma unat_and_not_7: "unat (w AND NOT 7 :: 'a::len word) = unat w - unat w mod 8" if "3 \<le> LENGTH('a)"
proof -
  have "w - (w AND 7) = w AND NOT (w AND 7)" by (rule disjunctive_diff) (simp add: bit_and_iff)
  also have "\<dots> = w AND NOT 7" by (rule bit_word_eqI) (auto simp: bit_simps)
  finally have "w AND NOT 7 = w - (w AND 7)" by simp
  moreover have "w AND 7 \<le> w" unfolding word_le_nat_alt unat_and_7 [OF that] by simp
  ultimately show ?thesis by (simp add: unat_sub unat_and_7 [OF that])
qed

lemma unat_tag: "n + 1 < 4294967296 \<Longrightarrow> unat (tag n a) = n + of_bool a"
  by (cases a) (simp_all add: tag_def unat_of_nat flip: of_nat_Suc)

lemma PACK_tag:
  assumes "8 dvd n" "n + 1 < 4294967296"
  shows "PACK (A n) 0 = tag n False" "PACK (A n) 1 = tag n True"
proof -
  have "even (A n)" using assms by (auto simp: even_of_nat_iff)
  then have "A n OR 1 = A (n + 1)" by (simp add: or_one_eq)
  moreover have "ucast (A k) = (of_nat k :: u32)" for k
    by (simp add: word_unat_eq_iff unsigned_ucast_eq take_bit_eq_mod unat_of_nat mod_mod_cancel)
  ultimately show "PACK (A n) 0 = tag n False" "PACK (A n) 1 = tag n True"
    by (simp_all only: PACK_def tag_def of_bool_eq or.right_neutral add_0_right)
qed

lemma tag_size:
  assumes "8 dvd n" "n + 1 < 4294967296"
  shows "ucast (tag n a AND NOT 7) = A n"
proof -
  have "(n + of_bool a) mod 8 = of_bool a" using assms by (cases a) (auto elim!: dvdE)
  then have "unat (tag n a AND NOT 7) = n" using assms by (subst unat_and_not_7) (simp_all add: unat_tag)
  then show ?thesis using assms(2) by (simp add: word_unat_eq_iff unsigned_ucast_eq take_bit_eq_mod unat_of_nat)
qed

lemma tag_alloc:
  assumes "8 dvd n" "n + 1 < 4294967296"
  shows "ucast (tag n a AND 7) = (of_bool a :: u64)"
proof -
  have "(n + of_bool a) mod 8 = of_bool a" using assms by (cases a) (auto elim!: dvdE)
  then have "unat (tag n a AND 7) = of_bool a" using assms by (simp add: unat_and_7 unat_tag)
  then show ?thesis by (simp add: word_unat_eq_iff unsigned_ucast_eq take_bit_eq_mod)
qed

section \<open>Blocks\<close>

type_synonym block = "nat \<times> bool"

text \<open>
  The blocks from the header at address \<open>h\<close> on. A block of size \<open>n\<close> has its header at \<open>h\<close>, its footer
  at \<open>h + n - 4\<close> and the payload between them; \<open>malloc\<close> hands out \<open>h + 4\<close>.
\<close>

fun span :: "block list \<Rightarrow> nat" where
  "span [] = 0"
| "span ((n, a) # bs) = n + span bs"

fun blocks :: "(u64 \<Rightarrow> u8) \<Rightarrow> nat \<Rightarrow> block list \<Rightarrow> bool" where
  "blocks m h [] \<longleftrightarrow> True"
| "blocks m h ((n, a) # bs) \<longleftrightarrow> 8 dvd n \<and> 8 \<le> n \<and> load32 m (A h) = tag n a \<and> load32 m (A (h + n - 4)) = tag n a \<and> blocks m (h + n) bs"

lemma span_append [simp]: "span (xs @ ys) = span xs + span ys"
  by (induction xs rule: span.induct) simp_all

lemma blocks_append [simp]: "blocks m h (xs @ ys) \<longleftrightarrow> blocks m h xs \<and> blocks m (h + span xs) ys"
  by (induction m h xs rule: blocks.induct) (auto simp: add.assoc)

lemma blocks_unchanged:
  assumes "blocks m h bs" "unchanged lo hi m m'" "lo \<le> h" "h + span bs \<le> hi"
  shows "blocks m' h bs"
  using assms
proof (induction m h bs rule: blocks.induct)
  case (2 m h n a bs)
  then show ?case using load32_unchanged [OF 2(3), of h] load32_unchanged [OF 2(3), of "h + n - 4"] by auto
qed simp

text \<open>The whole heap: the blocks, the end mark, and room for addresses.\<close>

definition heap_at :: "'k process \<Rightarrow> nat \<Rightarrow> block list \<Rightarrow> bool" where
  "heap_at u h bs \<longleftrightarrow> blocks (umem u) h bs \<and> load32 (umem u) (A (h + span bs)) = tag 0 True \<and>
     curbrk u = A (h + span bs + 4) \<and> unat (heap_base u) \<le> h \<and> h + span bs + 4 \<le> 1073741824"

lemma mapped_in:
  assumes "heap_at u h bs" "h \<le> p" "p \<le> h + span bs"
  shows "mapped u (A p)"
proof -
  note d = assms(1) [unfolded heap_at_def]
  have "unat (curbrk u - A p) = h + span bs + 4 - p"
    using d assms(2,3) by (subst unat_sub) (simp_all add: u64_le_iff unat_of_nat64 del: of_nat_add)
  then show ?thesis using d assms(2,3) unfolding mapped_def
    by (simp add: u64_le_iff u64_less_iff unat_of_nat64 del: of_nat_add)
qed

section \<open>The macros on a heap in order\<close>

text \<open>The addresses between \<open>lo\<close> and \<open>hi\<close> can be accessed.\<close>

definition area :: "'k process \<Rightarrow> nat \<Rightarrow> nat \<Rightarrow> bool" where
  "area u lo hi \<longleftrightarrow> hi \<le> 1073741824 \<and> (\<forall>p. lo \<le> p \<and> p + 4 \<le> hi \<longrightarrow> mapped u (A p))"

lemma heap_at_area: "heap_at u h bs \<Longrightarrow> area u h (h + span bs + 4)"
  unfolding area_def by (simp add: mapped_in) (simp add: heap_at_def)

lemma area_umem [simp]: "area (u\<lparr>umem := m\<rparr>) lo hi = area u lo hi"
  by (simp add: area_def mapped_def)

lemma GET_area: "area u lo hi \<Longrightarrow> lo \<le> p \<Longrightarrow> p + 4 \<le> hi \<Longrightarrow> GET (A p) u = Inr (load32 (umem u) (A p))"
  by (simp add: GET_def area_def)

lemma PUT_area: "area u lo hi \<Longrightarrow> lo \<le> p \<Longrightarrow> p + 4 \<le> hi \<Longrightarrow> PUT (A p) v u = Inr (u\<lparr>umem := store32 (A p) v (umem u)\<rparr>)"
  by (simp add: PUT_def area_def)

text \<open>The word at \<open>p\<close> is the tag of a block of size \<open>n\<close>.\<close>

definition tagged :: "'k process \<Rightarrow> nat \<Rightarrow> nat \<Rightarrow> nat \<Rightarrow> nat \<Rightarrow> bool \<Rightarrow> bool" where
  "tagged u lo hi p n a \<longleftrightarrow> area u lo hi \<and> lo \<le> p \<and> p + 4 \<le> hi \<and> 8 dvd n \<and> n \<le> 1073741824 \<and> load32 (umem u) (A p) = tag n a"

lemma tagged_words:
  assumes "tagged u lo hi p n a"
  shows "GET_SIZE (A p) u = Inr (A n)" "GET_ALLOC (A p) u = Inr (of_bool a)"
proof -
  note t = assms [unfolded tagged_def]
  have "GET (A p) u = Inr (tag n a)" using t GET_area [of u lo hi p] by simp
  moreover have "ucast (tag n a AND NOT 7) = A n" by (rule tag_size) (use t in auto)
  moreover have "ucast (tag n a AND 7) = (of_bool a :: u64)" by (rule tag_alloc) (use t in auto)
  ultimately show "GET_SIZE (A p) u = Inr (A n)" "GET_ALLOC (A p) u = Inr (of_bool a)"
    by (simp_all only: GET_SIZE_def GET_ALLOC_def rbind_Inr)
qed

lemma HDRP_at: "HDRP (A (h + 4)) = A h"
  by (simp add: HDRP_def)

lemma FTRP_at: "tagged u lo hi h n a \<Longrightarrow> 4 \<le> n \<Longrightarrow> FTRP (A (h + 4)) u = Inr (A (h + n - 4))"
  unfolding FTRP_def HDRP_at by (simp add: tagged_words of_nat_diff algebra_simps)

lemma NEXT_at: "tagged u lo hi h n a \<Longrightarrow> NEXT_BLKP (A (h + 4)) u = Inr (A (h + n + 4))"
  unfolding NEXT_BLKP_def FTRP_def HDRP_at by (simp add: tagged_words algebra_simps)

lemma PREV_at: "tagged u lo hi (h + m - 4) m a \<Longrightarrow> 4 \<le> m \<Longrightarrow> PREV_BLKP (A (h + m + 4)) u = Inr (A (h + 4))"
proof -
  assume t: "tagged u lo hi (h + m - 4) m a" and m: "4 \<le> m"
  have "A (h + m + 4) - 8 = A (h + m - 4)" using m by (simp add: of_nat_diff)
  then have "PREV_BLKP (A (h + m + 4)) u = Inr (A (h + m + 4) - A m)"
    unfolding PREV_BLKP_def by (simp only: tagged_words(1) [OF t] rbind_Inr)
  then show ?thesis by simp
qed

lemma PUT_tagged:
  assumes "area u lo hi" "lo \<le> p" "p + 4 \<le> hi" "8 dvd n" "n \<le> 1073741824"
  shows "\<exists>m. PUT (A p) (PACK (A n) (of_bool a)) u = Inr (u\<lparr>umem := m\<rparr>) \<and> tagged (u\<lparr>umem := m\<rparr>) lo hi p n a \<and>
    only_in p (p + 4) (umem u) m"
proof -
  have "PACK (A n) (of_bool a) = tag n a" using PACK_tag [of n] assms by (cases a) simp_all
  then have "PUT (A p) (PACK (A n) (of_bool a)) u = Inr (u\<lparr>umem := store32 (A p) (tag n a) (umem u)\<rparr>)"
    using PUT_area [OF assms(1-3)] by simp
  moreover have "p + 4 \<le> 18446744073709551616" using assms(1,3) by (simp add: area_def)
  ultimately show ?thesis using assms
    by (intro exI [of _ "store32 (A p) (tag n a) (umem u)"]) (simp add: tagged_def load32_store32 only_in_def store32_unchanged)
qed

lemma tagged_other:
  assumes "tagged u lo hi p n a" "only_in s e (umem u) m" "p + 4 \<le> s \<or> e \<le> p"
  shows "tagged (u\<lparr>umem := m\<rparr>) lo hi p n a"
proof -
  have "p + 4 \<le> 18446744073709551616" using assms(1) by (simp add: tagged_def area_def)
  then have "load32 m (A p) = load32 (umem u) (A p)"
    using assms(2,3) load32_unchanged [of 0 s "umem u" m p] load32_unchanged [of e _ "umem u" m p] by (auto simp: only_in_def)
  then show ?thesis using assms(1) by (simp add: tagged_def)
qed

text \<open>Writing the same tag to two places.\<close>

definition two_tags :: "'k process \<Rightarrow> nat \<Rightarrow> nat \<Rightarrow> nat \<Rightarrow> bool \<Rightarrow> nat \<Rightarrow> nat \<Rightarrow> nat \<Rightarrow> nat \<Rightarrow> (u64 \<Rightarrow> u8) \<Rightarrow> (u64 \<Rightarrow> u8) \<Rightarrow> bool" where
  "two_tags u lo hi n a p q s e M1 M2 \<longleftrightarrow>
    PUT (A p) (PACK (A n) (of_bool a)) u = Inr (u\<lparr>umem := M1\<rparr>) \<and>
    tagged (u\<lparr>umem := M1\<rparr>) lo hi p n a \<and> only_in p (p + 4) (umem u) M1 \<and>
    PUT (A q) (PACK (A n) (of_bool a)) (u\<lparr>umem := M1\<rparr>) = Inr (u\<lparr>umem := M2\<rparr>) \<and> only_in q (q + 4) M1 M2 \<and>
    tagged (u\<lparr>umem := M2\<rparr>) lo hi p n a \<and> tagged (u\<lparr>umem := M2\<rparr>) lo hi q n a \<and> only_in s e (umem u) M2"

lemma PUT_two:
  assumes "area u lo hi" "8 dvd n" "n \<le> 1073741824" "lo \<le> p" "p + 4 \<le> hi" "lo \<le> q" "q + 4 \<le> hi" "p + 4 \<le> q \<or> q + 4 \<le> p"
    and "s \<le> p" "s \<le> q" "p + 4 \<le> e" "q + 4 \<le> e"
  shows "\<exists>M1 M2. two_tags u lo hi n a p q s e M1 M2"
proof -
  obtain M1 where M1: "PUT (A p) (PACK (A n) (of_bool a)) u = Inr (u\<lparr>umem := M1\<rparr>)"
    "tagged (u\<lparr>umem := M1\<rparr>) lo hi p n a" "only_in p (p + 4) (umem u) M1"
    using PUT_tagged [OF assms(1,4,5,2,3)] by blast
  obtain M2 where M2: "PUT (A q) (PACK (A n) (of_bool a)) (u\<lparr>umem := M1\<rparr>) = Inr (u\<lparr>umem := M2\<rparr>)"
    "tagged (u\<lparr>umem := M2\<rparr>) lo hi q n a" "only_in q (q + 4) M1 M2"
    using PUT_tagged [of "u\<lparr>umem := M1\<rparr>" lo hi q n a] assms(1-7) by auto
  have "tagged (u\<lparr>umem := M2\<rparr>) lo hi p n a"
    using tagged_other [OF M1(2), of q "q + 4" M2] M2(3) assms(8) by auto
  moreover have "only_in s e (umem u) M2"
    using only_in_trans [OF only_in_mono [OF M1(3)] only_in_mono [OF M2(3)]] assms(9-12) by blast
  ultimately show ?thesis using M1 M2 unfolding two_tags_def by blast
qed

section \<open>coalesce\<close>

text \<open>A free block, its neighbours' tags, and what \<open>coalesce\<close> leaves.\<close>

definition around :: "'k process \<Rightarrow> nat \<Rightarrow> nat \<Rightarrow> nat \<Rightarrow> nat \<Rightarrow> bool \<Rightarrow> nat \<Rightarrow> nat \<Rightarrow> bool \<Rightarrow> bool" where
  "around u lo hi hp m pa n q qa \<longleftrightarrow> 8 \<le> m \<and> 8 \<le> n \<and>
     tagged u lo hi hp m pa \<and> tagged u lo hi (hp + m - 4) m pa \<and>
     tagged u lo hi (hp + m) n False \<and> tagged u lo hi (hp + m + n - 4) n False \<and>
     tagged u lo hi (hp + m + n) q qa \<and> (qa \<or> tagged u lo hi (hp + m + n + q - 4) q qa \<and> 8 \<le> q)"

definition merged_at :: "'k process \<Rightarrow> (u64 \<Rightarrow> u8) \<Rightarrow> nat \<Rightarrow> nat \<Rightarrow> nat \<Rightarrow> nat \<Rightarrow> bool" where
  "merged_at u M lo hi s k \<longleftrightarrow> tagged (u\<lparr>umem := M\<rparr>) lo hi s k False \<and>
     tagged (u\<lparr>umem := M\<rparr>) lo hi (s + k - 4) k False \<and> only_in s (s + k) (umem u) M"

lemma aroundD:
  assumes "around u lo hi hp m pa n q qa"
  shows "area u lo hi" "lo \<le> hp" "hp + m + n + 4 \<le> hi" "hi \<le> 1073741824" "8 dvd m" "8 dvd n" "8 dvd q" "8 \<le> m" "8 \<le> n"
    "\<not> qa \<Longrightarrow> hp + m + n + q \<le> hi \<and> 8 \<le> q"
  using assms by (auto simp: around_def tagged_def area_def)

lemma around_reads:
  assumes "around u lo hi hp m pa n q qa"
  shows "PREV_BLKP (A (hp + m + 4)) u = Inr (A (hp + 4))" "FTRP (A (hp + 4)) u = Inr (A (hp + m - 4))"
    "GET_ALLOC (A (hp + m - 4)) u = Inr (of_bool pa)" "NEXT_BLKP (A (hp + m + 4)) u = Inr (A (hp + m + n + 4))"
    "GET_ALLOC (A (hp + m + n)) u = Inr (of_bool qa)" "GET_SIZE (A (hp + m + n)) u = Inr (A q)"
    "GET_SIZE (A (hp + m)) u = Inr (A n)" "GET_SIZE (A hp) u = Inr (A m)"
    "FTRP (A (hp + m + 4)) u = Inr (A (hp + m + n - 4))"
  using assms PREV_at [of u lo hi hp m pa] FTRP_at [of u lo hi hp m pa] NEXT_at [of u lo hi "hp + m" n False]
    FTRP_at [of u lo hi "hp + m" n False]
    tagged_words [of u lo hi "hp + m - 4" m pa] tagged_words [of u lo hi "hp + m + n" q qa]
    tagged_words [of u lo hi "hp + m" n False] tagged_words [of u lo hi hp m pa]
  unfolding around_def by (simp_all del: of_nat_add)

lemma coalesce_next:
  assumes a: "around u lo hi hp m True n q False"
  shows "\<exists>M. coalesce (A (hp + m + 4)) u = Inr (A (hp + m + 4), u\<lparr>umem := M\<rparr>) \<and> merged_at u M lo hi (hp + m) (n + q)"
proof -
  note d = aroundD [OF a]
  let ?f = "hp + m + (n + q) - 4"
  have "\<exists>M1 M2. two_tags u lo hi (n + q) False (hp + m) ?f (hp + m) (hp + m + (n + q)) M1 M2"
    by (rule PUT_two) (use d in auto)
  then obtain M1 M2 where "two_tags u lo hi (n + q) False (hp + m) ?f (hp + m) (hp + m + (n + q)) M1 M2" by blast
  note M = this [unfolded two_tags_def]
  have f: "FTRP (A (hp + m + 4)) (u\<lparr>umem := M1\<rparr>) = Inr (A ?f)" by (rule FTRP_at) (use M d in auto)
  have "coalesce (A (hp + m + 4)) u = Inr (A (hp + m + 4), u\<lparr>umem := M2\<rparr>)"
    unfolding coalesce_def using M f by (simp add: around_reads [OF a] HDRP_at del: of_nat_add flip: of_nat_add [of n q])
  then show ?thesis using M unfolding merged_at_def by blast
qed

lemma coalesce_prev:
  assumes a: "around u lo hi hp m False n q True"
  shows "\<exists>M. coalesce (A (hp + m + 4)) u = Inr (A (hp + 4), u\<lparr>umem := M\<rparr>) \<and> merged_at u M lo hi hp (n + m)"
proof -
  note d = aroundD [OF a]
  let ?f = "hp + m + n - 4"
  have sz: "hp + (n + m) - 4 = ?f" by simp
  have "\<exists>M1 M2. two_tags u lo hi (n + m) False ?f hp hp (hp + (n + m)) M1 M2"
    by (rule PUT_two) (use d in auto)
  then obtain M1 M2 where "two_tags u lo hi (n + m) False ?f hp hp (hp + (n + m)) M1 M2" by blast
  note M = this [unfolded two_tags_def]
  have t: "tagged u lo hi (hp + m - 4) m False" using a by (simp add: around_def)
  have t1: "tagged (u\<lparr>umem := M1\<rparr>) lo hi (hp + m - 4) m False" by (rule tagged_other [OF t, of ?f "?f + 4"]) (use M d in auto)
  have t2: "tagged (u\<lparr>umem := M2\<rparr>) lo hi (hp + m - 4) m False" using tagged_other [OF t1, of hp "hp + 4" M2] M d by simp
  have "PREV_BLKP (A (hp + m + 4)) (u\<lparr>umem := M1\<rparr>) = Inr (A (hp + 4))"
    "PREV_BLKP (A (hp + m + 4)) (u\<lparr>umem := M2\<rparr>) = Inr (A (hp + 4))"
    using PREV_at [OF t1] PREV_at [OF t2] d by simp_all
  then have "coalesce (A (hp + m + 4)) u = Inr (A (hp + 4), u\<lparr>umem := M2\<rparr>)"
    unfolding coalesce_def using M by (simp add: around_reads [OF a] HDRP_at del: of_nat_add flip: of_nat_add [of n m])
  then show ?thesis using M unfolding merged_at_def sz by blast
qed

lemma coalesce_both:
  assumes a: "around u lo hi hp m False n q False"
  shows "\<exists>M. coalesce (A (hp + m + 4)) u = Inr (A (hp + 4), u\<lparr>umem := M\<rparr>) \<and> merged_at u M lo hi hp (n + (m + q))"
proof -
  note d = aroundD [OF a]
  let ?f = "hp + m + n + q - 4"
  have sz: "hp + (n + (m + q)) - 4 = ?f" by simp
  have "\<exists>M1 M2. two_tags u lo hi (n + (m + q)) False hp ?f hp (hp + (n + (m + q))) M1 M2"
    by (rule PUT_two) (use d in auto)
  then obtain M1 M2 where "two_tags u lo hi (n + (m + q)) False hp ?f hp (hp + (n + (m + q))) M1 M2" by blast
  note M = this [unfolded two_tags_def]
  note t = a [unfolded around_def]
  have t1: "tagged (u\<lparr>umem := M1\<rparr>) lo hi p k b" if "tagged u lo hi p k b" "hp + 4 \<le> p" for p k b
    by (rule tagged_other [OF that(1), of hp "hp + 4"]) (use M that in auto)
  have r1: "NEXT_BLKP (A (hp + m + 4)) (u\<lparr>umem := M1\<rparr>) = Inr (A (hp + m + n + 4))"
    by (rule NEXT_at [OF t1]) (use t d in auto)
  have r2: "FTRP (A (hp + m + n + 4)) (u\<lparr>umem := M1\<rparr>) = Inr (A ?f)"
    by (rule FTRP_at [OF t1]) (use t d in auto)
  have p1: "tagged (u\<lparr>umem := M1\<rparr>) lo hi (hp + m - 4) m False" by (rule t1) (use t d in auto)
  have "only_in ?f (?f + 4) M1 M2" using M by blast
  then have "tagged (u\<lparr>umem := M1, umem := M2\<rparr>) lo hi (hp + m - 4) m False"
    using d by (intro tagged_other [OF p1, of ?f "?f + 4"]) auto
  from PREV_at [OF this] have "PREV_BLKP (A (hp + m + 4)) (u\<lparr>umem := M2\<rparr>) = Inr (A (hp + 4))" using d by simp
  then have "coalesce (A (hp + m + 4)) u = Inr (A (hp + 4), u\<lparr>umem := M2\<rparr>)"
    unfolding coalesce_def using M r1 r2
    by (simp add: around_reads [OF a] HDRP_at Let_def del: of_nat_add flip: of_nat_add [of m q] of_nat_add [of n "m + q"])
  then show ?thesis using M unfolding merged_at_def sz by blast
qed

lemma coalesce_tags:
  assumes a: "around u lo hi hp m pa n q qa"
  shows "\<exists>M. coalesce (A (hp + m + 4)) u = Inr (A ((if pa then hp + m else hp) + 4), u\<lparr>umem := M\<rparr>) \<and>
    merged_at u M lo hi (if pa then hp + m else hp) (n + ((if pa then 0 else m) + (if qa then 0 else q)))"
proof (cases "pa \<and> qa")
  case True
  then have "coalesce (A (hp + m + 4)) u = Inr (A (hp + m + 4), u)"
    using around_reads [OF a] unfolding coalesce_def by (simp add: HDRP_at del: of_nat_add)
  then show ?thesis using a True
    by (intro exI [of _ "umem u"]) (simp add: merged_at_def around_def only_in_def unchanged_def)
next
  case False
  then show ?thesis using a coalesce_next [of u lo hi hp m n q] coalesce_prev [of u lo hi hp m n q] coalesce_both [of u lo hi hp m n q]
    by (cases pa; cases qa) (simp_all del: of_nat_add)
qed

section \<open>From tags to the list of blocks\<close>

text \<open>The tag behind a list of blocks: that of the first block, or the end mark.\<close>

fun next_tag :: "block list \<Rightarrow> block" where
  "next_tag [] = (0, True)"
| "next_tag (b # bs) = b"

lemma heap_atD:
  assumes "heap_at u h (xs @ ys)"
  shows "area u h (h + span (xs @ ys) + 4)" "blocks (umem u) h xs" "blocks (umem u) (h + span xs) ys"
    "h + span xs + span ys + 4 \<le> 1073741824"
  using assms heap_at_area [OF assms] by (simp_all add: heap_at_def)

lemma heap_at_next:
  assumes "heap_at u h (xs @ ys)"
  shows "tagged u h (h + span (xs @ ys) + 4) (h + span xs) (fst (next_tag ys)) (snd (next_tag ys))"
  using assms heap_at_area [OF assms] by (cases ys) (auto simp: heap_at_def tagged_def area_def)

lemma heap_at_block:
  assumes "heap_at u h (xs @ (n, a) # ys)"
  shows "tagged u h (h + span (xs @ (n, a) # ys) + 4) (h + span xs) n a"
    "tagged u h (h + span (xs @ (n, a) # ys) + 4) (h + span xs + n - 4) n a" "8 \<le> n" "8 dvd n"
  using heap_at_next [OF assms] heap_at_area [OF assms] assms by (auto simp: heap_at_def tagged_def)

text \<open>Replacing a run of blocks by one of the same total size.\<close>

lemma heap_at_replace:
  assumes H: "heap_at u h (xs @ zs @ ys)" and k: "k = span zs" "8 \<le> k"
    and M: "only_in (h + span xs) (h + span xs + k) (umem u) M"
    and t: "tagged (u\<lparr>umem := M\<rparr>) lo hi (h + span xs) k a" "tagged (u\<lparr>umem := M\<rparr>) lo hi (h + span xs + k - 4) k a"
  shows "heap_at (u\<lparr>umem := M\<rparr>) h (xs @ (k, a) # ys)"
proof -
  note d = heap_atD [OF H] heap_atD [of u h "xs @ zs" ys]
  have hi: "h + span xs + k + span ys + 4 \<le> 1073741824" using d(4) k by simp
  have "blocks M h xs" by (rule blocks_unchanged [OF d(2), of 0 "h + span xs"]) (use M in \<open>auto simp: only_in_def\<close>)
  moreover have b: "blocks (umem u) (h + span xs + k) ys" using d(3) k by simp
  have "blocks M (h + span xs + k) ys"
    by (rule blocks_unchanged [OF b, of "h + span xs + k" 18446744073709551616]) (use M hi in \<open>auto simp: only_in_def\<close>)
  moreover have "load32 M (A (h + span xs + k + span ys)) = tag 0 True"
  proof -
    have "load32 (umem u) (A (h + span xs + k + span ys)) = tag 0 True"
      using H k unfolding heap_at_def by (simp add: add.assoc del: of_nat_add)
    then show ?thesis using load32_unchanged [of "h + span xs + k" 18446744073709551616 "umem u" M "h + span xs + k + span ys"] M hi
      by (simp add: only_in_def del: of_nat_add)
  qed
  ultimately show ?thesis using t H k
    unfolding heap_at_def tagged_def by (simp add: add.assoc del: of_nat_add)
qed

text \<open>What becomes of a block of size \<open>n\<close> that is freed, between the block \<open>(m, pa)\<close> and \<open>ys\<close>.\<close>

definition next_free :: "block list \<Rightarrow> nat" where
  "next_free ys = (if snd (next_tag ys) then 0 else fst (next_tag ys))"

definition after_free :: "block list \<Rightarrow> block list" where
  "after_free ys = (if snd (next_tag ys) then ys else tl ys)"

definition merge :: "nat \<Rightarrow> bool \<Rightarrow> nat \<Rightarrow> block list \<Rightarrow> block list" where
  "merge m pa n ys = (if pa then (m, pa) # (n + next_free ys, False) # after_free ys
     else (n + (m + next_free ys), False) # after_free ys)"

lemma span_merge: "span (merge m pa n ys) = m + n + span ys"
  by (cases ys) (auto simp: merge_def next_free_def after_free_def)

lemma heap_at_coalesce:
  assumes H: "heap_at u h (xs @ (m, pa) # (n, False) # ys)"
  shows "\<exists>M. coalesce (A (h + span xs + m + 4)) u = Inr (A (h + span xs + (if pa then m else 0) + 4), u\<lparr>umem := M\<rparr>) \<and>
    heap_at (u\<lparr>umem := M\<rparr>) h (xs @ merge m pa n ys) \<and>
    only_in (h + span xs + (if pa then m else 0)) (h + span xs + m + n + next_free ys) (umem u) M"
proof -
  let ?hi = "h + span (xs @ (m, pa) # (n, False) # ys) + 4"
  obtain q qa where q: "next_tag ys = (q, qa)" by fastforce
  have nf: "next_free ys = (if qa then 0 else q)" by (simp add: next_free_def q)
  note b = heap_at_block [OF H]
  have H2: "heap_at u h ((xs @ [(m, pa)]) @ (n, False) # ys)" using H by simp
  have H3: "heap_at u h ((xs @ [(m, pa), (n, False)]) @ ys)" using H by simp
  note c = heap_at_block [OF H2] and e = heap_at_next [OF H3]
  have f: "qa \<or> tagged u h ?hi (h + span xs + m + n + q - 4) q qa \<and> 8 \<le> q"
  proof (cases ys)
    case (Cons y zs)
    then show ?thesis using q H3 heap_at_block [of u h "xs @ [(m, pa), (n, False)]" q qa zs] by (auto simp: add.assoc)
  qed (use q in simp)
  have "around u h ?hi (h + span xs) m pa n q qa"
    using b c e f q by (simp add: around_def add.assoc)
  from coalesce_tags [OF this] obtain M
    where M: "coalesce (A (h + span xs + m + 4)) u = Inr (A (h + span xs + (if pa then m else 0) + 4), u\<lparr>umem := M\<rparr>)"
      "merged_at u M h ?hi (h + span xs + (if pa then m else 0)) (n + ((if pa then 0 else m) + next_free ys))"
    by (cases pa) (auto simp: nf simp del: of_nat_add)
  note t = M(2) [unfolded merged_at_def]
  have tot: "span ys = next_free ys + span (after_free ys)" by (cases ys) (auto simp: next_free_def after_free_def)
  have zs: "\<exists>zs. ys = zs @ after_free ys \<and> span zs = next_free ys"
    using q by (cases ys) (auto simp: next_free_def after_free_def intro: exI [of _ "[]"] exI [of _ "[(q, qa)]"])
  then obtain zs where zs: "ys = zs @ after_free ys" "span zs = next_free ys" by blast
  have "heap_at (u\<lparr>umem := M\<rparr>) h (xs @ merge m pa n ys)"
  proof (cases pa)
    case True
    have H4: "heap_at u h ((xs @ [(m, pa)]) @ ((n, False) # zs) @ after_free ys)" using H zs(1) by simp
    show ?thesis using heap_at_replace [OF H4, of "n + next_free ys" M h ?hi False] t c(3) zs(2) True
      by (simp add: merge_def add.assoc)
  next
    case False
    have H4: "heap_at u h (xs @ ((m, pa) # (n, False) # zs) @ after_free ys)" using H zs(1) by simp
    show ?thesis using heap_at_replace [OF H4, of "n + (m + next_free ys)" M h ?hi False] t c(3) zs(2) False
      by (simp add: merge_def add.assoc)
  qed
  moreover have "h + span xs + (if pa then m else 0) + (n + ((if pa then 0 else m) + next_free ys)) = h + span xs + m + n + next_free ys"
    by simp
  ultimately show ?thesis using M(1) t by metis
qed

end
