(* ===== verification/HeapOps.thy ===== *)
theory HeapOps
  imports HeapBlocks
begin

text \<open>
  What \<open>free\<close>, \<open>place\<close>, \<open>find_fit\<close>, \<open>extend_heap\<close> and \<open>minit\<close> do to the list of blocks of a heap in
  order, and the contract of \<open>malloc\<close> and \<open>free\<close> over every kernel whose \<open>brk\<close> grants the break it
  is asked for.
\<close>

unbundle bit_operations_syntax

section \<open>free and place\<close>

lemma retag:
  assumes H: "heap_at u h (xs @ (n, a) # ys)"
  shows "\<exists>M1 M2. two_tags u h (h + span (xs @ (n, a) # ys) + 4) n b (h + span xs) (h + span xs + n - 4) (h + span xs) (h + span xs + n) M1 M2 \<and>
    heap_at (u\<lparr>umem := M2\<rparr>) h (xs @ (n, b) # ys)"
proof -
  note t = heap_at_block [OF H]
  have "\<exists>M1 M2. two_tags u h (h + span (xs @ (n, a) # ys) + 4) n b (h + span xs) (h + span xs + n - 4) (h + span xs) (h + span xs + n) M1 M2"
    by (rule PUT_two) (use t in \<open>auto simp: tagged_def\<close>)
  then obtain M1 M2 where M: "two_tags u h (h + span (xs @ (n, a) # ys) + 4) n b (h + span xs) (h + span xs + n - 4) (h + span xs) (h + span xs + n) M1 M2"
    by blast
  have "heap_at (u\<lparr>umem := M2\<rparr>) h (xs @ (n, b) # ys)"
    by (rule heap_at_replace [where zs = "[(n, a)]"]) (use H M t in \<open>auto simp: two_tags_def\<close>)
  then show ?thesis using M by blast
qed

lemma heap_at_free:
  assumes H: "heap_at u h (xs @ (m, pa) # (n, True) # ys)"
  shows "\<exists>M. free (A (h + span xs + m + 4)) u = Inr (u\<lparr>umem := M\<rparr>) \<and> heap_at (u\<lparr>umem := M\<rparr>) h (xs @ merge m pa n ys) \<and>
    only_in (h + span xs + (if pa then m else 0)) (h + span xs + m + n + next_free ys) (umem u) M"
proof -
  let ?p = "h + span xs + m"
  have H2: "heap_at u h ((xs @ [(m, pa)]) @ (n, True) # ys)" using H by simp
  note t = heap_at_block [OF H2]
  have sp: "h + span (xs @ [(m, pa)]) = ?p" by simp
  obtain M1 M2 where M: "two_tags u h (h + span ((xs @ [(m, pa)]) @ (n, True) # ys) + 4) n False ?p (?p + n - 4) ?p (?p + n) M1 M2"
    "heap_at (u\<lparr>umem := M2\<rparr>) h ((xs @ [(m, pa)]) @ (n, False) # ys)"
    using retag [OF H2, of False] unfolding sp by blast
  note w = M(1) [unfolded two_tags_def]
  have H3: "heap_at (u\<lparr>umem := M2\<rparr>) h (xs @ (m, pa) # (n, False) # ys)" using M(2) by simp
  obtain M where c: "coalesce (A (?p + 4)) (u\<lparr>umem := M2\<rparr>) = Inr (A (h + span xs + (if pa then m else 0) + 4), u\<lparr>umem := M\<rparr>)"
    "heap_at (u\<lparr>umem := M\<rparr>) h (xs @ merge m pa n ys)"
    "only_in (h + span xs + (if pa then m else 0)) (?p + n + next_free ys) M2 M"
    using heap_at_coalesce [OF H3] by (auto simp del: of_nat_add)
  have f: "FTRP (A (?p + 4)) (u\<lparr>umem := M1\<rparr>) = Inr (A (?p + n - 4))" by (rule FTRP_at) (use w t in auto)
  have g: "GET_SIZE (A ?p) u = Inr (A n)" using tagged_words(1) [OF t(1)] unfolding sp .
  have "free (A (?p + 4)) u = Inr (u\<lparr>umem := M\<rparr>)"
    unfolding free_def HDRP_at using w f g c(1) by (simp del: of_nat_add)
  moreover have "only_in (h + span xs + (if pa then m else 0)) (?p + n + next_free ys) (umem u) M"
    by (rule only_in_trans [OF only_in_mono c(3)]) (use w in auto)
  ultimately show ?thesis using c(2) by blast
qed

lemma heap_at_place:
  assumes H: "heap_at u h (xs @ (n, False) # ys)" and r: "r \<le> n" "8 dvd r" "8 \<le> r"
  shows "\<exists>M. place (A (h + span xs + 4)) (A r) u = Inr (u\<lparr>umem := M\<rparr>) \<and> heap_at (u\<lparr>umem := M\<rparr>) h (xs @ (n, True) # ys) \<and>
    only_in (h + span xs) (h + span xs + n) (umem u) M"
proof -
  let ?p = "h + span xs" and ?hi = "h + span (xs @ (n, False) # ys) + 4"
  note t = heap_at_block [OF H]
  have hi: "?hi \<le> 1073741824" using heap_atD(4) [OF H] by simp
  have cmp: "A n > A r \<longleftrightarrow> r < n" using r hi by (simp add: u64_less_iff unat_of_nat64)
  obtain M0 where M0: "(if A n > A r then
      rbind (PUT (HDRP (A (?p + 4) + A r)) (PACK (A n - A r) 0) u) (\<lambda>u. rbind (FTRP (A (?p + 4) + A r) u) (\<lambda>f. PUT f (PACK (A n - A r) 0) u))
      else Inr u) = Inr (u\<lparr>umem := M0\<rparr>)" "only_in (?p + r) (?p + n) (umem u) M0"
  proof (cases "r < n")
    case True
    have dv: "8 dvd n - r" "8 \<le> n - r" using True r t(4) by (auto elim!: dvdE)
    have "\<exists>M1 M2. two_tags u h ?hi (n - r) False (?p + r) (?p + n - 4) (?p + r) (?p + n) M1 M2"
      by (rule PUT_two) (use t dv r True in \<open>auto simp: tagged_def\<close>)
    then obtain M1 M2 where "two_tags u h ?hi (n - r) False (?p + r) (?p + n - 4) (?p + r) (?p + n) M1 M2" by blast
    note w = this [unfolded two_tags_def]
    have a: "A (?p + 4) + A r = A (?p + r + 4)" "A n - A r = A (n - r)" using True by (simp_all add: of_nat_diff)
    have "FTRP (A (?p + r + 4)) (u\<lparr>umem := M1\<rparr>) = Inr (A (?p + r + (n - r) - 4))" by (rule FTRP_at) (use w dv in auto)
    moreover have "?p + r + (n - r) - 4 = ?p + n - 4" using True by simp
    ultimately have f: "FTRP (A (?p + r + 4)) (u\<lparr>umem := M1\<rparr>) = Inr (A (?p + n - 4))" by (simp only:)
    have "rbind (PUT (A (?p + r)) (PACK (A (n - r)) (of_bool False)) u) (\<lambda>u. rbind (FTRP (A (?p + r + 4)) u) (\<lambda>f. PUT f (PACK (A (n - r)) (of_bool False)) u)) =
      Inr (u\<lparr>umem := M2\<rparr>)" using w f by (simp only: rbind_Inr)
    then show ?thesis
      by (intro that [of M2]) (use w cmp True in \<open>simp_all only: a HDRP_at of_bool_eq if_True\<close>)
  next
    case False
    then show ?thesis using that [of "umem u"] cmp by (simp add: only_in_def unchanged_def)
  qed
  have m0: "only_in (?p + 4) (?p + n) (umem u) M0" by (rule only_in_mono [OF M0(2)]) (use r in auto)
  have t0: "tagged (u\<lparr>umem := M0\<rparr>) h ?hi ?p n False" by (rule tagged_other [OF t(1) m0]) simp
  have "\<exists>M1 M2. two_tags (u\<lparr>umem := M0\<rparr>) h ?hi n True ?p (?p + n - 4) ?p (?p + n) M1 M2"
    by (rule PUT_two) (use t0 t in \<open>auto simp: tagged_def\<close>)
  then obtain M1 M2 where "two_tags (u\<lparr>umem := M0\<rparr>) h ?hi n True ?p (?p + n - 4) ?p (?p + n) M1 M2" by blast
  note w = this [unfolded two_tags_def]
  have f: "FTRP (A (?p + 4)) (u\<lparr>umem := M1\<rparr>) = Inr (A (?p + n - 4))" by (rule FTRP_at) (use w t in auto)
  have "place (A (?p + 4)) (A r) u = Inr (u\<lparr>umem := M2\<rparr>)"
    unfolding place_def HDRP_at tagged_words(1) [OF t(1)] Let_def using M0(1) w f by (simp del: of_nat_add)
  moreover have o: "only_in ?p (?p + n) (umem u) M2"
    by (rule only_in_trans [OF only_in_mono [OF M0(2)]]) (use w in auto)
  moreover have "heap_at (u\<lparr>umem := M2\<rparr>) h (xs @ (n, True) # ys)"
    by (rule heap_at_replace [where zs = "[(n, False)]"]) (use H o w t in auto)
  ultimately show ?thesis by blast
qed

section \<open>find_fit\<close>

text \<open>The header of the first free block of at least \<open>r\<close> bytes.\<close>

fun first_fit :: "nat \<Rightarrow> nat \<Rightarrow> block list \<Rightarrow> nat option" where
  "first_fit p r [] = None"
| "first_fit p r ((n, a) # bs) = (if \<not> a \<and> r \<le> n then Some p else first_fit (p + n) r bs)"

lemma first_fit_Some:
  "first_fit p r bs = Some q \<Longrightarrow> \<exists>xs n ys. bs = xs @ (n, False) # ys \<and> q = p + span xs \<and> r \<le> n"
proof (induction p r bs rule: first_fit.induct)
  case (2 p r n a bs)
  show ?case
  proof (cases "\<not> a \<and> r \<le> n")
    case True
    then show ?thesis using 2 by (intro exI [of _ "[]"]) auto
  next
    case False
    then obtain xs k ys where "bs = xs @ (k, False) # ys" "q = p + n + span xs" "r \<le> k" using 2 by auto
    then show ?thesis by (intro exI [of _ "(n, a) # xs"]) auto
  qed
qed simp

lemma find_fit_from_blocks:
  assumes "heap_at u h (xs @ ys)" "length ys < k" "r < 18446744073709551616"
  shows "find_fit_from k (A (h + span xs + 4)) (A r) u =
    Inr (case first_fit (h + span xs) r ys of None \<Rightarrow> 0 | Some p \<Rightarrow> A (p + 4))"
  using assms(1,2)
proof (induction ys arbitrary: xs k)
  case Nil
  have g: "GET_SIZE (A (h + span xs)) u = Inr (A 0)" using tagged_words(1) [OF heap_at_next [OF Nil(1)]] by simp
  obtain j where "k = Suc j" using Nil by (cases k) auto
  then show ?case using g unfolding HDRP_at by (simp add: HDRP_at del: of_nat_add)
next
  case (Cons b ys)
  obtain n a where b: "b = (n, a)" by fastforce
  have H: "heap_at u h (xs @ (n, a) # ys)" "heap_at u h ((xs @ [(n, a)]) @ ys)" using Cons(2) b by simp_all
  note t = heap_at_block [OF H(1)]
  have n: "n < 18446744073709551616" using t(1) by (simp add: tagged_def)
  have cmp: "A n = 0 \<longleftrightarrow> False" "A n \<ge> A r \<longleftrightarrow> r \<le> n"
    using t(3) n assms(3) of_nat64_eq [of n 0] by (auto simp: u64_le_iff unat_of_nat64)
  obtain j where k: "k = Suc j" "length ys < j" using Cons(3) by (cases k) auto
  have sp: "h + span (xs @ [(n, a)]) = h + span xs + n" by simp
  show ?case
    using Cons(1) [OF H(2) k(2)] tagged_words [OF t(1)] NEXT_at [OF t(1)]
    unfolding k(1) b sp by (simp add: HDRP_at cmp del: of_nat_add)
qed

lemma blocks_length: "blocks m h bs \<Longrightarrow> 8 * length bs \<le> span bs"
  by (induction m h bs rule: blocks.induct) auto

section \<open>The invariant of the heap\<close>

text \<open>No two free blocks are next to each other.\<close>

fun no_free_pair :: "block list \<Rightarrow> bool" where
  "no_free_pair ((n, a) # (m, b) # bs) \<longleftrightarrow> (a \<or> b) \<and> no_free_pair ((m, b) # bs)"
| "no_free_pair bs \<longleftrightarrow> True"

definition heap_ok :: "'k process \<Rightarrow> nat \<Rightarrow> block list \<Rightarrow> bool" where
  "heap_ok u h bs \<longleftrightarrow> heap_at u h ((8, True) # bs) \<and> heap_listp u = A (h + 4) \<and> uninitialized_flag u = 0 \<and>
     (\<forall>(n, a) \<in> set bs. 16 \<le> n) \<and> no_free_pair bs"

lemma find_fit_blocks:
  assumes "heap_ok u h bs" "r < 18446744073709551616"
  shows "find_fit (A r) u = Inr (case first_fit (h + 8) r bs of None \<Rightarrow> 0 | Some p \<Rightarrow> A (p + 4))"
proof -
  have H: "heap_at u h ([] @ (8, True) # bs)" "heap_at u h ([(8, True)] @ bs)" "heap_listp u = A (h + 4)"
    using assms by (simp_all add: heap_ok_def)
  have "8 * length bs \<le> span bs" using heap_atD(3) [OF H(2)] by (rule blocks_length)
  then have l: "length bs < HEAP_FUEL" using heap_atD(4) [OF H(2)] by simp
  have "NEXT_BLKP (A (h + 4)) u = Inr (A (h + 8 + 4))" using NEXT_at [OF heap_at_block(1) [OF H(1)]] by simp
  then show ?thesis using find_fit_from_blocks [OF H(2) l assms(2)]
    unfolding find_fit_def H(3) by (simp del: of_nat_add)
qed

lemma no_free_pair_append: "no_free_pair (xs @ ys) \<longleftrightarrow> no_free_pair xs \<and> no_free_pair ys \<and>
    (xs = [] \<or> ys = [] \<or> snd (last xs) \<or> snd (hd ys))"
proof (induction xs)
  case (Cons x xs)
  then show ?case by (cases x; cases xs; cases ys) auto
qed simp

text \<open>The allocated blocks: address of the header and size.\<close>

fun live :: "nat \<Rightarrow> block list \<Rightarrow> (nat \<times> nat) set" where
  "live p [] = {}"
| "live p ((n, a) # bs) = (if a then {(p, n)} else {}) \<union> live (p + n) bs"

lemma live_append [simp]: "live p (xs @ ys) = live p xs \<union> live (p + span xs) ys"
  by (induction p xs rule: live.induct) (auto simp: add.assoc)

lemma live_bounds: "(q, k) \<in> live p bs \<Longrightarrow> p \<le> q \<and> q + k \<le> p + span bs"
  by (induction p bs rule: live.induct) (auto split: if_splits)

text \<open>Allocated blocks do not overlap.\<close>

lemma live_disjoint: "(q, k) \<in> live p bs \<Longrightarrow> (r, j) \<in> live p bs \<Longrightarrow> (q, k) = (r, j) \<or> q + k \<le> r \<or> r + j \<le> q"
proof (induction p bs rule: live.induct)
  case (2 p n a bs)
  then show ?case by (auto split: if_splits dest: live_bounds)
qed simp

section \<open>The size of a request\<close>

definition adjusted :: "nat \<Rightarrow> nat" where
  "adjusted n = (if n \<le> 8 then 16 else (n + 15) div 8 * 8)"

lemma adjusted_props: "8 dvd adjusted n" "n + 8 \<le> adjusted n" "16 \<le> adjusted n" "adjusted n \<le> n + 16"
  by (auto simp: adjusted_def)

lemma asize_adjusted:
  assumes "unat sz + 15 < 18446744073709551616"
  shows "(if sz \<le> 8 then 2 * 8 else ALIGN (sz + 8) 8) = A (adjusted (unat sz))"
proof -
  have "unat ((sz + 8 + 8 - 1) AND NOT 7) = (unat sz + 15) div 8 * 8"
  proof -
    have "sz + 8 + 8 - 1 = A (unat sz + 15)" by simp
    then have "unat (sz + 8 + 8 - 1) = unat sz + 15" using assms by (simp only: unat_of_nat64)
    then show ?thesis by (subst unat_and_not_7) (simp_all add: minus_mod_eq_div_mult)
  qed
  moreover have seven: "(8 :: u64) - 1 = 7" by simp
  ultimately have "ALIGN (sz + 8) 8 = A ((unat sz + 15) div 8 * 8)"
    unfolding ALIGN_def unfolding seven by (metis u64_eq_iff unat_of_nat64 unat_lt64)
  then show ?thesis by (simp add: adjusted_def u64_le_iff)
qed

section \<open>What malloc and free promise\<close>

text \<open>
  A block of \<open>n\<close> bytes with header at \<open>p\<close> has become allocated, every other allocated block still
  is and has the same contents.
\<close>

definition allocated :: "'k process \<Rightarrow> nat \<Rightarrow> block list \<Rightarrow> 'k process \<Rightarrow> nat \<Rightarrow> nat \<Rightarrow> bool" where
  "allocated u h bs v p n \<longleftrightarrow> (\<exists>bs'. heap_ok v h bs' \<and> live (h + 8) bs' = insert (p, n) (live (h + 8) bs)) \<and>
     (p, n) \<notin> live (h + 8) bs \<and> (\<forall>(q, k) \<in> live (h + 8) bs. unchanged q (q + k) (umem u) (umem v))"

lemma only_in_unchanged: "only_in s e m m' \<Longrightarrow> hi \<le> s \<or> e \<le> lo \<and> hi \<le> 18446744073709551616 \<Longrightarrow> unchanged lo hi m m'"
  by (auto simp: only_in_def unchanged_def)

lemma allocated_fit:
  assumes ok: "heap_ok u h (ys @ (n, False) # zs)" and p: "p = h + 8 + span ys"
    and v: "heap_at v h ((8, True) # ys @ (n, True) # zs)" "heap_listp v = heap_listp u" "uninitialized_flag v = uninitialized_flag u"
    and M: "only_in p (p + n) (umem u) (umem v)"
  shows "allocated u h (ys @ (n, False) # zs) v p n"
proof -
  have bnd: "h + 8 + span ys + n + span zs \<le> 1073741824" using v(1) by (simp add: heap_at_def)
  have "heap_ok v h (ys @ (n, True) # zs)"
    using ok v by (cases zs) (auto simp: heap_ok_def no_free_pair_append)
  moreover have n: "8 \<le> n" using ok by (simp add: heap_ok_def)
  have "q + k \<le> p \<or> p + n \<le> q \<and> q + k \<le> 18446744073709551616" if "(q, k) \<in> live (h + 8) (ys @ (n, False) # zs)" for q k
    using that bnd live_bounds [of q k "h + 8" ys] live_bounds [of q k "p + n" zs] by (auto simp: p)
  moreover from this have "(p, n) \<notin> live (h + 8) (ys @ (n, False) # zs)" using n by fastforce
  ultimately show ?thesis unfolding allocated_def
    by (intro conjI exI [of _ "ys @ (n, True) # zs"]) (use p M in \<open>auto intro!: only_in_unchanged [OF M]\<close>)
qed

lemma allocated_new:
  assumes ok: "heap_ok u h (ys @ zs)" and zs: "zs = [] \<or> zs = [(j, False)]" and p: "p = h + 8 + span ys" and n: "16 \<le> n"
    and v: "heap_at v h ((8, True) # ys @ [(n, True)])" "heap_listp v = heap_listp u" "uninitialized_flag v = uninitialized_flag u"
    and M: "only_in p e (umem u) (umem v)"
  shows "allocated u h (ys @ zs) v p n"
proof -
  have "heap_ok v h (ys @ [(n, True)])" using ok v n by (auto simp: heap_ok_def no_free_pair_append)
  moreover have l: "live (h + 8) (ys @ zs) = live (h + 8) ys" using zs by auto
  have "q + k \<le> p" if "(q, k) \<in> live (h + 8) ys" for q k using live_bounds [OF that] p by simp
  moreover from this have "(p, n) \<notin> live (h + 8) ys" using n by fastforce
  ultimately show ?thesis unfolding allocated_def l
    by (intro conjI exI [of _ "ys @ [(n, True)]"]) (use p in \<open>auto intro!: only_in_unchanged [OF M]\<close>)
qed

definition freed :: "'k process \<Rightarrow> nat \<Rightarrow> block list \<Rightarrow> 'k process \<Rightarrow> nat \<Rightarrow> nat \<Rightarrow> bool" where
  "freed u h bs v p n \<longleftrightarrow> (\<exists>bs'. heap_ok v h bs' \<and> live (h + 8) bs' = live (h + 8) bs - {(p, n)}) \<and>
     (\<forall>(q, k) \<in> live (h + 8) bs - {(p, n)}. unchanged q (q + k) (umem u) (umem v))"

lemma live_split: "(p, n) \<in> live s bs \<Longrightarrow> \<exists>ys zs. bs = ys @ (n, True) # zs \<and> p = s + span ys"
proof (induction s bs rule: live.induct)
  case (2 s k a bs)
  then consider "a" "p = s" "n = k" | ys zs where "bs = ys @ (n, True) # zs" "p = s + k + span ys" by (auto split: if_splits)
  then show ?case
  proof cases
    case 2
    then show ?thesis by (intro exI [of _ "(k, a) # ys"] exI [of _ zs]) simp
  qed (auto intro: exI [of _ "[]"])
qed simp

lemma live_merge:
  "live s (merge m pa n zs) = (if pa then {(s, m)} else {}) \<union> live (s + m + n) zs"
  by (cases zs) (auto simp: merge_def next_free_def after_free_def ac_simps)

lemma no_free_pair_merge:
  "no_free_pair ((m, pa) # (n, True) # zs) \<Longrightarrow> no_free_pair (merge m pa n zs)"
  by (cases zs rule: no_free_pair.cases) (auto simp: merge_def next_free_def after_free_def)

lemma merge_sizes:
  "\<forall>(k, a) \<in> set ((n, True) # zs). 16 \<le> k \<Longrightarrow> pa \<longrightarrow> 16 \<le> m \<Longrightarrow> \<forall>(k, a) \<in> set (merge m pa n zs). 16 \<le> k"
  by (cases zs) (auto simp: merge_def next_free_def after_free_def)

lemma live_after_free:
  "live (s + next_free zs) (after_free zs) = live s zs" "span zs = next_free zs + span (after_free zs)"
  by (cases zs; auto simp: next_free_def after_free_def)+

text \<open>The blocks behind the prologue, after the block behind \<open>ys\<close> has been freed.\<close>

definition free_blocks :: "block list \<Rightarrow> nat \<Rightarrow> block list \<Rightarrow> block list" where
  "free_blocks ys n zs = (if ys = [] then (n + next_free zs, False) # after_free zs
     else butlast ys @ merge (fst (last ys)) (snd (last ys)) n zs)"

lemma live_free_blocks: "live s (free_blocks ys n zs) = live s ys \<union> live (s + span ys + n) zs"
proof (cases ys rule: rev_cases)
  case Nil
  then show ?thesis using live_after_free(1) [of "s + n" zs] by (simp add: free_blocks_def add.assoc)
next
  case (snoc xs b)
  then show ?thesis by (cases b) (auto simp: free_blocks_def live_merge add.assoc)
qed

lemma free_blocks_ok:
  assumes "\<forall>(k, a) \<in> set (ys @ (n, True) # zs). 16 \<le> k" "no_free_pair (ys @ (n, True) # zs)"
  shows "(\<forall>(k, a) \<in> set (free_blocks ys n zs). 16 \<le> k) \<and> no_free_pair (free_blocks ys n zs)"
proof (cases ys rule: rev_cases)
  case Nil
  then have "free_blocks ys n zs = merge 0 False n zs" by (simp add: free_blocks_def merge_def)
  moreover have "no_free_pair ((0, False) # (n, True) # zs)" using assms(2) Nil by simp
  moreover have "\<forall>(k, a) \<in> set (merge 0 False n zs). 16 \<le> k" by (rule merge_sizes) (use assms(1) Nil in simp_all)
  ultimately show ?thesis using no_free_pair_merge by metis
next
  case (snoc xs b)
  obtain m pa where b: "b = (m, pa)" by fastforce
  have "no_free_pair ((m, pa) # (n, True) # zs)" "no_free_pair xs" "xs = [] \<or> snd (last xs) \<or> pa"
    using assms(2) unfolding snoc b by (auto simp: no_free_pair_append)
  moreover have "snd (hd (merge m pa n zs)) = pa" "merge m pa n zs \<noteq> []" by (simp_all add: merge_def)
  moreover have "\<forall>(k, a) \<in> set (merge m pa n zs). 16 \<le> k" by (rule merge_sizes) (use assms(1) snoc b in auto)
  ultimately show ?thesis using assms(1) no_free_pair_merge [of m pa n zs]
    by (auto simp: free_blocks_def snoc b no_free_pair_append)
qed

lemma heap_ok_free:
  assumes ok: "heap_ok u h bs" and p: "(p, n) \<in> live (h + 8) bs"
  shows "\<exists>v. free (A (p + 4)) u = Inr v \<and> freed u h bs v p n"
proof -
  obtain ys zs where b: "bs = ys @ (n, True) # zs" "p = h + 8 + span ys" using live_split [OF p] by blast
  obtain xs m pa where cs: "(8, True) # ys = xs @ [(m, pa)]" by (metis list.distinct(1) rev_exhaust surj_pair)
  have "(8, True) # bs = ((8, True) # ys) @ (n, True) # zs" using b(1) by simp
  also have "\<dots> = xs @ (m, pa) # (n, True) # zs" unfolding cs by simp
  finally have H: "heap_at u h (xs @ (m, pa) # (n, True) # zs)" using ok by (simp add: heap_ok_def)
  have px: "p = h + span xs + m" using arg_cong [OF cs, of span] b(2) by simp
  obtain M where M: "free (A (p + 4)) u = Inr (u\<lparr>umem := M\<rparr>)" "heap_at (u\<lparr>umem := M\<rparr>) h (xs @ merge m pa n zs)"
    "only_in (h + span xs + (if pa then m else 0)) (p + n + next_free zs) (umem u) M"
    using heap_at_free [OF H] unfolding px by auto
  have bs': "xs @ merge m pa n zs = (8, True) # free_blocks ys n zs"
    using cs by (cases xs) (auto simp: free_blocks_def merge_def)
  have "(\<forall>(k, a) \<in> set (free_blocks ys n zs). 16 \<le> k) \<and> no_free_pair (free_blocks ys n zs)"
    using ok unfolding heap_ok_def b(1) by (intro free_blocks_ok) blast+
  moreover have "heap_listp (u\<lparr>umem := M\<rparr>) = A (h + 4)" "uninitialized_flag (u\<lparr>umem := M\<rparr>) = 0"
    using ok by (simp_all add: heap_ok_def)
  ultimately have "heap_ok (u\<lparr>umem := M\<rparr>) h (free_blocks ys n zs)"
    using M(2) unfolding bs' heap_ok_def by blast
  moreover have n: "8 \<le> n" using ok b by (auto simp: heap_ok_def)
  have rest: "live (h + 8) bs - {(p, n)} = live (h + 8) ys \<union> live (p + n) zs"
    using live_bounds [of p n "h + 8" ys] live_bounds [of p n "p + n" zs] n by (auto simp: b)
  moreover have "unchanged q (q + k) (umem u) M" if "(q, k) \<in> live (h + 8) ys" for q k
  proof (cases "(q, k) \<in> live h xs \<or> pa")
    case True
    then have "q + k \<le> h + span xs + (if pa then m else 0)" using live_bounds [of q k h xs] live_bounds [OF that] px b(2) by auto
    then show ?thesis by (intro only_in_unchanged [OF M(3)]) simp
  next
    case False
    have "(q, k) \<in> live h ((8, True) # ys)" using that by simp
    then have "(q, k) \<in> live h xs" unfolding cs using False by simp
    then show ?thesis using False by blast
  qed
  moreover have "unchanged q (q + k) (umem u) M" if "(q, k) \<in> live (p + n) zs" for q k
  proof -
    have "(q, k) \<in> live (p + n + next_free zs) (after_free zs)" using that by (simp only: live_after_free(1))
    from live_bounds [OF this] have "p + n + next_free zs \<le> q" "q + k \<le> p + n + span zs" 
      using live_after_free(2) [of zs] by simp_all
    moreover have "p + n + span zs \<le> 1073741824" using heap_atD(4) [OF H] px by simp
    ultimately show ?thesis by (intro only_in_unchanged [OF M(3)]) simp
  qed
  ultimately have "freed u h bs (u\<lparr>umem := M\<rparr>) p n"
    unfolding freed_def rest using b(2) live_free_blocks [of "h + 8" ys n zs] by auto
  then show ?thesis using M(1) by blast
qed

section \<open>Growing the heap\<close>

text \<open>The new block and the new end mark behind the blocks, in the memory that \<open>sbrk\<close> added.\<close>

lemma heap_at_grow:
  assumes H: "heap_at u h bs" and e: "e = h + span bs" and S: "8 dvd S" "8 \<le> S" "e + S + 4 \<le> 1073741824"
    and v: "v = u\<lparr>kern := k, curbrk := A (e + S + 4)\<rparr>"
  shows "\<exists>M1 M2 M3. two_tags v h (e + S + 4) S False e (e + S - 4) e (e + S) M1 M2 \<and>
    PUT (A (e + S)) (PACK 0 1) (v\<lparr>umem := M2\<rparr>) = Inr (v\<lparr>umem := M3\<rparr>) \<and>
    heap_at (v\<lparr>umem := M3\<rparr>) h (bs @ [(S, False)]) \<and> only_in e (e + S + 4) (umem u) M3"
proof -
  have mp: "mapped v (A p)" if "h \<le> p" "p + 4 \<le> e + S + 4" for p
  proof -
    have "unat (heap_base u) \<le> h" using H by (simp add: heap_at_def)
    moreover have "unat (A (e + S + 4) - A p) = e + S + 4 - p"
      using that S(3) by (subst unat_sub) (simp_all add: u64_le_iff unat_of_nat64 del: of_nat_add)
    ultimately show ?thesis using that S(3) unfolding mapped_def v
      by (simp add: u64_le_iff u64_less_iff unat_of_nat64 del: of_nat_add)
  qed
  then have ar: "area v h (e + S + 4)" using S(3) by (simp add: area_def)
  have um: "umem v = umem u" "kern v = k" by (simp_all add: v)
  have "\<exists>M1 M2. two_tags v h (e + S + 4) S False e (e + S - 4) e (e + S) M1 M2"
    by (rule PUT_two [OF ar]) (use S e in auto)
  then obtain M1 M2 where M12: "two_tags v h (e + S + 4) S False e (e + S - 4) e (e + S) M1 M2" by blast
  note w = M12 [unfolded two_tags_def]
  have "\<exists>M3. PUT (A (e + S)) (PACK (A 0) (of_bool True)) (v\<lparr>umem := M2\<rparr>) = Inr (v\<lparr>umem := M2, umem := M3\<rparr>) \<and>
      tagged (v\<lparr>umem := M2, umem := M3\<rparr>) h (e + S + 4) (e + S) 0 True \<and> only_in (e + S) (e + S + 4) (umem (v\<lparr>umem := M2\<rparr>)) M3"
    by (rule PUT_tagged) (use ar e in auto)
  then obtain M3 where M3: "PUT (A (e + S)) (PACK 0 1) (v\<lparr>umem := M2\<rparr>) = Inr (v\<lparr>umem := M3\<rparr>)"
    "tagged (v\<lparr>umem := M3\<rparr>) h (e + S + 4) (e + S) 0 True" "only_in (e + S) (e + S + 4) M2 M3"
    by (auto simp del: of_nat_add)
  have o: "only_in e (e + S + 4) (umem u) M3"
    by (rule only_in_trans [OF only_in_mono only_in_mono [OF M3(3)]]) (use w um in auto)
  have t: "tagged (v\<lparr>umem := M2, umem := M3\<rparr>) h (e + S + 4) e S False" "tagged (v\<lparr>umem := M2, umem := M3\<rparr>) h (e + S + 4) (e + S - 4) S False"
    by (rule tagged_other [where s = "e + S" and e = "e + S + 4"]; use w M3(3) S in auto)+
  have "blocks M3 h bs"
    by (rule blocks_unchanged [where lo = 0 and hi = e and m = "umem u"]) (use H o e in \<open>auto simp: heap_at_def only_in_def\<close>)
  then have "heap_at (v\<lparr>umem := M3\<rparr>) h (bs @ [(S, False)])"
    using t M3(2) S H e unfolding heap_at_def tagged_def by (simp add: v add.assoc del: of_nat_add)
  then show ?thesis using M12 M3(1) o by blast
qed

lemma prologue_written:
  assumes ar: "area v c (c + 16)"
  shows "\<exists>M. rbind (PUT (A c) 0 v) (\<lambda>u. rbind (PUT (A c + 1 * 4) (PACK 8 1) u) (\<lambda>u. rbind (PUT (A c + 2 * 4) (PACK 8 1) u)
      (PUT (A c + 3 * 4) (PACK 0 1)))) = Inr (v\<lparr>umem := M\<rparr>) \<and>
    load32 M (A (c + 4)) = tag 8 True \<and> load32 M (A (c + 8)) = tag 8 True \<and> load32 M (A (c + 12)) = tag 0 True"
proof -
  have c: "c + 16 \<le> 1073741824" using ar by (simp add: area_def)
  have ad: "A c + 1 * 4 = A (c + 4)" "A c + 2 * 4 = A (c + 8)" "A c + 3 * 4 = A (c + 12)" by simp_all
  have pk: "PACK 8 1 = tag 8 True" "PACK 0 1 = tag 0 True" using PACK_tag(2) [of 8] PACK_tag(2) [of 0] by simp_all
  have put: "PUT (A p) w (v\<lparr>umem := m\<rparr>) = Inr (v\<lparr>umem := store32 (A p) w m\<rparr>)" if "c \<le> p" "p + 4 \<le> c + 16" for p w m
    using PUT_area [of "v\<lparr>umem := m\<rparr>" c "c + 16" p w] ar that by simp
  have put0: "PUT (A c) w v = Inr (v\<lparr>umem := store32 (A c) w (umem v)\<rparr>)" for w using PUT_area [OF ar, of c w] by simp
  let ?M = "store32 (A (c + 12)) (tag 0 True) (store32 (A (c + 8)) (tag 8 True) (store32 (A (c + 4)) (tag 8 True) (store32 (A c) 0 (umem v))))"
  have "load32 ?M (A (c + 4)) = tag 8 True" "load32 ?M (A (c + 8)) = tag 8 True" "load32 ?M (A (c + 12)) = tag 0 True"
    using c by (simp_all add: load32_store32 load32_store32_other del: of_nat_add)
  moreover have "rbind (PUT (A c) 0 v) (\<lambda>u. rbind (PUT (A c + 1 * 4) (PACK 8 1) u) (\<lambda>u. rbind (PUT (A c + 2 * 4) (PACK 8 1) u)
      (PUT (A c + 3 * 4) (PACK 0 1)))) = Inr (v\<lparr>umem := ?M\<rparr>)"
    unfolding ad pk put0 using c by (simp add: put del: of_nat_add)
  ultimately show ?thesis by blast
qed

lemma unat_sum: "a + b < 18446744073709551616 \<Longrightarrow> unat (A a + A b) = a + b"
  by (metis of_nat_add unat_of_nat64)

locale program_break =
  fixes sys :: "u64 \<Rightarrow> 'k \<Rightarrow> fault + u64 \<times> 'k"
  assumes grants: "sys addr k = Inr (r, k') \<Longrightarrow> addr \<noteq> 0 \<Longrightarrow> r = addr"
begin

lemma sbrk_full:
  assumes "curbrk u = A c" "c + n < 18446744073709551616" "1073741824 < c + n"
  shows "sbrk sys (A n) u = Inr (0, print ''ERROR: sbrk failed. Ran out of memory ...'' u)"
  using assms by (simp add: sbrk_def u64_less_iff unat_sum Let_def)

lemma sbrk_granted:
  assumes "curbrk u = A c" "0 < n" "c + n \<le> 1073741824"
  shows "sbrk sys (A n) u = rbind (sys (A (c + n)) (kern u)) (\<lambda>(_, k). Inr (A c, u\<lparr>kern := k, curbrk := A (c + n)\<rparr>))"
proof -
  have n: "A n \<noteq> 0" "A (c + n) \<noteq> 0" using assms of_nat64_eq [of n 0] of_nat64_eq [of "c + n" 0] by simp_all
  have full: "\<not> A c + A n > 1073741824" using assms by (simp add: u64_less_iff unat_sum)
  show ?thesis
  proof (cases "sys (A (c + n)) (kern u)")
    case (Inr x)
    then show ?thesis using n full assms(1) grants [of "A (c + n)" "kern u" "fst x" "snd x"]
      by (cases x) (simp add: sbrk_def brk_def Let_def)
  qed (use n full assms(1) in \<open>simp add: sbrk_def brk_def Let_def\<close>)
qed

lemma extend_heap_full:
  assumes "curbrk u = A c" "even w" "c + 4 * w < 18446744073709551616" "1073741824 < c + 4 * w"
  shows "extend_heap sys (A w) u = Inr (0, print ''ERROR: sbrk failed. Ran out of memory ...'' u)"
proof -
  have "A w mod 2 = 0" using assms(2,3) by (metis even_of_nat_iff even_iff_mod_2_eq_zero)
  moreover have "A w * 4 = A (4 * w)" by simp
  ultimately show ?thesis using sbrk_full [OF assms(1,3,4)] by (simp add: extend_heap_def Let_def del: of_nat_mult)
qed

lemma extend_heap_blocks:
  assumes H: "heap_at u h (xs @ [(m, pa)])" and w: "even w" "4 \<le> w" and e: "e = h + span xs + m" "e + 4 + 4 * w \<le> 1073741824"
  shows "(\<exists>f. sys (A (e + 4 + 4 * w)) (kern u) = Inl f \<and> extend_heap sys (A w) u = Inl f) \<or>
    (\<exists>k M r. sys (A (e + 4 + 4 * w)) (kern u) = Inr (r, k) \<and>
       extend_heap sys (A w) u = Inr (A (h + span xs + (if pa then m else 0) + 4), u\<lparr>kern := k, curbrk := A (e + 4 + 4 * w), umem := M\<rparr>) \<and>
       heap_at (u\<lparr>kern := k, curbrk := A (e + 4 + 4 * w), umem := M\<rparr>) h (xs @ merge m pa (4 * w) []) \<and>
       only_in (h + span xs + (if pa then m else 0)) (e + 4 + 4 * w) (umem u) M)"
proof (cases "sys (A (e + 4 + 4 * w)) (kern u)")
  let ?S = "4 * w"
  have c: "curbrk u = A (e + 4)" using H e by (simp add: heap_at_def)
  have m2: "A w mod 2 = 0" using w e by (metis even_of_nat_iff even_iff_mod_2_eq_zero)
  have sz: "A w * 4 = A ?S" by simp
  have b0: "A (e + 4) \<noteq> 0" using of_nat64_eq [of "e + 4" 0] e(2) by simp
  note sb = sbrk_granted [OF c _ e(2)]
  {
    case (Inl f)
    then have "extend_heap sys (A w) u = Inl f" using sb w(2) m2 unfolding extend_heap_def sz by (simp del: of_nat_add of_nat_mult)
    then show ?thesis using Inl by blast
  next
    case (Inr x)
    obtain r k where x: "x = (r, k)" by fastforce
    have r: "sbrk sys (A ?S) u = Inr (A (e + 4), u\<lparr>kern := k, curbrk := A (e + 4 + ?S)\<rparr>)"
      using sb w(2) Inr x by simp
    let ?v = "u\<lparr>kern := k, curbrk := A (e + 4 + ?S)\<rparr>"
    have dv: "8 dvd ?S" using w(1) by (auto elim!: evenE)
    have ac: "e + 4 + ?S = e + ?S + 4" by simp
    obtain M1 M2 M3 where g: "two_tags ?v h (e + ?S + 4) ?S False e (e + ?S - 4) e (e + ?S) M1 M2"
      "PUT (A (e + ?S)) (PACK 0 1) (?v\<lparr>umem := M2\<rparr>) = Inr (?v\<lparr>umem := M3\<rparr>)"
      "heap_at (?v\<lparr>umem := M3\<rparr>) h ((xs @ [(m, pa)]) @ [(?S, False)])" "only_in e (e + ?S + 4) (umem u) M3"
      using heap_at_grow [OF H _ dv, of e ?v k] e w(2) unfolding ac by auto
    note t = g(1) [unfolded two_tags_def]
    have f: "FTRP (A (e + 4)) (?v\<lparr>umem := M1\<rparr>) = Inr (A (e + ?S - 4))" by (rule FTRP_at) (use t w in auto)
    have n: "NEXT_BLKP (A (e + 4)) (?v\<lparr>umem := M2\<rparr>) = Inr (A (e + ?S + 4))" by (rule NEXT_at) (use t in auto)
    have H3: "heap_at (?v\<lparr>umem := M3\<rparr>) h (xs @ (m, pa) # (?S, False) # [])" using g(3) by simp
    obtain M where M: "coalesce (A (e + 4)) (?v\<lparr>umem := M3\<rparr>) = Inr (A (h + span xs + (if pa then m else 0) + 4), ?v\<lparr>umem := M\<rparr>)"
      "heap_at (?v\<lparr>umem := M\<rparr>) h (xs @ merge m pa ?S [])"
      "only_in (h + span xs + (if pa then m else 0)) (h + span xs + m + ?S + next_free []) M3 M"
      using heap_at_coalesce [OF H3] unfolding e(1) by (auto simp del: of_nat_add)
    have "extend_heap sys (A w) u = coalesce (A (e + 4)) (?v\<lparr>umem := M3\<rparr>)"
      unfolding extend_heap_def sz m2 using r t f n g(2) b0 by (simp add: HDRP_at del: of_nat_add of_nat_mult)
    moreover have "only_in (h + span xs + (if pa then m else 0)) (e + 4 + ?S) (umem u) M"
      by (rule only_in_trans [OF only_in_mono [OF g(4)] only_in_mono [OF M(3)]]) (use e in \<open>auto simp: next_free_def\<close>)
    ultimately show ?thesis using M(1,2) Inr x by (intro disjI2 exI [of _ k] exI [of _ M] exI [of _ r]) simp
  }
qed

lemma malloc_fits:
  assumes ok: "heap_ok u h bs" and sz: "sz \<noteq> 0" "unat sz < 1152921504606846976"
    and fit: "first_fit (h + 8) (adjusted (unat sz)) bs = Some p"
  shows "\<exists>n v. malloc sys sz u = Inr (A (p + 4), v) \<and> allocated u h bs v p n \<and> unat sz + 8 \<le> n"
proof -
  let ?r = "adjusted (unat sz)"
  obtain ys n zs where b: "bs = ys @ (n, False) # zs" "p = h + 8 + span ys" "?r \<le> n" using first_fit_Some [OF fit] by blast
  have H: "heap_at u h (((8, True) # ys) @ (n, False) # zs)" using ok b(1) by (simp add: heap_ok_def)
  have sp: "h + span ((8, True) # ys) = p" using b(2) by simp
  note r = adjusted_props [of "unat sz"]
  obtain M where M: "place (A (p + 4)) (A ?r) u = Inr (u\<lparr>umem := M\<rparr>)"
    "heap_at (u\<lparr>umem := M\<rparr>) h (((8, True) # ys) @ (n, True) # zs)" "only_in p (p + n) (umem u) M"
    using heap_at_place [OF H b(3) r(1)] r(3) unfolding sp by auto
  have "p + 4 < 18446744073709551616" using heap_atD(4) [OF H] b(2) by simp
  then have p0: "A (p + 4) \<noteq> 0" using of_nat64_eq [of "p + 4" 0] by simp
  have "find_fit (A ?r) u = Inr (A (p + 4))" using find_fit_blocks [OF ok, of ?r] fit r(4) sz(2) by simp
  then have "malloc sys sz u = Inr (A (p + 4), u\<lparr>umem := M\<rparr>)"
    using ok sz p0 M(1) asize_adjusted [of sz] by (simp add: malloc_def heap_ok_def del: of_nat_add)
  moreover have "allocated u h bs (u\<lparr>umem := M\<rparr>) p n"
    unfolding b(1) by (rule allocated_fit) (use ok M b in auto)
  ultimately show ?thesis using b(3) r(2) by (meson order_trans)
qed

lemma malloc_nofit:
  assumes ok: "heap_ok u h bs" and sz: "sz \<noteq> 0" "unat sz < 1152921504606846976"
    and nofit: "first_fit (h + 8) (adjusted (unat sz)) bs = None" and w: "w = max (adjusted (unat sz)) 4096"
  shows "malloc sys sz u = rbind (extend_heap sys (A w) u) (\<lambda>(bp, u).
    if bp = 0 then Inr (0, u) else rbind (place bp (A (adjusted (unat sz))) u) (\<lambda>u. Inr (bp, u)))"
proof -
  have r: "adjusted (unat sz) < 18446744073709551616" using adjusted_props(4) [of "unat sz"] sz(2) by simp
  then have "max (A (adjusted (unat sz))) 4096 = A w" by (simp add: w max_def u64_le_iff unat_of_nat64)
  moreover have "find_fit (A (adjusted (unat sz))) u = Inr 0" using find_fit_blocks [OF ok r] nofit by simp
  ultimately show ?thesis using ok sz asize_adjusted [of sz] by (simp add: malloc_def heap_ok_def)
qed

lemma malloc_full:
  assumes ok: "heap_ok u h bs" and sz: "sz \<noteq> 0" "unat sz < 1152921504606846976"
    and nofit: "first_fit (h + 8) (adjusted (unat sz)) bs = None"
    and w: "w = max (adjusted (unat sz)) 4096" and full: "h + 12 + span bs + 4 * w > 1073741824"
  shows "malloc sys sz u = Inr (0, print ''ERROR: sbrk failed. Ran out of memory ...'' u)"
proof -
  note r = adjusted_props [of "unat sz"]
  have ev: "even w" using r(1) unfolding w max_def by (auto elim!: dvdE)
  have c: "curbrk u = A (h + 12 + span bs)" "h + 12 + span bs \<le> 1073741824"
    using ok by (simp_all add: heap_ok_def heap_at_def ac_simps)
  have "h + 12 + span bs + 4 * w < 18446744073709551616" using c(2) r(4) sz(2) unfolding w by simp
  from extend_heap_full [OF c(1) ev this full] show ?thesis unfolding malloc_nofit [OF ok sz nofit w] by simp
qed

lemma malloc_extends:
  assumes ok: "heap_ok u h bs" and sz: "sz \<noteq> 0" "unat sz < 1152921504606846976"
    and nofit: "first_fit (h + 8) (adjusted (unat sz)) bs = None"
    and w: "w = max (adjusted (unat sz)) 4096" and room: "h + 12 + span bs + 4 * w \<le> 1073741824"
  shows "(\<exists>f. sys (A (h + 12 + span bs + 4 * w)) (kern u) = Inl f \<and> malloc sys sz u = Inl f) \<or>
    (\<exists>p n v. malloc sys sz u = Inr (A (p + 4), v) \<and> allocated u h bs v p n \<and> unat sz + 8 \<le> n)"
proof -
  let ?r = "adjusted (unat sz)"
  note r = adjusted_props [of "unat sz"]
  note m = malloc_nofit [OF ok sz nofit w]
  have ev: "even w" "4 \<le> w" using r(1,3) unfolding w max_def by (auto elim!: dvdE)
  obtain xs k pa where cs: "(8, True) # bs = xs @ [(k, pa)]" by (metis list.distinct(1) rev_exhaust surj_pair)
  have H: "heap_at u h (xs @ [(k, pa)])" using ok cs by (simp add: heap_ok_def)
  have sp: "8 + span bs = span xs + k" using arg_cong [OF cs, of span] by simp
  have e: "h + 12 + span bs + 4 * w = h + span xs + k + 4 + 4 * w" "h + span xs + k + 4 + 4 * w \<le> 1073741824"
    using sp room by simp_all
  let ?p = "h + span xs + (if pa then k else 0)"
  let ?n = "if pa then 4 * w else 4 * w + k"
  consider f where "sys (A (h + span xs + k + 4 + 4 * w)) (kern u) = Inl f" "extend_heap sys (A w) u = Inl f"
    | j M where "extend_heap sys (A w) u = Inr (A (?p + 4), u\<lparr>kern := j, curbrk := A (h + span xs + k + 4 + 4 * w), umem := M\<rparr>)"
      "heap_at (u\<lparr>kern := j, curbrk := A (h + span xs + k + 4 + 4 * w), umem := M\<rparr>) h (xs @ merge k pa (4 * w) [])"
      "only_in ?p (h + span xs + k + 4 + 4 * w) (umem u) M"
    using extend_heap_blocks [OF H ev refl e(2)] by blast
  then show ?thesis
  proof cases
    case 1
    then show ?thesis unfolding e(1) m by simp
  next
    case 2
    let ?v = "u\<lparr>kern := j, curbrk := A (h + span xs + k + 4 + 4 * w), umem := M\<rparr>"
    let ?xs = "xs @ (if pa then [(k, pa)] else [])"
    have mg: "xs @ merge k pa (4 * w) [] = ?xs @ [(?n, False)]" by (simp add: merge_def next_free_def after_free_def)
    have sx: "h + span ?xs = ?p" by simp
    have rn: "?r \<le> ?n" using w by auto
    obtain M' where M': "place (A (?p + 4)) (A ?r) ?v = Inr (?v\<lparr>umem := M'\<rparr>)"
      "heap_at (?v\<lparr>umem := M'\<rparr>) h (?xs @ [(?n, True)])" "only_in ?p (?p + ?n) M M'"
      using heap_at_place [OF 2(2) [unfolded mg] rn r(1)] r(3) unfolding sx by auto
    have "?p + 4 < 18446744073709551616" using e(2) by simp
    then have p0: "A (?p + 4) \<noteq> 0" using of_nat64_eq [of "?p + 4" 0] by simp
    have "malloc sys sz u = Inr (A (?p + 4), ?v\<lparr>umem := M'\<rparr>)"
      unfolding m 2(1) using p0 M'(1) by (simp del: of_nat_add)
    moreover have "allocated u h bs (?v\<lparr>umem := M'\<rparr>) ?p ?n"
    proof -
      obtain ys where ys: "?xs = (8, True) # ys" using cs by (cases xs) (auto split: if_splits)
      have bs: "bs = ys @ (if pa then [] else [(k, False)])" using cs ys by (cases pa) auto
      have o: "only_in ?p (h + span xs + k + 4 + 4 * w) (umem u) (umem (?v\<lparr>umem := M'\<rparr>))"
        using only_in_trans [OF 2(3) only_in_mono [OF M'(3)]] by auto
      have p: "?p = h + 8 + span ys" using sx ys by simp
      show ?thesis unfolding bs
        by (rule allocated_new [where j = k, OF _ _ p _ _ _ _ o]) (use ok bs M'(2) ys ev in auto)
    qed
    ultimately show ?thesis using rn r(2) by (meson order_trans)
  qed
qed

text \<open>The first call sets the heap up: a prologue, 4096 free bytes, the end mark.\<close>

lemma minit_blocks:
  assumes c: "curbrk u = A c" "unat (heap_base u) \<le> c" "0 < c" "c + 4112 \<le> 1073741824"
  shows "(\<exists>f. sys (A (c + 16)) (kern u) = Inl f \<and> minit sys u = Inl f) \<or>
    (\<exists>f k r. sys (A (c + 16)) (kern u) = Inr (r, k) \<and> sys (A (c + 4112)) k = Inl f \<and> minit sys u = Inl f) \<or>
    (\<exists>v k r r'. sys (A (c + 16)) (kern u) = Inr (r, k) \<and> sys (A (c + 4112)) k = Inr (r', kern v) \<and>
       minit sys u = Inr (0, v) \<and> heap_ok v (c + 4) [(4096, False)])"
proof (cases "sys (A (c + 16)) (kern u)")
  note sb = sbrk_granted [OF c(1), of 16]
  {
    case (Inl f)
    then show ?thesis using sb c(4) by (simp add: minit_def)
  next
    case (Inr x)
    obtain r k where x: "x = (r, k)" by fastforce
    let ?v = "u\<lparr>kern := k, curbrk := A (c + 16), heap_listp := A c\<rparr>"
    have m: "mapped ?v (A p)" if "c \<le> p" "p + 4 \<le> c + 16" for p
    proof -
      have "unat (A (c + 16) - A p) = c + 16 - p"
        using that c(4) by (subst unat_sub) (simp_all add: u64_le_iff unat_of_nat64 del: of_nat_add)
      then show ?thesis using that c(2,4) unfolding mapped_def
        by (simp add: u64_le_iff u64_less_iff unat_of_nat64 del: of_nat_add)
    qed
    then have ar: "area ?v c (c + 16)" using c(4) by (simp add: area_def)
    obtain M where M: "rbind (PUT (A c) 0 ?v) (\<lambda>u. rbind (PUT (A c + 1 * 4) (PACK 8 1) u) (\<lambda>u. rbind (PUT (A c + 2 * 4) (PACK 8 1) u)
        (PUT (A c + 3 * 4) (PACK 0 1)))) = Inr (?v\<lparr>umem := M\<rparr>)"
      "load32 M (A (c + 4)) = tag 8 True" "load32 M (A (c + 8)) = tag 8 True" "load32 M (A (c + 12)) = tag 0 True"
      using prologue_written [OF ar] by blast
    let ?w = "?v\<lparr>umem := M, heap_listp := A (c + 8)\<rparr>"
    have H: "heap_at ?w (c + 4) ([] @ [(8, True)])"
      using M(2-4) c by (simp add: heap_at_def add.assoc add.commute [of 8 c] del: of_nat_add)
    have p1: "A c \<noteq> - 1" using c(4) by (simp add: u64_eq_iff unat_of_nat64 unsigned_minus_1_eq_mask mask_eq_exp_minus_1)
    have mi: "minit sys u = rbind (extend_heap sys (A 1024) ?w) (\<lambda>(bp, u). if bp = 0 then Inr (- 1, u) else Inr (0, u\<lparr>uninitialized_flag := 0\<rparr>))"
    proof -
      have "minit sys u = rbind (rbind (PUT (A c) 0 ?v) (\<lambda>u. rbind (PUT (A c + 1 * 4) (PACK 8 1) u) (\<lambda>u. rbind (PUT (A c + 2 * 4) (PACK 8 1) u)
          (PUT (A c + 3 * 4) (PACK 0 1))))) (\<lambda>u. rbind (extend_heap sys (A 1024) (u\<lparr>heap_listp := A c + 2 * 4\<rparr>))
            (\<lambda>(bp, u). if bp = 0 then Inr (- 1, u) else Inr (0, u\<lparr>uninitialized_flag := 0\<rparr>)))"
        using sb Inr x c(4) p1 unfolding minit_def by (simp add: rbind_assoc Let_def)
      then show ?thesis unfolding M(1) by simp
    qed
    have "(\<exists>f. sys (A (c + 4112)) k = Inl f \<and> extend_heap sys (A 1024) ?w = Inl f) \<or>
      (\<exists>j M' r'. sys (A (c + 4112)) k = Inr (r', j) \<and> extend_heap sys (A 1024) ?w = Inr (A (c + 16), ?w\<lparr>kern := j, curbrk := A (c + 4112), umem := M'\<rparr>) \<and>
         heap_at (?w\<lparr>kern := j, curbrk := A (c + 4112), umem := M'\<rparr>) (c + 4) ([(8, True), (4096, False)]))"
      using extend_heap_blocks [OF H, of 1024 "c + 12"] c(4) by (auto simp: merge_def next_free_def after_free_def add.assoc)
    moreover have "A c + 16 \<noteq> 0" using of_nat64_eq [of "c + 16" 0] c(4) by simp
    moreover have "heap_at (v\<lparr>uninitialized_flag := 0\<rparr>) h bs = heap_at v h bs" for v :: "'k process" and h bs
      by (simp add: heap_at_def)
    ultimately show ?thesis using Inr x mi by (auto simp: heap_ok_def add.commute [of 8])
  }
qed

end

end
