(* ===== verification/KernelBreak.thy ===== *)
theory KernelBreak
  imports ProcCalls AddressSpace
begin

text \<open>
  The kernel's \<open>brk\<close> (sys/syscall.c) as a user program sees it. The kernel never records the new
  break in \<open>mm->brk\<close>, so every call of a program that has a heap adds one more memory area from the
  start of the heap to the new break.
\<close>

definition zero_frame :: sc_frame where
  "zero_frame = \<lparr>sf_rbp = 0, sf_r15 = 0, sf_r14 = 0, sf_r13 = 0, sf_r11 = 0, sf_r10 = 0, sf_r9 = 0, sf_r8 = 0,
     sf_rdi = 0, sf_rsi = 0, sf_rdx = 0, sf_rcx = 0, sf_rbx = 0\<rparr>"

text \<open>\<open>syscall_1(SYS_brk, addr)\<close> passes its argument in \<open>rdi\<close>.\<close>

definition brk_call :: "u64 \<Rightarrow> 'a kernel_scheme \<Rightarrow> fault + u64 \<times> 'a kernel_scheme" where
  "brk_call addr s = sys_brk (zero_frame\<lparr>sf_rdi := addr\<rparr>) s"

lemma brk_call_grants: "brk_call addr s = Inr (r, t) \<Longrightarrow> addr \<noteq> 0 \<Longrightarrow> r = addr"
  by (auto simp: brk_call_def sys_brk_def rbind_eq_Inr Let_def split: if_splits)

text \<open>
  The running process has its heap at \<open>b\<close>, an address space \<open>mm\<close> with a proper list of areas whose
  descriptors are pages in use, and there are frames and room in the list for \<open>n\<close> more areas.
\<close>

definition brk_ok :: "u64 \<Rightarrow> u64 \<Rightarrow> nat \<Rightarrow> 'a kernel_scheme \<Rightarrow> bool" where
  "brk_ok mm b n s \<longleftrightarrow> current s \<noteq> 0 \<and> mm \<noteq> 0 \<and> (\<exists>t. task_heap s (current s) = Some t \<and> t_mm t = mm) \<and>
     (\<exists>m xs. mm_heap s mm = Some m \<and> user_heap m = b \<and> mm_brk m = b \<and> hlist vma_next (vma_heap s) (mm_mmap m) xs \<and>
        length xs + n < LIST_FUEL \<and> n \<le> card (free_frames s) \<and>
        (\<forall>x \<in> set xs. \<forall>f \<in> free_frames s. x \<noteq> PA2VA (frame_pa f)))"

lemma upd_vma_heap: "upd_vma p f s = Inr t \<Longrightarrow> \<exists>h. t = s\<lparr>vma_heap := h\<rparr>"
  by (auto simp: upd_vma_Inr)

lemma insert_vma_cases:
  assumes "insert_vma vma mm s = Inr t"
  shows "(\<exists>h. t = s\<lparr>vma_heap := h\<rparr>) \<or> (\<exists>m. mm_heap s mm = Some m \<and> t = s\<lparr>mm_heap := (mm_heap s)(mm \<mapsto> m\<lparr>mm_mmap := vma\<rparr>)\<rparr>)"
proof -
  obtain m where m: "mm \<noteq> 0" "mm_heap s mm = Some m" using assms by (auto simp: insert_vma_def rbind_eq_Inr)
  show ?thesis
  proof (cases "mm_mmap m = 0")
    case True
    then have "t = s\<lparr>mm_heap := (mm_heap s)(mm \<mapsto> m\<lparr>mm_mmap := vma\<rparr>)\<rparr>" using assms m by (simp add: insert_vma_def upd_mm_def)
    then show ?thesis using m by blast
  next
    case False
    then obtain p u where u: "upd_vma p (\<lambda>v. v\<lparr>vma_next := vma\<rparr>) s = Inr u" "upd_vma vma (\<lambda>v. v\<lparr>vma_next := 0\<rparr>) u = Inr t"
      using assms m unfolding insert_vma_def by (simp add: rbind_eq_Inr) blast
    then show ?thesis using upd_vma_heap [OF u(1)] upd_vma_heap [OF u(2)] by auto
  qed
qed

lemma insert_vma_frame:
  assumes "insert_vma vma mm s = Inr t"
  shows "task_heap t = task_heap s" "current t = current s" "page_ref t = page_ref s"
    "mm_heap s mm = Some m \<Longrightarrow> \<exists>m'. mm_heap t mm = Some m' \<and> user_heap m' = user_heap m \<and> mm_brk m' = mm_brk m"
  using insert_vma_cases [OF assms] by (elim disjE exE conjE; simp)+

lemma brk_call_adds:
  assumes ok: "brk_ok mm b (Suc n) s" and addr: "b < addr" "addr < HEAP_LIMIT"
  shows "\<exists>t. brk_call addr s = Inr (addr, t) \<and> brk_ok mm b n t \<and>
    (\<forall>a. b \<le> a \<and> a < addr \<longrightarrow> (\<exists>v. search_vma a mm t = Inr v \<and> v \<noteq> 0))"
proof -
  obtain c m xs where c: "task_heap s (current s) = Some c" "t_mm c = mm" "current s \<noteq> 0" "mm \<noteq> 0"
    and m: "mm_heap s mm = Some m" "user_heap m = b" "mm_brk m = b" "hlist vma_next (vma_heap s) (mm_mmap m) xs"
    and l: "length xs + Suc n < LIST_FUEL" "Suc n \<le> card (free_frames s)" "\<forall>x \<in> set xs. \<forall>f \<in> free_frames s. x \<noteq> PA2VA (frame_pa f)"
    using ok unfolding brk_ok_def by blast
  obtain x where "x \<in> free_frames s" using l(2) by fastforce
  then obtain va u where z: "get_zero_page s = Inr (va, u)" using kzero.alloc_total [of x s] by (auto simp: free_frames_def)
  obtain p w where p: "va = PA2VA (frame_pa p)" "p \<in> pool" "page_ref s p = 0"
    "u = s\<lparr>page_ref := (page_ref s)(p := 1), bitmap := w, ram := memset (frame_pa p) 0 4096 (ram s)\<rparr>"
    using get_zero_page_InrE [OF z] by blast
  have pf: "p \<in> free_frames s" using p by (simp add: free_frames_def)
  have va: "va \<noteq> 0" using page_va_nonzero [OF p(2)] p(1) by simp
  have nx: "va \<notin> set xs" using l(3) pf unfolding p(1) by blast
  let ?v = "zero_vma\<lparr>vm_start := b, vm_end := addr, vm_file := None, vm_prot := ENTRY_RW, vm_align := 4096\<rparr>"
  let ?u = "u\<lparr>vma_heap := (vma_heap u)(va \<mapsto> ?v)\<rparr>"
  have L: "hlist vma_next (vma_heap ?u) (mm_mmap m) xs" using m(4) nx p(4) by simp
  have mu: "mm_heap ?u mm = Some m" "vma_heap ?u va = Some ?v" "vma_next ?v = 0" "length xs < LIST_FUEL"
    using m(1) p(4) l(1) by (simp_all add: zero_vma_def)
  note ins = insert_vma_append [OF c(4) mu(1) L mu(4) va nx mu(2,3)]
  obtain t m' where t: "insert_vma va mm ?u = Inr t" "mm_heap t mm = Some m'" "hlist vma_next (vma_heap t) (mm_mmap m') (xs @ [va])"
    by (rule ins) blast
  have cov: "covers a (the (vma_heap t x)) = covers a (the (vma_heap ?u x))" for a x
    by (rule ins [of a]) (use t(1) in simp)
  note fr = insert_vma_frame [OF t(1)]
  have a0: "addr \<noteq> 0" using addr(1) by (auto simp: u64_less_iff u64_eq_iff)
  have "brk_call addr s = Inr (addr, t)"
    using a0 c m addr z va t(1) p(4) unfolding brk_call_def sys_brk_def
    by (simp add: alloc_vma_def upd_vma_def zero_frame_def)
  moreover have ff: "free_frames t = free_frames s - {p}" using fr(3) p by (auto simp: free_frames_def)
  then have "n \<le> card (free_frames t)" using l(2) pf by simp
  moreover have "PA2VA (frame_pa f) \<noteq> va" if "f \<in> free_frames t" for f
  proof -
    have "f \<in> pool" "f \<noteq> p" using that ff by (auto simp: free_frames_def)
    then have "frame_of_va (PA2VA (frame_pa f)) \<noteq> frame_of_va va" using p(1,2) by (simp add: frame_of_va_PA2VA pool_small)
    then show ?thesis by auto
  qed
  moreover have "length (xs @ [va]) + n < LIST_FUEL" using l(1) by simp
  moreover have "user_heap m' = b" "mm_brk m' = b" using fr(4) [OF mu(1)] t(2) m by auto
  moreover have "\<exists>v. search_vma a mm t = Inr v \<and> v \<noteq> 0" if "b \<le> a" "a < addr" for a
  proof -
    have "covers a (the (vma_heap t va))" using that by (simp add: cov) (simp add: covers_def)
    then obtain x where x: "List.find (\<lambda>x. covers a (the (vma_heap t x))) (xs @ [va]) = Some x"
      by (metis (no_types, lifting) find_None_iff in_set_conv_decomp not_None_eq)
    then have "x \<in> set (xs @ [va])" by (metis find_Some_iff nth_mem)
    then have "x \<noteq> 0" using hseg_nodes [of vma_next "vma_heap t"] t(3) by blast
    moreover have "length (xs @ [va]) < LIST_FUEL" using l(1) by simp
    ultimately show ?thesis using search_vma_hlist [OF c(4) t(2,3), of a] x by simp
  qed
  moreover have "\<forall>x \<in> set (xs @ [va]). \<forall>f \<in> free_frames t. x \<noteq> PA2VA (frame_pa f)"
    using l(3) ff calculation(3) by fastforce
  moreover have "task_heap t (current t) = Some c" "current t \<noteq> 0" using c fr(1,2) p(4) by simp_all
  ultimately have "brk_ok mm b n t" unfolding brk_ok_def using c(2,4) t(2,3) by blast
  then show ?thesis using \<open>brk_call addr s = Inr (addr, t)\<close> \<open>\<And>a. b \<le> a \<Longrightarrow> a < addr \<Longrightarrow> \<exists>v. search_vma a mm t = Inr v \<and> v \<noteq> 0\<close> by blast
qed

text \<open>
  C18. Growing the heap with \<open>brk\<close>. As long as a frame is unused, a call with any address above the
  start of the heap and below the limit returns that address, afterwards every address of the
  heap below the new break belongs to a memory area of the process (so that the page-fault
  handler will supply it), and the process can call \<open>brk\<close> again.
\<close>

theorem brk_grows_heap:
  assumes "brk_ok mm b (Suc n) s" "b < addr" "addr < HEAP_LIMIT"
  shows "\<exists>t. sys_brk (zero_frame\<lparr>sf_rdi := addr\<rparr>) s = Inr (addr, t) \<and> brk_ok mm b n t \<and>
    (\<forall>a. b \<le> a \<and> a < addr \<longrightarrow> (\<exists>v. search_vma a mm t = Inr v \<and> v \<noteq> 0))"
  using brk_call_adds [OF assms] unfolding brk_call_def .

definition break_example :: kernel where
  "break_example = kernel_example\<lparr>mm_heap := [0x2000 \<mapsto> zero_mm\<lparr>mm_mmap := 0x3000, mm_pgd := PA2VA (frame_pa 671), user_heap := 0x800000, mm_brk := 0x800000\<rparr>]\<rparr>"

lemma break_example_ok: "n \<le> 1000 \<Longrightarrow> brk_ok 0x2000 0x800000 n break_example"
proof -
  assume n: "n \<le> 1000"
  have "free_frames break_example = free_frames kernel_example" by (simp add: free_frames_def break_example_def)
  then have ff: "free_frames break_example = {672..<32766}" by (simp only: kernel_example_free)
  have "PA2VA (frame_pa f) \<noteq> 0x3000" if "f \<in> free_frames break_example" for f
  proof
    assume "PA2VA (frame_pa f) = 0x3000"
    then have "frame_of_va (PA2VA (frame_pa f)) = frame_of_va 0x3000" by simp
    moreover have "f \<in> pool" using that by (simp add: free_frames_def)
    moreover have "unat (VA2PA 0x3000) > 32768 * 4096" by (simp add: VA2PA_def KERNEL_OFFSET_def)
    ultimately have "32768 \<le> f" using pool_small [of f] frame_of_va_PA2VA [of f]
      div_le_mono [of "32768 * 4096" "unat (VA2PA 0x3000)" 4096] by (simp add: frame_of_va_def)
    then show False using pool_small [of f] \<open>f \<in> pool\<close> by simp
  qed
  moreover have "hlist vma_next (vma_heap break_example) 0x3000 [0x3000]"
    by (simp add: break_example_def kernel_example_def zero_vma_def)
  ultimately show ?thesis using n ff unfolding brk_ok_def
    by (simp add: break_example_def kernel_example_def) (auto intro!: exI [of _ "[0x3000]"])
qed

theorem brk_grows_heap_witness:
  "\<exists>t v. sys_brk (zero_frame\<lparr>sf_rdi := 0x801000\<rparr>) break_example = Inr (0x801000, t) \<and> search_vma 0x800123 0x2000 t = Inr v \<and> v \<noteq> 0"
proof -
  have "\<exists>t. sys_brk (zero_frame\<lparr>sf_rdi := 0x801000\<rparr>) break_example = Inr (0x801000, t) \<and> brk_ok 0x2000 0x800000 999 t \<and>
      (\<forall>a. 0x800000 \<le> a \<and> a < 0x801000 \<longrightarrow> (\<exists>v. search_vma a 0x2000 t = Inr v \<and> v \<noteq> 0))"
    by (rule brk_grows_heap [OF break_example_ok]) simp_all
  then obtain t where t: "sys_brk (zero_frame\<lparr>sf_rdi := 0x801000\<rparr>) break_example = Inr (0x801000, t)"
    "\<forall>a. 0x800000 \<le> a \<and> a < 0x801000 \<longrightarrow> (\<exists>v. search_vma a 0x2000 t = Inr v \<and> v \<noteq> 0)" by blast
  moreover have "(0x800000 :: u64) \<le> 0x800123 \<and> (0x800123 :: u64) < 0x801000" by simp
  ultimately show ?thesis by blast
qed

end
