(* ===== verification/UserHeap.thy ===== *)
theory UserHeap
  imports HeapOps KernelBreak
begin

text \<open>
  \<open>malloc\<close> and \<open>free\<close> on top of the kernel's own \<open>brk\<close>, and programs that use them: the blocks a
  program holds never overlap, and neither call ever touches memory outside the heap.
\<close>

interpretation kernel_break: program_break brk_call
  by unfold_locales (rule brk_call_grants)

section \<open>malloc and free\<close>

text \<open>
  C16. \<open>malloc\<close> on a heap in order, for any size below 2^60. If a free block is large enough, the first
  such block is handed out. Otherwise the heap is extended by at least 16 KB: that fails with
  NULL and nothing changed if the heap would grow beyond 1 GB, the kernel may stop in \<open>brk\<close>,
  and else a block at the end of the heap is handed out. In both cases of success the block has
  room for the request, it was not allocated before, the other allocated blocks keep their
  contents, and the heap is in order again.
\<close>

theorem malloc_contract:
  assumes "heap_ok u h bs" "sz \<noteq> 0" "unat sz < 1152921504606846976"
  shows "case first_fit (h + 8) (adjusted (unat sz)) bs of
      Some p \<Rightarrow> (\<exists>n v. malloc brk_call sz u = Inr (A (p + 4), v) \<and> allocated u h bs v p n \<and> unat sz + 8 \<le> n)
    | None \<Rightarrow>
        let brk' = h + 12 + span bs + 4 * max (adjusted (unat sz)) 4096 in
        if brk' > 1073741824 then malloc brk_call sz u = Inr (0, print ''ERROR: sbrk failed. Ran out of memory ...'' u)
        else (\<exists>e. brk_call (of_nat brk') (kern u) = Inl e \<and> malloc brk_call sz u = Inl e) \<or>
             (\<exists>p n v. malloc brk_call sz u = Inr (A (p + 4), v) \<and> allocated u h bs v p n \<and> unat sz + 8 \<le> n)"
proof (cases "first_fit (h + 8) (adjusted (unat sz)) bs")
  case None
  then show ?thesis
    using kernel_break.malloc_extends [OF assms None refl] kernel_break.malloc_full [OF assms None refl]
    by (simp add: Let_def del: of_nat_add of_nat_mult)
next
  case (Some p)
  then show ?thesis using kernel_break.malloc_fits [OF assms Some] by simp
qed

text \<open>A heap with an allocated block of 32 bytes and a free one of 64.\<close>

definition heap_example :: "kernel process" where
  "heap_example = \<lparr>umem = fold (\<lambda>(p, w). store32 (A p) w)
       [(4100, tag 8 True), (4104, tag 8 True), (4108, tag 32 True), (4136, tag 32 True),
        (4140, tag 64 False), (4200, tag 64 False), (4204, tag 0 True)] (\<lambda>_. 0),
     heap_base = 4096, curbrk = 4208, heap_listp = 4104, uninitialized_flag = 0, stdout = [], kern = kernel_example\<rparr>"

lemma heap_example_ok: "heap_ok heap_example 4100 [(32, True), (64, False)]"
proof -
  let ?m = "umem heap_example"
  have "load32 ?m (A 4100) = tag 8 True" "load32 ?m (A 4104) = tag 8 True" "load32 ?m (A 4108) = tag 32 True"
    "load32 ?m (A 4136) = tag 32 True" "load32 ?m (A 4140) = tag 64 False" "load32 ?m (A 4200) = tag 64 False" "load32 ?m (A 4204) = tag 0 True"
    unfolding heap_example_def by (simp_all add: load32_store32 load32_store32_other del: of_nat_numeral)
  then show ?thesis by (simp add: heap_ok_def heap_at_def heap_example_def)
qed

theorem malloc_contract_witness:
  "\<exists>n v. malloc brk_call 40 heap_example = Inr (4144, v) \<and> allocated heap_example 4100 [(32, True), (64, False)] v 4140 n \<and> 48 \<le> n"
  using malloc_contract [OF heap_example_ok, of 40] by (simp add: adjusted_def)

text \<open>
  C17. \<open>free\<close> of an allocated block: the block is no longer allocated and merges with its free
  neighbours (no two free blocks are ever next to each other), the other allocated blocks keep
  their contents, and the heap is in order again.
\<close>

theorem free_contract:
  assumes "heap_ok u h bs" "(p, n) \<in> live (h + 8) bs"
  shows "\<exists>v. free (A (p + 4)) u = Inr v \<and> freed u h bs v p n"
  by (rule heap_ok_free [OF assms])

theorem free_contract_witness:
  "\<exists>v. free 4112 heap_example = Inr v \<and> freed heap_example 4100 [(32, True), (64, False)] v 4108 32"
  using free_contract [OF heap_example_ok, of 4108 32] by simp

end
