(* ===== verification/HeapRuns.thy ===== *)
theory HeapRuns
  imports UserHeap
begin

text \<open>
  Programs that use the heap: sequences of calls of \<open>malloc\<close> and \<open>free\<close> and of stores into the
  memory they got. The ledger of a program is the set of the pointers it holds, each with the
  number of bytes asked for.
\<close>

type_synonym ledger = "(nat \<times> nat) set"

inductive hstep :: "(u64 \<Rightarrow> 'k \<Rightarrow> fault + u64 \<times> 'k) \<Rightarrow> 'k process \<times> ledger \<Rightarrow> 'k process \<times> ledger \<Rightarrow> bool"
  for sys :: "u64 \<Rightarrow> 'k \<Rightarrow> fault + u64 \<times> 'k" where
  got: "malloc sys sz u = Inr (p, v) \<Longrightarrow> p \<noteq> 0 \<Longrightarrow> unat sz < 1152921504606846976 \<Longrightarrow> hstep sys (u, L) (v, insert (unat p, unat sz) L)"
| refused: "malloc sys sz u = Inr (0, v) \<Longrightarrow> unat sz < 1152921504606846976 \<Longrightarrow> hstep sys (u, L) (v, L)"
| returned: "(p, n) \<in> L \<Longrightarrow> free (A p) u = Inr v \<Longrightarrow> hstep sys (u, L) (v, L - {(p, n)})"
| stored: "(p, n) \<in> L \<Longrightarrow> p \<le> a \<Longrightarrow> a < p + n \<Longrightarrow> hstep sys (u, L) (u\<lparr>umem := (umem u)(A a := b)\<rparr>, L)"

section \<open>The invariant\<close>

text \<open>A program just loaded, with the break at the start of the heap.\<close>

definition started :: "'k process \<Rightarrow> bool" where
  "started u \<longleftrightarrow> uninitialized_flag u \<noteq> 0 \<and> (\<exists>c. curbrk u = A c \<and> unat (heap_base u) \<le> c \<and> 0 < c \<and> c + 4112 \<le> 1073741824)"

definition held :: "nat \<Rightarrow> block list \<Rightarrow> ledger \<Rightarrow> bool" where
  "held h bs L \<longleftrightarrow> (\<forall>(p, n) \<in> L. \<exists>q k. p = q + 4 \<and> (q, k) \<in> live (h + 8) bs \<and> n + 8 \<le> k) \<and>
     (\<forall>p n m. (p, n) \<in> L \<longrightarrow> (p, m) \<in> L \<longrightarrow> n = m)"

definition ledger_ok :: "'k process \<Rightarrow> ledger \<Rightarrow> bool" where
  "ledger_ok u L \<longleftrightarrow> (\<exists>h bs. heap_ok u h bs \<and> held h bs L)"

lemma heldE:
  assumes "held h bs L" "(p, n) \<in> L"
  obtains q k where "p = q + 4" "(q, k) \<in> live (h + 8) bs" "n + 8 \<le> k"
  using assms unfolding held_def by blast

lemma heap_ok_bounds:
  assumes "heap_ok u h bs" "(q, k) \<in> live (h + 8) bs"
  shows "h + 8 \<le> q" "q + k \<le> h + 8 + span bs" "h + 8 + span bs + 4 \<le> 1073741824"
    "unat (heap_base u) \<le> h" "unat (curbrk u) = h + 12 + span bs" "8 \<le> k"
proof -
  show "h + 8 \<le> q" "q + k \<le> h + 8 + span bs" using live_bounds [OF assms(2)] by simp_all
  show b: "h + 8 + span bs + 4 \<le> 1073741824" and "unat (heap_base u) \<le> h"
    using assms(1) by (simp_all add: heap_ok_def heap_at_def)
  have "curbrk u = A (h + 12 + span bs)" using assms(1) by (simp add: heap_ok_def heap_at_def ac_simps)
  then show "unat (curbrk u) = h + 12 + span bs" using b by (simp add: unat_of_nat64 del: of_nat_add)
  have "(k, True) \<in> set bs" using live_split [OF assms(2)] by auto
  then show "8 \<le> k" using assms(1) by (auto simp: heap_ok_def)
qed

lemma held_allocated:
  assumes ok: "heap_ok u h bs" "held h bs L" and al: "allocated u h bs v p n" "m + 8 \<le> n"
  shows "ledger_ok v (insert (p + 4, m) L)"
proof -
  obtain bs' where b: "heap_ok v h bs'" "live (h + 8) bs' = insert (p, n) (live (h + 8) bs)" "(p, n) \<notin> live (h + 8) bs"
    using al(1) by (auto simp: allocated_def)
  have new: "(p + 4, k) \<notin> L" for k
  proof
    assume "(p + 4, k) \<in> L"
    then obtain j where j: "(p, j) \<in> live (h + 8) bs" by (auto elim: heldE [OF ok(2)])
    have "8 \<le> n" "8 \<le> j" using heap_ok_bounds(6) [OF b(1)] j b(2) by auto
    then have "n = j" using live_disjoint [of p n "h + 8" bs' p j] j b(2) by auto
    then show False using j b(3) by simp
  qed
  have "held h bs' (insert (p + 4, m) L)"
    unfolding held_def b(2)
  proof (intro conjI ballI allI impI)
    fix x assume "x \<in> insert (p + 4, m) L"
    moreover obtain r i where r: "x = (r, i)" by fastforce
    ultimately consider "r = p + 4" "i = m" | "(r, i) \<in> L" by blast
    then show "case x of (r, i) \<Rightarrow> \<exists>q k. r = q + 4 \<and> (q, k) \<in> insert (p, n) (live (h + 8) bs) \<and> i + 8 \<le> k"
    proof cases
      case 2
      obtain q k where "r = q + 4" "(q, k) \<in> live (h + 8) bs" "i + 8 \<le> k" by (rule heldE [OF ok(2) 2])
      then show ?thesis unfolding r prod.case by blast
    qed (use al(2) r in auto)
  next
    fix r i j assume "(r, i) \<in> insert (p + 4, m) L" "(r, j) \<in> insert (p + 4, m) L"
    then show "i = j" using new ok(2) unfolding held_def by blast
  qed
  then show ?thesis using b(1) unfolding ledger_ok_def by blast
qed

lemma held_freed:
  assumes ok: "heap_ok u h bs" "held h bs L" and p: "(q + 4, m) \<in> L" "(q, k) \<in> live (h + 8) bs" and fr: "freed u h bs v q k"
  shows "ledger_ok v (L - {(q + 4, m)})"
proof -
  obtain bs' where b: "heap_ok v h bs'" "live (h + 8) bs' = live (h + 8) bs - {(q, k)}" using fr by (auto simp: freed_def)
  have "held h bs' (L - {(q + 4, m)})"
    unfolding held_def b(2)
  proof (intro conjI ballI allI impI)
    fix x assume x: "x \<in> L - {(q + 4, m)}"
    obtain r i where r: "x = (r, i)" by fastforce
    obtain q' k' where q': "r = q' + 4" "(q', k') \<in> live (h + 8) bs" "i + 8 \<le> k'" using heldE [OF ok(2)] x r by blast
    have "q' \<noteq> q" using x r q'(1) p(1) ok(2) unfolding held_def by blast
    then show "case x of (r, i) \<Rightarrow> \<exists>q' k'. r = q' + 4 \<and> (q', k') \<in> live (h + 8) bs - {(q, k)} \<and> i + 8 \<le> k'"
      using q' r by auto
  qed (use ok(2) in \<open>auto simp: held_def\<close>)
  then show ?thesis using b(1) unfolding ledger_ok_def by blast
qed

lemma payload_store:
  assumes ok: "heap_ok u h bs" and q: "(q, k) \<in> live (h + 8) bs" and a: "q + 4 \<le> a" "a < q + k - 4"
  shows "heap_ok (u\<lparr>umem := (umem u)(A a := b)\<rparr>) h bs"
proof -
  obtain ys zs where bs: "bs = ys @ (k, True) # zs" "q = h + 8 + span ys" using live_split [OF q] by blast
  let ?M = "(umem u)(A a := b)"
  have H: "heap_at u h (((8, True) # ys) @ (k, True) # zs)" using ok bs(1) by (simp add: heap_ok_def)
  have sp: "h + span ((8, True) # ys) = q" using bs(2) by simp
  note t = heap_at_block [OF H, unfolded sp]
  have big: "q + k \<le> 1073741824" using heap_ok_bounds(2,3) [OF ok q] by simp
  have o: "only_in a (a + 1) (umem u) ?M"
    using a big by (auto simp: only_in_def unchanged_def of_nat64_eq)
  have t': "tagged (u\<lparr>umem := ?M\<rparr>) h (h + span (((8, True) # ys) @ (k, True) # zs) + 4) q k True"
    "tagged (u\<lparr>umem := ?M\<rparr>) h (h + span (((8, True) # ys) @ (k, True) # zs) + 4) (q + k - 4) k True"
    by (rule tagged_other [OF t(1) o], use a in simp) (rule tagged_other [OF t(2) o], use a in simp)
  have H': "heap_at u h (((8, True) # ys) @ [(k, True)] @ zs)" using H by simp
  have "heap_at (u\<lparr>umem := ?M\<rparr>) h (((8, True) # ys) @ (k, True) # zs)"
    by (rule heap_at_replace [OF H'], unfold sp) (use t' t(3) only_in_mono [OF o, of q "q + k"] a in auto)
  then show ?thesis using ok unfolding heap_ok_def bs(1) by simp
qed

definition state_ok :: "'k process \<Rightarrow> ledger \<Rightarrow> bool" where
  "state_ok u L \<longleftrightarrow> started u \<and> L = {} \<or> ledger_ok u L"

lemma heap_ok_print [simp]: "heap_ok (print t u) h bs = heap_ok u h bs"
  by (simp add: heap_ok_def heap_at_def print_def)

text \<open>A sequence of calls of \<open>brk\<close>, and one that the kernel does not finish: it starts in kernel state \<open>k\<close>, and its addresses are
  between the break \<open>c\<close> of the program and the limit of the heap.\<close>

fun brk_run :: "(u64 \<Rightarrow> 'k \<Rightarrow> fault + u64 \<times> 'k) \<Rightarrow> u64 list \<Rightarrow> 'k \<Rightarrow> fault + 'k" where
  "brk_run sys [] k = Inr k"
| "brk_run sys (a # as) k = rbind (sys a k) (\<lambda>(_, k). brk_run sys as k)"

definition stops_in_brk :: "(u64 \<Rightarrow> 'k \<Rightarrow> fault + u64 \<times> 'k) \<Rightarrow> u64 \<Rightarrow> 'k \<Rightarrow> fault \<Rightarrow> bool" where
  "stops_in_brk sys c k e \<longleftrightarrow> (\<exists>as. length as \<le> 3 \<and> (\<forall>a \<in> set as. c < a \<and> a \<le> 1073741824) \<and> brk_run sys as k = Inl e)"

context program_break
begin

text \<open>On a heap that is set up, \<open>malloc\<close> has one of three outcomes.\<close>

lemma malloc_outcomes:
  assumes ok: "heap_ok u h bs" "held h bs L" and sz: "unat sz < 1152921504606846976"
  shows "(\<exists>e addr. malloc sys sz u = Inl e \<and> curbrk u < addr \<and> addr \<le> 1073741824 \<and> sys addr (kern u) = Inl e) \<or>
    (\<exists>v. malloc sys sz u = Inr (0, v) \<and> ledger_ok v L) \<or>
    (\<exists>p v. malloc sys sz u = Inr (p, v) \<and> p \<noteq> 0 \<and> ledger_ok v (insert (unat p, unat sz) L))"
proof -
  have got: "\<exists>p v. malloc sys sz u = Inr (p, v) \<and> p \<noteq> 0 \<and> ledger_ok v (insert (unat p, unat sz) L)"
    if al: "malloc sys sz u = Inr (A (p + 4), v)" "allocated u h bs v p n" "unat sz + 8 \<le> n" for p n v
  proof -
    obtain bs' where "heap_ok v h bs'" "(p, n) \<in> live (h + 8) bs'" using al(2) by (auto simp: allocated_def)
    note b = heap_ok_bounds [OF this]
    have u: "unat (A (p + 4)) = p + 4" using b by (intro unat_of_nat64) simp
    then have "A (p + 4) \<noteq> 0" by (metis add_is_0 unat_0 zero_neq_numeral)
    then show ?thesis using al(1) held_allocated [OF ok al(2,3)] u by metis
  qed
  consider "sz = 0" | p where "sz \<noteq> 0" "first_fit (h + 8) (adjusted (unat sz)) bs = Some p"
    | "sz \<noteq> 0" "first_fit (h + 8) (adjusted (unat sz)) bs = None" "h + 12 + span bs + 4 * max (adjusted (unat sz)) 4096 > 1073741824"
    | "sz \<noteq> 0" "first_fit (h + 8) (adjusted (unat sz)) bs = None" "h + 12 + span bs + 4 * max (adjusted (unat sz)) 4096 \<le> 1073741824"
    by (metis leI not_Some_eq)
  then show ?thesis
  proof cases
    case 1
    then have "malloc sys sz u = Inr (0, u)" using ok(1) by (simp add: malloc_def heap_ok_def)
    then show ?thesis using ok unfolding ledger_ok_def by blast
  next
    case (2 p)
    then show ?thesis using malloc_fits [OF ok(1) 2(1) sz 2(2)] got by blast
  next
    case 3
    have "ledger_ok (print ''ERROR: sbrk failed. Ran out of memory ...'' u) L" using ok unfolding ledger_ok_def by auto
    then show ?thesis using malloc_full [OF ok(1) 3(1) sz 3(2) refl 3(3)] by blast
  next
    case 4
    let ?a = "h + 12 + span bs + 4 * max (adjusted (unat sz)) 4096"
    have "curbrk u = A (h + 12 + span bs)" using ok(1) by (simp add: heap_ok_def heap_at_def ac_simps)
    then have "curbrk u < A ?a" "A ?a \<le> 1073741824" using 4(3) by (simp_all add: u64_less_iff u64_le_iff unat_of_nat64 del: of_nat_add of_nat_mult)
    note a = this
    from malloc_extends [OF ok(1) 4(1) sz 4(2) refl 4(3)] show ?thesis
    proof (elim disjE exE conjE)
      fix f assume "sys (A ?a) (kern u) = Inl f" "malloc sys sz u = Inl f"
      then show ?thesis using a by (intro disjI1 exI [of _ f] exI [of _ "A ?a"]) simp
    next
      fix p n v assume "malloc sys sz u = Inr (A (p + 4), v)" "allocated u h bs v p n" "unat sz + 8 \<le> n"
      then show ?thesis using got by blast
    qed
  qed
qed

text \<open>The first call sets the heap up and then goes on as usual.\<close>

lemma malloc_started:
  assumes "started u" and sz: "unat sz < 1152921504606846976"
  shows "(\<exists>e. malloc sys sz u = Inl e \<and> stops_in_brk sys (curbrk u) (kern u) e) \<or>
    (\<exists>v. malloc sys sz u = Inr (0, v) \<and> ledger_ok v {}) \<or>
    (\<exists>p v. malloc sys sz u = Inr (p, v) \<and> p \<noteq> 0 \<and> ledger_ok v {(unat p, unat sz)})"
proof -
  obtain c where c: "uninitialized_flag u \<noteq> 0" "curbrk u = A c" "unat (heap_base u) \<le> c" "0 < c" "c + 4112 \<le> 1073741824"
    using assms(1) by (auto simp: started_def)
  have ad: "curbrk u < A (c + 16)" "A (c + 16) \<le> 1073741824" "curbrk u < A (c + 4112)" "A (c + 4112) \<le> 1073741824"
    using c(2,5) by (simp_all add: u64_less_iff u64_le_iff unat_of_nat64 del: of_nat_add)
  have fault: "malloc sys sz u = Inl f" if "minit sys u = Inl f" for f using c(1) that by (simp add: malloc_def)
  have init: "malloc sys sz u = malloc sys sz v" if "minit sys u = Inr (0, v)" "heap_ok v h bs" for v h bs
    using c(1) that by (simp add: malloc_def heap_ok_def)
  consider f where "sys (A (c + 16)) (kern u) = Inl f" "minit sys u = Inl f"
    | f k r where "sys (A (c + 16)) (kern u) = Inr (r, k)" "sys (A (c + 4112)) k = Inl f" "minit sys u = Inl f"
    | v k r r' where "sys (A (c + 16)) (kern u) = Inr (r, k)" "sys (A (c + 4112)) k = Inr (r', kern v)" "minit sys u = Inr (0, v)"
        "heap_ok v (c + 4) [(4096, False)]" using minit_blocks [OF c(2-5)] by blast
  then show ?thesis
  proof cases
    case (1 f)
    then show ?thesis using fault ad unfolding stops_in_brk_def by (intro disjI1 exI [of _ f] conjI exI [of _ "[A (c + 16)]"]) simp_all
  next
    case (2 f k r)
    then show ?thesis using fault ad unfolding stops_in_brk_def by (intro disjI1 exI [of _ f] conjI exI [of _ "[A (c + 16), A (c + 4112)]"]) auto
  next
    case (3 v k r r')
    have h: "held (c + 4) [(4096, False)] {}" by (simp add: held_def)
    have cb: "curbrk v = A (c + 4112)" using 3(4) by (simp add: heap_ok_def heap_at_def ac_simps)
    consider e a where "malloc sys sz v = Inl e" "curbrk v < a" "a \<le> 1073741824" "sys a (kern v) = Inl e"
      | w where "malloc sys sz v = Inr (0, w)" "ledger_ok w {}"
      | p w where "malloc sys sz v = Inr (p, w)" "p \<noteq> 0" "ledger_ok w {(unat p, unat sz)}"
      using malloc_outcomes [OF 3(4) h sz] by blast
    then show ?thesis unfolding init [OF 3(3,4)]
    proof cases
      case (1 e a)
      then have "curbrk u < a" using ad(3) cb by (simp add: less_trans)
      then show "(\<exists>e. malloc sys sz v = Inl e \<and> stops_in_brk sys (curbrk u) (kern u) e) \<or>
          (\<exists>w. malloc sys sz v = Inr (0, w) \<and> ledger_ok w {}) \<or> (\<exists>p w. malloc sys sz v = Inr (p, w) \<and> p \<noteq> 0 \<and> ledger_ok w {(unat p, unat sz)})"
        using 1 ad 3(1,2) unfolding stops_in_brk_def by (intro disjI1 exI [of _ e] conjI exI [of _ "[A (c + 16), A (c + 4112), a]"]) auto
    qed blast+
  qed
qed

lemma malloc_state_ok:
  assumes "state_ok u L" "unat sz < 1152921504606846976"
  shows "(\<exists>e. malloc sys sz u = Inl e \<and> stops_in_brk sys (curbrk u) (kern u) e) \<or>
    (\<exists>v. malloc sys sz u = Inr (0, v) \<and> state_ok v L) \<or>
    (\<exists>p v. malloc sys sz u = Inr (p, v) \<and> p \<noteq> 0 \<and> state_ok v (insert (unat p, unat sz) L))"
proof (cases "started u \<and> L = {}")
  case True
  then show ?thesis using malloc_started [OF _ assms(2), of u] unfolding state_ok_def by blast
next
  case False
  then obtain h bs where ok: "heap_ok u h bs" "held h bs L" using assms(1) by (auto simp: state_ok_def ledger_ok_def)
  have "stops_in_brk sys (curbrk u) (kern u) e" if "curbrk u < a" "a \<le> 1073741824" "sys a (kern u) = Inl e" for a e
    unfolding stops_in_brk_def using that by (intro exI [of _ "[a]"]) simp
  then show ?thesis using malloc_outcomes [OF ok assms(2)] unfolding state_ok_def by blast
qed

lemma free_state_ok:
  assumes "state_ok u L" "(p, n) \<in> L"
  shows "\<exists>v. free (A p) u = Inr v \<and> state_ok v (L - {(p, n)})"
proof -
  obtain h bs where ok: "heap_ok u h bs" "held h bs L" using assms by (auto simp: state_ok_def ledger_ok_def)
  obtain q k where q: "p = q + 4" "(q, k) \<in> live (h + 8) bs" using heldE [OF ok(2) assms(2)] by blast
  obtain v where "free (A p) u = Inr v" "freed u h bs v q k" using heap_ok_free [OF ok(1) q(2)] unfolding q(1) by blast
  then show ?thesis using held_freed [OF ok _ q(2)] assms(2) unfolding q(1) state_ok_def by blast
qed

lemma store_state_ok:
  assumes "state_ok u L" "(p, n) \<in> L" "p \<le> a" "a < p + n"
  shows "state_ok (u\<lparr>umem := (umem u)(A a := b)\<rparr>) L"
proof -
  obtain h bs where ok: "heap_ok u h bs" "held h bs L" using assms by (auto simp: state_ok_def ledger_ok_def)
  obtain q k where q: "p = q + 4" "(q, k) \<in> live (h + 8) bs" "n + 8 \<le> k" using heldE [OF ok(2) assms(2)] by blast
  have "heap_ok (u\<lparr>umem := (umem u)(A a := b)\<rparr>) h bs" by (rule payload_store [OF ok(1) q(2)]) (use q assms(3,4) in auto)
  then show ?thesis using ok(2) unfolding state_ok_def ledger_ok_def by blast
qed

lemma hstep_state_ok: "hstep sys x y \<Longrightarrow> state_ok (fst x) (snd x) \<Longrightarrow> state_ok (fst y) (snd y)"
proof (induction rule: hstep.induct)
  case (got sz u p v L)
  then show ?case using malloc_state_ok [of u L sz] by auto
next
  case (refused sz u v L)
  then show ?case using malloc_state_ok [of u L sz] by auto
next
  case (returned p n L u v)
  then show ?case using free_state_ok [of u L p n] by auto
next
  case (stored p n L a u b)
  then show ?case using store_state_ok [of u L p n a b] by simp
qed

lemma hsteps_state_ok: "(hstep sys)\<^sup>*\<^sup>* x y \<Longrightarrow> state_ok (fst x) (snd x) \<Longrightarrow> state_ok (fst y) (snd y)"
  by (induction rule: rtranclp_induct) (auto dest: hstep_state_ok)

end

section \<open>Every program\<close>

lemma state_ok_disjoint:
  assumes "state_ok u L" "(p, n) \<in> L"
  shows "unat (heap_base u) \<le> p \<and> p + n \<le> unat (curbrk u)" "(q, m) \<in> L \<Longrightarrow> p \<noteq> q \<Longrightarrow> p + n \<le> q \<or> q + m \<le> p"
proof -
  obtain h bs where ok: "heap_ok u h bs" "held h bs L" using assms by (auto simp: state_ok_def ledger_ok_def)
  obtain s k where s: "p = s + 4" "(s, k) \<in> live (h + 8) bs" "n + 8 \<le> k" using heldE [OF ok(2) assms(2)] by blast
  show "unat (heap_base u) \<le> p \<and> p + n \<le> unat (curbrk u)" using heap_ok_bounds [OF ok(1) s(2)] s by simp
  assume q: "(q, m) \<in> L" "p \<noteq> q"
  obtain r j where r: "q = r + 4" "(r, j) \<in> live (h + 8) bs" "m + 8 \<le> j" using heldE [OF ok(2) q(1)] by blast
  show "p + n \<le> q \<or> q + m \<le> p" using live_disjoint [OF s(2) r(2)] s r q(2) by auto
qed

text \<open>A kernel in which \<open>brk\<close> works, with three frames left, does not stop in it.\<close>

lemma brk_run_returns:
  assumes "brk_ok mm b (length as) s" "\<forall>a \<in> set as. b < a \<and> a < HEAP_LIMIT"
  shows "\<exists>t. brk_run brk_call as s = Inr t"
  using assms
proof (induction as arbitrary: s)
  case (Cons a as)
  then obtain t where "brk_call a s = Inr (a, t)" "brk_ok mm b (length as) t" using brk_call_adds [of mm b "length as" s a] by auto
  then show ?case using Cons.IH [of t] Cons.prems(2) by auto
qed simp

lemma brk_ok_fewer: "brk_ok mm b n s \<Longrightarrow> m \<le> n \<Longrightarrow> brk_ok mm b m s"
  unfolding brk_ok_def by fastforce

lemma brk_works:
  assumes "brk_ok mm b 3 s" "b \<le> c"
  shows "\<not> stops_in_brk brk_call c s e"
proof
  assume "stops_in_brk brk_call c s e"
  then obtain as where as: "length as \<le> 3" "\<forall>a \<in> set as. c < a \<and> a \<le> 1073741824" "brk_run brk_call as s = Inl e"
    by (auto simp: stops_in_brk_def)
  have "\<forall>a \<in> set as. b < a \<and> a < HEAP_LIMIT" using as(2) assms(2) by (auto intro: le_less_trans)
  then show False using brk_run_returns [OF brk_ok_fewer [OF assms(1) as(1)]] as(3) by auto
qed

text \<open>
  C15. Whatever a program does with \<open>malloc\<close>, \<open>free\<close> and the memory it got (it frees only what it holds
  and writes only inside it), the memory blocks it holds lie within the heap and do not
  overlap; \<open>free\<close> of any of them returns; and \<open>malloc\<close> returns, NULL or a pointer, unless the
  kernel, in the state it is in, stops in one of the at most three calls of \<open>brk\<close> with addresses above the break that \<open>malloc\<close>
  makes. It does not stop there, so \<open>malloc\<close> returns, if the process's areas are in order and three frames are left. In
  particular neither call ever accesses memory outside the heap.
\<close>

theorem heap_programs:
  fixes u v :: "'a kernel_scheme process"
  assumes "started u" "(hstep brk_call)\<^sup>*\<^sup>* (u, {}) (v, L)"
  shows "(\<forall>(p, n) \<in> L. unat (heap_base v) \<le> p \<and> p + n \<le> unat (curbrk v)) \<and>
    (\<forall>(p, n) \<in> L. \<forall>(q, m) \<in> L. p \<noteq> q \<longrightarrow> p + n \<le> q \<or> q + m \<le> p) \<and>
    (\<forall>(p, n) \<in> L. \<exists>w. free (A p) v = Inr w) \<and>
    (\<forall>sz. unat sz < 1152921504606846976 \<longrightarrow>
       (\<exists>p w. malloc brk_call sz v = Inr (p, w)) \<or> (\<exists>e. malloc brk_call sz v = Inl e \<and> stops_in_brk brk_call (curbrk v) (kern v) e)) \<and>
    (\<forall>sz mm b. unat sz < 1152921504606846976 \<longrightarrow> brk_ok mm b 3 (kern v) \<longrightarrow> b \<le> curbrk v \<longrightarrow> (\<exists>p w. malloc brk_call sz v = Inr (p, w)))"
proof -
  have ok: "state_ok v L" using kernel_break.hsteps_state_ok [OF assms(2)] assms(1) by (simp add: state_ok_def)
  have "\<forall>(p, n) \<in> L. unat (heap_base v) \<le> p \<and> p + n \<le> unat (curbrk v)" using state_ok_disjoint(1) [OF ok] by blast
  moreover have "\<forall>(p, n) \<in> L. \<forall>(q, m) \<in> L. p \<noteq> q \<longrightarrow> p + n \<le> q \<or> q + m \<le> p" using state_ok_disjoint(2) [OF ok] by blast
  moreover have "\<forall>(p, n) \<in> L. \<exists>w. free (A p) v = Inr w" using kernel_break.free_state_ok [OF ok] by blast
  moreover have m: "(\<exists>p w. malloc brk_call sz v = Inr (p, w)) \<or> (\<exists>e. malloc brk_call sz v = Inl e \<and> stops_in_brk brk_call (curbrk v) (kern v) e)"
    if "unat sz < 1152921504606846976" for sz using kernel_break.malloc_state_ok [OF ok that] by blast
  moreover have "\<exists>p w. malloc brk_call sz v = Inr (p, w)" if "unat sz < 1152921504606846976" "brk_ok mm b 3 (kern v)" "b \<le> curbrk v" for sz mm b
    using m [OF that(1)] brk_works [OF that(2,3)] by blast
  ultimately show ?thesis by (intro conjI) blast+
qed

text \<open>A program just loaded, whose heap starts at 8 MB.\<close>

definition program_example :: "kernel process" where
  "program_example = \<lparr>umem = \<lambda>_. 0, heap_base = 0x800000, curbrk = 0x800000, heap_listp = 0, uninitialized_flag = 1,
     stdout = [], kern = break_example\<rparr>"

lemma program_example_malloc: "\<exists>v. malloc brk_call 100 program_example = Inr (0x800010, v)"
proof -
  let ?c = "0x800000 :: nat"
  obtain k where k: "brk_call (A (?c + 16)) break_example = Inr (A (?c + 16), k)" "brk_ok 0x2000 0x800000 1 k"
    using brk_call_adds [OF break_example_ok [of "Suc 1", simplified], of "A (?c + 16)"] by auto
  obtain j where j: "brk_call (A (?c + 4112)) k = Inr (A (?c + 4112), j)"
    using brk_call_adds [of "0x2000" "0x800000" 0 k "A (?c + 4112)"] k(2) by auto
  have u: "curbrk program_example = A ?c" "unat (heap_base program_example) \<le> ?c" "kern program_example = break_example"
    "uninitialized_flag program_example \<noteq> 0" by (simp_all add: program_example_def)
  obtain v where v: "minit brk_call program_example = Inr (0, v)" "heap_ok v (?c + 4) [(4096, False)]"
    using kernel_break.minit_blocks [OF u(1,2)] k(1) j u(3) by auto
  have "first_fit (?c + 4 + 8) (adjusted (unat (100 :: u64))) [(4096, False)] = Some (?c + 12)" by (simp add: adjusted_def)
  then obtain w where "malloc brk_call 100 v = Inr (A (?c + 12 + 4), w)"
    using kernel_break.malloc_fits [OF v(2), of 100 "?c + 12"] by auto
  moreover have "malloc brk_call 100 program_example = malloc brk_call 100 v"
    using u(4) v by (simp add: malloc_def heap_ok_def)
  ultimately show ?thesis by auto
qed

theorem heap_programs_witness:
  "\<exists>v w. malloc brk_call 100 program_example = Inr (0x800010, v) \<and> free 0x800010 v = Inr w"
proof -
  obtain v where v: "malloc brk_call 100 program_example = Inr (0x800010, v)" using program_example_malloc by blast
  have st: "started program_example" by (auto simp: started_def program_example_def intro!: exI [of _ "0x800000 :: nat"])
  have "hstep brk_call (program_example, {}) (v, insert (unat (0x800010 :: u64), unat (100 :: u64)) {})"
    by (rule hstep.got [OF v]) simp_all
  then have "(hstep brk_call)\<^sup>*\<^sup>* (program_example, {}) (v, {(8388624, 100)})" by simp
  from heap_programs [OF st this] have "\<exists>w. free (A 8388624) v = Inr w" by blast
  then show ?thesis using v by auto
qed

end
