(* ===== verification/CopyOnWrite.thy ===== *)
theory CopyOnWrite
  imports AddressSpace Tasks
begin

text \<open>
  Copy-on-write (sys/mmap.c): what the page-fault handler does when a user program writes to a
  page that \<open>fork\<close> has left shared and read-only.
\<close>

section \<open>Replacing the entry of one page\<close>

text \<open>
  From \<open>s\<close> to \<open>t\<close> entry \<open>i\<close> of the last-level table \<open>g\<close> has become \<open>e\<close> and frame \<open>h\<close> has new contents
  \<open>c\<close>; nothing else in memory has changed.
\<close>

definition repointed :: "ram \<Rightarrow> ram \<Rightarrow> nat \<Rightarrow> nat \<Rightarrow> u64 \<Rightarrow> nat \<Rightarrow> (nat \<Rightarrow> u64) \<Rightarrow> bool" where
  "repointed r r' g i e h c \<longleftrightarrow> (\<forall>x j. small_frame x \<longrightarrow> j < 512 \<longrightarrow>
     frame_word r' x j = (if x = h then c j else if x = g \<and> j = i then e else frame_word r x j))"

lemma repointed_walk:
  assumes wf: "pt_wf s f" and p: "walk_frame (ram s) f p = Some g" "upath (p @ [i])" "length p = 3"
    and r: "repointed (ram s) r' g i e h c" and h: "\<forall>q. upath q \<longrightarrow> length q < 4 \<longrightarrow> walk_frame (ram s) f q \<noteq> Some h"
    and e: "present e" "ent_frame e = k" and q: "upath q"
  shows "walk_frame r' f q = (if q = p @ [i] then Some k else walk_frame (ram s) f q)"
  using q
proof (induction q rule: rev_induct)
  case Nil
  then show ?case by simp
next
  case (snoc j q)
  have up: "upath p" "upath q" "i < 512" "j < 512" "length q < 4"
    using p(2) snoc.prems by (auto intro: upath_prefix upath_snoc_less simp: upath_def)
  have IH: "walk_frame r' f q = walk_frame (ram s) f q" using snoc.IH [OF up(2)] up(5) p(3) by auto
  show ?case
  proof (cases "walk_frame (ram s) f q")
    case None
    then have "q \<noteq> p" using p(1) by auto
    then show ?thesis using IH None by (simp add: walk_frame_snoc)
  next
    case (Some x)
    have xh: "x \<noteq> h" using h up(2,5) Some by blast
    have "small_frame x" by (rule small_frame_of [OF pt_wfD(1) [OF wf up(2) Some]])
    then have w: "frame_word r' x j = (if x = g \<and> j = i then e else frame_word (ram s) x j)"
      using r xh up(4) by (simp add: repointed_def)
    have "x = g \<longleftrightarrow> q = p" using pt_wfD(3) [OF wf up(2,1) Some] p(1) Some by auto
    then show ?thesis using IH Some w e by (auto simp: walk_frame_snoc)
  qed
qed

lemma repointed_wf:
  assumes wf: "pt_wf s f" and p: "walk_frame (ram s) f p = Some g" "upath (p @ [i])" "length p = 3"
    and r: "repointed (ram s) (ram t) g i e h c" and h: "\<forall>q. upath q \<longrightarrow> length q < 4 \<longrightarrow> walk_frame (ram s) f q \<noteq> Some h"
    and e: "present e" "ent_frame e = k" "unat e < 4503599627370496"
    and k: "k < PAGE_ARRAY_SIZE" "\<And>q. upath q \<Longrightarrow> q \<noteq> p @ [i] \<Longrightarrow> walk_frame (ram s) f q \<noteq> Some k"
    and ref: "page_ref t k \<noteq> 0" "\<And>q x. upath q \<Longrightarrow> q \<noteq> p @ [i] \<Longrightarrow> walk_frame (ram s) f q = Some x \<Longrightarrow> page_ref t x \<noteq> 0"
  shows "pt_wf t f"
proof -
  note walk = repointed_walk [OF wf p r h e(1,2)]
  show ?thesis unfolding pt_wf_def
  proof (intro conjI allI impI)
    fix q x assume q: "upath q" "walk_frame (ram t) f q = Some x"
    then have "x < PAGE_ARRAY_SIZE \<and> page_ref t x \<noteq> 0"
      using walk [OF q(1)] k(1) ref pt_wfD(1) [OF wf q(1)] by (cases "q = p @ [i]") auto
    then show "x < PAGE_ARRAY_SIZE" "page_ref t x \<noteq> 0" by auto
  next
    fix q q' x assume q: "upath q" "upath q'" "walk_frame (ram t) f q = Some x" "walk_frame (ram t) f q' = Some x"
    then show "q = q'"
      using walk [OF q(1)] walk [OF q(2)] k(2) [OF q(1)] k(2) [OF q(2)] pt_wfD(3) [OF wf q(1,2), of x]
      by (cases "q = p @ [i]"; cases "q' = p @ [i]") auto
  next
    fix q j x assume q: "upath (q @ [j])" "walk_frame (ram t) f q = Some x" "frame_word (ram t) x j \<noteq> 0"
    have uq: "upath q" "j < 512" "length q < 4" using q(1) by (auto intro: upath_prefix upath_snoc_less simp: upath_def)
    have x: "walk_frame (ram s) f q = Some x" using walk [OF uq(1)] q(2) uq(3) p(3) by auto
    have "x \<noteq> h" using h uq(1,3) x by blast
    moreover have "small_frame x" by (rule small_frame_of [OF pt_wfD(1) [OF wf uq(1) x]])
    ultimately have "frame_word (ram t) x j = (if x = g \<and> j = i then e else frame_word (ram s) x j)"
      using r uq(2) by (simp add: repointed_def)
    then have "present (frame_word (ram t) x j) \<and> unat (frame_word (ram t) x j) < 4503599627370496"
      using q(3) e pt_wfD(4) [OF wf q(1) x] by (auto split: if_splits)
    then show "present (frame_word (ram t) x j)" "unat (frame_word (ram t) x j) < 4503599627370496" by auto
  qed
qed

section \<open>The write to a shared page\<close>

text \<open>
  The running process has its page directory in frame \<open>f\<close>, which refers to itself, and maps the
  page of the user address \<open>addr\<close> by the entry \<open>pte\<close> in table \<open>g\<close>, marked copy-on-write.
\<close>

definition cow_page :: "'a kernel_scheme \<Rightarrow> nat \<Rightarrow> nat \<Rightarrow> u64 \<Rightarrow> u64 \<Rightarrow> bool" where
  "cow_page s f g addr pte \<longleftrightarrow> cr3 s = frame_pa f \<and> pt_wf s f \<and> unat addr < 140737488355328 \<and>
     (\<exists>b. frame_word (ram s) f 0x1fe = frame_pa f OR b \<and> unat b < 4096 \<and> present b) \<and>
     (\<exists>m. current_mm s = Inr m \<and> mm_pgd m = PA2VA (frame_pa f)) \<and>
     (\<forall>x < PAGE_ARRAY_SIZE. page_array_ptr s + 4 * of_nat x < page_array_end s) \<and>
     walk_frame (ram s) f [idx 3 addr, idx 2 addr, idx 1 addr] = Some g \<and>
     frame_word (ram s) g (idx 0 addr) = pte \<and> pte AND PTE_COW \<noteq> 0"

lemma cow_pageD:
  assumes "cow_page s f g addr pte"
  shows "cr3 s = frame_pa f" "pt_wf s f" "upath ([idx 3 addr, idx 2 addr, idx 1 addr] @ [idx 0 addr])"
    "walk_frame (ram s) f [idx 3 addr, idx 2 addr, idx 1 addr] = Some g" "frame_word (ram s) g (idx 0 addr) = pte"
    "pte AND PTE_COW \<noteq> 0" "pte \<noteq> 0" "path addr = [idx 3 addr, idx 2 addr, idx 1 addr] @ [idx 0 addr]"
proof -
  show "cr3 s = frame_pa f" "pt_wf s f" "walk_frame (ram s) f [idx 3 addr, idx 2 addr, idx 1 addr] = Some g"
    "frame_word (ram s) g (idx 0 addr) = pte" "pte AND PTE_COW \<noteq> 0" "pte \<noteq> 0"
    using assms by (auto simp: cow_page_def)
  show p: "path addr = [idx 3 addr, idx 2 addr, idx 1 addr] @ [idx 0 addr]" by (simp add: path_def)
  show "upath ([idx 3 addr, idx 2 addr, idx 1 addr] @ [idx 0 addr])"
    unfolding p [symmetric] using assms by (intro upath_path) (simp add: cow_page_def)
qed

lemma cow_entry:
  assumes c: "cow_page s f g addr pte" and o: "old = ent_frame pte"
  shows "walk_frame (ram s) f (path addr) = Some old" "unat pte < 4503599627370496" "present pte"
    "old < PAGE_ARRAY_SIZE" "g < PAGE_ARRAY_SIZE" "f < PAGE_ARRAY_SIZE" "drop_bit 12 pte = of_nat old" "PA2VA (pte AND PG_MASK) = PA2VA (frame_pa old)"
proof -
  note d = cow_pageD [OF c]
  have up: "upath [idx 3 addr, idx 2 addr, idx 1 addr]" using d(3) by (rule upath_prefix)
  have e: "present pte \<and> unat pte < 4503599627370496" using pt_wfD(4) [OF d(2,3,4)] d(5,7) by simp
  then show "unat pte < 4503599627370496" "present pte" by auto
  show w: "walk_frame (ram s) f (path addr) = Some old"
    unfolding d(8) walk_frame_snoc using d(4,5) e o by simp
  show ol: "old < PAGE_ARRAY_SIZE" using pt_wfD(1) [OF d(2) d(3)] w unfolding d(8) by blast
  show "g < PAGE_ARRAY_SIZE" using pt_wfD(1) [OF d(2) up d(4)] .
  show "f < PAGE_ARRAY_SIZE" using pt_wfD(1) [OF d(2), of "[]" f] by simp
  have "ent_frame pte = unat pte div 4096" using e by (simp add: ent_frame_def less_mult_imp_div_less)
  then show "drop_bit 12 pte = of_nat old" using ol o by (simp add: u64_eq_iff unat_drop64 unat_of_nat64)
  show "PA2VA (pte AND PG_MASK) = PA2VA (frame_pa old)" using entry_page_mask entry_page_eq e o by metis
qed

text \<open>The handler finds the entry of the page through the directory's reference to itself.\<close>

lemma trick_entry:
  assumes c: "cow_page s f g addr pte"
    and r: "\<forall>x j. small_frame x \<longrightarrow> j < 512 \<longrightarrow> x \<noteq> h \<longrightarrow> frame_word r x j = frame_word (ram s) x j"
    and h: "page_ref s h = 0"
  shows "walk r (frame_pa f) (get_pte_entry_addr_trick addr) = Some (entry_pa g (idx 0 addr))"
proof -
  note d = cow_pageD [OF c]
  obtain b where b: "frame_word (ram s) f 0x1fe = frame_pa f OR b" "unat b < 4096" "present b"
    using c by (auto simp: cow_page_def)
  have fr: "small_frame x \<and> x \<noteq> h" if "upath q" "walk_frame (ram s) f q = Some x" for q x
    using pt_wfD(1,2) [OF d(2) that] h small_frame_of by auto
  have f: "f < 32768" "small_frame f" "f \<noteq> h" using cow_entry(6) [OF c refl] fr [of "[]" f] by auto
  have "frame_word r f 0x1fe = frame_pa f OR b" using r f b(1) by simp
  moreover have "walk_frame r f [idx 3 addr, idx 2 addr, idx 1 addr] = Some g"
  proof -
    have pre: "upath [idx 3 addr, idx 2 addr, idx 1 addr]" "upath [idx 3 addr, idx 2 addr]" "upath [idx 3 addr]"
      using d(3) upath_prefix [of "[idx 3 addr, idx 2 addr, idx 1 addr]" "[idx 0 addr]"]
        upath_prefix [of "[idx 3 addr, idx 2 addr]" "[idx 1 addr]"] upath_prefix [of "[idx 3 addr]" "[idx 2 addr]"] by auto
    obtain x y where x: "walk_frame (ram s) f [idx 3 addr] = Some x" "walk_frame (ram s) f [idx 3 addr, idx 2 addr] = Some y"
      using d(4) by (auto simp: Let_def split: if_splits)
    show ?thesis using d(4) x r fr [OF pre(3) x(1)] fr [OF pre(2) x(2)] f by (auto simp: Let_def split: if_splits)
  qed
  ultimately show ?thesis using trick_walk [of r f b "frame_pa f" addr] b f by simp
qed

definition private_copy :: "'a kernel_scheme \<Rightarrow> 'a kernel_scheme \<Rightarrow> nat \<Rightarrow> nat \<Rightarrow> u64 \<Rightarrow> nat \<Rightarrow> nat \<Rightarrow> bool" where
  "private_copy s t f g addr old h \<longleftrightarrow> page_ref s h = 0 \<and> pt_wf t f \<and>
     walk_frame (ram t) f (path addr) = Some h \<and> frame_word (ram t) g (idx 0 addr) = frame_pa h OR 7 \<and>
     (\<forall>i<512. frame_word (ram t) h i = frame_word (ram s) old i) \<and>
     page_ref t = (page_ref s)(h := 1, old := page_ref s old - 1) \<and>
     (\<forall>q. upath q \<longrightarrow> q \<noteq> path addr \<longrightarrow> walk_frame (ram t) f q = walk_frame (ram s) f q) \<and>
     (\<forall>x j. small_frame x \<longrightarrow> j < 512 \<longrightarrow> x \<noteq> h \<longrightarrow> (x, j) \<noteq> (g, idx 0 addr) \<longrightarrow> frame_word (ram t) x j = frame_word (ram s) x j)"

lemma ref_gt1: "1 < sint (n :: u32) \<Longrightarrow> n - 1 \<noteq> 0"
proof
  assume n: "1 < sint n" "n - 1 = 0"
  then have "n = 1" by simp
  then show False using n(1) by simp
qed

lemma private_copyI:
  assumes c: "cow_page s f g addr pte" and h: "h \<in> pool" "page_ref s h = 0" and old: "1 < sint (page_ref s old)"
    and r: "repointed (ram s) (ram t) g (idx 0 addr) (frame_pa h OR 7) h (frame_word (ram s) old)"
    and pr: "page_ref t = (page_ref s)(h := 1, old := page_ref s old - 1)"
  shows "private_copy s t f g addr old h"
proof -
  note d = cow_pageD [OF c] and en = new_entry [OF h(1)]
  let ?p = "[idx 3 addr, idx 2 addr, idx 1 addr]" and ?i = "idx 0 addr"
  have up: "upath ?p" using d(3) by (rule upath_prefix)
  have sm: "small_frame h" "h < 32768" "small_frame g" "?i < 512" using pool_small [OF h(1)] small_frame_of [OF pt_wfD(1) [OF d(2) up d(4)]] by auto
  have ne: "h \<noteq> old" "g \<noteq> h" using old h(2) pt_wfD(2) [OF d(2) up d(4)] by auto
  have nh: "\<forall>q. upath q \<longrightarrow> length q < 4 \<longrightarrow> walk_frame (ram s) f q \<noteq> Some h" using pt_wfD(2) [OF d(2)] h(2) by blast
  note wk = repointed_walk [OF d(2) d(4) d(3) _ r nh en(1,2)]
  have "pt_wf t f"
    by (rule repointed_wf [OF d(2) d(4) d(3) _ r nh en(1,2,3)])
       (use sm h(2) ref_gt1 [OF old] pt_wfD(2) [OF d(2)] ne pr in auto)
  moreover have "frame_word (ram t) g ?i = frame_pa h OR 7" using r sm ne by (simp add: repointed_def)
  moreover have "frame_word (ram t) h i = frame_word (ram s) old i" if "i < 512" for i using r sm that by (simp add: repointed_def)
  moreover have "frame_word (ram t) x j = frame_word (ram s) x j" if "small_frame x" "j < 512" "x \<noteq> h" "(x, j) \<noteq> (g, ?i)" for x j
    using r that by (auto simp: repointed_def)
  moreover have "walk_frame (ram t) f (path addr) = Some h" using wk [OF _ d(3)] unfolding d(8) by (simp del: walk_frame.simps)
  moreover have "walk_frame (ram t) f q = walk_frame (ram s) f q" if "upath q" "q \<noteq> path addr" for q
    using wk [OF _ that(1)] that(2) unfolding d(8) by (simp del: walk_frame.simps)
  ultimately show ?thesis using h(2) pr unfolding private_copy_def by blast
qed

lemma cow_shared:
  assumes c: "cow_page s f g addr pte" and old: "old = ent_frame pte" "1 < sint (page_ref s old)" and free: "free_frames s \<noteq> {}"
  shows "\<exists>t h. cow_fault addr pte s = Inr t \<and> private_copy s t f g addr old h"
proof -
  note d = cow_pageD [OF c] and e = cow_entry [OF c old(1)]
  let ?p = "[idx 3 addr, idx 2 addr, idx 1 addr]" and ?i = "idx 0 addr"
  obtain x where "x \<in> free_frames s" using free by blast
  then obtain va u where z: "get_zero_page s = Inr (va, u)" using kzero.alloc_total [of x s] by (auto simp: free_frames_def)
  obtain h w where h: "va = PA2VA (frame_pa h)" "h \<in> pool" "page_ref s h = 0"
    "u = s\<lparr>page_ref := (page_ref s)(h := 1), bitmap := w, ram := memset (frame_pa h) 0 4096 (ram s)\<rparr>"
    using get_zero_page_InrE [OF z] by blast
  have sm: "small_frame h" "h < 32768" "small_frame old" "small_frame g" using pool_small [OF h(2)] e(4,5) small_frame_of by auto
  have on: "page_ref s old \<noteq> 0" using old(2) by auto
  have ne: "h \<noteq> old" using on h(3) by auto
  have up: "upath ?p" using d(3) by (rule upath_prefix)
  have gh: "g \<noteq> h" using pt_wfD(2) [OF d(2) up d(4)] h(3) by auto
  let ?r1 = "copy_bytes (frame_pa h) (frame_pa old) 4096 (memset (frame_pa h) 0 4096 (ram s))"
  have r1: "frame_word ?r1 x j = (if x = h then frame_word (ram s) old j else frame_word (ram s) x j)" if "small_frame x" "j < 512" for x j
    using that sm ne by (simp add: frame_word_copy frame_word_memset)
  let ?r2 = "store64 (entry_pa g ?i) (frame_pa h OR 7) ?r1"
  have r2: "repointed (ram s) ?r2 g ?i (frame_pa h OR 7) h (frame_word (ram s) old)"
    unfolding repointed_def using sm gh r1 frame_word_put_entry [of g ?i _ _ "frame_pa h OR 7" ?r1] by (simp add: put_entry_frame)
  let ?t = "s\<lparr>page_ref := (page_ref s)(h := 1, old := page_ref s old - 1), bitmap := w, ram := ?r2\<rparr>"
  have tw: "walk ?r1 (frame_pa f) (get_pte_entry_addr_trick addr) = Some (entry_pa g ?i)"
    by (rule trick_entry [OF c _ h(3)]) (use r1 in auto)
  have as: "page_array_ptr s + 4 * of_nat old < page_array_end s" using c e(4) by (simp add: cow_page_def)
  obtain m where m: "current_mm s = Inr m" "mm_pgd m = PA2VA (frame_pa f)" using c by (auto simp: cow_page_def)
  have "cow_fault addr pte s = Inr ?t"
  proof -
    have g1: "get_page_ref (drop_bit 12 pte) s = Inr (page_ref s old)"
      using as e(4) by (simp add: get_page_ref_def e(7) page_assert_def unat_of_nat64)
    have g2: "put_pte_entry_trick addr va (ENTRY_P OR ENTRY_RW OR ENTRY_US) (u\<lparr>ram := copy_page va (PA2VA (pte AND PG_MASK)) (ram u)\<rparr>)
        = Inr (u\<lparr>ram := ?r2\<rparr>)"
      using tw d(1) unfolding put_pte_entry_trick_def vstore64_def flags_7 by (simp add: h(1,4) copy_page_def e(8))
    have g3: "deduct_page_ref (drop_bit 12 pte) (u\<lparr>ram := ?r2\<rparr>) = Inr ?t"
      using as e(4) ne by (simp add: deduct_page_ref_def page_assert_def set_ref_def e(7) unat_of_nat64 h(4) fun_upd_twist)
    have g4: "flush_tlb ?t = Inr ?t" using m d(1) by (simp add: flush_tlb_def current_mm_def)
    have "va \<noteq> 0" using page_va_nonzero [OF h(2)] h(1) by simp
    then show ?thesis unfolding cow_fault_def g1 using old(2) z g2 g3 g4 by (simp add: Let_def)
  qed
  moreover have "private_copy s ?t f g addr old h" by (rule private_copyI [OF c h(2,3) old(2)]) (use r2 in simp_all)
  ultimately show ?thesis by blast
qed

text \<open>The page is not shared any more: its entry becomes writable, nothing else changes.\<close>

definition made_writable :: "'a kernel_scheme \<Rightarrow> 'a kernel_scheme \<Rightarrow> nat \<Rightarrow> nat \<Rightarrow> u64 \<Rightarrow> nat \<Rightarrow> bool" where
  "made_writable s t f g addr old \<longleftrightarrow> pt_wf t f \<and> page_ref t = page_ref s \<and>
     frame_word (ram t) g (idx 0 addr) = frame_pa old OR 7 \<and>
     (\<forall>q. upath q \<longrightarrow> walk_frame (ram t) f q = walk_frame (ram s) f q) \<and>
     (\<forall>x j. small_frame x \<longrightarrow> j < 512 \<longrightarrow> (x, j) \<noteq> (g, idx 0 addr) \<longrightarrow> frame_word (ram t) x j = frame_word (ram s) x j)"

lemma flags_entry:
  assumes "k < PAGE_ARRAY_SIZE"
  shows "present (frame_pa k OR 7)" "ent_frame (frame_pa k OR 7) = k" "unat (frame_pa k OR 7) < 4503599627370496"
  using assms small_frame_of [OF assms] by (simp_all add: present_or ent_frame_or unat_or_low)

lemma cow_exclusive:
  assumes c: "cow_page s f g addr pte" and old: "old = ent_frame pte" "\<not> 1 < sint (page_ref s old)"
  shows "\<exists>t. cow_fault addr pte s = Inr t \<and> made_writable s t f g addr old"
proof -
  note d = cow_pageD [OF c] and e = cow_entry [OF c old(1)]
  let ?p = "[idx 3 addr, idx 2 addr, idx 1 addr]" and ?i = "idx 0 addr"
  have sm: "small_frame old" "small_frame g" using e(4,5) small_frame_of by auto
  let ?r = "store64 (entry_pa g ?i) (frame_pa old OR 7) (ram s)"
  have w: "frame_word ?r x j = (if x = g \<and> j = ?i then frame_pa old OR 7 else frame_word (ram s) x j)" if "small_frame x" "j < 512" for x j
    using that sm frame_word_put_entry [of g ?i x j "frame_pa old OR 7" "ram s"] by (auto simp: put_entry_frame)
  have wo: "walk_frame (ram s) f (?p @ [?i]) = Some old" using e(1) unfolding d(8) .
  have nh: "\<forall>q. upath q \<longrightarrow> length q < 4 \<longrightarrow> walk_frame (ram s) f q \<noteq> Some old"
    using pt_wfD(3) [OF d(2) _ d(3) _ wo] by fastforce
  have up: "upath ?p" using d(3) by (rule upath_prefix)
  have go: "g \<noteq> old" using nh d(4) up by auto
  have r: "repointed (ram s) ?r g ?i (frame_pa old OR 7) old (frame_word (ram s) old)"
    using w go by (auto simp: repointed_def)
  note en = flags_entry [OF e(4)]
  note wk = repointed_walk [OF d(2) d(4) d(3) _ r nh en(1,2)]
  let ?t = "s\<lparr>ram := ?r\<rparr>"
  have tw: "walk (ram s) (frame_pa f) (get_pte_entry_addr_trick addr) = Some (entry_pa g ?i)"
  proof -
    obtain b where b: "frame_word (ram s) f 0x1fe = frame_pa f OR b" "unat b < 4096" "present b" using c by (auto simp: cow_page_def)
    show ?thesis using trick_walk [of "ram s" f b "frame_pa f" addr] b e(6) d(4) by simp
  qed
  have as: "page_array_ptr s + 4 * of_nat old < page_array_end s" using c e(4) by (simp add: cow_page_def)
  obtain m where m: "current_mm s = Inr m" "mm_pgd m = PA2VA (frame_pa f)" using c by (auto simp: cow_page_def)
  have "cow_fault addr pte s = Inr ?t"
  proof -
    have g1: "get_page_ref (drop_bit 12 pte) s = Inr (page_ref s old)"
      using as e(4) by (simp add: get_page_ref_def e(7) page_assert_def unat_of_nat64)
    have g2: "put_pte_entry_trick addr (PA2VA (pte AND PG_MASK)) (ENTRY_P OR ENTRY_RW OR ENTRY_US) s = Inr ?t"
      using tw d(1) unfolding put_pte_entry_trick_def vstore64_def flags_7 by (simp add: e(8))
    have g4: "flush_tlb ?t = Inr ?t" using m d(1) by (simp add: flush_tlb_def current_mm_def)
    show ?thesis unfolding cow_fault_def g1 using old(2) g2 g4 by simp
  qed
  moreover have "pt_wf ?t f"
  proof (rule repointed_wf [OF d(2) d(4) d(3) _ _ nh en e(4)])
    show "repointed (ram s) (ram ?t) g ?i (frame_pa old OR 7) old (frame_word (ram s) old)" using r by simp
    show "walk_frame (ram s) f q \<noteq> Some old" if "upath q" "q \<noteq> ?p @ [?i]" for q
      using pt_wfD(3) [OF d(2) that(1) d(3) _ wo] that(2) by blast
    show "page_ref ?t old \<noteq> 0" "\<And>q x. upath q \<Longrightarrow> walk_frame (ram s) f q = Some x \<Longrightarrow> page_ref ?t x \<noteq> 0"
      using pt_wfD(2) [OF d(2)] d(3) wo by auto
  qed simp
  moreover have "frame_word (ram ?t) g ?i = frame_pa old OR 7" using w [of g ?i] sm by simp
  moreover have "walk_frame (ram ?t) f q = walk_frame (ram s) f q" if "upath q" for q
    using wk [OF _ that] wo by (cases "q = ?p @ [?i]") simp_all
  moreover have "frame_word (ram ?t) x j = frame_word (ram s) x j" if "small_frame x" "j < 512" "(x, j) \<noteq> (g, ?i)" for x j
    using w [OF that(1,2)] that(3) by auto
  ultimately have "cow_fault addr pte s = Inr ?t" "made_writable s ?t f g addr old" unfolding made_writable_def by simp_all
  then show ?thesis by blast
qed

text \<open>
  C6. Copy-on-write. A user program writes to a page that is mapped read-only and marked
  copy-on-write. If the frame is shared, the page is from then on mapped, writable, to a fresh
  frame with the same contents, and the old frame has one reference less; if it is not shared,
  the page simply becomes writable. Every other page of the address space stays mapped to the
  same frame, every other frame keeps its contents, and the page tables stay well-formed.
\<close>

theorem copy_on_write:
  assumes "cow_page s f g addr pte" "old = ent_frame pte" "free_frames s \<noteq> {}"
    and "bit ecode PFEC_US" "bit ecode PFEC_P" "bit ecode PFEC_RW"
  shows "\<exists>t. page_fault_handler sp addr ecode eip s = Inr (Returns t) \<and>
    (if 1 < sint (page_ref s old) then \<exists>h. private_copy s t f g addr old h else made_writable s t f g addr old)"
proof -
  note d = cow_pageD [OF assms(1)] and e = cow_entry [OF assms(1,2)]
  obtain b where b: "frame_word (ram s) f 0x1fe = frame_pa f OR b" "unat b < 4096" "present b"
    using assms(1) by (auto simp: cow_page_def)
  have "walk (ram s) (frame_pa f) (get_pte_entry_addr_trick addr) = Some (entry_pa g (idx 0 addr))"
    using trick_walk [of "ram s" f b "frame_pa f" addr] b e(6) d(4) by simp
  then have "vload64 (get_pte_entry_addr_trick addr) s = Inr pte"
    using d(1,5) by (simp add: vload64_def frame_word_def)
  then have "page_fault_handler sp addr ecode eip s = rbind (cow_fault addr pte s) (\<lambda>s. Inr (Returns s))"
    using assms(4-6) d(6,7) by (simp add: page_fault_handler_def)
  then show ?thesis using cow_shared [OF assms(1,2) _ assms(3)] cow_exclusive [OF assms(1,2)]
    by (cases "1 < sint (page_ref s old)") auto
qed

text \<open>
  A process with the page at \<open>0x612000\<close> mapped to frame 675, copy-on-write and with two references;
  frames 671 to 674 are its page tables.
\<close>

definition dir_example :: kernel where
  "dir_example = kernel_example\<lparr>ram := put_entry (frame_pa 671) 0x1fe (frame_pa 671 OR 3) (\<lambda>_. 0)\<rparr>"

definition tables_example :: kernel where
  "tables_example = linked 674 18 675 (\<lambda>_. 0) (linked 673 3 674 (\<lambda>_. 0) (linked 672 0 673 (\<lambda>_. 0) (linked 671 0 672 (\<lambda>_. 0) dir_example)))"

definition cow_example :: kernel where
  "cow_example = tables_example\<lparr>page_ref := (page_ref tables_example)(675 := 2),
     ram := put_entry (frame_pa 674) 18 (frame_pa 675 OR 517) (ram tables_example)\<rparr>"

lemma dir_example_word: "small_frame x \<Longrightarrow> j < 512 \<Longrightarrow>
    frame_word (ram dir_example) x j = (if x = 671 \<and> j = 0x1fe then frame_pa 671 OR 3 else 0)"
  by (simp add: dir_example_def frame_word_put_entry small_frame_def) (auto simp: frame_word_def load64_def)

lemma dir_example_walk: "upath p \<Longrightarrow> walk_frame (ram dir_example) 671 p = (if p = [] then Some 671 else None)"
  by (cases p) (auto simp: dir_example_word upath_def small_frame_def Let_def)

lemma dir_example_wf: "pt_wf dir_example 671"
  unfolding pt_wf_def
proof (intro conjI allI impI)
  fix p i g assume p: "upath (p @ [i])" "walk_frame (ram dir_example) 671 p = Some g" "frame_word (ram dir_example) g i \<noteq> 0"
  then have "p = []" "g = 671" using dir_example_walk [OF upath_prefix [OF p(1)]] by (auto split: if_splits)
  then have "i < 256" using p(1) by (simp add: upath_def)
  then show "present (frame_word (ram dir_example) g i)" "unat (frame_word (ram dir_example) g i) < 4503599627370496"
    using p(3) \<open>g = 671\<close> by (auto simp: dir_example_word small_frame_def)
next
  have "page_ref dir_example 671 = 1" by (simp add: dir_example_def kernel_example_def)
  moreover fix p g assume "upath p" "walk_frame (ram dir_example) 671 p = Some g"
  ultimately show "g < PAGE_ARRAY_SIZE" "page_ref dir_example g \<noteq> 0" by (auto simp: dir_example_walk split: if_splits)
qed (auto simp: dir_example_walk split: if_splits)

text \<open>
  A chain of page tables being built from frame 671 downwards: table \<open>g\<close> is the last one, still
  empty, at the end of path \<open>p\<close>.
\<close>

definition table_chain :: "kernel \<Rightarrow> nat list \<Rightarrow> nat \<Rightarrow> bool" where
  "table_chain s p g \<longleftrightarrow> pt_wf s 671 \<and> walk_frame (ram s) 671 p = Some g \<and> (\<forall>j<0x1fe. frame_word (ram s) g j = 0) \<and>
     frame_word (ram s) 671 0x1fe = frame_pa 671 OR 3 \<and> page_ref s = (\<lambda>x. if x \<le> g then 1 else 0)"

lemma table_chain_start: "table_chain dir_example [] 671"
  using dir_example_wf
  by (simp add: table_chain_def dir_example_word small_frame_def) (simp add: dir_example_def kernel_example_def)

lemma table_chain_link:
  assumes c: "table_chain s p g" and i: "upath (p @ [i])" "i < 0x1fe" and h: "h = Suc g" "h \<in> pool"
  shows "table_chain (linked g i h w s) (p @ [i]) h" "walk_frame (ram (linked g i h w s)) 671 p = Some g"
proof -
  have wf: "pt_wf s 671" and p: "walk_frame (ram s) 671 p = Some g" and z: "frame_word (ram s) g i = 0"
    and self: "frame_word (ram s) 671 0x1fe = frame_pa 671 OR 3" and r: "page_ref s = (\<lambda>x. if x \<le> g then 1 else 0)"
    using c i(2) by (auto simp: table_chain_def)
  have rh: "page_ref s h = 0" by (simp add: r h(1))
  note g = pt_wfD(1,2) [OF wf upath_prefix [OF i(1)] p] and f = pt_wfD(1,2) [OF wf, of "[]" 671, simplified]
  have sm: "small_frame g" "small_frame 671" "small_frame h" "g \<noteq> h" "671 \<noteq> h" "i < 512"
    using g f h(2) rh pool_small small_frame_of i(2) by auto
  note w = linked_word [OF sm(1,6) h(2) sm(4), where w = w and s = s]
  have "pt_wf (linked g i h w s) 671" by (rule linked_wf [OF wf p i(1) h(2) rh z])
  moreover have "walk_frame (ram (linked g i h w s)) 671 (p @ [i]) = Some h" using linked_walk [OF wf p i(1) h(2) rh z i(1)] by simp
  moreover have "frame_word (ram (linked g i h w s)) h j = 0" if "j < 0x1fe" for j using w [OF sm(3), of j] that by simp
  moreover have "frame_word (ram (linked g i h w s)) 671 0x1fe = frame_pa 671 OR 3"
    using w [OF sm(2), of "0x1fe"] sm(5) self i(2) by simp
  moreover have "page_ref (linked g i h w s) = (\<lambda>x. if x \<le> h then 1 else 0)" by (auto simp: linked_def r h(1))
  ultimately show "table_chain (linked g i h w s) (p @ [i]) h" unfolding table_chain_def by blast
  show "walk_frame (ram (linked g i h w s)) 671 p = Some g"
    using linked_walk [OF wf p i(1) h(2) rh z upath_prefix [OF i(1)], of w] p by (auto simp: strict_prefix_def prefix_def)
qed

lemma tables_example_chain:
  "table_chain tables_example ([0, 0, 3] @ [18]) 675" "walk_frame (ram tables_example) 671 [0, 0, 3] = Some 674"
proof -
  have pool: "672 \<in> pool" "673 \<in> pool" "674 \<in> pool" "675 \<in> pool" by (simp_all add: pool_def)
  have up: "upath ([] @ [0])" "upath ([0] @ [0])" "upath ([0, 0] @ [3])" "upath ([0, 0, 3] @ [18])" by (simp_all add: upath_def)
  have c1: "table_chain (linked 671 0 672 (\<lambda>_. 0) dir_example) [0] 672"
    using table_chain_link(1) [OF table_chain_start up(1) _ _ pool(1)] by simp
  have c2: "table_chain (linked 672 0 673 (\<lambda>_. 0) (linked 671 0 672 (\<lambda>_. 0) dir_example)) [0, 0] 673"
    using table_chain_link(1) [OF c1 up(2) _ _ pool(2)] by simp
  have c3: "table_chain (linked 673 3 674 (\<lambda>_. 0) (linked 672 0 673 (\<lambda>_. 0) (linked 671 0 672 (\<lambda>_. 0) dir_example))) [0, 0, 3] 674"
    using table_chain_link(1) [OF c2 up(3) _ _ pool(3)] by simp
  show "table_chain tables_example ([0, 0, 3] @ [18]) 675" "walk_frame (ram tables_example) 671 [0, 0, 3] = Some 674"
    unfolding tables_example_def by (rule table_chain_link [OF c3 up(4) _ _ pool(4)]; simp)+
qed

lemma cow_example_page: "cow_page cow_example 671 674 0x612345 (frame_pa 675 OR 517)"
proof -
  let ?e = "frame_pa 675 OR 517" and ?w = "frame_word (ram tables_example) 675"
  note c = tables_example_chain(1) [unfolded table_chain_def] and p = tables_example_chain(2)
  have up: "upath ([0, 0, 3] @ [18])" "upath [0, 0, 3]" by (simp_all add: upath_def)
  have sm: "small_frame 671" "small_frame 674" by (simp_all add: small_frame_def)
  have w: "frame_word (ram cow_example) x j = (if x = 674 \<and> j = 18 then ?e else frame_word (ram tables_example) x j)"
    if "small_frame x" "j < 512" for x j
    using that sm frame_word_put_entry [of 674 18 x j ?e "ram tables_example"] by (auto simp: cow_example_def)
  have r: "repointed (ram tables_example) (ram cow_example) 674 18 ?e 675 ?w" using w by (auto simp: repointed_def)
  have n: "walk_frame (ram tables_example) 671 q \<noteq> Some 675" if "upath q" "q \<noteq> [0, 0, 3] @ [18]" for q
    using pt_wfD(3) [OF _ that(1) up(1)] c that(2) by blast
  then have nh: "\<forall>q. upath q \<longrightarrow> length q < 4 \<longrightarrow> walk_frame (ram tables_example) 671 q \<noteq> Some 675" by fastforce
  have e: "present ?e" "ent_frame ?e = 675" "unat ?e < 4503599627370496" "?e AND PTE_COW \<noteq> 0"
    by (simp_all add: present_def ent_frame_def frame_pa_def)
  have ref: "page_ref cow_example = (\<lambda>x. if x \<le> 675 then 1 else 0)(675 := 2)" using c by (simp add: cow_example_def)
  have "pt_wf cow_example 671"
    by (rule repointed_wf [OF _ p up(1) _ r nh e(1-3) _ n]) (use c ref pt_wfD(2) [of tables_example 671] in \<open>auto split: if_splits\<close>)
  moreover have "walk_frame (ram cow_example) 671 [0, 0, 3] = Some 674"
    using repointed_walk [OF _ p up(1) _ r nh e(1,2) up(2)] c p by (simp del: walk_frame.simps)
  moreover have "frame_word (ram cow_example) 674 18 = ?e" using w [OF sm(2), of 18] by simp
  moreover have "frame_word (ram cow_example) 671 0x1fe = frame_pa 671 OR 3" using w [OF sm(1), of "0x1fe"] c by simp
  moreover have "idx 3 0x612345 = 0" "idx 2 0x612345 = 0" "idx 1 0x612345 = 3" "idx 0 0x612345 = 18" by (simp_all add: idx_def)
  moreover have "cr3 cow_example = frame_pa 671" "\<exists>m. current_mm cow_example = Inr m \<and> mm_pgd m = PA2VA (frame_pa 671)"
    "page_array_ptr cow_example = PA2VA (frame_pa 612)" "page_array_end cow_example = PA2VA (frame_pa 644)"
    by (simp_all add: cow_example_def tables_example_def linked_def dir_example_def kernel_example_def current_mm_def)
  moreover have "\<exists>b. frame_pa 671 OR 3 = frame_pa 671 OR b \<and> unat b < 4096 \<and> present b"
    by (intro exI [of _ 3]) (simp add: present_def)
  moreover have "PA2VA (frame_pa 612) + 4 * word_of_nat x < PA2VA (frame_pa 644)" if "x < 32768" for x
    using that by (simp add: word_less_nat_alt unat_word_ariths unat_of_nat64 PA2VA_def frame_pa_def KERNEL_OFFSET_def)
  ultimately show ?thesis using e(4) unfolding cow_page_def
    by (simp del: walk_frame.simps)
qed

theorem copy_on_write_witness:
  "\<exists>t h. page_fault_handler 0 0x612345 7 0x400000 cow_example = Inr (Returns t) \<and>
     private_copy cow_example t 671 674 0x612345 675 h"
proof -
  have o: "675 = ent_frame (frame_pa 675 OR 517)" by (simp add: ent_frame_def frame_pa_def)
  have ref: "page_ref cow_example = (\<lambda>x. if x \<le> 675 then 1 else 0)(675 := 2)"
    using tables_example_chain(1) by (simp add: cow_example_def table_chain_def)
  then have "676 \<in> free_frames cow_example" by (simp add: free_frames_def pool_def)
  then have f: "free_frames cow_example \<noteq> {}" by blast
  show ?thesis
    using copy_on_write [OF cow_example_page o f, where ecode = 7 and sp = 0 and eip = "0x400000"] ref
    by (auto simp: bit_simps)
qed

end
