(* ===== verification/UserLib.thy ===== *)
theory UserLib
  imports Console
begin

text \<open>
  The part of the user library the shell and the programs under bin/ stand on: output
  (libc/printf.c), numbers (libc/math.c), the working directory (libc/path.c), directories
  (libc/dir.c), the host name (libc/gethostname.c), \<open>get_sig\<close> (libc/signal.c) and the wrappers of the
  system calls (libc/file.c, libc/fork.c, libc/exit.c). The string routines are those of the theory
  CString: src/libc/string.c has the same code as the kernel's.

  The two things below this code are arguments of the definitions, collected in the record
  \<open>environment\<close>. One is the kernel behind the \<open>syscall\<close> instruction (include/syscall.h, inline
  assembly): each system call is a function on the kernel's state \<open>'k\<close>, the ones that fill a buffer
  return its new contents. The other is the memory \<open>malloc\<close> hands out: \<open>en_malloc k n\<close> is the result of
  call number \<open>k\<close>, made with size \<open>n\<close>, either NULL or the bytes the new block happens to hold (the
  allocator itself is the subject of the theories Malloc to HeapRuns). A block that has been given to
  \<open>free\<close> is not used again by any of these functions, so \<open>free\<close> leaves no trace in the model.
\<close>

section \<open>The process and what is below it\<close>

record 'k user =
  allocs :: nat   \<comment> \<open>calls of \<open>malloc\<close> so far\<close>
  ukern :: 'k

text \<open>How a user program stops other than by returning: \<open>exit\<close>, \<open>execve\<close>, or undefined behaviour.\<close>

datatype 'k stop =
    Fault fault
  | Exited int "'k user"
  | Replaced "'k user"

record 'k environment =
  en_malloc :: "nat \<Rightarrow> nat \<Rightarrow> string option"
  en_write :: "int \<Rightarrow> string \<Rightarrow> 'k \<Rightarrow> int \<times> 'k"
  en_open :: "string option \<Rightarrow> int \<Rightarrow> 'k \<Rightarrow> int \<times> 'k"
  en_read :: "int \<Rightarrow> string \<Rightarrow> nat \<Rightarrow> 'k \<Rightarrow> int \<times> string \<times> 'k"
  en_close :: "int \<Rightarrow> 'k \<Rightarrow> int \<times> 'k"
  en_getcwd :: "string option \<Rightarrow> nat \<Rightarrow> 'k \<Rightarrow> int \<times> string option \<times> 'k"
  en_chdir :: "string option \<Rightarrow> 'k \<Rightarrow> int \<times> 'k"
  en_getdents :: "int \<Rightarrow> string \<Rightarrow> nat \<Rightarrow> 'k \<Rightarrow> int \<times> string \<times> 'k"
  en_fork :: "'k \<Rightarrow> int \<times> 'k"
  en_execve :: "string option \<Rightarrow> string option list \<Rightarrow> string option list \<Rightarrow> 'k \<Rightarrow> int option \<times> 'k"
  en_waitpid :: "int \<Rightarrow> 'k \<Rightarrow> int \<times> 'k"
  en_kill :: "int \<Rightarrow> int \<Rightarrow> 'k \<Rightarrow> int \<times> 'k"

type_synonym ('k, 'a) run = "'k stop + 'a \<times> 'k user"

definition lft :: "fault + 'a \<Rightarrow> 'k stop + 'a" where
  "lft r = (case r of Inl e \<Rightarrow> Inl (Fault e) | Inr x \<Rightarrow> Inr x)"

lemma lft_simps [simp, result_simps]: "lft (Inr x) = Inr x" "lft (Inl e) = Inl (Fault e)"
  by (simp_all add: lft_def)

lemma lft_eq_Inr [result_simps]: "lft r = Inr x \<longleftrightarrow> r = Inr x"
  by (cases r) auto

text \<open>\<open>malloc\<close> of a character buffer.\<close>

definition new_buffer :: "'k environment \<Rightarrow> nat \<Rightarrow> 'k user \<Rightarrow> string option \<times> 'k user" where
  "new_buffer E n u = (en_malloc E (allocs u) n, u\<lparr>allocs := Suc (allocs u)\<rparr>)"

section \<open>Pointers into buffers\<close>

text \<open>
  \<open>p[i]\<close>, \<open>p[i] = c\<close>, and the string routines applied to \<open>p + i\<close>: through NULL they fault, unless the
  routine looks at its other argument first and finds that NULL.
\<close>

definition lit :: "string \<Rightarrow> string option" where
  "lit s = Some (s @ [NUL])"

definition p_read :: "string option \<Rightarrow> nat \<Rightarrow> fault + char" where
  "p_read p i = (case p of None \<Rightarrow> Inl Null_Deref | Some b \<Rightarrow> c_read b i)"

definition p_write :: "string option \<Rightarrow> nat \<Rightarrow> char \<Rightarrow> fault + string option" where
  "p_write p i c = (case p of None \<Rightarrow> Inl Null_Deref | Some b \<Rightarrow> rbind (c_write b i c) (\<lambda>b. Inr (Some b)))"

definition p_from :: "string option \<Rightarrow> nat \<Rightarrow> fault + string option" where
  "p_from p i = (case p of None \<Rightarrow> Inl Null_Deref | Some b \<Rightarrow> if i \<le> length b then Inr (Some (drop i b)) else Inl Out_Of_Bounds)"

definition strncpy_at :: "string option \<Rightarrow> nat \<Rightarrow> string option \<Rightarrow> nat \<Rightarrow> fault + string option" where
  "strncpy_at d k s n =
     (if s = None \<or> d = None \<and> k = 0 then Inr d
      else rbind (p_from d k) (\<lambda>p.
        rbind (strncpy p s n) (\<lambda>r. Inr (map_option (\<lambda>t. take k (the d) @ t) r))))"

text \<open>\<open>strlen\<close> and the sizes computed from it are unsigned 64-bit numbers.\<close>

definition size_t :: "int \<Rightarrow> nat" where
  "size_t n = nat (n mod 18446744073709551616)"

section \<open>System calls\<close>

definition write_fd :: "'k environment \<Rightarrow> int \<Rightarrow> string \<Rightarrow> nat \<Rightarrow> 'k user \<Rightarrow> int \<times> 'k user" where
  "write_fd E fd buf n u = (let (r, k) = en_write E fd (take n buf) (ukern u) in (r, u\<lparr>ukern := k\<rparr>))"

definition open_file :: "'k environment \<Rightarrow> string option \<Rightarrow> int \<Rightarrow> 'k user \<Rightarrow> int \<times> 'k user" where
  "open_file E path flags u = (let (fd, k) = en_open E path flags (ukern u) in (fd, u\<lparr>ukern := k\<rparr>))"

definition read :: "'k environment \<Rightarrow> int \<Rightarrow> string \<Rightarrow> nat \<Rightarrow> 'k user \<Rightarrow> int \<times> string \<times> 'k user" where
  "read E fd buf n u = (let (r, b, k) = en_read E fd buf n (ukern u) in (r, b, u\<lparr>ukern := k\<rparr>))"

definition close :: "'k environment \<Rightarrow> int \<Rightarrow> 'k user \<Rightarrow> int \<times> 'k user" where
  "close E fd u = (let (r, k) = en_close E fd (ukern u) in (r, u\<lparr>ukern := k\<rparr>))"

definition chdir :: "'k environment \<Rightarrow> string option \<Rightarrow> 'k user \<Rightarrow> int \<times> 'k user" where
  "chdir E path u = (let (r, k) = en_chdir E path (ukern u) in (r, u\<lparr>ukern := k\<rparr>))"

definition getdents :: "'k environment \<Rightarrow> int \<Rightarrow> string \<Rightarrow> nat \<Rightarrow> 'k user \<Rightarrow> int \<times> string \<times> 'k user" where
  "getdents E fd buf n u = (let (r, b, k) = en_getdents E fd buf n (ukern u) in (r, b, u\<lparr>ukern := k\<rparr>))"

definition fork :: "'k environment \<Rightarrow> 'k user \<Rightarrow> int \<times> 'k user" where
  "fork E u = (let (pid, k) = en_fork E (ukern u) in (pid, u\<lparr>ukern := k\<rparr>))"

definition waitpid :: "'k environment \<Rightarrow> int \<Rightarrow> 'k user \<Rightarrow> int \<times> 'k user" where
  "waitpid E pid u = (let (r, k) = en_waitpid E pid (ukern u) in (r, u\<lparr>ukern := k\<rparr>))"

definition kill :: "'k environment \<Rightarrow> int \<Rightarrow> int \<Rightarrow> 'k user \<Rightarrow> int \<times> 'k user" where
  "kill E pid sig u = (let (r, k) = en_kill E pid sig (ukern u) in (r, u\<lparr>ukern := k\<rparr>))"

text \<open>\<open>execve\<close> returns only when it fails.\<close>

definition execve :: "'k environment \<Rightarrow> string option \<Rightarrow> string option list \<Rightarrow> string option list \<Rightarrow> 'k user \<Rightarrow> ('k, int) run" where
  "execve E path argv envp u = (let (r, k) = en_execve E path argv envp (ukern u) in
     case r of None \<Rightarrow> Inl (Replaced (u\<lparr>ukern := k\<rparr>)) | Some e \<Rightarrow> Inr (e, u\<lparr>ukern := k\<rparr>))"

text \<open>\<open>getcwd\<close> returns its result and the new contents of the buffer it was given.\<close>

definition getcwd :: "'k environment \<Rightarrow> string option \<Rightarrow> nat \<Rightarrow> 'k user \<Rightarrow> string option \<times> string option \<times> 'k user" where
  "getcwd E buf n u =
     (let (path, u) = (if buf = None then new_buffer E 256 u else (buf, u));
          (ret, path, k) = en_getcwd E path n (ukern u)
      in (if ret \<ge> 0 then path else None, if buf = None then None else path, u\<lparr>ukern := k\<rparr>))"

definition gethostname :: "string option \<Rightarrow> nat \<Rightarrow> fault + int \<times> string option" where
  "gethostname buf n = rbind (strncpy_at buf 0 (lit ''sbhost'') n) (\<lambda>b. Inr (0, b))"

section \<open>Output\<close>

text \<open>
  The format interpreter differs from the kernel's: there is no \<open>%x\<close>, \<open>%p\<close> and \<open>%lu\<close>, and an unknown
  \<open>%l\<close> directive loses its percent sign. The conversions of numbers are the same code as the kernel's
  (theory Console). The buffer of \<open>printf\<close> has 4097 bytes, filled with zeros.
\<close>

fun vsprintf :: "string \<Rightarrow> va_arg list \<Rightarrow> fault + string" where
  "vsprintf [] ap = Inr []"
| "vsprintf (c # fmt) ap =
     (if c \<noteq> CHR ''%'' then rbind (vsprintf fmt ap) (\<lambda>r. Inr (c # r))
      else case fmt of
        [] \<Rightarrow> Inr []
      | d # fmt1 \<Rightarrow>
        if d = CHR ''c'' then
          rbind (va_int ap) (\<lambda>(n, ap1).
          rbind (vsprintf fmt1 ap1) (\<lambda>r. Inr (char_of (uint n) # r)))
        else if d = CHR ''s'' then
          rbind (va_str ap) (\<lambda>(s, ap1).
          rbind (str_arg s) (\<lambda>t.
          rbind (vsprintf fmt1 ap1) (\<lambda>r. Inr (t @ r))))
        else if d = CHR ''d'' then
          rbind (va_int ap) (\<lambda>(n, ap1).
          rbind (vsprintf fmt1 ap1) (\<lambda>r. Inr (int_to_string n @ r)))
        else if d = CHR ''l'' then
          (case fmt1 of
             [] \<Rightarrow> Inl Out_Of_Bounds
           | e # fmt2 \<Rightarrow>
             if e = CHR ''x'' then
               rbind (va_long ap) (\<lambda>(n, ap1).
               rbind (vsprintf fmt2 ap1) (\<lambda>r. Inr (longlong_to_hexstring n @ r)))
             else rbind (vsprintf fmt2 ap) (\<lambda>r. Inr (CHR ''l'' # e # r)))
        else rbind (vsprintf fmt1 ap) (\<lambda>r. Inr (CHR ''%'' # d # r)))"

abbreviation (input) UMAX_BUF_SIZE :: nat where "UMAX_BUF_SIZE \<equiv> 4097"

definition print_chars :: "'k environment \<Rightarrow> string \<Rightarrow> 'k user \<Rightarrow> 'k user" where
  "print_chars E t u = fold (\<lambda>c u. snd (write_fd E 1 [c] 1 u)) t u"

definition printf :: "'k environment \<Rightarrow> string \<Rightarrow> va_arg list \<Rightarrow> 'k user \<Rightarrow> ('k, int) run" where
  "printf E fmt ap u =
     rbind (lft (vsprintf fmt ap)) (\<lambda>str.
       if length str < UMAX_BUF_SIZE then Inr (int (length (cstr str)), print_chars E (cstr str) u)
       else Inl (Fault Out_Of_Bounds))"

text \<open>A call of \<open>printf\<close> whose result is not used, and the macro \<open>assert\<close> of include/sbush.h.\<close>

definition say :: "'k environment \<Rightarrow> string \<Rightarrow> va_arg list \<Rightarrow> 'k user \<Rightarrow> 'k stop + 'k user" where
  "say E fmt ap u = rbind (printf E fmt ap u) (\<lambda>(_, u). Inr u)"

abbreviation (input) newline :: string where "newline \<equiv> [CHR 0x0A]"

definition assert :: "'k environment \<Rightarrow> string \<Rightarrow> u32 \<Rightarrow> bool \<Rightarrow> 'k user \<Rightarrow> 'k stop + 'k user" where
  "assert E func line cond u =
     (if cond then Inr u
      else rbind (say E (''assert fail in %s, at line %d'' @ newline) [VStr (lit func), VInt line] u) (\<lambda>u. Inl (Exited 1 u)))"

section \<open>Numbers\<close>

definition power :: "u32 \<Rightarrow> nat \<Rightarrow> u32" where
  "power radix n = fold (\<lambda>i sum. sum * radix) [0..<n] 1"

definition atoi :: "'k environment \<Rightarrow> string option \<Rightarrow> 'k user \<Rightarrow> ('k, u32) run" where
  "atoi E str u =
     rbind (lft (strlen str)) (\<lambda>len.
     rfold (\<lambda>i (sum, u).
       rbind (lft (p_read str i)) (\<lambda>c.
       let d = schar c - 48; sum = sum + power 10 (len - i - 1) * of_int d in
       rbind (assert E ''atoi'' 22 (0 \<le> d \<and> d \<le> 9) u) (\<lambda>u. Inr (sum, u)))) [0..<len] (0, u))"

definition get_sig :: "'k environment \<Rightarrow> string option \<Rightarrow> 'k user \<Rightarrow> ('k, u32) run" where
  "get_sig E str u =
     rbind (lft (p_read str 0)) (\<lambda>c.
     if c = CHR ''-'' then rbind (lft (p_from str 1)) (\<lambda>p. atoi E p u)
     else rbind (say E (''ERROR: wrong format of signal number parameter!'' @ newline @ '' Please user kill -9 pid'' @ newline) [] u)
       (\<lambda>u. Inl (Exited 1 u)))"

section \<open>Directories\<close>

record DIR =
  dd_fd :: int
  dd_loc :: int
  dd_seek :: int
  dd_buf :: string
  dd_len :: int
  dd_size :: int

text \<open>A directory stream; \<open>dd_size\<close> is set before it is read.\<close>

definition opendir :: "'k environment \<Rightarrow> string option \<Rightarrow> 'k user \<Rightarrow> DIR option \<times> 'k user" where
  "opendir E name u =
     (let (fd, u) = open_file E name 0 u in
      if fd = -1 then (None, u)
      else let (dirp, u) = new_buffer E 32 u in
      if dirp = None then (None, snd (close E fd u))
      else let (buf, u) = new_buffer E 512 u in
      case buf of
        None \<Rightarrow> (None, snd (close E fd u))
      | Some b \<Rightarrow> (Some \<lparr>dd_fd = fd, dd_loc = 0, dd_seek = 0, dd_buf = b, dd_len = 512, dd_size = 0\<rparr>, u))"

text \<open>Little-endian numbers in the buffer: \<open>d_ino\<close> at offset 0, \<open>d_reclen\<close> at 16, \<open>d_name\<close> at 18.\<close>

definition bytes_at :: "string \<Rightarrow> nat \<Rightarrow> nat \<Rightarrow> fault + int" where
  "bytes_at b i n = (if i + n \<le> length b then Inr (horner_sum of_char 256 (take n (drop i b))) else Inl Out_Of_Bounds)"

abbreviation (input) READDIR_FUEL :: nat where "READDIR_FUEL \<equiv> 1048576"

text \<open>The result is the entry's name, as a pointer into the buffer.\<close>

fun readdir_n :: "nat \<Rightarrow> 'k environment \<Rightarrow> DIR \<Rightarrow> 'k user \<Rightarrow> ('k, string option \<times> DIR) run" where
  "readdir_n 0 E d u = Inl (Fault Diverge)"
| "readdir_n (Suc k) E d u =
     (let (d, u) = (if dd_loc d = 0
        then let (r, b, u) = getdents E (dd_fd d) (dd_buf d) (nat (dd_len d)) u in (d\<lparr>dd_size := r, dd_buf := b\<rparr>, u)
        else (d, u)) in
      if dd_loc d = 0 \<and> dd_size d \<le> 0 then Inr ((None, d), u)
      else if dd_loc d \<ge> dd_size d then readdir_n k E (d\<lparr>dd_loc := 0\<rparr>) u
      else rbind (lft (bytes_at (dd_buf d) (nat (dd_loc d) + 16) 2)) (\<lambda>reclen.
        if reclen \<le> 0 \<or> reclen > dd_len d + 1 - dd_loc d then Inr ((None, d), u)
        else rbind (lft (bytes_at (dd_buf d) (nat (dd_loc d)) 8)) (\<lambda>ino.
          let e = d\<lparr>dd_loc := dd_loc d + reclen\<rparr> in
          if ino = 0 then readdir_n k E e u
          else rbind (lft (p_from (Some (dd_buf d)) (nat (dd_loc d) + 18))) (\<lambda>name. Inr ((name, e), u)))))"

definition readdir :: "'k environment \<Rightarrow> DIR \<Rightarrow> 'k user \<Rightarrow> ('k, string option \<times> DIR) run" where
  "readdir E d u = readdir_n READDIR_FUEL E d u"

definition closedir :: "'k environment \<Rightarrow> DIR \<Rightarrow> 'k user \<Rightarrow> int \<times> 'k user" where
  "closedir E d u = close E (dd_fd d) u"

section \<open>Memory and messages\<close>

text \<open>\<open>malloc\<close> does not fail: every block has the size that was asked for.\<close>

definition roomy :: "'k environment \<Rightarrow> bool" where
  "roomy E \<longleftrightarrow> (\<forall>k n. \<exists>b. en_malloc E k n = Some b \<and> length b = n)"

lemma roomyE:
  assumes "roomy E"
  obtains b where "new_buffer E n u = (Some b, u\<lparr>allocs := Suc (allocs u)\<rparr>)" "length b = n"
  using assms unfolding roomy_def new_buffer_def by (metis surj_pair)

lemma vsprintf_plain: "CHR ''%'' \<notin> set s \<Longrightarrow> vsprintf s ap = Inr s"
  by (induction s) auto

lemma say_plain:
  "CHR ''%'' \<notin> set s \<Longrightarrow> NUL \<notin> set s \<Longrightarrow> length s < 4097 \<Longrightarrow> say E s [] u = Inr (print_chars E s u)"
proof -
  have "NUL \<notin> set s \<Longrightarrow> cstr s = s" by (induction s) auto
  then show "CHR ''%'' \<notin> set s \<Longrightarrow> NUL \<notin> set s \<Longrightarrow> length s < 4097 \<Longrightarrow> say E s [] u = Inr (print_chars E s u)"
    by (simp add: say_def printf_def vsprintf_plain)
qed

lemma print_chars_allocs [simp]: "allocs (print_chars E s u) = allocs u"
proof -
  have "allocs (fold (\<lambda>c u. snd (write_fd E 1 [c] 1 u)) s u) = allocs u" for u
    by (induction s arbitrary: u) (simp_all add: write_fd_def Let_def split: prod.splits)
  then show ?thesis by (simp add: print_chars_def)
qed

text \<open>An environment in which every block holds zeros and every system call returns 0.\<close>

definition quiet_env :: "unit environment" where
  "quiet_env = \<lparr>en_malloc = \<lambda>k n. Some (replicate n NUL), en_write = \<lambda>fd s k. (0, k), en_open = \<lambda>p f k. (0, k),
     en_read = \<lambda>fd b n k. (0, b, k), en_close = \<lambda>fd k. (0, k), en_getcwd = \<lambda>b n k. (0, b, k), en_chdir = \<lambda>p k. (0, k),
     en_getdents = \<lambda>fd b n k. (0, b, k), en_fork = \<lambda>k. (1, k), en_execve = \<lambda>p a e k. (Some (- 1), k),
     en_waitpid = \<lambda>p k. (0, k), en_kill = \<lambda>p s k. (0, k)\<rparr>"

lemma quiet_env_roomy: "roomy quiet_env"
  by (simp add: roomy_def quiet_env_def)

end
