(* ===== verification/ShellLib.thy ===== *)
theory ShellLib
  imports UserLib
begin

text \<open>
  The shell's library (libc/shlib.c): variables, the search path and the prompt, splitting a command
  line into words, finding programs, reading lines, and file names.

  An array of strings is a \<open>ptrs\<close>: NULL or the list of its pointers. The strings of an array and the
  buffers the functions return are only read afterwards, so they are modelled by their contents. The
  lengths and indices of the source are \<open>int\<close>; where one can be negative its use as an index goes
  through \<open>size_t\<close>, which makes it too large for any buffer.
\<close>

section \<open>Constants and arrays\<close>

abbreviation (input) MAX_CMD_SIZE :: nat where "MAX_CMD_SIZE \<equiv> 256"
abbreviation (input) MAX_ARG_NUM :: nat where "MAX_ARG_NUM \<equiv> 8"
abbreviation (input) MAX_SH_VAR_NUM :: nat where "MAX_SH_VAR_NUM \<equiv> 8"
abbreviation (input) MAX_ENV_VAR_NUM :: nat where "MAX_ENV_VAR_NUM \<equiv> 256"
abbreviation (input) MAX_VAR_SIZE :: nat where "MAX_VAR_SIZE \<equiv> 2048"
abbreviation (input) MAX_BUFFER_SIZE :: nat where "MAX_BUFFER_SIZE \<equiv> 2048"
abbreviation (input) MAX_SCRIPT_SIZE :: nat where "MAX_SCRIPT_SIZE \<equiv> 4096"

type_synonym ptrs = "string option list option"

definition ptr_at :: "ptrs \<Rightarrow> nat \<Rightarrow> fault + string option" where
  "ptr_at l i = (case l of None \<Rightarrow> Inl Null_Deref | Some xs \<Rightarrow> if i < length xs then Inr (xs ! i) else Inl Out_Of_Bounds)"

definition ptr_set :: "ptrs \<Rightarrow> nat \<Rightarrow> string option \<Rightarrow> fault + ptrs" where
  "ptr_set l i p = (case l of None \<Rightarrow> Inl Null_Deref | Some xs \<Rightarrow> if i < length xs then Inr (Some (xs[i := p])) else Inl Out_Of_Bounds)"

definition c_min :: "int \<Rightarrow> int \<Rightarrow> int" where
  "c_min a b = (if a > b then b else a)"

definition c_max :: "int \<Rightarrow> int \<Rightarrow> int" where
  "c_max a b = (if a < b then b else a)"

section \<open>Variables\<close>

text \<open>The search loop of \<open>get_var\<close> and \<open>set_var\<close>, over the first \<open>m\<close> entries.\<close>

function find_var :: "nat \<Rightarrow> ptrs \<Rightarrow> string option \<Rightarrow> nat \<Rightarrow> nat \<Rightarrow> fault + nat" where
  "find_var m l name n i =
     (if \<not> i < m then Inr i
      else rbind (ptr_at l i) (\<lambda>v.
        if v = None then Inr i
        else rbind (strncmp name v n) (\<lambda>r. if r \<noteq> 0 then find_var m l name n (Suc i) else Inr i)))"
  by pat_completeness auto
termination
  by (relation "measure (\<lambda>(m, l, name, n, i). m - i)") auto

declare find_var.simps [simp del]

definition get_var :: "'k environment \<Rightarrow> ptrs \<Rightarrow> string option \<Rightarrow> 'k user \<Rightarrow> ('k, string option) run" where
  "get_var E var_list var_name u =
     (let (var_value, u) = new_buffer E MAX_VAR_SIZE u in
      if var_list = None then Inr (None, u)
      else rbind (lft (strlen var_name)) (\<lambda>ln.
        let nlen = nat (c_min (int ln) (int MAX_VAR_SIZE)) in
        rbind (lft (find_var MAX_ENV_VAR_NUM var_list var_name nlen 0)) (\<lambda>i.
        rbind (lft (ptr_at var_list i)) (\<lambda>v.
        if v = None then Inr (None, u)
        else rbind (lft (strncmp var_name v nlen)) (\<lambda>r.
          if r \<noteq> 0 then Inr (None, u)
          else rbind (lft (strlen v)) (\<lambda>lv.
            let vlen = c_min (int lv - int nlen) (int MAX_VAR_SIZE - 1) in
            rbind (lft (rfold (\<lambda>j b. rbind (p_read v (nlen + j)) (\<lambda>c. p_write b j c)) [0..<nat vlen] var_value)) (\<lambda>b.
            rbind (lft (p_write b (size_t vlen) NUL)) (\<lambda>b. Inr (b, u)))))))))"

definition set_var :: "'k environment \<Rightarrow> ptrs \<Rightarrow> string option \<Rightarrow> string option \<Rightarrow> 'k user \<Rightarrow> ('k, ptrs) run" where
  "set_var E var_list var_name var_value u =
     (let (e, u) = new_buffer E MAX_VAR_SIZE u in
      rbind (lft (strlen var_name)) (\<lambda>ln.
      let len = nat (c_min (int ln) (int MAX_VAR_SIZE - 1)) in
      rbind (lft (strncpy_at e 0 var_name len)) (\<lambda>e.
      rbind (lft (strlen var_value)) (\<lambda>lv.
      let vlen = nat (c_min (int lv) (int MAX_VAR_SIZE - int len - 1)) in
      rbind (lft (strncpy_at e len var_value vlen)) (\<lambda>e.
      rbind (lft (p_write e (len + vlen) NUL)) (\<lambda>e.
      rbind (lft (find_var MAX_SH_VAR_NUM var_list var_name len 0)) (\<lambda>i.
      if i = MAX_SH_VAR_NUM then
        rbind (say E ''error in set_var: no more room for new shell variables!'' [] u) (\<lambda>u. Inr (var_list, u))
      else rbind (lft (ptr_set var_list i e)) (\<lambda>l. Inr (l, u)))))))))"

section \<open>The search path\<close>

fun matches_at :: "string option \<Rightarrow> nat \<Rightarrow> string \<Rightarrow> fault + bool" where
  "matches_at p i [] = Inr True"
| "matches_at p i (c # cs) = rbind (p_read p i) (\<lambda>d. if d = c then matches_at p (Suc i) cs else Inr False)"

text \<open>The loop of \<open>set_path\<close>; \<open>None\<close> is the return with an error message.\<close>

function set_path_loop :: "string option \<Rightarrow> string option \<Rightarrow> nat \<Rightarrow> nat \<Rightarrow> string option \<Rightarrow> fault + (nat \<times> nat \<times> string option) option" where
  "set_path_loop new_path old_path i j e =
     rbind (p_read new_path i) (\<lambda>c.
     if c = NUL \<or> \<not> i < MAX_VAR_SIZE \<or> \<not> j < MAX_VAR_SIZE then Inr (Some (i, j, e))
     else if c \<noteq> CHR ''$'' then
       rbind (p_write e j c) (\<lambda>e. set_path_loop new_path old_path (i + 1) (j + 1) e)
     else rbind (matches_at new_path (i + 1) ''PATH'') (\<lambda>b.
       if b then
         (if old_path \<noteq> None then
            rbind (strlen old_path) (\<lambda>len.
            rbind (strncpy_at e j old_path len) (\<lambda>e. set_path_loop new_path old_path (i + 5) (j + len) e))
          else set_path_loop new_path old_path (i + 5) j e)
       else Inr None))"
  by pat_completeness auto
termination
  by (relation "measure (\<lambda>(np, op, i, j, e). MAX_VAR_SIZE - i)") auto

declare set_path_loop.simps [simp del]

definition set_path :: "'k environment \<Rightarrow> ptrs \<Rightarrow> string option \<Rightarrow> 'k user \<Rightarrow> ('k, ptrs) run" where
  "set_path E var_list new_path u =
     (let (e, u) = new_buffer E MAX_VAR_SIZE u in
      rbind (get_var E var_list (lit ''PATH='') u) (\<lambda>(old_path, u).
      rbind (lft (set_path_loop new_path old_path 0 0 e)) (\<lambda>r.
      case r of
        None \<Rightarrow> rbind (say E (''error in set_path: unaccepted PATH format!'' @ newline) [] u) (\<lambda>u. Inr (var_list, u))
      | Some (i, j, e) \<Rightarrow>
          if j < MAX_VAR_SIZE \<and> i < MAX_VAR_SIZE then
            rbind (lft (p_write e j NUL)) (\<lambda>e. set_var E var_list (lit ''PATH='') e u)
          else rbind (say E (''error in set_path: PATH value too long!'' @ newline) [] u) (\<lambda>u. Inr (var_list, u)))))"

section \<open>The prompt\<close>

text \<open>\<open>strncpy\<close> with source and destination in the same buffer: \<open>strncpy(b + d, b + s, n)\<close>.\<close>

function strncpy_within_loop :: "string \<Rightarrow> nat \<Rightarrow> nat \<Rightarrow> nat \<Rightarrow> nat \<Rightarrow> fault + nat \<times> string" where
  "strncpy_within_loop b d s n i =
     (if \<not> i < n then Inr (i, b)
      else rbind (p_from (Some b) s) (\<lambda>src.
        rbind (strlen src) (\<lambda>ls.
        if \<not> i < ls then Inr (i, b)
        else rbind (c_read b (s + i)) (\<lambda>c.
          rbind (c_write b (d + i) c) (\<lambda>b.
          if c \<noteq> NUL then strncpy_within_loop b d s n (Suc i) else Inr (i, b))))))"
  by pat_completeness auto
termination
  by (relation "measure (\<lambda>(b, d, s, n, i). n - i)") auto

declare strncpy_within_loop.simps [simp del]

definition strncpy_within :: "string option \<Rightarrow> nat \<Rightarrow> nat \<Rightarrow> nat \<Rightarrow> fault + string option" where
  "strncpy_within p d s n = (case p of None \<Rightarrow> Inl Null_Deref
     | Some b \<Rightarrow> rbind (strncpy_within_loop b d s n 0) (\<lambda>(i, b). rbind (c_write b (d + i) NUL) (\<lambda>b. Inr (Some b))))"

text \<open>\<open>strncmp(p + k, s, n)\<close> with \<open>k > 0\<close>: \<open>p + k\<close> is not NULL, even if \<open>p\<close> is.\<close>

definition strncmp_from :: "string option \<Rightarrow> nat \<Rightarrow> string option \<Rightarrow> nat \<Rightarrow> fault + int" where
  "strncmp_from p k s n = (if s = None then Inr (-1) else rbind (p_from p k) (\<lambda>p. strncmp p s n))"

text \<open>
  The \<open>switch\<close> of \<open>parse_PS1\<close>: the new contents of \<open>tmp\<close>, or \<open>None\<close> for an unsupported letter.
\<close>

definition ps1_field :: "'k environment \<Rightarrow> ptrs \<Rightarrow> char \<Rightarrow> string option \<Rightarrow> 'k user \<Rightarrow> ('k, string option option) run" where
  "ps1_field E envp c tmp u =
     (if c = CHR ''h'' then
        rbind (lft (gethostname tmp (MAX_BUFFER_SIZE - 1))) (\<lambda>(_, tmp). Inr (Some tmp, u))
      else if c = CHR ''u'' then
        rbind (get_var E envp (lit ''USER='') u) (\<lambda>(username, u).
        if username \<noteq> None then
          rbind (lft (strlen username)) (\<lambda>n.
          rbind (lft (strncpy_at tmp 0 username n)) (\<lambda>tmp. Inr (Some tmp, u)))
        else Inr (Some None, u))
      else if c = CHR ''w'' then
        (let (_, tmp, u) = getcwd E tmp (MAX_BUFFER_SIZE - 1) u in
         rbind (get_var E envp (lit ''USER='') u) (\<lambda>(username, u).
         rbind (lft (strlen username)) (\<lambda>n.
         rbind (lft (strncmp_from tmp 6 username n)) (\<lambda>r.
         if r = 0 then
           rbind (lft (p_write tmp 0 CHR ''~'')) (\<lambda>tmp.
           rbind (lft (strlen tmp)) (\<lambda>lt.
           rbind (lft (strncpy_within tmp 1 (n + 6) (size_t (int lt - int n - 6)))) (\<lambda>tmp.
           rbind (lft (strlen tmp)) (\<lambda>lt.
           rbind (lft (p_write tmp (size_t (int lt - int n - 6 + 1)) NUL)) (\<lambda>tmp. Inr (Some tmp, u))))))
         else Inr (Some tmp, u)))))
      else if c = CHR ''$'' then
        rbind (lft (p_write tmp 0 CHR ''$'')) (\<lambda>tmp.
        rbind (lft (p_write tmp 1 NUL)) (\<lambda>tmp. Inr (Some tmp, u)))
      else Inr (None, u))"

function ps1_loop :: "'k environment \<Rightarrow> string option \<Rightarrow> ptrs \<Rightarrow> nat \<Rightarrow> nat \<Rightarrow> string option \<Rightarrow> string option \<Rightarrow> 'k user
    \<Rightarrow> ('k, (nat \<times> string option) option) run" where
  "ps1_loop E ps1 envp i j tmp v u =
     rbind (lft (p_read ps1 i)) (\<lambda>c.
     if c = NUL \<or> \<not> i < MAX_VAR_SIZE \<or> \<not> j < MAX_VAR_SIZE then Inr (Some (j, v), u)
     else if c \<noteq> CHR 0x5C then
       rbind (lft (p_write v j c)) (\<lambda>v. ps1_loop E ps1 envp (i + 1) (j + 1) tmp v u)
     else rbind (lft (p_read ps1 (i + 1))) (\<lambda>d.
       rbind (ps1_field E envp d tmp u) (\<lambda>(t, u).
       case t of
         None \<Rightarrow> rbind (say E (''error in parse_PS1: not supported PS1 format!'' @ newline) [] u) (\<lambda>u. Inr (None, u))
       | Some tmp \<Rightarrow>
           if tmp \<noteq> None then
             rbind (lft (strlen tmp)) (\<lambda>lt.
             let len = nat (c_min (int lt) (int MAX_VAR_SIZE - int j - 1)) in
             rbind (lft (strncpy_at v j tmp len)) (\<lambda>v. ps1_loop E ps1 envp (i + 2) (j + len) tmp v u))
           else ps1_loop E ps1 envp (i + 2) j tmp v u)))"
  by pat_completeness auto
termination
  by (relation "measure (\<lambda>(E, ps1, envp, i, j, tmp, v, u). MAX_VAR_SIZE - i)") auto

declare ps1_loop.simps [simp del]

definition parse_PS1 :: "'k environment \<Rightarrow> string option \<Rightarrow> ptrs \<Rightarrow> 'k user \<Rightarrow> ('k, string option) run" where
  "parse_PS1 E ps1 envp u =
     (if ps1 = None then Inr (None, u)
      else let (v, u) = new_buffer E MAX_VAR_SIZE u; (tmp, u) = new_buffer E MAX_BUFFER_SIZE u in
      rbind (lft (p_write tmp (MAX_BUFFER_SIZE - 1) NUL)) (\<lambda>tmp.
      rbind (ps1_loop E ps1 envp 0 0 tmp v u) (\<lambda>(r, u).
      case r of
        None \<Rightarrow> Inr (None, u)
      | Some (j, v) \<Rightarrow>
          rbind (lft (p_write v (if j < MAX_VAR_SIZE then j else MAX_VAR_SIZE - 1) NUL)) (\<lambda>v. Inr (v, u)))))"

definition set_PS1 :: "'k environment \<Rightarrow> ptrs \<Rightarrow> string option \<Rightarrow> ptrs \<Rightarrow> 'k user \<Rightarrow> ('k, ptrs) run" where
  "set_PS1 E var_list new_PS1 envp u =
     rbind (parse_PS1 E new_PS1 envp u) (\<lambda>(r, u).
     if r = None then
       rbind (say E (''error in set_PS1: unsupported PS1 format!'' @ newline) [] u) (\<lambda>u. Inr (var_list, u))
     else set_var E var_list (lit ''PS1='') new_PS1 u)"

section \<open>Command lines\<close>

function skip_spaces :: "string option \<Rightarrow> nat \<Rightarrow> fault + nat" where
  "skip_spaces cmd p = rbind (p_read cmd p) (\<lambda>c. if c = CHR '' '' then skip_spaces cmd (Suc p) else Inr p)"
  by pat_completeness auto
termination
  by (relation "measure (\<lambda>(cmd, p). length (the cmd) - p)")
     (auto simp: p_read_def c_read_def split: option.splits if_splits)

declare skip_spaces.simps [simp del]

text \<open>
  The inner loop: one word, from position \<open>p\<close> of the command, into \<open>tmp\<close> from index \<open>i\<close>. \<open>None\<close> is the
  return after the message about a quote in the middle of a word.
\<close>

function take_word :: "string option \<Rightarrow> nat \<Rightarrow> nat \<Rightarrow> string option \<Rightarrow> bool \<Rightarrow> fault + (nat \<times> nat \<times> string option) option" where
  "take_word cmd p i tmp quote_flag =
     rbind (p_read cmd p) (\<lambda>c.
     if c = NUL \<or> c = CHR 0x0A \<or> c = CHR ''#'' \<or> \<not> i < MAX_CMD_SIZE - 1 then Inr (Some (p, i, tmp))
     else if c = CHR 0x22 \<and> quote_flag then
       rbind (p_read cmd (p + 1)) (\<lambda>d.
       if d \<noteq> CHR '' '' \<and> d \<noteq> CHR 0x0A \<and> d \<noteq> NUL then Inr None
       else rbind (p_write tmp i c) (\<lambda>tmp. Inr (Some (p + 1, i + 1, tmp))))
     else let quote_flag = (quote_flag \<or> c = CHR 0x22) in
       if c = CHR '' '' \<and> \<not> quote_flag then Inr (Some (p, i, tmp))
       else rbind (p_write tmp i c) (\<lambda>tmp. take_word cmd (p + 1) (i + 1) tmp quote_flag))"
  by pat_completeness auto
termination
  by (relation "measure (\<lambda>(cmd, p, i, tmp, q). MAX_CMD_SIZE - i)") auto

declare take_word.simps [simp del]

text \<open>
  The outer loop. \<open>args\<close> is the part of \<open>arg_list\<close> filled so far. The last case, no word taken and
  the command not at its end, would repeat for ever; \<open>parse_cmds_result\<close> shows that it does not occur.
\<close>

function parse_loop :: "'k environment \<Rightarrow> string option \<Rightarrow> bool \<Rightarrow> nat \<Rightarrow> string option list \<Rightarrow> 'k user \<Rightarrow> ('k, string option list option) run" where
  "parse_loop E cmd arr p args u =
     rbind (lft (p_read cmd p)) (\<lambda>c.
     if c = NUL \<or> c = CHR ''#'' \<or> c = CHR 0x0A \<or> \<not> length args < MAX_ARG_NUM then Inr (Some args, u)
     else rbind (lft (skip_spaces cmd p)) (\<lambda>p.
       let (tmp, u) = new_buffer E MAX_CMD_SIZE u in
       rbind (lft (take_word cmd p 0 tmp False)) (\<lambda>w.
       case w of
         None \<Rightarrow> rbind (say E (''error in parse_cmds: ugly input!'' @ newline) [] u) (\<lambda>u. Inr (None, u))
       | Some (p, i, tmp) \<Rightarrow>
           if i > 0 \<and> i < MAX_CMD_SIZE then
             rbind (lft (p_write tmp i NUL)) (\<lambda>tmp.
             rbind (lft (check arr Null_Deref)) (\<lambda>_. parse_loop E cmd arr p (args @ [tmp]) u))
           else if i \<ge> MAX_CMD_SIZE then
             rbind (say E (''error: argument too long!'' @ newline) [] u) (\<lambda>u. Inr (None, u))
           else rbind (lft (p_read cmd p)) (\<lambda>c.
             if c = CHR 0x0A \<or> c = CHR ''#'' \<or> c = NUL then Inr (Some args, u)
             else Inl (Fault Diverge)))))"
  by pat_completeness auto
termination
  by (relation "measure (\<lambda>(E, cmd, arr, p, args, u). MAX_ARG_NUM - length args)") auto

declare parse_loop.simps [simp del]

text \<open>
  The result: NULL after an error message, or the array, whose last pointer is NULL, and the number of
  words, which \<open>parse_cmds\<close> stores through \<open>arg_size\<close>.
\<close>

definition parse_cmds :: "'k environment \<Rightarrow> string option \<Rightarrow> 'k user \<Rightarrow> ('k, (string option list \<times> nat) option) run" where
  "parse_cmds E cmd u =
     (let (arr, u) = new_buffer E (MAX_ARG_NUM * 8) u in
      rbind (parse_loop E cmd (arr \<noteq> None) 0 [] u) (\<lambda>(r, u).
      case r of
        None \<Rightarrow> Inr (None, u)
      | Some args \<Rightarrow>
          if length args \<ge> MAX_ARG_NUM then
            rbind (say E (''error: too many arguments!'' @ newline) [] u) (\<lambda>u. Inr (None, u))
          else rbind (lft (check (arr \<noteq> None) Null_Deref)) (\<lambda>_. Inr (Some (args @ [None], length args), u))))"

end
