(* ===== verification/ShellFiles.thy ===== *)
theory ShellFiles
  imports ShellLib
begin

text \<open>
  The second half of libc/shlib.c: finding a program along the search path, reading a line, complete
  file names and directory listings.
\<close>

section \<open>Finding programs\<close>

abbreviation (input) O_RDONLY :: int where "O_RDONLY \<equiv> 0"

definition does_file_exist :: "'k environment \<Rightarrow> string option \<Rightarrow> 'k user \<Rightarrow> bool \<times> 'k user" where
  "does_file_exist E filename u = (let (fd, u) = open_file E filename O_RDONLY u in (\<not> fd < 0, u))"

text \<open>
  How the loop over the path ends: the function returns, or the loop is left with the position of
  \<open>pre\<close> in \<open>path\<close>, \<open>last_len\<close> and the buffer.
\<close>

datatype search = Returns_Path "string option" | Left nat int "string option"

text \<open>
  The loop body up to the length check: the directory \<open>pre\<close>, of \<open>d\<close> characters, a slash unless it ends
  in one, and the file name.
\<close>

definition join_path :: "string option \<Rightarrow> string option \<Rightarrow> int \<Rightarrow> string option \<Rightarrow> nat \<Rightarrow> fault + string option" where
  "join_path buf pre d filename n =
     rbind (strncpy_at buf 0 pre (size_t d)) (\<lambda>buf.
     rbind (p_read buf (size_t (d - 1))) (\<lambda>c.
     if c \<noteq> CHR ''/'' then
       rbind (p_write buf (size_t d) CHR ''/'') (\<lambda>buf.
       rbind (strncpy_at buf (size_t (d + 1)) filename n) (\<lambda>buf.
       p_write buf (size_t (d + 1 + int n)) NUL))
     else
       rbind (strncpy_at buf (size_t d) filename n) (\<lambda>buf.
       p_write buf (size_t (d + int n)) NUL)))"

lemma strchr_from_less: "strchr_from s c i = Inr (Some k) \<Longrightarrow> i \<le> k \<and> k < length s"
proof (induction s c i rule: strchr_from.induct)
  case (1 s c i)
  then show ?case
    by (subst (asm) (2) strchr_from.simps) (auto simp: c_read_def rbind_eq_Inr split: if_splits)
qed

lemma strchr_less: "strchr p c = Inr (Some k) \<Longrightarrow> \<exists>b. p = Some b \<and> k < length b"
  by (auto simp: strchr_def dest: strchr_from_less split: option.splits)

function locate_loop :: "'k environment \<Rightarrow> string option \<Rightarrow> nat \<Rightarrow> int \<Rightarrow> string option \<Rightarrow> string option \<Rightarrow> 'k user \<Rightarrow> ('k, search) run" where
  "locate_loop E path pre last_len buf filename u =
     (if last_len > 0 \<and> path \<noteq> None then
        rbind (lft (p_from path pre)) (\<lambda>s.
        rbind (lft (strchr s CHR '':'')) (\<lambda>r.
        case r of
          None \<Rightarrow> Inr (Left pre last_len buf, u)
        | Some k \<Rightarrow>
            rbind (lft (p_from path (pre + k))) (\<lambda>p.
            rbind (lft (strlen p)) (\<lambda>cur_len.
            rbind (lft (strlen filename)) (\<lambda>n.
            rbind (lft (join_path buf s (last_len - int cur_len) filename n)) (\<lambda>buf.
            if int n + last_len - int cur_len + 1 > int MAX_BUFFER_SIZE - 1 then
              rbind (say E (''error in locate_executable_file: filename too long!'' @ newline) [] u) (\<lambda>u. Inr (Returns_Path None, u))
            else let (found, u) = does_file_exist E buf u in
              if found then Inr (Returns_Path buf, u)
              else locate_loop E path (pre + k + 1) (int cur_len - 1) buf filename u))))))
      else Inr (Left pre last_len buf, u))"
  by pat_completeness auto
termination
  by (relation "measure (\<lambda>(E, path, pre, l, buf, f, u). length (the path) - pre)")
     (auto simp: p_from_def lft_eq_Inr dest!: strchr_less split: option.splits if_splits)

declare locate_loop.simps [simp del]

definition locate_executable_file :: "'k environment \<Rightarrow> ptrs \<Rightarrow> string option \<Rightarrow> 'k user \<Rightarrow> ('k, string option) run" where
  "locate_executable_file E var_list filename u =
     rbind (get_var E var_list (lit ''PATH='') u) (\<lambda>(path, u).
     let (found, u) = does_file_exist E filename u in
     if found then Inr (filename, u)
     else let (buf, u) = new_buffer E MAX_BUFFER_SIZE u in
     rbind (lft (strlen path)) (\<lambda>len.
     rbind (locate_loop E path 0 (int len) buf filename u) (\<lambda>(r, u).
     case r of
       Returns_Path p \<Rightarrow> Inr (p, u)
     | Left pre last_len buf \<Rightarrow>
         rbind (if last_len > 0 \<and> path \<noteq> None then rbind (lft (p_from path pre)) (\<lambda>s. rbind (lft (strchr s CHR '':'')) (\<lambda>r. Inr (r = None)))
                else Inr False) (\<lambda>last.
         rbind (if last then
             rbind (lft (p_from path pre)) (\<lambda>s.
             rbind (lft (strlen s)) (\<lambda>cur_len.
             rbind (lft (strncpy_at buf 0 s cur_len)) (\<lambda>buf.
             rbind (lft (p_write buf cur_len CHR ''/'')) (\<lambda>buf.
             rbind (lft (strlen filename)) (\<lambda>n.
             if n + cur_len + 1 < MAX_BUFFER_SIZE - 1 then
               rbind (lft (strncpy_at buf (cur_len + 1) filename n)) (\<lambda>buf.
               rbind (lft (p_write buf (cur_len + 1 + n) NUL)) (\<lambda>buf.
               let (found, u) = does_file_exist E buf u in
               Inr (if found then Some buf else None, u)))
             else rbind (say E (''error in locate_executable_file: filename too long!'' @ newline) [] u) (\<lambda>u. Inr (Some None, u)))))))
           else Inr (None, u)) (\<lambda>(r, u).
         case r of
           Some p \<Rightarrow> Inr (p, u)
         | None \<Rightarrow> rbind (say E (''error in locate_executable_file: filename does not exist!'' @ newline) [] u) (\<lambda>u. Inr (None, u)))))))"

section \<open>Reading a line\<close>

text \<open>
  \<open>cmd_buf\<close> is a local array; its first byte is looked at only after the kernel has reported that it
  has stored one.
\<close>

function myfgets_loop :: "'k environment \<Rightarrow> nat \<Rightarrow> int \<Rightarrow> nat \<Rightarrow> string \<Rightarrow> string option \<Rightarrow> 'k user \<Rightarrow> ('k, string option) run" where
  "myfgets_loop E sz fd i cmd_buf buf u =
     (let (ret, cmd_buf, u) = read E fd cmd_buf 1 u in
      if \<not> ret > 0 then rbind (lft (p_write buf i NUL)) (\<lambda>buf. Inr (buf, u))
      else rbind (lft (c_read cmd_buf 0)) (\<lambda>c.
        if c \<noteq> CHR 0x0A \<and> c \<noteq> NUL \<and> i < sz then
          rbind (lft (p_write buf i c)) (\<lambda>buf. myfgets_loop E sz fd (Suc i) cmd_buf buf u)
        else rbind (lft (p_write buf i NUL)) (\<lambda>buf. Inr (buf, u))))"
  by pat_completeness auto
termination
  by (relation "measure (\<lambda>(E, sz, fd, i, cb, b, u). sz - i)") auto

declare myfgets_loop.simps [simp del]

definition myfgets :: "'k environment \<Rightarrow> string option \<Rightarrow> nat \<Rightarrow> int \<Rightarrow> 'k user \<Rightarrow> ('k, string option) run" where
  "myfgets E buf sz fd u = myfgets_loop E sz fd 0 (replicate MAX_CMD_SIZE NUL) buf u"

definition handle_signal :: "'k environment \<Rightarrow> int \<Rightarrow> 'k user \<Rightarrow> 'k stop + 'k user" where
  "handle_signal E signal u = say E (''^C'' @ newline) [] u"

section \<open>File names\<close>

text \<open>
  \<open>strncpy(buf, ptr, len); if(ptr[len - 1] != '/') buf[len++] = '/';\<close>, which \<open>get_fullpath\<close> has twice.
\<close>

definition put_dir :: "string option \<Rightarrow> string option \<Rightarrow> nat \<Rightarrow> fault + string option \<times> nat" where
  "put_dir buf p len =
     rbind (strncpy_at buf 0 p len) (\<lambda>buf.
     rbind (p_read p (size_t (int len - 1))) (\<lambda>c.
     if c \<noteq> CHR ''/'' then rbind (p_write buf len CHR ''/'') (\<lambda>buf. Inr (buf, len + 1)) else Inr (buf, len)))"

definition get_fullpath :: "'k environment \<Rightarrow> string option \<Rightarrow> ptrs \<Rightarrow> 'k user \<Rightarrow> ('k, string option) run" where
  "get_fullpath E path envp u =
     (if path = None then Inr (None, u)
      else let (buf, u) = new_buffer E MAX_BUFFER_SIZE u in
      rbind (lft (p_read path 0)) (\<lambda>hc.
      rbind (lft (strlen path)) (\<lambda>lp.
      if hc \<noteq> CHR ''/'' \<and> hc \<noteq> CHR ''~'' then
        (let (p, _, u) = getcwd E None (MAX_BUFFER_SIZE - 1) u in
         if p \<noteq> None then
           rbind (lft (strlen p)) (\<lambda>len.
           rbind (assert E ''get_fullpath'' 367 (len + lp < MAX_BUFFER_SIZE) u) (\<lambda>u.
           rbind (lft (put_dir buf p len)) (\<lambda>(buf, len).
           rbind (lft (strncpy_at buf len path lp)) (\<lambda>buf.
           rbind (lft (p_write buf (lp + len) NUL)) (\<lambda>buf. Inr (buf, u))))))
         else rbind (say E (''ERROR: can't get current working directory!'' @ newline) [] u) (\<lambda>u. Inr (buf, u)))
      else if hc = CHR ''~'' then
        rbind (get_var E envp (lit ''HOME='') u) (\<lambda>(p, u).
        if p \<noteq> None then
          rbind (lft (strlen p)) (\<lambda>len.
          rbind (assert E ''get_fullpath'' 385 (len + (lp - 1) < MAX_BUFFER_SIZE) u) (\<lambda>u.
          rbind (lft (put_dir buf p len)) (\<lambda>(buf, len).
          if lp > 1 then
            rbind (lft (p_from path 1)) (\<lambda>rest.
            rbind (lft (strncpy_at buf len rest (lp - 1))) (\<lambda>buf.
            rbind (lft (p_write buf (lp - 1 + len) NUL)) (\<lambda>buf. Inr (buf, u))))
          else rbind (lft (p_write buf len NUL)) (\<lambda>buf. Inr (buf, u)))))
        else rbind (say E (''error in execute: can't get env HOME!'' @ newline) [] u) (\<lambda>u. Inr (buf, u)))
      else
        rbind (lft (strncpy_at buf 0 path lp)) (\<lambda>buf.
        rbind (lft (p_write buf lp NUL)) (\<lambda>buf. Inr (buf, u))))))"

section \<open>Directory listings\<close>

fun list_entries :: "nat \<Rightarrow> 'k environment \<Rightarrow> DIR \<Rightarrow> 'k user \<Rightarrow> 'k stop + 'k user" where
  "list_entries 0 E d u = Inl (Fault Diverge)"
| "list_entries (Suc n) E d u =
     rbind (readdir E d u) (\<lambda>((name, d), u).
     if name = None then Inr u
     else rbind (say E ''%s '' [VStr name] u) (\<lambda>u. list_entries n E d u))"

definition list_file :: "'k environment \<Rightarrow> string option \<Rightarrow> 'k user \<Rightarrow> ('k, int) run" where
  "list_file E fullpath u =
     (if fullpath = None then Inr (- 1, u)
      else let (dir, u) = opendir E fullpath u in
      case dir of
        None \<Rightarrow> Inr (- 1, u)
      | Some d \<Rightarrow> rbind (list_entries READDIR_FUEL E d u) (\<lambda>u. rbind (say E newline [] u) (\<lambda>u. Inr (0, u))))"

end
