(* ===== verification/Sbush.thy ===== *)
theory Sbush
  imports ShellFiles
begin

text \<open>
  The shell (bin/sbush/sbush.c) and the small programs cat, ls and kill. The commands of the shell are
  \<open>cd\<close>, \<open>ls\<close>, \<open>exit\<close>, assignments to variables, and programs, which run in a child process.
  \<open>execute\<close> returns the variables and the prompt, which the source updates in place.
\<close>

section \<open>One command\<close>

text \<open>The result of the first two parts tells whether the prompt is computed anew afterwards.\<close>

definition end_in_slash :: "string option \<Rightarrow> nat \<Rightarrow> fault + string option" where
  "end_in_slash p len =
     rbind (p_read p (size_t (int len - 1))) (\<lambda>c.
     if c \<noteq> CHR ''.'' \<and> c \<noteq> CHR ''/'' then rbind (p_write p len CHR ''/'') (\<lambda>p. p_write p (len + 1) NUL) else Inr p)"

definition cd_or_ls :: "'k environment \<Rightarrow> bool \<Rightarrow> string option list \<Rightarrow> nat \<Rightarrow> ptrs \<Rightarrow> 'k user \<Rightarrow> ('k, bool) run" where
  "cd_or_ls E cd arg_list arg_size envp u =
     (if arg_size = 1 then
        (if cd then rbind (get_var E envp (lit ''HOME'') u) (\<lambda>(home, u). Inr (True, snd (chdir E home u)))
         else let (dir, _, u) = getcwd E None (MAX_BUFFER_SIZE - 1) u in
           rbind (list_file E dir u) (\<lambda>(_, u). Inr (True, u)))
      else if arg_size = 2 then
        rbind (lft (ptr_at (Some arg_list) 1)) (\<lambda>arg.
        rbind (get_fullpath E arg envp u) (\<lambda>(fullpath, u).
        if cd then
          rbind (lft (strlen fullpath)) (\<lambda>len.
          rbind (lft (end_in_slash fullpath len)) (\<lambda>fullpath.
          let (err, u) = chdir E fullpath u in
          if err \<noteq> 0 then
            rbind (say E (''error in execute: wrong path given in cd!'' @ newline) [] u) (\<lambda>u. Inr (False, u))
          else Inr (True, u)))
        else rbind (list_file E fullpath u) (\<lambda>(_, u). Inr (True, u))))
      else Inr (True, u))"

text \<open>
  An assignment; \<open>k\<close> is the position of the equals sign in the word. The result is \<open>None\<close> after an error
  message, else the new variables.
\<close>

definition assign :: "'k environment \<Rightarrow> string option \<Rightarrow> nat \<Rightarrow> nat \<Rightarrow> ptrs \<Rightarrow> string option \<Rightarrow> string option \<Rightarrow> ptrs \<Rightarrow> 'k user
    \<Rightarrow> ('k, ptrs option) run" where
  "assign E arg k arg_size sh_var_list buf buf1 envp u =
     (if arg_size > 1 then
        rbind (say E (''error in execute: unaccepted format!'' @ newline) [] u) (\<lambda>u. Inr (None, u))
      else
        rbind (lft (p_from arg k)) (\<lambda>p.
        rbind (lft (strlen p)) (\<lambda>len.
        rbind (lft (strlen arg)) (\<lambda>len1.
        if \<not> len1 > len then
          rbind (say E (''error in execute: unknown commands!'' @ newline) [] u) (\<lambda>u. Inr (None, u))
        else
          rbind (lft (strncpy_at buf 0 arg (len1 - len + 1))) (\<lambda>buf.
          rbind (lft (p_write buf (len1 - len + 1) NUL)) (\<lambda>buf.
          rbind (lft (p_read p 1)) (\<lambda>first.
          rbind (lft (p_read p (len - 1))) (\<lambda>last.
          if first = CHR 0x22 \<and> len \<ge> 3 \<and> last = CHR 0x22 \<or> first \<noteq> CHR 0x22 \<and> last \<noteq> CHR 0x22 then
            (let skip = (if first = CHR 0x22 then 2 else 1); n = (if first = CHR 0x22 then len - 3 else len - 1) in
             rbind (lft (p_from p skip)) (\<lambda>v.
             rbind (lft (strncpy_at buf1 0 v n)) (\<lambda>buf1.
             rbind (lft (p_write buf1 n NUL)) (\<lambda>buf1.
             rbind (lft (strncmp buf (lit ''PATH='') 5)) (\<lambda>is_path.
             rbind (lft (strncmp buf (lit ''PS1='') 4)) (\<lambda>is_ps1.
             rbind (if is_path = 0 then set_path E sh_var_list buf1 u
                    else if is_ps1 = 0 then set_PS1 E sh_var_list buf1 envp u
                    else set_var E sh_var_list buf buf1 u) (\<lambda>(vars, u). Inr (Some vars, u))))))))
          else
            rbind (say E (''error in execute: unaccepted var values!'' @ newline) [] u) (\<lambda>u. Inr (None, u))))))))))"

text \<open>A program: the child replaces itself, the parent waits unless the last word is an ampersand.\<close>

definition run_program :: "'k environment \<Rightarrow> string option list \<Rightarrow> nat \<Rightarrow> ptrs \<Rightarrow> ptrs \<Rightarrow> 'k user \<Rightarrow> 'k stop + 'k user" where
  "run_program E arg_list arg_size sh_var_list envp u =
     rbind (locate_executable_file E sh_var_list (arg_list ! 0) u) (\<lambda>(p, u).
     if p = None then Inr u
     else let (pid, u) = fork E u in
     if pid = 0 then
       rbind (execve E p arg_list (the envp) u) (\<lambda>(err, u).
       rbind (if err < 0 then say E (''error in child process: file not executable!'' @ newline) [] u else Inr u) (\<lambda>u.
       Inl (Exited (- 1) u)))
     else if pid > 0 then
       rbind (lft (ptr_at (Some arg_list) (arg_size - 1))) (\<lambda>w.
       rbind (lft (strcmp w (lit ''&''))) (\<lambda>r. Inr (if r \<noteq> 0 then snd (waitpid E pid u) else u)))
     else say E (''error in execute: fork process error!'' @ newline) [] u)"

definition new_prompt :: "'k environment \<Rightarrow> ptrs \<Rightarrow> ptrs \<Rightarrow> 'k user \<Rightarrow> ('k, string option) run" where
  "new_prompt E vars envp u = rbind (get_var E vars (lit ''PS1='') u) (\<lambda>(ps1, u). parse_PS1 E ps1 envp u)"

definition execute :: "'k environment \<Rightarrow> string option list \<Rightarrow> nat \<Rightarrow> ptrs \<Rightarrow> string option \<Rightarrow> ptrs \<Rightarrow> 'k user \<Rightarrow> ('k, ptrs \<times> string option) run" where
  "execute E arg_list arg_size sh_var_list prompt envp u =
     (let (buf, u) = new_buffer E MAX_BUFFER_SIZE u in
      rbind (lft (p_write buf (MAX_BUFFER_SIZE - 1) NUL)) (\<lambda>buf.
      let (buf1, u) = new_buffer E MAX_BUFFER_SIZE u in
      rbind (lft (p_write buf1 (MAX_BUFFER_SIZE - 1) NUL)) (\<lambda>buf1.
      rbind (lft (ptr_at (Some arg_list) 0)) (\<lambda>arg.
      if arg = None then Inr ((sh_var_list, prompt), u)
      else
        rbind (lft (strcmp arg (lit ''cd''))) (\<lambda>cd.
        rbind (lft (strcmp arg (lit ''ls''))) (\<lambda>ls.
        rbind (lft (strchr arg CHR ''='')) (\<lambda>eq.
        rbind (lft (strcmp arg (lit ''exit''))) (\<lambda>ex.
        if cd = 0 \<or> ls = 0 then
          rbind (cd_or_ls E (cd = 0) arg_list arg_size envp u) (\<lambda>(again, u).
          if again then rbind (new_prompt E sh_var_list envp u) (\<lambda>(p, u). Inr ((sh_var_list, p), u))
          else Inr ((sh_var_list, prompt), u))
        else case eq of
          Some k \<Rightarrow>
            rbind (assign E arg k arg_size sh_var_list buf buf1 envp u) (\<lambda>(r, u).
            case r of
              None \<Rightarrow> Inr ((sh_var_list, prompt), u)
            | Some vars \<Rightarrow> rbind (new_prompt E vars envp u) (\<lambda>(p, u). Inr ((vars, p), u)))
        | None \<Rightarrow>
            if ex = 0 \<and> arg_size = 1 then Inl (Exited 0 u)
            else rbind (run_program E arg_list arg_size sh_var_list envp u) (\<lambda>u. Inr ((sh_var_list, prompt), u))))))))))"

section \<open>The shell\<close>

text \<open>
  The variables start as a fresh array of eight pointers, \<open>slots\<close>, which \<open>main\<close> does not clear.
\<close>

definition sbush_init :: "'k environment \<Rightarrow> string option list \<Rightarrow> ptrs \<Rightarrow> 'k user \<Rightarrow> ('k, ptrs \<times> string option) run" where
  "sbush_init E slots envp u =
     (let (arr, u) = new_buffer E (MAX_SH_VAR_NUM * 8) u; vars = (if arr = None then None else Some slots) in
      rbind (get_var E envp (lit ''PATH='') u) (\<lambda>(tmp, u).
      rbind (if tmp \<noteq> None then set_var E vars (lit ''PATH='') tmp u else Inr (vars, u)) (\<lambda>(vars, u).
      rbind (set_var E vars (lit ''PS1='') (lit (CHR 0x5C # ''u@'' @ CHR 0x5C # ''h:'' @ CHR 0x5C # ''w'' @ CHR 0x5C # ''$ '')) u) (\<lambda>(vars, u).
      rbind (new_prompt E vars envp u) (\<lambda>(prompt, u). Inr ((vars, prompt), u))))))"

text \<open>One round of the interactive loop, and \<open>n\<close> rounds of it.\<close>

definition sbush_round :: "'k environment \<Rightarrow> ptrs \<Rightarrow> ptrs \<times> string option \<times> string option \<Rightarrow> 'k user \<Rightarrow> ('k, ptrs \<times> string option \<times> string option) run" where
  "sbush_round E envp s u =
     (case s of (vars, prompt, cmd) \<Rightarrow>
      rbind (say E ''%s'' [VStr prompt] u) (\<lambda>u.
      rbind (myfgets E cmd MAX_CMD_SIZE 0 u) (\<lambda>(cmd, u).
      rbind (parse_cmds E cmd u) (\<lambda>(r, u).
      case r of
        None \<Rightarrow> Inr ((vars, prompt, cmd), u)
      | Some (arg_list, arg_size) \<Rightarrow>
          rbind (execute E arg_list arg_size vars prompt envp u) (\<lambda>((vars, prompt), u). Inr ((vars, prompt, cmd), u))))))"

fun sbush_rounds :: "nat \<Rightarrow> 'k environment \<Rightarrow> ptrs \<Rightarrow> ptrs \<times> string option \<times> string option \<Rightarrow> 'k user
    \<Rightarrow> ('k, ptrs \<times> string option \<times> string option) run" where
  "sbush_rounds 0 E envp s u = Inr (s, u)"
| "sbush_rounds (Suc n) E envp s u = rbind (sbush_round E envp s u) (\<lambda>(s, u). sbush_rounds n E envp s u)"

text \<open>A line of a script; \<open>arg_list[0]\<close> is read although \<open>parse_cmds\<close> may have returned NULL.\<close>

definition script_line :: "'k environment \<Rightarrow> ptrs \<Rightarrow> string option \<Rightarrow> ptrs \<times> string option \<Rightarrow> 'k user \<Rightarrow> ('k, ptrs \<times> string option) run" where
  "script_line E envp line s u =
     rbind (parse_cmds E line u) (\<lambda>(r, u).
     case r of
       None \<Rightarrow> Inl (Fault Null_Deref)
     | Some (arg_list, arg_size) \<Rightarrow>
         rbind (lft (ptr_at (Some arg_list) 0)) (\<lambda>w.
         if w = None then Inr (s, u) else execute E arg_list arg_size (fst s) (snd s) envp u))"

function script_lines :: "'k environment \<Rightarrow> ptrs \<Rightarrow> string option \<Rightarrow> nat \<Rightarrow> string option \<Rightarrow> ptrs \<times> string option \<Rightarrow> 'k user
    \<Rightarrow> ('k, nat \<times> string option \<times> ptrs \<times> string option) run" where
  "script_lines E envp script_buf off line s u =
     rbind (lft (p_from script_buf off)) (\<lambda>buf.
     rbind (lft (strchr buf CHR 0x0A)) (\<lambda>r.
     case r of
       None \<Rightarrow> Inr ((off, line, s), u)
     | Some k \<Rightarrow>
         rbind (lft (p_from script_buf (off + k))) (\<lambda>p.
         rbind (lft (strlen buf)) (\<lambda>lb.
         rbind (lft (strlen p)) (\<lambda>lp.
         rbind (lft (strncpy_at line 0 buf (lb - lp + 1))) (\<lambda>line.
         rbind (lft (p_write line (lb - lp + 1) NUL)) (\<lambda>line.
         rbind (script_line E envp line s u) (\<lambda>(s, u). script_lines E envp script_buf (off + k + 1) line s u))))))))"
  by pat_completeness auto
termination
  by (relation "measure (\<lambda>(E, envp, b, off, line, s, u). length (the b) - off)")
     (auto simp: p_from_def lft_eq_Inr dest!: strchr_less split: option.splits if_splits)

declare script_lines.simps [simp del]

definition run_script :: "'k environment \<Rightarrow> string option \<Rightarrow> ptrs \<Rightarrow> ptrs \<times> string option \<Rightarrow> 'k user \<Rightarrow> 'k stop + 'k user" where
  "run_script E arg envp s u =
     rbind (lft (p_read arg 0)) (\<lambda>c.
     rbind (if c = CHR ''/'' then Inr (open_file E arg O_RDONLY u)
            else rbind (locate_executable_file E (fst s) arg u) (\<lambda>(p, u). Inr (open_file E p O_RDONLY u))) (\<lambda>(fd, u).
     if fd < 0 then say E (''error in main: file does not exists %s'' @ newline) [VStr arg] u
     else let (script_buf, u) = new_buffer E MAX_SCRIPT_SIZE u in
     rbind (lft (case script_buf of None \<Rightarrow> Inl Null_Deref | Some b \<Rightarrow> Inr b)) (\<lambda>b.
     let (r, b, u) = read E fd b MAX_SCRIPT_SIZE u in
     if r < 0 \<or> r \<ge> int MAX_SCRIPT_SIZE then say E (''error in main: read script error! %s'' @ newline) [VStr arg] u
     else let (line, u) = new_buffer E MAX_BUFFER_SIZE u in
     rbind (script_lines E envp (Some b) 0 line s u) (\<lambda>((off, line, s), u).
     rbind (lft (p_from (Some b) off)) (\<lambda>buf.
     rbind (lft (strlen buf)) (\<lambda>n.
     rbind (lft (strncpy_at line 0 buf n)) (\<lambda>line.
     rbind (lft (p_write line n NUL)) (\<lambda>line.
     rbind (script_line E envp line s u) (\<lambda>(_, u). Inr (snd (close E fd u)))))))))))"

text \<open>\<open>main\<close>: \<open>None\<close> after \<open>n\<close> rounds of the interactive loop, or the value it returns.\<close>

definition sbush_main :: "nat \<Rightarrow> 'k environment \<Rightarrow> string option list \<Rightarrow> int \<Rightarrow> string option list \<Rightarrow> ptrs \<Rightarrow> 'k user \<Rightarrow> ('k, int option) run" where
  "sbush_main n E slots argc argv envp u =
     rbind (sbush_init E slots envp u) (\<lambda>((vars, prompt), u).
     if argc = 2 then
       rbind (lft (ptr_at (Some argv) 1)) (\<lambda>arg.
       rbind (lft (strlen arg)) (\<lambda>len.
       rbind (if len > 3 then rbind (lft (p_from arg (len - 3))) (\<lambda>p. lft (strncmp p (lit ''.sh'') 3)) else Inr 1) (\<lambda>r.
       if len > 3 \<and> r = 0 then rbind (run_script E arg envp (vars, prompt) u) (\<lambda>u. Inr (Some 0, u))
       else Inr (Some 0, u))))
     else if argc > 2 then
       rbind (say E (''OK, I'm still a baby! Don't play too much with me, or I will cry(ush)!'' @ newline) [] u) (\<lambda>u. Inr (Some 0, u))
     else let (cmd, u) = new_buffer E MAX_CMD_SIZE u in
       rbind (sbush_rounds n E envp (vars, prompt, cmd) u) (\<lambda>(_, u). Inr (None, u)))"

section \<open>Programs\<close>

text \<open>\<open>cat\<close> reads until the kernel reports the end of the file, at most \<open>n\<close> times.\<close>

fun cat_loop :: "nat \<Rightarrow> 'k environment \<Rightarrow> int \<Rightarrow> string \<Rightarrow> 'k user \<Rightarrow> 'k stop + 'k user" where
  "cat_loop 0 E fd buf u = Inl (Fault Diverge)"
| "cat_loop (Suc n) E fd buf u =
     (let (r, buf, u) = read E fd buf 4096 u in
      if r > 0 then rbind (say E ''%s'' [VStr (Some buf)] u) (\<lambda>u. cat_loop n E fd buf u) else Inr u)"

definition cat_main :: "nat \<Rightarrow> 'k environment \<Rightarrow> int \<Rightarrow> string option list \<Rightarrow> ptrs \<Rightarrow> 'k user \<Rightarrow> ('k, int) run" where
  "cat_main n E argc argv envp u =
     (if argc = 1 then Inr (0, u)
      else if argc = 2 then
        rbind (lft (ptr_at (Some argv) 1)) (\<lambda>arg.
        rbind (get_fullpath E arg envp u) (\<lambda>(fullpath, u).
        let (fd, u) = open_file E fullpath O_RDONLY u in
        if fd > 0 then
          (let (buf, u) = new_buffer E 4096 u in
           case buf of
             None \<Rightarrow> Inr (- 1, u)
           | Some b \<Rightarrow> rbind (cat_loop n E fd b u) (\<lambda>u. Inr (0, u)))
        else Inr (0, u)))
      else rbind (say E (''Too many arguments for cat!'' @ newline) [] u) (\<lambda>u. Inr (0, u)))"

definition ls_main :: "'k environment \<Rightarrow> int \<Rightarrow> string option list \<Rightarrow> ptrs \<Rightarrow> 'k user \<Rightarrow> ('k, int) run" where
  "ls_main E argc argv envp u =
     (if argc = 1 then
        (let (dir, _, u) = getcwd E None (MAX_BUFFER_SIZE - 1) u in rbind (list_file E dir u) (\<lambda>(_, u). Inr (0, u)))
      else if argc = 2 then
        rbind (lft (ptr_at (Some argv) 1)) (\<lambda>arg.
        rbind (get_fullpath E arg envp u) (\<lambda>(fullpath, u).
        rbind (list_file E fullpath u) (\<lambda>(_, u). Inr (0, u))))
      else rbind (say E (''ERROR: too many arguments!'' @ newline) [] u) (\<lambda>u. Inr (- 1, u)))"

text \<open>A wrong number of arguments is reported, and then the arguments are used all the same.\<close>

definition kill_main :: "'k environment \<Rightarrow> int \<Rightarrow> string option list \<Rightarrow> 'k user \<Rightarrow> 'k stop + 'k user" where
  "kill_main E argc argv u =
     rbind (if argc \<noteq> 3 then
         rbind (say E ''ERROR: wrong format of kill!'' [] u) (\<lambda>u. say E ''use: kill -9 pid'' [] u)
       else Inr u) (\<lambda>u.
     rbind (lft (ptr_at (Some argv) 1)) (\<lambda>a.
     rbind (get_sig E a u) (\<lambda>(sig, u).
     rbind (lft (ptr_at (Some argv) 2)) (\<lambda>b.
     rbind (atoi E b u) (\<lambda>(pid, u). Inr (snd (kill E (sint pid) (sint sig) u)))))))"

end
