(* ===== verification/CommandLine.thy ===== *)
theory CommandLine
  imports Sbush
begin

text \<open>
  What \<open>parse_cmds\<close> computes. The reference is \<open>split_line\<close>, a function from the text of a command
  line to its words; the pointer-level code is shown to compute exactly that, and the properties of
  the words are proved for the reference.
\<close>

section \<open>Walking over a terminated string\<close>

lemma text_cases:
  assumes "NUL \<in> set b" "p \<le> length (cstr b)"
  obtains (stop) "p = length (cstr b)" "p_read (Some b) p = Inr NUL" "drop p (cstr b) = []"
  | (more) c where "c \<noteq> NUL" "p_read (Some b) p = Inr c" "drop p (cstr b) = c # drop (Suc p) (cstr b)" "Suc p \<le> length (cstr b)"
proof (cases "p = length (cstr b)")
  case True
  then show ?thesis
    using stop assms length_cstr_less [of b] nth_length_cstr [of b] by (auto simp: p_read_def c_read_def)
next
  case False
  then have p: "p < length (cstr b)" using assms by simp
  then show ?thesis
    using more [of "b ! p"] assms length_cstr_less [of b] nth_less_cstr [of p b]
    by (simp add: p_read_def c_read_def Cons_nth_drop_Suc [symmetric] nth_cstr)
qed

lemma skip_spaces_eq:
  assumes "NUL \<in> set b" "p \<le> length (cstr b)"
  shows "skip_spaces (Some b) p = Inr (p + length (takeWhile (\<lambda>c. c = CHR '' '') (drop p (cstr b))))"
  using assms
proof (induction "length (cstr b) - p" arbitrary: p)
  case (Suc n)
  show ?case
  proof (rule text_cases [OF Suc.prems])
    fix c assume c: "p_read (Some b) p = Inr c" "drop p (cstr b) = c # drop (Suc p) (cstr b)" "Suc p \<le> length (cstr b)"
    then show ?thesis using Suc.hyps(1) [of "Suc p"] Suc.hyps(2) Suc.prems
      by (subst skip_spaces.simps) auto
  qed (use Suc in auto)
next
  case 0
  show ?case by (rule text_cases [OF 0(2,3)]) (use 0 in \<open>auto simp: skip_spaces.simps\<close>)
qed

section \<open>The reference\<close>

text \<open>The length of the word at the start of a text, at most \<open>k\<close>; \<open>None\<close> if a quoted part is not at the end of its word.\<close>

fun word_len :: "bool \<Rightarrow> nat \<Rightarrow> string \<Rightarrow> nat option" where
  "word_len q 0 s = Some 0"
| "word_len q (Suc k) [] = Some 0"
| "word_len q (Suc k) (c # s) =
     (if c = CHR 0x0A \<or> c = CHR ''#'' then Some 0
      else if c = CHR 0x22 \<and> q then (if s = [] \<or> hd s = CHR '' '' \<or> hd s = CHR 0x0A then Some 1 else None)
      else if c = CHR '' '' \<and> \<not> q then Some 0
      else map_option Suc (word_len (q \<or> c = CHR 0x22) k s))"

text \<open>The words of a line, at most \<open>j\<close>.\<close>

definition skip_blanks :: "string \<Rightarrow> string" where
  "skip_blanks s = dropWhile (\<lambda>c. c = CHR '' '') s"

definition at_end :: "string \<Rightarrow> bool" where
  "at_end s \<longleftrightarrow> s = [] \<or> hd s = CHR ''#'' \<or> hd s = CHR 0x0A"

fun split_line :: "nat \<Rightarrow> string \<Rightarrow> string list option" where
  "split_line 0 s = Some []"
| "split_line (Suc j) s =
     (if at_end s then Some []
      else case word_len False 255 (skip_blanks s) of
        None \<Rightarrow> None
      | Some n \<Rightarrow> if n = 0 then Some [] else map_option (Cons (take n (skip_blanks s))) (split_line j (drop n (skip_blanks s))))"

lemma word_len_bound: "word_len q k s = Some n \<Longrightarrow> n \<le> k \<and> n \<le> length s"
  by (induction q k s arbitrary: n rule: word_len.induct) (fastforce split: if_splits)+

lemma take_word_eq:
  assumes "NUL \<in> set b" "p \<le> length (cstr b)" "i \<le> 255" "length t = 256"
  shows "take_word (Some b) p i (Some t) q = Inr (case word_len q (255 - i) (drop p (cstr b)) of
      None \<Rightarrow> None
    | Some n \<Rightarrow> Some (p + n, i + n, Some (take i t @ take n (drop p (cstr b)) @ drop (i + n) t)))"
  using assms
proof (induction "255 - i" arbitrary: p i t q)
  case 0
  then have i: "i = 255" by simp
  show ?case unfolding i by (rule text_cases [OF 0(2,3)]) (simp_all add: take_word.simps [of _ _ 255])
next
  case (Suc k)
  have k: "255 - i = Suc k" "k = 255 - Suc i" "Suc i \<le> 255" using Suc.hyps(2) by auto
  show ?case
  proof (rule text_cases [OF Suc.prems(1,2)])
    assume "p_read (Some b) p = Inr NUL" "drop p (cstr b) = []"
    then show ?thesis using k by (subst take_word.simps) simp
  next
    fix c assume c: "c \<noteq> NUL" "p_read (Some b) p = Inr c" "drop p (cstr b) = c # drop (Suc p) (cstr b)" "Suc p \<le> length (cstr b)"
    let ?t = "t[i := c]"
    have w: "p_write (Some t) i c = Inr (Some ?t)" using Suc.prems k by (simp add: p_write_def c_write_def)
    have tk: "take (Suc i) ?t = take i t @ [c]" using Suc.prems(4) k by (simp add: take_Suc_conv_app_nth)
    have IH: "take_word (Some b) (Suc p) (Suc i) (Some ?t) r = Inr (case word_len r k (drop (Suc p) (cstr b)) of
        None \<Rightarrow> None
      | Some n \<Rightarrow> Some (Suc p + n, Suc i + n, Some ((take i t @ [c]) @ take n (drop (Suc p) (cstr b)) @ drop (Suc i + n) t)))" for r
      using Suc.hyps(1) [of "Suc i" "Suc p" ?t r] k Suc.prems c(4) unfolding tk by (simp split: option.split)
    have d: "\<exists>d. p_read (Some b) (Suc p) = Inr d \<and> (d = CHR '' '' \<or> d = CHR 0x0A \<or> d = NUL \<longleftrightarrow>
        drop (Suc p) (cstr b) = [] \<or> hd (drop (Suc p) (cstr b)) = CHR '' '' \<or> hd (drop (Suc p) (cstr b)) = CHR 0x0A)"
      by (rule text_cases [OF Suc.prems(1) c(4)]) auto
    then obtain d where d: "p_read (Some b) (Suc p) = Inr d" "d = CHR '' '' \<or> d = CHR 0x0A \<or> d = NUL \<longleftrightarrow>
        drop (Suc p) (cstr b) = [] \<or> hd (drop (Suc p) (cstr b)) = CHR '' '' \<or> hd (drop (Suc p) (cstr b)) = CHR 0x0A" by blast
    have quoted: "take_word (Some b) p i (Some t) True = Inr (if drop (Suc p) (cstr b) = [] \<or> hd (drop (Suc p) (cstr b)) = CHR '' '' \<or> hd (drop (Suc p) (cstr b)) = CHR 0x0A
        then Some (p + 1, i + 1, Some ?t) else None)" if "c = CHR 0x22"
      using that c d k w by (subst take_word.simps) auto
    have ut: "?t = take i t @ c # drop (Suc i) t" using Suc.prems(4) k by (simp add: upd_conv_take_nth_drop)
    show ?thesis
    proof (cases "c = CHR 0x22 \<and> q")
      case True
      then show ?thesis using quoted c k ut by auto
    next
      case False
      then show ?thesis using c k w IH [of "q \<or> c = CHR 0x22"]
        by (subst take_word.simps) (auto simp: Let_def split: option.splits)
    qed
  qed
qed

text \<open>The pointer-level outer loop, with the words found so far in \<open>args\<close>.\<close>

definition holds_words :: "string option list \<Rightarrow> string list \<Rightarrow> bool" where
  "holds_words args ws \<longleftrightarrow> list_all2 (\<lambda>a w. \<exists>b. a = Some b \<and> NUL \<in> set b \<and> cstr b = w \<and> length b = 256) args ws"

lemma take_skip_blanks: "skip_blanks s = drop (length (takeWhile (\<lambda>c. c = CHR '' '') s)) s"
  by (simp add: skip_blanks_def dropWhile_eq_drop)

lemma word_len_zero: "word_len False (Suc k) (skip_blanks s) = Some 0 \<Longrightarrow> at_end (skip_blanks s)"
proof -
  have "skip_blanks s = [] \<or> hd (skip_blanks s) \<noteq> CHR '' ''"
    using hd_dropWhile [of "\<lambda>c. c = CHR '' ''" s] by (auto simp: skip_blanks_def)
  then show "word_len False (Suc k) (skip_blanks s) = Some 0 \<Longrightarrow> at_end (skip_blanks s)"
    by (cases "skip_blanks s") (auto simp: at_end_def split: if_splits)
qed

lemma at_end_read:
  assumes "NUL \<in> set b" "p \<le> length (cstr b)"
  shows "\<exists>c. p_read (Some b) p = Inr c \<and> (c = NUL \<or> c = CHR ''#'' \<or> c = CHR 0x0A \<longleftrightarrow> at_end (drop p (cstr b)))"
  by (rule text_cases [OF assms]) (auto simp: at_end_def)

abbreviation (input) ugly :: string where "ugly \<equiv> ''error in parse_cmds: ugly input!'' @ newline"

lemma parse_loop_step:
  assumes E: "roomy E" and b: "NUL \<in> set b" and p: "p \<le> length (cstr b)" and j: "length args < 8"
    and more: "\<not> at_end (drop p (cstr b))" and s: "s = skip_blanks (drop p (cstr b))"
  obtains t q where "length t = 256" "\<And>n. n \<le> length s \<Longrightarrow> q + n \<le> length (cstr b) \<and> drop (q + n) (cstr b) = drop n s"
    "parse_loop E (Some b) True p args u = (case word_len False 255 s of
       None \<Rightarrow> Inr (None, print_chars E ugly (u\<lparr>allocs := Suc (allocs u)\<rparr>))
     | Some n \<Rightarrow> if n = 0 then Inr (Some args, u\<lparr>allocs := Suc (allocs u)\<rparr>)
         else parse_loop E (Some b) True (q + n) (args @ [Some (take n s @ NUL # drop (Suc n) t)]) (u\<lparr>allocs := Suc (allocs u)\<rparr>))"
proof -
  obtain c where c: "p_read (Some b) p = Inr c" "c \<noteq> NUL" "c \<noteq> CHR ''#''" "c \<noteq> CHR 0x0A"
    using at_end_read [OF b p] more by auto
  define q where "q = p + length (takeWhile (\<lambda>c. c = CHR '' '') (drop p (cstr b)))"
  have q: "q \<le> length (cstr b)" "drop q (cstr b) = s"
    using length_takeWhile_le [of "\<lambda>c. c = CHR '' ''" "drop p (cstr b)"] p
    by (auto simp: q_def s take_skip_blanks add.commute)
  have sk: "skip_spaces (Some b) p = Inr q" using skip_spaces_eq [OF b p] by (simp add: q_def)
  obtain t where t: "new_buffer E 256 u = (Some t, u\<lparr>allocs := Suc (allocs u)\<rparr>)" "length t = 256" by (rule roomyE [OF E])
  note tw = take_word_eq [OF b q(1) _ t(2), of 0 False, unfolded q(2), simplified]
  note start = parse_loop.simps [of E "Some b" True p args u]
  show ?thesis
  proof (rule that [OF t(2)])
    show "n \<le> length s \<Longrightarrow> q + n \<le> length (cstr b) \<and> drop (q + n) (cstr b) = drop n s" for n
      unfolding q(2) [symmetric] using q(1) by (simp add: add.commute)
    show "parse_loop E (Some b) True p args u = (case word_len False 255 s of
       None \<Rightarrow> Inr (None, print_chars E ugly (u\<lparr>allocs := Suc (allocs u)\<rparr>))
     | Some n \<Rightarrow> if n = 0 then Inr (Some args, u\<lparr>allocs := Suc (allocs u)\<rparr>)
         else parse_loop E (Some b) True (q + n) (args @ [Some (take n s @ NUL # drop (Suc n) t)]) (u\<lparr>allocs := Suc (allocs u)\<rparr>))"
    proof (cases "word_len False 255 s")
      case None
      then show ?thesis using c j sk t(1) tw by (simp add: start say_plain)
    next
      case (Some n)
      have n: "n \<le> 255" "n \<le> length s" using word_len_bound [OF Some] by auto
      have w: "p_write (Some (take n s @ drop n t)) n NUL = Inr (Some (take n s @ NUL # drop (Suc n) t))"
        using n t(2) by (simp add: p_write_def c_write_def list_update_append Cons_nth_drop_Suc [symmetric])
      have "n = 0 \<Longrightarrow> at_end s" using word_len_zero [of 254 "drop p (cstr b)"] Some s by simp
      then obtain d where "p_read (Some b) q = Inr d" "n = 0 \<Longrightarrow> d = NUL \<or> d = CHR ''#'' \<or> d = CHR 0x0A"
        using at_end_read [OF b q(1)] unfolding q(2) by blast
      then show ?thesis using c j sk t(1) tw Some n w by (cases "n = 0") (auto simp: start)
    qed
  qed
qed

text \<open>The result of the loop when the rest of the line splits into the words \<open>r\<close>.\<close>

definition parsed :: "'k environment \<Rightarrow> string list option \<Rightarrow> string option list \<Rightarrow> 'k user \<Rightarrow> ('k, string option list option) run \<Rightarrow> bool" where
  "parsed E r args u res \<longleftrightarrow> (\<exists>n. case r of
      None \<Rightarrow> res = Inr (None, print_chars E ugly (u\<lparr>allocs := n\<rparr>))
    | Some ws \<Rightarrow> \<exists>more. res = Inr (Some (args @ more), u\<lparr>allocs := n\<rparr>) \<and> holds_words more ws)"

lemma parsed_stop: "parsed E (Some []) args u (Inr (Some args, u\<lparr>allocs := n\<rparr>))" "parsed E (Some []) args u (Inr (Some args, u))"
proof -
  show s: "parsed E (Some []) args u (Inr (Some args, u\<lparr>allocs := n\<rparr>))" for n by (auto simp: parsed_def holds_words_def)
  show "parsed E (Some []) args u (Inr (Some args, u))" using s [of "allocs u"] by simp
qed

lemma parsed_more:
  assumes "parsed E r (args @ [Some w]) (u\<lparr>allocs := k\<rparr>) res" "NUL \<in> set w" "cstr w = x" "length w = 256"
  shows "parsed E (map_option (Cons x) r) args u res"
proof (cases r)
  case (Some ws)
  then obtain n more where "res = Inr (Some (args @ Some w # more), u\<lparr>allocs := n\<rparr>)" "holds_words more ws" using assms(1) by (auto simp: parsed_def)
  moreover have "holds_words (Some w # more) (x # ws)" using calculation(2) assms(2-4) by (simp add: holds_words_def)
  ultimately show ?thesis using Some by (auto simp: parsed_def)
qed (use assms(1) in \<open>auto simp: parsed_def\<close>)

lemma parse_loop_eq:
  assumes E: "roomy E" and b: "NUL \<in> set b" and "p \<le> length (cstr b)" "length args \<le> 8"
  shows "parsed E (split_line (8 - length args) (drop p (cstr b))) args u (parse_loop E (Some b) True p args u)"
  using assms(3,4)
proof (induction "8 - length args" arbitrary: p args u)
  case 0
  then have l: "length args = 8" by simp
  then have "parse_loop E (Some b) True p args u = Inr (Some args, u)"
    by (rule_tac text_cases [OF b 0(2)]) (simp_all add: parse_loop.simps [of E _ _ _ args])
  then show ?case using l parsed_stop(2) by simp
next
  case (Suc j)
  have j: "8 - length args = Suc j" "length args < 8" using Suc.hyps(2) by simp_all
  let ?s = "skip_blanks (drop p (cstr b))" and ?u = "u\<lparr>allocs := Suc (allocs u)\<rparr>"
  show ?case
  proof (cases "at_end (drop p (cstr b))")
    case True
    then have "parse_loop E (Some b) True p args u = Inr (Some args, u)"
      using at_end_read [OF b Suc.prems(1)] by (subst parse_loop.simps) auto
    then show ?thesis using True j parsed_stop(2) by simp
  next
    case False
    obtain t q where t: "length t = 256" and q: "\<And>n. n \<le> length ?s \<Longrightarrow> q + n \<le> length (cstr b) \<and> drop (q + n) (cstr b) = drop n ?s"
      and step: "parse_loop E (Some b) True p args u = (case word_len False 255 ?s of
       None \<Rightarrow> Inr (None, print_chars E ugly ?u)
     | Some n \<Rightarrow> if n = 0 then Inr (Some args, ?u)
         else parse_loop E (Some b) True (q + n) (args @ [Some (take n ?s @ NUL # drop (Suc n) t)]) ?u)"
      by (rule parse_loop_step [OF E b Suc.prems(1) j(2) False refl, of u]) blast
    consider "word_len False 255 ?s = None" | "word_len False 255 ?s = Some 0" | n where "word_len False 255 ?s = Some n" "n \<noteq> 0" by fastforce
    then show ?thesis
    proof cases
      case 1
      then show ?thesis using step False j by (auto simp: parsed_def)
    next
      case 2
      then show ?thesis using step False j parsed_stop(1) by simp
    next
      case (3 n)
      let ?w = "take n ?s @ NUL # drop (Suc n) t"
      have n: "n \<le> 255" "n \<le> length ?s" using word_len_bound [OF 3(1)] by auto
      have "NUL \<notin> set (take n ?s)" using NUL_notin_cstr [of b] unfolding take_skip_blanks by (meson in_set_dropD in_set_takeD)
      then have w: "NUL \<in> set ?w" "cstr ?w = take n ?s" "length ?w = 256" using cstr_append_NUL n t by auto
      have l: "j = 8 - length (args @ [Some ?w])" "length (args @ [Some ?w]) \<le> 8" using j by auto
      have "parsed E (split_line j (drop n ?s)) (args @ [Some ?w]) ?u (parse_loop E (Some b) True (q + n) (args @ [Some ?w]) ?u)"
        using Suc.hyps(1) [OF l(1) conjunct1 [OF q [OF n(2)]] l(2), of ?u] unfolding l(1) [symmetric] conjunct2 [OF q [OF n(2)]] .
      from parsed_more [OF this w] show ?thesis using step 3 False j by simp
    qed
  qed
qed

section \<open>The results\<close>

abbreviation (input) too_many :: string where "too_many \<equiv> ''error: too many arguments!'' @ newline"

lemma holds_words_length: "holds_words args ws \<Longrightarrow> length args = length ws"
  by (simp add: holds_words_def list_all2_lengthD)

lemma parse_cmds_split:
  assumes "roomy E" "NUL \<in> set b"
  shows "\<exists>n. case split_line 8 (cstr b) of
      None \<Rightarrow> parse_cmds E (Some b) u = Inr (None, print_chars E ugly (u\<lparr>allocs := n\<rparr>))
    | Some ws \<Rightarrow>
        if length ws < 8 then \<exists>args. holds_words args ws \<and> parse_cmds E (Some b) u = Inr (Some (args @ [None], length ws), u\<lparr>allocs := n\<rparr>)
        else parse_cmds E (Some b) u = Inr (None, print_chars E too_many (u\<lparr>allocs := n\<rparr>))"
proof -
  obtain a where a: "new_buffer E 64 u = (Some a, u\<lparr>allocs := Suc (allocs u)\<rparr>)" by (rule roomyE [OF assms(1)])
  let ?u = "u\<lparr>allocs := Suc (allocs u)\<rparr>"
  have "parsed E (split_line 8 (cstr b)) [] ?u (parse_loop E (Some b) True 0 [] ?u)" using parse_loop_eq [OF assms, of 0 "[]" ?u] by simp
  then obtain n where "case split_line 8 (cstr b) of
      None \<Rightarrow> parse_loop E (Some b) True 0 [] ?u = Inr (None, print_chars E ugly (?u\<lparr>allocs := n\<rparr>))
    | Some ws \<Rightarrow> \<exists>more. parse_loop E (Some b) True 0 [] ?u = Inr (Some ([] @ more), ?u\<lparr>allocs := n\<rparr>) \<and> holds_words more ws"
    unfolding parsed_def by blast
  then show ?thesis using a
    by (intro exI [of _ n]) (auto simp: parse_cmds_def say_plain holds_words_length split: option.splits)
qed

lemma word_len_chars: "word_len q k s = Some n \<Longrightarrow> c \<in> set (take n s) \<Longrightarrow> c \<noteq> CHR ''#'' \<and> c \<noteq> CHR 0x0A"
  by (induction q k s arbitrary: n rule: word_len.induct) (fastforce split: if_splits)+

definition word_of :: "string \<Rightarrow> string \<Rightarrow> bool" where
  "word_of w s \<longleftrightarrow> w \<noteq> [] \<and> length w \<le> 255 \<and> CHR ''#'' \<notin> set w \<and> CHR 0x0A \<notin> set w \<and> (\<exists>a c. s = a @ w @ c)"

lemma word_of_suffix: "word_of w s \<Longrightarrow> word_of w (a @ s)"
  unfolding word_of_def by (metis append.assoc)

lemma split_line_words: "split_line j s = Some ws \<Longrightarrow> length ws \<le> j \<and> (\<forall>w \<in> set ws. word_of w s)"
proof (induction j s arbitrary: ws rule: split_line.induct)
  case (2 j s)
  show ?case
  proof (cases "at_end s \<or> word_len False 255 (skip_blanks s) = Some 0")
    case True
    then have "ws = []" using "2.prems" by (auto split: if_splits)
    then show ?thesis by simp
  next
    case False
    then obtain n us where n: "word_len False 255 (skip_blanks s) = Some n" "n \<noteq> 0" "split_line j (drop n (skip_blanks s)) = Some us"
      "ws = take n (skip_blanks s) # us" using "2.prems" by (auto split: option.splits if_splits)
    have s: "s = takeWhile (\<lambda>c. c = CHR '' '') s @ take n (skip_blanks s) @ drop n (skip_blanks s)" by (simp add: skip_blanks_def)
    have "n \<le> 255" "n \<le> length (skip_blanks s)" using word_len_bound [OF n(1)] by auto
    then have "word_of (take n (skip_blanks s)) s"
      unfolding word_of_def using word_len_chars [OF n(1)] n(2) s by (auto simp del: append_take_drop_id)
    moreover have "length us \<le> j \<and> (\<forall>w \<in> set us. word_of w (drop n (skip_blanks s)))"
      using "2.IH" n False by auto
    then have "\<forall>w \<in> set us. word_of w s" "length us \<le> j" using word_of_suffix s by (metis append.assoc)+
    ultimately show ?thesis using n(4) by simp
  qed
qed simp

text \<open>
  An argument vector: \<open>k\<close> pointers to terminated words of the line and then NULL.
\<close>

definition argv_ok :: "string option list \<Rightarrow> nat \<Rightarrow> string \<Rightarrow> bool" where
  "argv_ok l k s \<longleftrightarrow> k < 8 \<and> length l = Suc k \<and> l ! k = None \<and>
     (\<forall>i < k. \<exists>w. l ! i = Some w \<and> length w = 256 \<and> NUL \<in> set w \<and> word_of (cstr w) s)"

lemma argv_of_words:
  assumes "holds_words args ws" "length ws < 8" "\<forall>w \<in> set ws. word_of w s"
  shows "argv_ok (args @ [None]) (length ws) s"
proof -
  have "\<exists>w. (args @ [None]) ! i = Some w \<and> length w = 256 \<and> NUL \<in> set w \<and> word_of (cstr w) s" if "i < length ws" for i
  proof -
    have "\<exists>b. args ! i = Some b \<and> NUL \<in> set b \<and> cstr b = ws ! i \<and> length b = 256"
      using assms(1) that by (simp add: holds_words_def list_all2_conv_all_nth)
    moreover have "word_of (ws ! i) s" using assms(3) that by simp
    moreover have "(args @ [None]) ! i = args ! i" using that holds_words_length [OF assms(1)] by (simp add: nth_append)
    ultimately show ?thesis by auto
  qed
  then show ?thesis using assms(2) holds_words_length [OF assms(1)] by (simp add: argv_ok_def nth_append)
qed

text \<open>
  C20. Splitting a command line. On a terminated line, and with memory to be had, \<open>parse_cmds\<close> computes
  what the reference \<open>split_line\<close> does: it returns the words in order, followed by NULL, with their
  number; a quote in the middle of a word and eight or more words are reported and give NULL. It
  never reads or writes outside its buffers and always ends.
\<close>

theorem parse_cmds_splits:
  assumes "roomy E" "NUL \<in> set b"
  shows "\<exists>n. case split_line 8 (cstr b) of
      None \<Rightarrow> parse_cmds E (Some b) u = Inr (None, print_chars E (''error in parse_cmds: ugly input!'' @ [CHR 0x0A]) (u\<lparr>allocs := n\<rparr>))
    | Some ws \<Rightarrow>
        if length ws < 8 then \<exists>args. holds_words args ws \<and> parse_cmds E (Some b) u = Inr (Some (args @ [None], length ws), u\<lparr>allocs := n\<rparr>)
        else parse_cmds E (Some b) u = Inr (None, print_chars E (''error: too many arguments!'' @ [CHR 0x0A]) (u\<lparr>allocs := n\<rparr>))"
  by (rule parse_cmds_split [OF assms])

text \<open>
  C21. The argument vector is well-formed. Whatever the line, what \<open>parse_cmds\<close> returns is NULL or a
  vector of fewer than eight pointers and a final NULL, in which every pointer refers to a terminated,
  non-empty word of at most 255 characters that occurs in the line and holds no newline and no
  comment sign.
\<close>

theorem parse_cmds_argv:
  assumes "roomy E" "NUL \<in> set b"
  shows "\<exists>r v. parse_cmds E (Some b) u = Inr (r, v) \<and> (case r of None \<Rightarrow> True | Some (l, k) \<Rightarrow> argv_ok l k (cstr b))"
proof -
  obtain n where n: "case split_line 8 (cstr b) of
      None \<Rightarrow> parse_cmds E (Some b) u = Inr (None, print_chars E ugly (u\<lparr>allocs := n\<rparr>))
    | Some ws \<Rightarrow>
        if length ws < 8 then \<exists>args. holds_words args ws \<and> parse_cmds E (Some b) u = Inr (Some (args @ [None], length ws), u\<lparr>allocs := n\<rparr>)
        else parse_cmds E (Some b) u = Inr (None, print_chars E too_many (u\<lparr>allocs := n\<rparr>))"
    using parse_cmds_split [OF assms] by blast
  show ?thesis
  proof (cases "split_line 8 (cstr b)")
    case (Some ws)
    then show ?thesis using n argv_of_words [of _ ws "cstr b"] split_line_words [OF Some] by (cases "length ws < 8") auto
  qed (use n in auto)
qed

section \<open>Plain words\<close>

text \<open>Words without special characters, each with the number of blanks in front of it, as typed.\<close>

definition plain :: "string \<Rightarrow> bool" where
  "plain w \<longleftrightarrow> w \<noteq> [] \<and> length w \<le> 255 \<and> set w \<inter> {NUL, CHR 0x0A, CHR ''#'', CHR 0x22, CHR '' ''} = {}"

definition typed :: "(nat \<times> string) list \<Rightarrow> string" where
  "typed l = concat (map (\<lambda>(k, w). replicate k CHR '' '' @ w) l)"

definition typed_ok :: "(nat \<times> string) list \<Rightarrow> bool" where
  "typed_ok l \<longleftrightarrow> (\<forall>(k, w) \<in> set l. plain w) \<and> (\<forall>(k, w) \<in> set (tl l). 0 < k)"

definition word_end :: "string \<Rightarrow> bool" where
  "word_end s \<longleftrightarrow> s = [] \<or> hd s = CHR '' '' \<or> hd s = CHR ''#'' \<or> hd s = CHR 0x0A"

lemma word_len_plain:
  assumes "set w \<inter> {CHR 0x0A, CHR ''#'', CHR 0x22, CHR '' ''} = {}" "length w \<le> k" "word_end s"
  shows "word_len False k (w @ s) = Some (length w)"
  using assms
proof (induction w arbitrary: k)
  case Nil
  then show ?case by (cases k; cases s) (auto simp: word_end_def)
next
  case (Cons c w)
  then show ?case by (cases k) auto
qed

lemma skip_blanks_word: "plain w \<Longrightarrow> skip_blanks (replicate k CHR '' '' @ w @ s) = w @ s"
  by (cases w) (auto simp: skip_blanks_def plain_def dropWhile_append)

lemma split_line_end:
  assumes "at_end r"
  shows "split_line j (replicate m CHR '' '' @ r) = Some []"
proof (cases j)
  case (Suc i)
  have "skip_blanks (replicate m CHR '' '' @ r) = r"
    using assms by (cases r) (auto simp: skip_blanks_def at_end_def dropWhile_append)
  moreover have "word_len False 255 r = Some 0"
    using assms by (cases r) (auto simp: at_end_def eval_nat_numeral)
  ultimately show ?thesis using Suc by simp
qed simp

lemma split_line_typed:
  assumes "typed_ok l" "length l \<le> j" "at_end r"
  shows "split_line j (typed l @ replicate m CHR '' '' @ r) = Some (map snd l)"
  using assms(1,2)
proof (induction l arbitrary: j)
  case Nil
  then show ?case using split_line_end [OF assms(3)] by (simp add: typed_def)
next
  case (Cons x l)
  obtain k w where x: "x = (k, w)" by (cases x)
  obtain i where j: "j = Suc i" "length l \<le> i" using Cons.prems(2) by (cases j) auto
  have w: "plain w" using Cons.prems(1) x by (simp add: typed_ok_def)
  let ?s = "typed l @ replicate m CHR '' '' @ r"
  have ok: "typed_ok l" using Cons.prems(1) by (cases l) (auto simp: typed_ok_def)
  have s: "word_end ?s"
  proof (cases l)
    case Nil
    then show ?thesis using assms(3) by (cases m) (auto simp: typed_def word_end_def at_end_def)
  next
    case (Cons y l')
    then show ?thesis using Cons.prems(1) by (cases y; cases "fst y") (auto simp: typed_ok_def typed_def word_end_def)
  qed
  have t: "typed (x # l) @ replicate m CHR '' '' @ r = replicate k CHR '' '' @ w @ ?s" by (simp add: typed_def x)
  have "\<not> at_end (replicate k CHR '' '' @ w @ ?s)" using w by (cases k; cases w) (auto simp: at_end_def plain_def)
  moreover have "word_len False 255 (w @ ?s) = Some (length w)" by (rule word_len_plain) (use w s in \<open>auto simp: plain_def\<close>)
  moreover have "split_line i ?s = Some (map snd l)" by (rule Cons.IH [OF ok j(2)])
  ultimately show ?case using skip_blanks_word [OF w] w unfolding t j(1) by (simp add: x plain_def)
qed

lemma typed_no_NUL: "typed_ok l \<Longrightarrow> NUL \<notin> set (typed l)"
  by (auto simp: typed_ok_def typed_def plain_def)

text \<open>
  C22. Command lines round trip. Fewer than eight plain words, typed with any number of blanks between
  them, before the first and behind the last, and followed by the end of the line, a newline or a
  comment, come back from \<open>parse_cmds\<close> as exactly these words.
\<close>

theorem command_line_round_trip:
  assumes "roomy E" "typed_ok l" "length l < 8" "at_end r" "NUL \<notin> set r"
  shows "\<exists>n args. holds_words args (map snd l) \<and>
    parse_cmds E (Some (typed l @ replicate m CHR '' '' @ r @ NUL # junk)) u = Inr (Some (args @ [None], length l), u\<lparr>allocs := n\<rparr>)"
proof -
  let ?t = "typed l @ replicate m CHR '' '' @ r" and ?b = "typed l @ replicate m CHR '' '' @ r @ NUL # junk"
  have "NUL \<notin> set ?t" using typed_no_NUL [OF assms(2)] assms(5) by auto
  then have c: "cstr ?b = ?t" using cstr_append_NUL [of ?t junk] by simp
  have "split_line 8 (cstr ?b) = Some (map snd l)" unfolding c by (rule split_line_typed) (use assms in auto)
  then show ?thesis using parse_cmds_split [OF assms(1), of ?b u] assms(3) by auto
qed

section \<open>Examples\<close>

theorem parse_cmds_splits_witness:
  "\<exists>n args. holds_words args [''X='' @ [CHR 0x22] @ ''a b'' @ [CHR 0x22], ''c''] \<and>
     parse_cmds quiet_env (Some (''X='' @ [CHR 0x22] @ ''a b'' @ [CHR 0x22] @ ''  c'' @ [NUL])) \<lparr>allocs = 0, ukern = ()\<rparr>
       = Inr (Some (args @ [None], 2), \<lparr>allocs = n, ukern = ()\<rparr>)"
proof -
  let ?b = "''X='' @ [CHR 0x22] @ ''a b'' @ [CHR 0x22] @ ''  c'' @ [NUL]"
  have "split_line 8 (cstr ?b) = Some [''X='' @ [CHR 0x22] @ ''a b'' @ [CHR 0x22], ''c'']"
    by (simp add: eval_nat_numeral at_end_def skip_blanks_def)
  then show ?thesis using parse_cmds_splits [OF quiet_env_roomy, of ?b "\<lparr>allocs = 0, ukern = ()\<rparr>"] by auto
qed

theorem parse_cmds_argv_witness:
  "\<exists>r v. parse_cmds quiet_env (Some (''ls /bin'' @ [NUL])) \<lparr>allocs = 0, ukern = ()\<rparr> = Inr (r, v) \<and>
     (case r of None \<Rightarrow> True | Some (l, k) \<Rightarrow> argv_ok l k ''ls /bin'')"
proof -
  have "cstr (''ls /bin'' @ [NUL]) = ''ls /bin''" "NUL \<in> set (''ls /bin'' @ [NUL])" by simp_all
  then show ?thesis using parse_cmds_argv [OF quiet_env_roomy, of "''ls /bin'' @ [NUL]" "\<lparr>allocs = 0, ukern = ()\<rparr>"] by metis
qed

theorem command_line_round_trip_witness:
  "\<exists>n args. holds_words args [''cat'', ''readme''] \<and>
     parse_cmds quiet_env (Some (''cat  readme '' @ CHR ''#'' # ''x'' @ NUL # ''junk'')) \<lparr>allocs = 0, ukern = ()\<rparr> = Inr (Some (args @ [None], 2), \<lparr>allocs = n, ukern = ()\<rparr>)"
  using command_line_round_trip [OF quiet_env_roomy, of "[(0, ''cat''), (2, ''readme'')]" "CHR ''#'' # ''x''" 1 "''junk''" "\<lparr>allocs = 0, ukern = ()\<rparr>"]
  by (simp add: typed_ok_def plain_def at_end_def typed_def eval_nat_numeral)

end
