(* ===== verification/ShellVars.thy ===== *)
theory ShellVars
  imports ShellFiles "HOL-Library.Sublist"
begin

text \<open>
  The shell's variables as a finite map. An array of pointers to \<open>NAME=value\<close> strings stands for the
  list of these strings; \<open>lookup\<close> and \<open>put\<close> are the operations on the list, and \<open>get_var\<close> and
  \<open>set_var\<close> are shown to implement them.
\<close>

section \<open>Buffers\<close>

lemma strncpy_at_eq:
  assumes "NUL \<in> set s" "m = min n (length (cstr s))" "k + m < length b"
  shows "strncpy_at (Some b) k (Some s) n = Inr (Some (take k b @ take m (cstr s) @ NUL # drop (Suc (k + m)) b))"
  using assms strncpy_eq [OF assms(1,2), of "drop k b"]
  by (simp add: strncpy_at_def p_from_def add.commute)

lemma p_write_eq: "i < length b \<Longrightarrow> p_write (Some b) i c = Inr (Some (b[i := c]))"
  by (simp add: p_write_def c_write_def)

lemma update_after:
  assumes "length a = k" "k < length t"
  shows "(a @ drop k t)[k := c] = a @ c # drop (Suc k) t"
  using assms by (simp add: list_update_append Cons_nth_drop_Suc [OF assms(2), symmetric])

lemma copy_chars:
  assumes "n + k \<le> length v" "k \<le> length t"
  shows "rfold (\<lambda>j b. rbind (p_read (Some v) (n + j)) (\<lambda>c. p_write b j c)) [0..<k] (Some t) = Inr (Some (take k (drop n v) @ drop k t))"
  using assms
proof (induction k)
  case (Suc k)
  then have "p_read (Some v) (n + k) = Inr (v ! (n + k))" by (simp add: p_read_def c_read_def)
  moreover have "(take k (drop n v) @ drop k t)[k := v ! (n + k)] = take (Suc k) (drop n v) @ drop (Suc k) t"
    using Suc.prems update_after [of "take k (drop n v)" k t] by (simp add: take_Suc_conv_app_nth)
  ultimately show ?case using Suc by (simp add: p_write_eq)
qed simp

lemma size_t_nat: "n < 18446744073709551616 \<Longrightarrow> size_t (int n) = n"
  by (simp add: size_t_def nat_mod_distrib)

section \<open>The map\<close>

definition position :: "string list \<Rightarrow> string \<Rightarrow> nat" where
  "position es n = length (takeWhile (\<lambda>e. \<not> prefix n e) es)"

definition lookup :: "string list \<Rightarrow> string \<Rightarrow> string option" where
  "lookup es n = map_option (drop (length n)) (List.find (prefix n) es)"

definition put :: "string list \<Rightarrow> string \<Rightarrow> string \<Rightarrow> string list" where
  "put es n v = (if position es n < length es then es[position es n := n @ v] else es @ [n @ v])"

lemma position_Cons [simp]: "position (e # es) n = (if prefix n e then 0 else Suc (position es n))"
  by (simp add: position_def)

lemma position_Nil [simp]: "position [] n = 0"
  by (simp add: position_def)

lemma position_le: "position es n \<le> length es"
  by (induction es) auto

lemma lookup_position: "lookup es n = (if position es n < length es then Some (drop (length n) (es ! position es n)) else None)"
  by (induction es) (auto simp: lookup_def)

lemma position_prefix: "position es n < length es \<Longrightarrow> prefix n (es ! position es n)"
  by (induction es) auto

lemma put_Cons: "put (e # es) n v = (if prefix n e then (n @ v) # es else e # put es n v)"
  by (simp add: put_def)

lemma lookup_Cons: "lookup (e # es) n = (if prefix n e then Some (drop (length n) e) else lookup es n)"
  by (simp add: lookup_def)

lemma lookup_put: "lookup (put es n v) n = Some v"
  by (induction es) (simp_all add: put_Cons lookup_Cons, simp add: put_def lookup_def)

lemma lookup_put_other:
  assumes "\<not> prefix n m" "\<not> prefix m n"
  shows "lookup (put es n v) m = lookup es m"
proof (induction es)
  case Nil
  then show ?case using assms prefix_same_cases [of m "n @ v" n] by (auto simp: put_def lookup_def)
next
  case (Cons e es)
  have "\<not> prefix m (n @ v)" using assms prefix_same_cases [of m "n @ v" n] by auto
  moreover have "prefix n e \<Longrightarrow> \<not> prefix m e" using assms prefix_same_cases [of n e m] by auto
  ultimately show ?case using Cons by (auto simp: put_Cons lookup_Cons)
qed

section \<open>Arrays of variables\<close>

text \<open>
  An array holds the strings \<open>es\<close>: pointers to them, in order, and then either its end or a NULL.
\<close>

definition array_holds :: "string option list \<Rightarrow> string list \<Rightarrow> bool" where
  "array_holds a es \<longleftrightarrow> (\<exists>bs rest. a = map Some bs @ rest \<and> (rest \<noteq> [] \<longrightarrow> hd rest = None) \<and>
     (\<forall>b \<in> set bs. NUL \<in> set b) \<and> map cstr bs = es)"

lemma array_holds_ptr:
  assumes "array_holds a es" "i < length es"
  shows "\<exists>b. ptr_at (Some a) i = Inr (Some b) \<and> NUL \<in> set b \<and> cstr b = es ! i"
  using assms by (auto simp: array_holds_def ptr_at_def nth_append)

lemma array_holds_end:
  assumes "array_holds a es" "length es < length a"
  shows "ptr_at (Some a) (length es) = Inr None"
  using assms by (auto simp: array_holds_def ptr_at_def nth_append hd_conv_nth)

lemma take_prefix: "take (length n) n = take (length n) e \<longleftrightarrow> prefix n e"
  by (auto simp: prefix_def) (metis append_take_drop_id)

lemma strncmp_name:
  assumes "NUL \<in> set nm" "NUL \<in> set b"
  shows "\<exists>r. strncmp (Some nm) (Some b) (length (cstr nm)) = Inr r \<and> (r = 0 \<longleftrightarrow> prefix (cstr nm) (cstr b))"
proof -
  obtain r where "strncmp (Some nm) (Some b) (length (cstr nm)) = Inr r"
    using strncmp_loop_zero_iff [OF assms, of 0 "length (cstr nm)"] by (auto simp: strncmp_def)
  then show ?thesis using strncmp_zero_iff [OF assms, of "length (cstr nm)"] take_prefix [of "cstr nm" "cstr b"] by auto
qed

lemma find_var_position:
  assumes a: "array_holds a es" and m: "length es \<le> m" "length es < m \<Longrightarrow> length es < length a" and nm: "NUL \<in> set nm" and i: "i \<le> length es"
  shows "find_var m (Some a) (Some nm) (length (cstr nm)) i = Inr (i + position (drop i es) (cstr nm))"
  using i
proof (induction "length es - i" arbitrary: i)
  case 0
  then have "i = length es" by simp
  then show ?case using array_holds_end [OF a] m by (subst find_var.simps) auto
next
  case (Suc k)
  then have i: "i < length es" "i < m" using m by auto
  obtain b where b: "ptr_at (Some a) i = Inr (Some b)" "NUL \<in> set b" "cstr b = es ! i" using array_holds_ptr [OF a i(1)] by blast
  obtain r where r: "strncmp (Some nm) (Some b) (length (cstr nm)) = Inr r" "r = 0 \<longleftrightarrow> prefix (cstr nm) (cstr b)"
    using strncmp_name [OF nm b(2)] by blast
  have d: "drop i es = es ! i # drop (Suc i) es" using i(1) by (simp add: Cons_nth_drop_Suc)
  show ?case using Suc.hyps(1) [of "Suc i"] Suc.hyps(2) i b r d by (subst find_var.simps) auto
qed

text \<open>\<open>get_var\<close> on an array with a NULL at its end.\<close>

lemma get_var_lookup:
  assumes E: "roomy E" and a: "array_holds a es" "length es < length a" "length es < 256"
    and nm: "NUL \<in> set nm" "length (cstr nm) \<le> 2048"
  shows "\<exists>r. get_var E (Some a) (Some nm) u = Inr (r, u\<lparr>allocs := Suc (allocs u)\<rparr>) \<and>
    (case lookup es (cstr nm) of None \<Rightarrow> r = None
     | Some v \<Rightarrow> \<exists>b. r = Some b \<and> length b = 2048 \<and> NUL \<in> set b \<and> cstr b = take 2047 v)"
proof -
  obtain t where t: "new_buffer E 2048 u = (Some t, u\<lparr>allocs := Suc (allocs u)\<rparr>)" "length t = 2048" by (rule roomyE [OF E])
  let ?n = "cstr nm" and ?i = "position es (cstr nm)"
  have n: "nat (c_min (int (length ?n)) 2048) = length ?n" using nm(2) by (simp add: c_min_def)
  have f: "find_var 256 (Some a) (Some nm) (length ?n) 0 = Inr ?i" using find_var_position [OF a(1) _ _ nm(1), of 256 0] a by simp
  note start = get_var_def strlen_Some
  show ?thesis
  proof (cases "?i < length es")
    case False
    then have "?i = length es" using position_le [of es ?n] by simp
    then show ?thesis using t f n nm array_holds_end [OF a(1,2)] False by (simp add: start lookup_position)
  next
    case True
    obtain b where b: "ptr_at (Some a) ?i = Inr (Some b)" "NUL \<in> set b" "cstr b = es ! ?i" using array_holds_ptr [OF a(1) True] by blast
    have p: "prefix ?n (cstr b)" using position_prefix [OF True] b(3) by simp
    then have r: "strncmp (Some nm) (Some b) (length ?n) = Inr 0" using strncmp_name [OF nm(1) b(2)] by auto
    define k where "k = min (length (cstr b) - length ?n) 2047"
    have pl: "length ?n \<le> length (cstr b)" "length (cstr b) < length b" using p prefix_length_le length_cstr_less [OF b(2)] by auto
    have k: "c_min (int (length (cstr b)) - int (length ?n)) 2047 = int k" "k \<le> 2047" "length ?n + k \<le> length b" "k \<le> length (drop (length ?n) (cstr b))"
      using pl by (auto simp: c_min_def k_def)
    have c: "take k (drop (length ?n) b) = take 2047 (drop (length ?n) (cstr b))"
    proof -
      have "take k (drop (length ?n) b) = drop (length ?n) (take (length ?n + k) b)" by (simp add: drop_take)
      also have "take (length ?n + k) b = take (length ?n + k) (cstr b)"
        by (rule nth_equalityI) (use k pl in \<open>auto simp: nth_cstr\<close>)
      also have "drop (length ?n) \<dots> = take 2047 (drop (length ?n) (cstr b))" by (simp add: drop_take k_def min_def)
      finally show ?thesis .
    qed
    let ?w = "take k (drop (length ?n) b) @ NUL # drop (Suc k) t"
    have w: "p_write (Some (take k (drop (length ?n) b) @ drop k t)) (size_t (int k)) NUL = Inr (Some ?w)"
      using k t(2) update_after [of "take k (drop (length ?n) b)" k t] by (simp add: p_write_eq size_t_nat)
    have "get_var E (Some a) (Some nm) u = Inr (Some ?w, u\<lparr>allocs := Suc (allocs u)\<rparr>)"
      using t f n nm b(1,2) r k(1) w copy_chars [OF k(3), of t] k(2) t(2) by (simp add: start)
    moreover have "cstr ?w = take 2047 (drop (length ?n) (cstr b))"
      unfolding c using NUL_notin_cstr [of b] by (intro cstr_append_NUL) (meson in_set_dropD in_set_takeD)
    ultimately show ?thesis using True b(3) t(2) k by (auto simp: lookup_position min_def)
  qed
qed

text \<open>The shell's own array has eight places; the unused ones hold NULL.\<close>

definition shell_vars :: "ptrs \<Rightarrow> string list \<Rightarrow> bool" where
  "shell_vars l es \<longleftrightarrow> (\<exists>bs. l = Some (map Some bs @ replicate (8 - length bs) None) \<and> length bs \<le> 8 \<and>
     (\<forall>b \<in> set bs. NUL \<in> set b) \<and> map cstr bs = es)"

lemma shell_vars_array:
  assumes "shell_vars l es"
  obtains a where "l = Some a" "array_holds a es" "length a = 8" "length es \<le> 8"
proof -
  obtain bs where bs: "l = Some (map Some bs @ replicate (8 - length bs) None)" "length bs \<le> 8"
      "\<forall>b \<in> set bs. NUL \<in> set b" "map cstr bs = es"
    using assms by (auto simp: shell_vars_def)
  have "array_holds (map Some bs @ replicate (8 - length bs) None) es"
    unfolding array_holds_def using bs by (intro exI [of _ bs] exI [of _ "replicate (8 - length bs) None"]) (auto simp: hd_replicate)
  then show ?thesis using that [OF bs(1)] bs by auto
qed

lemma shell_vars_store:
  assumes "shell_vars l es" "position es n < 8" "NUL \<in> set e" "cstr e = n @ v"
  shows "\<exists>l'. ptr_set l (position es n) (Some e) = Inr l' \<and> shell_vars l' (put es n v)"
proof -
  obtain bs where bs: "l = Some (map Some bs @ replicate (8 - length bs) None)" "length bs \<le> 8"
      "\<forall>b \<in> set bs. NUL \<in> set b" "map cstr bs = es"
    using assms(1) by (auto simp: shell_vars_def)
  let ?i = "position es n"
  have len: "length es = length bs" using bs(4) by auto
  have set: "ptr_set l ?i (Some e) = Inr (Some ((map Some bs @ replicate (8 - length bs) None)[?i := Some e]))"
    using assms(2) bs(1,2) by (simp add: ptr_set_def)
  show ?thesis
  proof (cases "?i < length es")
    case True
    then have "(map Some bs @ replicate (8 - length bs) None)[?i := Some e] = map Some (bs[?i := e]) @ replicate (8 - length (bs[?i := e])) None"
      by (simp add: list_update_append len map_update)
    moreover have "map cstr (bs[?i := e]) = put es n v" using True bs(4) assms(4) by (simp add: put_def map_update)
    moreover have "\<forall>b \<in> set (bs[?i := e]). NUL \<in> set b" using bs(3) assms(3) set_update_subset_insert [of bs ?i e] by auto
    ultimately show ?thesis using set bs(2) by (auto simp: shell_vars_def intro!: exI [of _ "bs[?i := e]"])
  next
    case False
    then have i: "?i = length bs" "length bs < 8" using position_le [of es n] assms(2) len by auto
    obtain k where k: "8 - length bs = Suc k" "8 - length (bs @ [e]) = k" using i(2) by (metis Suc_diff_Suc length_append_singleton)
    have "(map Some bs @ replicate (8 - length bs) None)[?i := Some e] = map Some (bs @ [e]) @ replicate (8 - length (bs @ [e])) None"
      unfolding k by (simp add: list_update_append i(1))
    moreover have "map cstr (bs @ [e]) = put es n v" using False bs(4) assms(4) by (simp add: put_def)
    moreover have "\<forall>b \<in> set (bs @ [e]). NUL \<in> set b" using bs(3) assms(3) by auto
    ultimately show ?thesis using set i(2) by (auto simp: shell_vars_def intro!: exI [of _ "bs @ [e]"])
  qed
qed

lemma set_var_put:
  assumes E: "roomy E" and l: "shell_vars l es" and nm: "NUL \<in> set nm" and val: "NUL \<in> set val"
    and len: "length (cstr nm) + length (cstr val) < 2048"
  shows "if position es (cstr nm) < 8
    then \<exists>l'. set_var E l (Some nm) (Some val) u = Inr (l', u\<lparr>allocs := Suc (allocs u)\<rparr>) \<and> shell_vars l' (put es (cstr nm) (cstr val))
    else set_var E l (Some nm) (Some val) u = Inr (l, print_chars E ''error in set_var: no more room for new shell variables!'' (u\<lparr>allocs := Suc (allocs u)\<rparr>))"
proof -
  obtain t where t: "new_buffer E 2048 u = (Some t, u\<lparr>allocs := Suc (allocs u)\<rparr>)" "length t = 2048" by (rule roomyE [OF E])
  obtain a where a: "l = Some a" "array_holds a es" "length a = 8" "length es \<le> 8" by (rule shell_vars_array [OF l])
  let ?n = "cstr nm" and ?v = "cstr val"
  have n: "c_min (int (length ?n)) 2047 = int (length ?n)" "c_min (int (length ?v)) (2048 - int (length ?n) - 1) = int (length ?v)"
    using len by (auto simp: c_min_def)
  let ?e1 = "?n @ NUL # drop (Suc (length ?n)) t"
  have s1: "strncpy_at (Some t) 0 (Some nm) (length ?n) = Inr (Some ?e1)"
    using strncpy_at_eq [OF nm refl, of 0 "length ?n" t] len t(2) by simp
  define e where "e = (?n @ ?v) @ NUL # drop (Suc (length ?n + length ?v)) t"
  have s2: "strncpy_at (Some ?e1) (length ?n) (Some val) (length ?v) = Inr (Some e)"
    using strncpy_at_eq [OF val refl, of "length ?n" "length ?v" ?e1] len t(2) by (simp add: e_def add.commute)
  have "e[length (?n @ ?v) := NUL] = e" unfolding e_def by (subst list_update_length) (rule refl)
  then have s3: "p_write (Some e) (length ?n + length ?v) NUL = Inr (Some e)" using len t(2) by (simp add: p_write_eq e_def)
  have "NUL \<notin> set (?n @ ?v)" using NUL_notin_cstr by auto
  then have e: "NUL \<in> set e" "cstr e = ?n @ ?v" unfolding e_def by (simp, rule cstr_append_NUL)
  have f: "find_var 8 l (Some nm) (length ?n) 0 = Inr (position es ?n)"
    using find_var_position [OF a(2) a(4) _ nm, of 0] a(1,3) by simp
  show ?thesis
  proof (cases "position es ?n < 8")
    case True
    then obtain l' where "ptr_set l (position es ?n) (Some e) = Inr l'" "shell_vars l' (put es ?n ?v)"
      using shell_vars_store [OF l True e] by blast
    then show ?thesis using True t nm val n s1 s2 s3 f by (simp add: set_var_def strlen_Some)
  next
    case False
    then have "position es ?n = 8" using position_le [of es ?n] a(4) by simp
    then show ?thesis using t nm val n s1 s2 s3 f by (simp add: set_var_def strlen_Some say_plain)
  qed
qed

text \<open>
  C23. Shell variables round trip. As long as the array has room, what \<open>set_var\<close> stores under a name is
  what \<open>get_var\<close> finds under it afterwards, and every other name still gives what it gave before.
\<close>

theorem variables_round_trip:
  assumes "roomy E" "shell_vars l es" "NUL \<in> set nm" "NUL \<in> set val" "length (cstr nm) + length (cstr val) < 2048"
    and "length (put es (cstr nm) (cstr val)) < 8"
  shows "\<exists>l'. set_var E l (Some nm) (Some val) u = Inr (l', u\<lparr>allocs := Suc (allocs u)\<rparr>) \<and>
    shell_vars l' (put es (cstr nm) (cstr val)) \<and>
    (\<forall>u'. \<exists>b. get_var E l' (Some nm) u' = Inr (Some b, u'\<lparr>allocs := Suc (allocs u')\<rparr>) \<and> cstr b = cstr val) \<and>
    (\<forall>m u'. NUL \<in> set m \<longrightarrow> length (cstr m) \<le> 2048 \<longrightarrow> \<not> prefix (cstr m) (cstr nm) \<longrightarrow> \<not> prefix (cstr nm) (cstr m) \<longrightarrow>
       (\<exists>r. get_var E l' (Some m) u' = Inr (r, u'\<lparr>allocs := Suc (allocs u')\<rparr>) \<and> map_option cstr r = map_option (take 2047) (lookup es (cstr m))))"
proof -
  let ?es = "put es (cstr nm) (cstr val)"
  have "position es (cstr nm) < 8" using assms(6) position_le [of es "cstr nm"] by (simp add: put_def split: if_splits)
  then obtain l' where l': "set_var E l (Some nm) (Some val) u = Inr (l', u\<lparr>allocs := Suc (allocs u)\<rparr>)" "shell_vars l' ?es"
    using set_var_put [OF assms(1-5), of u] by auto
  obtain a where a: "l' = Some a" "array_holds a ?es" "length a = 8" by (rule shell_vars_array [OF l'(2)])
  have g: "\<exists>r. get_var E l' (Some m) u' = Inr (r, u'\<lparr>allocs := Suc (allocs u')\<rparr>) \<and> map_option cstr r = map_option (take 2047) (lookup ?es (cstr m))"
    if "NUL \<in> set m" "length (cstr m) \<le> 2048" for m u'
    using get_var_lookup [OF assms(1) a(2) _ _ that, of u'] a(1,3) assms(6) by (auto split: option.splits)
  have "\<exists>b. get_var E l' (Some nm) u' = Inr (Some b, u'\<lparr>allocs := Suc (allocs u')\<rparr>) \<and> cstr b = cstr val" for u'
    using g [OF assms(3), of u'] assms(5) by (auto simp: lookup_put)
  then show ?thesis using l' g lookup_put_other by metis
qed

definition vars_example :: ptrs where
  "vars_example = Some ([Some (''PATH=/bin/:/lib/'' @ [NUL]), Some (''PS1=x'' @ [NUL])] @ replicate 6 None)"

lemma vars_example_holds: "shell_vars vars_example [''PATH=/bin/:/lib/'', ''PS1=x'']"
  unfolding shell_vars_def vars_example_def
  by (intro exI [of _ "[''PATH=/bin/:/lib/'' @ [NUL], ''PS1=x'' @ [NUL]]"]) simp

theorem variables_round_trip_witness:
  "\<exists>l'. set_var quiet_env vars_example (lit ''PS1='') (lit ''> '') \<lparr>allocs = 5, ukern = ()\<rparr> = Inr (l', \<lparr>allocs = 6, ukern = ()\<rparr>) \<and>
     shell_vars l' [''PATH=/bin/:/lib/'', ''PS1=> '']"
proof -
  have p: "put [''PATH=/bin/:/lib/'', ''PS1=x''] (cstr (''PS1='' @ [NUL])) (cstr (''> '' @ [NUL])) = [''PATH=/bin/:/lib/'', ''PS1=> '']"
    by (simp add: put_def position_def)
  show ?thesis
    using variables_round_trip [OF quiet_env_roomy vars_example_holds, of "''PS1='' @ [NUL]" "''> '' @ [NUL]" "\<lparr>allocs = 5, ukern = ()\<rparr>"]
    unfolding p lit_def by auto
qed

end
