(* ===== verification/ShellPath.thy ===== *)
theory ShellPath
  imports ShellVars Sbush
begin

text \<open>
  Finding a program: \<open>locate_executable_file\<close> tries the name itself and then the name in each
  directory of the search path, in order.
\<close>

section \<open>Positions in a string\<close>

lemma drop_terminated:
  assumes "NUL \<in> set b" "p \<le> length (cstr b)"
  shows "NUL \<in> set (drop p b)" "cstr (drop p b) = drop p (cstr b)" "p_from (Some b) p = Inr (Some (drop p b))"
proof -
  have "NUL \<in> set (drop p b) \<and> cstr (drop p b) = drop p (cstr b)"
    using assms by (induction b arbitrary: p) (auto simp: drop_Cons' split: if_splits)
  then show "NUL \<in> set (drop p b)" "cstr (drop p b) = drop p (cstr b)" by auto
  show "p_from (Some b) p = Inr (Some (drop p b))" using length_cstr_less [OF assms(1)] assms(2) by (simp add: p_from_def)
qed

lemma strchr_terminated:
  assumes "NUL \<in> set b" "c \<noteq> NUL" "cstr b = x @ y" "c \<notin> set x"
  shows "y = [] \<Longrightarrow> strchr (Some b) c = Inr None" "y = c # z \<Longrightarrow> strchr (Some b) c = Inr (Some (length x))"
proof -
  have n: "k < length (cstr b) \<Longrightarrow> b ! k = (x @ y) ! k" for k using nth_cstr [of k b] assms(3) by simp
  have s: "strchr (Some b) c = Inr (List.find (\<lambda>k. b ! k = c) [0..<Suc (length (cstr b))])"
    using strchr_from_eq [OF assms(1), of 0 c] by (simp add: strchr_def)
  have x: "k < length x \<Longrightarrow> b ! k \<noteq> c" for k using n [of k] assms(3,4) nth_mem [of k x] by (auto simp: nth_append)
  show "strchr (Some b) c = Inr None" if "y = []"
  proof -
    have "b ! k \<noteq> c" if "k < Suc (length (cstr b))" for k
      using that x [of k] \<open>y = []\<close> assms(2,3) nth_length_cstr [OF assms(1)] by (cases "k = length (cstr b)") auto
    then have "List.find (\<lambda>k. b ! k = c) [0..<Suc (length (cstr b))] = None" unfolding find_upt_None by blast
    then show ?thesis using s by simp
  qed
  show "strchr (Some b) c = Inr (Some (length x))" if "y = c # z"
  proof -
    have "b ! length x = c" using n [of "length x"] assms(3) that by simp
    then have "List.find (\<lambda>k. b ! k = c) [0..<Suc (length (cstr b))] = Some (length x)"
      unfolding find_upt_Some using x assms(3) that by simp
    then show ?thesis using s by simp
  qed
qed

section \<open>Directories and candidates\<close>

text \<open>The last directory always gets another slash, also if it ends in one.\<close>

definition in_dir :: "string \<Rightarrow> string \<Rightarrow> string" where
  "in_dir d f = d @ (if last d = CHR ''/'' then [] else ''/'') @ f"

definition candidates :: "string list \<Rightarrow> string \<Rightarrow> string list" where
  "candidates ds f = map (\<lambda>d. in_dir d f) (butlast ds) @ [last ds @ ''/'' @ f]"

fun path_text :: "string list \<Rightarrow> string" where
  "path_text [] = []"
| "path_text [d] = d"
| "path_text (d # e # ds) = d @ CHR '':'' # path_text (e # ds)"

definition dirs_ok :: "string list \<Rightarrow> bool" where
  "dirs_ok ds \<longleftrightarrow> ds \<noteq> [] \<and> (\<forall>d \<in> set ds. d \<noteq> [] \<and> CHR '':'' \<notin> set d)"

lemma join_path_eq:
  assumes b: "length b = 2048" and s: "NUL \<in> set s" "cstr s = d @ r" and d: "d \<noteq> []" and f: "NUL \<in> set f"
    and len: "length d + length (cstr f) + 1 < 2048"
  shows "\<exists>c. join_path (Some b) (Some s) (int (length d)) (Some f) (length (cstr f)) = Inr (Some c) \<and>
    length c = 2048 \<and> NUL \<in> set c \<and> cstr c = in_dir d (cstr f)"
proof -
  let ?d = "length d" and ?f = "cstr f"
  define b1 where "b1 = d @ NUL # drop (Suc ?d) b"
  have s1: "strncpy_at (Some b) 0 (Some s) (size_t (int ?d)) = Inr (Some b1)"
    using strncpy_at_eq [OF s(1) refl, of 0 ?d b] s(2) b len by (simp add: size_t_nat b1_def min_def)
  have i: "size_t (int ?d - 1) = ?d - 1" using d len size_t_nat [of "?d - 1"] by (cases d) auto
  have l1: "length b1 = 2048" using b len by (simp add: b1_def)
  have rd: "p_read (Some b1) (?d - 1) = Inr (last d)" using d l1 len
    by (simp add: p_read_def c_read_def b1_def nth_append last_conv_nth)
  have st: "size_t (int ?d + 1) = ?d + 1" "size_t (int ?d + 1 + int (length ?f)) = ?d + 1 + length ?f" "size_t (int ?d + int (length ?f)) = ?d + length ?f"
    "size_t (int ?d) = ?d"
    using len size_t_nat [of "?d + 1"] size_t_nat [of "?d + 1 + length ?f"] size_t_nat [of "?d + length ?f"] size_t_nat [of ?d] by (simp_all add: ac_simps)
  show ?thesis
  proof (cases "last d = CHR ''/''")
    case True
    define c where "c = (d @ ?f) @ NUL # drop (Suc (?d + length ?f)) b1"
    have "strncpy_at (Some b1) ?d (Some f) (length ?f) = Inr (Some c)"
      using strncpy_at_eq [OF f refl, of ?d "length ?f" b1] l1 len by (simp add: c_def b1_def)
    moreover have "c[length (d @ ?f) := NUL] = c" unfolding c_def by (subst list_update_length) (rule refl)
    moreover have "length c = 2048" using l1 len by (simp add: c_def)
    moreover have "cstr c = d @ ?f" unfolding c_def
      by (rule cstr_append_NUL) (use NUL_notin_cstr [of s] NUL_notin_cstr [of f] s(2) in auto)
    ultimately show ?thesis using s1 rd True st i len by (simp add: join_path_def p_write_eq in_dir_def c_def)
  next
    case False
    define b2 where "b2 = d @ CHR ''/'' # drop (Suc ?d) b"
    have w: "p_write (Some b1) ?d CHR ''/'' = Inr (Some b2)" using l1 len by (simp add: p_write_eq b1_def b2_def)
    have l2: "length b2 = 2048" using b len by (simp add: b2_def)
    define c where "c = (d @ CHR ''/'' # ?f) @ NUL # drop (Suc (?d + 1 + length ?f)) b2"
    have "strncpy_at (Some b2) (?d + 1) (Some f) (length ?f) = Inr (Some c)"
      using strncpy_at_eq [OF f refl, of "?d + 1" "length ?f" b2] l2 len by (simp add: c_def b2_def)
    moreover have "c[length (d @ CHR ''/'' # ?f) := NUL] = c" unfolding c_def by (subst list_update_length) (rule refl)
    moreover have "length c = 2048" using l2 len by (simp add: c_def)
    moreover have "cstr c = d @ CHR ''/'' # ?f" unfolding c_def
      by (rule cstr_append_NUL) (use NUL_notin_cstr [of s] NUL_notin_cstr [of f] s(2) in auto)
    ultimately show ?thesis using s1 rd w False st i len by (simp add: join_path_def p_write_eq in_dir_def c_def)
  qed
qed

section \<open>The loop\<close>

text \<open>
  What \<open>open\<close> answers in the kernel state \<open>k\<close>, for the names in \<open>ns\<close>: those that \<open>ex\<close> holds for get a
  descriptor, the others an error, which leaves the kernel as it was.
\<close>

definition files :: "'k environment \<Rightarrow> string set \<Rightarrow> (string \<Rightarrow> bool) \<Rightarrow> 'k \<Rightarrow> bool" where
  "files E ns ex k \<longleftrightarrow> (\<forall>p. NUL \<in> set p \<longrightarrow> cstr p \<in> ns \<longrightarrow>
     (if ex (cstr p) then 0 \<le> fst (en_open E (Some p) 0 k) else fst (en_open E (Some p) 0 k) < 0 \<and> snd (en_open E (Some p) 0 k) = k))"

definition after_open :: "'k environment \<Rightarrow> string \<Rightarrow> 'k user \<Rightarrow> 'k user" where
  "after_open E p u = u\<lparr>ukern := snd (en_open E (Some p) 0 (ukern u))\<rparr>"

lemma does_file_exist_eq:
  assumes "files E ns ex (ukern u)" "NUL \<in> set p" "cstr p \<in> ns"
  shows "does_file_exist E (Some p) u = (ex (cstr p), if ex (cstr p) then after_open E p u else u)"
proof -
  obtain fd k where e: "en_open E (Some p) 0 (ukern u) = (fd, k)" by (cases "en_open E (Some p) 0 (ukern u)")
  then have "if ex (cstr p) then 0 \<le> fd else fd < 0 \<and> k = ukern u" using assms by (auto simp: files_def)
  then show ?thesis using e by (auto simp: does_file_exist_def open_file_def after_open_def split: if_splits)
qed

lemma path_text_Cons: "ds \<noteq> [] \<Longrightarrow> path_text (d # ds) = d @ CHR '':'' # path_text ds"
  by (cases ds) auto

text \<open>The first directory of a path of several: where it ends, and what is left.\<close>

lemma first_dir:
  assumes P: "NUL \<in> set P" "pre \<le> length (cstr P)" "drop pre (cstr P) = path_text (d # ds)" and d: "CHR '':'' \<notin> set d" and ds: "ds \<noteq> []"
  shows "strchr (Some (drop pre P)) CHR '':'' = Inr (Some (length d))" "cstr (drop pre P) = d @ CHR '':'' # path_text ds"
    "pre + length d + 1 \<le> length (cstr P)" "drop (pre + length d + 1) (cstr P) = path_text ds"
    "p_from (Some P) (pre + length d) = Inr (Some (drop (pre + length d) P))"
    "strlen (Some (drop (pre + length d) P)) = Inr (Suc (length (path_text ds)))"
proof -
  note dp = drop_terminated [OF P(1,2)]
  show tx: "cstr (drop pre P) = d @ CHR '':'' # path_text ds" using dp(2) P(3) path_text_Cons [OF ds] by simp
  show "strchr (Some (drop pre P)) CHR '':'' = Inr (Some (length d))" using strchr_terminated(2) [OF dp(1) _ tx d] by simp
  have "length (cstr P) - pre = length d + 1 + length (path_text ds)" using arg_cong [OF tx, of length] dp(2) by simp
  then show le: "pre + length d + 1 \<le> length (cstr P)" using P(2) by linarith
  have dr: "drop (length d + pre) (cstr P) = CHR '':'' # path_text ds"
    unfolding drop_drop [symmetric] using tx dp(2) by simp
  then have "drop (1 + (length d + pre)) (cstr P) = path_text ds" unfolding drop_drop [symmetric] by simp
  then show "drop (pre + length d + 1) (cstr P) = path_text ds" by (simp add: ac_simps)
  have "pre + length d \<le> length (cstr P)" using le by simp
  note dq = drop_terminated [OF P(1) this]
  show "p_from (Some P) (pre + length d) = Inr (Some (drop (pre + length d) P))" by (rule dq(3))
  show "strlen (Some (drop (pre + length d) P)) = Inr (Suc (length (path_text ds)))" using dq dr by (simp add: strlen_Some add.commute)
qed

lemma locate_loop_finds:
  assumes P: "NUL \<in> set P" and f: "NUL \<in> set f"
    and "files E ns ex (ukern u)" "(\<lambda>d. in_dir d (cstr f)) ` set (butlast ds) \<subseteq> ns"
    and "dirs_ok ds" "pre \<le> length (cstr P)" "drop pre (cstr P) = path_text ds" "length (path_text ds) + length (cstr f) + 1 < 2047" "length b = 2048"
  shows "case List.find ex (map (\<lambda>d. in_dir d (cstr f)) (butlast ds)) of
      Some c \<Rightarrow> \<exists>b'. locate_loop E (Some P) pre (int (length (path_text ds))) (Some b) (Some f) u = Inr (Returns_Path (Some b'), after_open E b' u) \<and> NUL \<in> set b' \<and> cstr b' = c
    | None \<Rightarrow> \<exists>q b'. locate_loop E (Some P) pre (int (length (path_text ds))) (Some b) (Some f) u = Inr (Left q (int (length (last ds))) (Some b'), u) \<and>
        length b' = 2048 \<and> q \<le> length (cstr P) \<and> drop q (cstr P) = last ds"
  using assms(4-)
proof (induction ds arbitrary: pre b)
  case Nil
  then show ?case by (simp add: dirs_ok_def)
next
  case (Cons d ds)
  note dp = drop_terminated [OF P Cons.prems(3)]
  have d: "d \<noteq> []" "CHR '':'' \<notin> set d" using Cons.prems(2) by (auto simp: dirs_ok_def)
  note loop = locate_loop.simps [of E "Some P" pre]
  show ?case
  proof (cases "ds = []")
    case True
    then have "strchr (Some (drop pre P)) CHR '':'' = Inr None"
      using strchr_terminated(1) [OF dp(1), of "CHR '':''" d "[]"] dp(2) Cons.prems(4) d(2) by simp
    then show ?thesis using True Cons.prems dp(3) by (auto simp: loop)
  next
    case False
    let ?k = "length d" and ?s = "Some (drop pre P)"
    note fd = first_dir [OF P Cons.prems(3,4) d(2) False]
    have len: "?k + length (cstr f) + 1 < 2047" "length (path_text (d # ds)) = ?k + 1 + length (path_text ds)"
      using Cons.prems(5) path_text_Cons [OF False, of d] by simp_all
    obtain c where c: "join_path (Some b) ?s (int ?k) (Some f) (length (cstr f)) = Inr (Some c)" "length c = 2048" "NUL \<in> set c" "cstr c = in_dir d (cstr f)"
      using join_path_eq [OF Cons.prems(6) dp(1) fd(2) d(1) f] len(1) by auto
    have "in_dir d (cstr f) \<in> ns" using Cons.prems(1) False by auto
    then have v: "does_file_exist E (Some c) u = (ex (in_dir d (cstr f)), if ex (in_dir d (cstr f)) then after_open E c u else u)"
      using does_file_exist_eq [OF assms(3) c(3)] c(4) by simp
    have pos: "int (length (path_text (d # ds))) - int (Suc (length (path_text ds))) = int ?k" using len(2) by simp
    have step: "locate_loop E (Some P) pre (int (length (path_text (d # ds)))) (Some b) (Some f) u =
      (if ex (in_dir d (cstr f)) then Inr (Returns_Path (Some c), after_open E c u) else locate_loop E (Some P) (pre + ?k + 1) (int (length (path_text ds))) (Some c) (Some f) u)"
      using fd(1,5,6) c(1) v dp(3) len f pos d path_text_Cons [OF False, of d] by (subst loop) (simp add: strlen_Some)
    have ok: "dirs_ok ds" using Cons.prems(2) False by (simp add: dirs_ok_def)
    have sub: "(\<lambda>d. in_dir d (cstr f)) ` set (butlast ds) \<subseteq> ns" using Cons.prems(1) False by auto
    have bl: "butlast (d # ds) = d # butlast ds" "last (d # ds) = last ds" using False by simp_all
    show ?thesis
    proof (cases "ex (in_dir d (cstr f))")
      case True
      then show ?thesis using step bl c by simp
    next
      case False
      have "length (path_text ds) + length (cstr f) + 1 < 2047" using Cons.prems(5) len(2) by simp
      note IH = Cons.IH [OF sub ok fd(3,4) this c(2)]
      have "locate_loop E (Some P) pre (int (length (path_text (d # ds)))) (Some b) (Some f) u =
        locate_loop E (Some P) (pre + ?k + 1) (int (length (path_text ds))) (Some c) (Some f) u" using step False by (simp only: if_False)
      moreover have "List.find ex (map (\<lambda>d. in_dir d (cstr f)) (butlast (d # ds))) = List.find ex (map (\<lambda>d. in_dir d (cstr f)) (butlast ds))"
        unfolding bl(1) using False by simp
      ultimately show ?thesis using IH unfolding bl(2) by (simp only:)
    qed
  qed
qed

section \<open>The search\<close>

lemma find_snoc: "List.find P (xs @ [x]) = (case List.find P xs of None \<Rightarrow> if P x then Some x else None | Some c \<Rightarrow> Some c)"
  by (induction xs) auto

lemma put_last_dir:
  assumes b: "length b = 2048" and s: "NUL \<in> set s" and f: "NUL \<in> set f" and len: "length (cstr s) + length (cstr f) + 1 < 2047"
  shows "\<exists>b1 b2 b3. strncpy_at (Some b) 0 (Some s) (length (cstr s)) = Inr (Some b1) \<and> p_write (Some b1) (length (cstr s)) CHR ''/'' = Inr (Some b2) \<and>
    strncpy_at (Some b2) (length (cstr s) + 1) (Some f) (length (cstr f)) = Inr (Some b3) \<and>
    p_write (Some b3) (length (cstr s) + 1 + length (cstr f)) NUL = Inr (Some b3) \<and> NUL \<in> set b3 \<and> cstr b3 = cstr s @ ''/'' @ cstr f"
proof -
  let ?d = "cstr s" and ?f = "cstr f"
  define b1 where "b1 = ?d @ NUL # drop (Suc (length ?d)) b"
  define b2 where "b2 = ?d @ CHR ''/'' # drop (Suc (length ?d)) b"
  define b3 where "b3 = (?d @ CHR ''/'' # ?f) @ NUL # drop (Suc (length ?d + 1 + length ?f)) b2"
  have l: "length b1 = 2048" "length b2 = 2048" using b len by (auto simp: b1_def b2_def)
  then have l3: "length b3 = 2048" using len by (simp add: b3_def)
  have "strncpy_at (Some b) 0 (Some s) (length ?d) = Inr (Some b1)" using strncpy_at_eq [OF s refl, of 0 "length ?d" b] b len by (simp add: b1_def)
  moreover have "p_write (Some b1) (length ?d) CHR ''/'' = Inr (Some b2)" using l len by (simp add: p_write_eq b1_def b2_def)
  moreover have "strncpy_at (Some b2) (length ?d + 1) (Some f) (length ?f) = Inr (Some b3)"
    using strncpy_at_eq [OF f refl, of "length ?d + 1" "length ?f" b2] l len by (simp add: b3_def b2_def)
  moreover have "b3[length (?d @ CHR ''/'' # ?f) := NUL] = b3" unfolding b3_def by (subst list_update_length) (rule refl)
  then have "p_write (Some b3) (length ?d + 1 + length ?f) NUL = Inr (Some b3)" using l3 len by (simp add: p_write_eq)
  moreover have "cstr b3 = ?d @ CHR ''/'' # ?f" unfolding b3_def by (rule cstr_append_NUL) (use NUL_notin_cstr in auto)
  moreover have "NUL \<in> set b3" by (simp add: b3_def)
  ultimately show ?thesis by auto
qed

text \<open>
  Finding a program. The shell runs the file with the given name if there is one, else the first
  file of that name in the directories of the search path, in their order; if there is none, it
  reports that and returns NULL.
\<close>

lemma locate_finds_first:
  assumes E: "roomy E" "files E ns ex (ukern u)" and l: "shell_vars l es" "length es < 8" "lookup es ''PATH='' = Some (path_text ds)" and ds: "dirs_ok ds"
    and f: "NUL \<in> set f" and ns: "set (cstr f # candidates ds (cstr f)) \<subseteq> ns" and len: "length (path_text ds) + length (cstr f) + 1 < 2047"
  shows "\<exists>n. case List.find ex (cstr f # candidates ds (cstr f)) of
      Some c \<Rightarrow> \<exists>p. locate_executable_file E l (Some f) u = Inr (Some p, (after_open E p u)\<lparr>allocs := n\<rparr>) \<and> cstr p = c \<and> NUL \<in> set p
    | None \<Rightarrow> \<exists>v. locate_executable_file E l (Some f) u = Inr (None, v)"
proof -
  obtain a where a: "l = Some a" "array_holds a es" "length a = 8" by (rule shell_vars_array [OF l(1)])
  define u1 where "u1 = u\<lparr>allocs := Suc (allocs u)\<rparr>"
  have k1: "ukern u1 = ukern u" "after_open E p u1 = (after_open E p u)\<lparr>allocs := Suc (allocs u)\<rparr>" for p by (simp_all add: u1_def after_open_def)
  obtain P where P: "get_var E l (lit ''PATH='') u = Inr (Some P, u1)" "NUL \<in> set P" "cstr P = path_text ds"
    using get_var_lookup [OF E(1) a(2), of "''PATH='' @ [NUL]" u] a(1,3) l(2,3) len by (auto simp: lit_def u1_def)
  have v1: "does_file_exist E (Some f) u1 = (ex (cstr f), if ex (cstr f) then after_open E f u1 else u1)"
    using does_file_exist_eq [of E ns ex u1 f] E(2) f ns k1(1) by simp
  note start = locate_executable_file_def
  show ?thesis
  proof (cases "ex (cstr f)")
    case True
    then show ?thesis using P(1) v1 f k1(2) by (auto simp: start)
  next
    case False
    obtain b where b: "new_buffer E 2048 u1 = (Some b, u1\<lparr>allocs := Suc (allocs u1)\<rparr>)" "length b = 2048" by (rule roomyE [OF E(1)])
    define u2 where "u2 = u1\<lparr>allocs := Suc (allocs u1)\<rparr>"
    have k2: "ukern u2 = ukern u" "after_open E p u2 = (after_open E p u)\<lparr>allocs := Suc (allocs u1)\<rparr>" for p by (simp_all add: u1_def u2_def after_open_def)
    note b = b [folded u2_def]
    let ?cs = "map (\<lambda>d. in_dir d (cstr f)) (butlast ds)" and ?last = "last ds @ ''/'' @ cstr f"
    have found: "List.find ex (cstr f # candidates ds (cstr f)) = (case List.find ex ?cs of None \<Rightarrow> if ex ?last then Some ?last else None | Some c \<Rightarrow> Some c)"
      using False by (simp add: candidates_def find_snoc split: option.split)
    have sub: "(\<lambda>d. in_dir d (cstr f)) ` set (butlast ds) \<subseteq> ns" "?last \<in> ns" using ns by (auto simp: candidates_def)
    note loop = locate_loop_finds [OF P(2) f _ sub(1) ds, where E = E and ex = ex and u = u2 and pre = 0 and b = b]
    show ?thesis
    proof (cases "List.find ex ?cs")
      case (Some c)
      then obtain b' where "locate_loop E (Some P) 0 (int (length (path_text ds))) (Some b) (Some f) u2 = Inr (Returns_Path (Some b'), after_open E b' u2)"
        "NUL \<in> set b'" "cstr b' = c" using loop E(2) k2(1) P(3) len b(2) by auto
      then show ?thesis using Some P v1 b(1) False found k2(2) by (auto simp: start strlen_Some)
    next
      case None
      then obtain q b' where q: "locate_loop E (Some P) 0 (int (length (path_text ds))) (Some b) (Some f) u2 = Inr (Left q (int (length (last ds))) (Some b'), u2)"
        "length b' = 2048" "q \<le> length (cstr P)" "drop q (cstr P) = last ds" using loop E(2) k2(1) P(3) len b(2) by auto
      note dq = drop_terminated [OF P(2) q(3), unfolded q(4)]
      have d: "last ds \<noteq> []" "CHR '':'' \<notin> set (last ds)" using ds by (auto simp: dirs_ok_def)
      have ll: "length (last ds) \<le> length (path_text ds)" using q(3,4) P(3) by (metis diff_le_self length_drop)
      have sc: "strchr (Some (drop q P)) CHR '':'' = Inr None" using strchr_terminated(1) [OF dq(1), of "CHR '':''" "last ds" "[]"] dq(2) d(2) by simp
      obtain b1 b2 b3 where bs: "strncpy_at (Some b') 0 (Some (drop q P)) (length (last ds)) = Inr (Some b1)" "p_write (Some b1) (length (last ds)) CHR ''/'' = Inr (Some b2)"
        "strncpy_at (Some b2) (length (last ds) + 1) (Some f) (length (cstr f)) = Inr (Some b3)"
        "p_write (Some b3) (length (last ds) + 1 + length (cstr f)) NUL = Inr (Some b3)" "NUL \<in> set b3" "cstr b3 = ?last"
        using put_last_dir [OF q(2) dq(1) f] dq(2) ll len by auto
      have v3: "does_file_exist E (Some b3) u2 = (ex ?last, if ex ?last then after_open E b3 u2 else u2)"
        using does_file_exist_eq [of E ns ex u2 b3] E(2) k2(1) bs(5,6) sub(2) by simp
      show ?thesis
        using P v1 b(1) False found None q(1) dq d sc bs f v3 ll len k2(2)
        by (cases "ex ?last") (auto simp: start strlen_Some say_plain)
    qed
  qed
qed

end
