(* ===== verification/ShellRuns.thy ===== *)
theory ShellRuns
  imports CommandLine ShellPath
begin

text \<open>
  From a typed line to a running program: splitting the line, finding the program and starting it,
  put together.
\<close>

lemma strcmp_differs:
  assumes "NUL \<in> set d" "NUL \<in> set s" "cstr d \<noteq> cstr s"
  shows "\<exists>r. strcmp (Some d) (Some s) = Inr r \<and> r \<noteq> 0"
  using strcmp_total [OF assms(1,2)] strcmp_zero_iff [OF assms(1,2)] assms(3) by auto

text \<open>Words the shell itself acts on.\<close>

definition program_name :: "string \<Rightarrow> bool" where
  "program_name w \<longleftrightarrow> w \<notin> {''cd'', ''ls'', ''exit''} \<and> CHR ''='' \<notin> set w"

lemma execute_program:
  assumes E: "roomy E" and a: "l = Some w # rest" "NUL \<in> set w" "program_name (cstr w)"
  shows "\<exists>n. execute E l k vars prompt envp u = rbind (run_program E l k vars envp (u\<lparr>allocs := n\<rparr>)) (\<lambda>u. Inr ((vars, prompt), u))"
proof -
  obtain b where b: "new_buffer E 2048 u = (Some b, u\<lparr>allocs := Suc (allocs u)\<rparr>)" "length b = 2048" by (rule roomyE [OF E])
  let ?u = "u\<lparr>allocs := Suc (allocs u)\<rparr>"
  obtain c where c: "new_buffer E 2048 ?u = (Some c, ?u\<lparr>allocs := Suc (allocs ?u)\<rparr>)" "length c = 2048" by (rule roomyE [OF E])
  obtain r1 where r1: "strcmp (Some w) (lit ''cd'') = Inr r1" "r1 \<noteq> 0"
    using strcmp_differs [OF a(2), of "''cd'' @ [NUL]"] a(3) by (auto simp: lit_def program_name_def)
  obtain r2 where r2: "strcmp (Some w) (lit ''ls'') = Inr r2" "r2 \<noteq> 0"
    using strcmp_differs [OF a(2), of "''ls'' @ [NUL]"] a(3) by (auto simp: lit_def program_name_def)
  obtain r3 where r3: "strcmp (Some w) (lit ''exit'') = Inr r3" "r3 \<noteq> 0"
    using strcmp_differs [OF a(2), of "''exit'' @ [NUL]"] a(3) by (auto simp: lit_def program_name_def)
  have eq: "strchr (Some w) CHR ''='' = Inr None"
    using strchr_terminated(1) [OF a(2), of "CHR ''=''" "cstr w" "[]"] a(3) by (simp add: program_name_def)
  show ?thesis using b c r1 r2 r3 eq a(1)
    by (intro exI [of _ "allocs u + 2"]) (simp add: execute_def p_write_eq ptr_at_def)
qed

text \<open>
  A typed command runs. The words of the line reach the program as its argument vector, and the
  program is the first of the candidates that exists: the child process replaces itself by it; the
  shell itself goes on with its variables and prompt unchanged, after it has waited for the child
  unless the last word is an ampersand. Between the line and the fork the kernel has changed by one
  call of \<open>open\<close>, that of the program.
\<close>

lemma command_runs:
  assumes E: "roomy E" "files E ns ex (ukern u)" and l: "shell_vars l es" "length es < 8" "lookup es ''PATH='' = Some (path_text ds)" "dirs_ok ds"
    and ts: "typed_ok ts" "ts \<noteq> []" "length ts < 8" "program_name (snd (hd ts))" and len: "length (path_text ds) < 1700"
    and ns: "set (snd (hd ts) # candidates ds (snd (hd ts))) \<subseteq> ns"
    and fd: "List.find ex (snd (hd ts) # candidates ds (snd (hd ts))) = Some prog"
  shows "\<exists>args n p v. parse_cmds E (Some (typed ts @ NUL # junk)) u = Inr (Some (args @ [None], length ts), u\<lparr>allocs := n\<rparr>) \<and>
    holds_words args (map snd ts) \<and> cstr p = prog \<and> NUL \<in> set p \<and> ukern v = snd (en_open E (Some p) 0 (ukern u)) \<and>
    (fst (en_fork E (ukern v)) > 0 \<longrightarrow>
      execute E (args @ [None]) (length ts) l prompt (Some envp) (u\<lparr>allocs := n\<rparr>) = Inr ((l, prompt),
        v\<lparr>ukern := if snd (last ts) = ''&'' then snd (en_fork E (ukern v)) else snd (en_waitpid E (fst (en_fork E (ukern v))) (snd (en_fork E (ukern v))))\<rparr>)) \<and>
    (fst (en_fork E (ukern v)) = 0 \<and> fst (en_execve E (Some p) (args @ [None]) envp (snd (en_fork E (ukern v)))) = None \<longrightarrow>
      execute E (args @ [None]) (length ts) l prompt (Some envp) (u\<lparr>allocs := n\<rparr>) =
        Inl (Replaced (v\<lparr>ukern := snd (en_execve E (Some p) (args @ [None]) envp (snd (en_fork E (ukern v))))\<rparr>)))"
proof -
  let ?b = "typed ts @ NUL # junk" and ?w = "snd (hd ts)"
  have cb: "cstr ?b = typed ts" "NUL \<in> set ?b" using cstr_append_NUL [OF typed_no_NUL [OF ts(1)]] by auto
  have "split_line 8 (cstr ?b) = Some (map snd ts)"
    using split_line_typed [OF ts(1), of 8 "[]" 0] ts(3) cb(1) by (simp add: at_end_def)
  then obtain args n where p: "parse_cmds E (Some ?b) u = Inr (Some (args @ [None], length ts), u\<lparr>allocs := n\<rparr>)" "holds_words args (map snd ts)"
    using parse_cmds_split [OF E(1) cb(2), of u] ts(3) by auto
  have la: "length args = length ts" using holds_words_length [OF p(2)] by simp
  have arg: "\<exists>b. args ! i = Some b \<and> NUL \<in> set b \<and> cstr b = snd (ts ! i)" if "i < length ts" for i
    using p(2) that by (auto simp: holds_words_def list_all2_conv_all_nth)
  obtain w where w: "args ! 0 = Some w" "NUL \<in> set w" "cstr w = ?w" using arg [of 0] ts(2) by (auto simp: hd_conv_nth)
  obtain z where z: "args ! (length ts - 1) = Some z" "NUL \<in> set z" "cstr z = snd (last ts)" using arg [of "length ts - 1"] ts(2) by (auto simp: last_conv_nth)
  have a0: "args @ [None] = Some w # tl args @ [None]" using w(1) la ts(2) by (cases args) auto
  obtain n' where ex: "execute E (args @ [None]) (length ts) l prompt (Some envp) (u\<lparr>allocs := n\<rparr>) =
      rbind (run_program E (args @ [None]) (length ts) l (Some envp) (u\<lparr>allocs := n'\<rparr>)) (\<lambda>u. Inr ((l, prompt), u))"
    using execute_program [OF E(1) a0 w(2), of "length ts" l prompt "Some envp" "u\<lparr>allocs := n\<rparr>"] w(3) ts(4) by auto
  have "length ?w \<le> 255" using ts(1,2) by (cases ts) (auto simp: typed_ok_def plain_def)
  then obtain q m where q: "locate_executable_file E l (Some w) (u\<lparr>allocs := n'\<rparr>) = Inr (Some q, (after_open E q (u\<lparr>allocs := n'\<rparr>))\<lparr>allocs := m\<rparr>)"
    "cstr q = prog" "NUL \<in> set q"
    using locate_finds_first [OF E(1) _ l w(2), of ns ex "u\<lparr>allocs := n'\<rparr>"] E(2) ns len w(3) fd by auto
  define v where "v = (after_open E q (u\<lparr>allocs := n'\<rparr>))\<lparr>allocs := m\<rparr>"
  note r = q(1) [folded v_def]
  have kv: "ukern v = snd (en_open E (Some q) 0 (ukern u))" by (simp add: v_def after_open_def)
  have wait: "\<exists>d. strcmp (Some z) (lit ''&'') = Inr d \<and> (d = 0 \<longleftrightarrow> snd (last ts) = ''&'')"
    using strcmp_total [OF z(2), of "''&'' @ [NUL]"] strcmp_zero_iff [OF z(2), of "''&'' @ [NUL]"] z(3) by (auto simp: lit_def)
  have zp: "ptr_at (Some (args @ [None])) (length ts - 1) = Inr (Some z)" using z(1) la ts(2) by (simp add: ptr_at_def nth_append)
  have first: "(args @ [None]) ! 0 = Some w" unfolding a0 by simp
  have run: "run_program E (args @ [None]) (length ts) l (Some envp) (u\<lparr>allocs := n'\<rparr>) =
    (let (pid, u) = fork E v in
     if pid = 0 then
       rbind (execve E (Some q) (args @ [None]) envp u) (\<lambda>(err, u).
       rbind (if err < 0 then say E (''error in child process: file not executable!'' @ newline) [] u else Inr u) (\<lambda>u. Inl (Exited (- 1) u)))
     else if pid > 0 then Inr (if snd (last ts) = ''&'' then u else snd (waitpid E pid u))
     else say E (''error in execute: fork process error!'' @ newline) [] u)"
    unfolding run_program_def first using r zp wait by (auto split: prod.splits)
  have "execute E (args @ [None]) (length ts) l prompt (Some envp) (u\<lparr>allocs := n\<rparr>) = Inr ((l, prompt),
      v\<lparr>ukern := if snd (last ts) = ''&'' then snd (en_fork E (ukern v)) else snd (en_waitpid E (fst (en_fork E (ukern v))) (snd (en_fork E (ukern v))))\<rparr>)"
    if "fst (en_fork E (ukern v)) > 0"
    using that by (auto simp: ex run fork_def waitpid_def Let_def split: prod.splits)
  moreover have "execute E (args @ [None]) (length ts) l prompt (Some envp) (u\<lparr>allocs := n\<rparr>) =
      Inl (Replaced (v\<lparr>ukern := snd (en_execve E (Some q) (args @ [None]) envp (snd (en_fork E (ukern v))))\<rparr>))"
    if "fst (en_fork E (ukern v)) = 0" "fst (en_execve E (Some q) (args @ [None]) envp (snd (en_fork E (ukern v)))) = None"
    using that by (auto simp: ex run fork_def execve_def Let_def split: prod.splits)
  ultimately show ?thesis using p q(2,3) kv
    by - (rule exI [of _ args], rule exI [of _ n], rule exI [of _ q], rule exI [of _ v], blast)
qed

end
