(* ===== verification/ShellKernel.thy ===== *)
theory ShellKernel
  imports ShellRuns TarArchive
begin

text \<open>
  The shell on the kernel's files: the search for a program, and the start of a typed command, where
  \<open>open\<close> is the system call of \<open>sys/syscall.c\<close> on the archive of \<open>sys/tarfs.c\<close>.
\<close>

section \<open>Names in the archive\<close>

definition archive_name :: "string \<Rightarrow> string" where
  "archive_name c = dropWhile (\<lambda>x. x = CHR ''/'') c"

definition entry_named :: "tar_entry list \<Rightarrow> string \<Rightarrow> (nat \<times> tar_entry) option" where
  "entry_named es c = List.find (selects (=) (archive_name c)) (offsets 0 es)"

definition openable_names :: "string set" where
  "openable_names = {c. length c < FILE_NAME_SIZE \<and> archive_name c \<noteq> [] \<and> length (archive_name c) \<le> 62}"

section \<open>The system call\<close>

text \<open>
  \<open>open\<close> hands the path to \<open>tarfs_open\<close>; where that returns, the program gets its descriptor. (It does
  not return when a name is too long, or when the last descriptor is taken: then the process is ended.)
\<close>

definition opens_by_tarfs :: "u64 \<Rightarrow> kernel environment \<Rightarrow> bool" where
  "opens_by_tarfs sp E \<longleftrightarrow> (\<forall>p k fd k'. tarfs_open sp p (c_lit ''r'') k = Inr (Result fd k') \<longrightarrow> en_open E (Some p) 0 k = (fd, k'))"

text \<open>The kernel after \<open>f\<close> has been recorded under descriptor \<open>i\<close> of the running process \<open>t\<close>.\<close>

definition with_file :: "kernel \<Rightarrow> task_struct \<Rightarrow> nat \<Rightarrow> tarfs_file \<Rightarrow> kernel" where
  "with_file s t i f = s\<lparr>task_heap := (task_heap s)(current s \<mapsto> t\<lparr>file_array := (file_array t)[i := f]\<rparr>)\<rparr>"

text \<open>A running process with well-formed descriptors, the lowest free one being \<open>i\<close>.\<close>

definition can_open :: "kernel \<Rightarrow> task_struct \<Rightarrow> nat \<Rightarrow> bool" where
  "can_open s t i \<longleftrightarrow> current s \<noteq> 0 \<and> task_heap s (current s) = Some t \<and> (\<forall>f\<in>set (file_array t). file_ok f) \<and>
     length (file_array t) = MAX_FILE_NUM \<and> free_fd t = Some i"

lemma open_in_archive:
  assumes E: "opens_by_tarfs sp E" and s: "tar_at (archive s) 0 es" "can_open s t i" and p: "NUL \<in> set p" "cstr p \<in> openable_names"
  shows "case entry_named es (cstr p) of
      None \<Rightarrow> en_open E (Some p) 0 s = (- 1, s)
    | Some oe \<Rightarrow> \<exists>f. opened s (archive_name (cstr p)) oe (file_array t ! i) f \<and> en_open E (Some p) 0 s = (int i, with_file s t i f)"
  using tarfs_open_found [OF s(1) p(1) _ refl, of t i sp] s(2) p(2) E
  by (auto simp: can_open_def openable_names_def archive_name_def entry_named_def opens_by_tarfs_def with_file_def split: option.splits)

lemma files_in_archive:
  assumes "opens_by_tarfs sp E" "tar_at (archive s) 0 es" "can_open s t i"
  shows "files E openable_names (\<lambda>c. entry_named es c \<noteq> None) s"
  unfolding files_def
proof (intro allI impI)
  fix p :: string
  assume "NUL \<in> set p" "cstr p \<in> openable_names"
  from open_in_archive [OF assms this]
  show "if entry_named es (cstr p) \<noteq> None then 0 \<le> fst (en_open E (Some p) 0 s) else fst (en_open E (Some p) 0 s) < 0 \<and> snd (en_open E (Some p) 0 s) = s"
    by (auto split: option.splits)
qed

section \<open>From the typed line to the running program\<close>

text \<open>
  C19. A typed command runs. The words of the line reach the program as its argument vector, and the
  program is the first of the candidates (the name as typed, then the name in each directory of the
  search path) that the archive in memory has an entry for. Finding it changes the kernel in one way
  only: the process's lowest free descriptor is left open on that entry. In exactly this state
  the shell forks: the child replaces itself by the program; the shell itself goes on with its
  variables and prompt unchanged, after it has waited for the child unless the last word is an
  ampersand. The process needs one free descriptor, and the candidates must be names
  that \<open>tarfs_open\<close> takes (at most 62 characters after the leading slashes, and not only slashes).
\<close>

theorem typed_command_runs:
  assumes E: "roomy E" "opens_by_tarfs sp E" and s: "tar_at (archive s) 0 es" "can_open s t i" "ukern u = s"
    and l: "shell_vars l vs" "length vs < 8" "lookup vs ''PATH='' = Some (path_text ds)" "dirs_ok ds" "length (path_text ds) < 1700"
    and ts: "typed_ok ts" "ts \<noteq> []" "length ts < 8" "program_name (snd (hd ts))"
    and names: "set (snd (hd ts) # candidates ds (snd (hd ts))) \<subseteq> openable_names"
    and prog: "List.find (\<lambda>c. entry_named es c \<noteq> None) (snd (hd ts) # candidates ds (snd (hd ts))) = Some prog"
  shows "\<exists>args n m p oe f k. parse_cmds E (Some (typed ts @ NUL # junk)) u = Inr (Some (args @ [None], length ts), u\<lparr>allocs := n\<rparr>) \<and>
    holds_words args (map snd ts) \<and> cstr p = prog \<and>
    entry_named es prog = Some oe \<and> opened s (archive_name prog) oe (file_array t ! i) f \<and> k = with_file s t i f \<and>
    (fst (en_fork E k) > 0 \<longrightarrow>
      execute E (args @ [None]) (length ts) l prompt (Some envp) (u\<lparr>allocs := n\<rparr>) = Inr ((l, prompt), \<lparr>allocs = m,
        ukern = if snd (last ts) = ''&'' then snd (en_fork E k) else snd (en_waitpid E (fst (en_fork E k)) (snd (en_fork E k)))\<rparr>)) \<and>
    (fst (en_fork E k) = 0 \<and> fst (en_execve E (Some p) (args @ [None]) envp (snd (en_fork E k))) = None \<longrightarrow>
      execute E (args @ [None]) (length ts) l prompt (Some envp) (u\<lparr>allocs := n\<rparr>) =
        Inl (Replaced \<lparr>allocs = m, ukern = snd (en_execve E (Some p) (args @ [None]) envp (snd (en_fork E k)))\<rparr>))"
proof -
  have "files E openable_names (\<lambda>c. entry_named es c \<noteq> None) (ukern u)" using files_in_archive [OF E(2) s(1,2)] s(3) by simp
  note run = command_runs [OF E(1) this l(1-4) ts l(5) names prog, of junk prompt envp]
  then obtain args n p v where c: "parse_cmds E (Some (typed ts @ NUL # junk)) u = Inr (Some (args @ [None], length ts), u\<lparr>allocs := n\<rparr>)"
    "holds_words args (map snd ts)" "cstr p = prog" "NUL \<in> set p" "ukern v = snd (en_open E (Some p) 0 (ukern u))"
    "fst (en_fork E (ukern v)) > 0 \<longrightarrow>
      execute E (args @ [None]) (length ts) l prompt (Some envp) (u\<lparr>allocs := n\<rparr>) = Inr ((l, prompt),
        v\<lparr>ukern := if snd (last ts) = ''&'' then snd (en_fork E (ukern v)) else snd (en_waitpid E (fst (en_fork E (ukern v))) (snd (en_fork E (ukern v))))\<rparr>)"
    "fst (en_fork E (ukern v)) = 0 \<and> fst (en_execve E (Some p) (args @ [None]) envp (snd (en_fork E (ukern v)))) = None \<longrightarrow>
      execute E (args @ [None]) (length ts) l prompt (Some envp) (u\<lparr>allocs := n\<rparr>) =
        Inl (Replaced (v\<lparr>ukern := snd (en_execve E (Some p) (args @ [None]) envp (snd (en_fork E (ukern v))))\<rparr>))" by blast
  have "entry_named es prog \<noteq> None" "prog \<in> openable_names" using iffD1 [OF find_Some_iff prog] names nth_mem by blast+
  then obtain oe where oe: "entry_named es prog = Some oe" by blast
  with \<open>prog \<in> openable_names\<close> obtain f where f: "opened s (archive_name prog) oe (file_array t ! i) f" "ukern v = with_file s t i f"
    using open_in_archive [OF E(2) s(1,2) c(4)] oe c(3,5) s(3) by auto
  have v: "v\<lparr>ukern := k\<rparr> = \<lparr>allocs = allocs v, ukern = k\<rparr>" for k by (cases v) simp
  show ?thesis
    by (intro exI [of _ args] exI [of _ n] exI [of _ "allocs v"] exI [of _ p] exI [of _ oe] exI [of _ f] exI [of _ "with_file s t i f"] conjI)
       (use c(1,2,3,6,7) oe f in \<open>simp_all only: v\<close>)
qed

text \<open>The kernel's \<open>open\<close>, beside a fork that returns to the parent and a child that has already ended.\<close>

definition shell_env :: "kernel environment" where
  "shell_env = \<lparr>en_malloc = \<lambda>k n. Some (replicate n NUL), en_write = \<lambda>fd s k. (0, k),
     en_open = \<lambda>p flags k. (case map_option (\<lambda>p. tarfs_open 0 p (c_lit ''r'') k) p of Some (Inr (Result fd k)) \<Rightarrow> (fd, k) | _ \<Rightarrow> (- 1, k)),
     en_read = \<lambda>fd b n k. (0, b, k), en_close = \<lambda>fd k. (0, k), en_getcwd = \<lambda>b n k. (0, b, k), en_chdir = \<lambda>p k. (0, k),
     en_getdents = \<lambda>fd b n k. (0, b, k), en_fork = \<lambda>k. (2, k), en_execve = \<lambda>p a e k. (Some (- 1), k),
     en_waitpid = \<lambda>p k. (p, k), en_kill = \<lambda>p s k. (0, k)\<rparr>"

lemma shell_env_ok: "roomy shell_env" "opens_by_tarfs 0 shell_env"
  by (simp_all add: shell_env_def roomy_def opens_by_tarfs_def)

theorem typed_command_runs_witness:
  "\<exists>args n v f. holds_words args [''sh'', ''readme''] \<and>
     parse_cmds shell_env (lit ''sh readme'') \<lparr>allocs = 0, ukern = tar_example\<rparr> = Inr (Some (args @ [None], 2), \<lparr>allocs = n, ukern = tar_example\<rparr>) \<and>
     execute shell_env (args @ [None]) 2 vars_example (lit ''> '') (Some [None]) \<lparr>allocs = n, ukern = tar_example\<rparr> = Inr ((vars_example, lit ''> ''), v) \<and>
     current_file 3 (ukern v) = Inr f \<and> f_start_addr f = PA2VA 0x230000 + 1024"
proof -
  let ?t = "zero_task\<lparr>t_mm := 0x2000, pid := 1, t_state := ACTIVE\<rparr>" and ?e = "(512, \<lparr>e_name = ''bin/sh'', e_dir = False, e_size = 5\<rparr>)"
  let ?ts = "[(0, ''sh''), (1, ''readme'')]" and ?ds = "[''/bin/'', ''/lib/'']"
  have at: "tar_at (archive tar_example) 0 example_entries" using example_tar_at(1) by (simp only: archive_tar_example)
  have k: "can_open tar_example ?t 3"
    by (simp add: can_open_def tar_example_def kernel_example_def free_fd_def find_upt_Some zero_task_def zero_file_def file_ok_def)
  have c: "candidates ?ds ''sh'' = [''/bin/sh'', ''/lib//sh'']" by (simp add: candidates_def in_dir_def)
  have e: "entry_named example_entries ''sh'' = None" "entry_named example_entries ''/bin/sh'' = Some ?e"
    by (simp_all add: entry_named_def archive_name_def example_entries_def selects_def with_slash_def entry_length_def)
  have l: "lookup [''PATH=/bin/:/lib/'', ''PS1=x''] ''PATH='' = Some (path_text ?ds)" by (simp add: lookup_def)
  have t: "typed ?ts = ''sh readme''" by (simp add: typed_def)
  have d: "dirs_ok ?ds" "typed_ok ?ts" "program_name ''sh''" by (simp_all add: dirs_ok_def typed_ok_def plain_def program_name_def)
  have ns: "set (snd (hd ?ts) # candidates ?ds (snd (hd ?ts))) \<subseteq> openable_names" using c by (simp add: openable_names_def archive_name_def)
  have f: "List.find (\<lambda>c. entry_named example_entries c \<noteq> None) (snd (hd ?ts) # candidates ?ds (snd (hd ?ts))) = Some ''/bin/sh''"
    using c e by simp
  have fork: "en_fork shell_env k = (2, k)" "en_waitpid shell_env p k = (p, k)" for p k by (simp_all add: shell_env_def)
  have "\<exists>args n m g. holds_words args [''sh'', ''readme''] \<and>
     parse_cmds shell_env (lit ''sh readme'') \<lparr>allocs = 0, ukern = tar_example\<rparr> = Inr (Some (args @ [None], 2), \<lparr>allocs = n, ukern = tar_example\<rparr>) \<and>
     execute shell_env (args @ [None]) 2 vars_example (lit ''> '') (Some [None]) \<lparr>allocs = n, ukern = tar_example\<rparr> =
       Inr ((vars_example, lit ''> ''), \<lparr>allocs = m, ukern = with_file tar_example ?t 3 g\<rparr>) \<and>
     opened tar_example ''bin/sh'' ?e (file_array ?t ! 3) g"
    using typed_command_runs [OF shell_env_ok at k _ vars_example_holds _ l d(1) _ d(2) _ _ _ ns f,
        of "\<lparr>allocs = 0, ukern = tar_example\<rparr>" "[]" "lit ''> ''" "[None]"] d(3) e(2)
    unfolding t lit_def by (auto simp: fork archive_name_def numeral_2_eq_2)
  moreover have "current_file 3 (with_file tar_example ?t 3 g) = Inr g" for g
    by (simp add: current_file_def with_file_def tar_example_def kernel_example_def zero_task_def)
  moreover have "opened tar_example ''bin/sh'' ?e (file_array ?t ! 3) g \<Longrightarrow> f_start_addr g = PA2VA 0x230000 + 1024" for g
    by (simp add: opened_def tar_example_def)
  ultimately show ?thesis by (metis user.select_convs(2))
qed

end
