(* ===== verification/Devices.thy ===== *)
theory Devices
  imports Objects
begin

text \<open>
  The interrupt controllers (src/sys/pic.c) and the interval timer (src/sys/itimer.c).

  \<open>machine\<close> extends the kernel's state with the registers outside of memory: what has been written
  to the I/O ports, the descriptor tables and the model-specific registers. \<open>outb\<close> appends to the
  record of port writes. What the two 8259A chips make of these writes is \<open>chip_write\<close>, the protocol
  that the comments of pic.c spell out; it is the reference against which the driver is proved: after
  \<open>picinit\<close> the masks of the chips are at every moment the driver's \<open>irqmask\<close>.
\<close>

section \<open>State\<close>

record idt_entry =
  base_lo_16 :: u16
  gate_sel :: u16
  always0 :: u8
  gate_flags :: u8
  base_hi_16 :: u16
  base_up_32 :: u32
  gate_reserved :: u32

record table_ptr =   \<comment> \<open>\<open>idt_ptr_t\<close> and \<open>struct gdtr_t\<close>\<close>
  tp_limit :: u16
  tp_base :: u64

record machine = kernel +
  port_writes :: "(u16 \<times> u8) list"   \<comment> \<open>in the order of the \<open>out\<close> instructions\<close>
  irqmask :: u16
  idt_entries :: "idt_entry list"     \<comment> \<open>256 entries\<close>
  idtp :: table_ptr
  idt_register :: "table_ptr option"  \<comment> \<open>loaded by \<open>_idt_load\<close>\<close>
  gdt :: "u64 list"                   \<comment> \<open>\<open>MAX_GDT\<close> entries\<close>
  gdt_register :: "table_ptr option"
  cs_selector :: u16
  ds_selector :: u16
  task_register :: u16
  msr :: "u32 \<Rightarrow> u64"
  cpuid_edx :: "u32 \<Rightarrow> u32"

definition outb :: "u16 \<Rightarrow> u8 \<Rightarrow> 'a machine_scheme \<Rightarrow> 'a machine_scheme" where
  "outb p b s = s\<lparr>port_writes := port_writes s @ [(p, b)]\<rparr>"

section \<open>The interrupt controllers (pic.c)\<close>

abbreviation (input) IO_PIC1 :: u16 where "IO_PIC1 \<equiv> 0x20"
abbreviation (input) IO_PIC2 :: u16 where "IO_PIC2 \<equiv> 0xA0"
abbreviation (input) IRQ_SLAVE :: nat where "IRQ_SLAVE \<equiv> 2"
abbreviation (input) IRQ_TIMER :: nat where "IRQ_TIMER \<equiv> 0"
abbreviation (input) IRQ_KBD :: nat where "IRQ_KBD \<equiv> 1"
abbreviation (input) T_IRQ0 :: u8 where "T_IRQ0 \<equiv> 32"
abbreviation (input) PIC_EOI :: u8 where "PIC_EOI \<equiv> 0x20"

text \<open>The initial value of \<open>irqmask\<close>.\<close>

definition irqmask0 :: u16 where
  "irqmask0 = 0xFFFF AND NOT (push_bit IRQ_SLAVE 1)"

definition picsetmask :: "u16 \<Rightarrow> 'a machine_scheme \<Rightarrow> 'a machine_scheme" where
  "picsetmask m s =
     (let s = s\<lparr>irqmask := m\<rparr>;
          s = outb (IO_PIC1 + 1) (ucast m) s
      in outb (IO_PIC2 + 1) (ucast (drop_bit 8 m)) s)"

text \<open>\<open>irqmask & ~(1<<irq)\<close> is computed as an \<open>int\<close> and cut to 16 bits.\<close>

definition picenable :: "nat \<Rightarrow> 'a machine_scheme \<Rightarrow> 'a machine_scheme" where
  "picenable irq s = picsetmask (ucast ((ucast (irqmask s) :: u32) AND NOT (push_bit (irq mod 32) 1))) s"

definition picinit :: "'a machine_scheme \<Rightarrow> 'a machine_scheme" where
  "picinit s =
     (let s = outb (IO_PIC1 + 1) 0xFF s;
          s = outb (IO_PIC2 + 1) 0xFF s;
          s = outb IO_PIC1 0x11 s;
          s = outb (IO_PIC1 + 1) T_IRQ0 s;
          s = outb (IO_PIC1 + 1) (push_bit IRQ_SLAVE 1) s;
          s = outb (IO_PIC1 + 1) 0x1 s;
          s = outb IO_PIC2 0x11 s;
          s = outb (IO_PIC2 + 1) (T_IRQ0 + 8) s;
          s = outb (IO_PIC2 + 1) (of_nat IRQ_SLAVE) s;
          s = outb (IO_PIC2 + 1) 0x3 s;
          s = outb IO_PIC1 0x68 s;
          s = outb IO_PIC1 0x0a s;
          s = outb IO_PIC2 0x68 s;
          s = outb IO_PIC2 0x0a s
      in if irqmask s \<noteq> 0xFFFF then picsetmask (irqmask s) s else s)"

definition pic_sendeoi :: "u8 \<Rightarrow> 'a machine_scheme \<Rightarrow> 'a machine_scheme" where
  "pic_sendeoi irq s =
     (let s = (if 8 \<le> irq then outb IO_PIC2 PIC_EOI s else s)
      in outb IO_PIC1 PIC_EOI s)"

section \<open>The interval timer (itimer.c)\<close>

abbreviation (input) IO_TIMER1 :: u16 where "IO_TIMER1 \<equiv> 0x40"
abbreviation (input) TIMER_FREQ :: int where "TIMER_FREQ \<equiv> 1193182"
abbreviation (input) TIMER_MODE :: u16 where "TIMER_MODE \<equiv> IO_TIMER1 + 3"
abbreviation (input) TIMER_SEL0 :: u8 where "TIMER_SEL0 \<equiv> 0"
abbreviation (input) TIMER_RATEGEN :: u8 where "TIMER_RATEGEN \<equiv> 4"
abbreviation (input) TIMER_16BIT :: u8 where "TIMER_16BIT \<equiv> 0x30"

definition TIMER_DIV :: "int \<Rightarrow> int" where
  "TIMER_DIV x = (TIMER_FREQ + x div 2) div x"

definition timerinit :: "'a machine_scheme \<Rightarrow> 'a machine_scheme" where
  "timerinit s =
     (let s = outb TIMER_MODE (TIMER_SEL0 OR TIMER_RATEGEN OR TIMER_16BIT) s;
          s = outb IO_TIMER1 (of_int (TIMER_DIV 100 mod 256)) s;
          s = outb IO_TIMER1 (of_int (TIMER_DIV 100 div 256)) s
      in picenable IRQ_TIMER s)"

section \<open>The 8259A\<close>

text \<open>
  A chip has a command port and a data port. A command with bit 4 set is ICW1: it starts the
  initialisation, clears the mask, and is followed by ICW2 (the vector offset), ICW3 (the cascade) and, if its bit 0
  is set, ICW4 on the data port. At any other time a byte on the data port is the new mask; the other
  commands (end of interrupt, OCW3) do not change these registers.
\<close>

record chip =
  awaiting :: nat       \<comment> \<open>the initialisation word that comes next: 2, 3, 4, or 0 when initialised\<close>
  wants_icw4 :: bool
  vector_base :: u8
  cascade :: u8
  auto_eoi :: bool
  imr :: u8

definition chip_command :: "u8 \<Rightarrow> chip \<Rightarrow> chip" where
  "chip_command b c = (if bit b 4 then c\<lparr>awaiting := 2, wants_icw4 := bit b 0, auto_eoi := False, imr := 0\<rparr> else c)"

definition chip_data :: "u8 \<Rightarrow> chip \<Rightarrow> chip" where
  "chip_data b c =
     (if awaiting c = 2 then c\<lparr>vector_base := b, awaiting := 3\<rparr>
      else if awaiting c = 3 then c\<lparr>cascade := b, awaiting := (if wants_icw4 c then 4 else 0)\<rparr>
      else if awaiting c = 4 then c\<lparr>auto_eoi := bit b 1, awaiting := 0\<rparr>
      else c\<lparr>imr := b\<rparr>)"

definition chip_write :: "u16 \<Rightarrow> u16 \<times> u8 \<Rightarrow> chip \<Rightarrow> chip" where
  "chip_write port w c =
     (if fst w = port then chip_command (snd w) c
      else if fst w = port + 1 then chip_data (snd w) c else c)"

text \<open>The chip behind the two ports at \<open>port\<close>, from the state \<open>c\<close> the firmware left it in.\<close>

definition chip_after :: "u16 \<Rightarrow> chip \<Rightarrow> 'a machine_scheme \<Rightarrow> chip" where
  "chip_after port c s = fold (chip_write port) (port_writes s) c"

text \<open>The counter 0 of the 8253: the command byte and the two bytes of its divisor, low byte first.\<close>

definition timer_divisor :: "(u16 \<times> u8) list \<Rightarrow> nat option" where
  "timer_divisor ws =
     (case map snd (filter (\<lambda>w. fst w = IO_TIMER1 \<or> fst w = TIMER_MODE) ws) of
        [m, lo, hi] \<Rightarrow> if drop_bit 4 m = 3 then Some (unat lo + 256 * unat hi) else None
      | _ \<Rightarrow> None)"

lemma chip_after_outb: "chip_after port c (outb p b s) = chip_write port (p, b) (chip_after port c s)"
  by (simp add: chip_after_def outb_def)

lemma outb_irqmask [simp, frame_simps]: "irqmask (outb p b s) = irqmask s"
  by (simp add: outb_def)

lemmas chip_simps = chip_after_outb chip_write_def chip_command_def chip_data_def

text \<open>Both chips as \<open>picinit\<close> sets them up, with the masks \<open>m\<close> in the halves of one word.\<close>

definition master_chip :: "u16 \<Rightarrow> chip" where
  "master_chip m = \<lparr>awaiting = 0, wants_icw4 = True, vector_base = 32, cascade = 4, auto_eoi = False, imr = ucast m\<rparr>"

definition slave_chip :: "u16 \<Rightarrow> chip" where
  "slave_chip m = \<lparr>awaiting = 0, wants_icw4 = True, vector_base = 40, cascade = 2, auto_eoi = True, imr = ucast (drop_bit 8 m)\<rparr>"

definition chips_follow :: "chip \<Rightarrow> chip \<Rightarrow> 'a machine_scheme \<Rightarrow> bool" where
  "chips_follow c1 c2 s \<longleftrightarrow>
     chip_after IO_PIC1 c1 s = master_chip (irqmask s) \<and> chip_after IO_PIC2 c2 s = slave_chip (irqmask s)"

lemma picsetmask_irqmask [simp]: "irqmask (picsetmask m s) = m"
  by (simp add: picsetmask_def)

lemma chip_after_irqmask [simp]: "chip_after port c (s\<lparr>irqmask := m\<rparr>) = chip_after port c s"
  by (simp add: chip_after_def)

lemma picsetmask_follow: "chips_follow c1 c2 s \<Longrightarrow> chips_follow c1 c2 (picsetmask m s)"
  unfolding chips_follow_def by (simp add: picsetmask_def chip_simps master_chip_def slave_chip_def)

lemma picinit_follow: "irqmask s \<noteq> 0xFFFF \<Longrightarrow> chips_follow c1 c2 (picinit s)"
  unfolding chips_follow_def
  by (simp add: picinit_def Let_def picsetmask_def chip_simps master_chip_def slave_chip_def)

lemma picinit_irqmask [simp]: "irqmask (picinit s) = irqmask s"
  by (simp add: picinit_def Let_def)

lemma bit_picenable: "bit (irqmask (picenable irq s)) k \<longleftrightarrow> bit (irqmask s) k \<and> irq mod 32 \<noteq> k"
proof (cases "k < 16")
  case True
  then show ?thesis unfolding picenable_def picsetmask_irqmask
    by (auto simp: bit_simps)
qed (use bit_imp_le_length [of _ k] in fastforce)

lemma pic_sendeoi_follow: "chips_follow c1 c2 s \<Longrightarrow> chips_follow c1 c2 (pic_sendeoi irq s)"
  unfolding chips_follow_def by (simp add: pic_sendeoi_def chip_simps)

lemma pic_sendeoi_irqmask [simp]: "irqmask (pic_sendeoi irq s) = irqmask s"
  by (simp add: pic_sendeoi_def Let_def)

text \<open>What drivers and interrupt handlers do with the controllers after \<open>picinit\<close>.\<close>

datatype pic_call = Enable nat | Sendeoi u8

primrec run_pic_call :: "pic_call \<Rightarrow> 'a machine_scheme \<Rightarrow> 'a machine_scheme" where
  "run_pic_call (Enable irq) s = picenable irq s"
| "run_pic_call (Sendeoi irq) s = pic_sendeoi irq s"

lemma run_pic_call_follow: "chips_follow c1 c2 s \<Longrightarrow> chips_follow c1 c2 (run_pic_call p s)"
  by (cases p) (simp_all add: picenable_def picsetmask_follow pic_sendeoi_follow)

lemma run_pic_call_mask: "bit (irqmask (run_pic_call p s)) k \<longleftrightarrow> bit (irqmask s) k \<and> (\<forall>irq. p = Enable irq \<longrightarrow> irq mod 32 \<noteq> k)"
  by (cases p) (auto simp: bit_picenable)

lemma run_pic_calls:
  assumes "chips_follow c1 c2 s"
  shows "chips_follow c1 c2 (fold run_pic_call ps s)"
    "bit (irqmask (fold run_pic_call ps s)) k \<longleftrightarrow> bit (irqmask s) k \<and> (\<forall>irq. Enable irq \<in> set ps \<longrightarrow> irq mod 32 \<noteq> k)"
proof -
  show "chips_follow c1 c2 (fold run_pic_call ps s)"
    using assms by (rule fold_invariant) (rule run_pic_call_follow)
  show "bit (irqmask (fold run_pic_call ps s)) k \<longleftrightarrow> bit (irqmask s) k \<and> (\<forall>irq. Enable irq \<in> set ps \<longrightarrow> irq mod 32 \<noteq> k)"
    by (induction ps arbitrary: s) (auto simp: run_pic_call_mask)
qed

text \<open>
  C24. Whatever state the firmware leaves the controllers in, \<open>picinit\<close> and any calls after it
  leave them initialised, with the vectors 32 to 39 and 40 to 47, and with masks that agree with
  \<open>irqmask\<close>: an interrupt line is closed exactly if it was closed before and has not been enabled.
\<close>

theorem interrupt_masks:
  assumes "irqmask s \<noteq> 0xFFFF" "t = fold run_pic_call ps (picinit s)"
  shows "chip_after IO_PIC1 c1 t = master_chip (irqmask t) \<and> chip_after IO_PIC2 c2 t = slave_chip (irqmask t) \<and>
    (\<forall>k<16. bit (irqmask t) k \<longleftrightarrow> bit (irqmask s) k \<and> (\<forall>irq. Enable irq \<in> set ps \<longrightarrow> irq mod 32 \<noteq> k))"
proof -
  have "chips_follow c1 c2 (picinit s)" by (rule picinit_follow [OF assms(1)])
  from run_pic_calls [OF this] show ?thesis unfolding assms(2) chips_follow_def by simp
qed

lemma timerinit_calls: "\<exists>ws. timerinit s = run_pic_call (Enable IRQ_TIMER) (s\<lparr>port_writes := port_writes s @ ws\<rparr>) \<and>
    timer_divisor ws = Some 11932 \<and> (\<forall>w\<in>set ws. fst w \<notin> {IO_PIC1, IO_PIC1 + 1, IO_PIC2, IO_PIC2 + 1})"
  by (rule exI [of _ "[(0x43, 0x34), (0x40, 156), (0x40, 46)]"])
     (simp add: timerinit_def outb_def TIMER_DIV_def timer_divisor_def)

lemma chip_ignores:
  assumes "\<forall>w\<in>set ws. fst w \<notin> {p, p + 1}"
  shows "chip_after p c (s\<lparr>port_writes := port_writes s @ ws\<rparr>) = chip_after p c s"
proof -
  have "fold (chip_write p) ws x = x" for x
    using assms by (induction ws arbitrary: x) (auto simp: chip_write_def)
  then show ?thesis by (simp add: chip_after_def)
qed

lemma timerinit_follow: "chips_follow c1 c2 s \<Longrightarrow> chips_follow c1 c2 (timerinit s)"
proof -
  assume f: "chips_follow c1 c2 s"
  obtain ws where ws: "timerinit s = run_pic_call (Enable IRQ_TIMER) (s\<lparr>port_writes := port_writes s @ ws\<rparr>)"
    "\<forall>w\<in>set ws. fst w \<notin> {IO_PIC1, IO_PIC1 + 1, IO_PIC2, IO_PIC2 + 1}"
    using timerinit_calls by blast
  have "chips_follow c1 c2 (s\<lparr>port_writes := port_writes s @ ws\<rparr>)"
    using f ws(2) by (simp add: chips_follow_def chip_ignores)
  then show ?thesis unfolding ws(1) by (rule run_pic_call_follow)
qed

text \<open>A machine before the first instruction of the drivers.\<close>

definition machine0 :: machine where
  "machine0 = kernel.extend kernel_example (machine.fields [] irqmask0 [] \<lparr>tp_limit = 0, tp_base = 0\<rparr> None [] None 0 0 0 (\<lambda>_. 0) (\<lambda>_. 0x20))"

lemma machine0_irqmask: "irqmask machine0 = 0xFFFB"
  by (simp add: machine0_def kernel.extend_def machine.fields_def irqmask0_def)

definition chip0 :: chip where
  "chip0 = \<lparr>awaiting = 0, wants_icw4 = False, vector_base = 8, cascade = 0, auto_eoi = False, imr = 0xB8\<rparr>"

theorem interrupt_masks_witness:
  "\<exists>t. t = fold run_pic_call [Enable 0, Sendeoi 32, Enable 1] (picinit machine0) \<and>
     chip_after IO_PIC1 chip0 t = master_chip (irqmask t) \<and> \<not> bit (irqmask t) 1 \<and> bit (irqmask t) 3"
proof -
  have m: "irqmask machine0 \<noteq> 0xFFFF" unfolding machine0_irqmask by simp
  have "bit (irqmask machine0) 3" unfolding machine0_irqmask by simp
  then show ?thesis using interrupt_masks [OF m refl, of chip0 "[Enable 0, Sendeoi 32, Enable 1]" chip0] by auto
qed

end
