(* ===== verification/Descriptors.thy ===== *)
theory Descriptors
  imports Devices
begin

text \<open>
  Descriptor tables and the entry points of the kernel: the GDT and the task state segment
  (src/sys/gdt.c), the interrupt descriptor table (src/sys/idt.c) and the model-specific registers
  behind the \<open>syscall\<close> instruction (\<open>init_syscall\<close> of src/sys/syscall.c).

  The addresses the linker assigns to the kernel's entry points and tables are the fields of \<open>image\<close>. How the
  processor reads the tables (\<open>gate_base\<close>, \<open>segment_of\<close>, \<open>system_base\<close>) is the reference the
  set-up code is proved against.
\<close>

section \<open>The kernel image\<close>

record image =
  im_exception :: "nat \<Rightarrow> u64"     \<comment> \<open>\<open>exception_handler_0\<close> to \<open>exception_handler_31\<close>\<close>
  im_page_fault :: u64              \<comment> \<open>\<open>_page_fault_handler\<close>\<close>
  im_timer :: u64                   \<comment> \<open>\<open>_isr_wrapper_timer\<close>\<close>
  im_kbd :: u64                     \<comment> \<open>\<open>_isr_wrapper_kbd\<close>\<close>
  im_syscall :: u64                 \<comment> \<open>\<open>__syscall_handler\<close>\<close>
  im_idt :: u64                     \<comment> \<open>\<open>idt_entries\<close>\<close>
  im_gdt :: u64
  im_tss :: u64
  im_thread_idle :: u64
  im_thread_clear :: u64
  im_run_init_process :: u64
  im_init_path :: u64               \<comment> \<open>the string literals of \<open>run_init_process\<close>\<close>
  im_init_env :: "nat \<Rightarrow> u64"

section \<open>Bit fields\<close>

text \<open>Assignment to the \<open>n\<close> bits from bit \<open>i\<close> on of a packed structure.\<close>

definition put_field :: "nat \<Rightarrow> nat \<Rightarrow> u64 \<Rightarrow> 128 word \<Rightarrow> 128 word" where
  "put_field i n v w = (w AND NOT (push_bit i (mask n))) OR push_bit i (take_bit n (ucast v))"

definition get_field :: "nat \<Rightarrow> nat \<Rightarrow> 128 word \<Rightarrow> u64" where
  "get_field i n w = ucast (take_bit n (drop_bit i w))"

lemma bit_put_field:
  "k < 128 \<Longrightarrow> bit (put_field i n v w) k \<longleftrightarrow> (if i \<le> k \<and> k < i + n then bit v (k - i) else bit w k)"
  by (auto simp: put_field_def bit_simps)

lemma bit_get_field: "i + n \<le> 128 \<Longrightarrow> bit (get_field i n w) k \<longleftrightarrow> k < 64 \<and> k < n \<and> bit w (i + k)"
  by (auto simp: get_field_def bit_simps)

lemma get_put_same: "i + n \<le> 128 \<Longrightarrow> get_field i n (put_field i n v w) = take_bit n v"
  by (rule bit_word_eqI) (auto simp: bit_get_field bit_put_field bit_simps)

lemma get_put_other:
  assumes "i + n \<le> 128" "i + n \<le> j \<or> j + m \<le> i"
  shows "get_field i n (put_field j m v w) = get_field i n w"
  by (rule bit_word_eqI) (use assms in \<open>auto simp: bit_get_field bit_put_field\<close>)

section \<open>Global descriptor table (gdt.c)\<close>

abbreviation (input) MAX_GDT :: nat where "MAX_GDT \<equiv> 32"
abbreviation (input) GDT_CS :: u64 where "GDT_CS \<equiv> 0x00180000000000"
abbreviation (input) GDT_DS :: u64 where "GDT_DS \<equiv> 0x00100000000000"
abbreviation (input) DPL0 :: u64 where "DPL0 \<equiv> 0"
abbreviation (input) DPL3 :: u64 where "DPL3 \<equiv> 0x00600000000000"
abbreviation (input) SEG_P :: u64 where "SEG_P \<equiv> 0x00800000000000"
abbreviation (input) SEG_L :: u64 where "SEG_L \<equiv> 0x20000000000000"
abbreviation (input) SEG_GR :: u64 where "SEG_GR \<equiv> 0x80000000000000"
abbreviation (input) SEG_W :: u64 where "SEG_W \<equiv> 0x00020000000000"
abbreviation (input) LO_LIMIT :: u64 where "LO_LIMIT \<equiv> 0x0000000000ffff"
abbreviation (input) HI_LIMIT :: u64 where "HI_LIMIT \<equiv> 0x0f000000000000"

text \<open>The initial value of \<open>gdt\<close>.\<close>

definition gdt0 :: "u64 list" where
  "gdt0 =
     [0,
      GDT_CS OR SEG_P OR DPL0 OR SEG_L OR LO_LIMIT OR HI_LIMIT OR SEG_GR,
      GDT_DS OR SEG_P OR SEG_W OR DPL0 OR LO_LIMIT OR HI_LIMIT OR SEG_GR,
      GDT_CS OR SEG_P OR DPL3 OR SEG_L OR LO_LIMIT OR HI_LIMIT OR SEG_GR,
      GDT_DS OR SEG_P OR SEG_W OR DPL3 OR LO_LIMIT OR HI_LIMIT OR SEG_GR,
      0, 0,
      GDT_DS OR SEG_P OR SEG_W OR DPL3 OR LO_LIMIT OR HI_LIMIT OR SEG_GR,
      GDT_CS OR SEG_P OR DPL3 OR SEG_L OR LO_LIMIT OR HI_LIMIT OR SEG_GR] @ replicate 23 0"

definition reload_gdt :: "image \<Rightarrow> 'a machine_scheme \<Rightarrow> 'a machine_scheme" where
  "reload_gdt im s = s\<lparr>gdt_register := Some \<lparr>tp_limit = of_nat (8 * MAX_GDT), tp_base = im_gdt im\<rparr>,
     cs_selector := 8, ds_selector := 16\<rparr>"

text \<open>
  The structure \<open>sys_segment_descriptor\<close> over \<open>gdt[5]\<close> and \<open>gdt[6]\<close>. \<open>sd_hibase\<close> has 40 bits and straddles
  the two words. \<open>sizeof(struct tss_t)\<close> is 56.
\<close>

definition setup_tss :: "image \<Rightarrow> 'a machine_scheme \<Rightarrow> 'a machine_scheme" where
  "setup_tss im s =
     (let sd = ucast (gdt s ! 5) OR push_bit 64 (ucast (gdt s ! 6));
          sd = put_field 0 16 (56 - 1) sd;
          sd = put_field 16 24 (im_tss im) sd;
          sd = put_field 40 5 9 sd;
          sd = put_field 45 2 0 sd;
          sd = put_field 47 1 1 sd;
          sd = put_field 48 4 0 sd;
          sd = put_field 55 1 0 sd;
          sd = put_field 56 40 (drop_bit 24 (im_tss im)) sd
      in s\<lparr>gdt := (gdt s)[5 := ucast sd, 6 := ucast (drop_bit 64 sd)], task_register := 0x28\<rparr>)"

text \<open>How the processor reads a descriptor: a segment for code or data with its privilege level, or a system segment.\<close>

datatype segment = Code_Segment nat | Data_Segment nat

definition segment_of :: "u64 list \<Rightarrow> u16 \<Rightarrow> segment option" where
  "segment_of g sel =
     (let e = g ! unat (drop_bit 3 sel); dpl = unat (take_bit 2 (drop_bit 45 e)) in
      if \<not> bit e 47 \<or> \<not> bit e 44 then None
      else if bit e 43 then (if bit e 53 then Some (Code_Segment dpl) else None)
      else Some (Data_Segment dpl))"

definition system_descriptor :: "u64 list \<Rightarrow> u16 \<Rightarrow> 128 word" where
  "system_descriptor g sel =
     (let i = unat (drop_bit 3 sel) in ucast (g ! i) OR push_bit 64 (ucast (g ! (i + 1))))"

definition system_base :: "128 word \<Rightarrow> u64" where
  "system_base w = get_field 16 24 w OR push_bit 24 (get_field 56 8 w) OR push_bit 32 (get_field 64 32 w)"

definition system_limit :: "128 word \<Rightarrow> u64" where
  "system_limit w = get_field 0 16 w OR push_bit 16 (get_field 48 4 w)"

section \<open>Interrupt descriptor table (idt.c)\<close>

definition zero_gate :: idt_entry where
  "zero_gate = \<lparr>base_lo_16 = 0, gate_sel = 0, always0 = 0, gate_flags = 0, base_hi_16 = 0, base_up_32 = 0, gate_reserved = 0\<rparr>"

definition idt_set_gate :: "nat \<Rightarrow> u64 \<Rightarrow> u16 \<Rightarrow> u8 \<Rightarrow> 'a machine_scheme \<Rightarrow> 'a machine_scheme" where
  "idt_set_gate num base sel flags s =
     s\<lparr>idt_entries := (idt_entries s)[num := (idt_entries s ! num)\<lparr>
        base_lo_16 := ucast (base AND 0xFFFF),
        base_hi_16 := ucast (drop_bit 16 base AND 0xFFFF),
        base_up_32 := ucast (drop_bit 32 base AND 0xFFFFFFFF),
        gate_sel := sel, always0 := 0, gate_flags := flags\<rparr>]\<rparr>"

definition init_idt :: "image \<Rightarrow> 'a machine_scheme \<Rightarrow> 'a machine_scheme" where
  "init_idt im s =
     (let s = s\<lparr>idtp := \<lparr>tp_limit = of_nat (16 * 256 - 1), tp_base = im_idt im\<rparr>\<rparr>;
          s = s\<lparr>idt_entries := replicate 256 zero_gate\<rparr>;
          s = fold (\<lambda>n. idt_set_gate n (im_exception im n) 0x08 0x8f) [0..<13] s;
          s = idt_set_gate 13 (im_page_fault im) 0x08 0x8f s;
          s = idt_set_gate 14 (im_page_fault im) 0x08 0x8f s;
          s = fold (\<lambda>n. idt_set_gate n (im_exception im n) 0x08 0x8f) [15..<32] s;
          s = idt_set_gate 32 (im_timer im) 0x08 0x8E s;
          s = idt_set_gate 33 (im_kbd im) 0x08 0x8E s
      in s\<lparr>idt_register := Some (idtp s)\<rparr>)"

text \<open>The handlers of the exceptions that are not handled: \<open>panic\<close> prints its message and does not return.\<close>

definition exception_handler_func :: "nat \<Rightarrow> 'a machine_scheme \<Rightarrow> fault + 'a machine_scheme" where
  "exception_handler_func n s =
     rbind (printf (''exception :%d'' @ newline) [VInt (of_nat n)] s) (\<lambda>s. Inl (Panic ''exception!''))"

definition gate_base :: "idt_entry \<Rightarrow> u64" where
  "gate_base e = ucast (base_lo_16 e) OR push_bit 16 (ucast (base_hi_16 e)) OR push_bit 32 (ucast (base_up_32 e))"

section \<open>System-call registers (init_syscall of syscall.c)\<close>

abbreviation (input) IA32_EFER :: u32 where "IA32_EFER \<equiv> 0xC0000080"
abbreviation (input) IA32_STAR :: u32 where "IA32_STAR \<equiv> 0xC0000081"
abbreviation (input) IA32_LSTAR :: u32 where "IA32_LSTAR \<equiv> 0xC0000082"
abbreviation (input) CPUID_FLAG_MSR :: u32 where "CPUID_FLAG_MSR \<equiv> 0x20"

definition cpu_has_msr :: "'a machine_scheme \<Rightarrow> u32" where
  "cpu_has_msr s = cpuid_edx s 1 AND CPUID_FLAG_MSR"

definition cpu_get_msr :: "u32 \<Rightarrow> 'a machine_scheme \<Rightarrow> u32 \<times> u32" where
  "cpu_get_msr n s = (ucast (msr s n), ucast (drop_bit 32 (msr s n)))"

definition cpu_set_msr :: "u32 \<Rightarrow> u32 \<Rightarrow> u32 \<Rightarrow> 'a machine_scheme \<Rightarrow> 'a machine_scheme" where
  "cpu_set_msr n lo hi s = s\<lparr>msr := (msr s)(n := ucast lo OR push_bit 32 (ucast hi))\<rparr>"

definition init_syscall :: "image \<Rightarrow> 'a machine_scheme \<Rightarrow> fault + 'a machine_scheme" where
  "init_syscall im s =
     (if cpu_has_msr s = 0 then Inl (Panic ''cpu doesn't support MSR!'')
      else let (lo, hi) = cpu_get_msr IA32_EFER s;
               s = cpu_set_msr IA32_EFER (lo OR 1) hi s;
               lo = ucast (im_syscall im AND (push_bit 32 1 - 1));
               hi = ucast (drop_bit 32 (im_syscall im AND NOT (push_bit 32 1 - 1)));
               s = cpu_set_msr IA32_LSTAR lo hi s
           in Inr (cpu_set_msr IA32_STAR 0 (push_bit 16 0x33 OR 0x8) s))"

section \<open>What the processor finds in the interrupt table\<close>

definition gate_ok :: "idt_entry \<Rightarrow> u64 \<Rightarrow> u16 \<Rightarrow> u8 \<Rightarrow> bool" where
  "gate_ok e base sel flags \<longleftrightarrow> gate_base e = base \<and> gate_sel e = sel \<and> gate_flags e = flags \<and> always0 e = 0"

lemma gate_base_split:
  "gate_base (e\<lparr>base_lo_16 := ucast (b AND 0xFFFF), base_hi_16 := ucast (drop_bit 16 b AND 0xFFFF),
     base_up_32 := ucast (drop_bit 32 b AND 0xFFFFFFFF), gate_sel := sel, always0 := z, gate_flags := fl\<rparr>) = b"
proof (rule bit_word_eqI)
  fix k assume "k < LENGTH(64)"
  have m: "(0xFFFF :: u64) = mask 16" "(0xFFFFFFFF :: u64) = mask 32" by (simp_all add: mask_numeral)
  consider "k < 16" | "16 \<le> k" "k < 32" | "32 \<le> k" by linarith
  then show "bit (gate_base (e\<lparr>base_lo_16 := ucast (b AND 0xFFFF), base_hi_16 := ucast (drop_bit 16 b AND 0xFFFF),
     base_up_32 := ucast (drop_bit 32 b AND 0xFFFFFFFF), gate_sel := sel, always0 := z, gate_flags := fl\<rparr>)) k = bit b k"
    using \<open>k < LENGTH(64)\<close> unfolding gate_base_def m by cases (auto simp: bit_simps)
qed

lemma idt_set_gate_entries:
  assumes "length (idt_entries s) = 256" "v < 256"
  shows "length (idt_entries (idt_set_gate n b sel fl s)) = 256"
    "v \<noteq> n \<Longrightarrow> idt_entries (idt_set_gate n b sel fl s) ! v = idt_entries s ! v"
    "v = n \<Longrightarrow> gate_ok (idt_entries (idt_set_gate n b sel fl s) ! v) b sel fl"
  using assms by (simp_all add: idt_set_gate_def gate_ok_def gate_base_split)

text \<open>Gates that are set one after the other, each at a vector of its own.\<close>

definition set_gates :: "(nat \<times> u64 \<times> u8) list \<Rightarrow> 'a machine_scheme \<Rightarrow> 'a machine_scheme" where
  "set_gates gs s = fold (\<lambda>(n, b, fl). idt_set_gate n b 0x08 fl) gs s"

lemma set_gates_entries:
  assumes "length (idt_entries s) = 256" "v < 256"
  shows "length (idt_entries (set_gates gs s)) = 256 \<and> idtp (set_gates gs s) = idtp s \<and>
    (v \<notin> fst ` set gs \<longrightarrow> idt_entries (set_gates gs s) ! v = idt_entries s ! v) \<and>
    (\<forall>b fl. distinct (map fst gs) \<longrightarrow> (v, b, fl) \<in> set gs \<longrightarrow> gate_ok (idt_entries (set_gates gs s) ! v) b 0x08 fl)"
proof (induction gs rule: rev_induct)
  case (snoc g gs)
  obtain n b fl where g: "g = (n, b, fl)" by (cases g)
  have "length (idt_entries (set_gates gs s)) = 256" using snoc by blast
  note e = idt_set_gate_entries [OF this assms(2), of n b "0x08" fl]
  have t: "set_gates (gs @ [g]) s = idt_set_gate n b 0x08 fl (set_gates gs s)" by (simp add: set_gates_def g)
  have p: "idtp (set_gates (gs @ [g]) s) = idtp s" using snoc by (simp add: t idt_set_gate_def)
  show ?case
  proof (cases "v = n")
    case True
    then have "v \<in> fst ` set (gs @ [g])" by (simp add: g)
    moreover have "distinct (map fst (gs @ [g])) \<Longrightarrow> (v, c, f) \<in> set (gs @ [g]) \<Longrightarrow> c = b \<and> f = fl" for c f
      using True by (force simp: g)
    ultimately show ?thesis using e(1) e(3) [OF True] p unfolding t by auto
  next
    case False
    show ?thesis using snoc e(1) e(2) [OF False] p False unfolding t by (auto simp: g)
  qed
qed (use assms in \<open>simp add: set_gates_def\<close>)

definition vectors :: "image \<Rightarrow> (nat \<times> u64 \<times> u8) list" where
  "vectors im = map (\<lambda>n. (n, im_exception im n, 0x8f)) [0..<13] @ [(13, im_page_fault im, 0x8f), (14, im_page_fault im, 0x8f)] @
     map (\<lambda>n. (n, im_exception im n, 0x8f)) [15..<32] @ [(32, im_timer im, 0x8E), (33, im_kbd im, 0x8E)]"

lemma init_idt_vectors:
  "init_idt im s =
     (let t = set_gates (vectors im) (s\<lparr>idtp := \<lparr>tp_limit = 4095, tp_base = im_idt im\<rparr>, idt_entries := replicate 256 zero_gate\<rparr>)
      in t\<lparr>idt_register := Some (idtp t)\<rparr>)"
  by (simp add: init_idt_def set_gates_def vectors_def Let_def fold_map comp_def)

lemma map_fst_vectors: "map fst (vectors im) = [0..<34]"
proof -
  have "[0..<34] = [0..<13] @ [13, 14] @ [15..<32] @ [32, 33 :: nat]"
    using upt_add_eq_append [of 0 13 21] upt_add_eq_append [of 15 32 2] by (simp add: upt_rec_numeral)
  then show ?thesis by (simp add: vectors_def comp_def)
qed

text \<open>The routine each vector of the table leads to.\<close>

definition vector_handler :: "image \<Rightarrow> nat \<Rightarrow> u64" where
  "vector_handler im v =
     (if v = 13 \<or> v = 14 then im_page_fault im else if v = 32 then im_timer im
      else if v = 33 then im_kbd im else im_exception im v)"

text \<open>
  The address the processor assembles from the three parts of a gate is that of the handler of its
  vector, for all 32 exceptions, the timer (32) and the keyboard (33), the latter two with interrupts
  closed; every other gate is empty, and the processor uses this table.
\<close>

lemma init_idt_table:
  "(\<forall>v<34. gate_ok (idt_entries (init_idt im s) ! v) (vector_handler im v) 0x08 (if v < 32 then 0x8F else 0x8E)) \<and>
   (\<forall>v<256. 34 \<le> v \<longrightarrow> idt_entries (init_idt im s) ! v = zero_gate) \<and>
   idt_register (init_idt im s) = Some \<lparr>tp_limit = 4095, tp_base = im_idt im\<rparr>"
proof -
  let ?s = "s\<lparr>idtp := \<lparr>tp_limit = 4095, tp_base = im_idt im\<rparr>, idt_entries := replicate 256 zero_gate\<rparr>"
  have l: "length (idt_entries ?s) = 256" by simp
  note e = set_gates_entries [OF l, of _ "vectors im", folded list.set_map, unfolded map_fst_vectors]
  have "(v, vector_handler im v, if v < 32 then 0x8F else 0x8E) \<in> set (vectors im)" if "v < 34" for v
  proof -
    have "v < 13 \<or> v = 13 \<or> v = 14 \<or> 15 \<le> v \<and> v < 32 \<or> v = 32 \<or> v = 33" using that by presburger
    then show ?thesis by (auto simp: vectors_def vector_handler_def)
  qed
  then have "gate_ok (idt_entries (init_idt im s) ! v) (vector_handler im v) 0x08 (if v < 32 then 0x8F else 0x8E)" if "v < 34" for v
    using e [of v] that by (simp add: init_idt_vectors Let_def)
  moreover have "idt_entries (init_idt im s) ! v = zero_gate" if "v < 256" "34 \<le> v" for v
    using e [OF that(1)] that by (simp add: init_idt_vectors Let_def)
  moreover have "idtp (set_gates (vectors im) ?s) = \<lparr>tp_limit = 4095, tp_base = im_idt im\<rparr>"
    using e [of 0] by simp
  ultimately show ?thesis by (simp add: init_idt_vectors Let_def)
qed

section \<open>Segments and system calls\<close>

lemma ucast_halves:
  fixes w :: "128 word"
  shows "ucast (ucast w :: u64) OR push_bit 64 (ucast (ucast (drop_bit 64 w) :: u64)) = w" (is "?v = w")
proof (rule bit_word_eqI)
  fix k assume "k < LENGTH(128)"
  then show "bit ?v k = bit w k" by (cases "k < 64") (auto simp: bit_simps)
qed

lemma system_base_parts:
  assumes "get_field 16 24 w = take_bit 24 a" "get_field 56 40 w = drop_bit 24 a"
  shows "system_base w = a"
proof (rule bit_word_eqI)
  fix k assume k: "k < LENGTH(64)"
  have lo: "bit (get_field 16 24 w) i \<longleftrightarrow> i < 24 \<and> bit a i" "bit (get_field 56 40 w) i \<longleftrightarrow> bit a (24 + i)" for i
    using assms by (simp_all add: bit_simps)
  have hi: "bit (get_field 56 8 w) i \<longleftrightarrow> i < 8 \<and> bit a (24 + i)" "bit (get_field 64 32 w) i \<longleftrightarrow> i < 32 \<and> bit a (32 + i)" for i
    using lo(2) [of i] lo(2) [of "8 + i"] by (auto simp: bit_get_field add.assoc [symmetric])
  consider "k < 24" | "24 \<le> k" "k < 32" | "32 \<le> k" by linarith
  then show "bit (system_base w) k = bit a k"
    using k unfolding system_base_def bit_or_iff bit_push_bit_iff lo hi by cases auto
qed

lemma tss_descriptor:
  assumes "length (gdt s) = MAX_GDT"
  shows "system_base (system_descriptor (gdt (setup_tss im s)) 0x28) = im_tss im"
    "system_limit (system_descriptor (gdt (setup_tss im s)) 0x28) = 55"
    "get_field 40 8 (system_descriptor (gdt (setup_tss im s)) 0x28) = 0x89"
proof -
  define w where "w = system_descriptor (gdt (setup_tss im s)) 0x28"
  define w0 where "w0 = ucast (gdt s ! 5) OR push_bit 64 (ucast (gdt s ! 6) :: 128 word)"
  have w: "w = put_field 56 40 (drop_bit 24 (im_tss im)) (put_field 55 1 0 (put_field 48 4 0 (put_field 47 1 1
      (put_field 45 2 0 (put_field 40 5 9 (put_field 16 24 (im_tss im) (put_field 0 16 55 w0)))))))"
    using assms by (simp add: w_def system_descriptor_def setup_tss_def Let_def ucast_halves w0_def)
  have f: "get_field 0 16 w = 55" "get_field 16 24 w = take_bit 24 (im_tss im)" "get_field 48 4 w = 0"
    "get_field 56 40 w = take_bit 40 (drop_bit 24 (im_tss im))"
    "get_field 40 5 w = 9" "get_field 45 2 w = 0" "get_field 47 1 w = 1"
    unfolding w by (simp_all add: get_put_same get_put_other)
  have "take_bit 40 (drop_bit 24 (im_tss im)) = drop_bit 24 (im_tss im)"
    by (rule bit_word_eqI) (auto simp: bit_simps dest: bit_imp_le_length)
  then show "system_base w = im_tss im" using f by (intro system_base_parts) simp_all
  show "system_limit w = 55" using f by (simp add: system_limit_def)
  have "get_field 40 8 w = get_field 40 5 w OR push_bit 5 (get_field 45 2 w) OR push_bit 7 (get_field 47 1 w)"
  proof (rule bit_word_eqI)
    fix k assume "k < LENGTH(64)"
    have "k < 5 \<or> k = 5 \<or> k = 6 \<or> k = 7 \<or> 8 \<le> k" by presburger
    then show "bit (get_field 40 8 w) k =
        bit (get_field 40 5 w OR push_bit 5 (get_field 45 2 w) OR push_bit 7 (get_field 47 1 w)) k"
      using \<open>k < LENGTH(64)\<close> by (auto simp: bit_or_iff bit_push_bit_iff bit_get_field)
  qed
  then show "get_field 40 8 w = 0x89" using f by simp
qed

lemma split_halves:
  fixes a :: u64
  shows "ucast (ucast (a AND 0xFFFFFFFF) :: u32) OR push_bit 32 (ucast (ucast (drop_bit 32 a AND 0xFFFFFFFF) :: u32)) = a"
    (is "?v = a")
proof (rule bit_word_eqI)
  fix k assume k: "k < LENGTH(64)"
  have m: "0xFFFFFFFF = (mask 32 :: u64)" by (simp add: mask_numeral)
  show "bit ?v k = bit a k" using k unfolding m by (cases "k < 32") (auto simp: bit_simps)
qed

lemma join_low_bit:
  fixes a :: u64
  shows "ucast (ucast a OR 1 :: u32) OR push_bit 32 (ucast (ucast (drop_bit 32 a) :: u32)) = a OR 1" (is "?v = _")
proof (rule bit_word_eqI)
  fix k assume k: "k < LENGTH(64)"
  show "bit ?v k = bit (a OR 1) k" using k by (cases "k < 32") (auto simp: bit_simps)
qed

lemma init_syscall_msr:
  assumes "cpu_has_msr s \<noteq> 0"
  shows "init_syscall im s = Inr (s\<lparr>msr := (msr s)(IA32_EFER := msr s IA32_EFER OR 1, IA32_LSTAR := im_syscall im,
    IA32_STAR := 0x0033000800000000)\<rparr>)"
  using assms by (simp add: init_syscall_def cpu_get_msr_def cpu_set_msr_def split_halves join_low_bit Let_def)

lemma setup_tss_gdt:
  assumes "length (gdt s) = MAX_GDT" "i \<noteq> 5" "i \<noteq> 6"
  shows "gdt (setup_tss im s) ! i = gdt s ! i"
  using assms by (simp add: setup_tss_def Let_def)

text \<open>
  C25. After the descriptor tables and the system-call registers have been set up, \<open>syscall\<close> enters
  the kernel at \<open>__syscall_handler\<close> with kernel code and data segments, and \<open>sysret\<close> (selectors \<open>+16\<close>
  and \<open>+8\<close> from the upper half of \<open>IA32_STAR\<close>) and the \<open>iretq\<close> of \<open>__ret_to_user\<close> (\<open>0x1B\<close>, \<open>0x23\<close>)
  return to user code and data segments; the task register leads to \<open>tss\<close>. A processor without
  these registers stops the kernel.
\<close>

theorem system_call_entry:
  assumes "gdt s = gdt0"
  shows "if cpu_has_msr s = 0 then init_syscall im (setup_tss im (reload_gdt im s)) = Inl (Panic ''cpu doesn't support MSR!'')
    else \<exists>t. init_syscall im (setup_tss im (reload_gdt im s)) = Inr t \<and>
      msr t IA32_LSTAR = im_syscall im \<and> msr t IA32_EFER = msr s IA32_EFER OR 1 \<and>
      segment_of (gdt t) (ucast (drop_bit 32 (msr t IA32_STAR))) = Some (Code_Segment 0) \<and>
      segment_of (gdt t) (ucast (drop_bit 32 (msr t IA32_STAR)) + 8) = Some (Data_Segment 0) \<and>
      segment_of (gdt t) (ucast (drop_bit 48 (msr t IA32_STAR)) + 16) = Some (Code_Segment 3) \<and>
      segment_of (gdt t) (ucast (drop_bit 48 (msr t IA32_STAR)) + 8) = Some (Data_Segment 3) \<and>
      segment_of (gdt t) 0x1B = Some (Code_Segment 3) \<and> segment_of (gdt t) 0x23 = Some (Data_Segment 3) \<and>
      segment_of (gdt t) (cs_selector t) = Some (Code_Segment 0) \<and> segment_of (gdt t) (ds_selector t) = Some (Data_Segment 0) \<and>
      system_base (system_descriptor (gdt t) (task_register t)) = im_tss im \<and>
      get_field 40 8 (system_descriptor (gdt t) (task_register t)) = 0x89"
proof (cases "cpu_has_msr s = 0")
  case True
  then show ?thesis by (simp add: init_syscall_def cpu_has_msr_def setup_tss_def reload_gdt_def Let_def)
next
  case False
  let ?u = "setup_tss im (reload_gdt im s)"
  have len: "length (gdt (reload_gdt im s)) = MAX_GDT" using assms by (simp add: reload_gdt_def gdt0_def)
  have f: "cpu_has_msr ?u = cpu_has_msr s" "msr ?u = msr s" "cs_selector ?u = 8" "ds_selector ?u = 16" "task_register ?u = 0x28"
    by (simp_all add: setup_tss_def reload_gdt_def cpu_has_msr_def Let_def)
  note t = init_syscall_msr [of ?u im, unfolded f, OF False]
  have g: "gdt ?u ! Suc 0 = gdt0 ! Suc 0" "gdt ?u ! 2 = gdt0 ! 2" "gdt ?u ! 3 = gdt0 ! 3" "gdt ?u ! 4 = gdt0 ! 4"
    "gdt ?u ! 7 = gdt0 ! 7" "gdt ?u ! 8 = gdt0 ! 8"
    using setup_tss_gdt [OF len] assms by (simp_all add: reload_gdt_def)
  have d: "segment_of (gdt ?u) 8 = Some (Code_Segment 0)" "segment_of (gdt ?u) 16 = Some (Data_Segment 0)"
    "segment_of (gdt ?u) 0x1B = Some (Code_Segment 3)" "segment_of (gdt ?u) 0x23 = Some (Data_Segment 3)"
    "segment_of (gdt ?u) 0x43 = Some (Code_Segment 3)" "segment_of (gdt ?u) 0x3B = Some (Data_Segment 3)"
    by (simp_all add: segment_of_def g Let_def) (simp_all add: gdt0_def)
  have n: "(3342344 :: u16) = 8" "(3342352 :: u16) = 16" by simp_all
  show ?thesis using False d tss_descriptor(1,3) [OF len, of im] by (simp add: t f n)
qed

definition image0 :: image where
  "image0 = \<lparr>im_exception = \<lambda>n. 0xffffffff80201000 + of_nat n, im_page_fault = 0xffffffff80202000, im_timer = 0xffffffff80203000,
     im_kbd = 0xffffffff80204000, im_syscall = 0xffffffff80205000, im_idt = 0xffffffff80206000, im_gdt = 0xffffffff80207000,
     im_tss = 0xffffffff80208000, im_thread_idle = 0xffffffff80209000, im_thread_clear = 0xffffffff8020a000,
     im_run_init_process = 0xffffffff8020b000, im_init_path = 0xffffffff8020c000, im_init_env = \<lambda>n. 0xffffffff8020d000\<rparr>"

theorem system_call_entry_witness:
  "\<exists>t. init_syscall image0 (setup_tss image0 (reload_gdt image0 (machine0\<lparr>gdt := gdt0\<rparr>))) = Inr t \<and>
     msr t IA32_LSTAR = 0xffffffff80205000 \<and> system_base (system_descriptor (gdt t) (task_register t)) = 0xffffffff80208000"
proof -
  have "cpu_has_msr (machine0\<lparr>gdt := gdt0\<rparr>) \<noteq> 0"
    by (simp add: cpu_has_msr_def machine0_def kernel.extend_def machine.fields_def)
  moreover have "gdt (machine0\<lparr>gdt := gdt0\<rparr>) = gdt0" by simp
  ultimately show ?thesis using system_call_entry [of "machine0\<lparr>gdt := gdt0\<rparr>" image0] by (auto simp: image0_def)
qed

end
