(* ===== verification/Boot.thy ===== *)
theory Boot
  imports Descriptors Exec TaskMachine
begin

text \<open>
  The start of the kernel (src/sys/main.c): \<open>boot\<close> and \<open>start\<close> from the boot loader's module list to
  the first threads, \<open>run_init_process\<close>, and \<open>kbdinit\<close> (src/sys/kbd.c), which only \<open>start\<close> calls.

  The loader hands over the address of a list of modules and the physical extent of the kernel image.
  Until \<open>mm_init\<close> has run, the loader's page tables are in use: they map physical memory both at its own
  addresses, through which \<open>mm_init\<close> fills its tables, and at \<open>KERNEL_OFFSET\<close>.
\<close>

section \<open>The memory map\<close>

text \<open>Numbers at a kernel address, low byte first.\<close>

definition read32 :: "ram \<Rightarrow> u64 \<Rightarrow> u32" where
  "read32 r p = ucast (load_le 4 r p)"

record smap_t =
  sm_base :: u64
  sm_length :: u64
  sm_type :: u32

definition read_smap :: "ram \<Rightarrow> u64 \<Rightarrow> smap_t" where
  "read_smap r p = \<lparr>sm_base = load_le 8 r p, sm_length = load_le 8 r (p + 8), sm_type = read32 r (p + 16)\<rparr>"

text \<open>
  \<open>while(modulep[0] != 0x9001) modulep += modulep[1]+2;\<close> The addition is one of 32-bit numbers, the
  step one of 32-bit elements. The bound is the number of modules that fit into physical memory.
\<close>

abbreviation (input) MODULE_FUEL :: nat where "MODULE_FUEL \<equiv> 16777216"

fun find_smap :: "nat \<Rightarrow> ram \<Rightarrow> u64 \<Rightarrow> fault + u64" where
  "find_smap 0 r modulep = Inl Diverge"
| "find_smap (Suc k) r modulep =
     (if read32 r modulep = 0x9001 then Inr modulep
      else find_smap k r (modulep + 4 * ucast (read32 r (modulep + 4) + 2)))"

definition add_block :: "smap_t \<Rightarrow> 'a phymem_scheme \<Rightarrow> fault + 'a phymem_scheme" where
  "add_block e s =
     (if unat (pmb_count s) < 5 \<and> unat (pmb_count s) < length (pmb_array s)
      then Inr (s\<lparr>pmb_array := (pmb_array s)[unat (pmb_count s) := \<lparr>pb_base = sm_base e, pb_length = sm_length e\<rparr>],
        pmb_count := pmb_count s + 1\<rparr>)
      else Inl Out_Of_Bounds)"

definition scan_entry :: "smap_t \<Rightarrow> 'a phymem_scheme \<Rightarrow> fault + 'a phymem_scheme" where
  "scan_entry e s =
     (if sm_type e = 1 \<and> sm_length e \<noteq> 0
      then rbind (add_block e s)
             (printf (''Available Physical Memory [%x-%x]'' @ newline) [VLong (sm_base e), VLong (sm_base e + sm_length e)])
      else Inr s)"

text \<open>The entries of the map have 20 bytes each; the bound is again the size of physical memory.\<close>

fun scan_smap :: "nat \<Rightarrow> u64 \<Rightarrow> u64 \<Rightarrow> 'a phymem_scheme \<Rightarrow> fault + 'a phymem_scheme" where
  "scan_smap 0 smap limit s = Inl Diverge"
| "scan_smap (Suc k) smap limit s =
     (if \<not> smap < limit then Inr s
      else rbind (scan_entry (read_smap (ram s) smap) s) (scan_smap k (smap + 20) limit))"

definition read_memory_map :: "u64 \<Rightarrow> 'a phymem_scheme \<Rightarrow> fault + 'a phymem_scheme" where
  "read_memory_map modulep s =
     rbind (find_smap MODULE_FUEL (ram s) modulep) (\<lambda>modulep.
     scan_smap MODULE_FUEL (modulep + 8) (modulep + ucast (read32 (ram s) (modulep + 4)) + 8) s)"

section \<open>The keyboard before the allocator\<close>

text \<open>
  \<open>start\<close> calls \<open>kbdinit\<close> before \<open>mm_init\<close>. The pointers \<open>page_array\<close> and \<open>bitmap\<close> that \<open>get_free_page\<close>
  goes through still have their initial value, so what it reads and writes is the memory there.
\<close>

definition early_get_free_page :: "'a phymem_scheme \<Rightarrow> fault + u64 \<times> 'a phymem_scheme" where
  "early_get_free_page s =
     (case List.find (\<lambda>pfn. read32 (ram s) (PA2VA (page_array_ptr s + 4 * of_nat pfn)) = 0) [normal_pfn_start..<normal_pfn_end] of
        Some pfn \<Rightarrow>
          let r = fold (\<lambda>i. store8 (page_array_ptr s + 4 * of_nat pfn + of_nat i) (if i = 0 then 1 else 0)) [0..<4] (ram s);
              b = bitmap_ptr s + 8 * of_nat (pfn div 64);
              r = store64 b (load64 r b OR shl_one (pfn mod 64)) r
          in Inr (of_nat pfn, s\<lparr>ram := r\<rparr>)
      | None \<Rightarrow> Inl (Panic ''[get_free_page] ERROR : out of memory!''))"

definition early_get_zero_page :: "'a phymem_scheme \<Rightarrow> fault + u64 \<times> 'a phymem_scheme" where
  "early_get_zero_page s =
     rbind (early_get_free_page s) (\<lambda>(pfn, s).
     if pfn = - 1 then Inr (0, s)
     else let page = PA2VA (push_bit 12 pfn)
          in Inr (page, s\<lparr>ram := memset (VA2PA page) 0 4096 (ram s)\<rparr>))"

definition kbdinit :: "'a machine_scheme \<Rightarrow> fault + 'a machine_scheme" where
  "kbdinit s =
     rbind (early_get_zero_page s) (\<lambda>(p, s). Inr (picenable IRQ_KBD (s\<lparr>stdin_buf := p\<rparr>)))"

section \<open>start\<close>

definition start_memory :: "image \<Rightarrow> u64 \<Rightarrow> u64 \<Rightarrow> u64 \<Rightarrow> 'a machine_scheme \<Rightarrow> fault + 'a machine_scheme" where
  "start_memory im modulep pb pf s =
     rbind (read_memory_map modulep s) (\<lambda>s.
     rbind (printf (''tarfs in [%p:%p]'' @ newline) [VLong (tarfs_start s), VLong (tarfs_end s)] s) (\<lambda>s.
     let s = s\<lparr>physbase := pb, physfree := pf\<rparr> in
     rbind (pmb 0 s) (\<lambda>b.
     let s = s\<lparr>loaderbase := pb_base b, loaderend := pb_base b + pb_length b\<rparr>;
         s = timerinit (picinit s) in
     rbind (kbdinit s) (\<lambda>s. mm_init (init_idt im s)))))"

definition start_threads :: "image \<Rightarrow> 'a machine_scheme \<Rightarrow> fault + u32 \<times> 'a machine_scheme" where
  "start_threads im s =
     rbind (init_proc s) (\<lambda>s.
     rbind (init_tarfs s) (\<lambda>s.
     rbind (init_syscall im s) (\<lambda>s.
     rbind (kernel_thread (im_thread_idle im) (Some (c_lit ''idle'')) s) (\<lambda>(_, s).
     rbind (kernel_thread (im_thread_clear im) (Some (c_lit ''clear_zombie'')) s) (\<lambda>(clear_zombie_pid, s).
     rbind (find_process_by_pid clear_zombie_pid (task_headp s) s) (\<lambda>p.
     kernel_thread (im_run_init_process im) (Some (c_lit ''init_process'')) (s\<lparr>clear_zombie := p\<rparr>)))))))"

text \<open>
  The endless loop of \<open>start\<close>: wait for the init process (up to the point where the caller sleeps), and, in
  the state in which it has been woken up, start it again.
\<close>

definition start_wait :: "u64 \<Rightarrow> u32 \<Rightarrow> 'a kernel_scheme \<Rightarrow> fault + u64 \<times> 'a kernel_scheme cpu" where
  "start_wait sp kinit_pid s = waitpid_start sp kinit_pid s"

definition start_again :: "image \<Rightarrow> u64 \<Rightarrow> u64 \<Rightarrow> 'a kernel_scheme \<Rightarrow> fault + u32 \<times> 'a kernel_scheme cpu" where
  "start_again im sp child s =
     rbind (waitpid_resume child s) (\<lambda>(_, s).
     rbind (printf (''haha, I will never die!'' @ newline) [] s) (\<lambda>s.
     rbind (kernel_thread (im_run_init_process im) (Some (c_lit ''init_process'')) s) (\<lambda>(kinit_pid, s).
     rbind (schedule sp s) (\<lambda>r. Inr (kinit_pid, r)))))"

text \<open>
  \<open>boot\<close>, from the point where it has switched to its own stack: the loader's stack holds the physical address of the
  module list and of the end of the image, 32 bits each.
\<close>

definition boot :: "image \<Rightarrow> u64 \<Rightarrow> u32 \<Rightarrow> u32 \<Rightarrow> 'a machine_scheme \<Rightarrow> fault + u32 \<times> 'a machine_scheme" where
  "boot im pb modules free s =
     (let s = setup_tss im (reload_gdt im s) in
      rbind (start_memory im (ucast modules + KERNEL_OFFSET) pb (ucast free) s) (start_threads im))"

section \<open>The threads of main.c\<close>

definition run_init_process ::
  "image \<Rightarrow> u64 \<Rightarrow> u64 list \<Rightarrow> u64 \<Rightarrow> 'a kernel_scheme \<Rightarrow> fault + (u64 \<times> u64, 'a kernel_scheme) outcome" where
  "run_init_process im frame stack_frames sp s =
     rbind (deref (task_heap s) (current s)) (\<lambda>c.
     rbind (printf (''process name: %s'' @ newline) [VStr (Some (t_name c))] s) (\<lambda>s.
     let argv = frame; envp = frame + 24 in
     rbind (vstore64 argv (im_init_path im) s) (\<lambda>s.
     rbind (vstore64 (argv + 8) 0 s) (\<lambda>s.
     rbind (vstore64 envp (im_init_env im 0) s) (\<lambda>s.
     rbind (vstore64 (envp + 8) (im_init_env im 1) s) (\<lambda>s.
     rbind (vstore64 (envp + 16) (im_init_env im 2) s) (\<lambda>s.
     rbind (vstore64 (envp + 24) 0 s) (\<lambda>s.
     exec stack_frames sp (im_init_path im) argv envp s))))))))"

text \<open>One round of the demonstration threads \<open>thread_A\<close> and \<open>thread_B\<close>, which nothing starts.\<close>

definition thread_A :: "u64 \<Rightarrow> 'a kernel_scheme \<Rightarrow> fault + 'a kernel_scheme cpu" where
  "thread_A sp s = rbind (printf (''I'' @ [CHR 0x27] @ ''m thread_A'' @ newline) [] s) (schedule sp)"

definition thread_B :: "u64 \<Rightarrow> 'a kernel_scheme \<Rightarrow> fault + 'a kernel_scheme cpu" where
  "thread_B sp s = rbind (printf (''I'' @ [CHR 0x27] @ ''m thread_B'' @ newline) [] s) (schedule sp)"

section \<open>What is read from the memory map\<close>

definition usable :: "smap_t \<Rightarrow> bool" where
  "usable e \<longleftrightarrow> sm_type e = 1 \<and> sm_length e \<noteq> 0"

definition block_of :: "smap_t \<Rightarrow> phymem_block" where
  "block_of e = \<lparr>pb_base = sm_base e, pb_length = sm_length e\<rparr>"

definition smap_entries :: "ram \<Rightarrow> u64 \<Rightarrow> nat \<Rightarrow> smap_t list" where
  "smap_entries r a n = map (\<lambda>i. read_smap r (a + 20 * of_nat i)) [0..<n]"

text \<open>The \<open>k\<close>-th module of the loader's list.\<close>

definition next_module :: "ram \<Rightarrow> u64 \<Rightarrow> u64" where
  "next_module r p = p + 4 * ucast (read32 r (p + 4) + 2)"

lemma find_smap_chain:
  assumes "k < fuel" "\<forall>i<k. read32 r ((next_module r ^^ i) p) \<noteq> 0x9001" "read32 r ((next_module r ^^ k) p) = 0x9001"
  shows "find_smap fuel r p = Inr ((next_module r ^^ k) p)"
  using assms
proof (induction fuel arbitrary: p k)
  case (Suc fuel)
  show ?case
  proof (cases k)
    case 0
    then show ?thesis using Suc.prems by simp
  next
    case (Suc j)
    have "read32 r p \<noteq> 0x9001" using Suc.prems(2) Suc by (metis funpow_0 zero_less_Suc)
    moreover have "\<forall>i<j. read32 r ((next_module r ^^ i) (next_module r p)) \<noteq> 0x9001"
      using Suc.prems(2) Suc by (metis Suc_less_eq funpow_Suc_right comp_apply)
    moreover have "read32 r ((next_module r ^^ j) (next_module r p)) = 0x9001"
      using Suc.prems(3) Suc by (metis funpow_Suc_right comp_apply)
    ultimately show ?thesis
      using Suc.IH [of j "next_module r p"] Suc.prems(1) Suc
      by (simp add: next_module_def [of r p, symmetric] funpow_Suc_right del: funpow.simps)
  qed
qed simp

lemma scan_entry_usable:
  assumes "usable e" "unat (pmb_count s) < 5" "length (pmb_array s) = 5"
  shows "\<exists>sb row col. scan_entry e s = Inr (s\<lparr>screen_buffer := sb, cursor_row := row, cursor_col := col,
    pmb_array := (pmb_array s)[unat (pmb_count s) := block_of e], pmb_count := pmb_count s + 1\<rparr>)"
proof -
  define u where "u = s\<lparr>pmb_array := (pmb_array s)[unat (pmb_count s) := block_of e], pmb_count := pmb_count s + 1\<rparr>"
  have "add_block e s = Inr u" using assms(2,3) by (simp add: add_block_def u_def block_of_def)
  moreover obtain t where "printf (''Available Physical Memory [%x-%x]'' @ newline) [VLong (sm_base e), VLong (sm_base e + sm_length e)] u
      = Inr (print_text t u)"
    using printf_eq [of "''Available Physical Memory [%x-%x]'' @ newline" "[VLong (sm_base e), VLong (sm_base e + sm_length e)]"] by fastforce
  moreover obtain b r c where "print_text t u = u\<lparr>screen_buffer := b, cursor_row := r, cursor_col := c\<rparr>" by (rule print_textE)
  ultimately show ?thesis using assms(1) unfolding usable_def by (intro exI [of _ b] exI [of _ r] exI [of _ c]) (simp add: scan_entry_def u_def)
qed

lemma scan_entry_skips: "\<not> usable e \<Longrightarrow> scan_entry e s = Inr s"
  by (auto simp: usable_def scan_entry_def)

lemma scan_entry_ram: "scan_entry e s = Inr t \<Longrightarrow> ram t = ram s"
proof (cases "usable e")
  case True
  assume "scan_entry e s = Inr t"
  then show ?thesis using True unfolding scan_entry_def usable_def
    by (auto simp: rbind_eq_Inr add_block_def printf_def split: if_splits)
qed (simp add: scan_entry_skips)

lemma scan_smap_rfold:
  assumes "n < fuel" "\<forall>i\<le>n. a + 20 * of_nat i < limit \<longleftrightarrow> i < n"
  shows "scan_smap fuel a limit s = rfold scan_entry (smap_entries (ram s) a n) s"
  using assms
proof (induction n arbitrary: a fuel s)
  case 0
  then obtain k where "fuel = Suc k" by (cases fuel) auto
  then show ?case using 0 by (simp add: smap_entries_def)
next
  case (Suc n)
  then obtain k where k: "fuel = Suc k" "n < k" by (cases fuel) auto
  have a: "a < limit" using Suc.prems(2) [rule_format, of 0] by simp
  have "\<forall>i\<le>n. (a + 20) + 20 * of_nat i < limit \<longleftrightarrow> i < n"
  proof (intro allI impI)
    fix i assume "i \<le> n"
    then show "(a + 20) + 20 * of_nat i < limit \<longleftrightarrow> i < n"
      using Suc.prems(2) [rule_format, of "Suc i"] by (simp add: algebra_simps)
  qed
  note ih = Suc.IH [OF k(2) this]
  have es: "smap_entries (ram s) a (Suc n) = read_smap (ram s) a # smap_entries (ram s) (a + 20) n"
    unfolding smap_entries_def upt_conv_Cons [OF zero_less_Suc] map_Suc_upt [symmetric]
    by (simp add: algebra_simps)
  show ?case
    using a ih by (cases "scan_entry (read_smap (ram s) a) s") (auto simp: k(1) es dest: scan_entry_ram)
qed

text \<open>The blocks recorded so far, followed by those of the entries that are scanned.\<close>

lemma scan_entries:
  assumes "length (pmb_array s) = 5" "unat (pmb_count s) = c" "c + length (filter usable es) \<le> 5"
  shows "\<exists>sb row col. rfold scan_entry es s = Inr (s\<lparr>screen_buffer := sb, cursor_row := row, cursor_col := col,
    pmb_array := take c (pmb_array s) @ map block_of (filter usable es) @ drop (c + length (filter usable es)) (pmb_array s),
    pmb_count := of_nat (c + length (filter usable es))\<rparr>)"
  using assms
proof (induction es arbitrary: s c)
  case Nil
  have "pmb_count s = of_nat c" using Nil(2) by auto
  then show ?case
    by (intro exI [of _ "screen_buffer s"] exI [of _ "cursor_row s"] exI [of _ "cursor_col s"]) simp
next
  case (Cons e es)
  show ?case
  proof (cases "usable e")
    case True
    then have c: "c < 5" using Cons.prems(3) by simp
    obtain sb row col where t: "scan_entry e s = Inr (s\<lparr>screen_buffer := sb, cursor_row := row, cursor_col := col,
        pmb_array := (pmb_array s)[c := block_of e], pmb_count := pmb_count s + 1\<rparr>)" (is "_ = Inr ?t")
      using scan_entry_usable [OF True _ Cons.prems(1)] Cons.prems(2) c by auto
    have "unat (pmb_count s + 1) = Suc c" using Cons.prems(2) c by (simp add: unat_word_ariths)
    then obtain sb' row' col' where "rfold scan_entry es ?t = Inr (?t\<lparr>screen_buffer := sb', cursor_row := row', cursor_col := col',
        pmb_array := take (Suc c) (pmb_array ?t) @ map block_of (filter usable es) @ drop (Suc c + length (filter usable es)) (pmb_array ?t),
        pmb_count := of_nat (Suc c + length (filter usable es))\<rparr>)"
      using Cons.IH [of ?t "Suc c"] Cons.prems True by auto
    moreover have "take (Suc c) ((pmb_array s)[c := block_of e]) = take c (pmb_array s) @ [block_of e]"
      using c Cons.prems(1) by (simp add: take_Suc_conv_app_nth)
    moreover have "drop (Suc c + m) ((pmb_array s)[c := block_of e]) = drop (Suc c + m) (pmb_array s)" for m by simp
    ultimately show ?thesis using True t by auto
  qed (use Cons in \<open>simp add: scan_entry_skips\<close>)
qed

lemma scan_entries_overflow:
  assumes "length (pmb_array s) = 5" "unat (pmb_count s) = c" "c \<le> 5" "5 < c + length (filter usable es)"
  shows "rfold scan_entry es s = Inl Out_Of_Bounds"
  using assms
proof (induction es arbitrary: s c)
  case (Cons e es)
  show ?case
  proof (cases "usable e \<and> c < 5")
    case True
    then obtain sb row col where t: "scan_entry e s = Inr (s\<lparr>screen_buffer := sb, cursor_row := row, cursor_col := col,
        pmb_array := (pmb_array s)[c := block_of e], pmb_count := pmb_count s + 1\<rparr>)" (is "_ = Inr ?t")
      using scan_entry_usable [of e s] Cons.prems(1,2) by auto
    have "unat (pmb_count s + 1) = Suc c" using Cons.prems(2) True by (simp add: unat_word_ariths)
    then have "rfold scan_entry es ?t = Inl Out_Of_Bounds" using Cons.IH [of ?t "Suc c"] Cons.prems True by auto
    then show ?thesis using t by simp
  next
    case False
    then show ?thesis using Cons by (cases "usable e") (auto simp: scan_entry_skips, simp add: scan_entry_def usable_def add_block_def)
  qed
qed simp

lemma smap_range:
  fixes a :: u64 and len :: u32
  assumes "unat a + unat len + 40 < 18446744073709551616" "i \<le> (unat len + 19) div 20"
  shows "a + 8 + 20 * of_nat i < a + ucast len + 8 \<longleftrightarrow> i < (unat len + 19) div 20"
proof -
  have i: "20 * i \<le> unat len + 19" using assms(2) by linarith
  have ll: "unat len < 2 ^ LENGTH(32)" by (rule unsigned_less)
  have l: "unat (ucast len :: u64) = unat len" using ll by (simp add: unsigned_ucast_eq take_bit_eq_mod)
  have "unat (a + 8 + 20 * of_nat i) = unat a + 8 + 20 * i"
    using i assms(1) by (simp add: u64_unat)
  moreover have "unat (a + ucast len + 8) = unat a + unat len + 8"
    using assms(1) by (simp add: u64_unat l)
  ultimately have "a + 8 + 20 * of_nat i < a + ucast len + 8 \<longleftrightarrow> 20 * i < unat len" by (simp add: u64_less_iff)
  also have "\<dots> \<longleftrightarrow> i < (unat len + 19) div 20" by linarith
  finally show ?thesis .
qed

text \<open>
  What the loader leaves in memory: the first module with tag 0x9001 is the \<open>k\<close>-th of its list, at \<open>p\<close>, and \<open>us\<close> are
  the entries in its \<open>len\<close> bytes that are memory and not empty.
\<close>

definition loader_map :: "ram \<Rightarrow> u64 \<Rightarrow> smap_t list \<Rightarrow> bool" where
  "loader_map r modulep us \<longleftrightarrow> (\<exists>k p len n. p = (next_module r ^^ k) modulep \<and> read32 r p = 0x9001 \<and>
     (\<forall>i<k. read32 r ((next_module r ^^ i) modulep) \<noteq> 0x9001) \<and> k < MODULE_FUEL \<and>
     len = read32 r (p + 4) \<and> n = (unat len + 19) div 20 \<and> n < MODULE_FUEL \<and>
     unat p + unat len + 40 < 18446744073709551616 \<and> us = filter usable (smap_entries r (p + 8) n))"

definition with_blocks :: "smap_t list \<Rightarrow> 'a phymem_scheme \<Rightarrow> 'a phymem_scheme" where
  "with_blocks us s = s\<lparr>pmb_array := map block_of us @ drop (length us) (pmb_array s), pmb_count := of_nat (length us)\<rparr>"

lemma read_memory_map_eq:
  assumes m: "loader_map (ram s) modulep us" and array: "length (pmb_array s) = 5" "pmb_count s = 0"
  shows "if length us \<le> 5
    then \<exists>sb row col. read_memory_map modulep s = Inr (with_blocks us (s\<lparr>screen_buffer := sb, cursor_row := row, cursor_col := col\<rparr>))
    else read_memory_map modulep s = Inl Out_Of_Bounds"
proof -
  obtain k p len n where module: "p = (next_module (ram s) ^^ k) modulep" "read32 (ram s) p = 0x9001"
      "\<forall>i<k. read32 (ram s) ((next_module (ram s) ^^ i) modulep) \<noteq> 0x9001" "k < MODULE_FUEL"
    and size: "len = read32 (ram s) (p + 4)" "n = (unat len + 19) div 20" "n < MODULE_FUEL"
      "unat p + unat len + 40 < 18446744073709551616"
    and us: "us = filter usable (smap_entries (ram s) (p + 8) n)"
    using m unfolding loader_map_def by blast
  have "read_memory_map modulep s = rfold scan_entry (smap_entries (ram s) (p + 8) n) s"
    using find_smap_chain [OF module(4,3)] module(1,2) scan_smap_rfold [OF size(3), of "p + 8" "p + ucast len + 8" s]
      smap_range [OF size(4)] size(1,2)
    by (simp add: read_memory_map_def)
  then show ?thesis
    using scan_entries [OF array(1), of 0 "smap_entries (ram s) (p + 8) n"] array(2)
      scan_entries_overflow [OF array(1), of 0 "smap_entries (ram s) (p + 8) n"]
    by (auto simp: us with_blocks_def)
qed

section \<open>Devices and tables only\<close>

text \<open>What the device drivers and \<open>init_idt\<close> do not change is \<open>off_devices\<close>.\<close>

definition off_devices :: "'a machine_scheme \<Rightarrow> 'a machine_scheme" where
  "off_devices s = s\<lparr>port_writes := [], irqmask := 0, idt_entries := [], idtp := \<lparr>tp_limit = 0, tp_base = 0\<rparr>, idt_register := None\<rparr>"

lemma off_devices_outb [simp]: "off_devices (outb p b s) = off_devices s"
  by (simp add: off_devices_def outb_def)

lemma off_devices_pic [simp]:
  "off_devices (picsetmask m s) = off_devices s" "off_devices (picenable irq s) = off_devices s"
  "off_devices (picinit s) = off_devices s" "off_devices (timerinit s) = off_devices s"
proof -
  show m: "off_devices (picsetmask m s) = off_devices s" for m and s :: "'a machine_scheme"
  proof -
    have "off_devices (s\<lparr>irqmask := m\<rparr>) = off_devices s" by (simp add: off_devices_def)
    then show ?thesis by (simp add: picsetmask_def)
  qed
  then show e: "off_devices (picenable irq s) = off_devices s" for irq and s :: "'a machine_scheme" by (simp add: picenable_def)
  show "off_devices (picinit s) = off_devices s" "off_devices (timerinit s) = off_devices s"
    by (simp_all add: picinit_def timerinit_def m e Let_def)
qed

lemma off_devices_idt [simp]: "off_devices (init_idt im s) = off_devices s"
proof -
  have g: "off_devices (set_gates gs s) = off_devices s" for gs and s :: "'a machine_scheme"
  proof (induction gs arbitrary: s)
    case (Cons g gs)
    obtain n b fl where "g = (n, b, fl)" by (cases g)
    moreover have "off_devices (idt_set_gate n b 8 fl s) = off_devices s" by (simp add: off_devices_def idt_set_gate_def)
    ultimately show ?case using Cons by (simp add: set_gates_def)
  qed (simp add: set_gates_def)
  let ?s = "s\<lparr>idtp := \<lparr>tp_limit = 4095, tp_base = im_idt im\<rparr>, idt_entries := replicate 256 zero_gate\<rparr>"
  have "off_devices (u\<lparr>idt_register := r\<rparr>) = off_devices u" for r and u :: "'a machine_scheme" by (simp add: off_devices_def)
  moreover have "off_devices ?s = off_devices s" by (simp add: off_devices_def)
  ultimately show ?thesis by (simp add: init_idt_vectors Let_def g)
qed

lemma off_devices_fields:
  assumes "off_devices t = off_devices s"
  shows "ram t = ram s" "page_array_ptr t = page_array_ptr s" "bitmap_ptr t = bitmap_ptr s" "boot_layout t = boot_layout s"
    "reserved t = reserved s" "loaderbase t = loaderbase s" "loaderend t = loaderend s"
  using arg_cong [OF assms, of ram] arg_cong [OF assms, of page_array_ptr] arg_cong [OF assms, of bitmap_ptr]
    arg_cong [OF assms, of boot_layout] arg_cong [OF assms, of reserved] arg_cong [OF assms, of loaderbase] arg_cong [OF assms, of loaderend]
  by (simp_all add: off_devices_def boot_layout_def reserved_def last_block_def free_frame_def)

section \<open>Memory that start-up leaves alone\<close>

lemma load8_store64_other: "unat a div 8 \<noteq> unat b div 8 \<Longrightarrow> load8 (store64 b v r) a = load8 r a"
proof -
  assume "unat a div 8 \<noteq> unat b div 8"
  then have "unat (drop_bit 3 a) \<noteq> unat (drop_bit 3 b)" by (simp add: unat_drop64)
  then have "drop_bit 3 a \<noteq> drop_bit 3 b" by metis
  then show ?thesis by (simp add: load8_def store64_def)
qed

lemma load8_put_entry:
  assumes "small_frame g" "j < 512" "unat a < 4096 * g"
  shows "load8 (put_entry (frame_pa g) j v r) a = load8 r a"
proof -
  have "unat a div 8 < 512 * g" using assms(3) by simp
  moreover have "unat (entry_pa g j) div 8 = 512 * g + j" using assms(1,2) by (simp add: unat_entry_pa)
  ultimately show ?thesis unfolding put_entry_frame by (intro load8_store64_other) simp
qed

lemma load8_initial_pgtables:
  assumes F: "F + 515 < 1099511627776" and a: "unat a < 4096 * F"
  shows "load8 (initial_pgtables (frame_pa F) r) a = load8 r a"
proof -
  have put: "load8 (put_entry (frame_pa g) j v r') a = load8 r' a" if "F \<le> g" "g \<le> F + 515" "j < 512" for g j v r'
    using that F a by (intro load8_put_entry) (auto simp: small_frame_def)
  have f1: "load8 (fold (\<lambda>j. put_entry (frame_pa g) j (v j)) [0..<n] r') a = load8 r' a" if "F \<le> g" "g \<le> F + 515" "n \<le> 512" for g v r' n
    by (rule fold_invariant [where P = "\<lambda>x. load8 x a = load8 r' a"]) (use that put in auto)
  have "load8 (fold (\<lambda>i. fold (\<lambda>j. put_entry (frame_pa (F + 3 + i)) j (v i j)) [0..<512]) [0..<512] r') a = load8 r' a" for v r'
    by (rule fold_invariant [where P = "\<lambda>x. load8 x a = load8 r' a"]) (use f1 in auto)
  then show ?thesis unfolding initial_pgtables_frames [OF F] by (simp add: f1 put)
qed

lemma load8_early_memset:
  assumes "p \<in> pool" "unat a < normal_pfn_start * PG_SIZE"
  shows "load8 (memset (frame_pa p) 0 4096 r) a = load8 r a"
proof -
  have f: "unat (frame_pa p) = 4096 * p" using unat_frame_pa pool_small [OF assms(1)] by blast
  then have "unat a < unat (frame_pa p)" "unat (frame_pa p) < 134217728" using assms by (simp_all add: pool_def)
  then have "4096 \<le> unat (a - frame_pa p)" by (simp add: unat_sub_if')
  then show ?thesis by (simp add: load8_memset)
qed

section \<open>From the memory map to the allocator\<close>

text \<open>The first frame whose \<open>ref\<close> would be at an address that holds 0, while \<open>page_array\<close> is still NULL.\<close>

definition early_frame :: "ram \<Rightarrow> nat option" where
  "early_frame r = List.find (\<lambda>pfn. read32 r (PA2VA (4 * of_nat pfn)) = 0) [normal_pfn_start..<normal_pfn_end]"

lemma kbdinit_runs:
  assumes "page_array_ptr s = 0" "bitmap_ptr s = 0" "early_frame (ram s) = Some pfn"
  shows "\<exists>r. kbdinit s = Inr (picenable IRQ_KBD (s\<lparr>ram := r, stdin_buf := PA2VA (frame_pa pfn)\<rparr>)) \<and>
    (\<forall>a. 0x20000 \<le> unat a \<and> unat a < normal_pfn_start * PG_SIZE \<longrightarrow> load8 r a = load8 (ram s) a)"
proof -
  have p: "pfn \<in> pool" using assms(3) by (auto simp: early_frame_def find_upt_Some pool_def)
  define r1 where "r1 = fold (\<lambda>i. store8 (4 * of_nat pfn + of_nat i) (if i = 0 then 1 else 0)) [0..<4] (ram s)"
  define r where "r = store64 (8 * of_nat (pfn div 64)) (load64 r1 (8 * of_nat (pfn div 64)) OR shl_one (pfn mod 64)) r1"
  have "early_get_free_page s = Inr (of_nat pfn, s\<lparr>ram := r\<rparr>)"
    using assms by (simp add: early_get_free_page_def early_frame_def Let_def r_def r1_def)
  moreover have "load8 r a = load8 (ram s) a" if a: "0x20000 \<le> unat a" for a
  proof -
    have q: "pfn div 64 < 512" "pfn < 32766" using p by (simp_all add: pool_def div_less_iff_less_mult)
    have u1: "unat (8 * of_nat (pfn div 64) :: u64) = 8 * (pfn div 64)"
      using q(1) by (subst unat_mult64) (simp_all add: unat_of_nat64)
    have u2: "unat (4 * of_nat pfn + of_nat i :: u64) = 4 * pfn + i" if "i < 4" for i
      using q(2) that by (simp add: u64_unat)
    have "load8 r a = load8 r1 a"
      unfolding r_def by (rule load8_store64_other) (use a q u1 in simp)
    also have "\<dots> = load8 (ram s) a" unfolding r1_def
    proof (rule fold_invariant [where P = "\<lambda>x. load8 x a = load8 (ram s) a"])
      fix i and x assume "i \<in> set [0..<4]" "load8 x a = load8 (ram s) a"
      moreover from this have "4 * of_nat pfn + of_nat i \<noteq> a" using u2 [of i] a q by auto
      ultimately show "load8 (store8 (4 * of_nat pfn + of_nat i) (if i = 0 then 1 else 0) x) a = load8 (ram s) a"
        by (simp add: load8_store8)
    qed simp
    finally show ?thesis .
  qed
  ultimately show ?thesis
    using p pool_small [OF p] load8_early_memset [OF p]
    by (intro exI [of _ "memset (frame_pa pfn) 0 4096 r"])
       (simp add: kbdinit_def early_get_zero_page_def of_nat_pool push_frame Let_def)
qed

lemma chips_follow_cong: "port_writes t = port_writes s \<Longrightarrow> irqmask t = irqmask s \<Longrightarrow> chips_follow c1 c2 t = chips_follow c1 c2 s"
  by (simp add: chips_follow_def chip_after_def)

lemma picenable_follow: "chips_follow c1 c2 s \<Longrightarrow> chips_follow c1 c2 (picenable irq s)"
  unfolding picenable_def by (rule picsetmask_follow)

lemma init_idt_ports: "port_writes (init_idt im s) = port_writes s" "irqmask (init_idt im s) = irqmask s"
proof -
  have "port_writes (set_gates gs s) = port_writes s \<and> irqmask (set_gates gs s) = irqmask s" for gs and s :: "'a machine_scheme"
  proof (induction gs arbitrary: s)
    case (Cons g gs)
    obtain n b fl where "g = (n, b, fl)" by (cases g)
    then show ?case using Cons [of "idt_set_gate n b 8 fl s"] by (simp add: set_gates_def idt_set_gate_def)
  qed (simp add: set_gates_def)
  then show "port_writes (init_idt im s) = port_writes s" "irqmask (init_idt im s) = irqmask s"
    by (simp_all add: init_idt_vectors Let_def)
qed

lemma machine_more:
  fixes s :: "'a machine_scheme"
  assumes "phymem.more t = phymem.more s"
  shows "port_writes t = port_writes s" "irqmask t = irqmask s" "idt_entries t = idt_entries s" "idt_register t = idt_register s"
    "stdin_buf t = stdin_buf s" "task_heap t = task_heap s" "kernel.more t = kernel.more s" "sleep_task_list t = sleep_task_list s"
    "wait_stdin_list t = wait_stdin_list s" "zombie_list t = zombie_list s" "zombie_count t = zombie_count s" "pid_count t = pid_count s"
    "cpuid_edx t = cpuid_edx s" "tarfs_start t = tarfs_start s" "tarfs_end t = tarfs_end s"
  using assms by (cases s; cases t; simp)+

text \<open>No task exists yet.\<close>

definition fresh_tasks :: "'a kernel_scheme \<Rightarrow> bool" where
  "fresh_tasks s \<longleftrightarrow> task_heap s = Map.empty \<and> sleep_task_list s = 0 \<and> wait_stdin_list s = 0 \<and> zombie_list s = 0 \<and>
     zombie_count s = 0 \<and> pid_count s = 0"

definition boot_blocks :: "smap_t list \<Rightarrow> u64 \<Rightarrow> u64 \<Rightarrow> 'a phymem_scheme \<Rightarrow> 'a phymem_scheme" where
  "boot_blocks us pb pf s = (with_blocks us s)\<lparr>physbase := pb, physfree := pf, loaderbase := sm_base (us ! 0),
     loaderend := sm_base (us ! 0) + sm_length (us ! 0)\<rparr>"

lemma boot_blocks_screen:
  "boot_layout (boot_blocks us pb pf (s\<lparr>screen_buffer := sb, cursor_row := row, cursor_col := col\<rparr>)) = boot_layout (boot_blocks us pb pf s)"
  "reserved (boot_blocks us pb pf (s\<lparr>screen_buffer := sb, cursor_row := row, cursor_col := col\<rparr>)) = reserved (boot_blocks us pb pf s)"
  by (simp_all add: boot_blocks_def with_blocks_def boot_layout_def reserved_def last_block_def free_frame_def)

lemma off_devices_set: "off_devices (s\<lparr>ram := r, stdin_buf := p\<rparr>) = (off_devices s)\<lparr>ram := r, stdin_buf := p\<rparr>"
  by (simp add: off_devices_def)

lemma boot_layout_ram: "boot_layout (s\<lparr>ram := r, stdin_buf := p\<rparr>) = boot_layout s" for s :: "'a kernel_scheme"
  by (simp add: boot_layout_def)

lemma reserved_ram: "reserved (s\<lparr>ram := r, stdin_buf := p\<rparr>) = reserved s" for s :: "'a kernel_scheme"
  by (simp add: reserved_def last_block_def free_frame_def)

lemma fresh_off:
  assumes "off_devices t = off_devices s"
  shows "fresh_tasks t = fresh_tasks s" "cpuid_edx t = cpuid_edx s"
  using arg_cong [OF assms, of fresh_tasks] arg_cong [OF assms, of cpuid_edx] by (simp_all add: off_devices_def fresh_tasks_def)

lemma timerinit_mask: "bit (irqmask (timerinit s)) i \<longleftrightarrow> bit (irqmask s) i \<and> i \<noteq> IRQ_TIMER"
  using timerinit_calls [of s] by (auto simp: bit_picenable)

lemma start_memory_steps:
  fixes s :: "'a machine_scheme"
  assumes m: "loader_map (ram s) modulep us" "length (pmb_array s) = 5" "pmb_count s = 0" "2 \<le> length us" "length us \<le> 5"
    and l: "boot_layout (boot_blocks us pb pf s)" and k: "page_array_ptr s = 0" "bitmap_ptr s = 0" "early_frame (ram s) = Some pfn"
  obtains sb row col r s5 s7 where
    "start_memory im modulep pb pf s = mm_init s7" "boot_layout s7"
    "s5 = timerinit (picinit (boot_blocks us pb pf (s\<lparr>screen_buffer := sb, cursor_row := row, cursor_col := col\<rparr>)))"
    "s7 = init_idt im (picenable IRQ_KBD (s5\<lparr>ram := r, stdin_buf := PA2VA (frame_pa pfn)\<rparr>))"
    "off_devices s7 = off_devices ((boot_blocks us pb pf (s\<lparr>screen_buffer := sb, cursor_row := row, cursor_col := col\<rparr>))\<lparr>ram := r, stdin_buf := PA2VA (frame_pa pfn)\<rparr>)"
    "\<And>a. 0x20000 \<le> unat a \<Longrightarrow> unat a < normal_pfn_start * PG_SIZE \<Longrightarrow> load8 r a = load8 (ram s) a"
proof -
  obtain sb row col where s1: "read_memory_map modulep s = Inr (with_blocks us (s\<lparr>screen_buffer := sb, cursor_row := row, cursor_col := col\<rparr>))"
    (is "_ = Inr ?s1")
    using read_memory_map_eq [OF m(1-3)] m(5) by auto
  obtain w where "printf (''tarfs in [%p:%p]'' @ newline) [VLong (tarfs_start ?s1), VLong (tarfs_end ?s1)] ?s1 = Inr (print_text w ?s1)"
    using printf_eq [of "''tarfs in [%p:%p]'' @ newline" "[VLong (tarfs_start ?s1), VLong (tarfs_end ?s1)]"] by fastforce
  moreover obtain sb' row' col' where "print_text w ?s1 = ?s1\<lparr>screen_buffer := sb', cursor_row := row', cursor_col := col'\<rparr>"
    by (rule print_textE)
  ultimately have s2: "printf (''tarfs in [%p:%p]'' @ newline) [VLong (tarfs_start ?s1), VLong (tarfs_end ?s1)] ?s1 =
      Inr (with_blocks us (s\<lparr>screen_buffer := sb', cursor_row := row', cursor_col := col'\<rparr>))" (is "_ = Inr ?s2")
    by (simp add: with_blocks_def)
  have s3: "pmb 0 (?s2\<lparr>physbase := pb, physfree := pf\<rparr>) = Inr (block_of (us ! 0))"
    using m(2,4,5) by (auto simp: pmb_def with_blocks_def nth_append)
  define s4 where "s4 = boot_blocks us pb pf (s\<lparr>screen_buffer := sb', cursor_row := row', cursor_col := col'\<rparr>)"
  have s4: "s4 = (?s2\<lparr>physbase := pb, physfree := pf\<rparr>)\<lparr>loaderbase := pb_base (block_of (us ! 0)),
      loaderend := pb_base (block_of (us ! 0)) + pb_length (block_of (us ! 0))\<rparr>"
    by (simp add: s4_def boot_blocks_def block_of_def)
  define s5 where "s5 = timerinit (picinit s4)"
  have o5: "off_devices s5 = off_devices s4" by (simp add: s5_def)
  have "page_array_ptr s5 = 0" "bitmap_ptr s5 = 0" "early_frame (ram s5) = Some pfn"
    using off_devices_fields [OF o5] k by (simp_all add: s4_def boot_blocks_def with_blocks_def)
  then obtain r where s6: "kbdinit s5 = Inr (picenable IRQ_KBD (s5\<lparr>ram := r, stdin_buf := PA2VA (frame_pa pfn)\<rparr>))" (is "_ = Inr ?s6")
    and r: "\<And>a. 0x20000 \<le> unat a \<Longrightarrow> unat a < normal_pfn_start * PG_SIZE \<Longrightarrow> load8 r a = load8 (ram s5) a"
    using kbdinit_runs by blast
  define s7 where "s7 = init_idt im ?s6"
  have o7: "off_devices s7 = off_devices (s4\<lparr>ram := r, stdin_buf := PA2VA (frame_pa pfn)\<rparr>)"
    using arg_cong [OF o5, of "\<lambda>s. s\<lparr>ram := r, stdin_buf := PA2VA (frame_pa pfn)\<rparr>"] by (simp add: s7_def off_devices_set)
  have "boot_layout s7" using off_devices_fields(4) [OF o7] l by (simp add: boot_layout_ram s4_def boot_blocks_screen)
  moreover have "start_memory im modulep pb pf s = mm_init s7"
    unfolding start_memory_def s1 rbind_Inr s2 Let_def s3 s4 [symmetric] s5_def [symmetric] s6 s7_def [symmetric] by (rule refl)
  moreover have "ram s5 = ram s" using off_devices_fields(1) [OF o5] by (simp add: s4_def boot_blocks_def with_blocks_def)
  ultimately show thesis
    using that [OF _ _ s5_def [unfolded s4_def] s7_def o7 [unfolded s4_def]] r by simp
qed

lemma start_memory_runs:
  fixes s :: "'a machine_scheme"
  assumes m: "loader_map (ram s) modulep us" "length (pmb_array s) = 5" "pmb_count s = 0" "2 \<le> length us" "length us \<le> 5"
    and l: "boot_layout (boot_blocks us pb pf s)" and k: "page_array_ptr s = 0" "bitmap_ptr s = 0" "early_frame (ram s) = Some pfn"
    and irq: "irqmask s \<noteq> 0xFFFF"
  shows "\<exists>u. start_memory im modulep pb pf s = Inr u \<and>
    (\<forall>p < PAGE_ARRAY_SIZE. page_ref u p =
       (if p \<in> frames (sm_base (us ! 0)) (sm_base (us ! 0) + sm_length (us ! 0)) then 0
        else if \<exists>q\<in>reserved (boot_blocks us pb pf s). same_slot p q then 1 else 0)) \<and>
    (\<forall>c1 c2. chips_follow c1 c2 u) \<and> (\<forall>i<16. bit (irqmask u) i \<longleftrightarrow> bit (irqmask s) i \<and> i \<noteq> IRQ_TIMER \<and> i \<noteq> IRQ_KBD) \<and>
    (\<forall>v<34. gate_ok (idt_entries u ! v) (vector_handler im v) 0x08 (if v < 32 then 0x8F else 0x8E)) \<and>
    stdin_buf u = PA2VA (frame_pa pfn) \<and> fresh_tasks u = fresh_tasks s \<and> cpu_has_msr u = cpu_has_msr s \<and>
    tarfs_start u = tarfs_start s \<and> tarfs_end u = tarfs_end s \<and>
    (\<forall>a. 0x20000 \<le> unat a \<and> unat a < unat pf \<and> unat a < normal_pfn_start * PG_SIZE \<longrightarrow> load8 (ram u) a = load8 (ram s) a)"
proof -
  obtain sb row col r s5 s7 where st: "start_memory im modulep pb pf s = mm_init s7" "boot_layout s7"
    "s5 = timerinit (picinit (boot_blocks us pb pf (s\<lparr>screen_buffer := sb, cursor_row := row, cursor_col := col\<rparr>)))"
    "s7 = init_idt im (picenable IRQ_KBD (s5\<lparr>ram := r, stdin_buf := PA2VA (frame_pa pfn)\<rparr>))" (is "_ = init_idt im ?s6")
    "off_devices s7 = off_devices ((boot_blocks us pb pf (s\<lparr>screen_buffer := sb, cursor_row := row, cursor_col := col\<rparr>))\<lparr>ram := r, stdin_buf := PA2VA (frame_pa pfn)\<rparr>)"
    and r: "\<And>a. 0x20000 \<le> unat a \<Longrightarrow> unat a < normal_pfn_start * PG_SIZE \<Longrightarrow> load8 r a = load8 (ram s) a"
    by (rule start_memory_steps [OF m l k, of im]) blast
  define s4 where "s4 = boot_blocks us pb pf (s\<lparr>screen_buffer := sb, cursor_row := row, cursor_col := col\<rparr>)"
  note s5_def = st(3) [folded s4_def] and s7_def = st(4) and o7 = st(5) [folded s4_def]
  obtain u where u: "mm_init s7 = Inr u" "\<forall>p < PAGE_ARRAY_SIZE. page_ref u p =
       (if p \<in> frames (loaderbase s7) (loaderend s7) then 0 else if \<exists>q\<in>reserved s7. same_slot p q then 1 else 0)"
    "phymem.more u = phymem.more s7" "ram u = initial_pgtables (frame_pa (free_frame s7 + 1)) (ram s7)"
    using mm_init_runs [OF st(2)] by blast
  have "start_memory im modulep pb pf s = Inr u"
    unfolding st(1) by (rule u(1))
  moreover have "loaderbase s7 = sm_base (us ! 0)" "loaderend s7 = sm_base (us ! 0) + sm_length (us ! 0)"
    "reserved s7 = reserved (boot_blocks us pb pf s)"
    using off_devices_fields(5-7) [OF o7] by (simp_all add: reserved_ram s4_def boot_blocks_screen) (simp_all add: boot_blocks_def)
  moreover have im4: "irqmask s4 = irqmask s" by (simp add: s4_def boot_blocks_def with_blocks_def)
  moreover have "chips_follow c1 c2 u" for c1 c2
  proof -
    have "chips_follow c1 c2 (picinit s4)" using irq im4 by (intro picinit_follow) simp
    then have "chips_follow c1 c2 s5" unfolding s5_def by (rule timerinit_follow)
    then have "chips_follow c1 c2 (s5\<lparr>ram := r, stdin_buf := PA2VA (frame_pa pfn)\<rparr>)" by (simp add: chips_follow_def chip_after_def)
    then have "chips_follow c1 c2 ?s6" by (rule picenable_follow)
    then show ?thesis using chips_follow_cong [of u ?s6] machine_more(1,2) [OF u(3)] by (simp add: s7_def init_idt_ports)
  qed
  moreover have "bit (irqmask u) i \<longleftrightarrow> bit (irqmask s) i \<and> i \<noteq> IRQ_TIMER \<and> i \<noteq> IRQ_KBD" for i
    using machine_more(2) [OF u(3)] im4
    by (auto simp: s7_def init_idt_ports bit_picenable timerinit_mask s5_def)
  moreover have "idt_entries u = idt_entries s7" "stdin_buf u = stdin_buf s7" using machine_more(3,5) [OF u(3)] by simp_all
  moreover have "stdin_buf s7 = PA2VA (frame_pa pfn)" using arg_cong [OF o7, of stdin_buf] by (simp add: off_devices_def)
  moreover have "fresh_tasks u = fresh_tasks s" "cpu_has_msr u = cpu_has_msr s"
    using machine_more [OF u(3)] fresh_off [OF o7] by (simp_all add: s4_def boot_blocks_def with_blocks_def fresh_tasks_def cpu_has_msr_def)
  moreover have "tarfs_start u = tarfs_start s" "tarfs_end u = tarfs_end s"
    using machine_more(14,15) [OF u(3)] arg_cong [OF o7, of tarfs_start] arg_cong [OF o7, of tarfs_end]
    by (simp_all add: off_devices_def s4_def boot_blocks_def with_blocks_def)
  moreover have "load8 (ram u) a = load8 (ram s) a" if "0x20000 \<le> unat a" "unat a < unat pf" "unat a < normal_pfn_start * PG_SIZE" for a
  proof -
    have pf: "unat pf mod 4096 = 0" "unat pf div 4096 + 516 \<le> 32768" using l by (simp_all add: boot_layout_def boot_blocks_def)
    have f: "free_frame s7 = unat pf div 4096"
      using arg_cong [OF o7, of physfree] by (simp add: free_frame_def off_devices_def s4_def boot_blocks_def)
    have "unat pf = 4096 * (unat pf div 4096)" using mult_div_mod_eq [of 4096 "unat pf"] pf(1) by simp
    then have "unat a < 4096 * (free_frame s7 + 1)" using that(2) unfolding f by simp
    then have "load8 (ram u) a = load8 (ram s7) a" unfolding u(4) by (rule load8_initial_pgtables [rotated]) (use pf(2) f in simp)
    also have "ram s7 = r" using arg_cong [OF o7, of ram] by (simp add: off_devices_def)
    also have "load8 r a = load8 (ram s) a" using r that(1,3) by simp
    finally show ?thesis .
  qed
  ultimately show ?thesis using u(2) init_idt_table [of im ?s6] by (auto simp: s7_def)
qed

end
