(* ===== verification/BootThreads.thy ===== *)
theory BootThreads
  imports Boot TarArchive AddressSpace
begin

text \<open>
  From \<open>start\<close> to the running system: what \<open>init_proc\<close> and the three calls of \<open>kernel_thread\<close> leave on
  the task lists, and that the invariant of theory TaskMachine holds from the moment the
  thread \<open>clear_zombie\<close> has gone to sleep for the first time.
\<close>

section \<open>A new thread\<close>

lemma get_zero_page_runs:
  assumes "f \<in> free_frames s"
  obtains p w where "get_zero_page s = Inr (PA2VA (frame_pa p), s\<lparr>page_ref := (page_ref s)(p := 1), bitmap := w,
    ram := memset (frame_pa p) 0 4096 (ram s)\<rparr>)" "p \<in> free_frames s" "\<forall>q\<in>pool. q < p \<longrightarrow> page_ref s q \<noteq> 0"
proof -
  obtain pfn t where g: "get_free_page s = Inr (pfn, t)" using get_free_page_total [of f s] assms by (auto simp: free_frames_def)
  then obtain p w where p: "pfn = of_nat p" "p \<in> pool" "page_ref s p = 0" "\<And>q. q \<in> pool \<Longrightarrow> q < p \<Longrightarrow> page_ref s q \<noteq> 0"
    "t = s\<lparr>page_ref := (page_ref s)(p := 1), bitmap := w\<rparr>"
    by (rule get_free_page_SomeE) blast
  have "get_zero_page s = Inr (PA2VA (frame_pa p), t\<lparr>ram := memset (frame_pa p) 0 4096 (ram t)\<rparr>)"
    using g p(2) pool_small [OF p(2)] by (simp add: get_zero_page_def p(1) of_nat_pool push_frame Let_def)
  then show thesis using p by (intro that [of p w]) (simp_all add: free_frames_def)
qed

lemma copy_name:
  assumes "NUL \<notin> set nm" "length nm < NAME_SIZE"
  shows "\<exists>b. rbind (strlen (Some (c_lit nm))) (copy_field (t_name zero_task) (c_lit nm)) = Inr b"
    "\<exists>b. copy_field (t_cwd zero_task) (c_lit ''/'') 1 = Inr b"
proof -
  have c: "cstr (c_lit nm) = nm" using assms(1) by (rule cstr_append_NUL)
  then have l: "strlen (Some (c_lit nm)) = Inr (length nm)" using strlen_from_eq [of "c_lit nm" 0] by (simp add: strlen_def)
  show "\<exists>b. rbind (strlen (Some (c_lit nm))) (copy_field (t_name zero_task) (c_lit nm)) = Inr b"
    using copy_field_eq [of "c_lit nm" "length nm" "t_name zero_task"] assms(2) by (simp add: l c zero_task_def)
  show "\<exists>b. copy_field (t_cwd zero_task) (c_lit ''/'') 1 = Inr b"
    using copy_field_eq [of "c_lit ''/''" 1 "t_cwd zero_task"] by (simp add: zero_task_def)
qed

lemma kernel_thread_eq:
  assumes head: "task_headp s \<noteq> 0" "task_heap s (task_headp s) = Some h"
    and free: "2 \<le> card (free_frames s)" "\<forall>f\<in>free_frames s. PA2VA (frame_pa f) \<notin> dom (task_heap s)"
    and name: "NUL \<notin> set nm" "length nm < NAME_SIZE"
  obtains p q n w r where
    "kernel_thread f (Some (c_lit nm)) s = Inr (pid_count s, s\<lparr>page_ref := (page_ref s)(p := 1, q := 1), bitmap := w, ram := r,
       pid_count := pid_count s + 1, task_headp := PA2VA (frame_pa p),
       task_heap := (task_heap s)(PA2VA (frame_pa p) \<mapsto> n, task_headp s \<mapsto> h\<lparr>t_prev := PA2VA (frame_pa p)\<rparr>)\<rparr>)"
    "p \<in> free_frames s" "q \<in> free_frames s" "p \<noteq> q"
    "t_next n = task_headp s" "pid n = pid_count s" "t_mm n = 0" "orphan n = 0" "sigterm n = 0" "ppid n = 0"
proof -
  have "free_frames s \<noteq> {}" using free(1) by auto
  then obtain f0 where f0: "f0 \<in> free_frames s" by blast
  obtain p w where p: "get_zero_page s = Inr (PA2VA (frame_pa p), s\<lparr>page_ref := (page_ref s)(p := 1), bitmap := w,
      ram := memset (frame_pa p) 0 4096 (ram s)\<rparr>)" "p \<in> free_frames s"
    by (rule get_zero_page_runs [OF f0]) blast
  let ?x = "PA2VA (frame_pa p)"
  have x: "?x \<noteq> 0" "?x \<notin> dom (task_heap s)" using p(2) free(2) page_va_nonzero by (auto simp: free_frames_def)
  obtain nm' where nm': "rbind (strlen (Some (c_lit nm))) (copy_field (t_name zero_task) (c_lit nm)) = Inr nm'"
    using copy_name(1) [OF name] by blast
  obtain wd where wd: "copy_field (t_cwd zero_task) (c_lit ''/'') 1 = Inr wd" using copy_name(2) [OF name] by blast
  define t where "t = s\<lparr>page_ref := (page_ref s)(p := 1), bitmap := w, ram := memset (frame_pa p) 0 4096 (ram s),
    pid_count := pid_count s + 1,
    task_heap := (task_heap s)(?x \<mapsto> zero_task\<lparr>pid := pid_count s, t_name := nm', t_cwd := wd, t_func := f\<rparr>)\<rparr>"
  have ft: "free_frames t = free_frames s - {p}" by (auto simp: t_def free_frames_def)
  have "0 < card (free_frames t)" using free(1) p(2) by (simp add: ft)
  then obtain f1 where f1: "f1 \<in> free_frames t" by (metis card_gt_0_iff all_not_in_conv)
  obtain q v where q: "get_zero_page t = Inr (PA2VA (frame_pa q), t\<lparr>page_ref := (page_ref t)(q := 1), bitmap := v,
      ram := memset (frame_pa q) 0 4096 (ram t)\<rparr>)" "q \<in> free_frames t"
    by (rule get_zero_page_runs [OF f1]) blast
  have q0: "PA2VA (frame_pa q) \<noteq> 0" "q \<in> free_frames s" "p \<noteq> q" using q(2) page_va_nonzero unfolding ft by (auto simp: free_frames_def)
  let ?c = "PA2VA (frame_pa q) + 4096 - 8 - 128"
  define n where "n = zero_task\<lparr>pid := pid_count s, t_name := nm', t_cwd := wd, t_func := f, kernel_stack := ?c, t_next := task_headp s, t_prev := 0\<rparr>"
  define r where "r = store64 (VA2PA (?c + 8)) ?x (store64 (VA2PA ?c) (?x + 16)
      (store64 (VA2PA (PA2VA (frame_pa q) + 4096 - 8)) f (memset (frame_pa q) 0 4096 (ram t))))"
  have ne: "task_headp s \<noteq> ?x" using head(2) x(2) by auto
  have a: "alloc_task s = Inr (?x, s\<lparr>page_ref := (page_ref s)(p := 1), bitmap := w, ram := memset (frame_pa p) 0 4096 (ram s),
      task_heap := (task_heap s)(?x \<mapsto> zero_task)\<rparr>)"
    by (simp add: alloc_task_def p(1))
  have ht: "task_headp t = task_headp s" "task_heap t ?x = Some (zero_task\<lparr>pid := pid_count s, t_name := nm', t_cwd := wd, t_func := f\<rparr>)"
    "task_heap t (task_headp s) = Some h" using ne head(2) by (simp_all add: t_def)
  define s1 where "s1 = s\<lparr>page_ref := (page_ref s)(p := 1), bitmap := w, ram := memset (frame_pa p) 0 4096 (ram s),
      task_heap := (task_heap s)(?x \<mapsto> zero_task)\<rparr>"
  have u1: "upd_task ?x (\<lambda>t. t\<lparr>pid := pid_count s, t_name := nm', t_cwd := wd, t_func := f\<rparr>) (s1\<lparr>pid_count := pid_count s + 1\<rparr>) = Inr t"
    using x(1) by (simp add: upd_task_def s1_def t_def)
  have c1: "pid_count s1 = pid_count s" by (simp add: s1_def)
  have "kernel_thread f (Some (c_lit nm)) s = Inr (pid_count s, t\<lparr>page_ref := (page_ref t)(q := 1), bitmap := v, ram := r,
       task_headp := ?x, task_heap := (task_heap t)(?x \<mapsto> n, task_headp s \<mapsto> h\<lparr>t_prev := ?x\<rparr>)\<rparr>)"
    unfolding kernel_thread_def a [folded s1_def] rbind_Inr prod.case c1 Let_def option.case nm' wd u1 q(1)
    using x(1) q0(1) head(1) ne by (simp add: upd_task_def ht n_def r_def)
  moreover have "(task_heap t)(?x \<mapsto> n, task_headp s \<mapsto> h\<lparr>t_prev := ?x\<rparr>) = (task_heap s)(?x \<mapsto> n, task_headp s \<mapsto> h\<lparr>t_prev := ?x\<rparr>)"
    by (simp add: t_def)
  ultimately have "kernel_thread f (Some (c_lit nm)) s = Inr (pid_count s, s\<lparr>page_ref := (page_ref s)(p := 1, q := 1), bitmap := v, ram := r,
       pid_count := pid_count s + 1, task_headp := ?x, task_heap := (task_heap s)(?x \<mapsto> n, task_headp s \<mapsto> h\<lparr>t_prev := ?x\<rparr>)\<rparr>)"
    by (simp add: t_def)
  then show thesis
    by (rule that) (simp_all add: p(2) q0 n_def zero_task_def)
qed

section \<open>Kernel threads only\<close>

text \<open>
  Until the first process is started there are kernel threads only: no address spaces, no orphans, nobody
  killed, and \<open>init\<close> (pid 0) is everybody's parent. \<open>thread_key\<close> is what this depends on.
\<close>

definition thread_key :: "task_struct \<Rightarrow> u32 \<times> u32 \<times> u64 \<times> u32 \<times> u32" where
  "thread_key n = (pid n, sigterm n, t_mm n, ppid n, orphan n)"

definition same_threads :: "'a kernel_scheme \<Rightarrow> 'a kernel_scheme \<Rightarrow> bool" where
  "same_threads s t \<longleftrightarrow> (\<forall>p. map_option thread_key (task_heap t p) = map_option thread_key (task_heap s p)) \<and>
     zombie_count t = zombie_count s \<and> clear_zombie t = clear_zombie s"

definition threads_only :: "'a kernel_scheme \<Rightarrow> bool" where
  "threads_only s \<longleftrightarrow> (\<forall>x n. task_heap s x = Some n \<longrightarrow> t_mm n = 0 \<and> orphan n = 0 \<and> sigterm n = 0 \<and> ppid n = 0)"

definition boot_ok :: "'a kernel_scheme \<Rightarrow> (task_list \<Rightarrow> u64 list) \<Rightarrow> bool" where
  "boot_ok s L \<longleftrightarrow> lists_wf s L \<and> pids_unique s \<and> current s \<in> known_tasks s \<and> threads_only s \<and>
     zombie_count s = 0 \<and> L Zombies = [] \<and> L Wait_Stdin = []"

lemma same_threads_trans: "same_threads s t \<Longrightarrow> same_threads t u \<Longrightarrow> same_threads s u"
  by (simp add: same_threads_def)

lemma same_threadsD:
  assumes "same_threads s t"
  shows "dom (task_heap t) = dom (task_heap s)" "x \<in> dom (task_heap s) \<Longrightarrow> pid_of t x = pid_of s x"
    "pids_unique t = pids_unique s" "known_tasks t = known_tasks s" "threads_only t = threads_only s"
proof -
  have k: "map_option thread_key (task_heap t p) = map_option thread_key (task_heap s p)" for p
    using assms by (simp add: same_threads_def)
  have c: "task_heap t p = None \<and> task_heap s p = None \<or>
      (\<exists>m n. task_heap t p = Some m \<and> task_heap s p = Some n \<and> thread_key m = thread_key n)" for p
    using k [of p] by (cases "task_heap t p"; cases "task_heap s p") simp_all
  show d: "dom (task_heap t) = dom (task_heap s)" using c by (metis domIff option.distinct(1) set_eqI)
  show p: "pid_of t x = pid_of s x" if "x \<in> dom (task_heap s)" for x
    using c [of x] that by (auto simp: pid_of_def thread_key_def)
  then show "pids_unique t = pids_unique s" unfolding pids_unique_def d by (rule inj_on_cong)
  show "known_tasks t = known_tasks s" using d by (simp add: known_tasks_def)
  have "threads_only v" if to: "threads_only u" and ke: "\<And>p. map_option thread_key (task_heap v p) = map_option thread_key (task_heap u p)"
    for u v :: "'a kernel_scheme"
    unfolding threads_only_def
  proof (intro allI impI)
    fix x n assume n: "task_heap v x = Some n"
    then obtain m where "task_heap u x = Some m" "thread_key m = thread_key n" using ke [of x] by (cases "task_heap u x") auto
    then show "t_mm n = 0 \<and> orphan n = 0 \<and> sigterm n = 0 \<and> ppid n = 0"
      using to by (auto simp: threads_only_def thread_key_def)
  qed
  then show "threads_only t = threads_only s" using k by metis
qed

lemma relinked_threads: "relinked s t \<Longrightarrow> same_threads s t"
proof -
  assume r: "relinked s t"
  have n: "thread_key (no_link u) = thread_key u" for u by (simp add: thread_key_def no_link_def)
  have "map_option thread_key (task_heap t p) = map_option thread_key (task_heap s p)" for p
  proof -
    have e: "map_option no_link (task_heap t p) = map_option no_link (task_heap s p)" using r by (simp add: relinked_def)
    show ?thesis using arg_cong [OF e, of "map_option thread_key"] by (simp add: option.map_comp comp_def n)
  qed
  then show ?thesis using relinked_fields(7,8) [OF r] by (simp add: same_threads_def)
qed

lemma same_tasks_threads: "same_tasks s t \<Longrightarrow> same_threads s t"
proof -
  assume r: "same_tasks s t"
  have n: "thread_key (sched_view u) = thread_key u" for u by (simp add: thread_key_def sched_view_def)
  have "map_option thread_key (task_heap t p) = map_option thread_key (task_heap s p)" for p
  proof -
    have e: "map_option sched_view (task_heap t p) = map_option sched_view (task_heap s p)" using r by (simp add: same_tasks_def)
    show ?thesis using arg_cong [OF e, of "map_option thread_key"] by (simp add: option.map_comp comp_def n)
  qed
  then show ?thesis using r by (simp add: same_threads_def same_tasks_def)
qed

lemma upd_task_boot:
  assumes ok: "boot_ok s L" and p: "p \<in> known_tasks s" and f: "\<And>n. t_next (f n) = t_next n" "\<And>n. thread_key (f n) = thread_key n"
  shows "\<exists>t. upd_task p f s = Inr t \<and> boot_ok t L \<and> same_threads s t \<and> current t = current s \<and> zombie_list t = zombie_list s"
proof -
  have wf: "lists_wf s L" using ok by (simp add: boot_ok_def)
  obtain t n where t: "task_heap s p = Some n" "upd_task p f s = Inr t" "t = s\<lparr>task_heap := (task_heap s)(p \<mapsto> f n)\<rparr>" "lists_wf t L"
    by (rule upd_task_spec [OF wf p f(1)])
  have st: "same_threads s t" using t(1) f(2) by (simp add: same_threads_def t(3))
  have "boot_ok t L" using ok t(4) same_threadsD(3-5) [OF st] unfolding boot_ok_def by (simp add: t(3))
  then show ?thesis using t(2) st by (simp add: t(3))
qed

lemma sleep_boot:
  assumes ok: "boot_ok s L" and cur: "current s \<in> set (L Active)" "remove1 (current s) (L Active) \<noteq> []"
  defines "A \<equiv> remove1 (current s) (L Active)"
  shows "\<exists>t. sleep sp Sleeping time s = Inr (Switched t) \<and> boot_ok t (L(Active := A, Sleeping := current s # L Sleeping)) \<and>
    same_threads s t \<and> current t = successor A (current s)"
proof -
  let ?M = "L(Active := A, Sleeping := current s # L Sleeping)"
  have wf: "lists_wf s L" using ok by (simp add: boot_ok_def)
  obtain u t where t: "remove_from_tasklist Active (current s) s = Inr (0, u)" "add_to_tasklist Sleeping (current s) u = Inr t"
    "lists_wf t ?M" "relinked s t"
    using move_spec [OF wf cur(1), of Sleeping] unfolding A_def by auto
  have "relinked s u" using remove_tasklist_spec [OF wf cur(1)] t(1) by auto
  then have cu: "current u = current s" "current t = current s" using relinked_fields(1) t(4) by auto
  note st = relinked_threads [OF t(4)]
  have tok: "boot_ok t ?M" using ok t(3) cu(2) same_threadsD(3-5) [OF st] st by (simp add: boot_ok_def same_threads_def)
  have kn: "current s \<in> known_tasks t" using tok cu(2) by (simp add: boot_ok_def)
  obtain v where v: "upd_task (current s) (\<lambda>t. t\<lparr>sleep_time := time, t_state := SLEEP\<rparr>) t = Inr v" "boot_ok v ?M"
    "same_threads t v" "current v = current s"
    using upd_task_boot [OF tok kn, of "\<lambda>t. t\<lparr>sleep_time := time, t_state := SLEEP\<rparr>"] cu(2) by (auto simp: thread_key_def)
  have sl: "sleep sp Sleeping time s = schedule sp v" using t(1,2) v(1) cu by (simp add: sleep_def)
  have so: "sched_ok v ?M" using v(2) by (auto simp: boot_ok_def sched_ok_def threads_only_def mm_ok_def)
  have ne: "?M Active \<noteq> []" using cur(2) by (simp add: A_def)
  have "successor A (current s) \<in> set A" using cur(2) by (intro successor_in) (simp add: A_def)
  moreover have "current s \<notin> set A" using lists_wfD(4) [OF wf, of Active] by (simp add: A_def)
  ultimately have "successor A (current s) \<noteq> current s" by auto
  then obtain w where w: "schedule sp v = Inr (Switched w)" "current w = successor A (current s)" "sched_ok w ?M" "same_tasks v w"
    using schedule_spec [OF so ne, of sp] v(4) by auto
  note sw = same_tasks_threads [OF w(4)]
  have "boot_ok w ?M" using v(2) w(3) same_threadsD(5) [OF sw] sw by (auto simp: boot_ok_def sched_ok_def same_threads_def)
  then show ?thesis using sl w(1,2) same_threads_trans [OF same_threads_trans [OF st v(3)] sw] by auto
qed

section \<open>Starting kernel threads\<close>

text \<open>Every task is in a frame of the pool of its own and was given its number by the counter.\<close>

definition boot_state :: "'a kernel_scheme \<Rightarrow> (task_list \<Rightarrow> u64 list) \<Rightarrow> bool" where
  "boot_state s L \<longleftrightarrow> boot_ok s L \<and> card (dom (task_heap s)) < 100 \<and> unat (pid_count s) < 100 \<and>
     (\<forall>x n. task_heap s x = Some n \<longrightarrow> unat (pid n) < unat (pid_count s) \<and>
        (\<exists>f\<in>pool. x = PA2VA (frame_pa f) \<and> page_ref s f \<noteq> 0))"

lemma boot_state_fresh:
  assumes "boot_state s L" "f \<in> free_frames s"
  shows "PA2VA (frame_pa f) \<notin> dom (task_heap s)"
proof
  assume "PA2VA (frame_pa f) \<in> dom (task_heap s)"
  then obtain g where "g \<in> pool" "PA2VA (frame_pa f) = PA2VA (frame_pa g)" "page_ref s g \<noteq> 0"
    using assms(1) by (fastforce simp: boot_state_def)
  moreover from this have "f = g"
    using assms(2) by (metis (no_types, lifting) frame_of_va_PA2VA free_frames_def mem_Collect_eq pool_small)
  ultimately show False using assms(2) by (simp add: free_frames_def)
qed

lemma pushed_lists_wf:
  assumes wf: "lists_wf s L" and x: "x \<noteq> 0" "x \<notin> dom (task_heap s)" and n: "t_next n = task_headp s"
    and h: "task_heap s (task_headp s) = Some h" and c: "card (dom (task_heap s)) + 1 < LIST_FUEL"
    and t: "task_heap t = (task_heap s)(x \<mapsto> n, task_headp s \<mapsto> h\<lparr>t_prev := x\<rparr>)" "task_headp t = x"
      "sleep_task_list t = sleep_task_list s" "wait_stdin_list t = wait_stdin_list s" "zombie_list t = zombie_list s"
  shows "lists_wf t (L(Active := x # L Active))"
proof -
  have ne: "task_headp s \<noteq> x" using h x(2) by auto
  have nl: "x \<notin> set (L l)" for l using lists_wfD(3) [OF wf, of x l] x(2) by auto
  have same: "hlist t_next (task_heap t) p (L l) = hlist t_next (task_heap s) p (L l)" for l p
    by (rule hseg_cong) (use nl h in \<open>auto simp: t(1)\<close>)
  have "hlist t_next (task_heap t) (list_head l t) ((L(Active := x # L Active)) l)" for l
    using lists_wfD(1) [OF wf, of l] x(1) ne n by (cases l) (simp_all add: same [unfolded t(1)] t)
  moreover have "set ((L(Active := x # L Active)) l) \<inter> set ((L(Active := x # L Active)) l') = {}" if "l \<noteq> l'" for l l'
    using that lists_wfD(2) [OF wf, of l l'] nl by auto
  moreover have "dom (task_heap t) = insert x (dom (task_heap s))" using h by (auto simp: t(1))
  ultimately show ?thesis using wf c x(2) by (simp add: lists_wf_def)
qed

lemma inj_on_new:
  assumes "inj_on g D" "\<And>y. y \<in> D \<Longrightarrow> g' y = g y" "\<And>y. y \<in> D \<Longrightarrow> g y \<noteq> g' x"
  shows "inj_on g' (insert x D)"
  using assms by (fastforce simp: inj_on_def)

lemma kernel_thread_boot:
  assumes b: "boot_state s L" and ne: "L Active \<noteq> []" and free: "2 \<le> card (free_frames s)"
    and small: "card (dom (task_heap s)) < 99" "unat (pid_count s) < 99" and name: "NUL \<notin> set nm" "length nm < NAME_SIZE"
  shows "\<exists>t x. kernel_thread f (Some (c_lit nm)) s = Inr (pid_count s, t) \<and> boot_state t (L(Active := x # L Active)) \<and>
    x \<notin> dom (task_heap s) \<and> dom (task_heap t) = insert x (dom (task_heap s)) \<and> pid_of t x = pid_count s \<and>
    (\<forall>y\<in>dom (task_heap s). pid_of t y = pid_of s y) \<and> card (free_frames t) + 2 = card (free_frames s) \<and>
    pid_count t = pid_count s + 1 \<and> current t = current s \<and> clear_zombie t = clear_zombie s \<and> zombie_list t = zombie_list s"
proof -
  have wf: "lists_wf s L" and ok: "boot_ok s L" using b by (simp_all add: boot_state_def boot_ok_def)
  have hd: "task_headp s = hd (L Active)" using hlist_head [OF lists_wfD(1) [OF wf, of Active]] ne by (cases "L Active") auto
  then obtain h where h: "task_headp s \<noteq> 0" "task_heap s (task_headp s) = Some h"
    using lists_wfD(3) [OF wf, of "hd (L Active)" Active] ne by auto
  have fr: "\<forall>f\<in>free_frames s. PA2VA (frame_pa f) \<notin> dom (task_heap s)" using boot_state_fresh [OF b] by blast
  obtain p q n w r where t: "kernel_thread f (Some (c_lit nm)) s = Inr (pid_count s, s\<lparr>page_ref := (page_ref s)(p := 1, q := 1), bitmap := w, ram := r,
       pid_count := pid_count s + 1, task_headp := PA2VA (frame_pa p),
       task_heap := (task_heap s)(PA2VA (frame_pa p) \<mapsto> n, task_headp s \<mapsto> h\<lparr>t_prev := PA2VA (frame_pa p)\<rparr>)\<rparr>)" (is "_ = Inr (_, ?t)")
    and p: "p \<in> free_frames s" "q \<in> free_frames s" "p \<noteq> q"
    and n: "t_next n = task_headp s" "pid n = pid_count s" "t_mm n = 0" "orphan n = 0" "sigterm n = 0" "ppid n = 0"
    by (rule kernel_thread_eq [OF h free fr name])
  let ?x = "PA2VA (frame_pa p)" and ?M = "L(Active := PA2VA (frame_pa p) # L Active)"
  have x: "?x \<notin> dom (task_heap s)" "?x \<noteq> 0" using boot_state_fresh [OF b p(1)] p(1) page_va_nonzero by (auto simp: free_frames_def)
  have ne: "task_headp s \<noteq> ?x" using h x by auto
  have d: "dom (task_heap ?t) = insert ?x (dom (task_heap s))" using h by auto
  have fin: "finite (dom (task_heap s))" using wf by (simp add: lists_wf_def)
  have up: "unat (pid_count s + 1) = unat (pid_count s) + 1" using small(2) by (simp add: unat_word_ariths)
  have pids: "pid_of ?t ?x = pid_count s" "y \<in> dom (task_heap s) \<Longrightarrow> pid_of ?t y = pid_of s y" for y
    using n(2) ne x(1) h(2) by (auto simp: pid_of_def)
  have lt: "unat (pid_of s y) < unat (pid_count s)" if "y \<in> dom (task_heap s)" for y
    using b that by (auto simp: boot_state_def pid_of_def)
  have "lists_wf ?t ?M"
    by (rule pushed_lists_wf [OF wf x(2,1) n(1) h(2)]) (use small(1) in auto)
  moreover have "pids_unique ?t"
    unfolding pids_unique_def d
  proof (rule inj_on_new)
    show "inj_on (pid_of s) (dom (task_heap s))" using ok by (simp add: boot_ok_def pids_unique_def)
    show "pid_of s y \<noteq> pid_of ?t ?x" if "y \<in> dom (task_heap s)" for y using lt [OF that] pids(1) by auto
  qed (rule pids(2))
  moreover have "threads_only ?t" using ok n h unfolding boot_ok_def threads_only_def by (auto split: if_splits)
  ultimately have bk: "boot_ok ?t ?M" using ok d by (auto simp: boot_ok_def known_tasks_def)
  have owned: "\<exists>f\<in>pool. y = PA2VA (frame_pa f) \<and> page_ref ?t f \<noteq> 0" if y: "y \<in> dom (task_heap ?t)" for y
  proof (cases "y = ?x")
    case True
    then show ?thesis using p(1) by (intro bexI [of _ p]) (simp_all add: free_frames_def)
  next
    case False
    then have "y \<in> dom (task_heap s)" using y unfolding d by simp
    then obtain f where "f \<in> pool" "y = PA2VA (frame_pa f)" "page_ref s f \<noteq> 0" using b unfolding boot_state_def by blast
    then show ?thesis by (intro bexI [of _ f]) simp_all
  qed
  have below: "unat (pid m) < unat (pid_count ?t)" if m: "task_heap ?t y = Some m" for y m
  proof -
    have "unat (pid_of ?t y) \<le> unat (pid_count s)"
    proof (cases "y = ?x")
      case False
      then have "y \<in> dom (task_heap s)" using m d by blast
      then show ?thesis using lt [of y] pids(2) [of y] by simp
    qed (use pids(1) in simp)
    then show ?thesis using up by (simp only: pid_of_def m option.sel) simp
  qed
  have "boot_state ?t ?M"
    unfolding boot_state_def
  proof (intro conjI allI impI)
    show "card (dom (task_heap ?t)) < 100" using small(1) fin x(1) unfolding d by simp
    show "unat (pid_count ?t) < 100" using small(2) up by simp
  qed (use bk below owned in blast)+
  moreover have "free_frames ?t = free_frames s - {p} - {q}" by (auto simp: free_frames_def)
  then have "card (free_frames ?t) + 2 = card (free_frames s)" using p free by simp
  ultimately show ?thesis using t x(1) d pids by (intro exI [of _ ?t] exI [of _ ?x]) simp
qed

section \<open>The first task\<close>

text \<open>The archive is part of the kernel image, below the frames that are handed out.\<close>

definition image_below :: "'a kernel_scheme \<Rightarrow> bool" where
  "image_below s \<longleftrightarrow> (\<forall>i < unat (tarfs_end s - tarfs_start s).
     unat (VA2PA (tarfs_start s + of_nat i)) < normal_pfn_start * PG_SIZE)"

lemma archive_after_zero:
  assumes "image_below s" "p \<in> pool" "ram t = memset (frame_pa p) 0 4096 (ram s)"
    "tarfs_start t = tarfs_start s" "tarfs_end t = tarfs_end s"
  shows "archive t = archive s"
  using assms(1) load8_early_memset [OF assms(2)] by (simp add: archive_def assms(3-5) image_below_def)

lemma init_proc_boot:
  assumes s: "fresh_tasks s" and f: "f \<in> free_frames s"
  shows "\<exists>t x. init_proc s = Inr t \<and> boot_state t (\<lambda>l. if l = Active then [x] else []) \<and> current t = x \<and>
    dom (task_heap t) = {x} \<and> pid_of t x = 0 \<and> pid_count t = 1 \<and> card (free_frames t) + 1 = card (free_frames s) \<and>
    (image_below s \<longrightarrow> archive t = archive s) \<and> kernel.more t = kernel.more s \<and> stdin_buf t = stdin_buf s \<and>
    (\<exists>p\<in>pool. x = PA2VA (frame_pa p) \<and> (\<forall>q\<in>pool. q < p \<longrightarrow> page_ref s q \<noteq> 0))"
proof -
  obtain p w where p: "get_zero_page s = Inr (PA2VA (frame_pa p), s\<lparr>page_ref := (page_ref s)(p := 1), bitmap := w,
      ram := memset (frame_pa p) 0 4096 (ram s)\<rparr>)" "p \<in> free_frames s" "\<forall>q\<in>pool. q < p \<longrightarrow> page_ref s q \<noteq> 0"
    by (rule get_zero_page_runs [OF f])
  let ?x = "PA2VA (frame_pa p)"
  have x: "?x \<noteq> 0" "p \<in> pool" using p(2) page_va_nonzero by (auto simp: free_frames_def)
  obtain nm where nm: "copy_field (t_name zero_task) (c_lit ''init'') 4 = Inr nm"
    using copy_field_eq [of "c_lit ''init''" 4 "t_name zero_task"] by (simp add: zero_task_def)
  obtain wd where wd: "copy_field (t_cwd zero_task) (c_lit ''/'') 1 = Inr wd" using copy_name(2) [of "[]"] by auto
  define n where "n = zero_task\<lparr>t_prev := 0, t_next := 0, t_last := 0, pid := 0, t_name := nm, t_cwd := wd,
        t_mm := 0, t_func := 0, kernel_stack := 0\<rparr>"
  define t where "t = s\<lparr>page_ref := (page_ref s)(p := 1), bitmap := w, ram := memset (frame_pa p) 0 4096 (ram s),
    task_heap := [?x \<mapsto> n], task_headp := ?x, pid_count := 1, current := ?x\<rparr>"
  have t: "init_proc s = Inr t"
    using x(1) s by (simp add: init_proc_def alloc_task_def p(1) nm [simplified] wd [simplified] upd_task_def Let_def t_def n_def fresh_tasks_def)
  have n: "t_next n = 0" "pid n = 0" "t_mm n = 0" "orphan n = 0" "sigterm n = 0" "ppid n = 0"
    by (simp_all add: n_def zero_task_def)
  have "hlist t_next (task_heap t) (list_head l t) (if l = Active then [?x] else [])" for l
    using s x(1) by (cases l) (simp_all add: t_def n fresh_tasks_def)
  moreover have d: "dom (task_heap t) = {?x}" by (simp add: t_def)
  ultimately have "lists_wf t (\<lambda>l. if l = Active then [?x] else [])" by (auto simp: lists_wf_def)
  then have "boot_ok t (\<lambda>l. if l = Active then [?x] else [])"
    using x(1) d n s by (simp add: boot_ok_def pids_unique_def known_tasks_def)
      (auto simp: t_def threads_only_def fresh_tasks_def split: if_splits)
  then have "boot_state t (\<lambda>l. if l = Active then [?x] else [])"
    using d x(2) n unfolding boot_state_def by (auto simp: t_def split: if_splits)
  moreover have "free_frames t = free_frames s - {p}" by (auto simp: t_def free_frames_def)
  then have "card (free_frames t) + 1 = card (free_frames s)" using p(2) by (simp add: card_Diff_singleton) (metis Suc_pred card_gt_0_iff empty_iff finite_free_frames)
  moreover have "image_below s \<Longrightarrow> archive t = archive s" by (erule archive_after_zero [OF _ x(2)]) (simp_all add: t_def)
  moreover have "pid_of t ?x = 0" "pid_count t = 1" "current t = ?x" "kernel.more t = kernel.more s" "stdin_buf t = stdin_buf s"
    by (simp_all add: t_def pid_of_def n)
  ultimately show ?thesis using t d x(2) p(3) by (intro exI [of _ t] exI [of _ ?x]) auto
qed

section \<open>Start-up messages and registers\<close>

definition header_fields :: "nat list" where
  "header_fields = [0, 100, 108, 116, 124, 136, 148, 156, 157, 257, 263, 265, 297, 329, 337, 345, 500]"

text \<open>Every field of the first header is a string that fits into the buffer of \<open>printf\<close>.\<close>

definition tar_printable :: "string \<Rightarrow> bool" where
  "tar_printable a \<longleftrightarrow> (\<forall>off\<in>set header_fields. NUL \<in> set (drop off a) \<and> length (cstr (drop off a)) < 400)"

lemma rfold_prints:
  assumes "\<And>x u. x \<in> set xs \<Longrightarrow> \<exists>v. f x (print_text u s) = Inr (print_text v (print_text u s))"
  shows "\<exists>v. rfold f xs (print_text u s) = Inr (print_text v (print_text u s))"
  using assms
proof (induction xs arbitrary: u)
  case Nil
  show ?case by (intro exI [of _ "[]"]) simp
next
  case (Cons x xs)
  obtain v where v: "f x (print_text u s) = Inr (print_text v (print_text u s))" using Cons.prems [of x u] by auto
  obtain w where "rfold f xs (print_text (u @ v) s) = Inr (print_text w (print_text (u @ v) s))"
    using Cons.IH [of "u @ v"] Cons.prems by auto
  then show ?case using v by (intro exI [of _ "v @ w"]) (simp add: print_text_append)
qed

lemma init_tarfs_prints:
  assumes "tar_printable (archive s)"
  shows "\<exists>u. init_tarfs s = Inr (print_text u s)"
proof -
  have "\<exists>u. init_tarfs (print_text [] s) = Inr (print_text u (print_text [] s))"
    unfolding init_tarfs_def show_tarfs_header_def
  proof (rule rfold_prints, goal_cases)
    case (1 x u)
    then have "\<exists>k. fmt_bound (fst x) [VStr (Some (drop (snd x) (archive (print_text [] s))))] = Some k \<and> k < 512"
      using assms unfolding tar_printable_def header_fields_def by (auto simp: str_arg_def)
    then show ?case using printf_eq by (fastforce simp: case_prod_beta)
  qed
  then show ?thesis by simp
qed

lemma boot_state_cong:
  assumes "task_heap t = task_heap s" "\<And>l. list_head l t = list_head l s" "current t = current s"
    "zombie_count t = zombie_count s" "pid_count t = pid_count s" "page_ref t = page_ref s"
  shows "boot_state t L = boot_state s L"
proof -
  have "pid_of t = pid_of s" using assms(1) by (simp add: fun_eq_iff pid_of_def)
  then show ?thesis
    using assms by (simp add: boot_state_def boot_ok_def lists_wf_def known_tasks_def threads_only_def pids_unique_def)
qed

lemma list_head_print [simp]: "list_head l (print_text u s) = list_head l s"
  by (cases l) simp_all

lemma list_head_msr [simp]: "list_head l (s\<lparr>msr := m\<rparr>) = list_head l s" for s :: "'a machine_scheme"
  by (cases l) simp_all

lemma list_head_clear [simp]: "list_head l (s\<lparr>clear_zombie := p\<rparr>) = list_head l s"
  by (cases l) simp_all

lemma cpuid_more: "kernel.more t = kernel.more s \<Longrightarrow> cpuid_edx t = cpuid_edx s" for s :: "'a machine_scheme"
  by (cases s; cases t) simp

lemma cpuid_print [simp]: "cpuid_edx (print_text u s) = cpuid_edx s" for s :: "'a machine_scheme"
  by (rule print_textE [of u s]) simp

text \<open>The threads \<open>start\<close> creates, in the order of the active list, with their numbers.\<close>

definition boot_threads :: "'a kernel_scheme \<Rightarrow> u64 \<Rightarrow> u64 \<Rightarrow> u64 \<Rightarrow> u64 \<Rightarrow> bool" where
  "boot_threads s init_process clear idle init \<longleftrightarrow>
     boot_state s (\<lambda>l. if l = Active then [init_process, clear, idle, init] else []) \<and> distinct [init_process, clear, idle, init] \<and>
     dom (task_heap s) = {init_process, clear, idle, init} \<and> current s = init \<and> clear_zombie s = clear \<and>
     pid_of s init_process = 3 \<and> pid_of s clear = 2 \<and> pid_of s idle = 1 \<and> pid_of s init = 0"

lemma start_threads_run:
  fixes s :: "'a machine_scheme"
  assumes s: "fresh_tasks s" "7 \<le> card (free_frames s)" "image_below s" "tar_printable (archive s)" and msr: "cpu_has_msr s \<noteq> 0"
  shows "\<exists>t init_process clear idle init. start_threads im s = Inr (3, t) \<and> boot_threads t init_process clear idle init"
proof -
  let ?L = "\<lambda>xs l. if l = Active then xs else []"
  have L: "(?L xs)(Active := x # ?L xs Active) = ?L (x # xs)" for x xs by (rule ext) simp
  obtain f where "f \<in> free_frames s" using s(2) by (metis card.empty ex_in_conv not_numeral_le_zero)
  then obtain t0 a where t0: "init_proc s = Inr t0" "boot_state t0 (?L [a])" "current t0 = a" "dom (task_heap t0) = {a}"
    "pid_of t0 a = 0" "pid_count t0 = 1" "card (free_frames t0) + 1 = card (free_frames s)" "archive t0 = archive s" "kernel.more t0 = kernel.more s"
    using init_proc_boot [OF s(1)] s(3) by blast
  obtain u where u: "init_tarfs t0 = Inr (print_text u t0)" using init_tarfs_prints [of t0] s(4) t0(8) by auto
  define t1 where "t1 = (print_text u t0)\<lparr>msr := (msr t0)(IA32_EFER := msr t0 IA32_EFER OR 1, IA32_LSTAR := im_syscall im,
    IA32_STAR := 0x0033000800000000)\<rparr>"
  have mp: "msr (print_text u t0) = msr t0" by (rule print_textE [of u t0]) simp
  have t1: "init_syscall im (print_text u t0) = Inr t1"
    using msr cpuid_more [OF t0(9)] init_syscall_msr [of "print_text u t0" im] by (simp add: cpu_has_msr_def t1_def mp)
  have b1: "boot_state t1 (?L [a])" "current t1 = a" "dom (task_heap t1) = {a}" "pid_of t1 a = 0" "pid_count t1 = 1"
    "free_frames t1 = free_frames t0"
    using t0(2-6) boot_state_cong [of t1 t0] by (simp_all add: t1_def pid_of_def free_frames_def)
  obtain t2 b where t2: "kernel_thread (im_thread_idle im) (Some (c_lit ''idle'')) t1 = Inr (1, t2)" "boot_state t2 (?L [b, a])"
    "b \<notin> {a}" "dom (task_heap t2) = {b, a}" "pid_of t2 b = 1" "pid_of t2 a = 0" "pid_count t2 = 2" "current t2 = a"
    "card (free_frames t2) + 2 = card (free_frames t1)"
    using kernel_thread_boot [OF b1(1), of "''idle''" "im_thread_idle im"] s(2) t0(7) b1(2-6) unfolding L by auto
  obtain t3 c where t3: "kernel_thread (im_thread_clear im) (Some (c_lit ''clear_zombie'')) t2 = Inr (2, t3)" "boot_state t3 (?L [c, b, a])"
    "c \<notin> {b, a}" "dom (task_heap t3) = {c, b, a}" "pid_of t3 c = 2" "pid_of t3 b = 1" "pid_of t3 a = 0" "pid_count t3 = 3" "current t3 = a"
    "card (free_frames t3) + 2 = card (free_frames t2)"
    using kernel_thread_boot [OF t2(2), of "''clear_zombie''" "im_thread_clear im"] s(2) t0(7) b1(6) t2(3-9) unfolding L by auto
  have fp: "find_process_by_pid 2 (task_headp t3) t3 = Inr c"
    using find_pid_of [of t3 "?L [c, b, a]" c Active] t3(2,4,5) by (simp add: boot_state_def boot_ok_def)
  define t4 where "t4 = t3\<lparr>clear_zombie := c\<rparr>"
  have b4: "boot_state t4 (?L [c, b, a])" "dom (task_heap t4) = {c, b, a}" "pid_of t4 c = 2" "pid_of t4 b = 1" "pid_of t4 a = 0"
    "pid_count t4 = 3" "current t4 = a" "free_frames t4 = free_frames t3" "clear_zombie t4 = c"
    using t3(2-9) boot_state_cong [of t4 t3] by (simp_all add: t4_def pid_of_def free_frames_def)
  obtain t5 d where t5: "kernel_thread (im_run_init_process im) (Some (c_lit ''init_process'')) t4 = Inr (3, t5)" "boot_state t5 (?L [d, c, b, a])"
    "d \<notin> {c, b, a}" "dom (task_heap t5) = {d, c, b, a}" "pid_of t5 d = 3" "pid_of t5 c = 2" "pid_of t5 b = 1" "pid_of t5 a = 0"
    "current t5 = a" "clear_zombie t5 = c"
    using kernel_thread_boot [OF b4(1), of "''init_process''" "im_run_init_process im"] s(2) t0(7) b1(6) t2(3,9) t3(3,10) b4(2-9) unfolding L by auto
  have "start_threads im s = Inr (3, t5)"
    using t0(1) u t1 t2(1) t3(1) fp t5(1) by (simp add: start_threads_def t4_def [symmetric])
  moreover have "boot_threads t5 d c b a" using t5 t3(3) t2(3) by (simp add: boot_threads_def)
  ultimately show ?thesis by blast
qed

section \<open>Into the invariant\<close>

lemma boot_ok_tasks_ok:
  assumes ok: "boot_ok s L" and idle: "idle \<in> set (L Active)" and r: "clear_zombie s \<in> set (L Sleeping)" "pid_of s (clear_zombie s) \<noteq> 0"
  shows "tasks_ok idle s L"
proof -
  have wf: "lists_wf s L" and z: "zombie_count s = 0" and t: "threads_only s" using ok by (simp_all add: boot_ok_def)
  have live: "live s x" if "x \<in> set (L l)" for x l
    using lists_wfD(3) [OF wf that] t by (auto simp: live_def threads_only_def mm_ok_def)
  have "idle_task s idle" using lists_wfD(3) [OF wf idle] t by (auto simp: idle_task_def threads_only_def)
  moreover have "reaper_ok s L"
    using r lists_wfD(3) [OF wf r(1)] t z unfolding reaper_ok_def threads_only_def by auto
  ultimately show ?thesis using ok idle live by (simp add: tasks_ok_def boot_ok_def)
qed

lemma threads_come_up:
  fixes s :: "'a machine_scheme"
  assumes "fresh_tasks s" "7 \<le> card (free_frames s)" "image_below s" "tar_printable (archive s)" "cpu_has_msr s \<noteq> 0"
  shows "\<exists>t init_process clear idle init u v. start_threads im s = Inr (3, t) \<and> boot_threads t init_process clear idle init \<and>
    start_wait sp 3 t = Inr (init_process, Switched u) \<and> current u = clear \<and>
    thread_clear_round sp' u = Inr (Switched v) \<and> current v = idle \<and> run_ok idle v"
proof -
  let ?L = "\<lambda>xs l. if l = Active then xs else []"
  obtain t d c b a where t: "start_threads im s = Inr (3, t)" "boot_threads t d c b a"
    using start_threads_run [OF assms] by blast
  then have bt: "boot_ok t (?L [d, c, b, a])" "distinct [d, c, b, a]" "dom (task_heap t) = {d, c, b, a}" "current t = a" "clear_zombie t = c"
    "pid_of t d = 3" "pid_of t c = 2"
    by (simp_all add: boot_threads_def boot_state_def)
  have wf: "lists_wf t (?L [d, c, b, a])" "pids_unique t" using bt(1) by (simp_all add: boot_ok_def)
  have nz: "d \<noteq> 0" using lists_wfD(3) [OF wf(1), of d Active] by simp
  have "find_task 3 t = Inr d"
    using find_pid_of [OF wf, of d Active] bt(3,6) nz by (simp add: find_task_def)
  moreover obtain t' where t': "upd_task d (\<lambda>t. t\<lparr>waited := 1\<rparr>) t = Inr t'" "boot_ok t' (?L [d, c, b, a])" "same_threads t t'" "current t' = a"
    using upd_task_boot [OF bt(1), of d "\<lambda>t. t\<lparr>waited := 1\<rparr>"] bt(3,4) nz by (auto simp: known_tasks_def thread_key_def)
  moreover obtain u where u: "sleep sp Sleeping (- 1) t' = Inr (Switched u)" "boot_ok u ((?L [d, c, b])(Sleeping := [a]))"
    "same_threads t' u" "current u = c"
  proof -
    have "remove1 a [d, c, b, a] = [d, c, b]" using bt(2) by auto
    moreover have "(?L [d, c, b, a])(Active := [d, c, b], Sleeping := [a]) = (?L [d, c, b])(Sleeping := [a])" by (rule ext) simp
    moreover have "successor [d, c, b] a = c" using bt(2) by (subst successor_missing) auto
    ultimately show thesis using that sleep_boot [OF t'(2), of sp "- 1"] t'(4) by auto
  qed
  ultimately have w: "start_wait sp 3 t = Inr (d, Switched u)" using nz by (simp add: start_wait_def waitpid_start_def)
  have "hlist t_next (task_heap u) (zombie_list u) []" using u(2) lists_wfD(1) [of u _ Zombies] by (force simp: boot_ok_def)
  then have "clear_orphans LIST_FUEL (zombie_list u) u = Inr u" by (simp add: numeral_eq_Suc)
  moreover have "u\<lparr>zombie_count := 0\<rparr> = u" using u(2) by (simp add: boot_ok_def)
  ultimately have r: "thread_clear_round sp' u = sleep sp' Sleeping (- 1) u" by (simp add: thread_clear_round_def)
  let ?M = "(?L [d, b])(Sleeping := [c, a])"
  obtain v where v: "sleep sp' Sleeping (- 1) u = Inr (Switched v)" "boot_ok v ?M" "same_threads u v" "current v = b"
  proof -
    have "remove1 c [d, c, b] = [d, b]" using bt(2) by auto
    moreover have "((?L [d, c, b])(Sleeping := [a]))(Active := [d, b], Sleeping := [c, a]) = ?M" by (rule ext) simp
    moreover have "successor [d, b] c = b" using bt(2) by (subst successor_missing) auto
    ultimately show thesis using that sleep_boot [OF u(2), of sp' "- 1"] u(4) by auto
  qed
  note st = same_threads_trans [OF same_threads_trans [OF t'(3) u(3)] v(3)]
  have "clear_zombie v = c" "pid_of v c = 2" using st same_threadsD(2) [OF st, of c] bt(3,5,7) by (simp_all add: same_threads_def)
  then have "tasks_ok b v ?M" using v(2) by (intro boot_ok_tasks_ok) simp_all
  then have "run_ok b v" using v(4) unfolding run_ok_def by (intro exI [of _ ?M]) simp
  then show ?thesis using t w u(4) r v(1,4) by auto
qed

text \<open>
  C26. The kernel's view of physical memory is the loader's: \<open>start\<close> records exactly the usable entries of the
  loader's map, in their order, and changes nothing else but the screen; if they are more than five, the array overflows.
\<close>

theorem memory_map_is_read:
  assumes "loader_map (ram s) modulep us" "length (pmb_array s) = 5" "pmb_count s = 0"
  shows "if length us \<le> 5
    then \<exists>sb row col. read_memory_map modulep s = Inr (with_blocks us (s\<lparr>screen_buffer := sb, cursor_row := row, cursor_col := col\<rparr>))
    else read_memory_map modulep s = Inl Out_Of_Bounds"
  by (rule read_memory_map_eq [OF assms])

section \<open>The whole start\<close>

text \<open>
  What \<open>start\<close> finds: the loader's memory map, in which \<open>us\<close> are the usable entries, a kernel image from \<open>pb\<close> to \<open>pf\<close> with
  room behind it, variables with their initial values, and the frame \<open>pfn\<close> that \<open>kbdinit\<close> is going to take.
\<close>

definition at_power_on :: "'a machine_scheme \<Rightarrow> u64 \<Rightarrow> smap_t list \<Rightarrow> u64 \<Rightarrow> u64 \<Rightarrow> nat \<Rightarrow> bool" where
  "at_power_on s modulep us pb pf pfn \<longleftrightarrow>
     loader_map (ram s) modulep us \<and> 2 \<le> length us \<and> length us \<le> 5 \<and> length (pmb_array s) = 5 \<and> pmb_count s = 0 \<and>
     boot_layout (boot_blocks us pb pf s) \<and> page_array_ptr s = 0 \<and> bitmap_ptr s = 0 \<and> early_frame (ram s) = Some pfn \<and>
     irqmask s = irqmask0 \<and> fresh_tasks s"

lemma power_on_runs:
  fixes s :: "'a machine_scheme"
  assumes "at_power_on s modulep us pb pf pfn"
  obtains u where "start_memory im modulep pb pf s = Inr u"
    "\<And>p. p < PAGE_ARRAY_SIZE \<Longrightarrow> page_ref u p =
       (if p \<in> frames (sm_base (us ! 0)) (sm_base (us ! 0) + sm_length (us ! 0)) then 0
        else if \<exists>q\<in>reserved (boot_blocks us pb pf s). same_slot p q then 1 else 0)"
    "\<And>c1 c2. chips_follow c1 c2 u" "irqmask u = 0xFFF8"
    "\<And>v. v < 34 \<Longrightarrow> gate_ok (idt_entries u ! v) (vector_handler im v) 0x08 (if v < 32 then 0x8F else 0x8E)"
    "stdin_buf u = PA2VA (frame_pa pfn)" "fresh_tasks u" "cpu_has_msr u = cpu_has_msr s"
    "tarfs_start u = tarfs_start s" "tarfs_end u = tarfs_end s"
    "\<And>a. 0x20000 \<le> unat a \<Longrightarrow> unat a < unat pf \<Longrightarrow> unat a < normal_pfn_start * PG_SIZE \<Longrightarrow> load8 (ram u) a = load8 (ram s) a"
proof -
  have i: "irqmask s = irqmask0" "irqmask0 = 0xFFFB" using assms by (simp_all add: at_power_on_def irqmask0_def)
  have "irqmask s \<noteq> 0xFFFF" unfolding i by simp
  then obtain u where u: "start_memory im modulep pb pf s = Inr u"
    and ref: "\<forall>p < PAGE_ARRAY_SIZE. page_ref u p =
       (if p \<in> frames (sm_base (us ! 0)) (sm_base (us ! 0) + sm_length (us ! 0)) then 0
        else if \<exists>q\<in>reserved (boot_blocks us pb pf s). same_slot p q then 1 else 0)"
    and chips: "\<forall>c1 c2. chips_follow c1 c2 u"
    and m: "\<forall>i<16. bit (irqmask u) i \<longleftrightarrow> bit (irqmask s) i \<and> i \<noteq> IRQ_TIMER \<and> i \<noteq> IRQ_KBD"
    and gates: "\<forall>v<34. gate_ok (idt_entries u ! v) (vector_handler im v) 0x08 (if v < 32 then 0x8F else 0x8E)"
    and rest: "stdin_buf u = PA2VA (frame_pa pfn)" "fresh_tasks u = fresh_tasks s" "cpu_has_msr u = cpu_has_msr s"
      "tarfs_start u = tarfs_start s" "tarfs_end u = tarfs_end s"
    and ram: "\<forall>a. 0x20000 \<le> unat a \<and> unat a < unat pf \<and> unat a < normal_pfn_start * PG_SIZE \<longrightarrow> load8 (ram u) a = load8 (ram s) a"
    using start_memory_runs [of s modulep us pb pf pfn im] assms unfolding at_power_on_def by blast
  have "irqmask u = irqmask s AND NOT (mask 2)"
    by (rule bit_word_eqI) (use m in \<open>auto simp: bit_simps less_2_cases_iff\<close>)
  then have "irqmask u = 0xFFF8" by (simp add: i mask_numeral)
  moreover have "fresh_tasks u" using rest(2) assms by (simp add: at_power_on_def)
  ultimately show thesis using u ref chips gates rest ram by (intro that) blast+
qed

text \<open>
  C13. The first half of \<open>start\<close>, up to \<open>mm_init\<close>, runs to its end. Then the reference counts are those of the loader's
  memory map; both interrupt controllers are initialised and closed but for the timer, the
  keyboard and the line between them; and every gate of the interrupt table leads to its handler.
\<close>

theorem start_prepares_machine:
  fixes s :: "'a machine_scheme"
  assumes "at_power_on s modulep us pb pf pfn"
  shows "\<exists>u. start_memory im modulep pb pf s = Inr u \<and>
    (\<forall>p < PAGE_ARRAY_SIZE. page_ref u p =
       (if p \<in> frames (sm_base (us ! 0)) (sm_base (us ! 0) + sm_length (us ! 0)) then 0
        else if \<exists>q\<in>reserved (boot_blocks us pb pf s). same_slot p q then 1 else 0)) \<and>
    chip_after IO_PIC1 c1 u = master_chip (irqmask u) \<and> chip_after IO_PIC2 c2 u = slave_chip (irqmask u) \<and> irqmask u = 0xFFF8 \<and>
    (\<forall>v<34. gate_ok (idt_entries u ! v) (vector_handler im v) 0x08 (if v < 32 then 0x8F else 0x8E))"
proof -
  obtain u where u: "start_memory im modulep pb pf s = Inr u"
    "\<And>p. p < PAGE_ARRAY_SIZE \<Longrightarrow> page_ref u p =
       (if p \<in> frames (sm_base (us ! 0)) (sm_base (us ! 0) + sm_length (us ! 0)) then 0
        else if \<exists>q\<in>reserved (boot_blocks us pb pf s). same_slot p q then 1 else 0)"
    "\<And>c1 c2. chips_follow c1 c2 u" "irqmask u = 0xFFF8"
    "\<And>v. v < 34 \<Longrightarrow> gate_ok (idt_entries u ! v) (vector_handler im v) 0x08 (if v < 32 then 0x8F else 0x8E)"
    by (rule power_on_runs [OF assms, of im]) blast
  then show ?thesis unfolding chips_follow_def by blast
qed

text \<open>
  C40. The page behind standard input is given away. \<open>kbdinit\<close> takes it before \<open>mm_init\<close> sets up the reference counts, so
  nothing records it: if the word the allocator looks at is 0 and frame 671 is not reserved, the first task
  is put into the same page, and key strokes overwrite it.
\<close>

theorem keyboard_buffer_shared:
  fixes s :: "'a machine_scheme"
  assumes "at_power_on s modulep us pb pf normal_pfn_start"
    "\<forall>q\<in>reserved (boot_blocks us pb pf s). \<not> same_slot normal_pfn_start q"
  shows "\<exists>u v. start_memory im modulep pb pf s = Inr u \<and> init_proc u = Inr v \<and> stdin_buf v = current v \<and>
    (\<exists>n. task_heap v (stdin_buf v) = Some n)"
proof -
  obtain u where u: "start_memory im modulep pb pf s = Inr u"
    "\<And>p. p < PAGE_ARRAY_SIZE \<Longrightarrow> page_ref u p =
       (if p \<in> frames (sm_base (us ! 0)) (sm_base (us ! 0) + sm_length (us ! 0)) then 0
        else if \<exists>q\<in>reserved (boot_blocks us pb pf s). same_slot p q then 1 else 0)"
    "stdin_buf u = PA2VA (frame_pa normal_pfn_start)" "fresh_tasks u"
    by (rule power_on_runs [OF assms(1), of im]) blast
  have p: "normal_pfn_start \<in> pool" by (simp add: pool_def)
  then have r: "page_ref u normal_pfn_start = 0" using u(2) [of normal_pfn_start] assms(2) by (simp split: if_splits)
  then have f: "normal_pfn_start \<in> free_frames u" using p by (simp add: free_frames_def)
  obtain v x q where v: "init_proc u = Inr v" "current v = x" "dom (task_heap v) = {x}" "stdin_buf v = stdin_buf u"
    "q \<in> pool" "x = PA2VA (frame_pa q)" "\<forall>p\<in>pool. p < q \<longrightarrow> page_ref u p \<noteq> 0"
    using init_proc_boot [OF u(4) f] by blast
  have "q = normal_pfn_start" using v(5,7) p r by (auto simp: pool_def not_less intro!: antisym)
  then have "stdin_buf v = current v" "stdin_buf v \<in> dom (task_heap v)" using v(2,3,4,6) u(3) by simp_all
  then show ?thesis using u(1) v(1) by blast
qed

definition image_between :: "'a kernel_scheme \<Rightarrow> u64 \<Rightarrow> bool" where
  "image_between s pf \<longleftrightarrow> (\<forall>i < unat (tarfs_end s - tarfs_start s). let a = unat (VA2PA (tarfs_start s + of_nat i)) in
     0x20000 \<le> a \<and> a < unat pf \<and> a < normal_pfn_start * PG_SIZE)"

text \<open>
  C4. The system comes up. From the state the loader leaves, with seven frames that are not reserved, an archive in the
  kernel image and a processor with model-specific registers, \<open>boot\<close> runs to the point where \<open>start\<close>
  waits: the threads \<open>init_process\<close>, \<open>clear_zombie\<close>, \<open>idle\<close> and \<open>init\<close> exist, numbered 3 to 0. Then \<open>init\<close> waits for
  \<open>init_process\<close>, \<open>clear_zombie\<close> runs once and goes to sleep, and the invariant of all later event
  sequences holds, with the idle thread running.
\<close>

theorem system_comes_up:
  fixes s :: "'a machine_scheme"
  assumes "at_power_on s (ucast modules + KERNEL_OFFSET) us pb (ucast free) pfn" "cpu_has_msr s \<noteq> 0"
    "7 \<le> card {p \<in> pool. \<forall>q\<in>reserved (boot_blocks us pb (ucast free) s). \<not> same_slot p q}"
    "image_between s (ucast free)" "tar_printable (archive s)"
  shows "\<exists>t init_process clear idle init u v. boot im pb modules free s = Inr (3, t) \<and> boot_threads t init_process clear idle init \<and>
    start_wait sp 3 t = Inr (init_process, Switched u) \<and> current u = clear \<and>
    thread_clear_round sp' u = Inr (Switched v) \<and> current v = idle \<and> run_ok idle v"
proof -
  define s0 where "s0 = setup_tss im (reload_gdt im s)"
  have f: "ram s0 = ram s" "tarfs_start s0 = tarfs_start s" "tarfs_end s0 = tarfs_end s" "cpu_has_msr s0 = cpu_has_msr s"
    by (simp_all add: s0_def setup_tss_def reload_gdt_def cpu_has_msr_def Let_def)
  have b: "boot_layout (boot_blocks us pb (ucast free) s0) = boot_layout (boot_blocks us pb (ucast free) s)"
    "reserved (boot_blocks us pb (ucast free) s0) = reserved (boot_blocks us pb (ucast free) s)"
    by (simp_all add: s0_def setup_tss_def reload_gdt_def Let_def boot_blocks_def with_blocks_def boot_layout_def reserved_def last_block_def free_frame_def)
  have "at_power_on s0 (ucast modules + KERNEL_OFFSET) us pb (ucast free) pfn"
    using assms(1) b(1) by (simp add: at_power_on_def) (simp add: s0_def setup_tss_def reload_gdt_def Let_def fresh_tasks_def)
  then obtain w where w: "start_memory im (ucast modules + KERNEL_OFFSET) pb (ucast free) s0 = Inr w"
    "\<And>p. p < PAGE_ARRAY_SIZE \<Longrightarrow> page_ref w p =
       (if p \<in> frames (sm_base (us ! 0)) (sm_base (us ! 0) + sm_length (us ! 0)) then 0
        else if \<exists>q\<in>reserved (boot_blocks us pb (ucast free) s0). same_slot p q then 1 else 0)"
    "fresh_tasks w" "cpu_has_msr w = cpu_has_msr s0" "tarfs_start w = tarfs_start s0" "tarfs_end w = tarfs_end s0"
    "\<And>a. 0x20000 \<le> unat a \<Longrightarrow> unat a < unat (ucast free :: u64) \<Longrightarrow> unat a < normal_pfn_start * PG_SIZE \<Longrightarrow> load8 (ram w) a = load8 (ram s0) a"
    by (rule power_on_runs [where im = im]) blast
  have "{p \<in> pool. \<forall>q\<in>reserved (boot_blocks us pb (ucast free) s). \<not> same_slot p q} \<subseteq> free_frames w"
    using w(2) pool_small unfolding b(2) free_frames_def by fastforce
  then have "7 \<le> card (free_frames w)" using assms(3) card_mono [OF finite_free_frames] order_trans by blast
  moreover have "image_below w" using assms(4) f w(5,6) by (simp add: image_below_def image_between_def Let_def)
  moreover have "archive w = archive s" using assms(4) w(5-7) f by (simp add: archive_def image_between_def Let_def)
  moreover have "boot im pb modules free s = start_threads im w" using w(1) by (simp add: boot_def s0_def [symmetric] Let_def)
  ultimately show ?thesis using threads_come_up [OF w(3), of im sp sp'] assms(2,5) w(4) f(4) by simp
qed

section \<open>A machine with 128 MB\<close>

text \<open>The loader's list, one module with two entries, at 0x1000; the rest of memory, and with it the archive, is zero.\<close>

definition loader_ram :: ram where
  "loader_ram = (\<lambda>_. 0)(0x200 := 0x0000002800009001, 0x202 := 0x9FC00, 0x203 := 0x0010000000000001,
     0x204 := 0x07EFE00000000000, 0x205 := 0x0000000100000000)"

definition loader_entries :: "smap_t list" where
  "loader_entries = [\<lparr>sm_base = 0, sm_length = 0x9FC00, sm_type = 1\<rparr>, \<lparr>sm_base = 0x100000, sm_length = 0x7EFE000, sm_type = 1\<rparr>]"

definition power_on :: machine where
  "power_on = machine0\<lparr>ram := loader_ram, pmb_array := replicate 5 \<lparr>pb_base = 0, pb_length = 0\<rparr>, pmb_count := 0, page_array_ptr := 0,
     bitmap_ptr := 0, task_heap := Map.empty, sleep_task_list := 0, wait_stdin_list := 0, zombie_list := 0, zombie_count := 0,
     pid_count := 0, tarfs_start := 0xffffffff80210000, tarfs_end := 0xffffffff80210200\<rparr>"

lemma upt_bytes: "[0..<2] = [0, 1]" "[0..<4] = [0, 1, 2, 3]" "[0..<8] = [0, 1, 2, 3, 4, 5, 6, 7 :: nat]"
  by (simp_all add: upt_rec)

lemmas loader_reads = read32_def load_le_def upt_bytes VA2PA_def KERNEL_OFFSET_def load8_def lane_def loader_ram_def

lemma loader_map_example: "loader_map loader_ram (0x1000 + KERNEL_OFFSET) loader_entries"
proof -
  let ?p = "0xffffffff80001000 :: u64"
  have t: "read32 loader_ram ?p = 0x9001" "read32 loader_ram (?p + 4) = 40"
    by (simp_all add: loader_reads)
  have e: "smap_entries loader_ram (?p + 8) 2 = loader_entries"
    by (simp add: smap_entries_def read_smap_def loader_entries_def loader_reads)
  have "filter usable loader_entries = loader_entries" by (simp add: loader_entries_def usable_def)
  then show ?thesis unfolding loader_map_def using t e
    by (intro exI [of _ 0] exI [of _ ?p] exI [of _ 40] exI [of _ 2]) (simp add: KERNEL_OFFSET_def)
qed

lemma power_on_fields:
  "ram power_on = loader_ram" "length (pmb_array power_on) = 5" "pmb_count power_on = 0" "page_array_ptr power_on = 0" "bitmap_ptr power_on = 0"
  "irqmask power_on = irqmask0" "fresh_tasks power_on" "cpu_has_msr power_on = 0x20"
  "tarfs_start power_on = 0xffffffff80210000" "tarfs_end power_on = 0xffffffff80210200"
  by (simp_all add: power_on_def fresh_tasks_def cpu_has_msr_def) (simp_all add: machine0_def kernel.extend_def machine.fields_def)

lemma power_on_reserved:
  "reserved (boot_blocks loader_entries 0x200000 0x220000 power_on) = {0..<0x100} \<union> {0x200..<0x220} \<union> {0x7FFE..<0x8000} \<union> {544..<644}"
proof -
  have "{0..<0x9F} \<union> {0x9F..<0x100} = {0..<0x100 :: nat}" by auto
  then show ?thesis
    by (simp add: reserved_def boot_blocks_def with_blocks_def last_block_def frames_def free_frame_def block_end_def block_of_def loader_entries_def)
qed

text \<open>No frame from 644 on shares a bit with a reserved one, up to the padding.\<close>

lemma power_on_slot:
  assumes "same_slot p q" "q \<in> reserved (boot_blocks loader_entries 0x200000 0x220000 power_on)" "644 \<le> p" "p < 0x7F00"
  shows "p div 64 = 10 \<and> p mod 32 < 4"
proof -
  have d: "p div 64 = q div 64" "p mod 32 = q mod 32" using assms(1) by (simp_all add: same_slot_def)
  have "10 \<le> q div 64" using div_le_mono [OF assms(3), of 64] d(1) by simp
  then have "640 \<le> q" using less_eq_div_iff_mult_less_eq [of 64 10 q] by simp
  moreover have "p div 64 < 508" using assms(4) by (simp add: div_less_iff_less_mult)
  then have "q < 0x7F00" using d(1) div_less_iff_less_mult [of 64 q 508] by simp
  ultimately have "q = 640 \<or> q = 641 \<or> q = 642 \<or> q = 643" using assms(2) unfolding power_on_reserved by auto
  then show ?thesis using d by auto
qed

lemma power_on_example: "at_power_on power_on (0x1000 + KERNEL_OFFSET) loader_entries 0x200000 0x220000 normal_pfn_start"
proof -
  have "read32 loader_ram (PA2VA (4 * of_nat normal_pfn_start)) = 0" by (simp add: PA2VA_def loader_reads)
  then have "early_frame loader_ram = Some normal_pfn_start"
    unfolding early_frame_def find_upt_Some by (intro conjI allI impI) (simp_all, auto)
  moreover have "boot_layout (boot_blocks loader_entries 0x200000 0x220000 power_on)"
    using power_on_fields(2) by (simp add: boot_layout_def boot_blocks_def with_blocks_def loader_entries_def block_of_def)
  moreover have "length loader_entries = 2" by (simp add: loader_entries_def)
  ultimately show ?thesis
    unfolding at_power_on_def power_on_fields(1,3-6) using loader_map_example power_on_fields(2,7) by (simp only:) simp
qed

theorem start_prepares_machine_witness:
  "\<exists>u. start_memory image0 (0x1000 + KERNEL_OFFSET) 0x200000 0x220000 power_on = Inr u \<and> page_ref u 512 = 1 \<and> page_ref u 704 = 0 \<and>
     gate_base (idt_entries u ! 33) = 0xffffffff80204000 \<and> irqmask u = 0xFFF8"
proof -
  obtain u where u: "start_memory image0 (0x1000 + KERNEL_OFFSET) 0x200000 0x220000 power_on = Inr u" "irqmask u = 0xFFF8"
    "\<forall>p < PAGE_ARRAY_SIZE. page_ref u p =
       (if p \<in> frames (sm_base (loader_entries ! 0)) (sm_base (loader_entries ! 0) + sm_length (loader_entries ! 0)) then 0
        else if \<exists>q\<in>reserved (boot_blocks loader_entries 0x200000 0x220000 power_on). same_slot p q then 1 else 0)"
    "\<forall>v<34. gate_ok (idt_entries u ! v) (vector_handler image0 v) 0x08 (if v < 32 then 0x8F else 0x8E)"
    using start_prepares_machine [OF power_on_example, of image0 chip0 chip0] by blast
  have "page_ref u 512 = 1" "page_ref u 704 = 0"
    using u(3) unfolding power_on_reserved by (auto simp: frames_def loader_entries_def same_slot_def intro: bexI [of _ 512])
  moreover have "gate_base (idt_entries u ! 33) = 0xffffffff80204000"
    using u(4) [rule_format, of 33] by (simp add: gate_ok_def vector_handler_def image0_def)
  ultimately show ?thesis using u(1,2) by blast
qed

theorem keyboard_buffer_shared_witness:
  "\<exists>u v. start_memory image0 (0x1000 + KERNEL_OFFSET) 0x200000 0x220000 power_on = Inr u \<and> init_proc u = Inr v \<and> stdin_buf v = current v"
proof -
  have "\<forall>q\<in>reserved (boot_blocks loader_entries 0x200000 0x220000 power_on). \<not> same_slot normal_pfn_start q"
    
    using power_on_slot [of normal_pfn_start] by auto
  then show ?thesis using keyboard_buffer_shared [OF power_on_example, of image0] by blast
qed

theorem system_comes_up_witness:
  "\<exists>t init_process clear idle init. boot image0 0x200000 0x1000 0x220000 power_on = Inr (3, t) \<and> boot_threads t init_process clear idle init"
proof -
  let ?R = "reserved (boot_blocks loader_entries 0x200000 0x220000 power_on)"
  have "{704..<711} \<subseteq> {p \<in> pool. \<forall>q\<in>?R. \<not> same_slot p q}"
    
  proof
    fix p :: nat assume p: "p \<in> {704..<711}"
    then have "11 \<le> p div 64" using less_eq_div_iff_mult_less_eq [of 64 11 p] by simp
    then show "p \<in> {p \<in> pool. \<forall>q\<in>?R. \<not> same_slot p q}" using power_on_slot [of p] p by (auto simp: pool_def)
  qed
  then have "card {704..<711 :: nat} \<le> card {p \<in> pool. \<forall>q\<in>?R. \<not> same_slot p q}"
    by (intro card_mono) (simp_all add: pool_def)
  then have c: "7 \<le> card {p \<in> pool. \<forall>q\<in>?R. \<not> same_slot p q}" by simp
  have pa: "unat (VA2PA (0xffffffff80210000 + of_nat i)) = 0x210000 + i" if "i < 512" for i
  proof -
    have "VA2PA (0xffffffff80210000 + of_nat i) = of_nat (0x210000 + i)" by (simp add: VA2PA_def KERNEL_OFFSET_def)
    then show ?thesis using that by (simp add: unat_of_nat64 del: of_nat_add)
  qed
  have im: "image_between power_on 0x220000" by (simp add: image_between_def power_on_fields pa Let_def)
  have z: "load8 loader_ram (VA2PA (0xffffffff80210000 + of_nat i)) = 0" if "i < 512" for i
  proof -
    have "unat (drop_bit 3 (VA2PA (0xffffffff80210000 + of_nat i))) = (0x210000 + i) div 8" using pa [OF that] by (simp add: unat_drop64)
    then have "loader_ram (drop_bit 3 (VA2PA (0xffffffff80210000 + of_nat i))) = 0" using that by (auto simp: loader_ram_def)
    then show ?thesis by (simp add: load8_def)
  qed
  have "archive power_on = replicate 512 NUL"
    unfolding archive_def power_on_fields by (rule nth_equalityI) (simp_all add: z)
  moreover have "cstr (replicate n NUL) = []" for n by (cases n) simp_all
  ultimately have "tar_printable (archive power_on)" by (simp add: tar_printable_def header_fields_def drop_replicate)
  then have "\<exists>t init_process clear idle init u v. boot image0 0x200000 0x1000 0x220000 power_on = Inr (3, t) \<and>
      boot_threads t init_process clear idle init \<and> start_wait 0 3 t = Inr (init_process, Switched u) \<and> current u = clear \<and>
      thread_clear_round 0 u = Inr (Switched v) \<and> current v = idle \<and> run_ok idle v"
    using power_on_example c im
    by (intro system_comes_up [of power_on "0x1000" loader_entries "0x200000" "0x220000" normal_pfn_start]) (simp_all add: power_on_fields(8))
  then show ?thesis by blast
qed

theorem memory_map_is_read_witness:
  "\<exists>sb row col. read_memory_map (0x1000 + KERNEL_OFFSET) power_on =
     Inr (with_blocks loader_entries (power_on\<lparr>screen_buffer := sb, cursor_row := row, cursor_col := col\<rparr>))"
proof -
  have "loader_map (ram power_on) (0x1000 + KERNEL_OFFSET) loader_entries" using loader_map_example by (simp only: power_on_fields)
  from memory_map_is_read [OF this power_on_fields(2,3)] show ?thesis by (simp add: loader_entries_def)
qed

end
