(* ===== verification/PageWindow.thy ===== *)
theory PageWindow
  imports UserCopy Exec
begin

text \<open>
  Strings and string lists in memory, and \<open>copy_strlist\<close> (src/sys/process.c), with which \<open>exec\<close> passes the
  arguments and the environment on. What the routine relies on is a page that can be written without
  disturbing the place it reads from: the locale \<open>page_window\<close>, interpreted by the pages of an address space.
\<close>

section \<open>Words and bytes\<close>

definition word_byte :: "u64 \<Rightarrow> nat \<Rightarrow> u8" where
  "word_byte w i = ucast (drop_bit (8 * i) w)"

lemma word_byte_eqI:
  assumes "\<And>i. i < 8 \<Longrightarrow> word_byte v i = word_byte w i"
  shows "v = w"
proof (rule bit_word_eqI)
  fix n assume n: "n < LENGTH(64)"
  have "bit (word_byte x (n div 8)) (n mod 8) = bit x n" for x
    using n by (simp add: word_byte_def bit_simps)
  then show "bit v n = bit w n" using assms [of "n div 8"] n by (simp add: less_mult_imp_div_less) metis
qed

lemma aligned_offset:
  assumes "unat (a :: u64) mod 8 = 0" "i < 8"
  shows "unat (a + of_nat i) = unat a + i" "unat (a + of_nat i) div 8 = unat a div 8" "unat (a + of_nat i) mod 8 = i"
    "unat (a + of_nat i) div 4096 = unat a div 4096" "unat (a + of_nat i) mod 4096 = unat a mod 4096 + i"
proof -
  obtain q where q: "unat a = 8 * q" using assms(1) by (auto simp: mod_eq_0_iff_dvd elim: dvdE)
  then have "q < 2305843009213693952" using unat_lt64 [of a] by simp
  then show u: "unat (a + of_nat i) = unat a + i" using assms(2) q by (simp add: u64_unat)
  show "unat (a + of_nat i) div 8 = unat a div 8" "unat (a + of_nat i) mod 8 = i" using assms(2) by (simp_all add: u q)
  have d: "(8 * q + i) div 4096 = 8 * q div 4096"
    using div_mult2_eq [of "8 * q + i" 8 512] div_mult2_eq [of "8 * q" 8 512] assms(2) by simp
  then show "unat (a + of_nat i) div 4096 = unat a div 4096" by (simp add: u q)
  show "unat (a + of_nat i) mod 4096 = unat a mod 4096 + i"
    using d div_mult_mod_eq [of "8 * q + i" 4096] div_mult_mod_eq [of "8 * q" 4096] by (simp add: u q)
qed

lemma load8_word:
  assumes "unat a mod 8 = 0" "i < 8"
  shows "load8 r (a + of_nat i) = word_byte (load64 r a) i"
proof -
  note u = aligned_offset [OF assms]
  have "lane (a + of_nat i) = 8 * i" by (simp only: lane_def u(3))
  moreover have "drop_bit 3 (a + of_nat i) = drop_bit 3 a" by (simp only: qword_eq_iff u(2))
  ultimately show ?thesis by (simp add: load8_def load64_def word_byte_def)
qed

lemma load8_store64:
  assumes "unat a mod 8 = 0"
  shows "load8 (store64 a v r) c = (if unat (c - a) < 8 then word_byte v (unat (c - a)) else load8 r c)"
proof (cases "unat (c - a) < 8")
  case True
  have "c = a + of_nat (unat (c - a))" by simp
  then show ?thesis using load8_word [OF assms True, of "store64 a v r"] True by (simp add: load64_store64)
next
  case False
  have "drop_bit 3 c \<noteq> drop_bit 3 a"
  proof
    assume "drop_bit 3 c = drop_bit 3 a"
    then have q: "unat c div 8 = unat a div 8" by (simp add: qword_eq_iff)
    have "unat c = unat a + unat c mod 8"
      using div_mult_mod_eq [of "unat c" 8] div_mult_mod_eq [of "unat a" 8] assms q by simp
    then have "unat a \<le> unat c" "unat c - unat a < 8" using mod_less_divisor [of 8 "unat c"] by linarith+
    then show False using False by (simp add: unat_sub word_le_nat_alt)
  qed
  then show ?thesis using False by (simp add: load8_def store64_def)
qed

section \<open>Access through the page tables\<close>

lemma walk_aligned:
  assumes "unat va mod 8 = 0" "i < 8"
  shows "walk r c (va + of_nat i) = map_option (\<lambda>pa. pa + of_nat i) (walk r c va)"
proof -
  note u = aligned_offset [OF assms]
  have "path (va + of_nat i) = path va" by (simp only: path_def idx_page u(4))
  with u(5) show ?thesis by (cases "walk_frame r (ent_frame c) (path va)") (simp_all add: walk_def add.assoc)
qed

lemma walk_mod8: "walk r c va = Some pa \<Longrightarrow> unat pa mod 8 = unat va mod 8"
proof -
  assume "walk r c va = Some pa"
  then obtain f where f: "walk_frame r (ent_frame c) (path va) = Some f" "pa = frame_pa f + of_nat (unat va mod 4096)"
    by (auto simp: walk_def)
  have "small_frame f" using walk_frame_small [OF f(1)] by simp
  then have "unat pa = 4096 * f + unat va mod 4096"
    unfolding f(2) by (simp add: u64_unat unat_frame_pa small_frame_def)
  moreover have "(4096 * f + unat va mod 4096) mod 8 = unat va mod 4096 mod 8" by (simp add: mod_add_left_eq [symmetric])
  ultimately show ?thesis by (simp add: mod_mod_cancel)
qed

lemma vload64_bytes:
  assumes "unat va mod 8 = 0"
  shows "vload64 va s = Inr w \<longleftrightarrow> (\<forall>i<8. vload8 (va + of_nat i) s = Inr (word_byte w i))"
proof (cases "walk (ram s) (cr3 s) va")
  case None
  then show ?thesis by (auto simp: vload64_def vload8_def intro!: exI [of _ 0])
next
  case (Some pa)
  have pa: "unat pa mod 8 = 0" using walk_mod8 [OF Some] assms by simp
  have b: "vload8 (va + of_nat i) s = Inr (word_byte (load64 (ram s) pa) i)" if "i < 8" for i
    using walk_aligned [OF assms that] Some load8_word [OF pa that] by (simp add: vload8_def)
  have "vload64 va s = Inr (load64 (ram s) pa)" using Some by (simp add: vload64_def)
  then show ?thesis using b word_byte_eqI by fastforce
qed

lemma vload64_cong:
  assumes "unat va mod 8 = 0" "vload64 va s = Inr w" "\<And>i. i < 8 \<Longrightarrow> vload8 (va + of_nat i) t = vload8 (va + of_nat i) s"
  shows "vload64 va t = Inr w"
  using assms by (simp add: vload64_bytes)

section \<open>Strings and string lists\<close>

text \<open>
  \<open>string_at S s a x\<close>: at address \<open>a\<close> there is the terminated string \<open>x\<close>, all of it in \<open>S\<close>. \<open>strlist_at S s p xs\<close>: at \<open>p\<close>
  there is a NULL-terminated array of pointers to the strings \<open>xs\<close>, all of it in \<open>S\<close>.
\<close>

definition string_at :: "u64 set \<Rightarrow> 'a phymem_scheme \<Rightarrow> u64 \<Rightarrow> string \<Rightarrow> bool" where
  "string_at S s a x \<longleftrightarrow> NUL \<notin> set x \<and> (\<forall>i\<le>length x. a + of_nat i \<in> S) \<and>
     (\<forall>i<length x. vload8 (a + of_nat i) s = Inr (char_byte (x ! i))) \<and> vload8 (a + of_nat (length x)) s = Inr 0"

definition word_at :: "u64 set \<Rightarrow> 'a phymem_scheme \<Rightarrow> u64 \<Rightarrow> u64 \<Rightarrow> bool" where
  "word_at S s a w \<longleftrightarrow> unat a mod 8 = 0 \<and> (\<forall>i<8. a + of_nat i \<in> S) \<and> vload64 a s = Inr w"

fun strlist_at :: "u64 set \<Rightarrow> 'a phymem_scheme \<Rightarrow> u64 \<Rightarrow> string list \<Rightarrow> bool" where
  "strlist_at S s p [] \<longleftrightarrow> word_at S s p 0"
| "strlist_at S s p (x # xs) \<longleftrightarrow> (\<exists>q. q \<noteq> 0 \<and> word_at S s p q \<and> string_at S s q x) \<and> strlist_at S s (p + 8) xs"

definition agree :: "u64 set \<Rightarrow> 'a phymem_scheme \<Rightarrow> 'b phymem_scheme \<Rightarrow> bool" where
  "agree S s t \<longleftrightarrow> (\<forall>c\<in>S. vload8 c t = vload8 c s)"

lemma agreeD: "agree S s t \<Longrightarrow> c \<in> S \<Longrightarrow> vload8 c t = vload8 c s"
  by (simp add: agree_def)

lemma agree_trans: "agree S s t \<Longrightarrow> agree S t u \<Longrightarrow> agree S s u"
  by (simp add: agree_def)

lemma string_at_agree: "string_at S s a x \<Longrightarrow> agree S s t \<Longrightarrow> string_at S t a x"
  by (simp add: string_at_def agree_def)

lemma word_at_agree: "word_at S s a w \<Longrightarrow> agree S s t \<Longrightarrow> word_at S t a w"
  unfolding word_at_def using vload64_bytes [of a s w] vload64_bytes [of a t w] by (simp add: agree_def)

lemma strlist_at_agree: "strlist_at S s p xs \<Longrightarrow> agree S s t \<Longrightarrow> strlist_at S t p xs"
  by (induction xs arbitrary: p) (auto intro: string_at_agree word_at_agree)

lemma string_at_mono: "string_at S s a x \<Longrightarrow> S \<subseteq> T \<Longrightarrow> string_at T s a x"
  unfolding string_at_def by blast

lemma word_at_mono: "word_at S s a w \<Longrightarrow> S \<subseteq> T \<Longrightarrow> word_at T s a w"
  unfolding word_at_def by blast

lemma strlist_at_mono: "strlist_at S s p xs \<Longrightarrow> S \<subseteq> T \<Longrightarrow> strlist_at T s p xs"
  by (induction xs arbitrary: p) (auto intro: string_at_mono word_at_mono)

lemma char_byte_0: "char_byte c = 0 \<longleftrightarrow> c = NUL"
proof
  assume "char_byte c = 0"
  then have "c = byte_char 0" using byte_char_byte [of c] by simp
  then show "c = NUL" by (simp add: byte_char_def)
qed (simp add: char_byte_def)

lemma vstring_at:
  assumes "string_at S s a x" "length x < k"
  shows "vstring k a s = Inr (x @ [NUL])"
  using assms
proof (induction x arbitrary: a k)
  case Nil
  then show ?case by (cases k) (simp_all add: string_at_def)
next
  case (Cons c x)
  then obtain k' where k: "k = Suc k'" "length x < k'" by (cases k) auto
  have c: "vload8 a s = Inr (char_byte c)" "char_byte c \<noteq> 0"
    using Cons.prems(1) by (auto simp: string_at_def char_byte_0)
  have off: "a + of_nat (Suc i) = a + 1 + of_nat i" for i by (simp add: algebra_simps)
  have "string_at S s (a + 1) x"
    using Cons.prems(1) unfolding string_at_def off [symmetric]
    by (auto simp: nth_Cons_Suc [symmetric] simp del: nth_Cons_Suc of_nat_Suc)
  then have "vstring k' (a + 1) s = Inr (x @ [NUL])" using Cons.IH k(2) by blast
  then show ?case using c k(1) by simp
qed

section \<open>A page that can be written\<close>

text \<open>What a string list looks like that has been copied to the page at \<open>base\<close>: pointers from offset \<open>d\<close>, strings from \<open>t\<close>.\<close>

definition page_from :: "u64 \<Rightarrow> nat \<Rightarrow> u64 set" where
  "page_from base lo = (\<lambda>i. base + of_nat i) ` {lo..<4096}"

definition text_size :: "string list \<Rightarrow> nat" where
  "text_size xs = sum_list (map (\<lambda>x. Suc (length x)) xs)"

fun placed :: "u64 \<Rightarrow> 'a phymem_scheme \<Rightarrow> nat \<Rightarrow> nat \<Rightarrow> string list \<Rightarrow> bool" where
  "placed base s d t [] \<longleftrightarrow> True"
| "placed base s d t (x # xs) \<longleftrightarrow> vload64 (base + of_nat d) s = Inr (base + of_nat t) \<and>
     string_at (page_from base 0) s (base + of_nat t) x \<and> placed base s (d + 8) (t + Suc (length x)) xs"

text \<open>
  \<open>base\<close> is the address of a page, \<open>S\<close> the addresses the client reads while it writes to the page. \<open>ok\<close> is the
  client's view of a state in which this works.
\<close>

locale page_window =
  fixes ok :: "'a phymem_scheme \<Rightarrow> bool" and base :: u64 and S :: "u64 set"
  assumes aligned: "ok s \<Longrightarrow> unat base mod 4096 = 0"
    and store8: "ok s \<Longrightarrow> i < 4096 \<Longrightarrow> \<exists>r. vstore8 (base + of_nat i) b s = Inr (s\<lparr>ram := r\<rparr>) \<and> ok (s\<lparr>ram := r\<rparr>) \<and>
      agree S s (s\<lparr>ram := r\<rparr>) \<and>
      (\<forall>j<4096. vload8 (base + of_nat j) (s\<lparr>ram := r\<rparr>) = (if j = i then Inr b else vload8 (base + of_nat j) s))"
    and store64: "ok s \<Longrightarrow> i mod 8 = 0 \<Longrightarrow> i + 8 \<le> 4096 \<Longrightarrow> \<exists>r. vstore64 (base + of_nat i) w s = Inr (s\<lparr>ram := r\<rparr>) \<and> ok (s\<lparr>ram := r\<rparr>) \<and>
      agree S s (s\<lparr>ram := r\<rparr>) \<and>
      (\<forall>j<4096. vload8 (base + of_nat j) (s\<lparr>ram := r\<rparr>) = (if i \<le> j \<and> j < i + 8 then Inr (word_byte w (j - i)) else vload8 (base + of_nat j) s))"
begin

text \<open>\<open>t\<close> is \<open>s\<close> but for the bytes \<open>A\<close> of the page.\<close>

definition wrote :: "nat set \<Rightarrow> 'a phymem_scheme \<Rightarrow> 'a phymem_scheme \<Rightarrow> bool" where
  "wrote A s t \<longleftrightarrow> (\<exists>r. t = s\<lparr>ram := r\<rparr>) \<and> ok t \<and> agree S s t \<and>
     (\<forall>k<4096. k \<notin> A \<longrightarrow> vload8 (base + of_nat k) t = vload8 (base + of_nat k) s)"

lemma wroteD: "wrote A s t \<Longrightarrow> k < 4096 \<Longrightarrow> k \<notin> A \<Longrightarrow> vload8 (base + of_nat k) t = vload8 (base + of_nat k) s"
  unfolding wrote_def by blast

lemma wrote_refl: "ok s \<Longrightarrow> wrote A s s"
  unfolding wrote_def agree_def by (auto intro: exI [of _ "ram s"])

lemma wrote_trans: "wrote A s t \<Longrightarrow> wrote B t u \<Longrightarrow> wrote (A \<union> B) s u"
  unfolding wrote_def by (auto intro: agree_trans)

lemma word_aligned:
  assumes "ok s" "d mod 8 = 0" "d + 8 \<le> 4096"
  shows "unat (base + of_nat d) mod 8 = 0"
proof -
  obtain q where q: "unat base = 4096 * q" using aligned [OF assms(1)] by (auto simp: mod_eq_0_iff_dvd elim: dvdE)
  then have "q < 4503599627370496" using unat_lt64 [of base] by simp
  then have "unat (base + of_nat d) = 4096 * q + d" using q assms(3) by (simp add: u64_unat)
  then show ?thesis using assms(2) by (simp add: mod_add_left_eq [symmetric])
qed

lemma store_bytes:
  assumes "ok s" "t + n \<le> 4096"
  shows "\<exists>u. rfold (\<lambda>i. vstore8 (base + of_nat t + of_nat i) (b i)) [0..<n] s = Inr u \<and> wrote {t..<t + n} s u \<and>
    (\<forall>i<n. vload8 (base + of_nat t + of_nat i) u = Inr (b i))"
  using assms(2)
proof (induction n)
  case 0
  then show ?case using wrote_refl [OF assms(1)] by auto
next
  case (Suc n)
  then obtain u where u: "rfold (\<lambda>i. vstore8 (base + of_nat t + of_nat i) (b i)) [0..<n] s = Inr u" "wrote {t..<t + n} s u"
    "\<And>i. i < n \<Longrightarrow> vload8 (base + of_nat t + of_nat i) u = Inr (b i)" by auto
  have n: "t + n < 4096" "ok u" using Suc.prems u(2) by (simp_all add: wrote_def)
  have off: "base + of_nat t + of_nat i = base + of_nat (t + i)" for i by (simp add: add.assoc)
  obtain r where r: "vstore8 (base + of_nat (t + n)) (b n) u = Inr (u\<lparr>ram := r\<rparr>)" "ok (u\<lparr>ram := r\<rparr>)" "agree S u (u\<lparr>ram := r\<rparr>)"
    "\<And>j. j < 4096 \<Longrightarrow> vload8 (base + of_nat j) (u\<lparr>ram := r\<rparr>) = (if j = t + n then Inr (b n) else vload8 (base + of_nat j) u)"
    using store8 [OF n(2,1), of "b n"] by blast
  have "wrote {t..<t + Suc n} u (u\<lparr>ram := r\<rparr>)" using r(2-4) by (auto simp: wrote_def)
  moreover have "{t..<t + n} \<union> {t..<t + Suc n} = {t..<t + Suc n}" by auto
  ultimately have w: "wrote {t..<t + Suc n} s (u\<lparr>ram := r\<rparr>)" using wrote_trans [OF u(2)] by metis
  have "vload8 (base + of_nat t + of_nat i) (u\<lparr>ram := r\<rparr>) = Inr (b i)" if "i < Suc n" for i
    unfolding off using that n(1) r(4) [of "t + i"] u(3) [of i] by (auto simp: off less_Suc_eq)
  then show ?case using u(1) r(1) w by (auto simp: off)
qed

lemma store_string:
  assumes "ok s" "t + length b \<le> 4096"
  shows "\<exists>u. vstore_string (base + of_nat t) b s = Inr u \<and> wrote {t..<t + length b} s u \<and>
    (\<forall>i<length b. vload8 (base + of_nat t + of_nat i) u = Inr (char_byte (b ! i)))"
  unfolding vstore_string_def by (rule store_bytes [OF assms])

lemma store_word:
  assumes "ok s" "d mod 8 = 0" "d + 8 \<le> 4096"
  shows "\<exists>u. vstore64 (base + of_nat d) w s = Inr u \<and> wrote {d..<d + 8} s u \<and> vload64 (base + of_nat d) u = Inr w"
proof -
  obtain r where r: "vstore64 (base + of_nat d) w s = Inr (s\<lparr>ram := r\<rparr>)" "ok (s\<lparr>ram := r\<rparr>)" "agree S s (s\<lparr>ram := r\<rparr>)"
    "\<And>j. j < 4096 \<Longrightarrow> vload8 (base + of_nat j) (s\<lparr>ram := r\<rparr>) =
       (if d \<le> j \<and> j < d + 8 then Inr (word_byte w (j - d)) else vload8 (base + of_nat j) s)"
    using store64 [OF assms, of w] by blast
  have "wrote {d..<d + 8} s (s\<lparr>ram := r\<rparr>)" using r(2-4) by (auto simp: wrote_def)
  moreover have "vload64 (base + of_nat d) (s\<lparr>ram := r\<rparr>) = Inr w"
  proof -
    have "vload8 (base + of_nat d + of_nat i) (s\<lparr>ram := r\<rparr>) = Inr (word_byte w i)" if "i < 8" for i
      using r(4) [of "d + i"] that assms(3) by (simp add: add.assoc)
    then show ?thesis using vload64_bytes [OF word_aligned [OF assms]] by blast
  qed
  ultimately show ?thesis using r(1) by blast
qed

lemma wrote_placed:
  assumes "placed base s d t xs" "wrote A s u" "d mod 8 = 0" "d + 8 * length xs \<le> 4096" "t + text_size xs \<le> 4096" "ok s"
    and "A \<inter> {d..<d + 8 * length xs} = {}" "A \<inter> {t..<t + text_size xs} = {}"
  shows "placed base u d t xs"
  using assms(1,3-5,7,8)
proof (induction xs arbitrary: d t)
  case (Cons x xs)
  note w = wroteD [OF assms(2)]
  have ts: "text_size (x # xs) = Suc (length x) + text_size xs" by (simp add: text_size_def)
  have "vload64 (base + of_nat d) u = Inr (base + of_nat t)"
  proof (rule vload64_cong)
    show "vload64 (base + of_nat d) s = Inr (base + of_nat t)" using Cons.prems(1) by simp
    show "unat (base + of_nat d) mod 8 = 0" by (rule word_aligned [OF assms(6)]) (use Cons.prems in simp_all)
    fix i :: nat assume "i < 8"
    then have "d + i < 4096" "d + i \<notin> A" using Cons.prems(3,5) by auto
    from w [OF this] show "vload8 (base + of_nat d + of_nat i) u = vload8 (base + of_nat d + of_nat i) s"
      by (simp add: add.assoc)
  qed
  moreover have "string_at (page_from base 0) u (base + of_nat t) x"
  proof -
    have "vload8 (base + of_nat t + of_nat i) u = vload8 (base + of_nat t + of_nat i) s" if "i \<le> length x" for i
    proof -
      have "t + i < 4096" "t + i \<notin> A" using Cons.prems(4,6) that unfolding ts by auto
      from w [OF this] show ?thesis by (simp add: add.assoc)
    qed
    then show ?thesis using Cons.prems(1) by (simp add: string_at_def)
  qed
  moreover have "placed base u (d + 8) (t + Suc (length x)) xs"
    by (rule Cons.IH) (use Cons.prems in \<open>auto simp: ts\<close>)
  ultimately show ?case by simp
qed simp

lemma string_in_page:
  assumes "NUL \<notin> set x" "t + Suc (length x) \<le> 4096"
    and "\<And>i. i < length (x @ [NUL]) \<Longrightarrow> vload8 (base + of_nat t + of_nat i) u = Inr (char_byte ((x @ [NUL]) ! i))"
  shows "string_at (page_from base 0) u (base + of_nat t) x"
proof -
  have "base + of_nat t + of_nat i \<in> page_from base 0" if "i \<le> length x" for i
    using that assms(2) unfolding page_from_def by (intro image_eqI [of _ _ "t + i"]) (simp_all add: add.assoc)
  moreover have "vload8 (base + of_nat t + of_nat i) u = Inr (char_byte (x ! i))" if "i < length x" for i
    using assms(3) [of i] that by (simp add: nth_append)
  moreover have "vload8 (base + of_nat t + of_nat (length x)) u = Inr 0"
    using assms(3) [of "length x"] by (simp add: nth_append char_byte_def)
  ultimately show ?thesis using assms(1) by (simp add: string_at_def)
qed

text \<open>
  \<open>copy_strlist\<close> to the page: it ends, writes the pointers and the strings where it is told to, and nothing else.
\<close>

lemma copy_list:
  assumes "ok s" "strlist_at S s src xs" "length xs < k" "\<forall>x\<in>set xs. length x < STRING_FUEL"
    and "d mod 8 = 0" "d + 8 * length xs \<le> 4096" "t + text_size xs \<le> 4096"
    and "{d..<d + 8 * length xs} \<inter> {t..<t + text_size xs} = {}"
  shows "\<exists>u. copy_strlist_from k (base + of_nat d) src (base + of_nat t) s = Inr u \<and>
    wrote ({d..<d + 8 * length xs} \<union> {t..<t + text_size xs}) s u \<and> placed base u d t xs"
  using assms
proof (induction xs arbitrary: s src d t k)
  case Nil
  then show ?case using wrote_refl [OF Nil.prems(1)] by (cases k) (auto simp: word_at_def)
next
  case (Cons x xs)
  obtain k' where k: "k = Suc k'" "length xs < k'" using Cons.prems(3) by (cases k) auto
  have ts: "text_size (x # xs) = Suc (length x) + text_size xs" by (simp add: text_size_def)
  let ?t = "t + Suc (length x)"
  let ?rest = "{d + 8..<d + 8 + 8 * length xs} \<union> {?t..<?t + text_size xs}"
  obtain q where q: "q \<noteq> 0" "word_at S s src q" "string_at S s q x" "strlist_at S s (src + 8) xs" using Cons.prems(2) by auto
  obtain u where u: "vstore64 (base + of_nat d) (base + of_nat t) s = Inr u" "wrote {d..<d + 8} s u"
    "vload64 (base + of_nat d) u = Inr (base + of_nat t)"
    using store_word [OF Cons.prems(1,5), of "base + of_nat t"] Cons.prems(6) by auto
  have au: "agree S s u" "ok u" using u(2) by (simp_all add: wrote_def)
  have b: "vstring STRING_FUEL q u = Inr (x @ [NUL])"
    by (rule vstring_at [OF string_at_agree [OF q(3) au(1)]]) (use Cons.prems(4) in simp)
  obtain v where v: "vstore_string (base + of_nat t) (x @ [NUL]) u = Inr v" "wrote {t..<?t} u v"
    "\<And>i. i < length (x @ [NUL]) \<Longrightarrow> vload8 (base + of_nat t + of_nat i) v = Inr (char_byte ((x @ [NUL]) ! i))"
    using store_string [OF au(2), of t "x @ [NUL]"] Cons.prems(7) unfolding ts by auto
  have av: "agree S u v" "ok v" using v(2) by (simp_all add: wrote_def)
  have one: "placed base v d t [x]"
  proof -
    have "vload64 (base + of_nat d) v = Inr (base + of_nat t)"
    proof (rule vload64_cong [OF word_aligned [OF Cons.prems(1,5)] u(3)])
      fix i :: nat assume "i < 8"
      then have "d + i < 4096" "d + i \<notin> {t..<?t}" using Cons.prems(6,8) unfolding ts by auto
      from wroteD [OF v(2) this] show "vload8 (base + of_nat d + of_nat i) v = vload8 (base + of_nat d + of_nat i) u"
        by (simp add: add.assoc)
    qed (use Cons.prems(6) in simp)
    moreover have "string_at (page_from base 0) v (base + of_nat t) x"
      by (rule string_in_page [OF _ _ v(3)]) (use q(3) Cons.prems(7) in \<open>simp_all add: string_at_def ts\<close>)
    ultimately show ?thesis by simp
  qed
  have "strlist_at S v (src + 8) xs" using strlist_at_agree [OF q(4) agree_trans [OF au(1) av(1)]] .
  then obtain w where w: "copy_strlist_from k' (base + of_nat (d + 8)) (src + 8) (base + of_nat ?t) v = Inr w"
    "wrote ?rest v w" "placed base w (d + 8) ?t xs"
    using Cons.IH [OF av(2) _ k(2), of "src + 8" "d + 8" ?t] Cons.prems(4-8) unfolding ts by fastforce
  have "placed base w d t [x]"
    by (rule wrote_placed [OF one w(2)]) (use Cons.prems(5-8) av(2) in \<open>auto simp: text_size_def\<close>)
  moreover have "wrote ({d..<d + 8 * length (x # xs)} \<union> {t..<t + text_size (x # xs)}) s w"
  proof -
    have "{d..<d + 8} \<union> {t..<?t} \<union> ?rest = {d..<d + 8 * length (x # xs)} \<union> {t..<t + text_size (x # xs)}"
      unfolding ts by auto
    then show ?thesis using wrote_trans [OF wrote_trans [OF u(2) v(2)] w(2)] by simp
  qed
  moreover have "copy_strlist_from k (base + of_nat d) src (base + of_nat t) s = Inr w"
  proof -
    have "base + of_nat d + 8 = base + of_nat (d + 8)" "base + of_nat t + of_nat (length (x @ [NUL])) = base + of_nat ?t"
      by (simp_all add: algebra_simps)
    then have "copy_strlist_from k' (base + of_nat d + 8) (src + 8) (base + of_nat t + of_nat (length (x @ [NUL]))) v = Inr w"
      using w(1) by (simp only:)
    then show ?thesis using k(1) q(1,2) u(1) word_at_agree [OF q(2) au(1)] b v(1) by (simp add: word_at_def)
  qed
  ultimately show ?case using w(3) by auto
qed

end

section \<open>Pages of an address space\<close>

text \<open>
  The page at \<open>base\<close> is frame \<open>g\<close>, the addresses in \<open>S\<close> are mapped to other frames, and no write to frame \<open>g\<close>
  changes any of these translations.
\<close>

definition window :: "nat \<Rightarrow> u64 \<Rightarrow> u64 set \<Rightarrow> 'a phymem_scheme \<Rightarrow> bool" where
  "window g base S s \<longleftrightarrow> unat base mod 4096 = 0 \<and> small_frame g \<and> (\<forall>r. same_outside g (ram s) r \<longrightarrow>
     (\<forall>i<4096. walk r (cr3 s) (base + of_nat i) = Some (frame_pa g + of_nat i)) \<and>
     (\<forall>c\<in>S. \<exists>pa. walk r (cr3 s) c = Some pa \<and> walk (ram s) (cr3 s) c = Some pa \<and> (\<forall>k<4096. pa \<noteq> frame_pa g + of_nat k)))"

lemma same_outside_refl [simp]: "same_outside g r r"
  by (simp add: same_outside_def)

lemma same_outside_trans: "same_outside g r r' \<Longrightarrow> same_outside g r' r'' \<Longrightarrow> same_outside g r r''"
  unfolding same_outside_def by metis

lemma windowD:
  assumes "window g base S s"
  shows "unat base mod 4096 = 0" "small_frame g"
    "same_outside g (ram s) r \<Longrightarrow> i < 4096 \<Longrightarrow> walk r (cr3 s) (base + of_nat i) = Some (frame_pa g + of_nat i)"
    "same_outside g (ram s) r \<Longrightarrow> c \<in> S \<Longrightarrow> \<exists>pa. walk r (cr3 s) c = Some pa \<and> walk (ram s) (cr3 s) c = Some pa \<and>
       (\<forall>k<4096. pa \<noteq> frame_pa g + of_nat k)"
  using assms unfolding window_def by blast+

text \<open>A write to the frame keeps the window and what is read outside it.\<close>

lemma window_write:
  assumes w: "window g base S s" and r: "same_outside g (ram s) r"
  shows "window g base S (s\<lparr>ram := r\<rparr>)" "agree S s (s\<lparr>ram := r\<rparr>)"
    "j < 4096 \<Longrightarrow> vload8 (base + of_nat j) (s\<lparr>ram := r\<rparr>) = Inr (load8 r (frame_pa g + of_nat j))"
proof -
  show "agree S s (s\<lparr>ram := r\<rparr>)" unfolding agree_def
  proof
    fix c assume "c \<in> S"
    from windowD(4) [OF w r this] obtain pa where pa: "walk r (cr3 s) c = Some pa" "walk (ram s) (cr3 s) c = Some pa"
      "\<forall>k<4096. pa \<noteq> frame_pa g + of_nat k" by blast
    then have "load8 r pa = load8 (ram s) pa" using r by (auto simp: same_outside_def)
    then show "vload8 c (s\<lparr>ram := r\<rparr>) = vload8 c s" using pa by (simp add: vload8_def)
  qed
  show "window g base S (s\<lparr>ram := r\<rparr>)" unfolding window_def
  proof (intro conjI allI impI ballI)
    fix r' assume "same_outside g (ram (s\<lparr>ram := r\<rparr>)) r'"
    then have r': "same_outside g (ram s) r'" using same_outside_trans [OF r] by simp
    show "walk r' (cr3 (s\<lparr>ram := r\<rparr>)) (base + of_nat i) = Some (frame_pa g + of_nat i)" if "i < 4096" for i
      using windowD(3) [OF w r' that] by simp
    show "\<exists>pa. walk r' (cr3 (s\<lparr>ram := r\<rparr>)) c = Some pa \<and> walk (ram (s\<lparr>ram := r\<rparr>)) (cr3 (s\<lparr>ram := r\<rparr>)) c = Some pa \<and>
        (\<forall>k<4096. pa \<noteq> frame_pa g + of_nat k)" if "c \<in> S" for c
      using windowD(4) [OF w r' that] windowD(4) [OF w r that] by auto
  qed (use windowD(1,2) [OF w] in simp_all)
  show "vload8 (base + of_nat j) (s\<lparr>ram := r\<rparr>) = Inr (load8 r (frame_pa g + of_nat j))" if "j < 4096"
    using windowD(3) [OF w r that] by (simp add: vload8_def)
qed

lemma frame_byte_eq_iff:
  assumes "i < 4096" "j < 4096"
  shows "frame_pa g + of_nat i = frame_pa g + of_nat j \<longleftrightarrow> i = j"
  using offset_eq_iff [of i "frame_pa g" "frame_pa g + of_nat j"] assms by (auto simp: unat_of_nat64)

lemma store64_frame:
  assumes "small_frame g" "i mod 8 = 0" "i + 8 \<le> 4096"
  shows "same_outside g r (store64 (frame_pa g + of_nat i) v r)"
    and "j < 4096 \<Longrightarrow> load8 (store64 (frame_pa g + of_nat i) v r) (frame_pa g + of_nat j) =
      (if i \<le> j \<and> j < i + 8 then word_byte v (j - i) else load8 r (frame_pa g + of_nat j))"
proof -
  let ?a = "frame_pa g + of_nat i"
  have "unat ?a = 4096 * g + i" using assms(1,3) by (simp add: u64_unat unat_frame_pa small_frame_def)
  then have a: "unat ?a mod 8 = 0" using assms(2) by (simp add: mod_add_left_eq [symmetric])
  show "same_outside g r (store64 ?a v r)" unfolding same_outside_def
  proof (intro allI impI)
    fix c assume "load8 (store64 ?a v r) c \<noteq> load8 r c"
    then have "unat (c - ?a) < 8" using load8_store64 [OF a, of v r c] by (auto split: if_splits)
    moreover have "c = frame_pa g + of_nat (i + unat (c - ?a))" by simp
    ultimately show "\<exists>k<4096. c = frame_pa g + of_nat k" using assms(3) by (intro exI [of _ "i + unat (c - ?a)"]) simp
  qed
  assume j: "j < 4096"
  define k where "k = unat (frame_pa g + of_nat j - ?a)"
  note ld = load8_store64 [OF a, of v r "frame_pa g + of_nat j", folded k_def]
  show "load8 (store64 ?a v r) (frame_pa g + of_nat j) =
      (if i \<le> j \<and> j < i + 8 then word_byte v (j - i) else load8 r (frame_pa g + of_nat j))"
  proof (cases "k < 8")
    case True
    have "frame_pa g + of_nat j = frame_pa g + of_nat (i + k)" by (simp add: k_def)
    then have "j = i + k" using frame_byte_eq_iff [OF j, of "i + k"] True assms(3) by simp
    then show ?thesis using True ld by simp
  next
    case False
    have "k = j - i" if "i \<le> j" using that j by (simp add: k_def of_nat_diff [symmetric] unat_of_nat64 del: of_nat_diff)
    then show ?thesis using False ld by auto
  qed
qed

text \<open>The pages of an address space, with the memory \<open>r0\<close> at the beginning: only frame \<open>g\<close> is ever changed.\<close>

definition window_from :: "ram \<Rightarrow> nat \<Rightarrow> u64 \<Rightarrow> u64 set \<Rightarrow> 'a phymem_scheme \<Rightarrow> bool" where
  "window_from r0 g base S s \<longleftrightarrow> window g base S s \<and> same_outside g r0 (ram s)"

interpretation page: page_window "window_from r0 g base S" base S for r0 g base S
proof
  fix s :: "'b phymem_scheme"
  assume wf: "window_from r0 g base S s"
  then have w: "window g base S s" by (simp add: window_from_def)
  show "unat base mod 4096 = 0" by (rule windowD(1) [OF w])
  have old: "vload8 (base + of_nat j) s = Inr (load8 (ram s) (frame_pa g + of_nat j))" if "j < 4096" for j
    using windowD(3) [OF w same_outside_refl that] by (simp add: vload8_def)
  have keep: "window_from r0 g base S (s\<lparr>ram := r\<rparr>)" if "same_outside g (ram s) r" for r
    using wf window_write(1) [OF w that] same_outside_trans [OF _ that] by (simp add: window_from_def)
  fix i :: nat
  {
    fix b assume i: "i < 4096"
    let ?r = "store8 (frame_pa g + of_nat i) b (ram s)"
    have r: "same_outside g (ram s) ?r" using i by (auto simp: same_outside_def load8_store8 split: if_splits)
    have "vstore8 (base + of_nat i) b s = Inr (s\<lparr>ram := ?r\<rparr>)"
      using windowD(3) [OF w same_outside_refl i] by (simp add: vstore8_def)
    moreover have "vload8 (base + of_nat j) (s\<lparr>ram := ?r\<rparr>) = (if j = i then Inr b else vload8 (base + of_nat j) s)" if "j < 4096" for j
      using window_write(3) [OF w r that] old [OF that] frame_byte_eq_iff [OF i that] by (auto simp: load8_store8)
    ultimately show "\<exists>r. vstore8 (base + of_nat i) b s = Inr (s\<lparr>ram := r\<rparr>) \<and> window_from r0 g base S (s\<lparr>ram := r\<rparr>) \<and> agree S s (s\<lparr>ram := r\<rparr>) \<and>
        (\<forall>j<4096. vload8 (base + of_nat j) (s\<lparr>ram := r\<rparr>) = (if j = i then Inr b else vload8 (base + of_nat j) s))"
      using window_write(2) [OF w r] keep [OF r] by blast
  }
  fix v :: u64 assume i: "i mod 8 = 0" "i + 8 \<le> 4096"
  note st = store64_frame [OF windowD(2) [OF w] i, where r = "ram s" and v = v]
  have "vstore64 (base + of_nat i) v s = Inr (s\<lparr>ram := store64 (frame_pa g + of_nat i) v (ram s)\<rparr>)"
    using windowD(3) [OF w same_outside_refl, of i] i(2) by (simp add: vstore64_def)
  then show "\<exists>r. vstore64 (base + of_nat i) v s = Inr (s\<lparr>ram := r\<rparr>) \<and> window_from r0 g base S (s\<lparr>ram := r\<rparr>) \<and> agree S s (s\<lparr>ram := r\<rparr>) \<and>
      (\<forall>j<4096. vload8 (base + of_nat j) (s\<lparr>ram := r\<rparr>) =
        (if i \<le> j \<and> j < i + 8 then Inr (word_byte v (j - i)) else vload8 (base + of_nat j) s))"
    using keep [OF st(1)] window_write(2,3) [OF w st(1)] old st(2) by (intro exI conjI allI impI) auto
qed

end
