(* ===== verification/ExecArgs.thy ===== *)
theory ExecArgs
  imports PageWindow
begin

text \<open>
  How \<open>exec\<close> (src/sys/process.c) passes arguments and environment on: \<open>save_args\<close> copies both lists to a kernel
  page while the caller's address space is in force, \<open>build_stack\<close> copies them from there to the top page of
  the new program's stack.
\<close>

section \<open>Sizes\<close>

lemma text_size_Cons [simp]: "text_size (x # xs) = Suc (length x) + text_size xs"
  by (simp add: text_size_def)

lemma text_size_Nil [simp]: "text_size [] = 0"
  by (simp add: text_size_def)

lemma length_text_size: "x \<in> set xs \<Longrightarrow> length x < text_size xs"
  by (induction xs) auto

lemma length_le_text_size: "length xs \<le> text_size xs"
  by (induction xs) auto

lemma strlist_size_from_eq:
  assumes "strlist_at S s p xs" "length xs < k" "text_size xs < STRING_FUEL"
  shows "strlist_size_from k p s = Inr (of_nat (text_size xs))"
  using assms
proof (induction xs arbitrary: p k)
  case Nil
  then show ?case by (cases k) (auto simp: word_at_def)
next
  case (Cons x xs)
  then obtain k' q where k: "k = Suc k'" "length xs < k'" "q \<noteq> 0" "vload64 p s = Inr q" "string_at S s q x"
    by (cases k) (auto simp: word_at_def)
  have "vstring STRING_FUEL q s = Inr (x @ [NUL])" by (rule vstring_at [OF k(5)]) (use Cons.prems(3) in simp)
  moreover have "strlist_size_from k' (p + 8) s = Inr (of_nat (text_size xs))" using Cons k(2) by simp
  ultimately show ?case using k(1,3,4) by simp
qed

lemma strlist_num_from_eq:
  assumes "strlist_at S s p xs" "length xs < k"
  shows "strlist_num_from k p s = Inr (of_nat (length xs))"
  using assms
proof (induction xs arbitrary: p k)
  case Nil
  then show ?case by (cases k) (auto simp: word_at_def)
next
  case (Cons x xs)
  then obtain k' q where k: "k = Suc k'" "length xs < k'" "q \<noteq> 0" "vload64 p s = Inr q"
    by (cases k) (auto simp: word_at_def)
  moreover have "strlist_num_from k' (p + 8) s = Inr (of_nat (length xs))" using Cons k(2) by simp
  ultimately show ?case by simp
qed

section \<open>The layout\<close>

text \<open>
  Offsets in the top page of the stack: the arguments' strings at \<open>pa_off\<close>, the environment's below them, below these the two
  arrays of pointers, and the number of arguments.
\<close>

abbreviation (input) STACK_PAGE :: u64 where "STACK_PAGE \<equiv> 0x7ffffffff000"

definition pa_off :: "string list \<Rightarrow> nat" where
  "pa_off xs = (4088 - text_size xs) div 8 * 8"

definition pv_off :: "string list \<Rightarrow> string list \<Rightarrow> nat" where
  "pv_off xs ys = (pa_off xs - text_size ys - 8) div 8 * 8"

definition envp_off :: "string list \<Rightarrow> string list \<Rightarrow> nat" where
  "envp_off xs ys = pv_off xs ys - 8 * Suc (length ys)"

definition argv_off :: "string list \<Rightarrow> string list \<Rightarrow> nat" where
  "argv_off xs ys = envp_off xs ys - 8 * Suc (length xs)"

definition fits :: "string list \<Rightarrow> string list \<Rightarrow> bool" where
  "fits xs ys \<longleftrightarrow> text_size xs + text_size ys + 8 * (length xs + length ys) + 280 < 4096"

lemma round8: "(n :: nat) div 8 * 8 \<le> n" "n < n div 8 * 8 + 8" "n div 8 * 8 mod 8 = 0"
  by simp_all

lemma layout_offsets:
  assumes "fits xs ys"
  shows "pa_off xs + text_size xs \<le> 4088" "pv_off xs ys + text_size ys \<le> pa_off xs"
    "envp_off xs ys + 8 * Suc (length ys) = pv_off xs ys" "argv_off xs ys + 8 * Suc (length xs) = envp_off xs ys"
    "8 \<le> argv_off xs ys" "argv_off xs ys mod 8 = 0" "envp_off xs ys mod 8 = 0"
proof -
  note pa = round8 [of "4088 - text_size xs", folded pa_off_def]
  note pv = round8 [of "pa_off xs - text_size ys - 8", folded pv_off_def]
  have f: "text_size xs + text_size ys + 8 * (length xs + length ys) + 280 < 4096" using assms by (simp add: fits_def)
  show 1: "pa_off xs + text_size xs \<le> 4088" using pa(1) f by linarith
  have a: "4081 \<le> pa_off xs + text_size xs" using pa(2) f by linarith
  show 2: "pv_off xs ys + text_size ys \<le> pa_off xs" using pv(1) a f by linarith
  have "pa_off xs \<le> pv_off xs ys + text_size ys + 15" using pv(2) by linarith
  then have b: "8 * Suc (length ys) + 8 * Suc (length xs) + 8 \<le> pv_off xs ys"
    using a f by auto
  show 3: "envp_off xs ys + 8 * Suc (length ys) = pv_off xs ys" using b by (simp add: envp_off_def)
  show 4: "argv_off xs ys + 8 * Suc (length xs) = envp_off xs ys" using b by (simp add: envp_off_def argv_off_def)
  show "8 \<le> argv_off xs ys" using b by (simp add: envp_off_def argv_off_def)
  show e: "envp_off xs ys mod 8 = 0" using 3 pv(3) by presburger
  show "argv_off xs ys mod 8 = 0" using 4 e by presburger
qed

section \<open>Two lists in one page\<close>

lemma page_offset:
  fixes base :: u64
  assumes "unat base mod 4096 = 0" "d < 4096"
  shows "unat (base + of_nat d) = unat base + d"
proof -
  obtain q where q: "unat base = 4096 * q" using assms(1) by (auto simp: mod_eq_0_iff_dvd elim: dvdE)
  then have "q < 4503599627370496" using unat_lt64 [of base] by simp
  then show ?thesis using q assms(2) by (simp add: u64_unat)
qed

lemma page_aligned: "unat (base :: u64) mod 4096 = 0 \<Longrightarrow> d mod 8 = 0 \<Longrightarrow> d < 4096 \<Longrightarrow> unat (base + of_nat d) mod 8 = 0"
  using page_offset [of base d] mod_mod_cancel [of 8 4096 "unat base"] by (simp add: mod_add_eq [symmetric])

lemma in_page_from: "lo \<le> d \<Longrightarrow> d + i < 4096 \<Longrightarrow> base + of_nat d + of_nat i \<in> page_from base lo"
  unfolding page_from_def by (intro image_eqI [of _ _ "d + i"]) (simp_all add: add.assoc)

lemma word_at_page:
  assumes "unat base mod 4096 = 0" "d mod 8 = 0" "d + 8 \<le> 4096" "lo \<le> d" "vload64 (base + of_nat d) s = Inr w"
  shows "word_at (page_from base lo) s (base + of_nat d) w"
  using assms page_aligned [of base d] in_page_from [OF assms(4)] by (simp add: word_at_def)

lemma placed_strlist:
  assumes "placed base s d t xs" "unat base mod 4096 = 0" "base \<noteq> 0" "d mod 8 = 0" "d + 8 * Suc (length xs) \<le> 4096"
    "t + text_size xs \<le> 4096" "vload64 (base + of_nat (d + 8 * length xs)) s = Inr 0" "lo \<le> d" "lo \<le> t"
  shows "strlist_at (page_from base lo) s (base + of_nat d) xs"
  using assms
proof (induction xs arbitrary: d t)
  case Nil
  then show ?case using word_at_page [of base d lo s 0] by simp
next
  case (Cons x xs)
  have "unat (base + of_nat t) = unat base + t" using page_offset [OF Cons.prems(2), of t] Cons.prems(6) by simp
  then have "base + of_nat t \<noteq> 0" using Cons.prems(3) by (auto simp: u64_eq_iff)
  moreover have "word_at (page_from base lo) s (base + of_nat d) (base + of_nat t)"
    by (rule word_at_page [OF Cons.prems(2,4) _ Cons.prems(8)]) (use Cons.prems(1,5) in simp_all)
  moreover have "string_at (page_from base lo) s (base + of_nat t) x"
    using Cons.prems(1,6) in_page_from [OF Cons.prems(9)] by (simp add: string_at_def)
  moreover have "strlist_at (page_from base lo) s (base + of_nat (d + 8)) xs"
    by (rule Cons.IH [of _ "t + Suc (length x)"]) (use Cons.prems in \<open>simp_all add: algebra_simps\<close>)
  then have "strlist_at (page_from base lo) s (base + of_nat d + 8) xs" by (simp add: add.assoc)
  ultimately show ?case using Cons.prems(1) by auto
qed

text \<open>Nothing but the two lists is written to a page of zeros: their terminators are zeros that were there before.\<close>

definition apart_in_page :: "nat \<Rightarrow> nat \<Rightarrow> string list \<Rightarrow> nat \<Rightarrow> nat \<Rightarrow> string list \<Rightarrow> bool" where
  "apart_in_page d t xs d' t' ys \<longleftrightarrow>
     d mod 8 = 0 \<and> d + 8 * Suc (length xs) \<le> 4096 \<and> t + text_size xs \<le> 4096 \<and>
     {d..<d + 8 * Suc (length xs)} \<inter> {t..<t + text_size xs} = {} \<and>
     ({d..<d + 8 * Suc (length xs)} \<union> {t..<t + text_size xs}) \<inter>
     ({d'..<d' + 8 * Suc (length ys)} \<union> {t'..<t' + text_size ys}) = {}"

lemma apart_in_pageD:
  assumes "apart_in_page d t xs d' t' ys"
  shows "d mod 8 = 0" "d + 8 * length xs \<le> 4096" "d + 8 * Suc (length xs) \<le> 4096" "t + text_size xs \<le> 4096"
    "{d..<d + 8 * length xs} \<inter> {t..<t + text_size xs} = {}"
    "({d'..<d' + 8 * length ys} \<union> {t'..<t' + text_size ys}) \<inter> {d..<d + 8 * length xs} = {}"
    "({d'..<d' + 8 * length ys} \<union> {t'..<t' + text_size ys}) \<inter> {t..<t + text_size xs} = {}"
    "{d + 8 * length xs..<d + 8 * length xs + 8} \<inter>
      ({d..<d + 8 * length xs} \<union> {t..<t + text_size xs} \<union> ({d'..<d' + 8 * length ys} \<union> {t'..<t' + text_size ys})) = {}"
proof -
  let ?P = "{d..<d + 8 * Suc (length xs)}" and ?Q = "{d'..<d' + 8 * Suc (length ys)}"
  have sub: "{d..<d + 8 * length xs} \<subseteq> ?P" "{d + 8 * length xs..<d + 8 * length xs + 8} \<subseteq> ?P" "{d'..<d' + 8 * length ys} \<subseteq> ?Q"
    "{d + 8 * length xs..<d + 8 * length xs + 8} \<inter> {d..<d + 8 * length xs} = {}" by auto
  have dis: "?P \<inter> {t..<t + text_size xs} = {}"
    "(?P \<union> {t..<t + text_size xs}) \<inter> (?Q \<union> {t'..<t' + text_size ys}) = {}" using assms unfolding apart_in_page_def by blast+
  show "{d..<d + 8 * length xs} \<inter> {t..<t + text_size xs} = {}"
    "({d'..<d' + 8 * length ys} \<union> {t'..<t' + text_size ys}) \<inter> {d..<d + 8 * length xs} = {}"
    "({d'..<d' + 8 * length ys} \<union> {t'..<t' + text_size ys}) \<inter> {t..<t + text_size xs} = {}"
    "{d + 8 * length xs..<d + 8 * length xs + 8} \<inter>
      ({d..<d + 8 * length xs} \<union> {t..<t + text_size xs} \<union> ({d'..<d' + 8 * length ys} \<union> {t'..<t' + text_size ys})) = {}"
    using sub dis by blast+
qed (use assms in \<open>simp_all add: apart_in_page_def\<close>)

lemma zero_slot:
  assumes "unat base mod 4096 = 0" "e mod 8 = 0" "e + 8 \<le> 4096" "\<And>i. i < 8 \<Longrightarrow> vload8 (base + of_nat (e + i)) s = Inr 0"
  shows "vload64 (base + of_nat e) s = Inr 0"
proof -
  have "vload8 (base + of_nat e + of_nat i) s = Inr (word_byte 0 i)" if "i < 8" for i
    using assms(4) [OF that] by (simp add: word_byte_def add.assoc)
  then show ?thesis using vload64_bytes [OF page_aligned [OF assms(1,2)], of s 0] assms(3) by auto
qed

context page_window
begin

lemma copy_two_lists:
  assumes ok: "ok s" "base \<noteq> 0" and src: "strlist_at S s p xs" "strlist_at S s q ys"
    and zero: "\<And>i. i < 4096 \<Longrightarrow> vload8 (base + of_nat i) s = Inr 0"
    and place: "apart_in_page d t xs d' t' ys" "apart_in_page d' t' ys d t xs" and lo: "lo \<le> d" "lo \<le> t" "lo \<le> d'" "lo \<le> t'"
  obtains u v where "copy_strlist (base + of_nat d) p (base + of_nat t) s = Inr u"
    "copy_strlist (base + of_nat d') q (base + of_nat t') u = Inr v"
    "strlist_at (page_from base lo) v (base + of_nat d) xs" "strlist_at (page_from base lo) v (base + of_nat d') ys"
    "ok v" "agree S s v" "\<exists>r. v = s\<lparr>ram := r\<rparr>"
    "\<And>i. i < lo \<Longrightarrow> i < 4096 \<Longrightarrow> vload8 (base + of_nat i) v = Inr 0"
proof -
  let ?A = "{d..<d + 8 * length xs} \<union> {t..<t + text_size xs}" and ?B = "{d'..<d' + 8 * length ys} \<union> {t'..<t' + text_size ys}"
  note a = aligned [OF ok(1)]
  note px = apart_in_pageD [OF place(1)] and py = apart_in_pageD [OF place(2)]
  have fuel: "length xs < STRLIST_FUEL" "length ys < STRLIST_FUEL" "\<forall>x\<in>set xs. length x < STRING_FUEL" "\<forall>y\<in>set ys. length y < STRING_FUEL"
    using px(2,4) py(2,4) length_text_size [of _ xs] length_text_size [of _ ys] by fastforce+
  obtain u where u: "copy_strlist (base + of_nat d) p (base + of_nat t) s = Inr u" "wrote ?A s u" "placed base u d t xs"
    using copy_list [OF ok(1) src(1) fuel(1,3) px(1,2,4,5)] unfolding copy_strlist_def by blast
  have ou: "ok u" "agree S s u" using u(2) by (simp_all add: wrote_def)
  obtain v where v: "copy_strlist (base + of_nat d') q (base + of_nat t') u = Inr v" "wrote ?B u v" "placed base v d' t' ys"
    using copy_list [OF ou(1) strlist_at_agree [OF src(2) ou(2)] fuel(2,4) py(1,2,4,5)] unfolding copy_strlist_def by blast
  have w: "wrote (?A \<union> ?B) s v" by (rule wrote_trans [OF u(2) v(2)])
  have pv: "placed base v d t xs" by (rule wrote_placed [OF u(3) v(2) px(1,2,4) ou(1) px(6,7)])
  have slot: "vload64 (base + of_nat e) v = Inr 0"
    if "e mod 8 = 0" "e + 8 \<le> 4096" "{e..<e + 8} \<inter> (?A \<union> ?B) = {}" for e
  proof (rule zero_slot [OF a that(1,2)])
    fix i :: nat assume i: "i < 8"
    then have "e + i \<in> {e..<e + 8}" by simp
    then have "e + i \<notin> ?A \<union> ?B" using that(3) by blast
    from wroteD [OF w _ this] zero [of "e + i"] i that(2) show "vload8 (base + of_nat (e + i)) v = Inr 0" by simp
  qed
  have "vload64 (base + of_nat (d + 8 * length xs)) v = Inr 0"
    by (rule slot) (use px(1,3,8) in \<open>simp_all add: mod_simps\<close>)
  then have "strlist_at (page_from base lo) v (base + of_nat d) xs"
    by (intro placed_strlist [OF pv a ok(2) px(1,3,4) _ lo(1,2)])
  moreover have "{d' + 8 * length ys..<d' + 8 * length ys + 8} \<inter> (?A \<union> ?B) = {}" using py(8) by blast
  then have "vload64 (base + of_nat (d' + 8 * length ys)) v = Inr 0"
    by (intro slot) (use py(1,3) in \<open>simp_all add: mod_simps\<close>)
  then have "strlist_at (page_from base lo) v (base + of_nat d') ys"
    by (intro placed_strlist [OF v(3) a ok(2) py(1,3,4) _ lo(3,4)])
  moreover have "vload8 (base + of_nat i) v = Inr 0" if "i < lo" "i < 4096" for i
    using wroteD [OF w that(2)] zero [OF that(2)] that(1) lo by auto
  moreover have "ok v" "agree S s v" "\<exists>r. v = s\<lparr>ram := r\<rparr>" using w by (simp_all add: wrote_def)
  ultimately show thesis using u(1) v(1) by (intro that) simp_all
qed

end

section \<open>save_args\<close>

definition args_layout :: "u64 \<Rightarrow> string list \<Rightarrow> string list \<Rightarrow> arg_layout" where
  "args_layout kbuf xs ys =
     \<lparr>al_argc = of_nat (length xs), al_kargvp = kbuf, al_kenvpp = kbuf + of_nat (8 * Suc (length xs) + 16),
      al_argvp = STACK_PAGE + of_nat (argv_off xs ys), al_envpp = STACK_PAGE + of_nat (envp_off xs ys),
      al_pa_start = STACK_PAGE + of_nat (pa_off xs), al_pv_start = STACK_PAGE + of_nat (pv_off xs ys)\<rparr>"

lemma sint_of_nat: "n < 2147483648 \<Longrightarrow> sint (of_nat n :: u32) = int n"
  using sint_small32 [of "of_nat n"] by (simp add: unat_of_nat take_bit_nat_eq_self)

lemma signed_of_nat: "n < 2147483648 \<Longrightarrow> (signed (of_nat n :: u32) :: u64) = of_nat n"
  by (simp add: scast_eq sint_of_nat)

lemma unat_and_not7: "unat ((a :: u64) AND NOT 7) = unat a div 8 * 8"
proof -
  have m: "(7 :: u64) = mask 3" by (simp add: mask_eq_exp_minus_1)
  have "a AND NOT 7 = push_bit 3 (drop_bit 3 a)"
    unfolding m by (rule bit_word_eqI) (auto simp: bit_simps)
  moreover have "unat (drop_bit 3 a) = unat a div 8" by (simp add: unat_drop64)
  moreover have "unat a div 8 * 8 < 18446744073709551616" using unat_lt64 [of a] by (rule le_less_trans [rotated]) simp
  ultimately show ?thesis by (simp add: unat_push64)
qed

lemma round_in_page: "n < 4096 \<Longrightarrow> (STACK_PAGE + of_nat n) AND NOT 7 = STACK_PAGE + of_nat (n div 8 * 8)"
proof -
  assume n: "n < 4096"
  have b: "unat (STACK_PAGE :: u64) mod 4096 = 0" by simp
  have d: "(8 * 17592186043904 + n) div 8 = 17592186043904 + n div 8" by (rule div_mult_self4) simp
  have "unat ((STACK_PAGE + of_nat n) AND NOT 7) = unat (STACK_PAGE + of_nat (n div 8 * 8))"
    unfolding unat_and_not7 page_offset [OF b n] using page_offset [OF b, of "n div 8 * 8"] n round8(1) [of n] d by simp
  then show ?thesis by (simp only: u64_eq_iff)
qed

lemma page_diff: "m \<le> n \<Longrightarrow> (base :: u64) + of_nat n - of_nat m = base + of_nat (n - m)"
  by simp

lemma layout_words:
  assumes "fits xs ys"
  defines "A \<equiv> (of_nat (text_size xs) :: u32)" and "E \<equiv> (of_nat (text_size ys) :: u32)"
    and "an \<equiv> (of_nat (length xs) + 1 :: u32)" and "en \<equiv> (of_nat (length ys) + 1 :: u32)"
  shows "(USER_TOP - signed A - 8) AND NOT 7 = STACK_PAGE + of_nat (pa_off xs)"
    "(STACK_PAGE + of_nat (pa_off xs) - signed E - 8) AND NOT 7 = STACK_PAGE + of_nat (pv_off xs ys)"
    "STACK_PAGE + of_nat (pv_off xs ys) - signed (en * 8) = STACK_PAGE + of_nat (envp_off xs ys)"
    "STACK_PAGE + of_nat (envp_off xs ys) - signed (an * 8) = STACK_PAGE + of_nat (argv_off xs ys)"
    "signed (an * 8) = (of_nat (8 * Suc (length xs)) :: u64)"
    "signed ((an + en) * 8) = (of_nat (8 * Suc (length xs) + 8 * Suc (length ys)) :: u64)"
    "signed A = (of_nat (text_size xs) :: u64)"
    "sint (A + E + an * 8 + en * 8 + 8 + 0x100) < 4096"
proof -
  have f: "text_size xs + text_size ys + 8 * (length xs + length ys) + 280 < 4096" using assms(1) by (simp add: fits_def)
  note off = layout_offsets [OF assms(1)]
  have num: "an * 8 = of_nat (8 * Suc (length xs))" "en * 8 = of_nat (8 * Suc (length ys))"
    "(an + en) * 8 = of_nat (8 * Suc (length xs) + 8 * Suc (length ys))"
    by (simp_all add: an_def en_def algebra_simps)
  have sg: "signed A = (of_nat (text_size xs) :: u64)" "signed E = (of_nat (text_size ys) :: u64)"
    "signed (an * 8) = (of_nat (8 * Suc (length xs)) :: u64)" "signed (en * 8) = (of_nat (8 * Suc (length ys)) :: u64)"
    "signed ((an + en) * 8) = (of_nat (8 * Suc (length xs) + 8 * Suc (length ys)) :: u64)"
    unfolding num A_def E_def using f by (intro signed_of_nat, simp)+
  show "signed (an * 8) = (of_nat (8 * Suc (length xs)) :: u64)" "signed A = (of_nat (text_size xs) :: u64)"
    "signed ((an + en) * 8) = (of_nat (8 * Suc (length xs) + 8 * Suc (length ys)) :: u64)" by (fact sg)+
  have pa: "USER_TOP - of_nat (text_size xs) - 8 = STACK_PAGE + of_nat (4088 - text_size xs)"
    using page_diff [of "text_size xs + 8" 4096 STACK_PAGE] f by (simp add: algebra_simps)
  show "(USER_TOP - signed A - 8) AND NOT 7 = STACK_PAGE + of_nat (pa_off xs)"
    unfolding sg(1) pa pa_off_def by (rule round_in_page) simp
  have pv: "STACK_PAGE + of_nat (pa_off xs) - of_nat (text_size ys) - 8 = STACK_PAGE + of_nat (pa_off xs - text_size ys - 8)"
    using page_diff [of "text_size ys + 8" "pa_off xs" STACK_PAGE] off(2-5) by (simp add: algebra_simps)
  show "(STACK_PAGE + of_nat (pa_off xs) - signed E - 8) AND NOT 7 = STACK_PAGE + of_nat (pv_off xs ys)"
    unfolding sg(2) pv pv_off_def by (rule round_in_page) (use off(1) in simp)
  show "STACK_PAGE + of_nat (pv_off xs ys) - signed (en * 8) = STACK_PAGE + of_nat (envp_off xs ys)"
    unfolding sg envp_off_def using off(3) by (intro page_diff) simp
  show "STACK_PAGE + of_nat (envp_off xs ys) - signed (an * 8) = STACK_PAGE + of_nat (argv_off xs ys)"
    unfolding sg argv_off_def using off(4) by (intro page_diff) simp
  let ?n = "text_size xs + text_size ys + 8 * Suc (length xs) + 8 * Suc (length ys) + 264"
  have "A + E + an * 8 + en * 8 + 8 + 0x100 = of_nat ?n" unfolding num A_def E_def by simp
  moreover have "sint (of_nat ?n :: u32) = int ?n"
    by (rule sint_of_nat) (use f in simp)
  ultimately show "sint (A + E + an * 8 + en * 8 + 8 + 0x100) < 4096" using f by simp
qed

lemma kernel_places:
  assumes "fits xs ys"
  defines "k \<equiv> 8 * Suc (length xs) + 8 * Suc (length ys) + 48"
  shows "apart_in_page 0 k xs (8 * Suc (length xs) + 16) (k + text_size xs + 48) ys"
    "apart_in_page (8 * Suc (length xs) + 16) (k + text_size xs + 48) ys 0 k xs"
proof -
  have f: "text_size xs + text_size ys + 8 * length xs + 8 * length ys + 280 < 4096"
    "(8 * Suc (length xs) + 16) mod 8 = 0"
    using assms(1) by (simp_all add: fits_def mod_add_left_eq [symmetric])
  then show "apart_in_page 0 k xs (8 * Suc (length xs) + 16) (k + text_size xs + 48) ys"
    "apart_in_page (8 * Suc (length xs) + 16) (k + text_size xs + 48) ys 0 k xs"
    unfolding apart_in_page_def k_def by auto
qed

text \<open>
  \<open>save_args\<close>, in an address space in which the page at \<open>kbuf\<close> (frame \<open>g\<close>, all zeros) can be written without disturbing the
  caller's lists: it ends with copies of both lists in the page, and nothing else is changed.
\<close>

lemma save_args_saves:
  fixes s :: "'a kernel_scheme"
  assumes w: "window g kbuf S s" "kbuf \<noteq> 0" and src: "strlist_at S s argv xs" "strlist_at S s envp ys"
    and zero: "\<And>i. i < 4096 \<Longrightarrow> vload8 (kbuf + of_nat i) s = Inr 0" and f: "fits xs ys"
  obtains r where "save_args kbuf argv envp s = Inr (args_layout kbuf xs ys, s\<lparr>ram := r\<rparr>)" "same_outside g (ram s) r"
    "strlist_at (page_from kbuf 0) (s\<lparr>ram := r\<rparr>) kbuf xs"
    "strlist_at (page_from kbuf 0) (s\<lparr>ram := r\<rparr>) (kbuf + of_nat (8 * Suc (length xs) + 16)) ys"
    "window g kbuf S (s\<lparr>ram := r\<rparr>)"
proof -
  let ?k = "8 * Suc (length xs) + 8 * Suc (length ys) + 48"
  have ok: "window_from (ram s) g kbuf S s" using w(1) by (simp add: window_from_def)
  obtain u v where u: "copy_strlist (kbuf + of_nat 0) argv (kbuf + of_nat ?k) s = Inr u"
    "copy_strlist (kbuf + of_nat (8 * Suc (length xs) + 16)) envp (kbuf + of_nat (?k + text_size xs + 48)) u = Inr v"
    "strlist_at (page_from kbuf 0) v (kbuf + of_nat 0) xs"
    "strlist_at (page_from kbuf 0) v (kbuf + of_nat (8 * Suc (length xs) + 16)) ys"
    and wr: "window_from (ram s) g kbuf S v" "\<exists>r. v = s\<lparr>ram := r\<rparr>"
    by (rule page.copy_two_lists [OF ok w(2) src zero kernel_places [OF f], of 0]) blast+
  obtain r where v: "v = s\<lparr>ram := r\<rparr>" "window g kbuf S v" "same_outside g (ram s) r"
    using wr unfolding window_from_def by auto
  have fl: "text_size xs < STRING_FUEL" "text_size ys < STRING_FUEL" "length xs < STRLIST_FUEL" "length ys < STRLIST_FUEL"
    using f by (simp_all add: fits_def)
  have sz: "get_strlist_size argv s = Inr (of_nat (text_size xs))" "get_strlist_size envp s = Inr (of_nat (text_size ys))"
    "get_strlist_num argv s = Inr (of_nat (length xs))" "get_strlist_num envp s = Inr (of_nat (length ys))"
    unfolding get_strlist_size_def get_strlist_num_def
    by (rule strlist_size_from_eq [OF src(1) fl(3,1)] strlist_size_from_eq [OF src(2) fl(4,2)]
             strlist_num_from_eq [OF src(1) fl(3)] strlist_num_from_eq [OF src(2) fl(4)])+
  note lw = layout_words [OF f]
  have k: "kbuf + of_nat (8 * Suc (length xs) + 8 * Suc (length ys)) + 48 = kbuf + of_nat ?k"
    "kbuf + of_nat (8 * Suc (length xs)) + 16 = kbuf + of_nat (8 * Suc (length xs) + 16)"
    "kbuf + of_nat ?k + of_nat (text_size xs) + 48 = kbuf + of_nat (?k + text_size xs + 48)" by simp_all
  have "save_args kbuf argv envp s = Inr (args_layout kbuf xs ys, v)"
    using u(1,2) lw(8) unfolding save_args_def sz rbind_Inr Let_def
    unfolding lw(1) unfolding lw(2) unfolding lw(3) unfolding lw(4) unfolding lw(5-7) k args_layout_def
    by (simp del: of_nat_add of_nat_Suc of_nat_mult add: check_def)
  then show thesis using that [of r] u(3,4) v by simp
qed

end
