(* ===== verification/NewProgram.thy ===== *)
theory NewProgram
  imports ExecArgs KernelBreak
begin

text \<open>
  The address space a new program gets from \<open>exec\<close> (src/sys/process.c): \<open>new_address_space\<close>, the areas of its
  segments, and the stack with its arguments.
\<close>

section \<open>The kernel's half\<close>

text \<open>Every address of the direct map is mapped through tables that are in use.\<close>

definition kernel_space :: "nat \<Rightarrow> 'a phymem_scheme \<Rightarrow> bool" where
  "kernel_space f s \<longleftrightarrow>
     (\<forall>pa p q x. unat pa < 134217728 \<longrightarrow> path (PA2VA pa) = p @ q \<longrightarrow> q \<noteq> [] \<longrightarrow> walk_frame (ram s) f p = Some x \<longrightarrow>
        x < PAGE_ARRAY_SIZE \<and> page_ref s x \<noteq> 0) \<and>
     (\<forall>pa. unat pa < 134217728 \<longrightarrow> walk (ram s) (frame_pa f) (PA2VA pa) = Some pa)"

lemma kernel_spaceD:
  assumes "kernel_space f s" "unat pa < 134217728"
  shows "path (PA2VA pa) = p @ q \<Longrightarrow> q \<noteq> [] \<Longrightarrow> walk_frame (ram s) f p = Some x \<Longrightarrow> x < PAGE_ARRAY_SIZE \<and> page_ref s x \<noteq> 0"
    "walk (ram s) (frame_pa f) (PA2VA pa) = Some pa"
  using assms unfolding kernel_space_def by blast+

lemma kernel_space_root: "kernel_space f s \<Longrightarrow> f < PAGE_ARRAY_SIZE \<and> page_ref s f \<noteq> 0"
  by (rule kernel_spaceD(1) [where pa = 0 and p = "[]" and q = "path (PA2VA 0)"]) (simp_all add: path_def)

lemma path_less: "i \<in> set (path va) \<Longrightarrow> i < 512"
  by (auto simp: path_def)

text \<open>The entries the direct map goes through are present, so they are kept by whatever keeps the entries in use.\<close>

lemma kernel_walk_kept:
  assumes k: "kernel_space f s" "unat pa < 134217728"
    and keep: "\<And>x i. x < PAGE_ARRAY_SIZE \<Longrightarrow> page_ref s x \<noteq> 0 \<Longrightarrow> i < 512 \<Longrightarrow> frame_word (ram s) x i \<noteq> 0 \<Longrightarrow>
      frame_word r x i = frame_word (ram s) x i"
    and pq: "path (PA2VA pa) = p @ q"
  shows "walk_frame r f p = walk_frame (ram s) f p"
proof (rule walk_frame_cong)
  fix a i b x assume x: "p = a @ i # b" "walk_frame (ram s) f a = Some x"
  have "path (PA2VA pa) = a @ (i # b @ q)" using pq x(1) by simp
  note xs = kernel_spaceD(1) [OF k this _ x(2)]
  have "i < 512" using \<open>path (PA2VA pa) = a @ (i # b @ q)\<close> path_less [of i "PA2VA pa"] by (simp del: path_def)
  moreover have "f < PAGE_ARRAY_SIZE" using kernel_space_root [OF k(1)] by simp
  then have "walk_frame (ram s) f (path (PA2VA pa)) \<noteq> None" using kernel_spaceD(2) [OF k] by (auto simp: walk_def ent_frame_pa)
  then have "present (frame_word (ram s) x i)"
    unfolding \<open>path (PA2VA pa) = a @ (i # b @ q)\<close> walk_frame_append using x(2) by (auto simp: Let_def split: if_splits)
  then have "frame_word (ram s) x i \<noteq> 0" by auto
  ultimately show "frame_word r x i = frame_word (ram s) x i" using keep xs by simp
qed

lemma kernel_space_kept:
  assumes k: "kernel_space f s"
    and keep: "\<And>x i. x < PAGE_ARRAY_SIZE \<Longrightarrow> page_ref s x \<noteq> 0 \<Longrightarrow> i < 512 \<Longrightarrow> frame_word (ram s) x i \<noteq> 0 \<Longrightarrow>
      frame_word (ram t) x i = frame_word (ram s) x i" "\<And>x. x < PAGE_ARRAY_SIZE \<Longrightarrow> page_ref s x \<noteq> 0 \<Longrightarrow> page_ref t x \<noteq> 0"
  shows "kernel_space f t"
  unfolding kernel_space_def
proof (intro conjI allI impI)
  fix pa :: u64 assume pa: "unat pa < 134217728"
  note w = kernel_walk_kept [OF k pa keep(1)]
  show "walk (ram t) (frame_pa f) (PA2VA pa) = Some pa"
    using w [of "path (PA2VA pa)" "[]"] kernel_spaceD(2) [OF k pa] kernel_space_root [OF k] by (simp add: walk_def ent_frame_pa)
  fix p q x assume x: "path (PA2VA pa) = p @ q" "q \<noteq> []" "walk_frame (ram t) f p = Some x"
  then have "walk_frame (ram s) f p = Some x" using w by simp
  from kernel_spaceD(1) [OF k pa x(1,2) this] show "x < PAGE_ARRAY_SIZE" "page_ref t x \<noteq> 0" using keep(2) by simp_all
qed

section \<open>Allocation\<close>

text \<open>Frames in use keep their contents and their counts.\<close>

definition keeps :: "'a phymem_scheme \<Rightarrow> 'b phymem_scheme \<Rightarrow> bool" where
  "keeps s t \<longleftrightarrow> (\<forall>x. x < PAGE_ARRAY_SIZE \<longrightarrow> page_ref s x \<noteq> 0 \<longrightarrow>
     page_ref t x = page_ref s x \<and> (\<forall>i<512. frame_word (ram t) x i = frame_word (ram s) x i))"

lemma keepsD:
  assumes "keeps s t" "x < PAGE_ARRAY_SIZE" "page_ref s x \<noteq> 0"
  shows "page_ref t x = page_ref s x" "i < 512 \<Longrightarrow> frame_word (ram t) x i = frame_word (ram s) x i"
  using assms unfolding keeps_def by blast+

lemma keeps_refl [simp]: "keeps s s"
  by (simp add: keeps_def)

lemma keeps_trans [trans]: "keeps s t \<Longrightarrow> keeps t u \<Longrightarrow> keeps s u"
  by (simp add: keeps_def)

lemma keeps_same: "ram t = ram s \<Longrightarrow> page_ref t = page_ref s \<Longrightarrow> keeps s t"
  by (simp add: keeps_def)

lemma keeps_kernel_space:
  assumes "kernel_space f s" "keeps s t"
  shows "kernel_space f t"
  by (rule kernel_space_kept [OF assms(1)]) (simp_all add: keepsD [OF assms(2)])

text \<open>The \<open>n\<close> bytes at \<open>va\<close> of the direct map are in frames in use other than \<open>kb\<close>.\<close>

definition held :: "nat \<Rightarrow> u64 \<Rightarrow> nat \<Rightarrow> 'a phymem_scheme \<Rightarrow> bool" where
  "held kb va n s \<longleftrightarrow> (\<forall>i<n. \<exists>x k. VA2PA (va + of_nat i) = frame_pa x + of_nat k \<and> k < 4096 \<and> x < PAGE_ARRAY_SIZE \<and>
     page_ref s x \<noteq> 0 \<and> x \<noteq> kb)"

lemma load_le_held:
  assumes "held kb va n s" "m + d \<le> n"
    and "\<And>x i. x < PAGE_ARRAY_SIZE \<Longrightarrow> page_ref s x \<noteq> 0 \<Longrightarrow> x \<noteq> kb \<Longrightarrow> i < 512 \<Longrightarrow> frame_word r x i = frame_word (ram s) x i"
  shows "load_le m r (va + of_nat d) = load_le m (ram s) (va + of_nat d)"
proof -
  have "load8 r (VA2PA (va + of_nat d + of_nat i)) = load8 (ram s) (VA2PA (va + of_nat d + of_nat i))" if i: "i < m" for i
  proof -
    have e: "va + of_nat d + of_nat i = va + of_nat (d + i)" "d + i < n" using i assms(2) by simp_all
    obtain x k where x: "VA2PA (va + of_nat (d + i)) = frame_pa x + of_nat k" "k < 4096" "x < PAGE_ARRAY_SIZE" "page_ref s x \<noteq> 0" "x \<noteq> kb"
      using assms(1) e(2) unfolding held_def by blast
    show ?thesis unfolding e(1) x(1) by (rule frame_byte [OF small_frame_of [OF x(3)] x(2) assms(3) [OF x(3-5)]])
  qed
  then show ?thesis unfolding load_le_def by (intro arg_cong [where f = sum_list] map_cong) simp_all
qed

lemma held_keeps: "held kb va n s \<Longrightarrow> keeps s t \<Longrightarrow> held kb va n t"
  unfolding held_def using keepsD(1) by metis

lemma load_le_keeps: "held kb va n s \<Longrightarrow> m + d \<le> n \<Longrightarrow> keeps s t \<Longrightarrow> load_le m (ram t) (va + of_nat d) = load_le m (ram s) (va + of_nat d)"
  by (rule load_le_held) (auto simp: keepsD)

lemma zero_page_taken:
  assumes "0 < card (free_frames s)"
  obtains p w where "p \<in> free_frames s" "PA2VA (frame_pa p) \<noteq> 0"
    "get_zero_page s = Inr (PA2VA (frame_pa p), s\<lparr>page_ref := (page_ref s)(p := 1), bitmap := w, ram := memset (frame_pa p) 0 4096 (ram s)\<rparr>)"
    "keeps s (s\<lparr>page_ref := (page_ref s)(p := 1), bitmap := w, ram := memset (frame_pa p) 0 4096 (ram s)\<rparr>)"
proof -
  obtain x where "x \<in> free_frames s" using assms by fastforce
  then obtain va u where z: "get_zero_page s = Inr (va, u)" using kzero.alloc_total [of x s] by (auto simp: free_frames_def)
  then obtain p w where p: "va = PA2VA (frame_pa p)" "p \<in> pool" "page_ref s p = 0"
    "u = s\<lparr>page_ref := (page_ref s)(p := 1), bitmap := w, ram := memset (frame_pa p) 0 4096 (ram s)\<rparr>"
    by (rule get_zero_page_InrE)
  have "keeps s u" unfolding p(4) keeps_def
    using frame_word_memset [OF conjunct2 [OF pool_small [OF p(2)]] small_frame_of] p(3) by auto
  then show thesis using that z p page_va_nonzero [OF p(2)] by (auto simp: free_frames_def)
qed

lemma frame_va_inj:
  assumes "p \<in> free_frames s" "q \<in> free_frames s" "PA2VA (frame_pa p) = PA2VA (frame_pa q)"
  shows "p = q"
proof -
  have "small_frame p" "small_frame q" using assms(1,2) pool_small by (simp_all add: free_frames_def)
  then have "frame_of_va (PA2VA (frame_pa p)) = p" "frame_of_va (PA2VA (frame_pa q)) = q" by (simp_all only: frame_of_va_PA2VA)
  then show ?thesis using assms(3) by metis
qed

section \<open>Areas\<close>

text \<open>
  The running process has a new address space: directory \<open>f\<close> with an empty user half, an \<open>mm_struct\<close> at \<open>mm\<close> with a
  proper list of areas and the entry point \<open>e\<close>, and \<open>n\<close> frames are unused.
\<close>

definition new_space :: "u64 \<Rightarrow> nat \<Rightarrow> u64 \<Rightarrow> nat \<Rightarrow> 'a kernel_scheme \<Rightarrow> bool" where
  "new_space e f mm n s \<longleftrightarrow> current s \<noteq> 0 \<and> mm \<noteq> 0 \<and> (\<exists>t. task_heap s (current s) = Some t \<and> t_mm t = mm) \<and>
     (\<exists>m xs. mm_heap s mm = Some m \<and> mm_entry m = e \<and> mm_pgd m = PA2VA (frame_pa f) \<and> hlist vma_next (vma_heap s) (mm_mmap m) xs \<and>
        length xs + n < LIST_FUEL \<and> (\<forall>x \<in> set xs. \<forall>f \<in> free_frames s. x \<noteq> PA2VA (frame_pa f))) \<and>
     n \<le> card (free_frames s) \<and> cr3 s = frame_pa f \<and> (\<forall>i<256. frame_word (ram s) f i = 0) \<and> kernel_space f s"

lemma insert_vma_file:
  assumes "insert_vma vma mm s = Inr t" "vma_heap s vma = Some v"
  shows "\<exists>v'. vma_heap t vma = Some v' \<and> vm_file v' = vm_file v"
proof -
  obtain m where m: "mm \<noteq> 0" "mm_heap s mm = Some m" using assms by (auto simp: insert_vma_def rbind_eq_Inr)
  show ?thesis
  proof (cases "mm_mmap m = 0")
    case True
    then show ?thesis using assms m by (auto simp: insert_vma_def upd_mm_def)
  next
    case False
    then obtain p u where u: "upd_vma p (\<lambda>v. v\<lparr>vma_next := vma\<rparr>) s = Inr u" "upd_vma vma (\<lambda>v. v\<lparr>vma_next := 0\<rparr>) u = Inr t"
      using assms(1) m unfolding insert_vma_def by (simp add: rbind_eq_Inr) blast
    then show ?thesis using assms(2) by (auto simp: upd_vma_Inr split: if_splits)
  qed
qed

lemma insert_vma_pgd:
  assumes "insert_vma vma mm s = Inr t" "mm_heap s mm = Some m"
  shows "\<exists>m'. mm_heap t mm = Some m' \<and> mm_pgd m' = mm_pgd m \<and> mm_entry m' = mm_entry m" "ram t = ram s" "cr3 t = cr3 s"
proof -
  from insert_vma_cases [OF assms(1)] have "(\<exists>m'. mm_heap t mm = Some m' \<and> mm_pgd m' = mm_pgd m \<and> mm_entry m' = mm_entry m) \<and> ram t = ram s \<and> cr3 t = cr3 s"
  proof
    assume "\<exists>h. t = s\<lparr>vma_heap := h\<rparr>"
    then show ?thesis using assms(2) by auto
  next
    assume "\<exists>m. mm_heap s mm = Some m \<and> t = s\<lparr>mm_heap := (mm_heap s)(mm \<mapsto> m\<lparr>mm_mmap := vma\<rparr>)\<rparr>"
    then show ?thesis using assms(2) by auto
  qed
  then show "\<exists>m'. mm_heap t mm = Some m' \<and> mm_pgd m' = mm_pgd m \<and> mm_entry m' = mm_entry m" "ram t = ram s" "cr3 t = cr3 s" by blast+
qed

text \<open>One more area, as \<open>exec\<close> adds them: a page for the descriptor, its fields, and the end of the list.\<close>

lemma add_area:
  assumes sp: "new_space e f mm (Suc n) s" and G: "vma_next (G zero_vma) = 0"
  obtains vma v t u where "alloc_vma msg s = Inr (vma, u)" "vma \<noteq> 0"
    "rbind (upd_vma vma G u) (insert_vma vma mm) = Inr t" "new_space e f mm n t" "keeps s t"
    "vma_heap t vma = Some v" "vm_file v = vm_file (G zero_vma)" "task_heap t = task_heap s" "current t = current s"
proof -
  obtain c m xs where c: "task_heap s (current s) = Some c" "t_mm c = mm" "current s \<noteq> 0" "mm \<noteq> 0"
    and me: "mm_entry m = e" and m: "mm_heap s mm = Some m" "mm_pgd m = PA2VA (frame_pa f)" "hlist vma_next (vma_heap s) (mm_mmap m) xs"
      "length xs + Suc n < LIST_FUEL" "\<forall>x \<in> set xs. \<forall>f \<in> free_frames s. x \<noteq> PA2VA (frame_pa f)"
    and k: "Suc n \<le> card (free_frames s)" "cr3 s = frame_pa f" "\<forall>i<256. frame_word (ram s) f i = 0" "kernel_space f s"
    using sp unfolding new_space_def by blast
  obtain p w where p: "p \<in> free_frames s" "PA2VA (frame_pa p) \<noteq> 0"
    and z: "get_zero_page s = Inr (PA2VA (frame_pa p), s\<lparr>page_ref := (page_ref s)(p := 1), bitmap := w, ram := memset (frame_pa p) 0 4096 (ram s)\<rparr>)"
    and ks: "keeps s (s\<lparr>page_ref := (page_ref s)(p := 1), bitmap := w, ram := memset (frame_pa p) 0 4096 (ram s)\<rparr>)"
    by (rule zero_page_taken [of s]) (use k(1) in linarith, blast)
  let ?va = "PA2VA (frame_pa p)"
  let ?u = "s\<lparr>page_ref := (page_ref s)(p := 1), bitmap := w, ram := memset (frame_pa p) 0 4096 (ram s), vma_heap := (vma_heap s)(?va \<mapsto> zero_vma)\<rparr>"
  let ?v = "?u\<lparr>vma_heap := (vma_heap s)(?va \<mapsto> G zero_vma)\<rparr>"
  have al: "alloc_vma msg s = Inr (?va, ?u)" using z p(2) by (simp add: alloc_vma_def)
  have up: "upd_vma ?va G ?u = Inr ?v" using p(2) by (simp add: upd_vma_def)
  have nx: "?va \<notin> set xs" using m(5) p(1) by blast
  have L: "hlist vma_next (vma_heap ?v) (mm_mmap m) xs" using m(3) nx by simp
  have mv: "mm_heap ?v mm = Some m" "vma_heap ?v ?va = Some (G zero_vma)" "length xs < LIST_FUEL" using m(1,4) by simp_all
  obtain t m' where t: "insert_vma ?va mm ?v = Inr t" "mm_heap t mm = Some m'" "hlist vma_next (vma_heap t) (mm_mmap m') (xs @ [?va])"
    by (rule insert_vma_append [OF c(4) mv(1) L mv(3) p(2) nx mv(2) G]) blast
  note fr = insert_vma_frame [OF t(1)] and pg = insert_vma_pgd [OF t(1) mv(1)]
  obtain v where v: "vma_heap t ?va = Some v" "vm_file v = vm_file (G zero_vma)" using insert_vma_file [OF t(1) mv(2)] by blast
  have kt: "keeps s t" using ks fr(3) pg(2) by (simp add: keeps_def)
  have ff: "free_frames t = free_frames s - {p}" using fr(3) p(1) by (auto simp: free_frames_def)
  have "mm_pgd m' = PA2VA (frame_pa f)" "mm_entry m' = e" using pg(1) t(2) m(2) me by auto
  moreover have "\<forall>x \<in> set (xs @ [?va]). \<forall>f \<in> free_frames t. x \<noteq> PA2VA (frame_pa f)"
    using m(5) ff p(1) frame_va_inj by fastforce
  moreover have "length (xs @ [?va]) + n < LIST_FUEL" "n \<le> card (free_frames t)" using m(4) k(1) ff p(1) by simp_all
  moreover have "\<forall>i<256. frame_word (ram t) f i = 0" "kernel_space f t"
    using k(3,4) keepsD(2) [OF kt] kernel_space_root [OF k(4)] keeps_kernel_space [OF k(4) kt] by simp_all
  moreover have "task_heap t (current t) = Some c" "current t \<noteq> 0" "cr3 t = frame_pa f" using c fr(1,2) pg(3) k(2) by simp_all
  ultimately have "new_space e f mm n t" unfolding new_space_def using c(2,4) t(2,3) by blast
  then show thesis using that [OF al p(2) _ _ kt v] up t(1) fr(1,2) by simp
qed

section \<open>The program's segments\<close>

lemma new_space_upd_mm:
  assumes sp: "new_space e f mm n s" and G: "\<And>m. mm_pgd (G m) = mm_pgd m" "\<And>m. mm_mmap (G m) = mm_mmap m" "\<And>m. mm_entry (G m) = mm_entry m"
  obtains t where "upd_mm mm G s = Inr t" "new_space e f mm n t" "keeps s t" "task_heap t = task_heap s" "current t = current s"
proof -
  obtain m where m: "mm_heap s mm = Some m" "mm \<noteq> 0" using sp unfolding new_space_def by blast
  let ?t = "s\<lparr>mm_heap := (mm_heap s)(mm \<mapsto> G m)\<rparr>"
  have ff: "free_frames ?t = free_frames s" by (simp add: free_frames_def)
  have ks: "keeps s ?t" by (rule keeps_same) simp_all
  have "kernel_space f ?t" using sp keeps_kernel_space [OF _ ks] by (simp add: new_space_def)
  then have "new_space e f mm n ?t" using sp m(1) G unfolding new_space_def ff by auto
  moreover have "upd_mm mm G s = Inr ?t" using m by (simp add: upd_mm_def)
  ultimately show thesis using that ks by simp
qed

text \<open>The loop over the program headers ends whatever they contain, as long as there is a frame for each.\<close>

lemma load_segments_runs:
  assumes "new_space e f mm (n + k) s"
  shows "\<exists>t. load_segments n i ph sz mm file s = Inr t \<and> new_space e f mm k t \<and> keeps s t \<and>
    task_heap t = task_heap s \<and> current t = current s"
  using assms
proof (induction n arbitrary: i ph s)
  case (Suc n)
  let ?h = "read_phdr (ram s) ph"
  have weaker: "new_space e f mm (n + k) s" using Suc.prems unfolding new_space_def by fastforce
  show ?case
  proof (cases "p_type ?h = PT_LOAD")
    case False
    then show ?thesis using Suc.IH [OF weaker, of "Suc i" ph] by (simp add: Let_def)
  next
    case True
    obtain u where u: "upd_mm mm (note_segment i ?h) s = Inr u" "new_space e f mm (Suc (n + k)) u" "keeps s u"
      "task_heap u = task_heap s" "current u = current s"
      by (rule new_space_upd_mm [OF Suc.prems, of "note_segment i ?h"]) (auto simp: note_segment_def Let_def)
    obtain vma w v where v: "alloc_vma ''[exec] ERROR: vma alloc failed!'' u = Inr (vma, w)"
      "rbind (upd_vma vma (segment_area ?h file) w) (insert_vma vma mm) = Inr v" "new_space e f mm (n + k) v" "keeps u v"
      "task_heap v = task_heap u" "current v = current u"
      by (rule add_area [OF u(2), of "segment_area ?h file" "''[exec] ERROR: vma alloc failed!''"]) (simp add: segment_area_def, blast)
    obtain t where t: "load_segments n (Suc i) (ph + sz) sz mm file v = Inr t" "new_space e f mm k t" "keeps v t"
      "task_heap t = task_heap v" "current t = current v" using Suc.IH [OF v(3)] by blast
    have "load_segments (Suc n) i ph sz mm file s = Inr t"
      using True u(1) v(1,2) t(1) by (auto simp: Let_def rbind_eq_Inr)
    then show ?thesis using t(2,4,5) u(3,4,5) v(4,5,6) t(3) keeps_trans by metis
  qed
qed simp

lemma load_program_runs:
  assumes "new_space e f mm (unat (load_le 2 (ram s) (fp + 56)) + k) s"
  shows "\<exists>t. load_program fp fd mm s = Inr t \<and> new_space e f mm k t \<and> keeps s t \<and> task_heap t = task_heap s \<and> current t = current s"
proof -
  obtain u where u: "load_segments (unat (load_le 2 (ram s) (fp + 56))) 0 (fp + load_le 8 (ram s) (fp + 32)) (load_le 2 (ram s) (fp + 54)) mm
      (current s, fd) s = Inr u" "new_space e f mm k u" "keeps s u" "task_heap u = task_heap s" "current u = current s"
    using load_segments_runs [OF assms] by blast
  obtain t where "upd_mm mm place_heap u = Inr t" "new_space e f mm k t" "keeps u t" "task_heap t = task_heap u" "current t = current u"
    by (rule new_space_upd_mm [OF u(2), of place_heap]) (auto simp: place_heap_def Let_def)
  then show ?thesis using u keeps_trans unfolding load_program_def by (auto simp: Let_def)
qed

section \<open>A new directory\<close>

lemma alloc_pgd_taken:
  assumes "0 < card (free_frames s)" "pgd_start s = PA2VA (frame_pa K)" "kernel_space K s" "\<forall>i<256. frame_word (ram s) K i = 0"
  obtains f w r where "alloc_pgd s = Inr (PA2VA (frame_pa f), s\<lparr>page_ref := (page_ref s)(f := 1), bitmap := w, ram := r\<rparr>)"
    "f \<in> free_frames s" "keeps s (s\<lparr>page_ref := (page_ref s)(f := 1), bitmap := w, ram := r\<rparr>)"
    "kernel_space f (s\<lparr>page_ref := (page_ref s)(f := 1), bitmap := w, ram := r\<rparr>)" "\<forall>i<256. frame_word r f i = 0"
proof -
  have K: "K < PAGE_ARRAY_SIZE" "page_ref s K \<noteq> 0" "small_frame K" using kernel_space_root [OF assms(3)] small_frame_of by simp_all
  obtain p w where "get_zero_page s = Inr (PA2VA (frame_pa p), s\<lparr>page_ref := (page_ref s)(p := 1), bitmap := w, ram := memset (frame_pa p) 0 4096 (ram s)\<rparr>)"
    "PA2VA (frame_pa p) \<noteq> 0" by (rule zero_page_taken [OF assms(1)]) blast
  then obtain va t where a: "alloc_pgd s = Inr (va, t)" by (auto simp: alloc_pgd_def Let_def)
  obtain f w r where f: "va = PA2VA (frame_pa f)" "f \<in> pool" "page_ref s f = 0"
    "t = s\<lparr>page_ref := (page_ref s)(f := 1), bitmap := w, ram := r\<rparr>"
    "\<And>g i. small_frame g \<Longrightarrow> i < 512 \<Longrightarrow> frame_word r g i =
       (if g = f then if i = 0x1fe then frame_pa f OR 1 OR 2 else frame_word (ram s) K i else frame_word (ram s) g i)"
    by (rule alloc_pgd_InrE [OF a assms(2) K(3)]) (use K(2) in blast)+
  have fs: "f < PAGE_ARRAY_SIZE" "small_frame f" "f \<noteq> K" using pool_small [OF f(2)] f(3) K(2) by auto
  have ks: "keeps s t" unfolding f(4) keeps_def using f(3,5) small_frame_of by auto
  have walk: "walk_frame r f (0x1ff # q) = walk_frame r K (0x1ff # q)" for q
    using f(5) [OF fs(2), of "0x1ff"] f(5) [OF K(3), of "0x1ff"] fs(3) by (simp add: Let_def)
  have kt: "kernel_space K t" by (rule keeps_kernel_space [OF assms(3) ks])
  have "kernel_space f t" unfolding kernel_space_def
  proof (intro conjI allI impI)
    fix pa :: u64 assume pa: "unat pa < 134217728"
    note P = path_PA2VA(1) [OF pa]
    show "walk (ram t) (frame_pa f) (PA2VA pa) = Some pa"
      using kernel_spaceD(2) [OF kt pa] walk K(1) fs(1) unfolding walk_def P f(4) by (simp add: ent_frame_pa del: walk_frame.simps)
    fix p q x assume x: "path (PA2VA pa) = p @ q" "q \<noteq> []" "walk_frame (ram t) f p = Some x"
    have "x < PAGE_ARRAY_SIZE \<and> page_ref t x \<noteq> 0"
    proof (cases p)
      case Nil
      then show ?thesis using x(3) fs(1) f(4) by simp
    next
      case (Cons i p')
      then have "walk_frame (ram t) K p = Some x" using x(1,3) walk [of p'] unfolding P f(4) by simp
      then show ?thesis by (rule kernel_spaceD(1) [OF kt pa x(1,2)])
    qed
    then show "x < PAGE_ARRAY_SIZE" "page_ref t x \<noteq> 0" by simp_all
  qed
  moreover have "\<forall>i<256. frame_word r f i = 0" using f(5) [OF fs(2)] assms(4) by simp
  ultimately show thesis using that a f(1-4) ks by (simp add: free_frames_def)
qed

lemma new_address_space_runs:
  assumes c: "current s \<noteq> 0" "task_heap s (current s) = Some c"
    and K: "pgd_start s = PA2VA (frame_pa K)" "kernel_space K s" "\<forall>i<256. frame_word (ram s) K i = 0"
    and n: "n + 2 \<le> card (free_frames s)" and h: "held kb fp 64 s"
  obtains mm f t where "new_address_space fp s = Inr (mm, t)" "new_space (load_le 8 (ram s) (fp + 24)) f mm n t" "keeps s t" "page_ref s f = 0" "current t = current s"
proof -
  obtain p w where p: "p \<in> free_frames s" "PA2VA (frame_pa p) \<noteq> 0"
    "get_zero_page s = Inr (PA2VA (frame_pa p), s\<lparr>page_ref := (page_ref s)(p := 1), bitmap := w, ram := memset (frame_pa p) 0 4096 (ram s)\<rparr>)"
    "keeps s (s\<lparr>page_ref := (page_ref s)(p := 1), bitmap := w, ram := memset (frame_pa p) 0 4096 (ram s)\<rparr>)"
    by (rule zero_page_taken [of s]) (use n in linarith, blast)
  let ?mm = "PA2VA (frame_pa p)"
  let ?u = "s\<lparr>page_ref := (page_ref s)(p := 1), bitmap := w, ram := memset (frame_pa p) 0 4096 (ram s), mm_heap := (mm_heap s)(?mm \<mapsto> zero_mm),
    task_heap := (task_heap s)(current s \<mapsto> c\<lparr>t_mm := ?mm\<rparr>)\<rparr>"
  have ku: "keeps s ?u" using p(4) by (simp add: keeps_def)
  have fu: "free_frames ?u = free_frames s - {p}" using p(1) by (auto simp: free_frames_def)
  have nu: "Suc n \<le> card (free_frames ?u)" using n p(1) fu by simp
  have "K < PAGE_ARRAY_SIZE" "page_ref s K \<noteq> 0" using kernel_space_root [OF K(2)] by simp_all
  then have zu: "\<forall>i<256. frame_word (ram ?u) K i = 0" using K(3) keepsD(2) [OF ku] by simp
  have pu: "0 < card (free_frames ?u)" "pgd_start ?u = PA2VA (frame_pa K)" using nu K(1) by (linarith, simp)
  obtain f w' r where f: "alloc_pgd ?u = Inr (PA2VA (frame_pa f), ?u\<lparr>page_ref := (page_ref ?u)(f := 1), bitmap := w', ram := r\<rparr>)"
    "f \<in> free_frames ?u" "keeps ?u (?u\<lparr>page_ref := (page_ref ?u)(f := 1), bitmap := w', ram := r\<rparr>)"
    "kernel_space f (?u\<lparr>page_ref := (page_ref ?u)(f := 1), bitmap := w', ram := r\<rparr>)" "\<forall>i<256. frame_word r f i = 0"
    by (rule alloc_pgd_taken [OF pu keeps_kernel_space [OF K(2) ku] zu]) blast
  let ?e = "load_le 8 (ram s) (fp + 24)"
  have e: "load_le 8 (memset (frame_pa p) 0 4096 (ram s)) (fp + 24) = ?e" using load_le_keeps [OF h _ ku, of 8 24] by simp
  let ?m = "zero_mm\<lparr>mm_mmap := 0, mm_entry := ?e, mm_pgd := PA2VA (frame_pa f), mm_count := 0, code_start := 0, code_end := 0,
    data_start := 0, data_end := 0, user_heap := 0, mm_brk := 0\<rparr>"
  let ?t = "?u\<lparr>page_ref := (page_ref ?u)(f := 1), bitmap := w', ram := r, mm_heap := (mm_heap ?u)(?mm \<mapsto> ?m), cr3 := frame_pa f\<rparr>"
  have fp: "PA2VA (frame_pa f) \<noteq> 0" using page_va_nonzero [of f] f(2) by (simp add: free_frames_def)
  have "new_address_space fp s = Inr (?mm, ?t)"
    using c p(2,3) f(1) fp by (simp add: new_address_space_def alloc_mm_def upd_task_def upd_mm_def switch_mm_def e Let_def)
  moreover have ff: "free_frames ?t = free_frames ?u - {f}" using f(2) by (auto simp: free_frames_def)
  have "n \<le> card (free_frames ?t)" unfolding ff using nu f(2) by simp
  moreover have "card (free_frames ?t) \<le> card pool" by (rule card_mono) (auto simp: pool_def free_frames_def)
  then have "n < LIST_FUEL" using calculation(2) by (simp add: pool_def)
  moreover have "kernel_space f ?t" using f(4) unfolding kernel_space_def by simp
  ultimately have "new_space ?e f ?mm n ?t" unfolding new_space_def using c p(2) f(5) by auto
  moreover have "keeps s ?t" using ku f(3) by (simp add: keeps_def)
  moreover have "page_ref s f = 0" using f(2) unfolding fu by (simp add: free_frames_def)
  ultimately show thesis using that \<open>new_address_space fp s = Inr (?mm, ?t)\<close> by simp
qed

end
