(* ===== verification/UserCalls.thy ===== *)
theory UserCalls
  imports Exec TaskMachine
begin

text \<open>
  The way from a user function into the kernel: the stubs of src/include/syscall.h, the entry code
  (\<open>__syscall_handler\<close> of src/sys/entry.s) and the functions of the user library that the theory UserLib does
  not have, because they do no more than issue one system call (src/libc/file.c, fork.c, signal.c, exit.c).

  The registers of the running program are an argument. Addresses and sizes the compiler chooses (local structures,
  the address of \<open>__restore_rt\<close>) are arguments too; \<open>call_site\<close> holds what the handler depends on besides
  the saved registers: the address of \<open>ret_from_fork\<close>, the frames of \<open>exec\<close> and the kernel stack pointer.
\<close>

section \<open>Entering the kernel\<close>

record registers =
  ur_rax :: u64
  ur_rbx :: u64
  ur_rcx :: u64
  ur_rdx :: u64
  ur_rsi :: u64
  ur_rdi :: u64
  ur_rbp :: u64
  ur_rsp :: u64
  ur_r8 :: u64
  ur_r9 :: u64
  ur_r10 :: u64
  ur_r11 :: u64
  ur_r12 :: u64
  ur_r13 :: u64
  ur_r14 :: u64
  ur_r15 :: u64
  ur_rip :: u64   \<comment> \<open>the instruction behind \<open>syscall\<close>\<close>
  ur_rflags :: u64

record call_site =
  cs_ret_from_fork :: u64
  cs_stack_frames :: "u64 list"
  cs_sp :: u64

text \<open>The processor leaves the return address in RCX and the flags in R11; the entry code pushes the rest.\<close>

definition saved_frame :: "registers \<Rightarrow> sc_frame" where
  "saved_frame r = \<lparr>sf_rbp = ur_rbp r, sf_r15 = ur_r15 r, sf_r14 = ur_r14 r, sf_r13 = ur_r13 r, sf_r11 = ur_rflags r,
     sf_r10 = ur_r10 r, sf_r9 = ur_r9 r, sf_r8 = ur_r8 r, sf_rdi = ur_rdi r, sf_rsi = ur_rsi r, sf_rdx = ur_rdx r,
     sf_rcx = ur_rip r, sf_rbx = ur_rbx r\<rparr>"

text \<open>R12 goes to the user's stack, whose pointer is kept in the task before the kernel's stack is used.\<close>

definition syscall_entry :: "call_site \<Rightarrow> registers \<Rightarrow> 'a kernel_scheme \<Rightarrow> fault + (reply, 'a kernel_scheme) outcome" where
  "syscall_entry cs r s =
     rbind (vstore64 (ur_rsp r - 8) (ur_r12 r) s) (\<lambda>s.
     rbind (upd_task (current s) (\<lambda>t. t\<lparr>user_stack := ur_rsp r - 8\<rparr>) s) (\<lambda>s.
     syscall_handler (cs_ret_from_fork cs) (cs_stack_frames cs) (cs_sp cs) (ucast (ur_rax r)) (saved_frame r) s))"

section \<open>The stubs\<close>

definition syscall_0 :: "u64 \<Rightarrow> call_site \<Rightarrow> registers \<Rightarrow> 'a kernel_scheme \<Rightarrow> fault + (reply, 'a kernel_scheme) outcome" where
  "syscall_0 n cs r = syscall_entry cs (r\<lparr>ur_rax := n\<rparr>)"

definition syscall_1 :: "u64 \<Rightarrow> u64 \<Rightarrow> call_site \<Rightarrow> registers \<Rightarrow> 'a kernel_scheme \<Rightarrow> fault + (reply, 'a kernel_scheme) outcome" where
  "syscall_1 n a1 cs r = syscall_entry cs (r\<lparr>ur_rax := n, ur_rdi := a1\<rparr>)"

definition syscall_2 :: "u64 \<Rightarrow> u64 \<Rightarrow> u64 \<Rightarrow> call_site \<Rightarrow> registers \<Rightarrow> 'a kernel_scheme \<Rightarrow> fault + (reply, 'a kernel_scheme) outcome" where
  "syscall_2 n a1 a2 cs r = syscall_entry cs (r\<lparr>ur_rax := n, ur_rdi := a1, ur_rsi := a2\<rparr>)"

definition syscall_3 :: "u64 \<Rightarrow> u64 \<Rightarrow> u64 \<Rightarrow> u64 \<Rightarrow> call_site \<Rightarrow> registers \<Rightarrow> 'a kernel_scheme \<Rightarrow> fault + (reply, 'a kernel_scheme) outcome" where
  "syscall_3 n a1 a2 a3 cs r = syscall_entry cs (r\<lparr>ur_rax := n, ur_rdi := a1, ur_rsi := a2, ur_rdx := a3\<rparr>)"

definition syscall_4 :: "u64 \<Rightarrow> u64 \<Rightarrow> u64 \<Rightarrow> u64 \<Rightarrow> u64 \<Rightarrow> call_site \<Rightarrow> registers \<Rightarrow> 'a kernel_scheme \<Rightarrow> fault + (reply, 'a kernel_scheme) outcome" where
  "syscall_4 n a1 a2 a3 a4 cs r =
     syscall_entry cs (r\<lparr>ur_rax := n, ur_rdi := a1, ur_rsi := a2, ur_rdx := a3, ur_r10 := a4\<rparr>)"

definition syscall_5 :: "u64 \<Rightarrow> u64 \<Rightarrow> u64 \<Rightarrow> u64 \<Rightarrow> u64 \<Rightarrow> u64 \<Rightarrow> call_site \<Rightarrow> registers \<Rightarrow> 'a kernel_scheme \<Rightarrow> fault + (reply, 'a kernel_scheme) outcome" where
  "syscall_5 n a1 a2 a3 a4 a5 cs r =
     syscall_entry cs (r\<lparr>ur_rax := n, ur_rdi := a1, ur_rsi := a2, ur_rdx := a3, ur_r10 := a4, ur_r8 := a5\<rparr>)"

section \<open>Library functions\<close>

text \<open>The value a function returns: the number in RAX, cut to the type of its result. \<open>execve\<close> may not come back.\<close>

definition returning :: "(u64 \<Rightarrow> 'r) \<Rightarrow> fault + (reply, 's) outcome \<Rightarrow> fault + ('r + u64 \<times> u64, 's) outcome" where
  "returning f m = obind m (\<lambda>v s. Inr (Result (case v of Rax n \<Rightarrow> Inl (f n) | Start p \<Rightarrow> Inr p) s))"

text \<open>libc/file.c; an \<open>int\<close> argument is extended with its sign.\<close>

definition lseek :: "u32 \<Rightarrow> u64 \<Rightarrow> u32 \<Rightarrow> call_site \<Rightarrow> registers \<Rightarrow> 'a kernel_scheme \<Rightarrow> fault + (u64 + u64 \<times> u64, 'a kernel_scheme) outcome" where
  "lseek fildes offset whence cs r s = returning id (syscall_3 1 (signed fildes) offset (signed whence) cs r s)"

definition dup :: "u32 \<Rightarrow> call_site \<Rightarrow> registers \<Rightarrow> 'a kernel_scheme \<Rightarrow> fault + (u32 + u64 \<times> u64, 'a kernel_scheme) outcome" where
  "dup oldfd cs r s = returning ucast (syscall_1 32 (signed oldfd) cs r s)"

definition dup2 :: "u32 \<Rightarrow> u32 \<Rightarrow> call_site \<Rightarrow> registers \<Rightarrow> 'a kernel_scheme \<Rightarrow> fault + (u32 + u64 \<times> u64, 'a kernel_scheme) outcome" where
  "dup2 oldfd newfd cs r s = returning ucast (syscall_2 32 (signed oldfd) (signed newfd) cs r s)"

text \<open>libc/fork.c\<close>

definition ps :: "call_site \<Rightarrow> registers \<Rightarrow> 'a kernel_scheme \<Rightarrow> fault + (u64 + u64 \<times> u64, 'a kernel_scheme) outcome" where
  "ps cs r s = returning id (syscall_0 300 cs r s)"

definition getpid :: "call_site \<Rightarrow> registers \<Rightarrow> 'a kernel_scheme \<Rightarrow> fault + (u32 + u64 \<times> u64, 'a kernel_scheme) outcome" where
  "getpid cs r s = returning ucast (syscall_0 39 cs r s)"

definition getppid :: "call_site \<Rightarrow> registers \<Rightarrow> 'a kernel_scheme \<Rightarrow> fault + (u32 + u64 \<times> u64, 'a kernel_scheme) outcome" where
  "getppid cs r s = returning ucast (syscall_0 110 cs r s)"

text \<open>\<open>sleep\<close>, with its local \<open>struct timespec\<close> at address \<open>ts\<close>: half a second or more of the rest counts as one.\<close>

definition sleep :: "u64 \<Rightarrow> u32 \<Rightarrow> call_site \<Rightarrow> registers \<Rightarrow> 'a kernel_scheme \<Rightarrow> fault + (u32 + u64 \<times> u64, 'a kernel_scheme) outcome" where
  "sleep ts seconds cs r s =
     rbind (vstore64 ts (ucast seconds) s) (\<lambda>s.
     rbind (vstore64 (ts + 8) 0 s) (\<lambda>s.
     obind (returning (ucast :: u64 \<Rightarrow> u32) (syscall_2 35 ts ts cs r s)) (\<lambda>res s.
     case res of
       Inr p \<Rightarrow> Inr (Result (Inr p) s)
     | Inl res \<Rightarrow>
         if res = 0 then Inr (Result (Inl 0) s)
         else rbind (vload64 ts s) (\<lambda>tv_sec.
              rbind (vload64 (ts + 8) s) (\<lambda>tv_nsec.
              Inr (Result (Inl (ucast tv_sec + (if 500000000 \<le> sint tv_nsec then 1 else 0))) s))))))"

text \<open>libc/signal.c; \<open>struct kernel_sigaction\<close> has four fields of eight bytes.\<close>

abbreviation (input) SA_RESTORER :: u64 where "SA_RESTORER \<equiv> 0x04000000"
abbreviation (input) SIGERR :: u64 where "SIGERR \<equiv> - 1"

definition signal :: "u64 \<Rightarrow> u64 \<Rightarrow> u64 \<Rightarrow> u32 \<Rightarrow> u64 \<Rightarrow> call_site \<Rightarrow> registers \<Rightarrow> 'a kernel_scheme \<Rightarrow>
    fault + (u64 + u64 \<times> u64, 'a kernel_scheme) outcome" where
  "signal restore_rt sa osa signum handler cs r s =
     rbind (vstore64 sa handler s) (\<lambda>s.
     rbind (vstore64 (sa + 24) 0 s) (\<lambda>s.
     rbind (vstore64 (sa + 8) SA_RESTORER s) (\<lambda>s.
     rbind (vstore64 (sa + 16) restore_rt s) (\<lambda>s.
     obind (returning (\<lambda>n. int_arg n) (syscall_4 13 (signed signum) sa osa 8 cs r s)) (\<lambda>result s.
     case result of
       Inr p \<Rightarrow> Inr (Result (Inr p) s)
     | Inl result \<Rightarrow>
         if 0 \<le> result then rbind (vload64 osa s) (\<lambda>h. Inr (Result (Inl h) s)) else Inr (Result (Inl SIGERR) s))))))"

definition alarm :: "u32 \<Rightarrow> call_site \<Rightarrow> registers \<Rightarrow> 'a kernel_scheme \<Rightarrow> fault + (u32 + u64 \<times> u64, 'a kernel_scheme) outcome" where
  "alarm seconds cs r s = returning ucast (syscall_1 37 (ucast seconds) cs r s)"

text \<open>libc/exit.c; the number of the library's \<open>brk\<close> (libc/brk.c) is 12.\<close>

definition exit :: "u32 \<Rightarrow> call_site \<Rightarrow> registers \<Rightarrow> 'a kernel_scheme \<Rightarrow> fault + (u64 + u64 \<times> u64, 'a kernel_scheme) outcome" where
  "exit status cs r s = returning id (syscall_1 60 (signed status) cs r s)"

end
