(* ===== verification/ProgramStart.thy ===== *)
theory ProgramStart
  imports NewProgram UserCalls
begin

text \<open>
  The start of a program: the stack \<open>exec\<close> builds for it, and what \<open>_start\<close> (src/crt/crt1.c) makes of it before it calls
  \<open>main\<close>.
\<close>

section \<open>crt1.c\<close>

text \<open>\<open>*((int *)p)\<close>\<close>

definition vload32 :: "u64 \<Rightarrow> 'a phymem_scheme \<Rightarrow> fault + u32" where
  "vload32 va s =
     rfold (\<lambda>i acc. rbind (vload8 (va + of_nat i) s) (\<lambda>b. Inr (acc OR push_bit (8 * i) (ucast b)))) [0..<4] 0"

text \<open>
  \<open>_start\<close> up to the call of \<open>main\<close>: the stack pointer it reads is the one after the compiler's prologue, 24 bytes below the one
  the program is started with; the result are the three arguments of \<open>main\<close>.
\<close>

definition crt_args :: "u64 \<Rightarrow> 'a phymem_scheme \<Rightarrow> fault + u32 \<times> u64 \<times> u64" where
  "crt_args rsp s =
     (let pargc = rsp + 3 * 8 in
      rbind (vload32 pargc s) (\<lambda>argc.
      let argv = pargc + 8 in Inr (argc, argv, argv + signed ((argc + 1) * 8))))"

text \<open>\<open>brk(0)\<close>, \<open>main\<close> and \<open>exit\<close>; the registers at the two system calls are arguments.\<close>

definition crt_start :: "(u32 \<Rightarrow> u64 \<Rightarrow> u64 \<Rightarrow> 'a kernel_scheme \<Rightarrow> fault + (u32 + u64 \<times> u64, 'a kernel_scheme) outcome) \<Rightarrow>
    call_site \<Rightarrow> registers \<Rightarrow> registers \<Rightarrow> u64 \<Rightarrow> 'a kernel_scheme \<Rightarrow> fault + (u64 + u64 \<times> u64, 'a kernel_scheme) outcome" where
  "crt_start main cs r r' rsp s =
     rbind (crt_args rsp s) (\<lambda>(argc, argv, envp).
     obind (syscall_1 12 0 cs r s) (\<lambda>_ s.
     obind (main argc argv envp s) (\<lambda>res s.
     case res of Inl res \<Rightarrow> exit res cs r' s | Inr p \<Rightarrow> Inr (Result (Inr p) s))))"

lemma bytes_of_u32:
  fixes w :: u32
  shows "ucast (ucast w :: u8) OR push_bit 8 (ucast (ucast (drop_bit 8 w) :: u8)) OR
    push_bit 16 (ucast (ucast (drop_bit 16 w) :: u8)) OR push_bit 24 (ucast (ucast (drop_bit 24 w) :: u8)) = w" (is "?v = w")
proof (rule bit_word_eqI)
  fix k assume "k < LENGTH(32)"
  then have k: "k < 8 \<or> 8 \<le> k \<and> k < 16 \<or> 16 \<le> k \<and> k < 24 \<or> 24 \<le> k \<and> k < 32" by auto
  then show "bit ?v k = bit w k" by (auto simp: bit_simps)
qed

lemma vload32_bytes:
  assumes "\<And>i. i < 4 \<Longrightarrow> vload8 (va + of_nat i) s = Inr (ucast (drop_bit (8 * i) w))"
  shows "vload32 va s = Inr w"
proof -
  have u: "[0..<4] = [0, 1, 2, 3 :: nat]" by (simp add: upt_rec)
  show ?thesis using assms [of 0] assms [of 1] assms [of 2] assms [of 3] bytes_of_u32 [of w]
    unfolding vload32_def u by (simp add: or.assoc)
qed

section \<open>The stack page\<close>

lemma empty_walk:
  assumes "\<forall>i<256. frame_word r f i = 0" "upath p" "walk_frame r f p = Some g"
  shows "p = []" "g = f"
proof -
  have "p = [] \<and> g = f"
  proof (cases p)
    case (Cons i q)
    then have "i < 256" using assms(2) by (simp add: upath_def)
    then show ?thesis using assms(1,3) Cons by (simp add: Let_def)
  qed (use assms(3) in simp)
  then show "p = []" "g = f" by simp_all
qed

lemma empty_pt_wf:
  assumes "kernel_space f s" "\<forall>i<256. frame_word (ram s) f i = 0"
  shows "pt_wf s f"
  unfolding pt_wf_def
proof (intro conjI allI impI)
  note e = empty_walk [OF assms(2)]
  fix p g assume "upath p" "walk_frame (ram s) f p = Some g"
  from e [OF this] kernel_space_root [OF assms(1)] show "g < PAGE_ARRAY_SIZE" "page_ref s g \<noteq> 0" by simp_all
  fix q assume "upath q" "walk_frame (ram s) f q = Some g"
  from e(1) [OF this] e(1) [OF \<open>upath p\<close> \<open>walk_frame (ram s) f p = Some g\<close>] show "p = q" by simp
next
  fix p i g assume u: "upath (p @ [i])" "walk_frame (ram s) f p = Some g" "frame_word (ram s) g i \<noteq> 0"
  have "upath p" using upath_prefix [OF u(1)] .
  from empty_walk [OF assms(2) this u(2)] have "p = []" "g = f" .
  then have "i < 256" using u(1) by (simp add: upath_def)
  then show "present (frame_word (ram s) g i)" "unat (frame_word (ram s) g i) < 4503599627370496"
    using assms(2) u(3) \<open>g = f\<close> by simp_all
qed

text \<open>The first page of the stack is a new frame of zeros, and the direct map is as before, whatever is written to that frame.\<close>

lemma map_stack_page:
  fixes s :: "'a kernel_scheme"
  assumes sp: "new_space e f mm (n + 4) s" and v: "vma \<noteq> 0" "vma_heap s vma = Some v" "vm_file v = None"
  obtains g t pr b r where "map_a_page vma STACK_PAGE s = Inr t" "t = s\<lparr>page_ref := pr, bitmap := b, ram := r\<rparr>"
    "page_ref s g = 0" "small_frame g" "pt_wf t f" "walk_frame (ram t) f (path STACK_PAGE) = Some g" "n \<le> card (free_frames t)" "\<And>i. i < 512 \<Longrightarrow> frame_word (ram t) g i = 0"
    "\<And>r' i. same_outside g (ram t) r' \<Longrightarrow> i < 4096 \<Longrightarrow> walk r' (cr3 t) (STACK_PAGE + of_nat i) = Some (frame_pa g + of_nat i)"
    "\<And>r' pa. same_outside g (ram t) r' \<Longrightarrow> unat pa < 134217728 \<Longrightarrow> walk r' (cr3 t) (PA2VA pa) = Some pa"
    "\<And>x i. x < PAGE_ARRAY_SIZE \<Longrightarrow> page_ref s x \<noteq> 0 \<Longrightarrow> x \<noteq> f \<Longrightarrow> i < 512 \<Longrightarrow> frame_word (ram t) x i = frame_word (ram s) x i"
proof -
  obtain c m where c: "current s \<noteq> 0" "task_heap s (current s) = Some c" "t_mm c = mm" "mm \<noteq> 0"
    and m: "mm_heap s mm = Some m" "mm_pgd m = PA2VA (frame_pa f)"
    and k: "n + 4 \<le> card (free_frames s)" "cr3 s = frame_pa f" "\<forall>i<256. frame_word (ram s) f i = 0" "kernel_space f s"
    using sp unfolding new_space_def by blast
  have cm: "current_mm s = Inr m" using c m(1) by (simp add: current_mm_def)
  have wf: "pt_wf s f" by (rule empty_pt_wf [OF k(4,3)])
  have va: "unat (STACK_PAGE :: u64) < 140737488355328" by simp
  obtain t pr b r where t: "map_a_page vma STACK_PAGE s = Inr t" "demand_zero s t f STACK_PAGE" "t = s\<lparr>page_ref := pr, bitmap := b, ram := r\<rparr>"
    "n \<le> card (free_frames t)"
    using map_a_page_room [OF cm m(2) wf v va k(1)] by blast
  note up = upath_path [OF va]
  have none: "walk_frame (ram s) f (path STACK_PAGE) = None"
    using empty_walk(1) [OF k(3) up] by (cases "walk_frame (ram s) f (path STACK_PAGE)") (auto simp: path_def)
  obtain g where g: "walk_frame (ram t) f (path STACK_PAGE) = Some g" "page_ref s g = 0" "\<And>i. i < 512 \<Longrightarrow> frame_word (ram t) g i = 0"
    and wt: "pt_wf t f"
    and keep: "\<And>x i. x < PAGE_ARRAY_SIZE \<Longrightarrow> i < 512 \<Longrightarrow> page_ref s x \<noteq> 0 \<Longrightarrow> frame_word (ram s) x i \<noteq> 0 \<or> \<not> table s f x \<Longrightarrow>
      frame_word (ram t) x i = frame_word (ram s) x i"
    using t(2) none unfolding demand_zero_def by auto
  have gs: "small_frame g" using pt_wfD(1) [OF wt up g(1)] small_frame_of by simp
  have cr: "cr3 t = frame_pa f" using t(3) k(2) by simp
  have 1: "walk r' (cr3 t) (STACK_PAGE + of_nat i) = Some (frame_pa g + of_nat i)" if r': "same_outside g (ram t) r'" and i: "i < 4096" for r' i
  proof -
    have "walk_frame r' f (path STACK_PAGE) = Some g"
      using same_outside_walk [OF wt up _ g(1) r' up] g(1) by (simp add: path_def)
    moreover note same_page [OF va, of i]
    ultimately show ?thesis using walk_page [OF wt cr, of r' "STACK_PAGE + of_nat i" g] i by simp
  qed
  have 2: "walk r' (cr3 t) (PA2VA pa) = Some pa" if r': "same_outside g (ram t) r'" and pa: "unat pa < 134217728" for r' pa
  proof -
    have "frame_word r' x i = frame_word (ram s) x i"
      if x: "x < PAGE_ARRAY_SIZE" "page_ref s x \<noteq> 0" "i < 512" "frame_word (ram s) x i \<noteq> 0" for x i
      using same_outside_word [OF r' _ small_frame_of [OF x(1)] gs x(3)] keep [of x i] x g(2) by auto
    from kernel_walk_kept [OF k(4) pa this, of "path (PA2VA pa)" "[]"]
    have "walk_frame r' f (path (PA2VA pa)) = walk_frame (ram s) f (path (PA2VA pa))" by simp
    then show ?thesis using kernel_spaceD(2) [OF k(4) pa] kernel_space_root [OF k(4)] unfolding cr walk_def by (simp add: ent_frame_pa)
  qed
  have 3: "frame_word (ram t) x i = frame_word (ram s) x i" if "x < PAGE_ARRAY_SIZE" "page_ref s x \<noteq> 0" "x \<noteq> f" "i < 512" for x i
  proof (rule keep [OF that(1,4,2)])
    show "frame_word (ram s) x i \<noteq> 0 \<or> \<not> table s f x" using empty_walk(2) [OF k(3)] that(3) by (auto simp: table_def)
  qed
  from t(1,3) g(2) gs wt g(1) t(4) g(3) 1 2 3 show thesis by (rule that)
qed

section \<open>The arguments on the stack\<close>

lemma stack_places:
  assumes "fits xs ys"
  shows "apart_in_page (envp_off xs ys) (pv_off xs ys) ys (argv_off xs ys) (pa_off xs) xs"
    "apart_in_page (argv_off xs ys) (pa_off xs) xs (envp_off xs ys) (pv_off xs ys) ys"
proof -
  note off = layout_offsets [OF assms]
  have "text_size ys \<le> pa_off xs" "pa_off xs \<le> 4088" using off(1,2) by linarith+
  then show "apart_in_page (envp_off xs ys) (pv_off xs ys) ys (argv_off xs ys) (pa_off xs) xs"
    "apart_in_page (argv_off xs ys) (pa_off xs) xs (envp_off xs ys) (pv_off xs ys) ys"
    unfolding apart_in_page_def using off by auto
qed

context page_window
begin

lemma store_u32:
  assumes "ok s" "t + 4 \<le> 4096"
  shows "\<exists>u. vstore32 (base + of_nat t) w s = Inr u \<and> wrote {t..<t + 4} s u \<and> vload32 (base + of_nat t) u = Inr w"
proof -
  obtain u where u: "vstore32 (base + of_nat t) w s = Inr u" "wrote {t..<t + 4} s u"
    "\<And>i. i < 4 \<Longrightarrow> vload8 (base + of_nat t + of_nat i) u = Inr (ucast (drop_bit (8 * i) w))"
    using store_bytes [OF assms, of "\<lambda>i. ucast (drop_bit (8 * i) w)"] unfolding vstore32_def by blast
  from vload32_bytes [OF u(3)] show ?thesis using u(1,2) by blast
qed

text \<open>The whole picture: both lists, and in front of them the number of arguments.\<close>

lemma place_args:
  assumes ok: "ok s" "base \<noteq> 0" and src: "strlist_at S s p xs" "strlist_at S s q ys"
    and zero: "\<And>i. i < 4096 \<Longrightarrow> vload8 (base + of_nat i) s = Inr 0" and f: "fits xs ys"
  obtains u v t where "copy_strlist (base + of_nat (envp_off xs ys)) q (base + of_nat (pv_off xs ys)) s = Inr u"
    "copy_strlist (base + of_nat (argv_off xs ys)) p (base + of_nat (pa_off xs)) u = Inr v"
    "vstore32 (base + of_nat (argv_off xs ys - 8)) w v = Inr t" "\<exists>r. t = s\<lparr>ram := r\<rparr>" "ok t"
    "vload32 (base + of_nat (argv_off xs ys - 8)) t = Inr w"
    "strlist_at (page_from base 0) t (base + of_nat (argv_off xs ys)) xs"
    "strlist_at (page_from base 0) t (base + of_nat (envp_off xs ys)) ys"
proof -
  note off = layout_offsets [OF f]
  let ?lo = "argv_off xs ys"
  have lo: "?lo \<le> envp_off xs ys" "?lo \<le> pv_off xs ys" "?lo \<le> ?lo" "?lo \<le> pa_off xs" using off(2-4) by linarith+
  obtain u v where u: "copy_strlist (base + of_nat (envp_off xs ys)) q (base + of_nat (pv_off xs ys)) s = Inr u"
    "copy_strlist (base + of_nat ?lo) p (base + of_nat (pa_off xs)) u = Inr v"
    "strlist_at (page_from base ?lo) v (base + of_nat (envp_off xs ys)) ys" "strlist_at (page_from base ?lo) v (base + of_nat ?lo) xs"
    "ok v" "\<exists>r. v = s\<lparr>ram := r\<rparr>"
    by (rule copy_two_lists [OF ok src(2,1) zero stack_places [OF f] lo]) blast
  have e: "?lo - 8 + 4 \<le> 4096" using off(1) lo(4) by linarith
  obtain t where t: "vstore32 (base + of_nat (?lo - 8)) w v = Inr t" "wrote {?lo - 8..<?lo - 8 + 4} v t"
    "vload32 (base + of_nat (?lo - 8)) t = Inr w" using store_u32 [OF u(5) e] by blast
  have "vload8 (base + of_nat i) t = vload8 (base + of_nat i) v" if "?lo \<le> i" "i < 4096" for i
    by (rule wroteD [OF t(2) that(2)]) (use that(1) off(5) in auto)
  then have "agree (page_from base ?lo) v t" by (auto simp: agree_def page_from_def)
  then have "strlist_at (page_from base ?lo) t (base + of_nat ?lo) xs" "strlist_at (page_from base ?lo) t (base + of_nat (envp_off xs ys)) ys"
    using strlist_at_agree u(3,4) by blast+
  moreover have "page_from base ?lo \<subseteq> page_from base 0" by (auto simp: page_from_def)
  ultimately have "strlist_at (page_from base 0) t (base + of_nat ?lo) xs" "strlist_at (page_from base 0) t (base + of_nat (envp_off xs ys)) ys"
    by (blast intro: strlist_at_mono)+
  moreover have "\<exists>r. t = s\<lparr>ram := r\<rparr>" "ok t" using t(2) u(6) by (auto simp: wrote_def)
  ultimately show thesis using u(1,2) t(1,3) that by blast
qed

end

section \<open>build_stack\<close>

lemma frames_apart:
  assumes "small_frame x" "small_frame g" "x \<noteq> g" "k < 4096" "j < 4096"
  shows "frame_pa x + of_nat k \<noteq> frame_pa g + of_nat j"
proof
  assume e: "frame_pa x + of_nat k = frame_pa g + of_nat j"
  have "unat (frame_pa g + of_nat j - frame_pa g) < 4096" using assms(5) by (simp add: unat_of_nat64)
  then have "unat (frame_pa x + of_nat k - frame_pa g) < 4096" by (simp only: e)
  then show False using frame_byte_offset [OF assms(2,1,4)] assms(3) by simp
qed

text \<open>The addresses of frame \<open>x\<close> in the direct map.\<close>

lemma kernel_page:
  assumes "x < PAGE_ARRAY_SIZE" "c \<in> page_from (PA2VA (frame_pa x)) 0"
  obtains k where "k < 4096" "c = PA2VA (frame_pa x + of_nat k)" "unat (frame_pa x + of_nat k) < 134217728"
proof -
  obtain k where k: "k < 4096" "c = PA2VA (frame_pa x) + of_nat k" using assms(2) by (auto simp: page_from_def)
  have "unat (frame_pa x + of_nat k) = 4096 * x + k" using assms(1) k(1) small_frame_of [OF assms(1)]
    by (simp add: u64_unat unat_frame_pa small_frame_def)
  then show thesis using that [of k] k assms(1) by (simp add: PA2VA_def algebra_simps)
qed

lemma kernel_page_agree:
  assumes x: "x < PAGE_ARRAY_SIZE" "\<And>i. i < 512 \<Longrightarrow> frame_word (ram t) x i = frame_word (ram s) x i"
    and w: "\<And>pa. unat pa < 134217728 \<Longrightarrow> walk (ram s) (cr3 s) (PA2VA pa) = Some pa"
      "\<And>pa. unat pa < 134217728 \<Longrightarrow> walk (ram t) (cr3 t) (PA2VA pa) = Some pa"
  shows "agree (page_from (PA2VA (frame_pa x)) 0) s t"
  unfolding agree_def
proof
  fix c assume "c \<in> page_from (PA2VA (frame_pa x)) 0"
  then obtain k where k: "k < 4096" "c = PA2VA (frame_pa x + of_nat k)" "unat (frame_pa x + of_nat k) < 134217728"
    by (rule kernel_page [OF x(1)])
  show "vload8 c t = vload8 c s"
    using frame_byte [OF small_frame_of [OF x(1)] k(1) x(2)] w [OF k(3)] unfolding k(2) vload8_def by simp
qed

definition args_on_stack :: "string list \<Rightarrow> string list \<Rightarrow> 'a phymem_scheme \<Rightarrow> bool" where
  "args_on_stack xs ys s \<longleftrightarrow> vload32 (STACK_PAGE + of_nat (argv_off xs ys - 8)) s = Inr (of_nat (length xs)) \<and>
     strlist_at (page_from STACK_PAGE 0) s (STACK_PAGE + of_nat (argv_off xs ys)) xs \<and>
     strlist_at (page_from STACK_PAGE 0) s (STACK_PAGE + of_nat (envp_off xs ys)) ys"

lemma args_on_stack_agree:
  assumes "args_on_stack xs ys s" "agree (page_from STACK_PAGE 0) s t" "fits xs ys"
  shows "args_on_stack xs ys t"
proof -
  let ?p = "STACK_PAGE + of_nat (argv_off xs ys - 8) :: u64"
  have "vload8 (?p + of_nat i) t = vload8 (?p + of_nat i) s" if "i < 4" for i
    using layout_offsets [OF assms(3)] that by (intro agreeD [OF assms(2)] in_page_from) auto
  then have "vload32 ?p t = vload32 ?p s" unfolding vload32_def by (intro rfold_cong) auto
  then show ?thesis using assms(1) strlist_at_agree [OF _ assms(2)] unfolding args_on_stack_def by metis
qed

text \<open>The new page of the stack, ready for the arguments to be copied to it from frame \<open>x\<close>.\<close>

lemma stack_page_ready:
  fixes s :: "'a kernel_scheme"
  assumes sp: "new_space e f mm (n + 4) s" and v: "vma \<noteq> 0" "vma_heap s vma = Some v" "vm_file v = None"
    and x: "x < PAGE_ARRAY_SIZE" "page_ref s x \<noteq> 0" "x \<noteq> f"
  obtains g t pr b r where "map_a_page vma STACK_PAGE s = Inr t" "t = s\<lparr>page_ref := pr, bitmap := b, ram := r\<rparr>"
    "window_from (ram t) g STACK_PAGE (page_from (PA2VA (frame_pa x)) 0) t" "\<And>i. i < 4096 \<Longrightarrow> vload8 (STACK_PAGE + of_nat i) t = Inr 0"
    "pt_wf t f" "walk_frame (ram t) f (path STACK_PAGE) = Some g" "n \<le> card (free_frames t)"
    "agree (page_from (PA2VA (frame_pa x)) 0) s t"
proof -
  let ?K = "PA2VA (frame_pa x)"
  obtain g t pr b r where g: "map_a_page vma STACK_PAGE s = Inr t" "t = s\<lparr>page_ref := pr, bitmap := b, ram := r\<rparr>"
    "page_ref s g = 0" "small_frame g" "pt_wf t f" "walk_frame (ram t) f (path STACK_PAGE) = Some g" "n \<le> card (free_frames t)"
    "\<And>i. i < 512 \<Longrightarrow> frame_word (ram t) g i = 0"
    "\<And>r' i. same_outside g (ram t) r' \<Longrightarrow> i < 4096 \<Longrightarrow> walk r' (cr3 t) (STACK_PAGE + of_nat i) = Some (frame_pa g + of_nat i)"
    "\<And>r' pa. same_outside g (ram t) r' \<Longrightarrow> unat pa < 134217728 \<Longrightarrow> walk r' (cr3 t) (PA2VA pa) = Some pa"
    "\<And>x i. x < PAGE_ARRAY_SIZE \<Longrightarrow> page_ref s x \<noteq> 0 \<Longrightarrow> x \<noteq> f \<Longrightarrow> i < 512 \<Longrightarrow> frame_word (ram t) x i = frame_word (ram s) x i"
    by (rule map_stack_page [OF sp v]) blast
  have ks: "kernel_space f s" "cr3 s = frame_pa f" using sp by (simp_all add: new_space_def)
  have ag: "agree (page_from ?K 0) s t"
    by (rule kernel_page_agree [OF x(1)]) (use g(10,11) x kernel_spaceD(2) [OF ks(1)] ks(2) in simp_all)
  have xg: "x \<noteq> g" using x(2) g(3) by auto
  have win: "window g STACK_PAGE (page_from ?K 0) t" unfolding window_def
  proof (intro conjI allI impI ballI)
    fix r' assume r': "same_outside g (ram t) r'"
    show "walk r' (cr3 t) (STACK_PAGE + of_nat i) = Some (frame_pa g + of_nat i)" if "i < 4096" for i by (rule g(9) [OF r' that])
    fix c assume "c \<in> page_from ?K 0"
    then obtain k where k: "k < 4096" "c = PA2VA (frame_pa x + of_nat k)" "unat (frame_pa x + of_nat k) < 134217728"
      by (rule kernel_page [OF x(1)])
    then show "\<exists>pa. walk r' (cr3 t) c = Some pa \<and> walk (ram t) (cr3 t) c = Some pa \<and> (\<forall>k<4096. pa \<noteq> frame_pa g + of_nat k)"
      using g(10) [OF r' k(3)] g(10) [OF same_outside_refl k(3)] frames_apart [OF small_frame_of [OF x(1)] g(4) xg k(1)] by auto
  qed (use g(4) in simp_all)
  have "vload8 (STACK_PAGE + of_nat i) t = Inr 0" if i: "i < 4096" for i
  proof -
    have "load8 (ram t) (frame_pa g + of_nat i) = load8 (\<lambda>_. 0) (frame_pa g + of_nat i)"
      by (rule frame_byte [OF g(4) i]) (use g(8) in \<open>simp add: frame_word_def load64_def\<close>)
    then show ?thesis using g(9) [OF same_outside_refl i] by (simp add: vload8_def load8_zero)
  qed
  with g(1,2,5-7) ag win show thesis by (intro that) (simp_all add: window_from_def)
qed

lemma build_stack_runs:
  fixes s :: "'a kernel_scheme"
  assumes sp: "new_space e f mm (Suc (n + 4)) s" and x: "x < PAGE_ARRAY_SIZE" "page_ref s x \<noteq> 0" "x \<noteq> f"
    and src: "strlist_at (page_from (PA2VA (frame_pa x)) 0) s (PA2VA (frame_pa x)) xs"
      "strlist_at (page_from (PA2VA (frame_pa x)) 0) s (PA2VA (frame_pa x) + of_nat (8 * Suc (length xs) + 16)) ys"
    and f: "fits xs ys"
  obtains t c where "build_stack (args_layout (PA2VA (frame_pa x)) xs ys) mm s = Inr t" "args_on_stack xs ys t"
    "pt_wf t f" "cr3 t = frame_pa f" "n \<le> card (free_frames t)" "current t = current s" "\<exists>g. walk_frame (ram t) f (path STACK_PAGE) = Some g"
    "task_heap t (current s) = Some c" "t_mm c = mm" "user_stack c = STACK_PAGE + of_nat (argv_off xs ys - 8)" "\<exists>m. deref (mm_heap t) mm = Inr m \<and> mm_entry m = e"
proof -
  let ?K = "PA2VA (frame_pa x)"
  obtain vma v t1 t2 where a: "alloc_vma ''[exec] ERROR: vma alloc failed!'' s = Inr (vma, t1)" "vma \<noteq> 0"
    "rbind (upd_vma vma stack_area t1) (insert_vma vma mm) = Inr t2" "new_space e f mm (n + 4) t2" "keeps s t2"
    "vma_heap t2 vma = Some v" "vm_file v = None" "task_heap t2 = task_heap s" "current t2 = current s"
    by (rule add_area [OF sp, of stack_area "''[exec] ERROR: vma alloc failed!''"]) (simp_all add: stack_area_def zero_vma_def)
  have x2: "page_ref t2 x \<noteq> 0" "\<And>i. i < 512 \<Longrightarrow> frame_word (ram t2) x i = frame_word (ram s) x i" using keepsD [OF a(5) x(1,2)] x(2) by simp_all
  have ks: "kernel_space f s" "cr3 s = frame_pa f" "kernel_space f t2" "cr3 t2 = frame_pa f" using sp a(4) by (simp_all add: new_space_def)
  have ag2: "agree (page_from ?K 0) s t2"
    by (rule kernel_page_agree [OF x(1) x2(2)]) (use kernel_spaceD(2) ks in simp_all)
  obtain g t pr b r where g: "map_a_page vma STACK_PAGE t2 = Inr t" "t = t2\<lparr>page_ref := pr, bitmap := b, ram := r\<rparr>"
    "window_from (ram t) g STACK_PAGE (page_from ?K 0) t" "\<And>i. i < 4096 \<Longrightarrow> vload8 (STACK_PAGE + of_nat i) t = Inr 0"
    "pt_wf t f" "walk_frame (ram t) f (path STACK_PAGE) = Some g" "n \<le> card (free_frames t)" "agree (page_from ?K 0) t2 t"
    by (rule stack_page_ready [OF a(4,2,6,7) x(1) x2(1) x(3)]) blast
  note ag = agree_trans [OF ag2 g(8)]
  have nz: "STACK_PAGE \<noteq> (0 :: u64)" by simp
  obtain u1 u2 u r' where u: "copy_strlist (STACK_PAGE + of_nat (envp_off xs ys)) (?K + of_nat (8 * Suc (length xs) + 16)) (STACK_PAGE + of_nat (pv_off xs ys)) t = Inr u1"
    "copy_strlist (STACK_PAGE + of_nat (argv_off xs ys)) ?K (STACK_PAGE + of_nat (pa_off xs)) u1 = Inr u2"
    "vstore32 (STACK_PAGE + of_nat (argv_off xs ys - 8)) (of_nat (length xs)) u2 = Inr u" "u = t\<lparr>ram := r'\<rparr>"
    "window_from (ram t) g STACK_PAGE (page_from ?K 0) u" "args_on_stack xs ys u"
    by (rule page.place_args [OF g(3) nz strlist_at_agree [OF src(1) ag] strlist_at_agree [OF src(2) ag] g(4) f, of "of_nat (length xs)"])
       (auto simp: args_on_stack_def)
  obtain c m where c: "task_heap s (current s) = Some c" "t_mm c = mm" "current s \<noteq> 0" "mm \<noteq> 0" "mm_heap t2 mm = Some m" "mm_entry m = e"
    using sp a(4) unfolding new_space_def by blast
  let ?c = "c\<lparr>user_stack := STACK_PAGE + of_nat (argv_off xs ys - 8)\<rparr>"
  let ?w = "u\<lparr>task_heap := (task_heap u)(current u \<mapsto> ?c)\<rparr>"
  have hu: "task_heap u = task_heap s" "current u = current s" "mm_heap u = mm_heap t2" "cr3 u = frame_pa f" "page_ref u = page_ref t"
    using a(8,9) g(2) u(4) ks(4) by simp_all
  have so: "same_outside g (ram t) r'" using u(4,5) by (simp add: window_from_def)
  have up: "upath (path STACK_PAGE)" by (rule upath_path) simp
  have "pt_wf (t\<lparr>ram := r'\<rparr>) f" by (rule same_outside_wf [OF g(5) up _ g(6) so]) (simp add: path_def)
  then have "pt_wf ?w f" using pt_wf_cong [of ?w "t\<lparr>ram := r'\<rparr>"] u(4) by simp
  moreover have "walk_frame (ram ?w) f (path STACK_PAGE) = Some g"
    using same_outside_walk [OF g(5) up _ g(6) so up] g(6) u(4) by (simp add: path_def)
  moreover have "args_on_stack xs ys ?w" by (rule args_on_stack_agree [OF u(6) _ f]) (auto simp: agree_def intro!: vload8_cong)
  moreover have "n \<le> card (free_frames ?w)" using g(7) u(4) by (simp add: free_frames_def)
  moreover have "STACK_PAGE + of_nat (argv_off xs ys) - 8 = STACK_PAGE + of_nat (argv_off xs ys - 8)"
    using page_diff [of 8 "argv_off xs ys" STACK_PAGE] layout_offsets(5) [OF f] by simp
  then have "build_stack (args_layout ?K xs ys) mm s = Inr ?w"
    using a(1,3) g(1) u(1-3) c hu unfolding build_stack_def args_layout_def by (auto simp: rbind_eq_Inr upd_task_def)
  ultimately show thesis using that [of ?w ?c] c hu by auto
qed

end
