(* ===== verification/ProgramArgs.thy ===== *)
theory ProgramArgs
  imports ProgramStart
begin

text \<open>
  From \<open>exec\<close> to \<open>main\<close>: \<open>exec_image\<close> (src/sys/process.c) as a whole, and the arguments \<open>_start\<close> (src/crt/crt1.c) passes to \<open>main\<close>.
\<close>

section \<open>The kernel page with the copies\<close>

text \<open>The addresses of the running process that are not in frame \<open>kb\<close>.\<close>

definition readable :: "nat \<Rightarrow> 'a phymem_scheme \<Rightarrow> u64 set" where
  "readable kb s = {c. \<exists>pa. walk (ram s) (cr3 s) c = Some pa \<and> (\<forall>k<4096. pa \<noteq> frame_pa kb + of_nat k)}"

text \<open>A frame of zeros is not a table any translation goes through, so it can be written.\<close>

lemma zero_frame_walk:
  assumes z: "\<And>i. i < 512 \<Longrightarrow> frame_word (ram s) kb i = 0" and sm: "small_frame kb" "small_frame f"
    and so: "same_outside kb (ram s) r" and w: "walk_frame (ram s) f p = Some x" "\<And>i. i \<in> set p \<Longrightarrow> i < 512"
  shows "walk_frame r f p = Some x"
proof -
  have "walk_frame r f p = walk_frame (ram s) f p"
  proof (rule walk_frame_cong)
    fix a i b y assume p: "p = a @ i # b" "walk_frame (ram s) f a = Some y"
    have i: "i < 512" using w(2) p(1) by simp
    have "present (frame_word (ram s) y i)"
      using w(1) p(2) unfolding p(1) walk_frame_append by (auto simp: Let_def split: if_splits)
    then have "y \<noteq> kb" using z [OF i] by auto
    then show "frame_word r y i = frame_word (ram s) y i"
      by (rule same_outside_word [OF so _ walk_frame_small [OF p(2) sm(2)] sm(1) i])
  qed
  then show ?thesis using w(1) by simp
qed

lemma zero_frame_translation:
  assumes "\<And>i. i < 512 \<Longrightarrow> frame_word (ram s) kb i = 0" "small_frame kb" "same_outside kb (ram s) r"
    and "walk (ram s) (frame_pa C) va = Some pa" "C < PAGE_ARRAY_SIZE"
  shows "walk r (frame_pa C) va = Some pa"
proof -
  obtain x where x: "walk_frame (ram s) C (path va) = Some x" "pa = frame_pa x + of_nat (unat va mod 4096)"
    using assms(4,5) by (auto simp: walk_def ent_frame_pa)
  have "walk_frame r C (path va) = Some x"
    by (rule zero_frame_walk [OF assms(1,2) small_frame_of [OF assms(5)] assms(3) x(1)]) (auto dest: path_less)
  then show ?thesis using assms(5) x(2) by (simp add: walk_def ent_frame_pa)
qed

lemma zero_frame_window:
  assumes kb: "kb < PAGE_ARRAY_SIZE" "\<And>i. i < 512 \<Longrightarrow> frame_word (ram s) kb i = 0"
    and C: "kernel_space C s" "cr3 s = frame_pa C"
  shows "window kb (PA2VA (frame_pa kb)) (readable kb s) s"
proof -
  note sm = small_frame_of [OF kb(1)] and Cs = kernel_space_root [OF C(1)]
  have u: "unat (frame_pa kb + of_nat i) = 4096 * kb + i" if "i < 4096" for i
    using that sm by (simp add: u64_unat unat_frame_pa small_frame_def)
  have "unat (frame_pa kb) mod 4096 = 0" using sm by (simp add: unat_frame_pa)
  then have al: "unat (PA2VA (frame_pa kb)) mod 4096 = 0"
    using path_PA2VA(2) [of "frame_pa kb"] u [of 0] kb(1) by simp
  show ?thesis unfolding window_def
  proof (intro conjI allI impI ballI al sm)
    fix r assume r: "same_outside kb (ram s) r"
    note tr = zero_frame_translation [OF kb(2) sm r _ conjunct1 [OF Cs]]
    show "walk r (cr3 s) (PA2VA (frame_pa kb) + of_nat i) = Some (frame_pa kb + of_nat i)" if i: "i < 4096" for i
    proof -
      have "PA2VA (frame_pa kb) + of_nat i = PA2VA (frame_pa kb + of_nat i)" by (simp add: PA2VA_def algebra_simps)
      moreover have "unat (frame_pa kb + of_nat i) < 134217728" using u [OF i] i kb(1) by simp
      ultimately show ?thesis using tr kernel_spaceD(2) [OF C(1)] C(2) by simp
    qed
    fix c assume "c \<in> readable kb s"
    then obtain pa where "walk (ram s) (cr3 s) c = Some pa" "\<forall>k<4096. pa \<noteq> frame_pa kb + of_nat k" by (auto simp: readable_def)
    then show "\<exists>pa. walk r (cr3 s) c = Some pa \<and> walk (ram s) (cr3 s) c = Some pa \<and> (\<forall>k<4096. pa \<noteq> frame_pa kb + of_nat k)"
      using tr C(2) by auto
  qed
qed

lemma zero_frame_kernel_space:
  assumes kb: "kb < PAGE_ARRAY_SIZE" "\<And>i. i < 512 \<Longrightarrow> frame_word (ram s) kb i = 0"
    and K: "kernel_space K s" and t: "same_outside kb (ram s) (ram t)" "page_ref t = page_ref s"
  shows "kernel_space K t"
proof (rule kernel_space_kept [OF K])
  fix x i assume x: "x < PAGE_ARRAY_SIZE" "i < 512" "frame_word (ram s) x i \<noteq> 0"
  then have "x \<noteq> kb" using kb(2) by auto
  then show "frame_word (ram t) x i = frame_word (ram s) x i"
    by (rule same_outside_word [OF t(1) _ small_frame_of [OF x(1)] small_frame_of [OF kb(1)] x(2)])
qed (use t(2) in simp)

lemma kernel_space_not_zero:
  assumes "kernel_space K s" "\<And>i. i < 512 \<Longrightarrow> frame_word (ram s) kb i = 0"
  shows "K \<noteq> kb"
proof
  assume "K = kb"
  then have "frame_word (ram s) K 511 = 0" using assms(2) by simp
  moreover have "walk (ram s) (frame_pa K) (PA2VA 0) = Some 0" by (rule kernel_spaceD(2) [OF assms(1)]) simp
  then have "walk_frame (ram s) K (path (PA2VA 0)) \<noteq> None"
    using kernel_space_root [OF assms(1)] by (auto simp: walk_def ent_frame_pa)
  moreover have "path (PA2VA 0) = [511, 510, 0, 0]" using path_PA2VA(1) [of 0] by simp
  ultimately show False by simp
qed

section \<open>Single steps\<close>

lemma set_process_name_runs:
  fixes s :: "'a kernel_scheme"
  assumes l: "strlist_at S s argv xs" "\<forall>x \<in> set xs. length x < STRING_FUEL" and c: "current s \<noteq> 0" "task_heap s (current s) = Some c"
    and n: "xs = [] \<or> length (hd xs) < length (t_name c)"
  shows "\<exists>c'. set_process_name argv s = Inr (s\<lparr>task_heap := (task_heap s)(current s \<mapsto> c')\<rparr>)"
proof (cases xs)
  case Nil
  then have "vload64 argv s = Inr 0" using l(1) by (simp add: word_at_def)
  moreover have "s\<lparr>task_heap := (task_heap s)(current s \<mapsto> c)\<rparr> = s" using c(2) by (simp add: fun_upd_idem)
  ultimately show ?thesis by (intro exI [of _ c]) (simp add: set_process_name_def)
next
  case (Cons x zs)
  then obtain q where q: "q \<noteq> 0" "vload64 argv s = Inr q" "string_at S s q x" using l(1) by (auto simp: word_at_def)
  have b: "vstring STRING_FUEL q s = Inr (x @ [NUL])" by (rule vstring_at [OF q(3)]) (use l(2) Cons in simp)
  have x: "cstr (x @ [NUL]) = x" using q(3) by (simp add: string_at_def cstr_append_NUL)
  have "copy_field (t_name c) (x @ [NUL]) (length x) = Inr (x @ NUL # drop (Suc (length x)) (t_name c))"
    using copy_field_eq [of "x @ [NUL]" "length x" "t_name c"] n Cons unfolding x by simp
  then show ?thesis using q(1,2) b c by (auto simp: set_process_name_def upd_task_def)
qed

text \<open>Allocation leaves the pages of a user address space as they are.\<close>

lemma keeps_user_page:
  assumes wf: "pt_wf s f" "cr3 s = frame_pa f" and w: "walk_frame (ram s) f (path STACK_PAGE) = Some g"
    and t: "keeps s t" "cr3 t = cr3 s"
  shows "agree (page_from STACK_PAGE 0) s t"
  unfolding agree_def
proof
  have va: "unat (STACK_PAGE :: u64) < 140737488355328" by simp
  note up = upath_path [OF va]
  have "walk_frame (ram t) f (path STACK_PAGE) = walk_frame (ram s) f (path STACK_PAGE)"
  proof (rule walk_frame_cong)
    fix a i b x assume x: "path STACK_PAGE = a @ i # b" "walk_frame (ram s) f a = Some x"
    have "upath a" "i < 512" using up upath_prefix [of a "i # b"] path_less [of i STACK_PAGE] unfolding x(1) by simp_all
    then show "frame_word (ram t) x i = frame_word (ram s) x i" using keepsD(2) [OF t(1)] pt_wfD(1,2) [OF wf(1) _ x(2)] by simp
  qed
  then have w': "walk_frame (ram t) f (path STACK_PAGE) = Some g" using w by simp
  have g: "g < PAGE_ARRAY_SIZE" "page_ref s g \<noteq> 0" using pt_wfD(1,2) [OF wf(1) up w] by simp_all
  fix c :: u64 assume "c \<in> page_from STACK_PAGE 0"
  then obtain k where k: "k < 4096" "c = STACK_PAGE + of_nat k" by (auto simp: page_from_def)
  have "path c = path STACK_PAGE" "unat c mod 4096 = k" using same_page [OF va, of k] k by simp_all
  then have "walk (ram t) (cr3 t) c = Some (frame_pa g + of_nat k)" "walk (ram s) (cr3 s) c = Some (frame_pa g + of_nat k)"
    using walk_page [OF wf, of _ c g] w w' t(2) by simp_all
  moreover have "load8 (ram t) (frame_pa g + of_nat k) = load8 (ram s) (frame_pa g + of_nat k)"
    by (rule frame_byte [OF small_frame_of [OF g(1)] k(1) keepsD(2) [OF t(1) g]])
  ultimately show "vload8 c t = vload8 c s" by (simp add: vload8_def)
qed

lemma enter_user_runs:
  fixes s :: "'a kernel_scheme"
  assumes f: "0 < card (free_frames s)" and c: "current s \<noteq> 0" "task_heap s (current s) = Some c" and m: "deref (mm_heap s) (t_mm c) = Inr m"
    and wf: "pt_wf s f" "cr3 s = frame_pa f" "walk_frame (ram s) f (path STACK_PAGE) = Some g"
  obtains t where "enter_user s = Inr (Result (user_stack c, mm_entry m) t)" "agree (page_from STACK_PAGE 0) s t"
proof -
  obtain p w where p: "PA2VA (frame_pa p) \<noteq> 0"
    "get_zero_page s = Inr (PA2VA (frame_pa p), s\<lparr>page_ref := (page_ref s)(p := 1), bitmap := w, ram := memset (frame_pa p) 0 4096 (ram s)\<rparr>)"
    "keeps s (s\<lparr>page_ref := (page_ref s)(p := 1), bitmap := w, ram := memset (frame_pa p) 0 4096 (ram s)\<rparr>)"
    by (rule zero_page_taken [OF f]) blast
  let ?t = "s\<lparr>page_ref := (page_ref s)(p := 1), bitmap := w, ram := memset (frame_pa p) 0 4096 (ram s), rsp0 := PA2VA (frame_pa p) + 4096,
    task_heap := (task_heap s)(current s \<mapsto> c\<lparr>kernel_stack := PA2VA (frame_pa p) + 4096\<rparr>)\<rparr>"
  have "enter_user s = Inr (Result (user_stack c, mm_entry m) ?t)"
    using p(1,2) c m by (simp add: enter_user_def upd_task_def current_mm_def Let_def)
  moreover have "keeps s ?t" using p(3) by (simp add: keeps_def)
  then have "agree (page_from STACK_PAGE 0) s ?t" by (rule keeps_user_page [OF wf]) simp
  ultimately show thesis by (rule that)
qed

section \<open>exec_image\<close>

text \<open>The steps up to the new address space: the copies are in the kernel page, and only the task has changed besides.\<close>

lemma exec_saves_args:
  fixes s :: "'a kernel_scheme"
  assumes task: "current s \<noteq> 0" "task_heap s (current s) = Some c"
    and caller: "kernel_space C s" "cr3 s = frame_pa C"
    and page: "kb < PAGE_ARRAY_SIZE" "\<And>i. i < 512 \<Longrightarrow> frame_word (ram s) kb i = 0"
    and lists: "strlist_at (readable kb s) s argv xs" "strlist_at (readable kb s) s envp ys" "fits xs ys"
      "xs = [] \<or> length (hd xs) < length (t_name c)"
  defines "kbuf \<equiv> PA2VA (frame_pa kb)"
  obtains s1 s2 s3 c' r where "upd_task (current s) (\<lambda>t. t\<lparr>user_stack := USER_TOP\<rparr>) s = Inr s1"
    "save_args kbuf argv envp s1 = Inr (args_layout kbuf xs ys, s2)" "upd_task (current s2) (\<lambda>t. t\<lparr>t_mm := 0\<rparr>) s2 = Inr s3"
    "set_process_name argv s3 = Inr (s\<lparr>ram := r, task_heap := (task_heap s)(current s \<mapsto> c')\<rparr>)" "same_outside kb (ram s) r"
    "strlist_at (page_from kbuf 0) (s\<lparr>ram := r, task_heap := (task_heap s)(current s \<mapsto> c')\<rparr>) kbuf xs"
    "strlist_at (page_from kbuf 0) (s\<lparr>ram := r, task_heap := (task_heap s)(current s \<mapsto> c')\<rparr>) (kbuf + of_nat (8 * Suc (length xs) + 16)) ys"
proof -
  let ?c = "c\<lparr>user_stack := USER_TOP\<rparr>"
  let ?s1 = "s\<lparr>task_heap := (task_heap s)(current s \<mapsto> ?c)\<rparr>"
  have rd: "readable kb ?s1 = readable kb s" by (simp add: readable_def)
  have same: "agree S (v\<lparr>ram := r\<rparr>) (v\<lparr>ram := r, task_heap := h\<rparr>)" for S r h and v :: "'a kernel_scheme"
    by (auto simp: agree_def intro!: vload8_cong)
  have win: "window kb kbuf (readable kb s) ?s1" unfolding kbuf_def
    using zero_frame_window [OF page(1), of ?s1] page(2) caller unfolding rd by (simp add: kernel_space_def)
  have nz: "kbuf \<noteq> 0" unfolding kbuf_def
    using unat_PA2VA [of "frame_pa kb"] small_frame_of [OF page(1)] page(1) by (auto simp: unat_frame_pa)
  have l1: "strlist_at (readable kb s) ?s1 argv xs" "strlist_at (readable kb s) ?s1 envp ys"
    using strlist_at_agree [OF _ same [of _ "ram s" s]] lists(1,2) by simp_all
  have zero: "vload8 (kbuf + of_nat i) ?s1 = Inr 0" if i: "i < 4096" for i
  proof -
    have "load8 (ram s) (frame_pa kb + of_nat i) = load8 (\<lambda>_. 0) (frame_pa kb + of_nat i)"
      by (rule frame_byte [OF small_frame_of [OF page(1)] i]) (use page(2) in \<open>simp add: frame_word_def load64_def\<close>)
    then show ?thesis using windowD(3) [OF win same_outside_refl i] by (simp add: vload8_def load8_zero)
  qed
  obtain r where r: "save_args kbuf argv envp ?s1 = Inr (args_layout kbuf xs ys, ?s1\<lparr>ram := r\<rparr>)" "same_outside kb (ram ?s1) r"
    "strlist_at (page_from kbuf 0) (?s1\<lparr>ram := r\<rparr>) kbuf xs"
    "strlist_at (page_from kbuf 0) (?s1\<lparr>ram := r\<rparr>) (kbuf + of_nat (8 * Suc (length xs) + 16)) ys"
    by (rule save_args_saves [OF win nz l1 zero lists(3)]) blast
  let ?s2 = "?s1\<lparr>ram := r\<rparr>"
  let ?s3 = "?s2\<lparr>task_heap := (task_heap s)(current s \<mapsto> ?c\<lparr>t_mm := 0\<rparr>)\<rparr>"
  have l3: "strlist_at (readable kb s) ?s3 argv xs"
    by (rule strlist_at_agree [OF l1(1) agree_trans [OF window_write(2) [OF win r(2)] same]])
  have len: "\<forall>x\<in>set xs. length x < STRING_FUEL"
    using length_text_size [of _ xs] lists(3) by (fastforce simp: fits_def)
  obtain c' where c': "set_process_name argv ?s3 = Inr (?s3\<lparr>task_heap := (task_heap ?s3)(current ?s3 \<mapsto> c')\<rparr>)"
    using set_process_name_runs [OF l3 len, of "?c\<lparr>t_mm := 0\<rparr>"] task(1) lists(4) by auto
  let ?s4 = "s\<lparr>ram := r, task_heap := (task_heap s)(current s \<mapsto> c')\<rparr>"
  have s4: "?s3\<lparr>task_heap := (task_heap ?s3)(current ?s3 \<mapsto> c')\<rparr> = ?s4" by simp
  have "agree (page_from kbuf 0) ?s2 ?s4" using same [of _ r ?s1 "(task_heap s)(current s \<mapsto> c')"] by simp
  then have "strlist_at (page_from kbuf 0) ?s4 kbuf xs" "strlist_at (page_from kbuf 0) ?s4 (kbuf + of_nat (8 * Suc (length xs) + 16)) ys"
    using strlist_at_agree r(3,4) by blast+
  then show thesis using that [of ?s1 ?s2 ?s3 c' r] task r(1,2) c' unfolding s4 by (simp add: upd_task_def)
qed

text \<open>The start code finds what \<open>exec\<close> has put on the stack.\<close>

lemma crt_finds_args:
  assumes "args_on_stack xs ys t" "fits xs ys"
  shows "crt_args (STACK_PAGE + of_nat (argv_off xs ys - 8) - 24) t =
    Inr (of_nat (length xs), STACK_PAGE + of_nat (argv_off xs ys), STACK_PAGE + of_nat (envp_off xs ys))"
proof -
  note off = layout_offsets [OF assms(2)]
  have n: "length xs < 4096" using assms(2) by (simp add: fits_def)
  have "(of_nat (length xs) + 1) * 8 = (of_nat (8 * Suc (length xs)) :: u32)" by simp
  then have sg: "signed ((of_nat (length xs) + 1) * 8 :: u32) = (of_nat (8 * Suc (length xs)) :: u64)"
    using signed_of_nat [of "8 * Suc (length xs)"] n by (simp only:) simp
  have a: "STACK_PAGE + of_nat (argv_off xs ys - 8) + 8 = (STACK_PAGE + of_nat (argv_off xs ys) :: u64)"
    using off(5) by (simp add: of_nat_diff)
  have e: "STACK_PAGE + of_nat (argv_off xs ys) + of_nat (8 * Suc (length xs)) = (STACK_PAGE + of_nat (envp_off xs ys) :: u64)"
    unfolding off(4) [symmetric] by simp
  have "vload32 (STACK_PAGE + of_nat (argv_off xs ys - 8)) t = Inr (of_nat (length xs))" using assms(1) by (simp add: args_on_stack_def)
  moreover have "STACK_PAGE + of_nat (argv_off xs ys - 8) - 24 + 3 * 8 = (STACK_PAGE + of_nat (argv_off xs ys - 8) :: u64)" by simp
  ultimately show ?thesis unfolding crt_args_def Let_def by (simp only: rbind_Inr a sg e)
qed

text \<open>The steps from there on, with the lists in the kernel page.\<close>

lemma new_program_runs:
  fixes s :: "'a kernel_scheme"
  assumes c: "current s \<noteq> 0" "task_heap s (current s) = Some c" and C: "kernel_space C s" "cr3 s = frame_pa C"
    and K: "pgd_start s = PA2VA (frame_pa K)" "kernel_space K s" "\<forall>i<256. frame_word (ram s) K i = 0"
    and kb: "kb < PAGE_ARRAY_SIZE" "page_ref s kb \<noteq> 0"
    and h: "held kb fp 64 s" "unat (load_le 2 (ram s) (fp + 56)) + 8 \<le> card (free_frames s)"
    and src: "strlist_at (page_from (PA2VA (frame_pa kb)) 0) s (PA2VA (frame_pa kb)) xs"
      "strlist_at (page_from (PA2VA (frame_pa kb)) 0) s (PA2VA (frame_pa kb) + of_nat (8 * Suc (length xs) + 16)) ys" "fits xs ys"
  obtains mm t u v y where "new_address_space fp s = Inr (mm, t)" "load_program fp fd mm t = Inr u"
    "build_stack (args_layout (PA2VA (frame_pa kb)) xs ys) mm u = Inr v"
    "enter_user v = Inr (Result (STACK_PAGE + of_nat (argv_off xs ys - 8), load_le 8 (ram s) (fp + 24)) y)" "args_on_stack xs ys y"
proof -
  let ?kbuf = "PA2VA (frame_pa kb)" and ?e = "load_le 8 (ram s) (fp + 24)" and ?n = "unat (load_le 2 (ram s) (fp + 56))"
  have n: "?n + Suc (1 + 4) + 2 \<le> card (free_frames s)" using h(2) by simp
  obtain mm f t where t: "new_address_space fp s = Inr (mm, t)" "new_space ?e f mm (?n + Suc (1 + 4)) t" "keeps s t"
    "page_ref s f = 0" "current t = current s" by (rule new_address_space_runs [OF c K n h(1)])
  have "load_le 2 (ram t) (fp + 56) = load_le 2 (ram s) (fp + 56)" using load_le_keeps [OF h(1) _ t(3), of 2 56] by simp
  with load_program_runs [of ?e f mm t fp "Suc (1 + 4)" fd] t(2) obtain u where
    u: "load_program fp fd mm t = Inr u" "new_space ?e f mm (Suc (1 + 4)) u" "keeps t u" "current u = current t" by auto
  have ku: "keeps s u" by (rule keeps_trans [OF t(3) u(3)])
  have ag: "agree (page_from ?kbuf 0) s u"
    by (rule kernel_page_agree [OF kb(1)]) (use u(2) keepsD(2) [OF ku kb] kernel_spaceD(2) [OF C(1)] kernel_spaceD(2) [of f u] C(2)
      in \<open>simp_all add: new_space_def\<close>)
  have pu: "page_ref u kb \<noteq> 0" "kb \<noteq> f" using keepsD(1) [OF ku kb] kb(2) t(4) by auto
  obtain v c2 where v: "build_stack (args_layout ?kbuf xs ys) mm u = Inr v" "args_on_stack xs ys v" "pt_wf v f" "cr3 v = frame_pa f"
    "1 \<le> card (free_frames v)" "current v = current u" "\<exists>g. walk_frame (ram v) f (path STACK_PAGE) = Some g"
    "task_heap v (current u) = Some c2" "t_mm c2 = mm" "user_stack c2 = STACK_PAGE + of_nat (argv_off xs ys - 8)"
    "\<exists>m. deref (mm_heap v) mm = Inr m \<and> mm_entry m = ?e"
    by (rule build_stack_runs [OF u(2) kb(1) pu strlist_at_agree [OF src(1) ag] strlist_at_agree [OF src(2) ag] src(3)]) blast
  obtain g m where g: "walk_frame (ram v) f (path STACK_PAGE) = Some g" "deref (mm_heap v) (t_mm c2) = Inr m" "mm_entry m = ?e" using v(7,9,11) by auto
  have cv: "0 < card (free_frames v)" "current v \<noteq> 0" "task_heap v (current v) = Some c2" using v(5,6,8) u(4) t(5) c(1) by simp_all
  obtain y where y: "enter_user v = Inr (Result (user_stack c2, mm_entry m) y)" "agree (page_from STACK_PAGE 0) v y"
    by (rule enter_user_runs [OF cv g(2) v(3,4) g(1)])
  have "args_on_stack xs ys y" by (rule args_on_stack_agree [OF v(2) y(2) src(3)])
  with t(1) u(1) v(1) y(1) show thesis unfolding v(10) g(3) by (rule that)
qed

text \<open>
  C7. A program gets its arguments. Let the caller's lists \<open>argv\<close> and \<open>envp\<close> hold the strings \<open>xs\<close> and \<open>ys\<close>, small enough for a
  page, and let the file's header be in memory in use and a frame be free for each program header and eight more. Then \<open>exec\<close>
  runs to its end and starts the program at the entry point of its header with a stack from which \<open>_start\<close> gives \<open>main\<close> the
  number of arguments and two lists, in the new address space, with the same strings.
\<close>

theorem program_arguments:
  fixes s :: "'a kernel_scheme"
  assumes task: "current s \<noteq> 0" "task_heap s (current s) = Some c"
    and caller: "kernel_space C s" "cr3 s = frame_pa C"
    and kernel: "pgd_start s = PA2VA (frame_pa K)" "kernel_space K s" "\<forall>i<256. frame_word (ram s) K i = 0"
    and page: "kb < PAGE_ARRAY_SIZE" "page_ref s kb \<noteq> 0" "\<forall>i<512. frame_word (ram s) kb i = 0"
    and lists: "strlist_at (readable kb s) s argv xs" "strlist_at (readable kb s) s envp ys" "fits xs ys"
      "xs = [] \<or> length (hd xs) < length (t_name c)"
    and header: "held kb fp 64 s" "unat (load_le 2 (ram s) (fp + 56)) + 8 \<le> card (free_frames s)"
  shows "\<exists>sp t argvp envpp. exec_image fd fp (PA2VA (frame_pa kb)) argv envp s = Inr (Result (sp, load_le 8 (ram s) (fp + 24)) t) \<and>
    crt_args (sp - 24) t = Inr (of_nat (length xs), argvp, envpp) \<and> strlist_at UNIV t argvp xs \<and> strlist_at UNIV t envpp ys"
proof -
  let ?kbuf = "PA2VA (frame_pa kb)" and ?e = "load_le 8 (ram s) (fp + 24)"
  have z: "\<And>i. i < 512 \<Longrightarrow> frame_word (ram s) kb i = 0" using page(3) by simp
  obtain s1 s2 s3 c' r where a: "upd_task (current s) (\<lambda>t. t\<lparr>user_stack := USER_TOP\<rparr>) s = Inr s1"
    "save_args ?kbuf argv envp s1 = Inr (args_layout ?kbuf xs ys, s2)" "upd_task (current s2) (\<lambda>t. t\<lparr>t_mm := 0\<rparr>) s2 = Inr s3"
    "set_process_name argv s3 = Inr (s\<lparr>ram := r, task_heap := (task_heap s)(current s \<mapsto> c')\<rparr>)" "same_outside kb (ram s) r"
    "strlist_at (page_from ?kbuf 0) (s\<lparr>ram := r, task_heap := (task_heap s)(current s \<mapsto> c')\<rparr>) ?kbuf xs"
    "strlist_at (page_from ?kbuf 0) (s\<lparr>ram := r, task_heap := (task_heap s)(current s \<mapsto> c')\<rparr>) (?kbuf + of_nat (8 * Suc (length xs) + 16)) ys"
    by (rule exec_saves_args [OF task caller page(1) z lists]) blast
  define s4 where "s4 = s\<lparr>ram := r, task_heap := (task_heap s)(current s \<mapsto> c')\<rparr>"
  note a4 = a(4,6,7) [folded s4_def]
  have w: "frame_word r x i = frame_word (ram s) x i" if "x < PAGE_ARRAY_SIZE" "x \<noteq> kb" "i < 512" for x i
    by (rule same_outside_word [OF a(5) that(2) small_frame_of [OF that(1)] small_frame_of [OF page(1)] that(3)])
  have ks: "kernel_space C s4" "kernel_space K s4"
    using zero_frame_kernel_space [OF page(1) z _ , of _ s4] caller(1) kernel(2) a(5) by (simp_all add: s4_def)
  have K4: "pgd_start s4 = PA2VA (frame_pa K)" "\<forall>i<256. frame_word (ram s4) K i = 0"
    using kernel w [of K] kernel_space_root [OF kernel(2)] kernel_space_not_zero [OF kernel(2) z] by (simp_all add: s4_def)
  have h4: "held kb fp 64 s4" using header(1) by (simp add: held_def s4_def)
  have e4: "load_le 8 (ram s4) (fp + 24) = ?e" "load_le 2 (ram s4) (fp + 56) = load_le 2 (ram s) (fp + 56)"
    using load_le_held [OF header(1), of 8 24 r] load_le_held [OF header(1), of 2 56 r] w by (simp_all add: s4_def)
  have f4: "unat (load_le 2 (ram s4) (fp + 56)) + 8 \<le> card (free_frames s4)"
    unfolding e4(2) using header(2) by (simp add: s4_def free_frames_def)
  have c4: "current s4 \<noteq> 0" "task_heap s4 (current s4) = Some c'" "cr3 s4 = frame_pa C" "page_ref s4 kb \<noteq> 0"
    using task(1) caller(2) page(2) by (simp_all add: s4_def)
  obtain mm t u v y where y: "new_address_space fp s4 = Inr (mm, t)" "load_program fp (nat fd) mm t = Inr u"
    "build_stack (args_layout ?kbuf xs ys) mm u = Inr v" "enter_user v = Inr (Result (STACK_PAGE + of_nat (argv_off xs ys - 8), ?e) y)"
    and ay: "args_on_stack xs ys y"
    by (rule new_program_runs [OF c4(1,2) ks(1) c4(3) K4(1) ks(2) K4(2) page(1) c4(4) h4 f4 a4(2,3) lists(3), unfolded e4(1)])
  have "exec_image fd fp ?kbuf argv envp s = Inr (Result (STACK_PAGE + of_nat (argv_off xs ys - 8), ?e) y)"
    using a(1-3) a4(1) y by (simp add: exec_image_def)
  moreover note crt_finds_args [OF ay lists(3)]
  moreover have "strlist_at UNIV y (STACK_PAGE + of_nat (argv_off xs ys)) xs" "strlist_at UNIV y (STACK_PAGE + of_nat (envp_off xs ys)) ys"
    using ay strlist_at_mono [OF _ subset_UNIV] unfolding args_on_stack_def by blast+
  ultimately show ?thesis by blast
qed

section \<open>An example\<close>

text \<open>
  \<open>exec\<close> of a program with one argument \<open>sh\<close> and an empty environment, under the page tables of the start: an empty page in frame
  1100, the lists in frame 1101, a header with entry point \<open>0x4000e0\<close> in frame 1102.
\<close>

definition args_example :: kernel where
  "args_example = kernel_example\<lparr>page_ref := \<lambda>p. if p < 671 \<or> 1100 \<le> p \<and> p \<le> 1102 then 1 else 0, cr3 := frame_pa 545,
     ram := store64 (entry_pa 1101 0) (PA2VA (frame_pa 1101 + 16)) (store64 (entry_pa 1101 2) 0x6873
       (store64 (entry_pa 1102 3) 0x4000e0 (initial_pgtables (frame_pa 545) (\<lambda>_. 0))))\<rparr>"

lemma args_example_words:
  assumes "g < PAGE_ARRAY_SIZE" "i < 512"
  shows "frame_word (ram args_example) g i =
    (if g = 1101 \<and> i = 0 then PA2VA (frame_pa 1101 + 16) else if g = 1101 \<and> i = 2 then 0x6873
     else if g = 1102 \<and> i = 3 then 0x4000e0 else frame_word (initial_pgtables (frame_pa 545) (\<lambda>_. 0)) g i)"
  using assms by (auto simp: args_example_def frame_word_store64 small_frame_def)

lemma args_example_blank:
  assumes "1060 \<le> g" "g < PAGE_ARRAY_SIZE" "i < 512"
  shows "frame_word (initial_pgtables (frame_pa 545) (\<lambda>_. 0)) g i = 0"
  using initial_elsewhere [of 545 g i "\<lambda>_. 0"] assms by (simp add: small_frame_def frame_word_def load64_def)

lemma args_example_space: "kernel_space 545 args_example"
proof -
  let ?s = "args_example\<lparr>ram := initial_pgtables (frame_pa 545) (\<lambda>_. 0)\<rparr>"
  have "kernel_space 545 ?s" unfolding kernel_space_def
  proof (intro conjI allI impI)
    fix pa :: u64 assume pa: "unat pa < 134217728"
    have "frame_pa (unat pa div 4096) + of_nat (unat pa mod 4096) = pa"
      unfolding frame_pa_def of_nat_add [symmetric] mult_div_mod_eq by simp
    then show "walk (ram ?s) (frame_pa 545) (PA2VA pa) = Some pa"
      using initial_page [of 545 pa "\<lambda>_. 0"] path_PA2VA(2) [OF pa] pa by (simp add: walk_def ent_frame_pa)
    fix p q x assume "path (PA2VA pa) = p @ q" "q \<noteq> []" "walk_frame (ram ?s) 545 p = Some x"
    then have "page_ref booted_example x \<noteq> 0"
      by (intro kernel_tables_heldD [OF booted_example_tables pa]) (simp_all add: booted_example_def)
    then show "x < PAGE_ARRAY_SIZE" "page_ref ?s x \<noteq> 0" by (auto simp: booted_example_def args_example_def split: if_splits)
  qed
  then show ?thesis
    by (rule kernel_space_kept) (use args_example_blank in \<open>auto simp: args_example_words split: if_splits\<close>)
qed

text \<open>Words and bytes of frame \<open>x\<close>, read through the direct map.\<close>

lemma direct_byte:
  assumes C: "kernel_space C s" "cr3 s = frame_pa C" and x: "x < PAGE_ARRAY_SIZE" "kb < PAGE_ARRAY_SIZE" "x \<noteq> kb" and k: "k < 4096"
  shows "PA2VA (frame_pa x + of_nat k) \<in> readable kb s"
    "vload8 (PA2VA (frame_pa x + of_nat k)) s = Inr (load8 (ram s) (frame_pa x + of_nat k))"
proof -
  have "unat (frame_pa x + of_nat k) = 4096 * x + k"
    using x(1) k small_frame_of [OF x(1)] by (simp add: u64_unat unat_frame_pa small_frame_def)
  then have "unat (frame_pa x + of_nat k) < 134217728" using x(1) k by simp
  then have w: "walk (ram s) (cr3 s) (PA2VA (frame_pa x + of_nat k)) = Some (frame_pa x + of_nat k)"
    unfolding C(2) by (rule kernel_spaceD(2) [OF C(1)])
  then show "vload8 (PA2VA (frame_pa x + of_nat k)) s = Inr (load8 (ram s) (frame_pa x + of_nat k))" by (simp add: vload8_def)
  show "PA2VA (frame_pa x + of_nat k) \<in> readable kb s"
    using w frames_apart [OF small_frame_of [OF x(1)] small_frame_of [OF x(2)] x(3) k] by (auto simp: readable_def)
qed

lemma direct_word:
  assumes C: "kernel_space C s" "cr3 s = frame_pa C" and x: "x < PAGE_ARRAY_SIZE" "kb < PAGE_ARRAY_SIZE" "x \<noteq> kb" and i: "i < 512"
  shows "word_at (readable kb s) s (PA2VA (entry_pa x i)) (frame_word (ram s) x i)"
    "j < 8 \<Longrightarrow> vload8 (PA2VA (entry_pa x i) + of_nat j) s = Inr (word_byte (frame_word (ram s) x i) j)"
    "j < 8 \<Longrightarrow> PA2VA (entry_pa x i) + of_nat j \<in> readable kb s"
proof -
  have e: "PA2VA (entry_pa x i) + of_nat j = PA2VA (frame_pa x + of_nat (8 * i + j))" "entry_pa x i + of_nat j = frame_pa x + of_nat (8 * i + j)" for j
    by (simp_all add: PA2VA_def entry_pa_def frame_pa_def algebra_simps)
  have u: "unat (entry_pa x i) = 4096 * x + 8 * i" using small_frame_of [OF x(1)] i by (simp add: unat_entry_pa)
  then have al: "unat (entry_pa x i) mod 8 = 0" by (simp add: mod_add_left_eq [symmetric])
  have un: "unat (PA2VA (entry_pa x i)) = 18446744071562067968 + unat (entry_pa x i)" using u x(1) i by (intro unat_PA2VA) simp
  have b: "vload8 (PA2VA (entry_pa x i) + of_nat j) s = Inr (word_byte (frame_word (ram s) x i) j)"
    "PA2VA (entry_pa x i) + of_nat j \<in> readable kb s" if "j < 8" for j
    using direct_byte [OF C x, of "8 * i + j"] load8_word [OF al that, of "ram s"] that i unfolding e by (simp_all add: frame_word_def)
  from b show "j < 8 \<Longrightarrow> vload8 (PA2VA (entry_pa x i) + of_nat j) s = Inr (word_byte (frame_word (ram s) x i) j)"
    "j < 8 \<Longrightarrow> PA2VA (entry_pa x i) + of_nat j \<in> readable kb s" by simp_all
  have "unat (PA2VA (entry_pa x i)) mod 8 = 0" using al unfolding un by (simp add: mod_add_left_eq [symmetric] u)
  then show "word_at (readable kb s) s (PA2VA (entry_pa x i)) (frame_word (ram s) x i)"
    using b by (simp add: word_at_def vload64_bytes)
qed

lemma args_example_lists:
  "strlist_at (readable 1100 args_example) args_example (PA2VA (frame_pa 1101)) [''sh'']"
  "strlist_at (readable 1100 args_example) args_example (PA2VA (frame_pa 1101) + 8) []"
proof -
  have c: "cr3 args_example = frame_pa 545" by (simp add: args_example_def)
  note w = direct_word [OF args_example_space c, of 1101 1100]
  have a: "PA2VA (entry_pa 1101 0) = PA2VA (frame_pa 1101)" "PA2VA (entry_pa 1101 1) = PA2VA (frame_pa 1101) + 8"
    "PA2VA (entry_pa 1101 2) = PA2VA (frame_pa 1101 + 16)" by (simp_all add: entry_pa_def frame_pa_def PA2VA_def)
  show end_of_list: "strlist_at (readable 1100 args_example) args_example (PA2VA (frame_pa 1101) + 8) []"
    using w(1) [of 1] args_example_words [of 1101 1] args_example_blank [of 1101 1] by (simp add: a(2) del: One_nat_def)
  have "string_at (readable 1100 args_example) args_example (PA2VA (frame_pa 1101 + 16)) ''sh''"
    unfolding string_at_def
  proof (intro conjI allI impI)
    show "NUL \<notin> set ''sh''" by simp
    show "PA2VA (frame_pa 1101 + 16) + of_nat i \<in> readable 1100 args_example" if "i \<le> length ''sh''" for i
      using w(3) [of 2 i] that by (simp add: a)
    show "vload8 (PA2VA (frame_pa 1101 + 16) + of_nat i) args_example = Inr (char_byte (''sh'' ! i))" if "i < length ''sh''" for i
    proof -
      have "i = 0 \<or> i = 1" using that by auto
      moreover have "word_byte 0x6873 0 = char_byte CHR ''s''" "word_byte 0x6873 1 = char_byte CHR ''h''" by (simp_all add: word_byte_def char_byte_def)
      ultimately show ?thesis using w(2) [of 2 i] args_example_words [of 1101 2] by (elim disjE) (simp_all add: a(3))
    qed
    show "vload8 (PA2VA (frame_pa 1101 + 16) + of_nat (length ''sh'')) args_example = Inr 0"
      using w(2) [of 2 2] args_example_words [of 1101 2] by (simp add: a(3) word_byte_def)
  qed
  moreover have "word_at (readable 1100 args_example) args_example (PA2VA (frame_pa 1101)) (PA2VA (frame_pa 1101 + 16))"
    using w(1) [of 0] args_example_words [of 1101 0] by (simp add: a)
  moreover have "PA2VA (frame_pa 1101 + 16) \<noteq> 0" by (simp add: PA2VA_def KERNEL_OFFSET_def frame_pa_def)
  ultimately show "strlist_at (readable 1100 args_example) args_example (PA2VA (frame_pa 1101)) [''sh'']"
    using end_of_list by auto
qed

lemma args_example_header:
  "held 1100 (PA2VA (frame_pa 1102)) 64 args_example" "load_le 2 (ram args_example) (PA2VA (frame_pa 1102) + 56) = 0"
  "load_le 8 (ram args_example) (PA2VA (frame_pa 1102) + 24) = 0x4000e0"
proof -
  show "held 1100 (PA2VA (frame_pa 1102)) 64 args_example" unfolding held_def
  proof (intro allI impI)
    fix i :: nat assume "i < 64"
    then show "\<exists>x k. VA2PA (PA2VA (frame_pa 1102) + of_nat i) = frame_pa x + of_nat k \<and> k < 4096 \<and> x < PAGE_ARRAY_SIZE \<and>
        page_ref args_example x \<noteq> 0 \<and> x \<noteq> 1100"
      by (intro exI [of _ 1102] exI [of _ i]) (simp add: VA2PA_def PA2VA_def args_example_def)
  qed
  have b: "load8 (ram args_example) (VA2PA (PA2VA (frame_pa 1102) + 8 * of_nat i + of_nat j)) = word_byte (frame_word (ram args_example) 1102 i) j"
    if "i < 512" "j < 8" for i j
  proof -
    have "unat (entry_pa 1102 i) = 4096 * 1102 + 8 * i" using that(1) by (simp add: unat_entry_pa small_frame_def)
    then have "unat (entry_pa 1102 i) mod 8 = 0" by (simp add: mod_add_left_eq [symmetric])
    moreover have "VA2PA (PA2VA (frame_pa 1102) + 8 * of_nat i + of_nat j) = entry_pa 1102 i + of_nat j"
      by (simp add: VA2PA_def PA2VA_def entry_pa_def frame_pa_def algebra_simps)
    ultimately show ?thesis using load8_word [OF _ that(2)] by (simp add: frame_word_def)
  qed
  have u: "[0..<8] = [0, 1, 2, 3, 4, 5, 6, 7 :: nat]" "[0..<2] = [0, 1 :: nat]" by (simp_all add: upt_rec)
  have w: "frame_word (ram args_example) 1102 7 = 0" "frame_word (ram args_example) 1102 3 = 0x4000e0"
    using args_example_words [of 1102 7] args_example_words [of 1102 3] args_example_blank [of 1102 7] by simp_all
  show "load_le 2 (ram args_example) (PA2VA (frame_pa 1102) + 56) = 0"
    using b [of 7 0] b [of 7 1] unfolding load_le_def u w by (simp add: word_byte_def add.assoc)
  show "load_le 8 (ram args_example) (PA2VA (frame_pa 1102) + 24) = 0x4000e0"
    using b [of 3 0] b [of 3 1] b [of 3 2] b [of 3 3] b [of 3 4] b [of 3 5] b [of 3 6] b [of 3 7]
    unfolding load_le_def u w by (simp add: word_byte_def add.assoc)
qed

theorem program_arguments_witness:
  "\<exists>sp t argvp envpp. exec_image 3 (PA2VA (frame_pa 1102)) (PA2VA (frame_pa 1100)) (PA2VA (frame_pa 1101)) (PA2VA (frame_pa 1101) + 8)
       args_example = Inr (Result (sp, 0x4000e0) t) \<and>
     crt_args (sp - 24) t = Inr (1, argvp, envpp) \<and> strlist_at UNIV t argvp [''sh''] \<and> strlist_at UNIV t envpp []"
proof -
  have c: "current args_example \<noteq> 0" "task_heap args_example (current args_example) = Some (zero_task\<lparr>t_mm := 0x2000, pid := 1, t_state := ACTIVE\<rparr>)"
    "cr3 args_example = frame_pa 545" "pgd_start args_example = PA2VA (frame_pa 545)" "page_ref args_example 1100 \<noteq> 0"
    by (simp_all add: args_example_def kernel_example_def)
  have z: "\<forall>i<256. frame_word (ram args_example) 545 i = 0" "\<forall>i<512. frame_word (ram args_example) 1100 i = 0"
    using args_example_blank by (simp_all add: args_example_words initial_words(6) load64_def frame_word_def [of "\<lambda>_. 0"])
  have "{700..<708} \<subseteq> free_frames args_example" by (auto simp: free_frames_def pool_def args_example_def)
  then have "card {700..<708 :: nat} \<le> card (free_frames args_example)" by (intro card_mono) simp_all
  then have n: "unat (load_le 2 (ram args_example) (PA2VA (frame_pa 1102) + 56)) + 8 \<le> card (free_frames args_example)"
    unfolding args_example_header(2) by simp
  have "\<exists>sp t argvp envpp. exec_image 3 (PA2VA (frame_pa 1102)) (PA2VA (frame_pa 1100)) (PA2VA (frame_pa 1101)) (PA2VA (frame_pa 1101) + 8)
       args_example = Inr (Result (sp, load_le 8 (ram args_example) (PA2VA (frame_pa 1102) + 24)) t) \<and>
     crt_args (sp - 24) t = Inr (of_nat (length [''sh'']), argvp, envpp) \<and> strlist_at UNIV t argvp [''sh''] \<and> strlist_at UNIV t envpp []"
    by (rule program_arguments [OF c(1,2) args_example_space c(3,4) args_example_space z(1) _ c(5) z(2) args_example_lists _ _ args_example_header(1) n])
       (simp_all add: fits_def zero_task_def)
  then show ?thesis unfolding args_example_header(3) by simp
qed

end
