(* ===== verification/Spec2Isabelle.thy ===== *)
theory Spec2Isabelle
  imports Console PhysMem Paging AddressSpace TaskMachine Exec FileProps TypedInput HeapRuns CopyOnWrite ShellKernel BootThreads ProgramArgs
begin

text \<open>
  Plum OS: a small x86-64 kernel with a user library, a shell and a few programs (src/).

  \<^bold>\<open>The program.\<close> The boot code (sys/main.c) collects the memory map of the loader, programs the
  interrupt controllers, the timer and the descriptor tables (sys/pic.c, itimer.c, idt.c, gdt.c), initialises the
  parts in turn and starts the first threads. Physical memory (sys/mm.c) is handed out in frames of 4 KB with a reference count
  each; address spaces are four-level page tables that are filled in by page faults (sys/mmap.c) and
  shared copy-on-write after \<open>fork\<close>. Tasks live on four linked lists (sys/process.c): active, sleeping,
  waiting for standard input, and zombies; the timer interrupt (sys/timer.c) and every call that
  blocks end in \<open>schedule\<close>. Files are read from a tar archive inside the kernel image (sys/tarfs.c).
  Programs enter the kernel by the \<open>syscall\<close> instruction (sys/syscall.c); the keyboard interrupt
  (sys/kbd.c) fills the line buffer behind standard input. On the user side there is an allocator over
  the system call \<open>brk\<close> (libc/malloc.c) and a shell (bin/sbush, libc/shlib.c) over the user library.

  \<^bold>\<open>How the code is modelled.\<close> A C function is a function from the state to a result or a \<open>fault\<close>
  (theory Plum_Prelude): panics and failed assertions, reads through NULL, accesses outside an object,
  page faults in kernel mode and loops that use up their bound are values, and the code behind them
  does not run. The kernel's state is one record, extended component by component (\<open>console\<close>,
  \<open>phymem\<close>, \<open>kernel\<close>, and for the start-up \<open>machine\<close> with the registers of the processor and the devices); \<open>u8\<close> to \<open>u64\<close> are words of that width and wrap around; an \<open>int\<close> whose sign
  matters is an \<open>int\<close> or read with \<open>sint\<close>. A call after which another task runs ends in
  \<open>Switched\<close>. Physical memory is a map from addresses to 64-bit words with byte access; page tables
  are in that memory, kernel objects (tasks, areas, address spaces) in heaps of records of their own, so a store to the page of an object
  would not be seen there: a key stroke that is stored while the line buffer shares the page of an object is the fault \<open>Object_Overwritten\<close>. User
  programs run over a state of their own, with the kernel as an argument.

  \<^bold>\<open>Theories.\<close>
  \<^item> Plum_Prelude: C types, faults, sequencing (\<open>rbind\<close>, \<open>check\<close>, \<open>rfold\<close>), facts on lists and words.
  \<^item> CString: sys/string.c and libc/string.c. Comparison decides equality; \<open>strncpy\<close> terminates.
  \<^item> Console: sys/printf.c. Printed numbers read back; \<open>printf\<close> stays within its buffer and the cursor
    on the screen, but for a late tab and a rub-out at the left edge.
  \<^item> Ram, PhysMem: memory words, boot-time layout, reference counts and the frame allocator (first half
    of sys/mm.c). The layout after \<open>mm_init\<close>; frames are handed out once and come back.
  \<^item> Paging: include/sys/pgtable.h and the processor's address translation. The direct map, the
    self-referencing entry, and new page directories.
  \<^item> HeapList, Objects, Vm: linked lists in a heap, the kernel's objects, memory areas and address spaces
    (second half of sys/mm.c, \<open>copy_mm\<close> of sys/syscall.c).
  \<^item> AddressSpace, CopyOnWrite: page tables as trees of frames; demand paging and the copy-on-write fault
    change exactly the page they are about.
  \<^item> Tasks, TaskLists, Scheduler, TaskMoves, TaskMachine: sys/process.c, sys/timer.c, sys/mmap.c and the
    process part of sys/syscall.c. The lists as an abstract data type, round-robin scheduling, the moves of
    tasks, and the invariant of all event sequences; \<open>schedule\<close> always ends.
  \<^item> Tarfs, TarArchive: sys/tarfs.c, and what it promises on a well-formed archive.
  \<^item> FileCalls, ProcCalls, Exec: every system call of sys/syscall.c with the dispatcher, and \<open>exec\<close> of
    sys/process.c. UserCopy, FileProps: reads deliver the file's bytes; directories and working directories.
  \<^item> Devices, Descriptors: sys/pic.c, itimer.c, gdt.c, idt.c and \<open>init_syscall\<close>, against what the interrupt controllers
    and the processor make of the bytes and descriptors they are given.
  \<^item> Boot, BootThreads: sys/main.c from the loader's memory map to the first threads; the state it reaches satisfies the
    invariant of TaskMachine.
  \<^item> Keyboard, TypedInput: sys/kbd.c; from key strokes to the reader of standard input.
  \<^item> Malloc, HeapBlocks, HeapOps, KernelBreak, UserHeap, HeapRuns: libc/malloc.c, sbrk.c, brk.c. The heap as
    a list of blocks, the contract of \<open>malloc\<close> and \<open>free\<close> over the kernel's own \<open>brk\<close>, and programs that use them.
  \<^item> UserLib, ShellLib, ShellFiles, Sbush: the user library (libc/printf.c, dir.c, path.c, math.c and the
    wrappers), libc/shlib.c, bin/sbush/sbush.c, and the programs cat, ls and kill.
  \<^item> CommandLine, ShellVars, ShellPath, ShellRuns, ShellKernel: command lines against a reference splitter, variables as a
    finite map, the search path, and a typed command from its text to the running program, over the kernel's own \<open>tarfs_open\<close>.
  \<^item> UserCalls: the system-call stubs of include/syscall.h, the entry code of sys/entry.s up to the call of the dispatcher,
    and the user functions that only issue one system call (libc/file.c, fork.c, signal.c, exit.c).
  \<^item> PageWindow, ExecArgs, NewProgram, ProgramStart, ProgramArgs: what \<open>exec\<close> hands over to a program. Strings and lists of strings in
    memory, the copies \<open>exec\<close> makes of the argument lists in a page of its own, the new address space with the areas of the
    program, the stack page, and the start code of crt/crt1.c, which passes on to \<open>main\<close> the strings \<open>exec\<close> was called with.

  \<^bold>\<open>Interfaces.\<close> Where one part relies on a contract of another, the contract is a locale, and the part's
  lemmas are proved in it once: \<open>linked_nodes\<close> (linked lists; interpreted by task and area links),
  \<open>frame_allocator\<close> and \<open>frame_recycler\<close> (interpreted by \<open>get_zero_page\<close> and by \<open>get_free_page\<close> with \<open>free_page\<close>),
  \<open>list_family\<close> (a family of disjoint lists; interpreted by the four task lists), \<open>tar_checker\<close> (a comparison
  function for walks over the archive; interpreted by \<open>strcmp\<close> and \<open>belongs_to_dir\<close>) \<open>program_break\<close>
  (the system call \<open>brk\<close>; interpreted by the kernel's) and \<open>page_window\<close> (states in which the bytes of one mapped page can be
  written and everything else the writer reads stays; interpreted by \<open>window_from\<close>, the states a page frame is mapped in). The user library has the kernel and the
  contents of new blocks as arguments (record \<open>environment\<close>); the hypotheses on them are \<open>roomy\<close> (\<open>malloc\<close>
  succeeds) and \<open>files\<close> (which of the given names \<open>open\<close> takes in one given kernel state); ShellKernel proves \<open>files\<close> for every
  environment whose \<open>open\<close> is \<open>tarfs_open\<close> where that returns (\<open>opens_by_tarfs\<close>), in states with a free descriptor.

  \<^bold>\<open>Bounds.\<close> Loops over counted ranges, buffers and sizes are total functions. The others have a bound,
  which is large enough for every state the machine can be in: \<open>LIST_FUEL\<close> is the number of page frames, and
  every node of a kernel list has a frame of its own; \<open>SCHED_FUEL\<close> allows two rounds of the scheduler for
  each of these, and \<open>schedule_ends\<close> proves that it suffices; \<open>STRING_FUEL\<close> and \<open>STRLIST_FUEL\<close> are the size
  of physical memory in bytes and in pointers; \<open>HEAP_FUEL\<close> is the number of smallest blocks in the 1 GB a
  user heap may have, and the contracts of \<open>malloc\<close> show that the walk ends; \<open>READDIR_FUEL\<close> is four
  times the number of 512-byte entries that fit into physical memory; \<open>MODULE_FUEL\<close> is the number of modules of
  eight bytes that fit into it. \<open>sbush_rounds\<close> and \<open>cat_loop\<close> take the number of
  rounds as an argument: the shell's loop does not end by itself.

  \<^bold>\<open>Not modelled.\<close> The entry code of the interrupts, the return from system calls and the context switch in assembly (sys/*.s): the model of an operation ends in the
  state such code leaves. newfs, a tool for the host that
  only writes a file; the test programs under bin/; \<open>dump_stack\<close>. The interrupt flag and the saved
  register contents of tasks that are not running are not part of the state: a task that is switched
  away from keeps its kernel stack pointer only. \<open>thread_idle\<close> is an empty endless loop.
\<close>

section \<open>Opening and reading a file\<close>

lemma find_SomeD_in: "List.find P xs = Some x \<Longrightarrow> x \<in> set xs"
  by (induction xs) (auto split: if_splits)

text \<open>
  C2. From the name of a file to its contents in a user buffer. On a well-formed archive, opening a
  file and reading from the descriptor that is returned delivers the first bytes of the
  file's entry in the archive: as many as asked for, up to the file's size rounded up to 512.
\<close>

theorem open_then_read:
  fixes s :: "'a kernel_scheme"
  assumes tar: "tar_at (archive s) 0 es"
    and name: "NUL \<in> set filename" "length (cstr filename) < FILE_NAME_SIZE"
      "n = dropWhile (\<lambda>c. c = CHR ''/'') (cstr filename)" "n \<noteq> []" "length n \<le> 62"
    and entry: "List.find (selects (=) n) (offsets 0 es) = Some (off, e)" "\<not> e_dir e"
    and task: "current s \<noteq> 0" "task_heap s (current s) = Some t" "\<forall>f\<in>set (file_array t). file_ok f"
      "length (file_array t) = MAX_FILE_NUM" "free_fd t = Some i" "f_pos (file_array t ! i) = 0"
    and size: "sz \<noteq> 0" "k = min (unat sz) (round512 (e_size e))"
    and buf: "user_buffer s f buf k" "\<forall>j<k. apart s f (VA2PA (tarfs_start s + of_nat (off + 512 + j)))"
      "off + 512 + k \<le> length (archive s)"
    and call: "sf_rdi sf = of_nat i" "sf_rsi sf = buf" "sf_rdx sf = sz"
  shows "\<exists>u v. tarfs_open sp filename (c_lit ''r'') s = Inr (Result (int i) u) \<and>
    sys_read sp sf u = Inr (Result (of_nat k) v) \<and>
    (\<forall>j<k. \<exists>b. vload8 (buf + of_nat j) v = Inr b \<and> byte_char b = archive s ! (off + 512 + j))"
proof -
  obtain fl where fl: "opened s n (off, e) (file_array t ! i) fl"
    and op: "tarfs_open sp filename (c_lit ''r'') s = Inr (Result (int i)
      (s\<lparr>task_heap := (task_heap s)(current s \<mapsto> t\<lparr>file_array := (file_array t)[i := fl]\<rparr>)\<rparr>))" (is "_ = Inr (Result _ ?u)")
    using tarfs_open_found [OF tar name task(1-5)] entry(1) by auto
  have "i \<in> set [START_FD..<MAX_FILE_NUM]" using task(5) unfolding free_fd_def by (rule find_SomeD_in)
  then have i: "START_FD \<le> i" "i < MAX_FILE_NUM" by (simp_all only: set_upt atLeastLessThan_iff)
  have f: "f_start_addr fl = tarfs_start s + of_nat (off + 512)" "f_pos fl = 0" "f_type fl = FT_FILE"
    "f_size fl = of_nat (round512 (e_size e))"
    using fl entry(2) task(6) by (simp_all add: opened_def)
  have cf: "current_file (int i) ?u = Inr fl" using task i by (simp add: current_file_def)
  have "e_size e < 2147482624"
    using header_ofD(6) [OF offsets_in_archive [OF tar]] find_SomeD_in [OF entry(1)] by blast
  then have rs: "round512 (e_size e) < 2147483648" by (simp add: round512_def)
  have us: "unat (f_size fl) = round512 (e_size e)" using rs by (simp add: f(4) unat_of_nat64)
  have rc: "read_count fl sz = k" using us f(2) size(2) by (simp add: read_count_def)
  have addr: "f_start_addr fl + f_pos fl + of_nat j = tarfs_start s + of_nat (off + 512 + j)" for j
    by (simp add: f(1,2) add.assoc)
  have ub: "user_buffer ?u f buf (read_count fl sz)"
    unfolding rc by (rule user_buffer_heap [OF buf(1) task(2)]) simp
  have ap: "\<forall>j<read_count fl sz. apart ?u f (VA2PA (f_start_addr fl + f_pos fl + of_nat j))"
    using buf(2) unfolding rc addr by (simp add: apart_def)
  obtain v where v: "read_file (int i) buf sz ?u = Inr (of_nat k, v)" "delivered (int i) buf k f fl ?u v"
    using read_file_reads [OF cf f(3) _ _ ub ap] unat_lt64 [of sz] f(2) unfolding rc by auto
  have arg: "int_arg (sf_rdi sf) = int i" unfolding call(1) using i by (intro int_arg_small) simp
  have "sys_read sp sf ?u = Inr (Result (of_nat k) v)"
    using v(1) i size(1) unfolding sys_read_def arg call(2,3) by simp
  moreover have "\<exists>b. vload8 (buf + of_nat j) v = Inr b \<and> byte_char b = archive s ! (off + 512 + j)" if "j < k" for j
  proof -
    have "vload8 (buf + of_nat j) v = Inr (load8 (ram s) (VA2PA (tarfs_start s + of_nat (off + 512 + j))))"
      using v(2) that unfolding delivered_def addr by simp
    moreover have "archive s ! (off + 512 + j) = byte_char (load8 (ram s) (VA2PA (tarfs_start s + of_nat (off + 512 + j))))"
      using buf(3) that unfolding archive_def by (simp add: byte_char_def)
    ultimately show ?thesis by simp
  qed
  ultimately show ?thesis using op by blast
qed

text \<open>The saved registers of \<open>read(3, 0x600100, 5)\<close>.\<close>

definition read_call :: sc_frame where
  "read_call = \<lparr>sf_rbp = 0, sf_r15 = 0, sf_r14 = 0, sf_r13 = 0, sf_r11 = 0, sf_r10 = 0, sf_r9 = 0, sf_r8 = 0, sf_rdi = 3, sf_rsi = 0x600100, sf_rdx = 5, sf_rcx = 0, sf_rbx = 0\<rparr>"

theorem open_then_read_witness:
  "\<exists>u v. tarfs_open 0 (c_lit ''/bin/sh'') (c_lit ''r'') tar_example = Inr (Result 3 u) \<and>
     sys_read 0 read_call u = Inr (Result 5 v) \<and>
     (\<forall>j<5. \<exists>b. vload8 (0x600100 + of_nat j) v = Inr b \<and> byte_char b = ''hello'' ! j)"
proof -
  let ?t = "zero_task\<lparr>t_mm := 0x2000, pid := 1, t_state := ACTIVE\<rparr>"
  have at: "tar_at (archive tar_example) 0 example_entries" using example_tar_at(1) by (simp only: archive_tar_example)
  have t: "task_heap tar_example (current tar_example) = Some ?t" "current tar_example \<noteq> 0"
    by (simp_all add: tar_example_def kernel_example_def)
  have fd: "free_fd ?t = Some 3" by (simp add: free_fd_def find_upt_Some zero_task_def zero_file_def)
  have find: "List.find (selects (=) ''bin/sh'') (offsets 0 example_entries) = Some (512, \<lparr>e_name = ''bin/sh'', e_dir = False, e_size = 5\<rparr>)"
    by (simp add: example_entries_def selects_def with_slash_def entry_length_def)
  have n: "''bin/sh'' = dropWhile (\<lambda>c. c = CHR ''/'') (cstr (c_lit ''/bin/sh''))" by simp
  have k: "5 = min (unat (5 :: u64)) (round512 (e_size \<lparr>e_name = ''bin/sh'', e_dir = False, e_size = 5\<rparr>))"
    by (simp add: round512_def)
  have ap: "apart tar_example 671 (VA2PA (tarfs_start tar_example + of_nat (512 + 512 + j)))" if "j < 5" for j
    using read_example_apart [of j] that
    by (simp add: apart_def read_example_def sh_file_def tar_example_def add.assoc)
  have ex: "example_tar ! (512 + 512 + j) = ''hello'' ! j" if "j < 5" for j
    using that by (simp add: example_tar_def nth_append length_ustar_header del: append_Cons)
  have "\<exists>u v. tarfs_open 0 (c_lit ''/bin/sh'') (c_lit ''r'') tar_example = Inr (Result (int 3) u) \<and>
      sys_read 0 read_call u = Inr (Result (of_nat 5) v) \<and>
      (\<forall>j<5. \<exists>b. vload8 (0x600100 + of_nat j) v = Inr b \<and> byte_char b = archive tar_example ! (512 + 512 + j))"
    by (rule open_then_read [OF at _ _ n _ _ find _ t(2,1) _ _ fd _ _ k tar_example_buffer])
       (use ap in \<open>simp_all add: archive_tar_example example_tar_at(2) read_call_def\<close>, simp_all add: zero_task_def zero_file_def file_ok_def)
  then show ?thesis using ex unfolding archive_tar_example by auto
qed

end
